(* ===== verification/Prelude.thy ===== *)
theory Prelude
  imports Main "HOL-Library.Word" "HOL-Library.Char_ord"
begin

text \<open>
  Shared vocabulary of the development: C strings and the parts of the C library the sources
  call, and generic lemmas on lists and options.

  A C string is a \<open>string\<close> without its terminating NUL. Every string of the model is NUL free
  by convention (a NUL ends the string in C), so that reading the byte at index \<open>length s\<close>
  gives NUL and reading beyond it is out of bounds; \<open>c_read\<close> makes that an option. Character
  classes are those of the C locale, which the sources run the policy parser in.
\<close>

named_theorems ctype_simps "definitions of the character classes"
named_theorems cstring_simps "definitions of the C string functions"

section \<open>Characters\<close>

abbreviation NUL :: char where
  "NUL \<equiv> CHR 0x00"

abbreviation code :: "char \<Rightarrow> nat" where
  "code c \<equiv> of_char c"

definition c_isdigit :: "char \<Rightarrow> bool" where
  [ctype_simps]: "c_isdigit c \<longleftrightarrow> 48 \<le> code c \<and> code c \<le> 57"

definition c_isupper :: "char \<Rightarrow> bool" where
  [ctype_simps]: "c_isupper c \<longleftrightarrow> 65 \<le> code c \<and> code c \<le> 90"

definition c_islower :: "char \<Rightarrow> bool" where
  [ctype_simps]: "c_islower c \<longleftrightarrow> 97 \<le> code c \<and> code c \<le> 122"

definition c_isalpha :: "char \<Rightarrow> bool" where
  [ctype_simps]: "c_isalpha c \<longleftrightarrow> c_isupper c \<or> c_islower c"

definition c_isspace :: "char \<Rightarrow> bool" where
  [ctype_simps]: "c_isspace c \<longleftrightarrow> code c = 32 \<or> (9 \<le> code c \<and> code c \<le> 13)"

definition c_isprint :: "char \<Rightarrow> bool" where
  [ctype_simps]: "c_isprint c \<longleftrightarrow> 32 \<le> code c \<and> code c \<le> 126"

definition c_tolower :: "char \<Rightarrow> char" where
  [ctype_simps]: "c_tolower c = (if c_isupper c then char_of (code c + 32) else c)"

definition digit_val :: "char \<Rightarrow> int" where
  [ctype_simps]: "digit_val c = int (code c) - 48"

lemma code_lt_256 [simp]: "code c < 256"
proof -
  have "code c = code c mod 256"
    by (metis char_of_mod_256 of_char_of of_char_mod_256)
  then show ?thesis by (metis mod_less_divisor zero_less_numeral)
qed

lemma code_inject [simp]: "(code c = code d) = (c = d)"
  by (metis char_of_char)

lemma digit_val_range: "c_isdigit c \<Longrightarrow> 0 \<le> digit_val c \<and> digit_val c \<le> 9"
  by (auto simp: ctype_simps)

lemma NUL_not_digit [simp]: "\<not> c_isdigit NUL"
  by (simp add: ctype_simps)

lemma tolower_idem [simp]: "c_tolower (c_tolower c) = c_tolower c"
  by (auto simp: ctype_simps)

section \<open>Strings\<close>

definition c_read :: "string \<Rightarrow> nat \<Rightarrow> char option" where
  [cstring_simps]: "c_read s i = (if i < length s then Some (s ! i)
     else if i = length s then Some NUL else None)"

definition c_at :: "string \<Rightarrow> char" where
  \<comment> \<open>\<open>*p\<close> for a pointer \<open>p\<close> into a string, the string being what is left of it\<close>
  [cstring_simps]: "c_at s = (case s of [] \<Rightarrow> NUL | c # _ \<Rightarrow> c)"

definition strncmp_eq :: "string \<Rightarrow> string \<Rightarrow> nat \<Rightarrow> bool" where
  \<comment> \<open>\<open>strncmp(s, t, n) == 0\<close>\<close>
  [cstring_simps]: "strncmp_eq s t n \<longleftrightarrow> take n s = take n t"

definition strchr :: "string \<Rightarrow> char \<Rightarrow> string option" where
  \<comment> \<open>the rest of the string from the first occurrence on, NULL as None\<close>
  [cstring_simps]: "strchr s c =
     (let r = dropWhile (\<lambda>x. x \<noteq> c) s in if r = [] then None else Some r)"

definition strrchr :: "string \<Rightarrow> char \<Rightarrow> string option" where
  "strrchr s c =
     (let t = takeWhile (\<lambda>x. x \<noteq> c) (rev s) in
      if length t = length s then None else Some (c # rev t))"

definition strcspn1 :: "string \<Rightarrow> char \<Rightarrow> nat" where
  \<comment> \<open>\<open>strcspn\<close> with a reject set of one character\<close>
  [cstring_simps]: "strcspn1 s c = length (takeWhile (\<lambda>x. x \<noteq> c) s)"

definition strpbrk_any :: "string \<Rightarrow> string \<Rightarrow> bool" where
  \<comment> \<open>\<open>strpbrk(s, accept) != NULL\<close>\<close>
  [cstring_simps]: "strpbrk_any s acc \<longleftrightarrow> list_ex (\<lambda>c. c \<in> set acc) s"

definition strcase_eq :: "string \<Rightarrow> string \<Rightarrow> bool" where
  \<comment> \<open>\<open>strcasecmp(s, t) == 0\<close>\<close>
  [cstring_simps]: "strcase_eq s t \<longleftrightarrow> map c_tolower s = map c_tolower t"

fun strcmp :: "string \<Rightarrow> string \<Rightarrow> int" where
  \<comment> \<open>the difference of the first bytes that differ; both strings end at a NUL\<close>
  "strcmp [] [] = 0"
| "strcmp [] (y # ys) = - int (code y)"
| "strcmp (x # xs) [] = int (code x)"
| "strcmp (x # xs) (y # ys) =
     (if x \<noteq> y then int (code x) - int (code y) else if x = NUL then 0 else strcmp xs ys)"

definition cstr :: "string \<Rightarrow> string" where
  \<comment> \<open>what C sees of a list of bytes: the part before the first NUL\<close>
  "cstr s = takeWhile (\<lambda>c. c \<noteq> NUL) s"

definition nul_free :: "string \<Rightarrow> bool" where
  "nul_free s \<longleftrightarrow> NUL \<notin> set s"

lemma nul_free_Nil [simp]: "nul_free []"
  by (simp add: nul_free_def)

lemma nul_free_Cons [simp]: "nul_free (c # s) \<longleftrightarrow> c \<noteq> NUL \<and> nul_free s"
  by (auto simp: nul_free_def)

lemma nul_free_append [simp]: "nul_free (s @ t) \<longleftrightarrow> nul_free s \<and> nul_free t"
  by (auto simp: nul_free_def)

lemma code_zero_iff [simp]: "(code c = 0) = (c = NUL)"
  using code_inject [of c NUL] by simp

lemma code_pos_iff [simp]: "0 < code c \<longleftrightarrow> c \<noteq> NUL"
  using code_zero_iff [of c] by linarith

lemma nul_free_cstr [simp]: "nul_free (cstr s)"
  by (auto simp: nul_free_def cstr_def dest: set_takeWhileD)

lemma cstr_nul_free [simp]: "nul_free s \<Longrightarrow> cstr s = s"
  by (auto simp: nul_free_def cstr_def takeWhile_eq_all_conv)

lemma strcmp_cstr: "strcmp s t = strcmp (cstr s) (cstr t)"
  by (induction s t rule: strcmp.induct) (auto simp: cstr_def)

lemma strcmp_refl [simp]: "strcmp s s = 0"
  by (induction s) auto

lemma strcmp_nul_free_eq_0:
  "nul_free s \<Longrightarrow> nul_free t \<Longrightarrow> strcmp s t = 0 \<longleftrightarrow> s = t"
  by (induction s t rule: strcmp.induct) auto

lemma strcmp_eq_0: "strcmp s t = 0 \<longleftrightarrow> cstr s = cstr t"
  by (subst strcmp_cstr) (simp add: strcmp_nul_free_eq_0)

lemma strcmp_swap: "strcmp t s = - strcmp s t"
  by (induction s t rule: strcmp.induct) auto

lemma strcmp_nul_free_trans:
  "strcmp s t < 0 \<Longrightarrow> strcmp t u < 0 \<Longrightarrow> nul_free s \<Longrightarrow> nul_free t \<Longrightarrow> nul_free u
     \<Longrightarrow> strcmp s u < 0"
proof (induction s t arbitrary: u rule: strcmp.induct)
  case (2 y ys)
  then show ?case by (cases u) (auto split: if_splits)
next
  case (4 x xs y ys)
  then show ?case by (cases u) (auto split: if_splits)
qed auto

lemma strcmp_trans: "strcmp s t < 0 \<Longrightarrow> strcmp t u < 0 \<Longrightarrow> strcmp s u < 0"
  by (metis strcmp_cstr strcmp_nul_free_trans nul_free_cstr)

lemma strcmp_cong: "strcmp s t = 0 \<Longrightarrow> strcmp s u = strcmp t u"
  by (metis strcmp_cstr strcmp_eq_0)

lemma strcmp_cong_right: "strcmp s t = 0 \<Longrightarrow> strcmp u s = strcmp u t"
  by (metis strcmp_cstr strcmp_eq_0)

lemma strrchr_split:
  "strrchr s c = Some t \<Longrightarrow> s = take (length s - length t) s @ t \<and> t \<noteq> [] \<and> hd t = c"
proof -
  assume a: "strrchr s c = Some t"
  let ?u = "takeWhile (\<lambda>x. x \<noteq> c) (rev s)" and ?d = "dropWhile (\<lambda>x. x \<noteq> c) (rev s)"
  have t: "t = c # rev ?u" "length ?u \<noteq> length s"
    using a by (auto simp: strrchr_def Let_def split: if_splits)
  have "?d \<noteq> []" using t(2) by (metis length_rev self_append_conv takeWhile_dropWhile_id)
  then have "?d = c # tl ?d" using hd_dropWhile [of "\<lambda>x. x \<noteq> c" "rev s"] by (cases ?d) auto
  then have "rev s = ?u @ c # tl ?d" by (metis takeWhile_dropWhile_id)
  then have "s = rev (tl ?d) @ c # rev ?u" by (metis (no_types) append_Cons append_assoc rev_append
      rev_rev_ident rev.simps(2) append_Nil)
  then have "s = rev (tl ?d) @ t" by (simp add: t(1))
  moreover have "take (length s - length t) (x @ t) = x" if "s = x @ t" for x using that by simp
  ultimately show ?thesis using t(1) by (metis list.sel(1) list.simps(3))
qed

lemma strchr_Some:
  "strchr s c = Some r \<Longrightarrow> \<exists>p. s = p @ r \<and> c \<notin> set p \<and> (\<exists>t. r = c # t)"
proof -
  assume a: "strchr s c = Some r"
  have s: "s = takeWhile (\<lambda>x. x \<noteq> c) s @ r"
    using a by (auto simp: strchr_def Let_def split: if_splits)
  have "r \<noteq> []" and "hd r = c"
    using a hd_dropWhile [of "\<lambda>x. x \<noteq> c" s]
    by (auto simp: strchr_def Let_def split: if_splits)
  then have "\<exists>t. r = c # t" by (cases r) auto
  moreover have "c \<notin> set (takeWhile (\<lambda>x. x \<noteq> c) s)"
    using set_takeWhileD by fastforce
  ultimately show ?thesis using s by blast
qed

lemma strchr_None: "strchr s c = None \<longleftrightarrow> c \<notin> set s"
  by (auto simp: strchr_def Let_def dropWhile_eq_Nil_conv)

lemma dropWhile_neq_append [simp]:
  "c \<notin> set p \<Longrightarrow> dropWhile (\<lambda>x. x \<noteq> c) (p @ c # t) = c # t"
  by (induction p) auto

lemma strchr_append: "c \<notin> set p \<Longrightarrow> strchr (p @ c # t) c = Some (c # t)"
  by (simp add: strchr_def Let_def)

section \<open>Lists and options\<close>

lemma take_eq_prefix: "take (length p) s = p \<longleftrightarrow> (\<exists>r. s = p @ r)"
  by (metis append_eq_conv_conj append_take_drop_id)

lemma strncmp_eq_prefix: "strncmp_eq p s (length p) \<longleftrightarrow> (\<exists>r. s = p @ r)"
  by (metis strncmp_eq_def take_all_iff order_refl take_eq_prefix)

lemma takeWhile_neq_append [simp]:
  "c \<notin> set p \<Longrightarrow> takeWhile (\<lambda>x. x \<noteq> c) (p @ c # t) = p"
  by (induction p) auto

lemma last_filter_eq_hd_rev: "filter P xs \<noteq> [] \<Longrightarrow> last (filter P xs) = hd (filter P (rev xs))"
  by (simp add: rev_filter [symmetric] hd_rev)

end
