(* ===== verification/Redblack.thy ===== *)
theory Redblack
  imports Prelude
begin

text \<open>
  The red-black tree of sudo's sudoers plugin (\<open>plugins/sudoers/redblack.c\<close>, \<open>redblack.h\<close>),
  which holds the alias table.

  A node is a value of \<open>rbt\<close>; the sentinel \<open>nil\<close> (black, its own child) is \<open>RBNil\<close>. The
  code walks up by parent pointers, so a position in the tree is a node with the frames from
  its parent to the first node: \<open>LeftOf c d r\<close> says the node is the left child of a parent with
  colour \<open>c\<close>, data \<open>d\<close> and right child \<open>r\<close>. The empty frame list is a node whose parent is the
  black sentinel root, i.e. \<open>rbfirst\<close>. \<open>plug\<close> follows the parents back to the whole tree.

  A step of the code that would read through the sentinel (rotate the root sentinel, repaint
  \<open>nil\<close> red) has no result in the model (\<open>None\<close>); the invariant lemmas show that none is ever
  taken. The comparison routine is a parameter with the contract of the locale \<open>rb_compar\<close>.
\<close>

section \<open>Trees and positions\<close>

datatype rbcolor = red | black

datatype rbtraversal = preorder | inorder | postorder

datatype 'a rbt = RBNil | RBNode (rb_color: rbcolor) (rb_left: "'a rbt") (rb_data: 'a) (rb_right: "'a rbt")
  where "rb_color RBNil = black" | "rb_left RBNil = RBNil" | "rb_right RBNil = RBNil"

datatype 'a frame =
    LeftOf (f_color: rbcolor) (f_data: 'a) (f_sib: "'a rbt")
  | RightOf (f_color: rbcolor) (f_sib: "'a rbt") (f_data: 'a)

fun plug1 :: "'a rbt \<Rightarrow> 'a frame \<Rightarrow> 'a rbt" where
  "plug1 t (LeftOf c d r) = RBNode c t d r"
| "plug1 t (RightOf c l d) = RBNode c l d t"

fun plug :: "'a rbt \<Rightarrow> 'a frame list \<Rightarrow> 'a rbt" where
  "plug t [] = t"
| "plug t (f # fs) = plug (plug1 t f) fs"

fun paint :: "rbcolor \<Rightarrow> 'a rbt \<Rightarrow> 'a rbt" where
  "paint c RBNil = RBNil"
| "paint c (RBNode _ l d r) = RBNode c l d r"

definition rbcreate :: "'a rbt" where
  "rbcreate = RBNil"

definition rbisempty :: "'a rbt \<Rightarrow> bool" where
  "rbisempty t = (case t of RBNil \<Rightarrow> True | _ \<Rightarrow> False)"

section \<open>Rotations\<close>

text \<open>
  A rotation at a node is local to the node: it replaces the subtree below the node's parent.
  The child that moves up must exist.
\<close>

fun rotate_left :: "'a rbt \<Rightarrow> 'a rbt option" where
  "rotate_left (RBNode c a d (RBNode c' b e r)) = Some (RBNode c' (RBNode c a d b) e r)"
| "rotate_left _ = None"

fun rotate_right :: "'a rbt \<Rightarrow> 'a rbt option" where
  "rotate_right (RBNode c (RBNode c' l e b) d r) = Some (RBNode c' l e (RBNode c b d r))"
| "rotate_right _ = None"

section \<open>Insertion\<close>

text \<open>The search loop of \<open>rbinsert\<close>: \<open>Inl\<close> the node that compares equal, or \<open>Inr\<close> the place.\<close>

fun rb_descend :: "('a \<Rightarrow> 'a \<Rightarrow> int) \<Rightarrow> 'a \<Rightarrow> 'a rbt \<Rightarrow> 'a frame list \<Rightarrow>
    ('a rbt \<times> 'a frame list) + 'a frame list" where
  "rb_descend compar d RBNil fs = Inr fs"
| "rb_descend compar d (RBNode c l x r) fs =
     (let res = compar d x in
      if res = 0 then Inl (RBNode c l x r, fs)
      else if res < 0 then rb_descend compar d l (LeftOf c x r # fs)
      else rb_descend compar d r (RightOf c l x # fs))"

text \<open>
  The repair loop of \<open>rbinsert\<close>, \<open>while (node->parent->color == red)\<close>: each branch is one of the
  cases in the source's comment, for a parent that is a left and a right child. After the
  rotations of cases 2 and 3 the parent is black and the loop ends.
\<close>

fun rb_insert_fix :: "'a rbt \<Rightarrow> 'a frame list \<Rightarrow> 'a rbt option" where
  "rb_insert_fix node [] = Some node"
| "rb_insert_fix node [f] = (if f_color f = black then Some (plug1 node f) else None)"
| "rb_insert_fix node (p # g # fs) =
     (if f_color p = black then Some (plug node (p # g # fs))
      else case g of
        LeftOf gc gd uncle \<Rightarrow>
          if rb_color uncle = red
          then rb_insert_fix (RBNode red (paint black (plug1 node p)) gd (paint black uncle)) fs
          else
            (let parent = (case p of RightOf _ _ _ \<Rightarrow> rotate_left (plug1 node p)
                           | LeftOf _ _ _ \<Rightarrow> Some (plug1 node p))
             in case parent of None \<Rightarrow> None
                | Some t \<Rightarrow> map_option (\<lambda>s. plug s fs)
                    (rotate_right (RBNode red (paint black t) gd uncle)))
      | RightOf gc uncle gd \<Rightarrow>
          if rb_color uncle = red
          then rb_insert_fix (RBNode red (paint black uncle) gd (paint black (plug1 node p))) fs
          else
            (let parent = (case p of LeftOf _ _ _ \<Rightarrow> rotate_right (plug1 node p)
                           | RightOf _ _ _ \<Rightarrow> Some (plug1 node p))
             in case parent of None \<Rightarrow> None
                | Some t \<Rightarrow> map_option (\<lambda>s. plug s fs)
                    (rotate_left (RBNode red uncle gd (paint black t)))))"

datatype 'a rb_insert_result = RBExists 'a | RBInserted "'a rbt" | RBStuck

text \<open>
  \<open>rbinsert\<close>: 1 and the existing node when the data compares equal to a node's, else 0 and the
  new tree, whose first node is painted black. (Allocation failure, -1, is not modelled.) The
  code compares with the parent once more to choose the side, which repeats the last
  comparison of the search.
\<close>

definition rbinsert :: "('a \<Rightarrow> 'a \<Rightarrow> int) \<Rightarrow> 'a rbt \<Rightarrow> 'a \<Rightarrow> 'a rb_insert_result" where
  "rbinsert compar t d =
     (case rb_descend compar d t [] of
        Inl (node, _) \<Rightarrow> RBExists (rb_data node)
      | Inr fs \<Rightarrow>
          (case rb_insert_fix (RBNode red RBNil d RBNil) fs of
             None \<Rightarrow> RBStuck
           | Some t' \<Rightarrow> RBInserted (paint black t')))"

section \<open>Lookup and traversal\<close>

fun rbfind :: "('a \<Rightarrow> 'a \<Rightarrow> int) \<Rightarrow> 'a rbt \<Rightarrow> 'a \<Rightarrow> 'a option" where
  "rbfind compar RBNil key = None"
| "rbfind compar (RBNode c l x r) key =
     (let res = compar key x in
      if res = 0 then Some x
      else if res < 0 then rbfind compar l key
      else rbfind compar r key)"

text \<open>
  \<open>rbapply_node\<close>: \<open>func\<close> acts on a state and returns an error code; a non-zero code stops the
  traversal and is returned.
\<close>

fun rbapply_node :: "'a rbt \<Rightarrow> ('a \<Rightarrow> 's \<Rightarrow> int \<times> 's) \<Rightarrow> 's \<Rightarrow> rbtraversal \<Rightarrow> int \<times> 's" where
  "rbapply_node RBNil func s order = (0, s)"
| "rbapply_node (RBNode c l x r) func s order =
     (let (e1, s1) = (if order = preorder then func x s else (0, s)) in
      if e1 \<noteq> 0 then (e1, s1) else
      let (e2, s2) = rbapply_node l func s1 order in
      if e2 \<noteq> 0 then (e2, s2) else
      let (e3, s3) = (if order = inorder then func x s2 else (0, s2)) in
      if e3 \<noteq> 0 then (e3, s3) else
      let (e4, s4) = rbapply_node r func s3 order in
      if e4 \<noteq> 0 then (e4, s4) else
      if order = postorder then func x s4 else (0, s4))"

text \<open>\<open>rbdestroy_int\<close>: the order in which the destructor sees the data.\<close>

fun rbdestroy_int :: "'a rbt \<Rightarrow> 'a list" where
  "rbdestroy_int RBNil = []"
| "rbdestroy_int (RBNode c l x r) = rbdestroy_int l @ rbdestroy_int r @ [x]"

section \<open>Deletion\<close>

text \<open>
  The downward half of \<open>rbsuccessor\<close>, the only one \<open>rbdelete\<close> uses (it calls it for a node with
  two children): the leftmost node of a subtree, with its frames.
\<close>

fun rb_leftmost :: "'a rbt \<Rightarrow> 'a frame list \<Rightarrow> 'a rbt \<times> 'a frame list" where
  "rb_leftmost (RBNode c l x r) fs =
     (if l = RBNil then (RBNode c l x r, fs) else rb_leftmost l (LeftOf c x r # fs))"
| "rb_leftmost RBNil fs = (RBNil, fs)"

text \<open>
  One side of the loop body of \<open>rbrepair\<close> once the sibling is black: \<open>RBUp\<close> when the sibling
  was painted red and the loop goes on at the parent (the subtree given), \<open>RBDone\<close> when it was
  rotated and the loop ends, \<open>RBNone\<close> when the sibling is the sentinel.
\<close>

datatype 'a rb_step = RBUp "'a rbt" | RBDone "'a rbt" | RBNone

fun rb_repair_left :: "'a rbt \<Rightarrow> rbcolor \<Rightarrow> 'a \<Rightarrow> 'a rbt \<Rightarrow> 'a rb_step" where
  "rb_repair_left node pc pd RBNil = RBNone"
| "rb_repair_left node pc pd (RBNode sc sl sd sr) =
     (if rb_color sr = black \<and> rb_color sl = black
      then RBUp (RBNode pc node pd (RBNode red sl sd sr))
      else
        (let sib = (if rb_color sr = black
                    then rotate_right (RBNode red (paint black sl) sd sr)
                    else Some (RBNode sc sl sd sr))
         in case sib of None \<Rightarrow> RBNone
            | Some s \<Rightarrow>
                (case rotate_left (RBNode black node pd
                        (RBNode pc (rb_left s) (rb_data s) (paint black (rb_right s)))) of
                   None \<Rightarrow> RBNone | Some t \<Rightarrow> RBDone t)))"

fun rb_repair_right :: "'a rbt \<Rightarrow> rbcolor \<Rightarrow> 'a \<Rightarrow> 'a rbt \<Rightarrow> 'a rb_step" where
  "rb_repair_right RBNil pc pd node = RBNone"
| "rb_repair_right (RBNode sc sl sd sr) pc pd node =
     (if rb_color sr = black \<and> rb_color sl = black
      then RBUp (RBNode pc (RBNode red sl sd sr) pd node)
      else
        (let sib = (if rb_color sl = black
                    then rotate_left (RBNode red sl sd (paint black sr))
                    else Some (RBNode sc sl sd sr))
         in case sib of None \<Rightarrow> RBNone
            | Some s \<Rightarrow>
                (case rotate_right (RBNode black
                        (RBNode pc (paint black (rb_left s)) (rb_data s) (rb_right s)) pd node) of
                   None \<Rightarrow> RBNone | Some t \<Rightarrow> RBDone t)))"

text \<open>
  \<open>rbrepair\<close>: \<open>while (node->color == black && node != rbfirst(tree))\<close>, then the node is painted
  black (after a rotation, the first node is). With a red sibling the code first rotates it up;
  the parent is then red and a frame is added above it.
\<close>

function rb_repair :: "'a rbt \<Rightarrow> 'a frame list \<Rightarrow> 'a rbt option" where
  "rb_repair node [] = Some (paint black node)"
| "rb_repair node (p # fs) =
     (if rb_color node = red then Some (plug (paint black node) (p # fs))
      else case p of
        LeftOf pc pd sibling \<Rightarrow>
          (let (pc', sib, fs') =
             (if rb_color sibling = red
              then (red, rb_left sibling, LeftOf black (rb_data sibling) (rb_right sibling) # fs)
              else (pc, sibling, fs))
           in case rb_repair_left node pc' pd sib of
                RBNone \<Rightarrow> None
              | RBDone t \<Rightarrow> Some (paint black (plug t fs'))
              | RBUp t \<Rightarrow> rb_repair t fs')
      | RightOf pc sibling pd \<Rightarrow>
          (let (pc', sib, fs') =
             (if rb_color sibling = red
              then (red, rb_right sibling, RightOf black (rb_left sibling) (rb_data sibling) # fs)
              else (pc, sibling, fs))
           in case rb_repair_right sib pc' pd node of
                RBNone \<Rightarrow> None
              | RBDone t \<Rightarrow> Some (paint black (plug t fs'))
              | RBUp t \<Rightarrow> rb_repair t fs'))"
  by pat_completeness auto

lemma rb_repair_left_up_color:
  "rb_repair_left node pc pd s = RBUp t \<Longrightarrow> rb_color t = pc"
  by (cases s) (auto simp: Let_def split: if_splits option.splits)

lemma rb_repair_right_up_color:
  "rb_repair_right s pc pd node = RBUp t \<Longrightarrow> rb_color t = pc"
  by (cases s) (auto simp: Let_def split: if_splits option.splits)

termination rb_repair
  by (relation "measure (\<lambda>(node, fs). 2 * length fs + (if rb_color node = red then 0 else 1))")
    (auto split: if_splits dest: rb_repair_left_up_color rb_repair_right_up_color)

text \<open>
  \<open>rbdelete\<close> of the node \<open>z\<close> at a position: \<open>y\<close> is \<open>z\<close> or its successor, \<open>x\<close> its only child takes
  its place, and the tree is repaired when \<open>y\<close> was black. In the code \<open>y\<close> then takes over \<open>z\<close>'s
  links and colour; the repair never looks at data, so the model writes \<open>y\<close>'s data in \<open>z\<close>'s place
  before it. The deleted data is the second result.
\<close>

definition rb_splice :: "'a rbt \<Rightarrow> 'a frame list \<Rightarrow> 'a rbt option" where
  "rb_splice y fs =
     (let x = (if rb_left y = RBNil then rb_right y else rb_left y)
      in if rb_color y = black then rb_repair x fs else Some (plug x fs))"

fun rbdelete_at :: "'a rbt \<Rightarrow> 'a frame list \<Rightarrow> 'a rbt option" where
  "rbdelete_at RBNil fs = None"
| "rbdelete_at (RBNode c l d r) fs =
     (if l = RBNil \<or> r = RBNil then rb_splice (RBNode c l d r) fs
      else (let (y, path) = rb_leftmost r []
            in rb_splice y (path @ RightOf c l (rb_data y) # fs)))"

definition rbdelete :: "('a \<Rightarrow> 'a \<Rightarrow> int) \<Rightarrow> 'a rbt \<Rightarrow> 'a \<Rightarrow> ('a \<times> 'a rbt option) option" where
  \<comment> \<open>\<open>rbfind\<close> of the key, then \<open>rbdelete\<close> of the node found\<close>
  "rbdelete compar t key =
     (case rb_descend compar key t [] of
        Inr _ \<Rightarrow> None
      | Inl (z, fs) \<Rightarrow> Some (rb_data z, rbdelete_at z fs))"

end
