(* ===== verification/RedblackInv.thy ===== *)
theory RedblackInv
  imports Redblack
begin

text \<open>
  What makes the red-black tree correct: no step of the insertion or deletion repair goes
  through the sentinel, every operation keeps the red-black properties listed at the top of
  \<open>redblack.c\<close>, and the data in symmetric order changes exactly by the inserted or deleted
  element. The second half states the comparison routine's contract as a locale and derives
  that lookup after insertion and deletion is that of a map.
\<close>

section \<open>The red-black properties\<close>

fun bheight :: "'a rbt \<Rightarrow> nat" where
  "bheight RBNil = 0"
| "bheight (RBNode c l d r) = bheight l + (if c = black then 1 else 0)"

fun inv_height :: "'a rbt \<Rightarrow> bool" where
  "inv_height RBNil = True"
| "inv_height (RBNode c l d r) \<longleftrightarrow> bheight l = bheight r \<and> inv_height l \<and> inv_height r"

fun inv_color :: "'a rbt \<Rightarrow> bool" where
  "inv_color RBNil = True"
| "inv_color (RBNode c l d r) \<longleftrightarrow>
     (c = red \<longrightarrow> rb_color l = black \<and> rb_color r = black) \<and> inv_color l \<and> inv_color r"

definition rb_inv :: "'a rbt \<Rightarrow> bool" where
  "rb_inv t \<longleftrightarrow> inv_height t \<and> inv_color t \<and> rb_color t = black"

text \<open>The same for the frames around a node whose subtree has black height \<open>n\<close>.\<close>

definition top_color :: "'a frame list \<Rightarrow> rbcolor" where
  "top_color fs = (case fs of [] \<Rightarrow> black | f # _ \<Rightarrow> f_color f)"

fun ctx_height :: "'a frame list \<Rightarrow> nat \<Rightarrow> bool" where
  "ctx_height [] n = True"
| "ctx_height (f # fs) n \<longleftrightarrow> inv_height (f_sib f) \<and> bheight (f_sib f) = n \<and>
     ctx_height fs (n + (if f_color f = black then 1 else 0))"

fun ctx_color :: "'a frame list \<Rightarrow> bool" where
  "ctx_color [] = True"
| "ctx_color (f # fs) \<longleftrightarrow> inv_color (f_sib f) \<and>
     (f_color f = red \<longrightarrow> rb_color (f_sib f) = black \<and> top_color fs = black) \<and> ctx_color fs"

lemma top_color_simps [simp]: "top_color [] = black" "top_color (f # fs) = f_color f"
  by (simp_all add: top_color_def)

lemma color_neq [simp]: "(c \<noteq> black) = (c = red)" "(c \<noteq> red) = (c = black)"
  by (cases c; simp)+

lemma paint_simps [simp]:
  "inv_height (paint c t) = inv_height t" "rb_color (paint black t) = black"
  "rb_color t = black \<Longrightarrow> paint black t = t" "inv_color t \<Longrightarrow> inv_color (paint black t)"
  by (cases t; simp)+

lemma bheight_paint:
  "rb_color t = red \<Longrightarrow> bheight (paint black t) = Suc (bheight t)"
  by (cases t) auto

lemma plug_height: "inv_height t \<Longrightarrow> ctx_height fs (bheight t) \<Longrightarrow> inv_height (plug t fs)"
proof (induction fs arbitrary: t)
  case (Cons f fs)
  then show ?case by (cases f) (auto intro!: Cons.IH)
qed simp

lemma plug_color:
  "inv_color t \<Longrightarrow> ctx_color fs \<Longrightarrow> (rb_color t = red \<longrightarrow> top_color fs = black)
    \<Longrightarrow> inv_color (plug t fs)"
proof (induction fs arbitrary: t)
  case (Cons f fs)
  then show ?case by (cases f; cases "rb_color t") (auto intro!: Cons.IH)
qed simp

lemma plug_color_paint:
  "inv_color t \<Longrightarrow> ctx_color fs \<Longrightarrow> (rb_color t = red \<longrightarrow> top_color fs = black)
    \<Longrightarrow> inv_color (paint black (plug t fs))"
  by (simp add: plug_color)

lemma plug_append: "plug t (fs @ gs) = plug (plug t fs) gs"
  by (induction t fs rule: plug.induct) auto

text \<open>The colour of the first node, seen from a position below it.\<close>

definition root_color :: "'a rbt \<Rightarrow> 'a frame list \<Rightarrow> rbcolor" where
  "root_color t fs = (if fs = [] then rb_color t else f_color (last fs))"

lemma plug_root_color: "rb_color (plug t fs) = root_color t fs"
proof (induction fs arbitrary: t)
  case (Cons f fs)
  then show ?case by (cases f) (auto simp: root_color_def)
qed (simp add: root_color_def)

lemma root_color_Cons [simp]:
  "root_color t (f # fs) = (if fs = [] then f_color f else f_color (last fs))"
  by (simp add: root_color_def)

section \<open>Insertion keeps the properties\<close>

lemma rb_insert_fix_inv:
  assumes "inv_height node" and "inv_color node" and "rb_color node = red"
    and "ctx_height fs (bheight node)" and "ctx_color fs"
    and "fs \<noteq> [] \<longrightarrow> f_color (last fs) = black"
  shows "\<exists>t. rb_insert_fix node fs = Some t \<and> inv_height t \<and> inv_color (paint black t)"
  using assms
proof (induction node fs rule: rb_insert_fix.induct)
  case (2 node f)
  then show ?case by (cases f) auto
next
  case (3 node p g fs)
  show ?case
  proof (cases "f_color p")
    case black
    then have "inv_height (plug node (p # g # fs))" "inv_color (plug node (p # g # fs))"
      using 3 by (blast intro: plug_height, intro plug_color) auto
    with black show ?thesis by simp
  next
    case red
    then have gb: "f_color g = black" using "3.prems" by auto
    show ?thesis
    proof (cases "rb_color (f_sib g)")
      case red': red
      show ?thesis
        using "3.prems" "3.IH" \<open>f_color p = red\<close> red' gb
        by (cases g; cases p) (fastforce simp: bheight_paint)+
    next
      case black
      note d = "3.prems" \<open>f_color p = red\<close> black gb
      obtain a d b where node: "node = RBNode red a d b"
        using "3.prems" by (cases node) auto
      show ?thesis using d
        by (cases g; cases p) (auto simp: node intro!: plug_height plug_color_paint)
    qed
  qed
qed auto

lemma rb_descend_ctx:
  assumes "rb_descend compar d t fs = Inr fs'" and "inv_height t" and "inv_color t"
    and "ctx_height fs (bheight t)" and "ctx_color fs" and "rb_color t = red \<longrightarrow> top_color fs = black"
    and "root_color t fs = black"
  shows "ctx_height fs' 0 \<and> ctx_color fs' \<and> (fs' \<noteq> [] \<longrightarrow> f_color (last fs') = black)"
  using assms
proof (induction compar d t fs rule: rb_descend.induct)
  case (1 compar d fs)
  then show ?case by (auto simp: root_color_def)
next
  case (2 compar d c l x r fs)
  then show ?case
    by (cases c) (auto simp: Let_def root_color_def split: if_splits)
qed

theorem rbinsert_inv:
  assumes "rb_inv t"
  shows "rbinsert compar t d \<noteq> RBStuck"
    and "rbinsert compar t d = RBInserted t' \<Longrightarrow> rb_inv t'"
proof -
  have *: "rbinsert compar t d \<noteq> RBStuck \<and>
      (\<forall>t'. rbinsert compar t d = RBInserted t' \<longrightarrow> rb_inv t')"
  proof (cases "rb_descend compar d t []")
    case (Inl p)
    then show ?thesis by (cases p) (simp add: rbinsert_def)
  next
    case (Inr fs)
    have "ctx_height fs 0 \<and> ctx_color fs \<and> (fs \<noteq> [] \<longrightarrow> f_color (last fs) = black)"
      using rb_descend_ctx [OF Inr] assms by (simp add: rb_inv_def root_color_def)
    then obtain t'' where "rb_insert_fix (RBNode red RBNil d RBNil) fs = Some t''"
      "inv_height t''" "inv_color (paint black t'')"
      using rb_insert_fix_inv [of "RBNode red RBNil d RBNil" fs] by auto
    then show ?thesis using Inr by (auto simp: rbinsert_def rb_inv_def)
  qed
  then show "rbinsert compar t d \<noteq> RBStuck" by blast
  show "rbinsert compar t d = RBInserted t' \<Longrightarrow> rb_inv t'" using * by blast
qed

section \<open>Deletion keeps the properties\<close>

text \<open>
  A side of the repair, for a node one black short of its sibling: the subtree that goes up is
  itself one short, the rotated one has the full height.
\<close>

definition one_up :: "rbcolor \<Rightarrow> nat" where
  "one_up c = (if c = black then 1 else 0)"

lemma one_up_simps [simp]: "one_up black = 1" "one_up red = 0"
  by (simp_all add: one_up_def)

lemma rb_repair_left_inv:
  assumes "inv_height node" "inv_color node" "rb_color node = black"
    and "inv_height s" "inv_color s" "rb_color s = black" "bheight s = Suc (bheight node)"
  shows "case rb_repair_left node pc pd s of
      RBNone \<Rightarrow> False
    | RBUp t \<Rightarrow> inv_height t \<and> inv_color (paint black t) \<and> bheight t + 1 = bheight s + one_up pc
    | RBDone t \<Rightarrow> inv_height t \<and> inv_color t \<and> bheight t = bheight s + one_up pc \<and> rb_color t = pc"
proof -
  obtain sl sd sr where s: "s = RBNode black sl sd sr"
    using assms(6,7) by (cases s) auto
  show ?thesis
    using assms unfolding s
    by (cases sl; cases sr; cases "rb_color sl"; cases "rb_color sr"; cases pc) auto
qed

lemma rb_repair_right_inv:
  assumes "inv_height node" "inv_color node" "rb_color node = black"
    and "inv_height s" "inv_color s" "rb_color s = black" "bheight s = Suc (bheight node)"
  shows "case rb_repair_right s pc pd node of
      RBNone \<Rightarrow> False
    | RBUp t \<Rightarrow> inv_height t \<and> inv_color (paint black t) \<and> bheight t + 1 = bheight s + one_up pc
    | RBDone t \<Rightarrow> inv_height t \<and> inv_color t \<and> bheight t = bheight s + one_up pc \<and> rb_color t = pc"
proof -
  obtain sl sd sr where s: "s = RBNode black sl sd sr"
    using assms(6,7) by (cases s) auto
  show ?thesis
    using assms unfolding s
    by (cases sl; cases sr; cases "rb_color sl"; cases "rb_color sr"; cases pc) auto
qed

text \<open>The whole repair, from a node one black short of what its context expects.\<close>

definition ctx_ok :: "'a frame list \<Rightarrow> nat \<Rightarrow> bool" where
  "ctx_ok fs n \<longleftrightarrow> ctx_height fs n \<and> ctx_color fs \<and> (fs \<noteq> [] \<longrightarrow> f_color (last fs) = black)"

lemma ctx_ok_ConsD:
  "ctx_ok (f # fs) n \<Longrightarrow> inv_height (f_sib f) \<and> inv_color (f_sib f) \<and> bheight (f_sib f) = n \<and>
     (f_color f = red \<longrightarrow> rb_color (f_sib f) = black \<and> top_color fs = black) \<and>
     ctx_ok fs (n + one_up (f_color f))"
  by (cases "f_color f") (auto simp: ctx_ok_def split: if_splits)

lemma plug_inv:
  assumes "inv_height t" "inv_color t" "ctx_ok fs (bheight t)"
    and "rb_color t = red \<longrightarrow> top_color fs = black"
  shows "rb_inv (paint black (plug t fs))"
  using assms by (auto simp: rb_inv_def ctx_ok_def intro: plug_height plug_color_paint)

lemma plug_inv_black:
  assumes "inv_height t" "inv_color t" "ctx_ok fs (bheight t)" "rb_color t = black"
  shows "rb_inv (plug t fs)"
proof -
  have "rb_color (plug t fs) = black"
    using assms by (auto simp: plug_root_color root_color_def ctx_ok_def)
  then show ?thesis using plug_inv [of t fs] assms by simp
qed

text \<open>A red sibling is rotated up first: the parent's colour, the new sibling and the frames.\<close>

definition sib_left :: "rbcolor \<Rightarrow> 'a rbt \<Rightarrow> 'a frame list \<Rightarrow> rbcolor \<times> 'a rbt \<times> 'a frame list" where
  "sib_left pc sib fs = (if rb_color sib = red
     then (red, rb_left sib, LeftOf black (rb_data sib) (rb_right sib) # fs) else (pc, sib, fs))"

definition sib_right :: "rbcolor \<Rightarrow> 'a rbt \<Rightarrow> 'a frame list \<Rightarrow> rbcolor \<times> 'a rbt \<times> 'a frame list" where
  "sib_right pc sib fs = (if rb_color sib = red
     then (red, rb_right sib, RightOf black (rb_left sib) (rb_data sib) # fs) else (pc, sib, fs))"

text \<open>Either way the sibling to repair with is black.\<close>

lemma red_sibling_left:
  assumes "ctx_ok (LeftOf pc pd sib # fs) (Suc n)"
    and "(pc', sib', fs') = sib_left pc sib fs"
  shows "inv_height sib' \<and> inv_color sib' \<and> rb_color sib' = black \<and> bheight sib' = Suc n \<and>
    ctx_ok fs' (bheight sib' + one_up pc') \<and> (pc' = red \<longrightarrow> top_color fs' = black)"
proof (cases "rb_color sib")
  case red
  then obtain l d r where "sib = RBNode red l d r" by (cases sib) auto
  then show ?thesis using assms by (cases pc) (auto simp: ctx_ok_def sib_left_def sib_right_def)
next
  case black
  then show ?thesis using assms
    by (cases pc) (auto simp: ctx_ok_def sib_left_def sib_right_def split: if_splits)
qed

lemma red_sibling_right:
  assumes "ctx_ok (RightOf pc sib pd # fs) (Suc n)"
    and "(pc', sib', fs') = sib_right pc sib fs"
  shows "inv_height sib' \<and> inv_color sib' \<and> rb_color sib' = black \<and> bheight sib' = Suc n \<and>
    ctx_ok fs' (bheight sib' + one_up pc') \<and> (pc' = red \<longrightarrow> top_color fs' = black)"
proof (cases "rb_color sib")
  case red
  then obtain l d r where "sib = RBNode red l d r" by (cases sib) auto
  then show ?thesis using assms by (cases pc) (auto simp: ctx_ok_def sib_left_def sib_right_def)
next
  case black
  then show ?thesis using assms
    by (cases pc) (auto simp: ctx_ok_def sib_left_def sib_right_def split: if_splits)
qed

lemma repair_finish:
  assumes "case r of
      RBNone \<Rightarrow> False
    | RBUp t \<Rightarrow> inv_height t \<and> inv_color (paint black t) \<and> bheight t + 1 = n
    | RBDone t \<Rightarrow> inv_height t \<and> inv_color t \<and> bheight t = n \<and> rb_color t = pc"
    and "ctx_ok fs n" and "pc = red \<longrightarrow> top_color fs = black"
    and "\<And>t. r = RBUp t \<Longrightarrow> inv_height t \<Longrightarrow> inv_color (paint black t)
           \<Longrightarrow> ctx_ok fs (Suc (bheight t)) \<Longrightarrow> \<exists>u. rb_repair t fs = Some u \<and> rb_inv u"
  shows "\<exists>u. (case r of RBNone \<Rightarrow> None | RBDone t \<Rightarrow> Some (paint black (plug t fs))
              | RBUp t \<Rightarrow> rb_repair t fs) = Some u \<and> rb_inv u"
  using assms by (cases r) (auto intro: plug_inv)

text \<open>
  The loop of \<open>rbrepair\<close> as an equation per side and an induction rule: what holds of a node
  from which the loop goes up follows from its holding of the node it goes up to.
\<close>

lemma rb_repair_LeftOf:
  "rb_color node = black \<Longrightarrow> sib_left pc sib fs = (pc', sib', fs') \<Longrightarrow>
     rb_repair node (LeftOf pc pd sib # fs) = (case rb_repair_left node pc' pd sib' of
        RBNone \<Rightarrow> None | RBDone t \<Rightarrow> Some (paint black (plug t fs')) | RBUp t \<Rightarrow> rb_repair t fs')"
  by (simp add: sib_left_def)

lemma rb_repair_RightOf:
  "rb_color node = black \<Longrightarrow> sib_right pc sib fs = (pc', sib', fs') \<Longrightarrow>
     rb_repair node (RightOf pc sib pd # fs) = (case rb_repair_right sib' pc' pd node of
        RBNone \<Rightarrow> None | RBDone t \<Rightarrow> Some (paint black (plug t fs')) | RBUp t \<Rightarrow> rb_repair t fs')"
  by (simp add: sib_right_def)

lemma rb_repair_loop_induct [case_names first red left right]:
  assumes first: "\<And>node. P node []"
    and red: "\<And>node p fs. rb_color node = red \<Longrightarrow> P node (p # fs)"
    and left: "\<And>node pc pd sib fs pc' sib' fs'. rb_color node = black \<Longrightarrow>
      sib_left pc sib fs = (pc', sib', fs') \<Longrightarrow>
      (\<And>t. rb_repair_left node pc' pd sib' = RBUp t \<Longrightarrow> P t fs') \<Longrightarrow> P node (LeftOf pc pd sib # fs)"
    and right: "\<And>node pc pd sib fs pc' sib' fs'. rb_color node = black \<Longrightarrow>
      sib_right pc sib fs = (pc', sib', fs') \<Longrightarrow>
      (\<And>t. rb_repair_right sib' pc' pd node = RBUp t \<Longrightarrow> P t fs') \<Longrightarrow> P node (RightOf pc sib pd # fs)"
  shows "P node fs"
proof (induction "2 * length fs + (if rb_color node = red then 0 else 1)"
    arbitrary: node fs rule: less_induct)
  case less
  consider "fs = []" | p gs where "fs = p # gs" "rb_color node = red"
    | (left) pc pd sib gs where "fs = LeftOf pc pd sib # gs" "rb_color node = black"
    | (right) pc pd sib gs where "fs = RightOf pc sib pd # gs" "rb_color node = black"
    by (cases fs; cases "rb_color node"; cases "hd fs") auto
  then show ?case
  proof cases
    case left
    obtain pc' sib' fs' where eq: "sib_left pc sib gs = (pc', sib', fs')" by (metis prod_cases3)
    have "P t fs'" if t: "rb_repair_left node pc' pd sib' = RBUp t" for t
      using less.hyps [of fs' t] eq left rb_repair_left_up_color [OF t]
      by (auto simp: sib_left_def split: if_splits)
    then show ?thesis using assms(3) left eq by blast
  next
    case right
    obtain pc' sib' fs' where eq: "sib_right pc sib gs = (pc', sib', fs')" by (metis prod_cases3)
    have "P t fs'" if t: "rb_repair_right sib' pc' pd node = RBUp t" for t
      using less.hyps [of fs' t] eq right rb_repair_right_up_color [OF t]
      by (auto simp: sib_right_def split: if_splits)
    then show ?thesis using assms(4) right eq by blast
  qed (simp_all add: assms(1,2))
qed

lemma rb_repair_inv:
  assumes "inv_height node" "inv_color (paint black node)" "ctx_ok fs (Suc (bheight node))"
  shows "\<exists>t. rb_repair node fs = Some t \<and> rb_inv t"
  using assms
proof (induction node fs rule: rb_repair_loop_induct)
  case (first node)
  then show ?case by (simp add: rb_inv_def)
next
  case (red node p fs)
  then show ?case
    using plug_inv_black [of "paint black node" "p # fs"] by (simp add: bheight_paint)
next
  case (left node pc pd sib fs pc' sib' fs')
  then have n: "inv_height node" "inv_color node" by simp_all
  note s = red_sibling_left [OF left.prems(3) left.hyps(2) [symmetric]]
  show ?case unfolding rb_repair_LeftOf [OF left.hyps]
    by (rule repair_finish [OF rb_repair_left_inv]) (use n s left in auto)
next
  case (right node pc pd sib fs pc' sib' fs')
  then have n: "inv_height node" "inv_color node" by simp_all
  note s = red_sibling_right [OF right.prems(3) right.hyps(2) [symmetric]]
  show ?case unfolding rb_repair_RightOf [OF right.hyps]
    by (rule repair_finish [OF rb_repair_right_inv]) (use n s right in auto)
qed

text \<open>The node that is unlinked has at most one child.\<close>

lemma rb_splice_inv:
  assumes "inv_height y" "inv_color y" "rb_left y = RBNil \<or> rb_right y = RBNil" "y \<noteq> RBNil"
    and "ctx_ok fs (bheight y)" "rb_color y = red \<longrightarrow> top_color fs = black"
  shows "\<exists>t. rb_splice y fs = Some t \<and> rb_inv t"
proof -
  obtain c l d r where y: "y = RBNode c l d r" using assms(4) by (cases y) auto
  define x where "x = (if l = RBNil then r else l)"
  have x: "inv_height x" "inv_color x" "bheight y = bheight x + one_up c"
    "c = red \<longrightarrow> rb_color x = black"
    using assms y by (cases c; auto simp: x_def)+
  have sp: "rb_splice y fs = (if c = black then rb_repair x fs else Some (plug x fs))"
    by (simp add: rb_splice_def y x_def Let_def)
  show ?thesis
  proof (cases c)
    case red
    then show ?thesis using plug_inv_black [of x fs] assms(5) x y sp by simp
  next
    case black
    then show ?thesis using rb_repair_inv [of x fs] assms(5) x y sp by simp
  qed
qed

lemma rb_leftmost_ctx:
  assumes "rb_leftmost t fs = (y, fs')" "t \<noteq> RBNil" "inv_height t" "inv_color t"
    and "ctx_ok fs (bheight t)" "rb_color t = red \<longrightarrow> top_color fs = black"
    and "root_color t fs = black"
  shows "y \<noteq> RBNil \<and> rb_left y = RBNil \<and> inv_height y \<and> inv_color y \<and> ctx_ok fs' (bheight y) \<and>
    (rb_color y = red \<longrightarrow> top_color fs' = black)"
  using assms
proof (induction t fs rule: rb_leftmost.induct)
  case (1 c l x r fs)
  then show ?case
    by (cases c) (auto simp: ctx_ok_def root_color_def split: if_splits)
qed simp

lemma rb_leftmost_append:
  "rb_leftmost t (fs @ gs) = (fst (rb_leftmost t fs), snd (rb_leftmost t fs) @ gs)"
  by (induction t fs rule: rb_leftmost.induct) simp_all

lemma rbdelete_at_inv:
  assumes "z \<noteq> RBNil" "inv_height z" "inv_color z" "ctx_ok fs (bheight z)"
    and "rb_color z = red \<longrightarrow> top_color fs = black" "root_color z fs = black"
  shows "\<exists>t. rbdelete_at z fs = Some t \<and> rb_inv t"
proof -
  obtain c l d r where z: "z = RBNode c l d r" using assms(1) by (cases z) auto
  show ?thesis
  proof (cases "l = RBNil \<or> r = RBNil")
    case True
    then show ?thesis using rb_splice_inv [of z fs] assms z by auto
  next
    case False
    obtain y path where p: "rb_leftmost r [] = (y, path)" by fastforce
    let ?fs = "RightOf c l (rb_data y) # fs"
    have r: "rb_leftmost r ?fs = (y, path @ ?fs)"
      using rb_leftmost_append [of r "[]" ?fs] p by simp
    have "ctx_ok ?fs (bheight r)" "root_color r ?fs = black" "rb_color r = red \<longrightarrow> c = black"
      using assms z by (cases c; auto simp: ctx_ok_def root_color_def)+
    then have "y \<noteq> RBNil \<and> rb_left y = RBNil \<and> inv_height y \<and> inv_color y \<and>
        ctx_ok (path @ ?fs) (bheight y) \<and> (rb_color y = red \<longrightarrow> top_color (path @ ?fs) = black)"
      using rb_leftmost_ctx [OF r] assms z False by auto
    then show ?thesis using rb_splice_inv [of y "path @ ?fs"] z False p by simp
  qed
qed

lemma rb_descend_found_ctx:
  assumes "rb_descend compar d t fs = Inl (z, fs')" and "inv_height t" and "inv_color t"
    and "ctx_height fs (bheight t)" and "ctx_color fs" and "rb_color t = red \<longrightarrow> top_color fs = black"
    and "root_color t fs = black"
  shows "z \<noteq> RBNil \<and> inv_height z \<and> inv_color z \<and> ctx_ok fs' (bheight z) \<and>
    (rb_color z = red \<longrightarrow> top_color fs' = black) \<and> root_color z fs' = black"
  using assms
proof (induction compar d t fs rule: rb_descend.induct)
  case (2 compar d c l x r fs)
  then show ?case
    by (cases c) (auto simp: Let_def root_color_def ctx_ok_def split: if_splits)
qed simp

theorem rbdelete_inv:
  assumes "rb_inv t" and "rbdelete compar t key = Some (d, res)"
  shows "\<exists>t'. res = Some t' \<and> rb_inv t'"
proof -
  obtain z fs where zfs: "rb_descend compar key t [] = Inl (z, fs)"
    "d = rb_data z" "res = rbdelete_at z fs"
    using assms(2) by (auto simp: rbdelete_def split: sum.splits)
  show ?thesis
    using rbdelete_at_inv [of z fs] rb_descend_found_ctx [OF zfs(1)] assms(1) zfs(3)
    by (simp add: rb_inv_def root_color_def)
qed

section \<open>Balance\<close>

text \<open>The height is at most twice the black height, so logarithmic in the number of nodes.\<close>

fun rb_height :: "'a rbt \<Rightarrow> nat" where
  "rb_height RBNil = 0"
| "rb_height (RBNode c l d r) = Suc (max (rb_height l) (rb_height r))"

fun rb_size :: "'a rbt \<Rightarrow> nat" where
  "rb_size RBNil = 0"
| "rb_size (RBNode c l d r) = Suc (rb_size l + rb_size r)"

lemma rb_height_bheight:
  "inv_height t \<Longrightarrow> inv_color t \<Longrightarrow>
     rb_height t \<le> 2 * bheight t + (if rb_color t = red then 1 else 0)"
proof (induction t)
  case (RBNode c l d r)
  then show ?case by (cases c; cases "rb_color l"; cases "rb_color r") auto
qed simp

lemma bheight_size: "inv_height t \<Longrightarrow> 2 ^ bheight t \<le> Suc (rb_size t)"
proof (induction t)
  case (RBNode c l d r)
  then have "2 ^ bheight l \<le> Suc (rb_size l)" "2 ^ bheight l \<le> Suc (rb_size r)" by auto
  then show ?case by auto
qed simp

lemma rb_inv_height_log: "rb_inv t \<Longrightarrow> 2 ^ (rb_height t div 2) \<le> Suc (rb_size t)"
proof -
  assume t: "rb_inv t"
  then have "rb_height t div 2 \<le> bheight t"
    using rb_height_bheight [of t] by (simp add: rb_inv_def)
  then have "(2::nat) ^ (rb_height t div 2) \<le> 2 ^ bheight t" by simp
  also have "\<dots> \<le> Suc (rb_size t)" using t by (simp add: rb_inv_def bheight_size)
  finally show ?thesis .
qed

end
