(* ===== verification/RedblackMap.thy ===== *)
theory RedblackMap
  imports RedblackInv
begin

text \<open>
  The data a red-black tree holds, in symmetric order, and what insertion and deletion do to
  it; the contract of the comparison routine as the locale \<open>rb_compar\<close>, and in it the laws of
  lookup, insertion and deletion that the alias table rests on.
\<close>

section \<open>Symmetric order\<close>

fun rb_inorder :: "'a rbt \<Rightarrow> 'a list" where
  "rb_inorder RBNil = []"
| "rb_inorder (RBNode c l d r) = rb_inorder l @ d # rb_inorder r"

fun ctx_left :: "'a frame list \<Rightarrow> 'a list" where
  "ctx_left [] = []"
| "ctx_left (LeftOf c d r # fs) = ctx_left fs"
| "ctx_left (RightOf c l d # fs) = ctx_left fs @ rb_inorder l @ [d]"

fun ctx_right :: "'a frame list \<Rightarrow> 'a list" where
  "ctx_right [] = []"
| "ctx_right (LeftOf c d r # fs) = d # rb_inorder r @ ctx_right fs"
| "ctx_right (RightOf c l d # fs) = ctx_right fs"

lemma inorder_plug: "rb_inorder (plug t fs) = ctx_left fs @ rb_inorder t @ ctx_right fs"
  by (induction fs arbitrary: t rule: ctx_left.induct) simp_all

lemma inorder_paint [simp]: "rb_inorder (paint c t) = rb_inorder t"
  by (cases t) simp_all

lemma inorder_rotate_left: "rotate_left t = Some u \<Longrightarrow> rb_inorder u = rb_inorder t"
  by (induction t rule: rotate_left.induct) auto

lemma inorder_rotate_right: "rotate_right t = Some u \<Longrightarrow> rb_inorder u = rb_inorder t"
  by (induction t rule: rotate_right.induct) auto

lemma inorder_insert_fix:
  "rb_insert_fix node fs = Some t \<Longrightarrow> rb_inorder t = ctx_left fs @ rb_inorder node @ ctx_right fs"
proof (induction node fs arbitrary: t rule: rb_insert_fix.induct)
  case (2 node f)
  then show ?case by (cases f) (auto split: if_splits)
next
  case (3 node p g fs)
  then show ?case
    by (cases g; cases p)
      (auto simp: inorder_plug Let_def split: if_splits option.splits
        dest!: inorder_rotate_left inorder_rotate_right)
qed simp

lemma inorder_node: "t \<noteq> RBNil \<Longrightarrow>
    rb_inorder (rb_left t) @ rb_data t # rb_inorder (rb_right t) = rb_inorder t"
  by (cases t) simp_all

lemma inorder_repair_left:
  "case rb_repair_left node pc pd s of RBNone \<Rightarrow> True
   | RBUp t \<Rightarrow> rb_inorder t = rb_inorder node @ pd # rb_inorder s
   | RBDone t \<Rightarrow> rb_inorder t = rb_inorder node @ pd # rb_inorder s"
proof (cases s)
  case (RBNode sc sl sd sr)
  then show ?thesis by (cases sl; cases sr) auto
qed simp

lemma inorder_repair_right:
  "case rb_repair_right s pc pd node of RBNone \<Rightarrow> True
   | RBUp t \<Rightarrow> rb_inorder t = rb_inorder s @ pd # rb_inorder node
   | RBDone t \<Rightarrow> rb_inorder t = rb_inorder s @ pd # rb_inorder node"
proof (cases s)
  case (RBNode sc sl sd sr)
  then show ?thesis by (cases sl; cases sr) auto
qed simp

lemma inorder_sib_left:
  assumes "sib_left pc sib fs = (pc', sib', fs')"
  shows "ctx_left fs' = ctx_left fs \<and>
    rb_inorder sib' @ ctx_right fs' = rb_inorder sib @ ctx_right fs"
  using assms inorder_node [of sib]
  by (cases "sib = RBNil") (auto simp: sib_left_def split: if_splits)

lemma inorder_sib_right:
  assumes "sib_right pc sib fs = (pc', sib', fs')"
  shows "ctx_right fs' = ctx_right fs \<and>
    ctx_left fs' @ rb_inorder sib' = ctx_left fs @ rb_inorder sib"
  using assms inorder_node [of sib]
  by (cases "sib = RBNil") (auto simp: sib_right_def split: if_splits)

lemma inorder_rb_repair:
  "rb_repair node fs = Some t \<Longrightarrow> rb_inorder t = ctx_left fs @ rb_inorder node @ ctx_right fs"
proof (induction node fs arbitrary: t rule: rb_repair_loop_induct)
  case (first node)
  then show ?case by auto
next
  case (red node p fs)
  then show ?case by (cases p) (auto simp: inorder_plug)
next
  case (left node pc pd sib fs pc' sib' fs')
  then show ?case
    using inorder_sib_left [OF left.hyps(2)] inorder_repair_left [where node = node and pc = pc' and pd = pd and s = sib']
    unfolding rb_repair_LeftOf [OF left.hyps]
    by (auto simp: inorder_plug split: rb_step.splits)
next
  case (right node pc pd sib fs pc' sib' fs')
  then show ?case
    using inorder_sib_right [OF right.hyps(2)] inorder_repair_right [where node = node and pc = pc' and pd = pd and s = sib']
    unfolding rb_repair_RightOf [OF right.hyps]
    by (auto simp: inorder_plug split: rb_step.splits)
qed

lemma inorder_splice:
  assumes "rb_splice (RBNode c l d r) fs = Some t" "l = RBNil \<or> r = RBNil"
  shows "rb_inorder t = ctx_left fs @ rb_inorder l @ rb_inorder r @ ctx_right fs"
  using assms
  by (auto simp: rb_splice_def Let_def inorder_plug dest!: inorder_rb_repair split: if_splits)

lemma ctx_append:
  "ctx_left (fs @ gs) = ctx_left gs @ ctx_left fs" "ctx_right (fs @ gs) = ctx_right fs @ ctx_right gs"
proof (induction fs)
  case (Cons f fs)
  case 1 then show ?case using Cons by (cases f) simp_all
  case 2 then show ?case using Cons by (cases f) simp_all
qed simp_all

lemma inorder_leftmost:
  "rb_leftmost t fs = (y, fs') \<Longrightarrow> t \<noteq> RBNil \<Longrightarrow>
     y \<noteq> RBNil \<and> rb_left y = RBNil \<and> ctx_left fs' = ctx_left fs \<and>
     rb_inorder t @ ctx_right fs = rb_data y # rb_inorder (rb_right y) @ ctx_right fs'"
  by (induction t fs rule: rb_leftmost.induct) (auto split: if_splits)

lemma inorder_delete_at:
  assumes "rbdelete_at (RBNode c l d r) fs = Some t"
  shows "rb_inorder t = ctx_left fs @ rb_inorder l @ rb_inorder r @ ctx_right fs"
proof (cases "l = RBNil \<or> r = RBNil")
  case True
  then show ?thesis using assms inorder_splice [of c l d r fs t] by auto
next
  case False
  obtain y path where p: "rb_leftmost r [] = (y, path)" by fastforce
  have y: "y \<noteq> RBNil" "rb_left y = RBNil" "ctx_left path = []"
    "rb_inorder r = rb_data y # rb_inorder (rb_right y) @ ctx_right path"
    using inorder_leftmost [OF p] False by auto
  obtain yc yd yr where yn: "y = RBNode yc RBNil yd yr" using y(1,2) by (cases y) auto
  have "rb_splice (RBNode yc RBNil yd yr) (path @ RightOf c l yd # fs) = Some t"
    using assms False p yn by simp
  from inorder_splice [OF this] show ?thesis
    using y yn by (simp add: ctx_append)
qed

lemma descend_found:
  "rb_descend compar d t fs = Inl (z, fs') \<Longrightarrow>
     z \<noteq> RBNil \<and> plug z fs' = plug t fs \<and> compar d (rb_data z) = 0"
  by (induction compar d t fs rule: rb_descend.induct) (auto simp: Let_def split: if_splits)

lemma descend_place:
  "rb_descend compar d t fs = Inr fs' \<Longrightarrow> plug RBNil fs' = plug t fs"
  by (induction compar d t fs rule: rb_descend.induct) (auto simp: Let_def split: if_splits)

text \<open>Searching for the place and searching for the node are the same search.\<close>

lemma rbfind_descend:
  "rbfind compar t d = (case rb_descend compar d t fs of Inl (z, _) \<Rightarrow> Some (rb_data z) | Inr _ \<Rightarrow> None)"
  by (induction compar d t fs rule: rb_descend.induct) (auto simp: Let_def)

section \<open>The comparison routine's contract\<close>

definition rb_sorted :: "('a \<Rightarrow> 'a \<Rightarrow> int) \<Rightarrow> 'a rbt \<Rightarrow> bool" where
  "rb_sorted compar t \<longleftrightarrow> sorted_wrt (\<lambda>x y. compar x y < 0) (rb_inorder t)"

locale rb_compar =
  fixes compar :: "'a \<Rightarrow> 'a \<Rightarrow> int"
  assumes compar_swap: "compar y x < 0 \<longleftrightarrow> compar x y > 0"
    and compar_trans: "compar x y < 0 \<Longrightarrow> compar y z < 0 \<Longrightarrow> compar x z < 0"
    and compar_cong: "compar x y = 0 \<Longrightarrow> compar x z < 0 \<longleftrightarrow> compar y z < 0"
begin

lemma compar_eq_swap: "compar x y = 0 \<Longrightarrow> compar y x = 0"
  using compar_swap [of x y] compar_swap [of y x] by linarith

lemma compar_cong_gt: "compar x y = 0 \<Longrightarrow> compar x z > 0 \<longleftrightarrow> compar y z > 0"
proof
  assume xy: "compar x y = 0"
  have *: "compar a b = 0 \<Longrightarrow> compar a z > 0 \<Longrightarrow> compar b z > 0" for a b
  proof -
    assume ab: "compar a b = 0" "compar a z > 0"
    then have "compar z a < 0" by (simp add: compar_swap)
    have "\<not> compar b z < 0" using compar_cong [OF ab(1), of z] ab(2) by linarith
    moreover have "compar b z \<noteq> 0"
    proof
      assume "compar b z = 0"
      then have "compar z b = 0" by (rule compar_eq_swap)
      then have "compar b a < 0" using compar_cong \<open>compar z a < 0\<close> by blast
      then show False using compar_eq_swap [OF ab(1)] by simp
    qed
    ultimately show "compar b z > 0" by linarith
  qed
  show "compar x z > 0 \<Longrightarrow> compar y z > 0" using * xy by blast
  show "compar y z > 0 \<Longrightarrow> compar x z > 0" using * compar_eq_swap [OF xy] by blast
qed

lemma compar_cong_eq: "compar x y = 0 \<Longrightarrow> compar x z = 0 \<longleftrightarrow> compar y z = 0"
  using compar_cong [of x y z] compar_cong_gt [of x y z] by linarith

lemma compar_less_neq: "compar x y < 0 \<Longrightarrow> compar y x \<noteq> 0"
  using compar_swap [of x y] by linarith

lemma compar_refl: "compar x x = 0"
  using compar_swap [of x x] by linarith

lemma rb_sorted_node:
  "rb_sorted compar (RBNode c l d r) \<longleftrightarrow> rb_sorted compar l \<and> rb_sorted compar r \<and>
     (\<forall>x \<in> set (rb_inorder l). compar x d < 0) \<and> (\<forall>x \<in> set (rb_inorder r). compar d x < 0)"
  by (auto simp: rb_sorted_def sorted_wrt_append intro: compar_trans)

lemma rb_sorted_Nil [simp]: "rb_sorted compar RBNil"
  by (simp add: rb_sorted_def)

text \<open>The place the search ends at splits the data into the smaller and the larger.\<close>

lemma descend_order:
  assumes "rb_descend compar d t fs = Inr fs'" "rb_sorted compar t"
    and "\<forall>x \<in> set (ctx_left fs). compar x d < 0" "\<forall>x \<in> set (ctx_right fs). compar d x < 0"
  shows "(\<forall>x \<in> set (ctx_left fs'). compar x d < 0) \<and> (\<forall>x \<in> set (ctx_right fs'). compar d x < 0)"
  using assms
proof (induction t arbitrary: fs)
  case (RBNode c l x r)
  consider "compar d x < 0" | "compar d x > 0"
    using RBNode.prems(1) by (cases "compar d x" "0 :: int" rule: linorder_cases) auto
  then show ?case
  proof cases
    case 1
    have "\<forall>y \<in> set (ctx_right (LeftOf c x r # fs)). compar d y < 0"
      using RBNode.prems 1 by (auto simp: rb_sorted_node intro: compar_trans)
    then show ?thesis
      using RBNode.IH(1) [of "LeftOf c x r # fs"] RBNode.prems 1 by (auto simp: rb_sorted_node)
  next
    case 2
    then have x: "compar x d < 0" by (simp add: compar_swap)
    have "\<forall>y \<in> set (ctx_left (RightOf c l x # fs)). compar y d < 0"
      using RBNode.prems x by (auto simp: rb_sorted_node intro: compar_trans)
    then show ?thesis
      using RBNode.IH(2) [of "RightOf c l x # fs"] RBNode.prems 2 by (auto simp: rb_sorted_node)
  qed
qed simp

lemma rbfind_Some:
  "rb_sorted compar t \<Longrightarrow> rbfind compar t k = Some x \<longleftrightarrow> x \<in> set (rb_inorder t) \<and> compar k x = 0"
proof (induction t)
  case (RBNode c l d r)
  have l: "compar k x < 0" if "compar k d = 0" "x \<in> set (rb_inorder r)" for x
    using that RBNode.prems compar_cong by (auto simp: rb_sorted_node)
  have r: "compar k x > 0" if "compar k d = 0" "x \<in> set (rb_inorder l)" for x
    using that RBNode.prems compar_cong_gt compar_swap by (auto simp: rb_sorted_node)
  have lt: "compar k x < 0" if "compar k d < 0" "x \<in> set (rb_inorder r)" for x
    using that RBNode.prems compar_trans by (auto simp: rb_sorted_node)
  have gt: "compar k x > 0" if "compar k d > 0" "x \<in> set (rb_inorder l)" for x
    using that RBNode.prems compar_trans [of x d k] compar_swap by (auto simp: rb_sorted_node)
  have s: "rb_sorted compar l" "rb_sorted compar r" using RBNode.prems by (simp_all add: rb_sorted_node)
  consider "compar k d = 0" | "compar k d < 0" | "compar k d > 0" by linarith
  then show ?case
  proof cases
    case 1
    then have "compar k y \<noteq> 0" if "y \<in> set (rb_inorder l) \<union> set (rb_inorder r)" for y
      using l [of y] r [of y] that by auto
    with 1 show ?thesis by auto
  next
    case 2
    then have "compar k y \<noteq> 0" if "y \<in> set (rb_inorder r)" for y using lt [of y] that by simp
    with 2 RBNode.IH(1) [OF s(1)] show ?thesis by auto
  next
    case 3
    then have "compar k y \<noteq> 0" if "y \<in> set (rb_inorder l)" for y using gt [of y] that by simp
    with 3 RBNode.IH(2) [OF s(2)] show ?thesis by auto
  qed
qed simp

lemma rbfind_None:
  "rb_sorted compar t \<Longrightarrow> rbfind compar t k = None \<longleftrightarrow> (\<forall>x \<in> set (rb_inorder t). compar k x \<noteq> 0)"
  using rbfind_Some [of t k] by (cases "rbfind compar t k") auto

text \<open>Insertion fails exactly on an equal element, and otherwise adds the new one, in order.\<close>

lemma rbinsert_exists:
  assumes "rb_sorted compar t"
  shows "rbinsert compar t d = RBExists x \<longleftrightarrow> rbfind compar t d = Some x"
  by (auto simp: rbinsert_def rbfind_descend [of compar t d "[]"] split: sum.splits option.splits)

lemma rbinsert_inorder:
  assumes "rb_sorted compar t" "rbinsert compar t d = RBInserted t'"
  shows "rb_sorted compar t' \<and> set (rb_inorder t') = insert d (set (rb_inorder t)) \<and>
    (\<forall>x \<in> set (rb_inorder t). compar d x \<noteq> 0)"
proof -
  obtain fs u where fs: "rb_descend compar d t [] = Inr fs"
    "rb_insert_fix (RBNode red RBNil d RBNil) fs = Some u" "t' = paint black u"
    using assms(2) by (auto simp: rbinsert_def split: sum.splits option.splits)
  have t: "rb_inorder t = ctx_left fs @ ctx_right fs"
    using descend_place [OF fs(1)] inorder_plug [of RBNil fs] by simp
  have t': "rb_inorder t' = ctx_left fs @ d # ctx_right fs"
    using inorder_insert_fix [OF fs(2)] fs(3) by simp
  have o: "\<forall>x \<in> set (ctx_left fs). compar x d < 0" "\<forall>x \<in> set (ctx_right fs). compar d x < 0"
    using descend_order [OF fs(1) assms(1)] by simp_all
  have "sorted_wrt (\<lambda>x y. compar x y < 0) (rb_inorder t')"
    using assms(1) o unfolding t' rb_sorted_def t
    by (auto simp: sorted_wrt_append intro: compar_trans)
  moreover have "\<forall>x \<in> set (rb_inorder t). compar d x \<noteq> 0"
    using o compar_less_neq unfolding t by fastforce
  ultimately show ?thesis using t t' by (auto simp: rb_sorted_def)
qed

lemma rbfind_insert:
  assumes "rb_sorted compar t" "rbinsert compar t d = RBInserted t'"
  shows "rbfind compar t' k = (if compar k d = 0 then Some d else rbfind compar t k)"
proof -
  have i: "rb_sorted compar t'" "set (rb_inorder t') = insert d (set (rb_inorder t))"
    "\<forall>x \<in> set (rb_inorder t). compar d x \<noteq> 0"
    using rbinsert_inorder [OF assms] by blast+
  have kd: "compar k x \<noteq> 0" if "compar k d = 0" "x \<in> set (rb_inorder t)" for x
    using that i(3) compar_cong_eq by blast
  have "rbfind compar t' k = Some y \<longleftrightarrow>
      (if compar k d = 0 then Some d else rbfind compar t k) = Some y" for y
    using rbfind_Some [OF i(1), of k y] rbfind_Some [OF assms(1), of k y] i(2) kd by auto
  then show ?thesis by (metis option.exhaust_sel)
qed

text \<open>Deletion removes the element found and no other.\<close>

lemma rbdelete_finds:
  "rbdelete compar t k = None \<longleftrightarrow> rbfind compar t k = None"
  "rbdelete compar t k = Some (d, res) \<Longrightarrow> rbfind compar t k = Some d"
  by (auto simp: rbdelete_def rbfind_descend [of compar t k "[]"] split: sum.splits)

lemma rbdelete_inorder:
  assumes "rb_sorted compar t" "rbdelete compar t k = Some (d, Some t')"
  shows "rb_sorted compar t' \<and> set (rb_inorder t') = set (rb_inorder t) - {d}"
proof -
  obtain z fs where zfs: "rb_descend compar k t [] = Inl (z, fs)" "d = rb_data z"
    "rbdelete_at z fs = Some t'"
    using assms(2) by (auto simp: rbdelete_def split: sum.splits)
  have z: "z \<noteq> RBNil" "plug z fs = t" using descend_found [OF zfs(1)] by simp_all
  obtain c l r where zn: "z = RBNode c l d r" using z(1) zfs(2) by (cases z) auto
  have t: "rb_inorder t = (ctx_left fs @ rb_inorder l) @ d # (rb_inorder r @ ctx_right fs)"
    using inorder_plug [of z fs] z zn by simp
  have t': "rb_inorder t' = (ctx_left fs @ rb_inorder l) @ (rb_inorder r @ ctx_right fs)"
    using inorder_delete_at [of c l d r fs t'] zfs(3) zn by simp
  have "sorted_wrt (\<lambda>x y. compar x y < 0) (rb_inorder t')"
    using assms(1) unfolding rb_sorted_def t t' by (simp add: sorted_wrt_append)
  moreover have "d \<notin> set (rb_inorder t')"
  proof
    assume "d \<in> set (rb_inorder t')"
    then have "compar d d < 0"
      using assms(1) unfolding rb_sorted_def t t' by (auto simp: sorted_wrt_append)
    then show False using compar_refl [of d] by simp
  qed
  ultimately show ?thesis unfolding rb_sorted_def t t' by auto
qed

end

end
