(* ===== verification/Sudoers.thy ===== *)
theory Sudoers
  imports RedblackMap
begin

text \<open>
  The parsed sudoers policy of sudo's sudoers plugin (\<open>plugins/sudoers/parse.h\<close>, \<open>gram.h\<close>), the
  parts of the invocation context the policy reads (\<open>sudoers.h\<close>) and the environment of the
  policy engine: the system databases and library calls it consults, as a record of functions.

  Tail queues are lists in file order; a pointer that may be NULL is an option. The matching
  codes are a datatype, with the integers of \<open>parse.h\<close> in \<open>match_code\<close>.
\<close>

section \<open>Verdicts\<close>

datatype verdict = ALLOW | DENY | UNSPEC

definition match_code :: "verdict \<Rightarrow> int" where
  "match_code v = (case v of ALLOW \<Rightarrow> 0x52a2925 | DENY \<Rightarrow> 0xad5d6da | UNSPEC \<Rightarrow> -1)"

definition SPECIFIED :: "verdict \<Rightarrow> bool" where
  "SPECIFIED v \<longleftrightarrow> v = ALLOW \<or> v = DENY"

lemma SPECIFIED_simps [simp]: "SPECIFIED ALLOW" "SPECIFIED DENY" "\<not> SPECIFIED UNSPEC"
  by (simp_all add: SPECIFIED_def)

lemma SPECIFIED_iff: "SPECIFIED v \<longleftrightarrow> v \<noteq> UNSPEC"
  by (cases v) simp_all

definition sign_verdict :: "bool \<Rightarrow> verdict" where
  \<comment> \<open>\<open>m->negated ? DENY : ALLOW\<close>\<close>
  "sign_verdict negated = (if negated then DENY else ALLOW)"

definition flip_verdict :: "verdict \<Rightarrow> verdict" where
  \<comment> \<open>\<open>rc == ALLOW ? DENY : ALLOW\<close>\<close>
  "flip_verdict rc = (if rc = ALLOW then DENY else ALLOW)"

section \<open>Members, aliases\<close>

datatype member_type = COMMAND | ALIAS | NTWKADDR | NETGROUP | USERGROUP | WORD | ALL_member | MYSELF

datatype alias_type = HOSTALIAS | CMNDALIAS | USERALIAS | RUNASALIAS

definition alias_token :: "alias_type \<Rightarrow> int" where
  "alias_token t = (case t of HOSTALIAS \<Rightarrow> 290 | CMNDALIAS \<Rightarrow> 291 | USERALIAS \<Rightarrow> 292 | RUNASALIAS \<Rightarrow> 293)"

record command_digest =
  cd_type :: nat
  cd_str :: string

record sudo_command =
  sc_cmnd :: "string option"
  sc_args :: "string option"
  sc_digests :: "command_digest list"

text \<open>
  \<open>member.name\<close> is a string, or, for the types ALL and COMMAND in a command list, a cast pointer
  to a \<open>struct sudo_command\<close>; it is NULL for ALL and MYSELF elsewhere.
\<close>

datatype member_name = NoName | Name string | Cmnd sudo_command

record member =
  m_name :: member_name
  m_type :: member_type
  m_negated :: bool

fun name_str :: "member_name \<Rightarrow> string" where
  "name_str (Name s) = s"
| "name_str _ = []"

record alias_entry =
  a_name :: string
  a_type :: alias_type
  a_used :: bool
  a_line :: int
  a_column :: int
  a_file :: string
  a_members :: "member list"

section \<open>User specifications\<close>

datatype tag = Tag_true | Tag_false | Tag_IMPLIED | Tag_UNSPEC

definition tag_set :: "tag \<Rightarrow> bool" where
  \<comment> \<open>\<open>tag != UNSPEC\<close>\<close>
  "tag_set t \<longleftrightarrow> t \<noteq> Tag_UNSPEC"

definition tag_truth :: "tag \<Rightarrow> bool" where
  \<comment> \<open>the tag as a C truth value: IMPLIED is 2 and UNSPEC -1\<close>
  "tag_truth t \<longleftrightarrow> t \<noteq> Tag_false"

record cmndtag =
  t_follow :: tag
  t_intercept :: tag
  t_log_input :: tag
  t_log_output :: tag
  t_noexec :: tag
  t_nopasswd :: tag
  t_send_mail :: tag
  t_setenv :: tag

text \<open>A time limit is a \<open>time_t\<close> with -1 for none.\<close>

abbreviation (input) TIME_UNSPEC :: int where
  "TIME_UNSPEC \<equiv> -1"

record cmndspec =
  runasuserlist :: "member list option"
  runasgrouplist :: "member list option"
  cs_cmnd :: member
  cs_tags :: cmndtag
  cs_timeout :: int
  notbefore :: int
  notafter :: int
  cs_runcwd :: "string option"
  cs_runchroot :: "string option"
  cs_role :: "string option"
  cs_type :: "string option"
  cs_apparmor_profile :: "string option"
  cs_privs :: "string option"
  cs_limitprivs :: "string option"

datatype defaults_type = DEFAULTS | DEFAULTS_HOST | DEFAULTS_USER | DEFAULTS_RUNAS | DEFAULTS_CMND

record defaults =
  d_var :: string
  d_val :: "string option"
  d_binding :: "member list"
  d_type :: defaults_type
  d_op :: int

record privilege =
  hostlist :: "member list"
  cmndlist :: "cmndspec list"
  p_defaults :: "defaults list"

record userspec =
  us_users :: "member list"
  us_privileges :: "privilege list"
  us_line :: int
  us_column :: int
  us_file :: string

type_synonym alias_table = "alias_entry rbt option"

record parse_tree =
  userspecs :: "userspec list"
  pt_defaults :: "defaults list"
  aliases :: alias_table
  pt_shost :: "string option"
  pt_lhost :: "string option"
  pt_innetgr :: "(string \<Rightarrow> string option \<Rightarrow> string option \<Rightarrow> string option \<Rightarrow> int) option"

text \<open>
  \<open>pt_innetgr\<close> is \<open>parse_tree->nss->innetgr\<close>, the netgroup lookup of a source that has its own.
\<close>

text \<open>What the code reads of a \<open>struct stat\<close>.\<close>

record file_stat =
  st_dev :: "64 word"
  st_ino :: "64 word"
  st_mode :: "32 word"

definition stat0 :: file_stat where
  "stat0 = \<lparr>st_dev = 0, st_ino = 0, st_mode = 0\<rparr>"

record cmnd_info =
  ci_path :: "string option"
  ci_stat :: file_stat
  ci_status :: int

definition info0 :: cmnd_info where
  \<comment> \<open>\<open>memset(info, 0, sizeof(*info))\<close>\<close>
  "info0 = \<lparr>ci_path = None, ci_stat = stat0, ci_status = 0\<rparr>"

section \<open>The invocation\<close>

record passwd =
  pw_name :: string
  pw_uid :: "32 word"
  pw_gid :: "32 word"
  pw_dir :: string
  pw_shell :: string

record group =
  gr_name :: string
  gr_gid :: "32 word"

text \<open>
  The fields of \<open>struct sudoers_context\<close> the engine reads and writes. \<open>runas.pw\<close> and \<open>user.pw\<close>
  are set before the policy is consulted.
\<close>

record sudo_context =
  user_name :: string
  user_uid :: "32 word"
  user_gid :: "32 word"
  user_pw :: passwd
  user_cmnd :: "string option"
  user_cmnd_args :: "string option"
  user_cmnd_base :: string
  user_path :: "string option"
  user_gid_list :: "32 word list option"
  runas_pw :: passwd
  runas_gr :: "group option"
  runas_list_pw :: "passwd option"
  runas_chroot :: "string option"
  runas_argv0 :: string
  runas_host :: string
  runas_shost :: string
  runas_role :: "string option"
  runas_type :: "string option"
  runas_apparmor_profile :: "string option"
  runas_privs :: "string option"
  runas_limitprivs :: "string option"
  settings_flags :: "32 word"

definition RUNAS_USER_SPECIFIED :: "32 word" where
  "RUNAS_USER_SPECIFIED = 0x01"

definition RUNAS_GROUP_SPECIFIED :: "32 word" where
  "RUNAS_GROUP_SPECIFIED = 0x02"

definition ISSET :: "32 word \<Rightarrow> 32 word \<Rightarrow> bool" where
  "ISSET w f \<longleftrightarrow> and w f \<noteq> 0"

definition SET :: "32 word \<Rightarrow> 32 word \<Rightarrow> 32 word" where
  "SET w f = or w f"

definition CLR :: "32 word \<Rightarrow> 32 word \<Rightarrow> 32 word" where
  "CLR w f = and w (not f)"

text \<open>
  What matching a command changes: the \<open>cmnd_info\<close> (None for a NULL argument), the matched
  command, the descriptor kept for \<open>fexecve\<close>, the status and the canonical directory of the
  user's command (\<open>user.cmnd_stat\<close>, \<open>user.cmnd_dir\<close>) and the table of open descriptors with the
  paths they were opened at.
\<close>

record match_state =
  ms_info :: "cmnd_info option"
  ms_runas_cmnd :: "string option"
  ms_execfd :: int
  ms_cmnd_stat :: "file_stat option"
  ms_cmnd_dir :: "string option"
  ms_fds :: "(int \<times> string) list"

text \<open>
  The sudoers Defaults (the \<open>def_*\<close> variables) the engine reads or sets; \<open>def_tuple_of\<close> is
  \<open>sudo_defs_table[i].sd_un.tuple\<close>.
\<close>

datatype def_tuple = never | any | always | all_tuple

record sudo_defs =
  def_netgroup_tuple :: bool
  def_use_netgroups :: bool
  def_case_insensitive_user :: bool
  def_case_insensitive_group :: bool
  def_group_plugin :: "string option"
  def_always_query_group_plugin :: bool
  def_preserve_groups :: bool
  def_runas_default :: string
  def_authenticate :: bool
  def_noexec :: bool
  def_intercept :: bool
  def_setenv :: bool
  def_log_input :: bool
  def_log_output :: bool
  def_mail_all_cmnds :: bool
  def_mail_always :: bool
  def_mail_no_perms :: bool
  def_sudoedit_follow :: bool
  def_role :: "string option"
  def_type :: "string option"
  def_apparmor_profile :: "string option"
  def_privs :: "string option"
  def_limitprivs :: "string option"
  def_command_timeout :: int
  def_runcwd :: "string option"
  def_runchroot :: "string option"
  def_log_stdin :: bool
  def_log_ttyin :: bool
  def_log_stdout :: bool
  def_log_stderr :: bool
  def_log_ttyout :: bool
  def_fdexec :: def_tuple
  def_fast_glob :: bool
  def_ignore_dot :: bool
  def_secure_path :: "string option"
  def_exempt_group :: "string option"
  def_tuple_of :: "int \<Rightarrow> def_tuple"

text \<open>
  What the engine asks of the system: the user and group databases, the group plugin,
  \<open>innetgr(3)\<close> and the domain name, \<open>fnmatch(3)\<close> without regard to case, \<open>inet_pton(3)\<close> and the
  network interfaces.
\<close>

datatype net_addr = IP4 "32 word" | IP6 "8 word list"

record interface =
  if_addr :: net_addr
  if_mask :: net_addr

record system =
  sys_user_in_group :: "passwd \<Rightarrow> string \<Rightarrow> bool"
  sys_group_plugin_query :: "string \<Rightarrow> string \<Rightarrow> passwd option \<Rightarrow> bool"
  sys_getpwnam :: "string \<Rightarrow> passwd option"
  sys_getpwuid :: "32 word \<Rightarrow> passwd option"
  sys_get_gidlist :: "passwd \<Rightarrow> 32 word list option"
  sys_innetgr :: "string \<Rightarrow> string option \<Rightarrow> string option \<Rightarrow> string option \<Rightarrow> bool"
  sys_getdomainname :: "string option"
  sys_fnmatch_casefold :: "string \<Rightarrow> string \<Rightarrow> bool"
  sys_inet_pton4 :: "string \<Rightarrow> 32 word option"
  sys_inet_pton6 :: "string \<Rightarrow> 8 word list option"
  sys_interfaces :: "interface list"

text \<open>A machine without users, groups, netgroups and interfaces, the base of the concrete examples.\<close>

definition empty_system :: system where
  "empty_system = \<lparr>sys_user_in_group = (\<lambda>_ _. False), sys_group_plugin_query = (\<lambda>_ _ _. False),
     sys_getpwnam = (\<lambda>_. None), sys_getpwuid = (\<lambda>_. None), sys_get_gidlist = (\<lambda>_. None),
     sys_innetgr = (\<lambda>_ _ _ _. False), sys_getdomainname = None,
     sys_fnmatch_casefold = (\<lambda>_ _. False), sys_inet_pton4 = (\<lambda>_. None),
     sys_inet_pton6 = (\<lambda>_. None), sys_interfaces = []\<rparr>"

end
