(* ===== verification/Alias.thy ===== *)
theory Alias
  imports Sudoers
begin

text \<open>
  The alias table (\<open>plugins/sudoers/alias.c\<close>): a red-black tree ordered by name, then type, with
  a "used" flag in each entry for cycle detection. The tree is NULL until the first alias is
  added. An entry the code changes in place is found again by its key.
\<close>

section \<open>Operations\<close>

text \<open>\<open>alias_compare\<close>; its arguments are never NULL, as the tree holds no NULL data.\<close>

definition alias_compare :: "alias_entry \<Rightarrow> alias_entry \<Rightarrow> int" where
  "alias_compare a1 a2 =
     (let res = strcmp (a_name a1) (a_name a2) in
      if res = 0 then alias_token (a_type a1) - alias_token (a_type a2) else res)"

definition alias_key :: "string \<Rightarrow> alias_type \<Rightarrow> alias_entry" where
  "alias_key name ty = \<lparr>a_name = name, a_type = ty, a_used = False, a_line = 0, a_column = 0,
     a_file = [], a_members = []\<rparr>"

text \<open>Writing through the pointer in the node that \<open>rbfind\<close> finds.\<close>

fun rb_modify :: "('a \<Rightarrow> 'a \<Rightarrow> int) \<Rightarrow> 'a \<Rightarrow> ('a \<Rightarrow> 'a) \<Rightarrow> 'a rbt \<Rightarrow> 'a rbt" where
  "rb_modify compar key f RBNil = RBNil"
| "rb_modify compar key f (RBNode c l x r) =
     (let res = compar key x in
      if res = 0 then RBNode c l (f x) r
      else if res < 0 then RBNode c (rb_modify compar key f l) x r
      else RBNode c l x (rb_modify compar key f r))"

text \<open>
  The errors: \<open>ErrnoKept\<close> is the early return without a tree, which leaves \<open>errno\<close> as it was.
\<close>

datatype alias_error = ENOENT | ELOOP | EEXIST | ErrnoKept

definition set_used :: "bool \<Rightarrow> alias_entry \<Rightarrow> alias_entry" where
  "set_used b a = a\<lparr>a_used := b\<rparr>"

definition alias_get :: "alias_table \<Rightarrow> string \<Rightarrow> alias_type \<Rightarrow>
    alias_error + (alias_entry \<times> alias_table)" where
  "alias_get al name ty =
     (case al of None \<Rightarrow> Inl ErrnoKept
      | Some t \<Rightarrow>
          (case rbfind alias_compare t (alias_key name ty) of
             None \<Rightarrow> Inl ENOENT
           | Some a \<Rightarrow>
               if a_used a then Inl ELOOP
               else Inr (set_used True a,
                         Some (rb_modify alias_compare (alias_key name ty) (set_used True) t))))"

definition alias_put :: "alias_table \<Rightarrow> alias_entry \<Rightarrow> alias_table" where
  "alias_put al a = map_option (rb_modify alias_compare a (set_used False)) al"

text \<open>
  \<open>alias_add\<close>: the new entry is compared by name and type only, so it is inserted complete. A
  tree is allocated first if there is none; failure leaves the table unchanged otherwise.
  (Out of memory is not modelled; \<open>RBStuck\<close> never happens in a valid tree.)
\<close>

definition alias_add :: "alias_table \<Rightarrow> string \<Rightarrow> alias_type \<Rightarrow> string \<Rightarrow> int \<Rightarrow> int \<Rightarrow>
    member list \<Rightarrow> (alias_error option) \<times> alias_table" where
  "alias_add al name ty file line column members =
     (let t = (case al of None \<Rightarrow> rbcreate | Some t \<Rightarrow> t);
          a = \<lparr>a_name = name, a_type = ty, a_used = False, a_line = line, a_column = column,
               a_file = file, a_members = members\<rparr>
      in case rbinsert alias_compare t a of
           RBInserted t' \<Rightarrow> (None, Some t')
         | RBExists _ \<Rightarrow> (Some EEXIST, Some t)
         | RBStuck \<Rightarrow> (Some ErrnoKept, Some t))"

definition alias_apply :: "alias_table \<Rightarrow> (alias_entry \<Rightarrow> 's \<Rightarrow> int \<times> 's) \<Rightarrow> 's \<Rightarrow> bool \<times> 's" where
  "alias_apply al func s =
     (case al of None \<Rightarrow> (True, s)
      | Some t \<Rightarrow> (let (e, s') = rbapply_node t func s inorder in (e = 0, s')))"

definition no_aliases :: "alias_table \<Rightarrow> bool" where
  "no_aliases al = (case al of None \<Rightarrow> True | Some t \<Rightarrow> rbisempty t)"

definition alias_remove :: "alias_table \<Rightarrow> string \<Rightarrow> alias_type \<Rightarrow>
    alias_error + (alias_entry \<times> alias_table)" where
  "alias_remove al name ty =
     (case al of None \<Rightarrow> Inl ENOENT
      | Some t \<Rightarrow>
          (case rbdelete alias_compare t (alias_key name ty) of
             None \<Rightarrow> Inl ENOENT
           | Some (a, None) \<Rightarrow> Inl ErrnoKept
           | Some (a, Some t') \<Rightarrow> Inr (a, Some t')))"

definition alias_type_to_string :: "alias_type \<Rightarrow> string" where
  "alias_type_to_string ty =
     (case ty of HOSTALIAS \<Rightarrow> ''Host_Alias'' | CMNDALIAS \<Rightarrow> ''Cmnd_Alias''
      | USERALIAS \<Rightarrow> ''User_Alias'' | RUNASALIAS \<Rightarrow> ''Runas_Alias'')"

section \<open>The comparison routine keeps its contract\<close>

lemma alias_token_inject [simp]: "alias_token s = alias_token t \<longleftrightarrow> s = t"
  by (cases s; cases t) (simp_all add: alias_token_def)

lemma alias_compare_eq_0:
  "alias_compare a b = 0 \<longleftrightarrow> cstr (a_name a) = cstr (a_name b) \<and> a_type a = a_type b"
  by (auto simp: alias_compare_def Let_def strcmp_eq_0)

interpretation alias_rb: rb_compar alias_compare
proof unfold_locales
  fix x y z :: alias_entry
  have "strcmp (a_name y) (a_name x) = - strcmp (a_name x) (a_name y)" by (rule strcmp_swap)
  then show "alias_compare y x < 0 \<longleftrightarrow> alias_compare x y > 0"
    by (auto simp: alias_compare_def Let_def)
  show "alias_compare x z < 0" if "alias_compare x y < 0" "alias_compare y z < 0"
    using that strcmp_trans [of "a_name x" "a_name y" "a_name z"]
      strcmp_cong [of "a_name x" "a_name y" "a_name z"]
      strcmp_cong_right [of "a_name y" "a_name z" "a_name x"]
    by (simp add: alias_compare_def Let_def split: if_splits)
  show "alias_compare x z < 0 \<longleftrightarrow> alias_compare y z < 0" if "alias_compare x y = 0"
    using that strcmp_cong [of "a_name x" "a_name y" "a_name z"]
    by (simp add: alias_compare_def Let_def split: if_splits)
qed

section \<open>The "used" flags\<close>

definition unused :: "alias_table \<Rightarrow> nat" where
  "unused al = (case al of None \<Rightarrow> 0 | Some t \<Rightarrow> length (filter (\<lambda>a. \<not> a_used a) (rb_inorder t)))"

lemma find_modify_count:
  "rbfind compar t k = Some x \<Longrightarrow> P x \<Longrightarrow> \<not> P (f x) \<Longrightarrow>
     length (filter P (rb_inorder (rb_modify compar k f t))) < length (filter P (rb_inorder t))"
  by (induction t) (auto simp: Let_def split: if_splits)

lemma alias_get_unused: "alias_get al name ty = Inr (a, al') \<Longrightarrow> unused al' < unused al"
  by (auto simp: alias_get_def unused_def set_used_def intro!: find_modify_count
      split: option.splits if_splits)

lemma set_used_set_used [simp]: "set_used b (set_used c a) = set_used b a"
  by (simp add: set_used_def)

lemma set_used_same: "a_used a = b \<Longrightarrow> set_used b a = a"
  by (simp add: set_used_def)

lemma alias_compare_set_used [simp]:
  "alias_compare (set_used b x) y = alias_compare x y"
  "alias_compare x (set_used b y) = alias_compare x y"
  by (simp_all add: alias_compare_def set_used_def Let_def)

lemma modify_restore:
  assumes "rbfind alias_compare t k = Some a" "\<not> a_used a"
  shows "rb_modify alias_compare a (set_used False) (rb_modify alias_compare k (set_used True) t) = t"
  using assms(1)
proof (induction t)
  case (RBNode c l x r)
  have "alias_compare k a = 0" if "rbfind alias_compare t k = Some a" for t :: "alias_entry rbt"
    using that by (induction t) (auto simp: Let_def split: if_splits)
  then have ka: "alias_compare k a = 0" using RBNode.prems .
  have z: "alias_compare k x = 0 \<longleftrightarrow> alias_compare a x = 0" "alias_compare k x < 0 \<longleftrightarrow> alias_compare a x < 0"
    using alias_rb.compar_cong_eq [OF ka] alias_rb.compar_cong [OF ka] by blast+
  show ?case
  proof (cases "alias_compare k x = 0")
    case True
    then have "x = a" using RBNode.prems by simp
    then show ?thesis using True z assms(2) by (simp add: Let_def set_used_same)
  next
    case False
    then show ?thesis using RBNode z by (auto simp: Let_def)
  qed
qed simp

text \<open>\<open>alias_put\<close> after \<open>alias_get\<close> gives back the table as it was.\<close>

lemma alias_put_get: "alias_get al name ty = Inr (a, al') \<Longrightarrow> alias_put al' a = al"
proof -
  assume "alias_get al name ty = Inr (a, al')"
  then obtain t x where t: "al = Some t" "rbfind alias_compare t (alias_key name ty) = Some x"
    "\<not> a_used x" "a = set_used True x"
    "al' = Some (rb_modify alias_compare (alias_key name ty) (set_used True) t)"
    by (auto simp: alias_get_def split: option.splits if_splits)
  have "rb_modify alias_compare (set_used True x) (set_used False) u
      = rb_modify alias_compare x (set_used False) u" for u
    by (induction u) (simp_all add: Let_def)
  then show ?thesis using t modify_restore [OF t(2,3)] by (simp add: alias_put_def)
qed

section \<open>The table as a map\<close>

definition alias_table_ok :: "alias_table \<Rightarrow> bool" where
  "alias_table_ok al = (case al of None \<Rightarrow> True
     | Some t \<Rightarrow> rb_inv t \<and> rb_sorted alias_compare t)"

definition alias_lookup :: "alias_table \<Rightarrow> string \<Rightarrow> alias_type \<Rightarrow> alias_entry option" where
  "alias_lookup al name ty =
     (case al of None \<Rightarrow> None | Some t \<Rightarrow> rbfind alias_compare t (alias_key name ty))"

definition alias_entries :: "alias_table \<Rightarrow> alias_entry set" where
  "alias_entries al = (case al of None \<Rightarrow> {} | Some t \<Rightarrow> set (rb_inorder t))"

lemma rb_inv_Nil [simp]: "rb_inv RBNil"
  by (simp add: rb_inv_def)

lemma compare_key: "alias_compare (alias_key n ty) a = 0 \<longleftrightarrow> cstr n = cstr (a_name a) \<and> ty = a_type a"
  by (simp add: alias_compare_eq_0 alias_key_def)

lemma alias_get_lookup:
  "alias_get al name ty = (case alias_lookup al name ty of
      None \<Rightarrow> Inl (if al = None then ErrnoKept else ENOENT)
    | Some a \<Rightarrow> if a_used a then Inl ELOOP else
        Inr (set_used True a, map_option (rb_modify alias_compare (alias_key name ty) (set_used True)) al))"
  by (simp add: alias_get_def alias_lookup_def split: option.splits)

lemma alias_lookup_entries:
  assumes "alias_table_ok al"
  shows "alias_lookup al name ty = Some a \<longleftrightarrow>
    a \<in> alias_entries al \<and> cstr name = cstr (a_name a) \<and> ty = a_type a"
  using assms
  by (cases al) (simp_all add: alias_table_ok_def alias_lookup_def alias_entries_def compare_key
      alias_rb.rbfind_Some)

lemma modify_compare_same:
  assumes "\<And>x y. compar x (f y) = compar x y" "\<And>x y. compar (f x) y = compar x y"
  shows "sorted_wrt (\<lambda>x y. compar x y < 0) (rb_inorder (rb_modify compar k f t))
    = sorted_wrt (\<lambda>x y. compar x y < (0::int)) (rb_inorder t)"
proof -
  have p: "(\<forall>y \<in> set (rb_inorder (rb_modify compar k f u)). Q y) = (\<forall>y \<in> set (rb_inorder u). Q y)"
    if "\<And>x. Q (f x) = Q x" for u and Q :: "'a \<Rightarrow> bool"
    by (induction u) (auto simp: Let_def that)
  show ?thesis
    by (induction t) (simp_all add: Let_def sorted_wrt_append p assms)
qed

lemma modify_inv [simp]: "rb_inv (rb_modify compar k f t) = rb_inv t"
proof -
  have c: "rb_color (rb_modify compar k f t) = rb_color t" for t by (cases t) (auto simp: Let_def)
  have b: "bheight (rb_modify compar k f t) = bheight t" for t by (induction t) (auto simp: Let_def)
  have "inv_height (rb_modify compar k f t) = inv_height t" by (induction t) (auto simp: Let_def b)
  moreover have "inv_color (rb_modify compar k f t) = inv_color t"
    by (induction t) (auto simp: Let_def c)
  ultimately show ?thesis by (simp add: rb_inv_def c)
qed

lemma alias_table_ok_get:
  "alias_table_ok al \<Longrightarrow> alias_get al name ty = Inr (a, al') \<Longrightarrow> alias_table_ok al'"
  by (auto simp: alias_table_ok_def alias_get_def rb_sorted_def modify_compare_same
      split: option.splits if_splits)

text \<open>Adding: the new entry is found under its name and type, every other lookup is unchanged.\<close>

lemma alias_add_laws:
  assumes "alias_table_ok al"
    and "alias_add al name ty file line column members = (e, al')"
  shows "alias_table_ok al'"
    and "e = None \<longleftrightarrow> alias_lookup al name ty = None"
    and "e = None \<Longrightarrow> alias_lookup al' n t =
      (if cstr n = cstr name \<and> t = ty
       then Some \<lparr>a_name = name, a_type = ty, a_used = False, a_line = line, a_column = column,
                  a_file = file, a_members = members\<rparr>
       else alias_lookup al n t)"
    and "e \<noteq> None \<Longrightarrow> e = Some EEXIST \<and> al' = al"
proof -
  define t0 where "t0 = (case al of None \<Rightarrow> rbcreate | Some t \<Rightarrow> t)"
  define a where "a = \<lparr>a_name = name, a_type = ty, a_used = False, a_line = line,
    a_column = column, a_file = file, a_members = members\<rparr>"
  have t0: "rb_inv t0" "rb_sorted alias_compare t0"
    using assms(1) by (auto simp: t0_def rbcreate_def rb_sorted_def alias_table_ok_def split: option.splits)
  have look: "alias_lookup al n t = rbfind alias_compare t0 (alias_key n t)" for n t
    by (simp add: alias_lookup_def t0_def rbcreate_def split: option.splits)
  have "alias_compare (alias_key name ty) y = alias_compare a y" for y
    by (simp add: alias_compare_def alias_key_def a_def Let_def)
  then have fa: "rbfind alias_compare t0 a = alias_lookup al name ty"
    unfolding look by (induction t0) (simp_all add: Let_def)
  have res: "(e, al') = (case rbinsert alias_compare t0 a of
      RBInserted t' \<Rightarrow> (None, Some t') | RBExists _ \<Rightarrow> (Some EEXIST, Some t0) | RBStuck \<Rightarrow> (Some ErrnoKept, Some t0))"
    using assms(2) unfolding alias_add_def Let_def t0_def [symmetric] a_def [symmetric] by (rule sym)
  have stuck: "rbinsert alias_compare t0 a \<noteq> RBStuck" using rbinsert_inv(1) [OF t0(1)] .
  have ex: "rbinsert alias_compare t0 a = RBExists x \<longleftrightarrow> alias_lookup al name ty = Some x" for x
    using alias_rb.rbinsert_exists [OF t0(2)] fa by simp
  have ca: "alias_compare (alias_key n t) a = 0 \<longleftrightarrow> cstr n = cstr name \<and> t = ty" for n t
    by (simp add: compare_key a_def)
  show iff: "e = None \<longleftrightarrow> alias_lookup al name ty = None"
    using res stuck ex by (cases "rbinsert alias_compare t0 a") auto
  have ins: "\<exists>t'. rbinsert alias_compare t0 a = RBInserted t' \<and> al' = Some t'" if "e = None"
    using res that by (cases "rbinsert alias_compare t0 a") auto
  show "e \<noteq> None \<Longrightarrow> e = Some EEXIST \<and> al' = al"
  proof -
    assume "e \<noteq> None"
    then obtain x where x: "rbinsert alias_compare t0 a = RBExists x"
      using res stuck by (cases "rbinsert alias_compare t0 a") auto
    then have "al \<noteq> None" using ex by (auto simp: alias_lookup_def split: option.splits)
    then show "e = Some EEXIST \<and> al' = al" using res x by (auto simp: t0_def)
  qed
  then show "alias_table_ok al'"
    using assms(1) ins rbinsert_inv(2) [OF t0(1)] alias_rb.rbinsert_inorder [OF t0(2)]
    by (cases "e = None") (auto simp: alias_table_ok_def)
  show "e = None \<Longrightarrow> alias_lookup al' n t =
      (if cstr n = cstr name \<and> t = ty then Some \<lparr>a_name = name, a_type = ty, a_used = False,
         a_line = line, a_column = column, a_file = file, a_members = members\<rparr>
       else alias_lookup al n t)"
  proof -
    assume "e = None"
    then obtain t' where t': "rbinsert alias_compare t0 a = RBInserted t'" "al' = Some t'"
      using ins by blast
    then show ?thesis
      using alias_rb.rbfind_insert [OF t0(2) t'(1), of "alias_key n t"] ca
      unfolding look [of n t] a_def [symmetric] by (simp add: alias_lookup_def)
  qed
qed

end
