(* ===== verification/AliasProps.thy ===== *)
theory AliasProps
  imports Alias
begin

text \<open>
  The trees and alias tables a program can build: reachability by the operations, and what holds
  of every reachable one.
\<close>

section \<open>Reachable trees\<close>

inductive rb_reachable :: "('a \<Rightarrow> 'a \<Rightarrow> int) \<Rightarrow> 'a rbt \<Rightarrow> bool" for compar where
  rb_start: "rb_reachable compar rbcreate"
| rb_insert: "rb_reachable compar t \<Longrightarrow> rbinsert compar t d = RBInserted t' \<Longrightarrow> rb_reachable compar t'"
| rb_delete: "rb_reachable compar t \<Longrightarrow> rbdelete compar t k = Some (d, Some t') \<Longrightarrow> rb_reachable compar t'"

lemma rb_reachable_inv: "rb_reachable compar t \<Longrightarrow> rb_inv t"
proof (induction rule: rb_reachable.induct)
  case (rb_insert t d t')
  show ?case by (rule rbinsert_inv(2) [OF rb_insert.IH rb_insert.hyps(2)])
next
  case (rb_delete t k d t')
  show ?case using rbdelete_inv [OF rb_delete.IH rb_delete.hyps(2)] by simp
qed (simp add: rbcreate_def)

text \<open>
  C7. Whatever the comparison routine answers, every tree built from the empty one by insertions and
  deletions is a balanced red-black tree: its height is at most twice the logarithm of its size,
  and the next insertion or deletion follows no missing child (the rotations of the repair loops
  are always defined).
\<close>

theorem rb_reachable_balanced:
  assumes "rb_reachable compar t"
  shows "rb_inv t \<and> 2 ^ (rb_height t div 2) \<le> Suc (rb_size t) \<and>
         rbinsert compar t d \<noteq> RBStuck \<and> (\<forall>k x. rbdelete compar t k \<noteq> Some (x, None))"
  using rb_reachable_inv [OF assms] rb_inv_height_log [of t] rbinsert_inv(1) [of t compar d]
    rbdelete_inv [of t compar] by fastforce

definition int_compar :: "int \<Rightarrow> int \<Rightarrow> int" where
  "int_compar a b = a - b"

lemma rb_reachable_balanced_witness:
  "\<exists>t :: int rbt. rb_inorder t = [1, 2, 3, 4] \<and> rb_inv t \<and> 2 ^ (rb_height t div 2) \<le> Suc (rb_size t)"
proof -
  let ?N = "\<lambda>c l x r. RBNode c l (x::int) r"
  let ?t1 = "?N black RBNil 1 RBNil"
  let ?t2 = "?N black RBNil 1 (?N red RBNil 2 RBNil)"
  let ?t3 = "?N black (?N red RBNil 1 RBNil) 2 (?N red RBNil 3 RBNil)"
  let ?t4 = "?N black (?N black RBNil 1 RBNil) 2 (?N black RBNil 3 (?N red RBNil 4 RBNil))"
  have i: "rbinsert int_compar rbcreate 1 = RBInserted ?t1" "rbinsert int_compar ?t1 2 = RBInserted ?t2"
    "rbinsert int_compar ?t2 3 = RBInserted ?t3" "rbinsert int_compar ?t3 4 = RBInserted ?t4"
    by code_simp+
  have "rb_reachable int_compar ?t4"
    by (rule rb_insert [OF rb_insert [OF rb_insert [OF rb_insert [OF rb_start i(1)] i(2)] i(3)] i(4)])
  from rb_reachable_balanced [OF this] show ?thesis by (intro exI [of _ ?t4]) simp
qed

section \<open>Reachable alias tables\<close>

inductive alias_reachable :: "alias_table \<Rightarrow> bool" where
  alias_start: "alias_reachable None"
| alias_adds: "alias_reachable al \<Longrightarrow> alias_add al name ty file line col ms = (e, al') \<Longrightarrow> alias_reachable al'"
| alias_gets: "alias_reachable al \<Longrightarrow> alias_get al name ty = Inr (a, al') \<Longrightarrow> alias_reachable al'"
| alias_puts: "alias_reachable al \<Longrightarrow> alias_reachable (alias_put al a)"
| alias_removes: "alias_reachable al \<Longrightarrow> alias_remove al name ty = Inr (a, al') \<Longrightarrow> alias_reachable al'"

lemma alias_table_ok_put: "alias_table_ok al \<Longrightarrow> alias_table_ok (alias_put al a)"
  by (auto simp: alias_table_ok_def alias_put_def rb_sorted_def modify_compare_same split: option.splits)

lemma alias_remove_laws:
  assumes "alias_table_ok al" "alias_remove al name ty = Inr (a, al')"
  shows "alias_table_ok al' \<and> alias_lookup al name ty = Some a \<and>
    alias_entries al' = alias_entries al - {a}"
proof -
  obtain t t' where t: "al = Some t" "al' = Some t'" "rbdelete alias_compare t (alias_key name ty) = Some (a, Some t')"
    using assms(2) by (auto simp: alias_remove_def split: option.splits)
  have ok: "rb_inv t" "rb_sorted alias_compare t" using assms(1) t by (simp_all add: alias_table_ok_def)
  have "rb_inv t'" using rbdelete_inv [OF ok(1) t(3)] by simp
  moreover have "rb_sorted alias_compare t'" "set (rb_inorder t') = set (rb_inorder t) - {a}"
    using alias_rb.rbdelete_inorder [OF ok(2) t(3)] by simp_all
  moreover have "alias_lookup al name ty = Some a"
    using alias_rb.rbdelete_finds(2) [OF t(3)] t(1) by (simp add: alias_lookup_def)
  ultimately show ?thesis using t by (simp add: alias_table_ok_def alias_entries_def)
qed

lemma alias_reachable_ok: "alias_reachable al \<Longrightarrow> alias_table_ok al"
proof (induction rule: alias_reachable.induct)
  case (alias_adds al name ty f line col ms e al')
  show ?case by (rule alias_add_laws(1) [OF alias_adds.IH alias_adds.hyps(2)])
next
  case (alias_gets al name ty a al')
  show ?case by (rule alias_table_ok_get [OF alias_gets.IH alias_gets.hyps(2)])
next
  case (alias_removes al name ty a al')
  show ?case using alias_remove_laws [OF alias_removes.IH alias_removes.hyps(2)] by simp
qed (simp_all add: alias_table_ok_put, simp add: alias_table_ok_def)

definition alias_named :: "alias_table \<Rightarrow> string \<Rightarrow> alias_type \<Rightarrow> alias_entry set" where
  \<comment> \<open>the entries with this name and type\<close>
  "alias_named al name ty = {a \<in> alias_entries al. cstr (a_name a) = cstr name \<and> a_type a = ty}"

lemma alias_named_lookup:
  assumes "alias_table_ok al"
  shows "alias_named al name ty = set_option (alias_lookup al name ty)"
  by (rule set_eqI, unfold alias_named_def elem_set mem_Collect_eq alias_lookup_entries [OF assms]) metis

text \<open>
  C8. In every alias table built by adding, taking, putting back and removing aliases there is at most one
  alias of a name and type, the tree is balanced, and \<open>alias_get\<close> answers with it, marked as used, exactly when it
  is in the table and not in use; when it is in use the answer is \<open>ELOOP\<close>, when there is none \<open>ENOENT\<close> (or,
  for a table that was never allocated, NULL with \<open>errno\<close> as it was).
\<close>

theorem alias_reachable_get:
  assumes "alias_reachable al"
  shows "card (alias_named al name ty) \<le> 1 \<and>
    (case al of None \<Rightarrow> True | Some t \<Rightarrow> rb_inv t) \<and>
    (\<exists>al'. alias_get al name ty = Inr (b, al')) = (\<exists>a. alias_named al name ty = {a} \<and> \<not> a_used a \<and> b = a\<lparr>a_used := True\<rparr>) \<and>
    (alias_get al name ty = Inl ELOOP) = (\<exists>a. alias_named al name ty = {a} \<and> a_used a) \<and>
    (alias_get al name ty = Inl (if al = None then ErrnoKept else ENOENT)) = (alias_named al name ty = {})"
proof -
  have ok: "alias_table_ok al" by (rule alias_reachable_ok [OF assms])
  then have t: "case al of None \<Rightarrow> True | Some t \<Rightarrow> rb_inv t" by (auto simp: alias_table_ok_def split: option.splits)
  show ?thesis
  proof (cases "alias_lookup al name ty")
    case None
    then have "alias_named al name ty = {}" by (simp add: alias_named_lookup [OF ok])
    then show ?thesis using t None by (simp add: alias_get_lookup)
  next
    case (Some x)
    then have n: "alias_named al name ty = {x}" by (simp add: alias_named_lookup [OF ok])
    have x: "(\<exists>a. {x} = {a} \<and> P a) = P x" for P by simp
    show ?thesis unfolding n x using t by (cases "a_used x") (auto simp: alias_get_lookup Some set_used_def)
  qed
qed

lemma alias_reachable_get_witness:
  "\<exists>al. alias_add None ''ADMINS'' USERALIAS [] 1 1 [] = (None, al) \<and>
     alias_get al ''ADMINS'' USERALIAS \<noteq> Inl ENOENT \<and> alias_get al ''ADMINS'' HOSTALIAS = Inl ENOENT"
proof -
  obtain e al where add: "alias_add None ''ADMINS'' USERALIAS [] 1 1 [] = (e, al)" by force
  then have r: "alias_reachable al" by (rule alias_adds [OF alias_start])
  have e: "e = None" "al \<noteq> None" using add by (auto simp: alias_add_def rbinsert_def rbcreate_def)
  have "\<exists>a. alias_entries al = {a} \<and> a_name a = ''ADMINS'' \<and> a_type a = USERALIAS"
    using add by (auto simp: alias_add_def rbinsert_def rbcreate_def alias_entries_def)
  then have "alias_named al ''ADMINS'' USERALIAS \<noteq> {}" "alias_named al ''ADMINS'' HOSTALIAS = {}"
    by (auto simp: alias_named_def)
  then show ?thesis
    using add e alias_reachable_get [OF r, of "''ADMINS''" USERALIAS]
      alias_reachable_get [OF r, of "''ADMINS''" HOSTALIAS] by auto
qed

text \<open>
  Adding an alias to a table succeeds exactly when no alias of that name and type is there; the
  new alias is then found with its members, and every other lookup is as before. A refused alias
  leaves the table as it was.
\<close>

theorem alias_add_lookup:
  assumes "alias_reachable al"
    and "alias_add al name ty file line col ms = (e, al')"
  shows "(e = None) = (alias_lookup al name ty = None) \<and>
    (if e = None
     then \<forall>n t. alias_lookup al' n t =
       (if cstr n = cstr name \<and> t = ty
        then Some \<lparr>a_name = name, a_type = ty, a_used = False, a_line = line, a_column = col,
                   a_file = file, a_members = ms\<rparr>
        else alias_lookup al n t)
     else e = Some EEXIST \<and> al' = al)"
  using alias_add_laws(2-4) [OF alias_reachable_ok [OF assms(1)] assms(2)] by simp

lemma alias_add_lookup_witness:
  "fst (alias_add None ''A'' HOSTALIAS [] 1 1 []) = None \<and>
   alias_lookup (snd (alias_add None ''A'' HOSTALIAS [] 1 1 [])) ''B'' HOSTALIAS = None"
  using alias_add_lookup [OF alias_start prod.collapse [symmetric], of "''A''" HOSTALIAS "[]" 1 1 "[]"]
  by (auto simp: alias_lookup_def cstr_def)

text \<open>
  Removing an alias gives back the alias that was found under the name and type, and takes that
  one alias out of the table; it fails exactly when there is none.
\<close>

theorem alias_remove_lookup:
  assumes "alias_reachable al"
  shows "case alias_remove al name ty of
      Inr (a, al') \<Rightarrow> alias_lookup al name ty = Some a \<and> alias_entries al' = alias_entries al - {a} \<and>
        alias_reachable al'
    | Inl e \<Rightarrow> e = ENOENT \<and> alias_lookup al name ty = None"
proof (cases "alias_remove al name ty")
  case (Inr p)
  obtain a al' where p: "alias_remove al name ty = Inr (a, al')" using Inr by (cases p) auto
  then show ?thesis
    using alias_remove_laws [OF alias_reachable_ok [OF assms] p] alias_removes [OF assms p] by simp
next
  case (Inl e)
  have ok: "alias_table_ok al" by (rule alias_reachable_ok [OF assms])
  show ?thesis
  proof (cases al)
    case None
    then show ?thesis using Inl by (simp add: alias_remove_def alias_lookup_def)
  next
    case (Some t)
    have "rbdelete alias_compare t (alias_key name ty) = None"
    proof (rule ccontr)
      assume "rbdelete alias_compare t (alias_key name ty) \<noteq> None"
      then obtain a x where d: "rbdelete alias_compare t (alias_key name ty) = Some (a, x)" by auto
      then obtain t' where "x = Some t'"
        using ok Some rbdelete_inv [of t alias_compare "alias_key name ty"] by (auto simp: alias_table_ok_def)
      then show False using Inl Some d by (simp add: alias_remove_def)
    qed
    moreover from this have "e = ENOENT" using Inl Some by (simp add: alias_remove_def)
    ultimately show ?thesis
      using Inl Some alias_rb.rbdelete_finds(1) [of t "alias_key name ty"] by (simp add: alias_lookup_def)
  qed
qed

lemma alias_remove_lookup_witness: "alias_remove None ''A'' HOSTALIAS = Inl ENOENT"
  using alias_remove_lookup [OF alias_start, of "''A''" HOSTALIAS]
  by (auto simp: alias_lookup_def split: sum.splits)

text \<open>
  C9. Taking an alias marks it as used, so that it cannot be taken again before it is put back
  (which is what stops a cycle), and putting it back restores the table exactly.
\<close>

theorem alias_get_put:
  assumes "alias_get al name ty = Inr (a, al')"
  shows "a_used a \<and> alias_get al' name ty = Inl ELOOP \<and> alias_put al' a = al"
proof -
  obtain t x where t: "al = Some t" "rbfind alias_compare t (alias_key name ty) = Some x"
    "a = set_used True x" "al' = Some (rb_modify alias_compare (alias_key name ty) (set_used True) t)"
    using assms by (auto simp: alias_get_def split: option.splits if_splits)
  have "rbfind alias_compare (rb_modify alias_compare k (set_used True) u) k =
      map_option (set_used True) (rbfind alias_compare u k)" for u k
    by (induction u) (auto simp: Let_def)
  then show ?thesis
    using t alias_put_get [OF assms] by (simp add: alias_get_def set_used_def)
qed

lemma alias_get_put_witness:
  "let al = snd (alias_add None ''A'' HOSTALIAS [] 1 1 []) in
   case alias_get al ''A'' HOSTALIAS of Inr (a, al') \<Rightarrow> alias_get al' ''A'' HOSTALIAS = Inl ELOOP | Inl _ \<Rightarrow> False"
proof -
  have "\<exists>a al'. alias_get (snd (alias_add None ''A'' HOSTALIAS [] 1 1 [])) ''A'' HOSTALIAS = Inr (a, al')"
    by (simp add: alias_add_def alias_get_def rbcreate_def rbinsert_def alias_key_def alias_compare_def Let_def)
  then show ?thesis using alias_get_put by (auto simp: Let_def)
qed

end
