(* ===== verification/Strto.thy ===== *)
theory Strto
  imports Prelude "HOL-Library.Signed_Division"
begin

text \<open>
  The string to number conversions of sudo's utility library (\<open>lib/util/strtonum.c\<close>,
  \<open>strtoid.c\<close>, \<open>strtobool.c\<close>, \<open>strtomode.c\<close>, \<open>hexchar.c\<close>). A pointer into the string is what is
  left of the string from there on. Arithmetic on \<open>long long\<close> is checked: leaving its range is
  undefined behaviour in C and the result None here, and the lemmas show that it never happens.
\<close>

section \<open>64-bit signed arithmetic\<close>

definition ll_range :: "int \<Rightarrow> bool" where
  "ll_range x \<longleftrightarrow> - (2 ^ 63) \<le> x \<and> x < 2 ^ 63"

definition ll :: "int \<Rightarrow> int option" where
  "ll x = (if ll_range x then Some x else None)"

lemma ll_range_mono: "ll_range a \<Longrightarrow> ll_range b \<Longrightarrow> a \<le> x \<Longrightarrow> x \<le> b \<Longrightarrow> ll_range x"
  by (simp add: ll_range_def)

section \<open>strtonum\<close>

datatype strtonum_err = STN_INITIAL | STN_VALID | STN_INVALID | STN_TOOSMALL | STN_TOOBIG

text \<open>The two digit loops; the string starts at the current character \<open>ch\<close>.\<close>

fun strtonum_neg :: "int \<Rightarrow> int \<Rightarrow> int \<Rightarrow> strtonum_err \<Rightarrow> string \<Rightarrow>
    (int \<times> strtonum_err \<times> string) option" where
  "strtonum_neg lastval remainder result errval [] = Some (result, errval, [])"
| "strtonum_neg lastval remainder result errval (c # cp) =
     (if \<not> c_isdigit c then Some (result, errval, c # cp)
      else let ch = digit_val c in
        if result < lastval \<or> (result = lastval \<and> ch > remainder)
        then Some (result, STN_TOOSMALL, dropWhile c_isdigit cp)
        else Option.bind (ll (result * 10)) (\<lambda>r. Option.bind (ll (r - ch)) (\<lambda>r'.
          strtonum_neg lastval remainder r' STN_VALID cp)))"

fun strtonum_pos :: "int \<Rightarrow> int \<Rightarrow> int \<Rightarrow> strtonum_err \<Rightarrow> string \<Rightarrow>
    (int \<times> strtonum_err \<times> string) option" where
  "strtonum_pos lastval remainder result errval [] = Some (result, errval, [])"
| "strtonum_pos lastval remainder result errval (c # cp) =
     (if \<not> c_isdigit c then Some (result, errval, c # cp)
      else let ch = digit_val c in
        if result > lastval \<or> (result = lastval \<and> ch > remainder)
        then Some (result, STN_TOOBIG, dropWhile c_isdigit cp)
        else Option.bind (ll (result * 10)) (\<lambda>r. Option.bind (ll (r + ch)) (\<lambda>r'.
          strtonum_pos lastval remainder r' STN_VALID cp)))"

definition strtonum_errstr :: "strtonum_err \<Rightarrow> string option" where
  "strtonum_errstr errval = (case errval of STN_INITIAL \<Rightarrow> None | STN_VALID \<Rightarrow> None
     | STN_INVALID \<Rightarrow> Some ''invalid value'' | STN_TOOSMALL \<Rightarrow> Some ''value too small''
     | STN_TOOBIG \<Rightarrow> Some ''value too large'')"

text \<open>The code from the label \<open>done\<close> on: the result, \<open>*endp\<close> and \<open>*errstrp\<close>.\<close>

definition strtonum_done :: "string \<Rightarrow> int \<Rightarrow> strtonum_err \<Rightarrow> string \<Rightarrow> int \<times> string \<times> string option" where
  "strtonum_done str result errval cp =
     (if strtonum_errstr errval = None then result else 0,
      if errval = STN_INITIAL \<or> errval = STN_INVALID then str else cp,
      strtonum_errstr errval)"

definition sudo_strtonumx :: "string \<Rightarrow> int \<Rightarrow> int \<Rightarrow> (int \<times> string \<times> string option) option" where
  "sudo_strtonumx str minval maxval =
     (if minval > maxval then Some (strtonum_done str 0 STN_INVALID str)
      else let cp = dropWhile c_isspace str in
        if c_at cp = CHR ''-'' then
          let lastval = minval sdiv 10; remainder = - (minval smod 10);
              (lastval, remainder) =
                (if remainder < 0 then (lastval + 1, remainder + 10) else (lastval, remainder))
          in map_option (\<lambda>(result, errval, cp).
               strtonum_done str result (if result > maxval then STN_TOOBIG else errval) cp)
             (strtonum_neg lastval remainder 0 STN_INITIAL (tl cp))
        else
          let cp = (if c_at cp = CHR ''+'' then tl cp else cp);
              lastval = maxval sdiv 10; remainder = maxval smod 10
          in map_option (\<lambda>(result, errval, cp).
               strtonum_done str result (if result < minval then STN_TOOSMALL else errval) cp)
             (strtonum_pos lastval remainder 0 STN_INITIAL cp))"

definition sudo_strtonum :: "string \<Rightarrow> int \<Rightarrow> int \<Rightarrow> (int \<times> string option) option" where
  "sudo_strtonum str minval maxval =
     map_option (\<lambda>(ret, ep, errstr).
       if ep = str \<or> c_at ep \<noteq> NUL then (0, Some ''invalid value'') else (ret, errstr))
     (sudo_strtonumx str minval maxval)"

section \<open>strtoid\<close>

text \<open>\<open>do { if (*ep == *sep) valid = true; } while (*sep++)\<close>: the separators and the NUL.\<close>

definition valid_separator :: "string \<Rightarrow> string \<Rightarrow> string option \<Rightarrow> bool" where
  "valid_separator p ep sep \<longleftrightarrow>
     ep \<noteq> p \<and> c_at ep \<in> set ((case sep of None \<Rightarrow> [] | Some s \<Rightarrow> s) @ [NUL])"

definition INT_MIN :: int where "INT_MIN = - (2 ^ 31)"
definition INT_MAX :: int where "INT_MAX = 2147483647"
definition UINT_MAX :: int where "UINT_MAX = 2 ^ 32 - 1"

text \<open>The id, \<open>*endp\<close> and \<open>*errstrp\<close>.\<close>

definition sudo_strtoidx :: "string \<Rightarrow> string option \<Rightarrow> (32 word \<times> string \<times> string option) option" where
  "sudo_strtoidx p sep =
     map_option (\<lambda>(n, ep, errstr).
       let ret = (word_of_int n :: 32 word) in
       if errstr = None \<and> (ret = -1 \<or> ret = word_of_int UINT_MAX \<or> \<not> valid_separator p ep sep)
       then (0, ep, Some ''invalid value'') else (ret, ep, errstr))
     (sudo_strtonumx p INT_MIN UINT_MAX)"

definition sudo_strtoid :: "string \<Rightarrow> 32 word \<times> string option" where
  "sudo_strtoid p = (case sudo_strtoidx p None of
       None \<Rightarrow> (0, Some ''undefined behaviour'') | Some (ret, _, errstr) \<Rightarrow> (ret, errstr))"

section \<open>strtobool, strtomode, hexchar\<close>

definition sudo_strtobool :: "string \<Rightarrow> int" where
  "sudo_strtobool str =
     (let c = c_at str in
      if c = CHR ''0'' \<or> c = CHR ''1'' then
        (if c_at (tl str) = NUL then digit_val c else -1)
      else if c = CHR ''y'' \<or> c = CHR ''Y'' then (if strcase_eq str ''yes'' then 1 else -1)
      else if c = CHR ''t'' \<or> c = CHR ''T'' then (if strcase_eq str ''true'' then 1 else -1)
      else if c = CHR ''o'' \<or> c = CHR ''O'' then
        (if strcase_eq str ''on'' then 1 else if strcase_eq str ''off'' then 0 else -1)
      else if c = CHR ''n'' \<or> c = CHR ''N'' then (if strcase_eq str ''no'' then 0 else -1)
      else if c = CHR ''f'' \<or> c = CHR ''F'' then (if strcase_eq str ''false'' then 0 else -1)
      else -1)"

text \<open>
  \<open>strtol\<close> of the C library for the bases 8 and 10, with what it stores in \<open>*endptr\<close>: the whole
  string when there is no digit; the value is clamped to the range of \<open>long\<close>.
\<close>

definition base_digit :: "int \<Rightarrow> char \<Rightarrow> bool" where
  "base_digit b c \<longleftrightarrow> c_isdigit c \<and> digit_val c < b"

definition digits_val :: "int \<Rightarrow> string \<Rightarrow> int" where
  "digits_val b ds = foldl (\<lambda>a c. a * b + digit_val c) 0 ds"

definition c_strtol :: "int \<Rightarrow> string \<Rightarrow> int \<times> string" where
  "c_strtol b s =
     (let cp = dropWhile c_isspace s;
          neg = c_at cp = CHR ''-'';
          ds = (if neg \<or> c_at cp = CHR ''+'' then tl cp else cp);
          n = digits_val b (takeWhile (base_digit b) ds)
      in if takeWhile (base_digit b) ds = [] then (0, s)
         else (if neg then max (- (2 ^ 63)) (- n) else min (2 ^ 63 - 1) n,
               dropWhile (base_digit b) ds))"

definition ACCESSPERMS :: int where "ACCESSPERMS = 511"

definition sudo_strtomode :: "string \<Rightarrow> 32 word \<times> string option" where
  "sudo_strtomode cp =
     (let (lval, ep) = c_strtol 8 cp in
      if ep = cp \<or> c_at ep \<noteq> NUL then (0, Some ''invalid value'')
      else if lval < 0 \<or> lval > ACCESSPERMS
      then (0, Some (if lval < 0 then ''value too small'' else ''value too large''))
      else (word_of_int lval, None))"

definition hex_digit :: "char \<Rightarrow> 8 word option" where
  "hex_digit c =
     (let n = code c in
      if 48 \<le> n \<and> n \<le> 57 then Some (of_nat (n - 48))
      else if 65 \<le> n \<and> n \<le> 70 then Some (of_nat (n - 55))
      else if 97 \<le> n \<and> n \<le> 102 then Some (of_nat (n - 87))
      else None)"

definition sudo_hexchar :: "char \<Rightarrow> char \<Rightarrow> int" where
  "sudo_hexchar s0 s1 =
     (case (hex_digit s0, hex_digit s1) of
        (Some r0, Some r1) \<Rightarrow> or (push_bit 4 (uint r0)) (uint r1)
      | _ \<Rightarrow> -1)"

section \<open>Printing numbers\<close>

fun decimal :: "nat \<Rightarrow> string" where
  \<comment> \<open>\<open>%u\<close>\<close>
  "decimal n = (if n < 10 then [char_of (48 + n)] else decimal (n div 10) @ [char_of (48 + n mod 10)])"

declare decimal.simps [simp del]

section \<open>The digit loops\<close>

definition dval :: "int \<Rightarrow> string \<Rightarrow> int" where
  "dval a ds = foldl (\<lambda>a c. a * 10 + digit_val c) a ds"

lemma dval_simps [simp]: "dval a [] = a" "dval a (c # ds) = dval (a * 10 + digit_val c) ds"
  by (simp_all add: dval_def)

lemma digit_val_bounds [simp]: "c_isdigit c \<Longrightarrow> 0 \<le> digit_val c" "c_isdigit c \<Longrightarrow> digit_val c \<le> 9"
  using digit_val_range by blast+

lemma dval_ge: "0 \<le> a \<Longrightarrow> list_all c_isdigit ds \<Longrightarrow> a \<le> dval a ds"
proof (induction ds arbitrary: a)
  case (Cons c ds)
  have "0 \<le> digit_val c" using Cons.prems(2) by simp
  moreover have "a * 10 + digit_val c \<le> dval (a * 10 + digit_val c) ds"
    by (rule Cons.IH) (use Cons.prems calculation in simp_all)
  ultimately show ?case using Cons.prems(1) by simp
qed simp

lemma list_all_takeWhile [simp]: "list_all P (takeWhile P xs)"
  by (induction xs) auto

text \<open>
  What makes the overflow guard right: the saved quotient and remainder cut exactly at the bound.
\<close>

definition cuts_at :: "int \<Rightarrow> int \<Rightarrow> int \<Rightarrow> bool" where
  "cuts_at lastval remainder M \<longleftrightarrow>
     (\<forall>n d. 0 \<le> n \<longrightarrow> 0 \<le> d \<longrightarrow> d \<le> 9 \<longrightarrow>
        (n > lastval \<or> (n = lastval \<and> d > remainder)) = (n * 10 + d > M))"

lemma sdiv_smod_10: "(m :: int) sdiv 10 = (if 0 \<le> m then m div 10 else - ((- m) div 10))"
  "m smod 10 = m - (m sdiv 10) * 10"
  using minus_div_mult_eq_mod [of m 10] minus_div_mult_eq_mod [of "- m" 10]
  by (auto simp: signed_divide_int_def signed_modulo_int_def sgn_if)

lemma cuts_at_max: "cuts_at (m sdiv 10) (m smod 10) m"
  unfolding cuts_at_def sdiv_smod_10 by (auto split: if_splits)

lemma cuts_at_min:
  assumes "l = minval sdiv 10" "r = - (minval smod 10)"
    "(l', r') = (if r < 0 then (l + 1, r + 10) else (l, r))"
  shows "cuts_at (- l') r' (- minval)"
  using assms unfolding cuts_at_def sdiv_smod_10 by (auto split: if_splits)

lemma cuts_atD:
  "cuts_at l r M \<Longrightarrow> 0 \<le> n \<Longrightarrow> c_isdigit c \<Longrightarrow>
     (n > l \<or> (n = l \<and> digit_val c > r)) = (n * 10 + digit_val c > M)"
  by (simp add: cuts_at_def)

lemma ll_step:
  assumes "c_isdigit c" "0 \<le> n" "n * 10 + digit_val c \<le> M"
  shows "M < 2 ^ 63 \<Longrightarrow> ll (n * 10) = Some (n * 10) \<and> ll (n * 10 + digit_val c) = Some (n * 10 + digit_val c)"
    and "M \<le> 2 ^ 63 \<Longrightarrow> ll (- n * 10) = Some (- n * 10) \<and>
           ll (- n * 10 - digit_val c) = Some (- (n * 10 + digit_val c))"
  using assms(2,3) digit_val_range [OF assms(1)] by (auto simp: ll_def ll_range_def)

lemma strtonum_pos_in:
  "cuts_at l r M \<Longrightarrow> M < 2 ^ 63 \<Longrightarrow> 0 \<le> n \<Longrightarrow> dval n (takeWhile c_isdigit s) \<le> M \<Longrightarrow>
   strtonum_pos l r n e s = Some (dval n (takeWhile c_isdigit s),
     if takeWhile c_isdigit s = [] then e else STN_VALID, dropWhile c_isdigit s)"
proof (induction s arbitrary: n e)
  case (Cons c s)
  show ?case
  proof (cases "c_isdigit c")
    case True
    let ?m = "n * 10 + digit_val c"
    have m: "?m \<le> dval ?m (takeWhile c_isdigit s)"
      using Cons.prems(3) True by (intro dval_ge) simp_all
    have "\<not> (n > l \<or> (n = l \<and> digit_val c > r))"
      using Cons.prems m True by (simp add: cuts_atD)
    moreover have "ll (n * 10) = Some (n * 10)" "ll ?m = Some ?m"
      using ll_step(1) [OF True] Cons.prems m True by auto
    ultimately show ?thesis
      using Cons.IH [of ?m STN_VALID] Cons.prems True by (simp add: Let_def)
  qed simp
qed simp

lemma strtonum_pos_out:
  "cuts_at l r M \<Longrightarrow> M < 2 ^ 63 \<Longrightarrow> 0 \<le> n \<Longrightarrow> takeWhile c_isdigit s \<noteq> [] \<Longrightarrow>
   dval n (takeWhile c_isdigit s) > M \<Longrightarrow>
   \<exists>p \<ge> 0. strtonum_pos l r n e s = Some (p, STN_TOOBIG, dropWhile c_isdigit s)"
proof (induction s arbitrary: n e)
  case (Cons c s)
  have d: "c_isdigit c" using Cons.prems(4) by (simp split: if_splits)
  let ?m = "n * 10 + digit_val c"
  show ?case
  proof (cases "n > l \<or> (n = l \<and> digit_val c > r)")
    case True
    then show ?thesis using d Cons.prems by (auto simp: Let_def)
  next
    case False
    have le: "?m \<le> M" using False cuts_atD [OF Cons.prems(1,3) d] by linarith
    have o: "ll (n * 10) = Some (n * 10)" "ll ?m = Some ?m"
      using ll_step(1) [OF d _ le] Cons.prems by auto
    have "takeWhile c_isdigit s \<noteq> []"
    proof
      assume "takeWhile c_isdigit s = []"
      then show False using Cons.prems(5) d le by simp
    qed
    then show ?thesis using Cons.IH [of ?m STN_VALID] Cons.prems d False o by (simp add: Let_def)
  qed
qed simp

text \<open>The negative loop is the positive one on the negated value.\<close>

lemma strtonum_neg_in:
  "cuts_at (- l) r M \<Longrightarrow> M \<le> 2 ^ 63 \<Longrightarrow> 0 \<le> n \<Longrightarrow> dval n (takeWhile c_isdigit s) \<le> M \<Longrightarrow>
   strtonum_neg l r (- n) e s = Some (- dval n (takeWhile c_isdigit s),
     if takeWhile c_isdigit s = [] then e else STN_VALID, dropWhile c_isdigit s)"
proof (induction s arbitrary: n e)
  case (Cons c s)
  show ?case
  proof (cases "c_isdigit c")
    case True
    let ?m = "n * 10 + digit_val c"
    have m: "?m \<le> dval ?m (takeWhile c_isdigit s)"
      using Cons.prems(3) True by (intro dval_ge) simp_all
    have "\<not> (n > - l \<or> (n = - l \<and> digit_val c > r))"
      using Cons.prems m True by (simp add: cuts_atD)
    then have "\<not> (- n < l \<or> (- n = l \<and> digit_val c > r))" by auto
    moreover have "ll (- n * 10) = Some (- n * 10)" "ll (- n * 10 - digit_val c) = Some (- ?m)"
      using ll_step(2) [OF True] Cons.prems m True by auto
    ultimately show ?thesis
      using Cons.IH [of ?m STN_VALID] Cons.prems True by (simp add: Let_def)
  qed simp
qed simp

lemma strtonum_neg_out:
  "cuts_at (- l) r M \<Longrightarrow> M \<le> 2 ^ 63 \<Longrightarrow> 0 \<le> n \<Longrightarrow> takeWhile c_isdigit s \<noteq> [] \<Longrightarrow>
   dval n (takeWhile c_isdigit s) > M \<Longrightarrow>
   \<exists>p \<ge> 0. strtonum_neg l r (- n) e s = Some (- p, STN_TOOSMALL, dropWhile c_isdigit s)"
proof (induction s arbitrary: n e)
  case (Cons c s)
  have d: "c_isdigit c" using Cons.prems(4) by (simp split: if_splits)
  let ?m = "n * 10 + digit_val c"
  show ?case
  proof (cases "- n < l \<or> (- n = l \<and> digit_val c > r)")
    case True
    then show ?thesis using d Cons.prems by (auto simp: Let_def intro!: exI [of _ n])
  next
    case False
    then have "\<not> (n > - l \<or> (n = - l \<and> digit_val c > r))" by auto
    then have le: "?m \<le> M" using cuts_atD [OF Cons.prems(1,3) d] by linarith
    have o: "ll (- n * 10) = Some (- n * 10)" "ll (- n * 10 - digit_val c) = Some (- ?m)"
      using ll_step(2) [OF d _ le] Cons.prems by auto
    have "takeWhile c_isdigit s \<noteq> []"
    proof
      assume "takeWhile c_isdigit s = []"
      then show False using Cons.prems(5) d le by simp
    qed
    then show ?thesis using Cons.IH [of ?m STN_VALID] Cons.prems d False o by (auto simp: Let_def)
  qed
qed simp

section \<open>Numbers\<close>

text \<open>The grammar of a number: blanks, an optional sign, digits, and what follows them.\<close>

definition number_body :: "string \<Rightarrow> bool \<times> string" where
  "number_body str =
     (let s = dropWhile c_isspace str; neg = c_at s = CHR ''-'' in
      (neg, if neg \<or> c_at s = CHR ''+'' then tl s else s))"

definition number_digits :: "string \<Rightarrow> string" where
  "number_digits str = takeWhile c_isdigit (snd (number_body str))"

definition number_rest :: "string \<Rightarrow> string" where
  "number_rest str = dropWhile c_isdigit (snd (number_body str))"

definition number_value :: "string \<Rightarrow> int" where
  "number_value str =
     (let v = dval 0 (number_digits str) in if fst (number_body str) then - v else v)"

lemmas number_defs = number_body_def number_digits_def number_rest_def number_value_def

lemma dval_number_ge: "0 \<le> dval 0 (number_digits str)"
  using dval_ge [of 0 "number_digits str"] by (simp add: number_digits_def)

lemma length_number_rest: "number_digits str \<noteq> [] \<Longrightarrow> length (number_rest str) < length str"
proof -
  assume "number_digits str \<noteq> []"
  moreover have "snd (number_body str) = number_digits str @ number_rest str"
    by (simp add: number_digits_def number_rest_def)
  moreover have "length (snd (number_body str)) \<le> length str"
    using length_dropWhile_le [of c_isspace str] by (auto simp: number_body_def Let_def)
  ultimately show ?thesis by (cases "number_digits str") auto
qed

lemma strtonumx_number:
  assumes "ll_range minval" "ll_range maxval" "minval \<le> maxval" "number_digits str \<noteq> []"
  shows "minval \<le> number_value str \<Longrightarrow> number_value str \<le> maxval \<Longrightarrow>
           sudo_strtonumx str minval maxval = Some (number_value str, number_rest str, None)"
    and "\<not> (minval \<le> number_value str \<and> number_value str \<le> maxval) \<Longrightarrow>
           \<exists>e. sudo_strtonumx str minval maxval = Some (0, number_rest str, Some e)"
proof -
  define ds where "ds = snd (number_body str)"
  define body where "body = dropWhile c_isspace str"
  define neg where "neg \<longleftrightarrow> c_at body = CHR ''-''"
  have val: "number_value str = (if neg then - 1 else 1) * dval 0 (takeWhile c_isdigit ds)"
    and rest: "number_rest str = dropWhile c_isdigit ds"
    and ne: "takeWhile c_isdigit ds \<noteq> []"
    and ge: "0 \<le> dval 0 (takeWhile c_isdigit ds)"
    using assms(4) dval_number_ge [of str] by (simp_all add: number_defs ds_def neg_def body_def Let_def)
  have ds: "ds = (if neg \<or> c_at body = CHR ''+'' then tl body else body)"
    by (simp add: ds_def number_body_def Let_def neg_def body_def)
  obtain l r where lr: "(l, r) = (if - (minval smod 10) < 0
      then (minval sdiv 10 + 1, - (minval smod 10) + 10) else (minval sdiv 10, - (minval smod 10)))"
    by (metis surj_pair)
  have cut: "cuts_at (- l) r (- minval)" by (rule cuts_at_min [OF refl refl lr])
  have b: "- minval \<le> 2 ^ 63" "maxval < 2 ^ 63" using assms(1,2) by (simp_all add: ll_range_def)
  have neg_eq: "sudo_strtonumx str minval maxval =
      map_option (\<lambda>(n, e, cp). strtonum_done str n (if n > maxval then STN_TOOBIG else e) cp)
       (strtonum_neg l r 0 STN_INITIAL ds)" if neg
    using that assms(3) ds unfolding sudo_strtonumx_def Let_def body_def [symmetric] lr [symmetric] neg_def
    by simp
  have pos_eq: "sudo_strtonumx str minval maxval =
      map_option (\<lambda>(n, e, cp). strtonum_done str n (if n < minval then STN_TOOSMALL else e) cp)
       (strtonum_pos (maxval sdiv 10) (maxval smod 10) 0 STN_INITIAL ds)" if "\<not> neg"
    using that assms(3) ds unfolding sudo_strtonumx_def Let_def body_def [symmetric] neg_def
    by simp
  note done_defs = strtonum_done_def strtonum_errstr_def
  show "sudo_strtonumx str minval maxval = Some (number_value str, number_rest str, None)"
    if "minval \<le> number_value str" "number_value str \<le> maxval"
  proof (cases neg)
    case True
    then show ?thesis
      using strtonum_neg_in [OF cut b(1), of 0 ds STN_INITIAL] that ne
      by (simp add: neg_eq val rest done_defs)
  next
    case False
    then show ?thesis
      using strtonum_pos_in [OF cuts_at_max b(2), of 0 ds STN_INITIAL] that ne
      by (simp add: pos_eq val rest done_defs)
  qed
  show "\<exists>e. sudo_strtonumx str minval maxval = Some (0, number_rest str, Some e)"
    if out: "\<not> (minval \<le> number_value str \<and> number_value str \<le> maxval)"
  proof (cases neg)
    case True
    show ?thesis
    proof (cases "dval 0 (takeWhile c_isdigit ds) \<le> - minval")
      case le: True
      then show ?thesis
        using strtonum_neg_in [OF cut b(1), of 0 ds STN_INITIAL] out ne True
        by (simp add: neg_eq val rest done_defs)
    next
      case False
      then obtain p where "strtonum_neg l r 0 STN_INITIAL ds = Some (- p, STN_TOOSMALL, dropWhile c_isdigit ds)"
        using strtonum_neg_out [OF cut b(1), of 0 ds STN_INITIAL] ne by auto
      then show ?thesis
        using True by (cases "- p > maxval") (simp_all add: neg_eq rest done_defs)
    qed
  next
    case False
    show ?thesis
    proof (cases "dval 0 (takeWhile c_isdigit ds) \<le> maxval")
      case le: True
      then show ?thesis
        using strtonum_pos_in [OF cuts_at_max b(2), of 0 ds STN_INITIAL] out ne False
        by (simp add: pos_eq val rest done_defs)
    next
      case gt: False
      then obtain p where "strtonum_pos (maxval sdiv 10) (maxval smod 10) 0 STN_INITIAL ds =
          Some (p, STN_TOOBIG, dropWhile c_isdigit ds)"
        using strtonum_pos_out [OF cuts_at_max b(2), of 0 ds STN_INITIAL] ne by auto
      then show ?thesis
        using False by (cases "p < minval") (simp_all add: pos_eq rest done_defs)
    qed
  qed
qed

lemma strtonumx_no_digits:
  assumes "minval \<le> maxval" "number_digits str = []"
  shows "\<exists>ep e. sudo_strtonumx str minval maxval = Some (0, ep, e) \<and>
    (e = None \<longrightarrow> ep = str) \<and> (minval \<le> 0 \<and> 0 \<le> maxval \<longrightarrow> e = None)"
proof -
  have p: "strtonum_pos a b 0 STN_INITIAL s = Some (0, STN_INITIAL, s)"
    and n: "strtonum_neg a b 0 STN_INITIAL s = Some (0, STN_INITIAL, s)"
    if "takeWhile c_isdigit s = []" for a b s
    using that by (cases s; simp split: if_splits)+
  show ?thesis
    using assms by (cases "c_at (dropWhile c_isspace str) = CHR ''-''"; cases "maxval < 0"; cases "0 < minval")
      (simp_all add: sudo_strtonumx_def number_digits_def number_body_def Let_def p n
        strtonum_done_def strtonum_errstr_def split: prod.split)
qed

section \<open>Properties\<close>

definition is_number :: "string \<Rightarrow> bool" where
  "is_number str \<longleftrightarrow> number_digits str \<noteq> [] \<and> c_at (number_rest str) = NUL"

text \<open>
  C10. \<open>sudo_strtonum\<close> accepts exactly the strings that are blanks, an optional sign and digits, and
  whose value lies in the bounds, and returns that value; for all other strings it returns 0 and
  an error. The conversion never leaves the range of \<open>long long\<close> (the result is not None),
  whatever the number of digits.
\<close>

theorem sudo_strtonum_spec:
  assumes "ll_range minval" "ll_range maxval"
  shows "if is_number str \<and> minval \<le> number_value str \<and> number_value str \<le> maxval
         then sudo_strtonum str minval maxval = Some (number_value str, None)
         else \<exists>e. sudo_strtonum str minval maxval = Some (0, Some e)"
proof (cases "number_digits str = [] \<or> minval > maxval")
  case True
  have "\<not> (is_number str \<and> minval \<le> number_value str \<and> number_value str \<le> maxval)"
    using True by (auto simp: is_number_def)
  moreover have "\<exists>e. sudo_strtonum str minval maxval = Some (0, Some e)"
  proof (cases "minval > maxval")
    case True
    then show ?thesis
      by (simp add: sudo_strtonum_def sudo_strtonumx_def strtonum_done_def strtonum_errstr_def)
  next
    case False
    then obtain ep e where "sudo_strtonumx str minval maxval = Some (0, ep, e)" "e = None \<longrightarrow> ep = str"
      using strtonumx_no_digits [of minval maxval str] \<open>number_digits str = [] \<or> minval > maxval\<close> by auto
    then show ?thesis by (cases e) (auto simp: sudo_strtonum_def)
  qed
  ultimately show ?thesis by auto
next
  case False
  then have ne: "number_digits str \<noteq> []" "minval \<le> maxval" "number_rest str \<noteq> str"
    using length_number_rest [of str] by auto
  show ?thesis
  proof (cases "minval \<le> number_value str \<and> number_value str \<le> maxval")
    case True
    then show ?thesis
      using strtonumx_number(1) [OF assms ne(2,1)] ne by (simp add: sudo_strtonum_def is_number_def)
  next
    case False
    then obtain e where "sudo_strtonumx str minval maxval = Some (0, number_rest str, Some e)"
      using strtonumx_number(2) [OF assms ne(2,1)] by blast
    then show ?thesis
      using False ne by (cases "c_at (number_rest str) = NUL") (auto simp: sudo_strtonum_def)
  qed
qed

lemma sudo_strtonum_spec_witness:
  "sudo_strtonum '' -42'' (-50) 100 = Some (-42, None) \<and>
   (\<exists>e. sudo_strtonum ''101'' (-50) 100 = Some (0, Some e))"
proof -
  have n: "is_number '' -42''" "number_value '' -42'' = -42" "number_value ''101'' = 101"
    by (simp_all add: is_number_def number_defs ctype_simps cstring_simps)
  have "sudo_strtonum '' -42'' (-50) 100 = Some (-42, None)"
    using sudo_strtonum_spec [of "-50" 100 "'' -42''"] by (simp add: n ll_range_def)
  moreover have "\<exists>e. sudo_strtonum ''101'' (-50) 100 = Some (0, Some e)"
    using sudo_strtonum_spec [of "-50" 100 "''101''"] by (simp add: n ll_range_def)
  ultimately show ?thesis ..
qed

lemma word_of_int_eq_minus_one_iff32:
  assumes "INT_MIN \<le> n" "n \<le> UINT_MAX"
  shows "(word_of_int n :: 32 word) = -1 \<longleftrightarrow> n = UINT_MAX \<or> n = -1"
proof -
  have "(word_of_int n :: 32 word) = -1 \<longleftrightarrow> uint (word_of_int n :: 32 word) = uint (-1 :: 32 word)"
    by (simp only: word_uint_eq_iff)
  also have "\<dots> \<longleftrightarrow> n mod 2 ^ 32 = 2 ^ 32 - 1"
    by (simp add: uint_word_of_int_eq take_bit_eq_mod unsigned_minus_1_eq_mask mask_eq_exp_minus_1)
  also have "\<dots> \<longleftrightarrow> n = UINT_MAX \<or> n = -1"
  proof (cases "0 \<le> n")
    case True
    then have "n mod 2 ^ 32 = n" using assms by (simp add: UINT_MAX_def)
    then show ?thesis using True by (simp add: UINT_MAX_def)
  next
    case False
    have "n mod 2 ^ 32 = (n + 2 ^ 32) mod 2 ^ 32" by simp
    also have "\<dots> = n + 2 ^ 32"
      by (rule mod_pos_pos_trivial) (use assms False in \<open>simp_all add: INT_MIN_def\<close>)
    finally show ?thesis using False by (auto simp: UINT_MAX_def)
  qed
  finally show ?thesis by simp
qed

text \<open>
  \<open>sudo_strtoid\<close> accepts exactly the numbers from \<open>INT_MIN\<close> to \<open>UINT_MAX\<close> that are not -1 in
  32 bits, and returns their value in 32 bits: the id that means "no change" is never returned,
  and on an error the id is 0.
\<close>

theorem sudo_strtoid_spec:
  "if is_number p \<and> - (2 ^ 31) \<le> number_value p \<and> number_value p < 2 ^ 32 - 1 \<and> number_value p \<noteq> -1
   then sudo_strtoid p = (word_of_int (number_value p), None) \<and> (word_of_int (number_value p) :: 32 word) \<noteq> -1
   else \<exists>e. sudo_strtoid p = (0, Some e)"
proof -
  have r: "ll_range INT_MIN" "ll_range UINT_MAX" "INT_MIN \<le> UINT_MAX"
    by (simp_all add: ll_range_def INT_MIN_def UINT_MAX_def)
  show ?thesis
  proof (cases "number_digits p = []")
    case True
    obtain ep where "sudo_strtonumx p INT_MIN UINT_MAX = Some (0, ep, None)" "ep = p"
      using strtonumx_no_digits [OF r(3) True] by (auto simp: INT_MIN_def UINT_MAX_def)
    then show ?thesis
      using True by (simp add: sudo_strtoid_def sudo_strtoidx_def valid_separator_def is_number_def)
  next
    case ne: False
    then have rest: "number_rest p \<noteq> p" using length_number_rest [of p] by auto
    show ?thesis
    proof (cases "INT_MIN \<le> number_value p \<and> number_value p \<le> UINT_MAX")
      case True
      let ?w = "word_of_int (number_value p) :: 32 word"
      have w: "?w = -1 \<longleftrightarrow> number_value p = UINT_MAX \<or> number_value p = -1"
        using True by (simp add: word_of_int_eq_minus_one_iff32)
      show ?thesis
        using strtonumx_number(1) [OF r ne] True rest ne w
        by (auto simp: sudo_strtoid_def sudo_strtoidx_def valid_separator_def is_number_def
            INT_MIN_def UINT_MAX_def Let_def)
    next
      case False
      then obtain e where "sudo_strtonumx p INT_MIN UINT_MAX = Some (0, number_rest p, Some e)"
        using strtonumx_number(2) [OF r ne] by blast
      then show ?thesis
        using False by (auto simp: sudo_strtoid_def sudo_strtoidx_def INT_MIN_def UINT_MAX_def)
    qed
  qed
qed

section \<open>Modes, booleans, hexadecimal pairs\<close>

text \<open>A parsed mode has permission bits only, and is 0 on an error.\<close>

lemma sudo_strtomode_range:
  "sudo_strtomode s = (m, e) \<Longrightarrow> uint m \<le> ACCESSPERMS \<and> (e \<noteq> None \<longrightarrow> m = 0)"
proof -
  assume a: "sudo_strtomode s = (m, e)"
  obtain n ep where n: "c_strtol 8 s = (n, ep)" by force
  have "uint (word_of_int n :: 32 word) = n" if "0 \<le> n" "n \<le> 511"
    using that by (simp add: uint_word_of_int)
  then show ?thesis
    using a n by (auto simp: sudo_strtomode_def ACCESSPERMS_def Let_def split: if_splits)
qed

lemma sudo_strtobool_range: "sudo_strtobool s \<in> {-1, 0, 1}"
  by (simp add: sudo_strtobool_def Let_def digit_val_def)

lemma hex_digit_range: "hex_digit c = Some w \<Longrightarrow> uint w < 16"
proof -
  have *: "uint (of_nat n :: 8 word) < 16" if "n < 16" for n
    using that by (simp add: uint_nat unsigned_of_nat take_bit_nat_eq_self)
  show "hex_digit c = Some w \<Longrightarrow> uint w < 16"
    by (auto simp: hex_digit_def Let_def simp del: of_nat_diff split: if_splits intro!: *)
qed

lemma sudo_hexchar_value:
  "hex_digit s0 = Some r0 \<Longrightarrow> hex_digit s1 = Some r1 \<Longrightarrow>
   sudo_hexchar s0 s1 = 16 * uint r0 + uint r1 \<and> sudo_hexchar s0 s1 \<in> {0..255}"
proof -
  assume h: "hex_digit s0 = Some r0" "hex_digit s1 = Some r1"
  have r: "uint r0 < 16" "uint r1 < 16" using h by (auto dest: hex_digit_range)
  have "and (push_bit 4 (uint r0)) (take_bit 4 (uint r1)) = 0"
    by (rule bit_eqI) (auto simp: bit_simps)
  then have "and (push_bit 4 (uint r0)) (uint r1) = 0"
    using take_bit_int_eq_self [of "uint r1" 4] r by simp
  then have "or (push_bit 4 (uint r0)) (uint r1) = push_bit 4 (uint r0) + uint r1"
    by (simp add: disjunctive_add_eq_or)
  then have "sudo_hexchar s0 s1 = 16 * uint r0 + uint r1"
    using h by (simp add: sudo_hexchar_def push_bit_eq_mult)
  then show ?thesis using r by simp
qed

end
