(* ===== verification/MatchAddr.thy ===== *)
theory MatchAddr
  imports Sudoers Strto
begin

text \<open>
  Matching an IP address or network of a host list against the interfaces of the machine
  (\<open>plugins/sudoers/match_addr.c\<close>). An IPv4 address is a 32-bit word in host byte order (the code
  holds both sides of every comparison in network order and only masks and compares, so the
  order does not matter); an IPv6 address is its 16 bytes. \<open>inet_pton\<close> is a parameter.
\<close>

definition in6_masked_eq :: "8 word list \<Rightarrow> 8 word list \<Rightarrow> 8 word list \<Rightarrow> bool" where
  \<comment> \<open>the loop over \<open>j\<close>: \<open>(if_addr[j] & mask[j]) == addr[j]\<close> for all 16 bytes\<close>
  "in6_masked_eq ifaddr nmask addr \<longleftrightarrow>
     list_all (\<lambda>j. and (ifaddr ! j) (nmask ! j) = addr ! j) [0..<16]"

definition addr_matches_if :: "system \<Rightarrow> string \<Rightarrow> verdict" where
  "addr_matches_if sys n =
     (case sys_inet_pton6 sys n of
        Some addr \<Rightarrow>
          (if list_ex (\<lambda>ifp. case (if_addr ifp, if_mask ifp) of
                 (IP6 a, IP6 nmask) \<Rightarrow> a = addr \<or> in6_masked_eq a nmask addr
               | _ \<Rightarrow> False) (sys_interfaces sys)
           then ALLOW else DENY)
      | None \<Rightarrow>
        (case sys_inet_pton4 sys n of
           Some addr \<Rightarrow>
             (if list_ex (\<lambda>ifp. case (if_addr ifp, if_mask ifp) of
                    (IP4 a, IP4 nmask) \<Rightarrow> a = addr \<or> and a nmask = addr
                  | _ \<Rightarrow> False) (sys_interfaces sys)
              then ALLOW else DENY)
         | None \<Rightarrow> DENY))"

text \<open>The netmask of an IPv4 network, as an address or as a prefix length from 1 to 32.\<close>

definition in4_netmask :: "system \<Rightarrow> string \<Rightarrow> 32 word option" where
  "in4_netmask sys m =
     (if strchr m (CHR ''.'') \<noteq> None then sys_inet_pton4 sys m
      else case sudo_strtonum m 1 32 of
             Some (i, None) \<Rightarrow> Some (push_bit (32 - nat i) 0xffffffff)
           | _ \<Rightarrow> None)"

definition in6_prefix_byte :: "nat \<Rightarrow> nat \<Rightarrow> 8 word" where
  "in6_prefix_byte j i =
     (if j < i * 8 then 0
      else if i * 8 + 8 \<le> j then 0xff
      else ucast (drop_bit (j - i * 8) (0xff00 :: 32 word)))"

text \<open>
  The IPv6 network address and mask: with a prefix length the address is masked, with a mask in
  the form of an address it is left as written.
\<close>

definition in6_network :: "system \<Rightarrow> 8 word list \<Rightarrow> string \<Rightarrow> (8 word list \<times> 8 word list) option" where
  "in6_network sys addr m =
     (case sys_inet_pton6 sys m of
        Some nmask \<Rightarrow> Some (addr, nmask)
      | None \<Rightarrow>
        (case sudo_strtonum m 1 128 of
           Some (j, None) \<Rightarrow>
             (let nmask = List.map (in6_prefix_byte (nat j)) [0..<16] in
              Some (List.map (\<lambda>i. and (addr ! i) (nmask ! i)) [0..<16], nmask))
         | _ \<Rightarrow> None))"

definition addr_matches_if_netmask :: "system \<Rightarrow> string \<Rightarrow> string \<Rightarrow> verdict" where
  "addr_matches_if_netmask sys n m =
     (case sys_inet_pton6 sys n of
        Some addr \<Rightarrow>
          (case in6_network sys addr m of
             None \<Rightarrow> DENY
           | Some (addr, nmask) \<Rightarrow>
               (if list_ex (\<lambda>ifp. case if_addr ifp of IP6 a \<Rightarrow> in6_masked_eq a nmask addr | _ \<Rightarrow> False)
                     (sys_interfaces sys)
                then ALLOW else DENY))
      | None \<Rightarrow>
        (case sys_inet_pton4 sys n of
           None \<Rightarrow> DENY
         | Some addr \<Rightarrow>
             (case in4_netmask sys m of
                None \<Rightarrow> DENY
              | Some nmask \<Rightarrow>
                  (if list_ex (\<lambda>ifp. case if_addr ifp of
                        IP4 a \<Rightarrow> and a nmask = and addr nmask | _ \<Rightarrow> False) (sys_interfaces sys)
                   then ALLOW else DENY))))"

definition addr_matches :: "system \<Rightarrow> string \<Rightarrow> verdict" where
  "addr_matches sys n =
     (case strchr n (CHR ''/'') of
        Some m \<Rightarrow> addr_matches_if_netmask sys (take (strcspn1 n (CHR ''/'')) n) (tl m)
      | None \<Rightarrow> addr_matches_if sys n)"

section \<open>Prefix lengths\<close>

lemma and_prefix4: "and a (push_bit n 0xffffffff) = push_bit n (drop_bit n (a :: 32 word))"
proof -
  have "(0xffffffff :: 32 word) = -1" by simp
  moreover have "and a (push_bit n (- 1)) = push_bit n (drop_bit n a)"
    by (rule bit_word_eqI) (auto simp: bit_simps)
  ultimately show ?thesis by metis
qed

lemma masked_eq_prefix4:
  "and a (push_bit n 0xffffffff) = and b (push_bit n (0xffffffff :: 32 word)) \<longleftrightarrow>
     drop_bit n a = drop_bit n b"
proof
  have d: "drop_bit n (push_bit n (drop_bit n x)) = drop_bit n x" for x :: "32 word"
    by (rule bit_word_eqI) (auto simp: bit_simps dest: bit_imp_le_length)
  assume "and a (push_bit n 0xffffffff) = and b (push_bit n (0xffffffff :: 32 word))"
  then have "drop_bit n (push_bit n (drop_bit n a)) = drop_bit n (push_bit n (drop_bit n b))"
    by (simp add: and_prefix4)
  then show "drop_bit n a = drop_bit n b" by (simp add: d)
qed (simp add: and_prefix4)

text \<open>The bits of an IPv6 address, from the first byte's most significant bit on.\<close>

definition addr_bit :: "8 word list \<Rightarrow> nat \<Rightarrow> bool" where
  "addr_bit a k = bit (a ! (k div 8)) (7 - k mod 8)"

lemma bit_prefix_byte: "t < 8 \<Longrightarrow> bit (in6_prefix_byte j i) t \<longleftrightarrow> i * 8 + (7 - t) < j"
proof -
  assume t: "t < 8"
  have ff: "bit (0xff :: 8 word) t"
  proof -
    have "(0xff :: 8 word) = -1" by simp
    moreover have "bit (-1 :: 8 word) t" using t by simp
    ultimately show ?thesis by (simp only:)
  qed
  have hi: "bit (0xff00 :: 32 word) n \<longleftrightarrow> 8 \<le> n \<and> n < 16" for n
  proof -
    have "(0xff00 :: 32 word) = push_bit 8 (mask 8)" by (simp add: mask_eq_decr_exp push_bit_eq_mult)
    moreover have "bit (push_bit 8 (mask 8) :: 32 word) n \<longleftrightarrow> 8 \<le> n \<and> n < 16"
      by (auto simp: bit_push_bit_iff bit_mask_iff simp del: mask_numeral push_bit_numeral)
    ultimately show ?thesis by (simp only:)
  qed
  show ?thesis using t ff by (auto simp: in6_prefix_byte_def bit_unsigned_iff bit_drop_bit_eq hi
      simp del: bit_numeral_word_iff)
qed

lemma and_eq_iff_bits: "and x m = and y m \<longleftrightarrow> (\<forall>t < 8. bit m t \<longrightarrow> bit x t = bit y t)" for m :: "8 word"
proof
  assume "and x m = and y m"
  then have "bit (and x m) t = bit (and y m) t" for t by simp
  then show "\<forall>t < 8. bit m t \<longrightarrow> bit x t = bit y t" by (auto simp: bit_and_iff)
next
  assume "\<forall>t < 8. bit m t \<longrightarrow> bit x t = bit y t"
  then show "and x m = and y m" by (intro bit_word_eqI) (auto simp: bit_and_iff)
qed

lemma all_bits: "(\<forall>i < 16. \<forall>t < 8. P i (7 - t) t) \<longleftrightarrow> (\<forall>k < 128. P (k div 8) (k mod 8) (7 - k mod 8))"
  for P :: "nat \<Rightarrow> nat \<Rightarrow> nat \<Rightarrow> bool"
proof safe
  fix k :: nat assume a: "\<forall>i < 16. \<forall>t < 8. P i (7 - t) t" and "k < 128"
  have "k div 8 < 16" using \<open>k < 128\<close> by (simp add: less_mult_imp_div_less)
  moreover have "7 - k mod 8 < 8" by simp
  ultimately have "P (k div 8) (7 - (7 - k mod 8)) (7 - k mod 8)" using a by blast
  moreover have "7 - (7 - k mod 8) = k mod 8"
    using mod_less_divisor [of 8 k] by linarith
  ultimately show "P (k div 8) (k mod 8) (7 - k mod 8)" by simp
next
  fix i t :: nat assume a: "\<forall>k < 128. P (k div 8) (k mod 8) (7 - k mod 8)" and "i < 16" "t < 8"
  then have "P ((i * 8 + (7 - t)) div 8) ((i * 8 + (7 - t)) mod 8) (7 - (i * 8 + (7 - t)) mod 8)"
    by simp
  moreover have "(i * 8 + (7 - t)) div 8 = i" "(i * 8 + (7 - t)) mod 8 = 7 - t" by simp_all
  ultimately show "P i (7 - t) t" using \<open>t < 8\<close> by simp
qed

lemma masked_eq_prefix6:
  "in6_masked_eq a (List.map (in6_prefix_byte j) [0..<16])
     (List.map (\<lambda>i. and (b ! i) (in6_prefix_byte j i)) [0..<16]) \<longleftrightarrow>
   (\<forall>k < 128. k < j \<longrightarrow> addr_bit a k = addr_bit b k)"
proof -
  have "in6_masked_eq a (List.map (in6_prefix_byte j) [0..<16])
      (List.map (\<lambda>i. and (b ! i) (in6_prefix_byte j i)) [0..<16]) \<longleftrightarrow>
    (\<forall>i < 16. \<forall>t < 8. i * 8 + (7 - t) < j \<longrightarrow> bit (a ! i) t = bit (b ! i) t)"
    by (auto simp: in6_masked_eq_def list_all_iff and_eq_iff_bits bit_prefix_byte)
  also have "\<dots> \<longleftrightarrow> (\<forall>k < 128. k < j \<longrightarrow> addr_bit a k = addr_bit b k)"
    using all_bits [of "\<lambda>i u t. i * 8 + u < j \<longrightarrow> bit (a ! i) t = bit (b ! i) t"]
    by (simp add: addr_bit_def)
  finally show ?thesis .
qed

lemma list_ex_IP4: "list_ex (\<lambda>ifp. case if_addr ifp of IP4 a \<Rightarrow> P a | IP6 _ \<Rightarrow> False) xs \<longleftrightarrow>
    (\<exists>ifp \<in> set xs. \<exists>a. if_addr ifp = IP4 a \<and> P a)"
  unfolding list_ex_iff by (rule bex_cong [OF refl]) (simp split: net_addr.split)

lemma list_ex_IP6: "list_ex (\<lambda>ifp. case if_addr ifp of IP6 a \<Rightarrow> P a | IP4 _ \<Rightarrow> False) xs \<longleftrightarrow>
    (\<exists>ifp \<in> set xs. \<exists>a. if_addr ifp = IP6 a \<and> P a)"
  unfolding list_ex_iff by (rule bex_cong [OF refl]) (simp split: net_addr.split)

lemma addr_matches_slash:
  assumes "CHR ''/'' \<notin> set n"
  shows "addr_matches sys (n @ CHR ''/'' # m) = addr_matches_if_netmask sys n m"
proof -
  have "strchr (n @ CHR ''/'' # m) (CHR ''/'') = Some (CHR ''/'' # m)"
    "take (strcspn1 (n @ CHR ''/'' # m) (CHR ''/'')) (n @ CHR ''/'' # m) = n"
    using assms by (simp_all add: strchr_def strcspn1_def Let_def takeWhile_neq_append dropWhile_neq_append)
  then show ?thesis by (simp add: addr_matches_def del: take_append)
qed

section \<open>Properties\<close>

text \<open>
  An IPv4 network \<open>n/i\<close> of a host list matches exactly when some IPv4 interface of the machine
  has the same first \<open>i\<close> bits.
\<close>

theorem addr_matches_prefix4:
  assumes "CHR ''/'' \<notin> set n" "sys_inet_pton6 sys n = None" "sys_inet_pton4 sys n = Some addr"
    and "strchr m (CHR ''.'') = None" "sudo_strtonum m 1 32 = Some (int i, None)"
  shows "addr_matches sys (n @ CHR ''/'' # m) =
    (if \<exists>ifp \<in> set (sys_interfaces sys). \<exists>a. if_addr ifp = IP4 a \<and>
          drop_bit (32 - i) a = drop_bit (32 - i) addr
     then ALLOW else DENY)"
proof -
  have "list_ex (\<lambda>ifp. case if_addr ifp of
        IP4 a \<Rightarrow> and a (push_bit (32 - i) 0xffffffff) = and addr (push_bit (32 - i) 0xffffffff)
      | IP6 _ \<Rightarrow> False) (sys_interfaces sys) \<longleftrightarrow>
    (\<exists>ifp \<in> set (sys_interfaces sys). \<exists>a. if_addr ifp = IP4 a \<and> drop_bit (32 - i) a = drop_bit (32 - i) addr)"
    unfolding masked_eq_prefix4 by (rule list_ex_IP4)
  then show ?thesis
    using assms by (simp add: addr_matches_slash addr_matches_if_netmask_def in4_netmask_def)
qed

lemma addr_matches_prefix4_witness:
  "let sys = empty_system\<lparr>sys_inet_pton4 := \<lambda>n. if n = ''10.0.0.0'' then Some 0x0A000000 else None,
       sys_interfaces := [\<lparr>if_addr = IP4 0x0A000001, if_mask = IP4 0xFFFFFF00\<rparr>]\<rparr>
   in addr_matches sys (''10.0.0.0'' @ ''/8'') = ALLOW"
proof -
  have m: "strchr ''8'' (CHR ''.'') = None" "sudo_strtonum ''8'' 1 32 = Some (int 8, None)"
    by code_simp+
  show ?thesis
    unfolding Let_def
    by (subst addr_matches_prefix4 [where addr = "0x0A000000" and i = 8, OF _ _ _ m])
      (simp_all add: empty_system_def)
qed

text \<open>
  An IPv6 network \<open>n/j\<close> of a host list matches exactly when some IPv6 interface of the machine
  has the same first \<open>j\<close> bits.
\<close>

theorem addr_matches_prefix6:
  assumes "CHR ''/'' \<notin> set n" "sys_inet_pton6 sys n = Some addr"
    and "sys_inet_pton6 sys m = None" "sudo_strtonum m 1 128 = Some (int j, None)"
  shows "addr_matches sys (n @ CHR ''/'' # m) =
    (if \<exists>ifp \<in> set (sys_interfaces sys). \<exists>a. if_addr ifp = IP6 a \<and>
          (\<forall>k < 128. k < j \<longrightarrow> addr_bit a k = addr_bit addr k)
     then ALLOW else DENY)"
proof -
  have "in6_network sys addr m = Some (List.map (\<lambda>i. and (addr ! i) (in6_prefix_byte j i)) [0..<16],
      List.map (in6_prefix_byte j) [0..<16])"
    using assms by (simp add: in6_network_def Let_def)
  moreover have "list_ex (\<lambda>ifp. case if_addr ifp of
        IP6 a \<Rightarrow> in6_masked_eq a (List.map (in6_prefix_byte j) [0..<16])
          (List.map (\<lambda>i. and (addr ! i) (in6_prefix_byte j i)) [0..<16])
      | IP4 _ \<Rightarrow> False) (sys_interfaces sys) \<longleftrightarrow>
    (\<exists>ifp \<in> set (sys_interfaces sys). \<exists>a. if_addr ifp = IP6 a \<and> (\<forall>k < 128. k < j \<longrightarrow> addr_bit a k = addr_bit addr k))"
    unfolding masked_eq_prefix6 by (rule list_ex_IP6)
  ultimately show ?thesis
    using assms by (simp add: addr_matches_slash addr_matches_if_netmask_def del: upt_rec_numeral)
qed

lemma addr_matches_prefix6_witness:
  "let sys = empty_system\<lparr>sys_inet_pton6 := \<lambda>n. if n = ''fe80::'' then Some ([0xfe, 0x80] @ replicate 14 0) else None,
       sys_interfaces := [\<lparr>if_addr = IP6 ([0xfe, 0x80] @ replicate 14 1), if_mask = IP6 (replicate 16 0)\<rparr>]\<rparr>
   in addr_matches sys (''fe80::'' @ ''/10'') = ALLOW"
proof -
  have m: "sudo_strtonum ''10'' 1 128 = Some (int 10, None)"
    by code_simp
  have b: "addr_bit ([0xfe, 0x80] @ replicate 14 1) k = addr_bit ([0xfe, 0x80] @ replicate 14 0) k" if "k < 10" for k
  proof -
    have "k div 8 = 0 \<or> k div 8 = 1" using that by linarith
    then show ?thesis by (auto simp: addr_bit_def)
  qed
  show ?thesis
    unfolding Let_def
    by (subst addr_matches_prefix6 [where addr = "[0xfe, 0x80] @ replicate 14 0" and j = 10, OF _ _ _ m])
      (use b in \<open>simp_all add: empty_system_def\<close>)
qed

text \<open>
  With an IPv6 mask written as an address the network address is not masked, in contrast to
  IPv4 masks and to prefix lengths: an address with a bit outside the mask matches no interface,
  not even one with that very address.
\<close>

theorem addr_matches_mask6_unmasked:
  assumes "CHR ''/'' \<notin> set n" "sys_inet_pton6 sys n = Some addr"
    and "sys_inet_pton6 sys m = Some nmask" "i < 16" "and (addr ! i) (nmask ! i) \<noteq> addr ! i"
  shows "addr_matches sys (n @ CHR ''/'' # m) = DENY"
proof -
  have "\<not> in6_masked_eq a nmask addr" for a
  proof
    assume "in6_masked_eq a nmask addr"
    then have "and (a ! i) (nmask ! i) = addr ! i" using assms(4) by (simp add: in6_masked_eq_def list_all_iff)
    then have "and (addr ! i) (nmask ! i) = and (and (a ! i) (nmask ! i)) (nmask ! i)" by simp
    also have "\<dots> = and (a ! i) (nmask ! i)" by (simp only: and.assoc and.idem)
    finally show False using assms(5) \<open>and (a ! i) (nmask ! i) = addr ! i\<close> by simp
  qed
  then have "\<not> list_ex (\<lambda>ifp. case if_addr ifp of IP6 a \<Rightarrow> in6_masked_eq a nmask addr | _ \<Rightarrow> False) (sys_interfaces sys)"
    by (auto simp: list_ex_iff split: net_addr.splits)
  then show ?thesis
    using assms by (simp add: addr_matches_slash addr_matches_if_netmask_def in6_network_def)
qed

lemma addr_matches_mask6_unmasked_witness:
  "let addr = [0xfe, 0x80] @ replicate 14 1;
       sys = empty_system\<lparr>sys_inet_pton6 := \<lambda>n. if n = ''fe80::1'' then Some addr
           else if n = ''ffff::'' then Some ([0xff, 0xff] @ replicate 14 0) else None,
       sys_interfaces := [\<lparr>if_addr = IP6 addr, if_mask = IP6 (replicate 16 0)\<rparr>]\<rparr>
   in addr_matches sys (''fe80::1'' @ ''/ffff::'') = DENY"
  unfolding Let_def
  by (subst addr_matches_mask6_unmasked [where i = 15 and addr = "[0xfe, 0x80] @ replicate 14 1"
        and nmask = "[0xff, 0xff] @ replicate 14 0"])
    (simp_all add: empty_system_def nth_append)

end
