(* ===== verification/Match.thy ===== *)
theory Match
  imports Alias MatchAddr
begin

text \<open>
  Matching the members of user, host, runas and command lists (\<open>plugins/sudoers/match.c\<close>).

  The environment of the code is explicit: \<open>sys\<close> (system databases), \<open>df\<close> (Defaults), \<open>ctx\<close> (the
  invocation) and \<open>pt\<close> (the parse tree, with \<open>ctx\<close> apart). Lists are walked in reverse; the
  functions on \<open>list_rev\<close> take the list already reversed. An alias is marked "used" while its
  members are matched: the marked table is the one passed down, and \<open>alias_put\<close>, which removes
  the mark again, gives back the table of the caller (\<open>alias_put_get\<close>).
\<close>

section \<open>Names\<close>

definition has_meta :: "string \<Rightarrow> bool" where
  "has_meta s \<longleftrightarrow> strpbrk_any s [CHR 0x5C, CHR ''?'', CHR ''*'', CHR ''['', CHR '']'']"

definition hostname_matches :: "system \<Rightarrow> string \<Rightarrow> string \<Rightarrow> string \<Rightarrow> verdict" where
  "hostname_matches sys shost lhost pattern =
     (let host = (if strchr pattern (CHR ''.'') \<noteq> None then lhost else shost) in
      if has_meta pattern then (if sys_fnmatch_casefold sys pattern host then ALLOW else DENY)
      else if strcase_eq host pattern then ALLOW else DENY)"

definition userpw_matches :: "sudo_defs \<Rightarrow> string \<Rightarrow> string \<Rightarrow> passwd option \<Rightarrow> verdict" where
  "userpw_matches df sudoers_user user pw =
     (if (case pw of None \<Rightarrow> False
          | Some p \<Rightarrow> c_at sudoers_user = CHR ''#'' \<and>
              (let (uid, errstr) = sudo_strtoid (tl sudoers_user) in errstr = None \<and> uid = pw_uid p))
      then ALLOW
      else if def_case_insensitive_user df
      then (if strcase_eq sudoers_user user then ALLOW else DENY)
      else (if strcmp sudoers_user user = 0 then ALLOW else DENY))"

definition group_matches :: "sudo_defs \<Rightarrow> string \<Rightarrow> group \<Rightarrow> verdict" where
  "group_matches df sudoers_group gr =
     (if c_at sudoers_group = CHR ''#'' \<and>
         (let (gid, errstr) = sudo_strtoid (tl sudoers_group) in errstr = None \<and> gid = gr_gid gr)
      then ALLOW
      else if def_case_insensitive_group df
      then (if strcase_eq sudoers_group (gr_name gr) then ALLOW else DENY)
      else (if strcmp sudoers_group (gr_name gr) = 0 then ALLOW else DENY))"

definition usergr_matches :: "system \<Rightarrow> sudo_defs \<Rightarrow> string \<Rightarrow> string \<Rightarrow> passwd option \<Rightarrow> verdict" where
  "usergr_matches sys df grp user pw =
     (if c_at grp \<noteq> CHR ''%'' then DENY
      else let grp = tl grp in
        if c_at grp = CHR '':'' \<and> def_group_plugin df \<noteq> None
        then (if sys_group_plugin_query sys user (tl grp) pw then ALLOW else DENY)
        else case (case pw of None \<Rightarrow> sys_getpwnam sys user | Some p \<Rightarrow> Some p) of
               None \<Rightarrow> DENY
             | Some p \<Rightarrow>
                 (if sys_user_in_group sys p grp then ALLOW
                  else if def_group_plugin df \<noteq> None \<and> def_always_query_group_plugin df \<and>
                          sys_group_plugin_query sys user grp (Some p)
                  then ALLOW else DENY))"

definition valid_domain :: "string \<Rightarrow> bool" where
  "valid_domain domain \<longleftrightarrow>
     domain \<noteq> [] \<and> list_all (\<lambda>c. c \<notin> {CHR ''('', CHR '')'', CHR '','', CHR '' ''}) domain"

definition sudo_getdomainname :: "system \<Rightarrow> string option" where
  "sudo_getdomainname sys =
     (case sys_getdomainname sys of None \<Rightarrow> None
      | Some domain \<Rightarrow> if valid_domain domain then Some domain else None)"

text \<open>
  The code compares the pointers \<open>lhost\<close> and \<open>shost\<close> to save a second lookup; the strings are
  compared here, which gives the same result as the lookup is a function of the strings. A
  source-specific lookup answers 0, 1 or something else for "not supported".
\<close>

definition netgr_matches :: "system \<Rightarrow> sudo_defs \<Rightarrow>
    (string \<Rightarrow> string option \<Rightarrow> string option \<Rightarrow> string option \<Rightarrow> int) option \<Rightarrow>
    string \<Rightarrow> string option \<Rightarrow> string option \<Rightarrow> string option \<Rightarrow> verdict" where
  "netgr_matches sys df nss_innetgr netgr lhost shost user =
     (if \<not> def_use_netgroups df \<or> c_at netgr \<noteq> CHR ''+'' then DENY
      else let netgr = tl netgr; domain = sudo_getdomainname sys;
               system_lookup =
                 (if sys_innetgr sys netgr lhost user domain \<or>
                     (lhost \<noteq> shost \<and> sys_innetgr sys netgr shost user domain)
                  then ALLOW else DENY)
      in case nss_innetgr of
           None \<Rightarrow> system_lookup
         | Some inn \<Rightarrow>
             (let rc = inn netgr lhost user domain in
              if rc = 0 then (if lhost \<noteq> shost \<and> inn netgr shost user domain = 1 then ALLOW else DENY)
              else if rc = 1 then ALLOW
              else system_lookup))"

section \<open>Signs\<close>

definition matched_if :: "member \<Rightarrow> verdict \<Rightarrow> verdict" where
  \<comment> \<open>\<open>if (... == ALLOW) matched = m->negated ? DENY : ALLOW;\<close>\<close>
  "matched_if m rc = (if rc = ALLOW then sign_verdict (m_negated m) else UNSPEC)"

definition alias_verdict :: "member \<Rightarrow> verdict \<Rightarrow> verdict" where
  \<comment> \<open>what the members of an alias gave, negated for a negated alias\<close>
  "alias_verdict m rc =
     (if SPECIFIED rc then (if m_negated m then flip_verdict rc else rc) else UNSPEC)"

definition tree_lhost :: "sudo_context \<Rightarrow> parse_tree \<Rightarrow> string" where
  "tree_lhost ctx pt = (case pt_lhost pt of Some h \<Rightarrow> h | None \<Rightarrow> runas_host ctx)"

definition tree_shost :: "sudo_context \<Rightarrow> parse_tree \<Rightarrow> string" where
  "tree_shost ctx pt = (case pt_shost pt of Some h \<Rightarrow> h | None \<Rightarrow> runas_shost ctx)"

section \<open>User lists\<close>

text \<open>
  The cases of \<open>user_matches\<close> but ALIAS; an alias that is not defined (or in use) is matched as
  a user name, as the code falls through to WORD.
\<close>

definition user_word :: "system \<Rightarrow> sudo_defs \<Rightarrow> sudo_context \<Rightarrow> parse_tree \<Rightarrow> passwd \<Rightarrow> member \<Rightarrow> verdict" where
  "user_word sys df ctx pt pw m =
     (let name = name_str (m_name m);
          lhost = Some (tree_lhost ctx pt); shost = Some (tree_shost ctx pt) in
      case m_type m of
        ALL_member \<Rightarrow> sign_verdict (m_negated m)
      | NETGROUP \<Rightarrow> matched_if m (netgr_matches sys df (pt_innetgr pt) name
          (if def_netgroup_tuple df then lhost else None)
          (if def_netgroup_tuple df then shost else None) (Some (pw_name pw)))
      | USERGROUP \<Rightarrow> matched_if m (usergr_matches sys df name (pw_name pw) (Some pw))
      | ALIAS \<Rightarrow> matched_if m (userpw_matches df name (pw_name pw) (Some pw))
      | WORD \<Rightarrow> matched_if m (userpw_matches df name (pw_name pw) (Some pw))
      | _ \<Rightarrow> UNSPEC)"

lemma unused_measure:
  "alias_get (aliases pt) name ty = Inr (a, al') \<Longrightarrow> unused (aliases (pt\<lparr>aliases := al'\<rparr>)) < unused (aliases pt)"
  by (simp add: alias_get_unused)

function user_matches :: "system \<Rightarrow> sudo_defs \<Rightarrow> sudo_context \<Rightarrow> parse_tree \<Rightarrow> passwd \<Rightarrow> member \<Rightarrow> verdict"
  and userlist_rev_matches :: "system \<Rightarrow> sudo_defs \<Rightarrow> sudo_context \<Rightarrow> parse_tree \<Rightarrow> passwd \<Rightarrow> member list \<Rightarrow> verdict"
where
  "user_matches sys df ctx pt pw m =
     (if m_type m = ALIAS then
        (case alias_get (aliases pt) (name_str (m_name m)) USERALIAS of
           Inr (a, al') \<Rightarrow> alias_verdict m
             (userlist_rev_matches sys df ctx (pt\<lparr>aliases := al'\<rparr>) pw (rev (a_members a)))
         | Inl _ \<Rightarrow> user_word sys df ctx pt pw m)
      else user_word sys df ctx pt pw m)"
| "userlist_rev_matches sys df ctx pt pw [] = UNSPEC"
| "userlist_rev_matches sys df ctx pt pw (m # ms) =
     (let matched = user_matches sys df ctx pt pw m in
      if SPECIFIED matched then matched else userlist_rev_matches sys df ctx pt pw ms)"
  by pat_completeness auto
termination
  by (relation "measures
      [case_sum (\<lambda>(sys, df, ctx, pt, pw, m). unused (aliases pt)) (\<lambda>(sys, df, ctx, pt, pw, ms). unused (aliases pt)),
       case_sum (\<lambda>_. 0) (\<lambda>(sys, df, ctx, pt, pw, ms). length ms)]")
    (auto dest: alias_get_unused)

definition userlist_matches :: "system \<Rightarrow> sudo_defs \<Rightarrow> sudo_context \<Rightarrow> parse_tree \<Rightarrow> passwd \<Rightarrow> member list \<Rightarrow> verdict" where
  "userlist_matches sys df ctx pt pw list = userlist_rev_matches sys df ctx pt pw (rev list)"

section \<open>Host lists\<close>

definition host_word :: "system \<Rightarrow> sudo_defs \<Rightarrow> parse_tree \<Rightarrow> passwd \<Rightarrow> string \<Rightarrow> string \<Rightarrow> member \<Rightarrow> verdict" where
  "host_word sys df pt pw lhost shost m =
     (let name = name_str (m_name m) in
      case m_type m of
        ALL_member \<Rightarrow> sign_verdict (m_negated m)
      | NETGROUP \<Rightarrow> matched_if m (netgr_matches sys df (pt_innetgr pt) name (Some lhost) (Some shost)
          (if def_netgroup_tuple df then Some (pw_name pw) else None))
      | NTWKADDR \<Rightarrow> matched_if m (addr_matches sys name)
      | ALIAS \<Rightarrow> matched_if m (hostname_matches sys shost lhost name)
      | WORD \<Rightarrow> matched_if m (hostname_matches sys shost lhost name)
      | _ \<Rightarrow> UNSPEC)"

function host_matches :: "system \<Rightarrow> sudo_defs \<Rightarrow> parse_tree \<Rightarrow> passwd \<Rightarrow> string \<Rightarrow> string \<Rightarrow> member \<Rightarrow> verdict"
  and hostlist_rev_matches :: "system \<Rightarrow> sudo_defs \<Rightarrow> parse_tree \<Rightarrow> passwd \<Rightarrow> string \<Rightarrow> string \<Rightarrow> member list \<Rightarrow> verdict"
where
  "host_matches sys df pt pw lhost shost m =
     (if m_type m = ALIAS then
        (case alias_get (aliases pt) (name_str (m_name m)) HOSTALIAS of
           Inr (a, al') \<Rightarrow> alias_verdict m
             (hostlist_rev_matches sys df (pt\<lparr>aliases := al'\<rparr>) pw lhost shost (rev (a_members a)))
         | Inl _ \<Rightarrow> host_word sys df pt pw lhost shost m)
      else host_word sys df pt pw lhost shost m)"
| "hostlist_rev_matches sys df pt pw lhost shost [] = UNSPEC"
| "hostlist_rev_matches sys df pt pw lhost shost (m # ms) =
     (let matched = host_matches sys df pt pw lhost shost m in
      if SPECIFIED matched then matched else hostlist_rev_matches sys df pt pw lhost shost ms)"
  by pat_completeness auto
termination
  by (relation "measures
      [case_sum (\<lambda>(sys, df, pt, pw, l, s, m). unused (aliases pt)) (\<lambda>(sys, df, pt, pw, l, s, ms). unused (aliases pt)),
       case_sum (\<lambda>_. 0) (\<lambda>(sys, df, pt, pw, l, s, ms). length ms)]")
    (auto dest: alias_get_unused)

definition hostlist_matches_int :: "system \<Rightarrow> sudo_defs \<Rightarrow> parse_tree \<Rightarrow> passwd \<Rightarrow> string \<Rightarrow> string \<Rightarrow>
    member list \<Rightarrow> verdict" where
  "hostlist_matches_int sys df pt pw lhost shost list =
     hostlist_rev_matches sys df pt pw lhost shost (rev list)"

definition hostlist_matches :: "system \<Rightarrow> sudo_defs \<Rightarrow> sudo_context \<Rightarrow> parse_tree \<Rightarrow> passwd \<Rightarrow> member list \<Rightarrow> verdict" where
  "hostlist_matches sys df ctx pt pw list =
     hostlist_matches_int sys df pt pw (tree_lhost ctx pt) (tree_shost ctx pt) list"

section \<open>Runas lists\<close>

definition runas_getgroups :: "system \<Rightarrow> sudo_defs \<Rightarrow> sudo_context \<Rightarrow> 32 word list option" where
  "runas_getgroups sys df ctx =
     (if def_preserve_groups df then user_gid_list ctx else sys_get_gidlist sys (runas_pw ctx))"

definition runas_user_word :: "system \<Rightarrow> sudo_defs \<Rightarrow> sudo_context \<Rightarrow> parse_tree \<Rightarrow> member \<Rightarrow> verdict" where
  "runas_user_word sys df ctx pt m =
     (let name = name_str (m_name m); pw = runas_pw ctx;
          lhost = Some (tree_lhost ctx pt); shost = Some (tree_shost ctx pt) in
      case m_type m of
        ALL_member \<Rightarrow> sign_verdict (m_negated m)
      | NETGROUP \<Rightarrow> matched_if m (netgr_matches sys df (pt_innetgr pt) name
          (if def_netgroup_tuple df then lhost else None)
          (if def_netgroup_tuple df then shost else None) (Some (pw_name pw)))
      | USERGROUP \<Rightarrow> matched_if m (usergr_matches sys df name (pw_name pw) (Some pw))
      | ALIAS \<Rightarrow> matched_if m (userpw_matches df name (pw_name pw) (Some pw))
      | WORD \<Rightarrow> matched_if m (userpw_matches df name (pw_name pw) (Some pw))
      | MYSELF \<Rightarrow>
          (if (\<not> ISSET (settings_flags ctx) RUNAS_USER_SPECIFIED \<and>
                ISSET (settings_flags ctx) RUNAS_GROUP_SPECIFIED) \<or>
              strcmp (user_name ctx) (pw_name pw) = 0
           then sign_verdict (m_negated m) else UNSPEC)
      | _ \<Rightarrow> UNSPEC)"

text \<open>The second argument and result is \<open>*matching_user\<close>, set by a match outside an alias name.\<close>

function runas_userlist_rev_matches :: "system \<Rightarrow> sudo_defs \<Rightarrow> sudo_context \<Rightarrow> parse_tree \<Rightarrow>
    member list \<Rightarrow> member option \<Rightarrow> verdict \<times> member option" where
  "runas_userlist_rev_matches sys df ctx pt [] matching = (UNSPEC, matching)"
| "runas_userlist_rev_matches sys df ctx pt (m # ms) matching =
     (let (user_matched, matching) =
        (if m_type m = ALIAS then
           (case alias_get (aliases pt) (name_str (m_name m)) RUNASALIAS of
              Inr (a, al') \<Rightarrow>
                (let (rc, matching) = runas_userlist_rev_matches sys df ctx (pt\<lparr>aliases := al'\<rparr>)
                   (rev (a_members a)) matching in (alias_verdict m rc, matching))
            | Inl _ \<Rightarrow> (runas_user_word sys df ctx pt m, matching))
         else (runas_user_word sys df ctx pt m, matching))
      in if SPECIFIED user_matched
         then (user_matched, if m_type m \<noteq> ALIAS then Some m else matching)
         else runas_userlist_rev_matches sys df ctx pt ms matching)"
  by pat_completeness auto
termination
  by (relation "measures [\<lambda>(sys, df, ctx, pt, ms, u). unused (aliases pt), \<lambda>(sys, df, ctx, pt, ms, u). length ms]")
    (auto dest: alias_get_unused)

definition runas_userlist_matches :: "system \<Rightarrow> sudo_defs \<Rightarrow> sudo_context \<Rightarrow> parse_tree \<Rightarrow>
    member list \<Rightarrow> member option \<Rightarrow> verdict \<times> member option" where
  "runas_userlist_matches sys df ctx pt list matching =
     runas_userlist_rev_matches sys df ctx pt (rev list) matching"

text \<open>
  Group lists. The list an alias stands for is matched by the same function, with its final
  fallback to the groups of the target user; \<open>gr\<close> is \<open>ctx->runas.gr\<close>.
\<close>

definition runas_group_fallback :: "system \<Rightarrow> sudo_defs \<Rightarrow> sudo_context \<Rightarrow> group \<Rightarrow> verdict" where
  "runas_group_fallback sys df ctx gr =
     (if pw_gid (runas_pw ctx) = gr_gid gr then ALLOW
      else case runas_getgroups sys df ctx of
             None \<Rightarrow> UNSPEC
           | Some gids \<Rightarrow> if list_ex (\<lambda>gid. gid = gr_gid gr) gids then ALLOW else UNSPEC)"

definition runas_group_word :: "sudo_defs \<Rightarrow> group \<Rightarrow> member \<Rightarrow> verdict" where
  "runas_group_word df gr m =
     (case m_type m of
        ALL_member \<Rightarrow> sign_verdict (m_negated m)
      | ALIAS \<Rightarrow> matched_if m (group_matches df (name_str (m_name m)) gr)
      | WORD \<Rightarrow> matched_if m (group_matches df (name_str (m_name m)) gr)
      | _ \<Rightarrow> UNSPEC)"

function runas_grouplist_rev_matches :: "system \<Rightarrow> sudo_defs \<Rightarrow> sudo_context \<Rightarrow> parse_tree \<Rightarrow> group \<Rightarrow>
    member list \<Rightarrow> verdict" where
  "runas_grouplist_rev_matches sys df ctx pt gr [] = runas_group_fallback sys df ctx gr"
| "runas_grouplist_rev_matches sys df ctx pt gr (m # ms) =
     (let group_matched =
        (if m_type m = ALIAS then
           (case alias_get (aliases pt) (name_str (m_name m)) RUNASALIAS of
              Inr (a, al') \<Rightarrow> alias_verdict m (runas_grouplist_rev_matches sys df ctx
                (pt\<lparr>aliases := al'\<rparr>) gr (rev (a_members a)))
            | Inl _ \<Rightarrow> runas_group_word df gr m)
         else runas_group_word df gr m)
      in if SPECIFIED group_matched then group_matched
         else runas_grouplist_rev_matches sys df ctx pt gr ms)"
  by pat_completeness auto
termination
  by (relation "measures [\<lambda>(sys, df, ctx, pt, gr, ms). unused (aliases pt), \<lambda>(sys, df, ctx, pt, gr, ms). length ms]")
    (auto dest: alias_get_unused)

definition runas_grouplist_matches :: "system \<Rightarrow> sudo_defs \<Rightarrow> sudo_context \<Rightarrow> parse_tree \<Rightarrow> group \<Rightarrow>
    member list option \<Rightarrow> verdict" where
  "runas_grouplist_matches sys df ctx pt gr group_list =
     (case group_list of
        None \<Rightarrow> runas_group_fallback sys df ctx gr
      | Some list \<Rightarrow> runas_grouplist_rev_matches sys df ctx pt gr (rev list))"

text \<open>
  \<open>runaslist_matches\<close>; the front end sets \<open>RUNAS_GROUP_SPECIFIED\<close> only with a runas group, so
  the flag without a group, which the code would dereference, is taken as not set.
\<close>

definition runaslist_matches :: "system \<Rightarrow> sudo_defs \<Rightarrow> sudo_context \<Rightarrow> parse_tree \<Rightarrow>
    member list option \<Rightarrow> member list option \<Rightarrow> member option \<Rightarrow> verdict \<times> member option" where
  "runaslist_matches sys df ctx pt user_list group_list matching =
     (let (user_matched, matching) =
        (case user_list of
           None \<Rightarrow> (fst (runas_userlist_matches sys df ctx pt
             [\<lparr>m_name = Name (def_runas_default df), m_type = WORD, m_negated = False\<rparr>] None), matching)
         | Some list \<Rightarrow> runas_userlist_matches sys df ctx pt list matching);
        group_matched =
          (if ISSET (settings_flags ctx) RUNAS_GROUP_SPECIFIED
           then (case runas_gr ctx of None \<Rightarrow> UNSPEC
                 | Some gr \<Rightarrow> runas_grouplist_matches sys df ctx pt gr group_list)
           else UNSPEC)
      in if user_matched = DENY \<or> group_matched = DENY then (DENY, matching)
         else if user_matched = group_matched \<or> runas_gr ctx = None then (user_matched, matching)
         else (UNSPEC, matching))"

section \<open>Command lists\<close>

text \<open>
  \<open>cm\<close> is \<open>command_matches\<close> of \<open>match_command.c\<close> on the command of a member and the chroot; it
  gives ALLOW or DENY and changes the match state.
\<close>

type_synonym command_matcher = "sudo_command \<Rightarrow> string option \<Rightarrow> match_state \<Rightarrow> verdict \<times> match_state"

definition cmnd_word :: "command_matcher \<Rightarrow> string option \<Rightarrow> member \<Rightarrow> match_state \<Rightarrow> verdict \<times> match_state" where
  "cmnd_word cm runchroot m s =
     (if m_type m = ALL_member \<or> m_type m = COMMAND then
        (case m_name m of
           Cmnd c \<Rightarrow> (let (rc, s) = cm c runchroot s in (matched_if m rc, s))
         | _ \<Rightarrow> (UNSPEC, s))
      else (UNSPEC, s))"

function cmnd_matches :: "command_matcher \<Rightarrow> parse_tree \<Rightarrow> member \<Rightarrow> string option \<Rightarrow> match_state \<Rightarrow>
    verdict \<times> match_state"
  and cmndlist_rev_matches :: "command_matcher \<Rightarrow> parse_tree \<Rightarrow> member list \<Rightarrow> string option \<Rightarrow> match_state \<Rightarrow>
    verdict \<times> match_state"
where
  "cmnd_matches cm pt m runchroot s =
     (if m_type m = ALIAS then
        (case alias_get (aliases pt) (name_str (m_name m)) CMNDALIAS of
           Inr (a, al') \<Rightarrow>
             (let (rc, s) = cmndlist_rev_matches cm (pt\<lparr>aliases := al'\<rparr>) (rev (a_members a)) runchroot s
              in (alias_verdict m rc, s))
         | Inl _ \<Rightarrow> (UNSPEC, s))
      else cmnd_word cm runchroot m s)"
| "cmndlist_rev_matches cm pt [] runchroot s = (UNSPEC, s)"
| "cmndlist_rev_matches cm pt (m # ms) runchroot s =
     (let (matched, s) = cmnd_matches cm pt m runchroot s in
      if SPECIFIED matched then (matched, s) else cmndlist_rev_matches cm pt ms runchroot s)"
  by pat_completeness auto
termination
  by (relation "measures
      [case_sum (\<lambda>(cm, pt, m, r, s). unused (aliases pt)) (\<lambda>(cm, pt, ms, r, s). unused (aliases pt)),
       case_sum (\<lambda>_. 0) (\<lambda>(cm, pt, ms, r, s). length ms)]")
    (auto dest: alias_get_unused)

definition cmndlist_matches :: "command_matcher \<Rightarrow> parse_tree \<Rightarrow> member list \<Rightarrow> string option \<Rightarrow> match_state \<Rightarrow>
    verdict \<times> match_state" where
  "cmndlist_matches cm pt list runchroot s = cmndlist_rev_matches cm pt (rev list) runchroot s"

text \<open>\<open>cmnd_matches_all\<close> considers ALL only; its inner loop over the members of an alias is \<open>all_rev_matches\<close>.\<close>

definition cmnd_word_all :: "command_matcher \<Rightarrow> string option \<Rightarrow> member \<Rightarrow> match_state \<Rightarrow> verdict \<times> match_state" where
  "cmnd_word_all cm runchroot m s = (if m_type m = ALL_member then cmnd_word cm runchroot m s else (UNSPEC, s))"

function cmnd_matches_all :: "command_matcher \<Rightarrow> parse_tree \<Rightarrow> member \<Rightarrow> string option \<Rightarrow> match_state \<Rightarrow>
    verdict \<times> match_state"
  and all_rev_matches :: "command_matcher \<Rightarrow> parse_tree \<Rightarrow> bool \<Rightarrow> member list \<Rightarrow> string option \<Rightarrow> match_state \<Rightarrow>
    verdict \<times> match_state"
where
  "cmnd_matches_all cm pt m runchroot s =
     (if m_type m = ALIAS then
        (case alias_get (aliases pt) (name_str (m_name m)) CMNDALIAS of
           Inr (a, al') \<Rightarrow>
             all_rev_matches cm (pt\<lparr>aliases := al'\<rparr>) (m_negated m) (rev (a_members a)) runchroot s
         | Inl _ \<Rightarrow> (UNSPEC, s))
      else cmnd_word_all cm runchroot m s)"
| "all_rev_matches cm pt negated [] runchroot s = (UNSPEC, s)"
| "all_rev_matches cm pt negated (m # ms) runchroot s =
     (let (matched, s) = cmnd_matches_all cm pt m runchroot s in
      if SPECIFIED matched then (if negated then flip_verdict matched else matched, s)
      else all_rev_matches cm pt negated ms runchroot s)"
  by pat_completeness auto
termination
  by (relation "measures
      [case_sum (\<lambda>(cm, pt, m, r, s). unused (aliases pt)) (\<lambda>(cm, pt, n, ms, r, s). unused (aliases pt)),
       case_sum (\<lambda>_. 0) (\<lambda>(cm, pt, n, ms, r, s). length ms)]")
    (auto dest: alias_get_unused)

declare user_matches.simps [simp del] host_matches.simps [simp del] cmnd_matches.simps [simp del]
  cmnd_matches_all.simps [simp del]

end
