(* ===== verification/Files.thy ===== *)
theory Files
  imports Sudoers Strto
begin

text \<open>
  The file system as the policy engine sees it, the descriptors it opens, and the search for a
  command: \<open>goodpath.c\<close>, \<open>find_path.c\<close>, \<open>resolve_cmnd.c\<close>, \<open>set_cmnd_path\<close> of \<open>sudoers.c\<close> and, of
  \<open>lib/util\<close>, \<open>basename.c\<close> and \<open>strsplit.c\<close>.

  A \<open>file_system\<close> holds the answers of the system calls with one set of privileges; it does not
  change while a policy is evaluated. \<open>PATH_MAX\<close> is FreeBSD's. A path of \<open>PATH_MAX\<close> characters or
  more has no status (ENAMETOOLONG).
\<close>

section \<open>The file system\<close>

definition PATH_MAX :: nat where "PATH_MAX = 1024"

datatype open_result = Opened | OpenEACCES | OpenFailed

record file_system =
  fs_stat :: "string \<Rightarrow> file_stat option"
  fs_open :: "string \<Rightarrow> open_result"           \<comment> \<open>\<open>O_RDONLY|O_NONBLOCK\<close>\<close>
  fs_open_exec :: "string \<Rightarrow> bool"             \<comment> \<open>\<open>O_EXEC\<close>\<close>
  fs_content :: "string \<Rightarrow> 8 word list"
  fs_read_error :: "string \<Rightarrow> bool"
  fs_dup :: "string \<Rightarrow> bool"                   \<comment> \<open>whether a descriptor open at the path can be duplicated\<close>
  fs_fdopen :: "string \<Rightarrow> bool"                \<comment> \<open>and a stream made of the duplicate\<close>
  fs_dev_fd :: "int \<Rightarrow> bool"                   \<comment> \<open>whether \<open>/dev/fd/N\<close> exists\<close>
  fs_realpath :: "string \<Rightarrow> string option"
  fs_fnmatch :: "string \<Rightarrow> string \<Rightarrow> bool \<Rightarrow> bool"  \<comment> \<open>with \<open>FNM_PATHNAME\<close> or without flags\<close>
  fs_glob :: "string \<Rightarrow> string list option"
  fs_regcomp :: "string \<Rightarrow> bool \<Rightarrow> (string \<Rightarrow> bool) option"  \<comment> \<open>with \<open>REG_ICASE\<close> or without\<close>

definition c_stat :: "file_system \<Rightarrow> string \<Rightarrow> file_stat option" where
  "c_stat fs path = (if length path < PATH_MAX then fs_stat fs path else None)"

text \<open>\<open>snprintf(buf, sizeof(buf), "%s%s", a, b)\<close> into a buffer of \<open>PATH_MAX\<close>: None when it does not fit.\<close>

definition path_join :: "string \<Rightarrow> string \<Rightarrow> string option" where
  "path_join a b = (if length (a @ b) \<ge> PATH_MAX then None else Some (a @ b))"

definition in_chroot :: "string option \<Rightarrow> string \<Rightarrow> string option" where
  "in_chroot runchroot path = (case runchroot of None \<Rightarrow> Some path | Some r \<Rightarrow> path_join r path)"

section \<open>Descriptors\<close>

definition fresh_fd :: "(int \<times> string) list \<Rightarrow> int" where
  \<comment> \<open>the lowest descriptor that is not open\<close>
  "fresh_fd fds = hd (filter (\<lambda>n. n \<notin> fst ` set fds) (map int [0..<Suc (length fds)]))"

definition add_fd :: "string \<Rightarrow> match_state \<Rightarrow> int \<times> match_state" where
  "add_fd path s = (let fd = fresh_fd (ms_fds s) in (fd, s\<lparr>ms_fds := (fd, path) # ms_fds s\<rparr>))"

definition close_fd :: "int \<Rightarrow> match_state \<Rightarrow> match_state" where
  "close_fd fd s = s\<lparr>ms_fds := filter (\<lambda>(n, path). n \<noteq> fd) (ms_fds s)\<rparr>"

definition fd_path :: "match_state \<Rightarrow> int \<Rightarrow> string option" where
  "fd_path s fd = map_of (ms_fds s) fd"

lemma fresh_fd: "0 \<le> fresh_fd fds" "fresh_fd fds \<notin> fst ` set fds"
proof -
  let ?free = "filter (\<lambda>n. n \<notin> fst ` set fds) (map int [0..<Suc (length fds)])"
  have "?free \<noteq> []"
  proof
    assume "?free = []"
    then have "int ` {0..<Suc (length fds)} \<subseteq> fst ` set fds"
      by (auto simp: filter_empty_conv simp del: upt_Suc)
    then have "card (int ` {0..<Suc (length fds)}) \<le> card (fst ` set fds)" by (intro card_mono) simp_all
    also have "\<dots> \<le> length fds" by (meson card_image_le card_length finite_set le_trans)
    finally show False by (simp add: card_image)
  qed
  then have "fresh_fd fds \<in> set ?free" unfolding fresh_fd_def by (rule hd_in_set)
  then show "0 \<le> fresh_fd fds" "fresh_fd fds \<notin> fst ` set fds" by (auto simp del: upt_Suc)
qed

lemma close_fresh: "filter (\<lambda>(n, path). n \<noteq> fresh_fd fds) fds = fds"
  using fresh_fd(2) [of fds] by (force simp: filter_id_conv)

lemma add_close_fd: "add_fd path s = (fd, s1) \<Longrightarrow> close_fd fd s1 = s"
  by (auto simp: add_fd_def close_fd_def close_fresh Let_def)

section \<open>Names\<close>

definition sudo_basename :: "string \<Rightarrow> string" where
  "sudo_basename filename = (case strrchr filename (CHR ''/'') of Some base \<Rightarrow> tl base | None \<Rightarrow> filename)"

text \<open>\<open>sudo_strsplit\<close>: the next word of what is left, and what is left after it.\<close>

definition sudo_strsplit :: "string \<Rightarrow> string \<Rightarrow> (string \<times> string) option" where
  "sudo_strsplit str sep =
     (let str = dropWhile (\<lambda>c. c \<in> set sep) str in
      if str = [] then None
      else Some (takeWhile (\<lambda>c. c \<notin> set sep) str, dropWhile (\<lambda>c. c \<notin> set sep) str))"

section \<open>Finding a command\<close>

definition S_ISREG :: "32 word \<Rightarrow> bool" where
  "S_ISREG mode \<longleftrightarrow> and mode 0xf000 = 0x8000"

definition S_IXALL :: "32 word" where
  \<comment> \<open>\<open>S_IXUSR|S_IXGRP|S_IXOTH\<close>\<close>
  "S_IXALL = 0x49"

definition executable_file :: "file_stat \<Rightarrow> bool" where
  "executable_file sb \<longleftrightarrow> S_ISREG (st_mode sb) \<and> ISSET (st_mode sb) S_IXALL"

text \<open>
  \<open>sudo_goodpath\<close> for a path that is not NULL: the result and what is written through \<open>sbp\<close>, the
  status of the file whenever it has one.
\<close>

definition sudo_goodpath :: "file_system \<Rightarrow> string \<Rightarrow> string option \<Rightarrow> bool \<times> file_stat option" where
  "sudo_goodpath fs path runchroot =
     (case in_chroot runchroot path of None \<Rightarrow> (False, None)
      | Some path \<Rightarrow>
          (case c_stat fs path of None \<Rightarrow> (False, None) | Some sb \<Rightarrow> (executable_file sb, Some sb)))"

text \<open>\<open>*sbp = sb\<close> for a pointer that may be NULL.\<close>

definition write_stat :: "file_stat option \<Rightarrow> file_stat option \<Rightarrow> file_stat option" where
  "write_stat sbp sb = (case (sbp, sb) of (Some _, Some sb) \<Rightarrow> Some sb | _ \<Rightarrow> sbp)"

text \<open>
  \<open>cmnd_allowed\<close>: the command to use and what \<open>cmnd_sbp\<close> points to. A caller that gives an allow
  list gives \<open>cmnd_sbp\<close> as well.
\<close>

definition same_file :: "file_stat \<Rightarrow> file_stat \<Rightarrow> bool" where
  "same_file a b \<longleftrightarrow> st_dev a = st_dev b \<and> st_ino a = st_ino b"

definition allowed_as :: "file_system \<Rightarrow> string option \<Rightarrow> string \<Rightarrow> file_stat option \<Rightarrow> string \<Rightarrow> bool" where
  "allowed_as fs runchroot cmnd cmnd_sbp path \<longleftrightarrow>
     sudo_basename path = sudo_basename cmnd \<and>
     (case (sudo_goodpath fs path runchroot, cmnd_sbp) of
        ((True, Some sb), Some csb) \<Rightarrow> same_file sb csb | _ \<Rightarrow> False) \<and>
     length path < PATH_MAX"

definition cmnd_allowed :: "file_system \<Rightarrow> string \<Rightarrow> string option \<Rightarrow> file_stat option \<Rightarrow> string list option \<Rightarrow>
    string option \<times> file_stat option" where
  "cmnd_allowed fs cmnd runchroot sbp allowlist =
     (let (good, sb) = sudo_goodpath fs cmnd runchroot; sbp = write_stat sbp sb in
      if \<not> good then (None, sbp)
      else case allowlist of None \<Rightarrow> (Some cmnd, sbp)
      | Some al \<Rightarrow> (find (allowed_as fs runchroot cmnd sbp) al, sbp))"

datatype find_status = FOUND | NOT_FOUND | NOT_FOUND_DOT | NOT_FOUND_ERROR

text \<open>
  The loop over the directories of the search path: the command found or None, or \<open>Inl ()\<close> for a
  name that is too long; whether \<open>.\<close> was among them; and \<open>*sbp\<close>.
\<close>

lemma sudo_strsplit_shorter: "sudo_strsplit str sep = Some (cp, rest) \<Longrightarrow> length rest < length str"
proof -
  assume a: "sudo_strsplit str sep = Some (cp, rest)"
  let ?s = "dropWhile (\<lambda>c. c \<in> set sep) str"
  have s: "?s \<noteq> []" "rest = dropWhile (\<lambda>c. c \<notin> set sep) ?s"
    using a by (auto simp: sudo_strsplit_def Let_def split: if_splits)
  then obtain c t where c: "?s = c # t" by (cases ?s) auto
  then have "c \<notin> set sep" by (metis hd_dropWhile list.sel(1) s(1))
  then have "rest = dropWhile (\<lambda>c. c \<notin> set sep) t" using s(2) c by simp
  moreover have "length t < length str" using c length_dropWhile_le [of "\<lambda>c. c \<in> set sep" str] by simp
  ultimately show ?thesis using length_dropWhile_le [of "\<lambda>c. c \<notin> set sep" t] by simp
qed

function find_in_path :: "file_system \<Rightarrow> string \<Rightarrow> string option \<Rightarrow> string list option \<Rightarrow> string \<Rightarrow> bool \<Rightarrow>
    file_stat option \<Rightarrow> (unit + string option) \<times> bool \<times> file_stat option" where
  "find_in_path fs infile runchroot allowlist path checkdot sbp =
     (case sudo_strsplit path '':'' of None \<Rightarrow> (Inr None, checkdot, sbp)
      | Some (cp, rest) \<Rightarrow>
          if cp = [] \<or> cp = ''.'' then find_in_path fs infile runchroot allowlist rest True sbp
          else let command = cp @ ''/'' @ infile in
            if length command \<ge> PATH_MAX then (Inl (), checkdot, sbp)
            else case cmnd_allowed fs command runchroot sbp allowlist of
                   (Some c, sbp) \<Rightarrow> (Inr (Some c), checkdot, sbp)
                 | (None, sbp) \<Rightarrow> find_in_path fs infile runchroot allowlist rest checkdot sbp)"
  by pat_completeness auto
termination find_in_path
  by (relation "measure (\<lambda>(fs, infile, r, al, path, dot, sbp). length path)")
    (auto dest: sudo_strsplit_shorter)

declare find_in_path.simps [simp del]

definition found_or_not :: "string option \<Rightarrow> find_status \<times> string option" where
  "found_or_not c = (case c of Some command \<Rightarrow> (FOUND, Some command) | None \<Rightarrow> (NOT_FOUND, None))"

definition find_path :: "file_system \<Rightarrow> string \<Rightarrow> file_stat option \<Rightarrow> string option \<Rightarrow> string option \<Rightarrow> bool \<Rightarrow>
    string list option \<Rightarrow> (find_status \<times> string option) \<times> file_stat option" where
  "find_path fs infile sbp path runchroot ignore_dot allowlist =
     (if strchr infile (CHR ''/'') \<noteq> None then
        (if length infile \<ge> PATH_MAX then ((NOT_FOUND_ERROR, None), sbp)
         else let (c, sbp) = cmnd_allowed fs infile runchroot sbp allowlist in (found_or_not c, sbp))
      else case path of None \<Rightarrow> ((NOT_FOUND, None), sbp)
      | Some path \<Rightarrow>
        (case find_in_path fs infile runchroot allowlist path False sbp of
           (Inl _, checkdot, sbp) \<Rightarrow> ((NOT_FOUND_ERROR, None), sbp)
         | (Inr (Some command), checkdot, sbp) \<Rightarrow> ((FOUND, Some command), sbp)
         | (Inr None, checkdot, sbp) \<Rightarrow>
             if \<not> checkdot then ((NOT_FOUND, None), sbp)
             else if length (''./'' @ infile) \<ge> PATH_MAX then ((NOT_FOUND_ERROR, None), sbp)
             else let (c, sbp) = cmnd_allowed fs (''./'' @ infile) runchroot sbp allowlist in
               if c \<noteq> None \<and> ignore_dot then ((NOT_FOUND_DOT, None), sbp) else (found_or_not c, sbp)))"

text \<open>
  \<open>resolve_cmnd\<close>: the search as the run-as user, then as the invoking user. A privilege gives the
  file system as it can see it, None when \<open>set_perms\<close> fails; \<open>restored\<close> is \<open>restore_perms\<close>.
\<close>

datatype perm = PERM_RUNAS | PERM_USER

definition resolve_cmnd :: "(perm \<Rightarrow> file_system option) \<Rightarrow> bool \<Rightarrow> sudo_defs \<Rightarrow> string \<Rightarrow> string option \<Rightarrow>
    string option \<Rightarrow> file_stat option \<Rightarrow> (find_status \<times> string option) \<times> file_stat option" where
  "resolve_cmnd perms restored df infile path runchroot sbp =
     (case perms PERM_RUNAS of None \<Rightarrow> ((NOT_FOUND_ERROR, None), sbp)
      | Some fs \<Rightarrow>
        (let (r, sbp) = find_path fs infile sbp path runchroot (def_ignore_dot df) None in
         if \<not> restored \<or> fst r \<noteq> NOT_FOUND then (r, sbp)
         else case perms PERM_USER of None \<Rightarrow> (r, sbp)
              | Some fs \<Rightarrow> find_path fs infile sbp path runchroot (def_ignore_dot df) None))"

definition user_is_exempt :: "system \<Rightarrow> sudo_defs \<Rightarrow> sudo_context \<Rightarrow> bool" where
  "user_is_exempt sys df ctx \<longleftrightarrow>
     (case def_exempt_group df of None \<Rightarrow> False | Some g \<Rightarrow> sys_user_in_group sys (user_pw ctx) g)"

text \<open>\<open>canon_path\<close> without its cache (theory \<open>CanonPath\<close> has it).\<close>

definition canonical :: "file_system \<Rightarrow> string \<Rightarrow> string option" where
  "canonical fs inpath =
     (if inpath = [] then Some ''/''
      else case fs_realpath fs inpath of Some r \<Rightarrow> if r = [] then None else Some r | None \<Rightarrow> None)"

text \<open>
  \<open>set_cmnd_path\<close> for running a command (not \<open>MODE_CHECK\<close>): the status, \<open>user.cmnd\<close>, and the state
  with \<open>user.cmnd_stat\<close> and \<open>user.cmnd_dir\<close> set.
\<close>

definition set_cmnd_path :: "system \<Rightarrow> (perm \<Rightarrow> file_system option) \<Rightarrow> bool \<Rightarrow> file_system \<Rightarrow> sudo_defs \<Rightarrow>
    sudo_context \<Rightarrow> string option \<Rightarrow> match_state \<Rightarrow> find_status \<times> string option \<times> match_state" where
  "set_cmnd_path sys perms restored fs df ctx runchroot s =
     (let path = (case def_secure_path df of
                    Some p \<Rightarrow> if user_is_exempt sys df ctx then user_path ctx else Some p
                  | None \<Rightarrow> user_path ctx);
          ((status, cmnd_out), sbp) =
            resolve_cmnd perms restored df (runas_argv0 ctx) path runchroot (ms_cmnd_stat s);
          dir = (case cmnd_out of
                   Some c \<Rightarrow>
                     if status = FOUND
                     then (case strrchr c (CHR ''/'') of
                             Some slash \<Rightarrow> canonical fs (take (length c - length slash) c) | None \<Rightarrow> None)
                     else None
                 | None \<Rightarrow> None)
      in (status, cmnd_out, s\<lparr>ms_cmnd_stat := sbp, ms_cmnd_dir := dir\<rparr>))"

end
