(* ===== verification/Base64.thy ===== *)
theory Base64
  imports Prelude "HOL-Library.Word"
begin

text \<open>
  Base 64 (\<open>b64_encode.c\<close>, \<open>b64_decode.c\<close> of the sudoers plugin), used for the digests of command
  specifications. Both routines shift input bits through an \<open>unsigned int\<close> whose high bits are
  left-overs; \<open>(size_t)-1\<close> is None.
\<close>

unbundle bit_operations_syntax

section \<open>Encoding\<close>

definition base64enc_tab :: string where
  "base64enc_tab = ''ABCDEFGHIJKLMNOPQRSTUVWXYZabcdefghijklmnopqrstuvwxyz0123456789+/''"

text \<open>\<open>out[io++] = c\<close>, or failure when \<open>io >= out_len\<close>.\<close>

definition put_char :: "nat \<Rightarrow> string \<Rightarrow> char \<Rightarrow> string option" where
  "put_char out_len out c = (if length out \<ge> out_len then None else Some (out @ [c]))"

definition enc_char :: "32 word \<Rightarrow> nat \<Rightarrow> char" where
  "enc_char v rem = base64enc_tab ! unat (drop_bit rem v AND 63)"

text \<open>\<open>while (rem >= 6)\<close>\<close>

fun enc_drain :: "nat \<Rightarrow> 32 word \<Rightarrow> nat \<Rightarrow> string \<Rightarrow> (nat \<times> string) option" where
  "enc_drain out_len v rem out =
     (if rem \<ge> 6
      then (case put_char out_len out (enc_char v (rem - 6)) of
              None \<Rightarrow> None | Some out \<Rightarrow> enc_drain out_len v (rem - 6) out)
      else Some (rem, out))"

fun enc_bytes :: "nat \<Rightarrow> 32 word \<Rightarrow> nat \<Rightarrow> string \<Rightarrow> 8 word list \<Rightarrow> (32 word \<times> nat \<times> string) option" where
  "enc_bytes out_len v rem out [] = Some (v, rem, out)"
| "enc_bytes out_len v rem out (ch # bs) =
     (let v = push_bit 8 v OR ucast ch in
      case enc_drain out_len v (rem + 8) out of
        None \<Rightarrow> None | Some (rem, out) \<Rightarrow> enc_bytes out_len v rem out bs)"

text \<open>\<open>while (io & 3)\<close>\<close>

function enc_pad :: "nat \<Rightarrow> string \<Rightarrow> string option" where
  "enc_pad out_len out =
     (if length out mod 4 \<noteq> 0
      then (case put_char out_len out (CHR ''='') of None \<Rightarrow> None | Some out \<Rightarrow> enc_pad out_len out)
      else Some out)"
  by pat_completeness auto
termination enc_pad
proof (relation "measure (\<lambda>(n, out). (4 - length out mod 4) mod 4)", goal_cases)
  case (2 out_len out x)
  have "(4 - Suc n mod 4) mod 4 < (4 - n mod 4) mod 4" if "n mod 4 \<noteq> 0" for n :: nat
  proof -
    have "n mod 4 < 4" by simp
    then have "n mod 4 = 1 \<or> n mod 4 = 2 \<or> n mod 4 = 3" using that by linarith
    then show ?thesis by (elim disjE) (simp_all add: mod_Suc)
  qed
  then show ?case using 2 by (auto simp: put_char_def split: if_splits)
qed simp

definition base64_encode :: "8 word list \<Rightarrow> nat \<Rightarrow> string option" where
  "base64_encode bs out_len =
     (case enc_bytes out_len 0 0 [] bs of None \<Rightarrow> None
      | Some (v, rem, out) \<Rightarrow>
        (case (if rem \<noteq> 0 then put_char out_len out (enc_char (push_bit (6 - rem) v) 0) else Some out) of
           None \<Rightarrow> None
         | Some out \<Rightarrow>
           (case enc_pad out_len out of None \<Rightarrow> None
            | Some out \<Rightarrow> if length out \<ge> out_len then None else Some out)))"

section \<open>Decoding\<close>

text \<open>The table gives None for 255. The padding character has the value 0, but ends the loop.\<close>

definition base64dec_tab :: "nat option list" where
  "base64dec_tab =
     replicate 43 None @ [Some 62] @ replicate 3 None @ [Some 63] @ map Some [52..<62] @
     replicate 3 None @ [Some 0] @ replicate 3 None @ map Some [0..<26] @ replicate 6 None @
     map Some [26..<52] @ replicate 133 None"

definition put_byte :: "nat \<Rightarrow> 8 word list \<Rightarrow> 8 word \<Rightarrow> 8 word list option" where
  "put_byte out_size out b = (if length out \<ge> out_size then None else Some (out @ [b]))"

definition dec_byte :: "32 word \<Rightarrow> nat \<Rightarrow> 8 word" where
  "dec_byte v rem = ucast (drop_bit rem v AND 0xff)"

fun dec_chars :: "nat \<Rightarrow> 32 word \<Rightarrow> nat \<Rightarrow> 8 word list \<Rightarrow> string \<Rightarrow> (32 word \<times> nat \<times> 8 word list) option" where
  "dec_chars out_size v rem out [] = Some (v, rem, out)"
| "dec_chars out_size v rem out (c # cs) =
     (if c = NUL \<or> c = CHR ''='' then Some (v, rem, out)
      else case base64dec_tab ! code c of
        None \<Rightarrow> None
      | Some ch \<Rightarrow>
        (let v = push_bit 6 v OR word_of_nat ch; rem = rem + 6 in
         if rem \<ge> 8
         then (case put_byte out_size out (dec_byte v (rem - 8)) of
                 None \<Rightarrow> None | Some out \<Rightarrow> dec_chars out_size v (rem - 8) out cs)
         else dec_chars out_size v rem out cs))"

definition base64_decode :: "string \<Rightarrow> nat \<Rightarrow> 8 word list option" where
  "base64_decode s out_size =
     (case dec_chars out_size 0 0 [] s of None \<Rightarrow> None
      | Some (v, rem, out) \<Rightarrow>
        if rem \<ge> 8 then put_byte out_size out (dec_byte v (rem - 8)) else Some out)"

section \<open>What they compute\<close>

definition sextet0 :: "8 word \<Rightarrow> 8 word" where "sextet0 a = drop_bit 2 a"
definition sextet1 :: "8 word \<Rightarrow> 8 word \<Rightarrow> 8 word" where
  "sextet1 a b = (push_bit 4 a OR drop_bit 4 b) AND 63"
definition sextet2 :: "8 word \<Rightarrow> 8 word \<Rightarrow> 8 word" where
  "sextet2 b c = (push_bit 2 b OR drop_bit 6 c) AND 63"
definition sextet3 :: "8 word \<Rightarrow> 8 word" where "sextet3 c = c AND 63"

lemmas sextets = sextet0_def sextet1_def sextet2_def sextet3_def

abbreviation sextet_char :: "8 word \<Rightarrow> char" where
  "sextet_char s \<equiv> base64enc_tab ! unat s"

fun b64_groups :: "8 word list \<Rightarrow> string" where
  "b64_groups [] = []"
| "b64_groups [a] = [sextet_char (sextet0 a), sextet_char (sextet1 a 0), CHR ''='', CHR ''='']"
| "b64_groups [a, b] =
     [sextet_char (sextet0 a), sextet_char (sextet1 a b), sextet_char (sextet2 b 0), CHR ''='']"
| "b64_groups (a # b # c # bs) =
     sextet_char (sextet0 a) # sextet_char (sextet1 a b) # sextet_char (sextet2 b c) #
     sextet_char (sextet3 c) # b64_groups bs"

text \<open>The characters the encoder takes out of the bit buffer.\<close>

lemma unat_char_eq:
  fixes x :: "32 word" and y :: "8 word"
  assumes "x = ucast y" shows "unat x = unat y"
  using assms by transfer (simp add: take_bit_eq_mod)

lemma and_63: "(x :: 'a::len word) AND 63 = take_bit 6 x"
  by (simp add: take_bit_eq_mask mask_eq_exp_minus_1)

lemma enc_char_eq: "take_bit 6 (drop_bit r v) = ucast y \<Longrightarrow> enc_char v r = sextet_char y"
  unfolding enc_char_def and_63 by (rule arg_cong [OF unat_char_eq])

lemma enc_sextets:
  "enc_char (push_bit 8 v OR ucast a) 2 = sextet_char (sextet0 a)"
  "enc_char (push_bit 8 (push_bit 8 v OR ucast a) OR ucast b) 4 = sextet_char (sextet1 a b)"
  "enc_char (push_bit 8 (push_bit 8 v OR ucast b) OR ucast c) 6 = sextet_char (sextet2 b c)"
  "enc_char (push_bit 8 v OR ucast c) 0 = sextet_char (sextet3 c)"
  "enc_char (push_bit 4 (push_bit 8 v OR ucast a)) 0 = sextet_char (sextet1 a 0)"
  "enc_char (push_bit 2 (push_bit 8 v OR ucast b)) 0 = sextet_char (sextet2 b 0)"
  by (rule enc_char_eq; rule bit_word_eqI;
      auto simp: sextets and_63 bit_simps dest: bit_imp_le_length)+

lemma put_char_room: "put_char n out c = (if length out < n then Some (out @ [c]) else None)"
  by (simp add: put_char_def)

declare enc_drain.simps [simp del] enc_pad.simps [simp del] push_bit_or [simp del] push_bit_push_bit [simp del]

lemma enc_drain_steps:
  "rem < 6 \<Longrightarrow> enc_drain n v rem out = Some (rem, out)"
  "6 \<le> rem \<Longrightarrow> enc_drain n v rem out =
     (if length out < n then enc_drain n v (rem - 6) (out @ [enc_char v (rem - 6)]) else None)"
  by (subst enc_drain.simps, simp add: put_char_room)+

lemma enc_bytes_3:
  "\<exists>v'. enc_bytes n v 0 out (a # b # c # bs) =
     (if length out + 4 \<le> n
      then enc_bytes n v' 0 (out @ [sextet_char (sextet0 a), sextet_char (sextet1 a b),
             sextet_char (sextet2 b c), sextet_char (sextet3 c)]) bs
      else None)"
  by (rule exI [of _ "push_bit 8 (push_bit 8 (push_bit 8 v OR ucast a) OR ucast b) OR ucast c"])
    (auto simp: enc_drain_steps enc_sextets Let_def)

definition enc_finish :: "nat \<Rightarrow> (32 word \<times> nat \<times> string) option \<Rightarrow> string option" where
  "enc_finish n r = (case r of None \<Rightarrow> None
      | Some (v, rem, out) \<Rightarrow>
        (case (if rem \<noteq> 0 then put_char n out (enc_char (push_bit (6 - rem) v) 0) else Some out) of
           None \<Rightarrow> None
         | Some out \<Rightarrow>
           (case enc_pad n out of None \<Rightarrow> None
            | Some out \<Rightarrow> if length out \<ge> n then None else Some out)))"

lemma enc_pad_room:
  assumes "length out mod 4 = 0"
  shows "enc_pad n out = Some out"
    "enc_pad n (out @ [x, y, z]) = (if length out + 4 \<le> n then Some (out @ [x, y, z, CHR ''='']) else None)"
    "enc_pad n (out @ [x, y]) = (if length out + 4 \<le> n then Some (out @ [x, y, CHR ''='', CHR ''='']) else None)"
proof -
  have m: "(length out + 4) mod 4 = 0" "(length out + 3) mod 4 = 3" "(length out + 2) mod 4 = 2"
    using assms by presburger+
  show 0: "enc_pad n out = Some out" using assms by (subst enc_pad.simps) simp
  have 4: "enc_pad n (out @ [x, y, z, c]) = Some (out @ [x, y, z, c])" for z c
    using m(1) by (subst enc_pad.simps) simp
  show 3: "enc_pad n (out @ [x, y, z]) = (if length out + 4 \<le> n then Some (out @ [x, y, z, CHR ''='']) else None)" for z
    using m(2) by (subst enc_pad.simps) (simp add: put_char_room 4 add.commute)
  show "enc_pad n (out @ [x, y]) = (if length out + 4 \<le> n then Some (out @ [x, y, CHR ''='', CHR ''='']) else None)"
    using m(3) by (subst enc_pad.simps) (simp add: put_char_room 3 add.commute)
qed

lemma enc_finish_groups:
  "length out mod 4 = 0 \<Longrightarrow> enc_finish n (enc_bytes n v 0 out bs) =
     (if length (out @ b64_groups bs) < n then Some (out @ b64_groups bs) else None)"
proof (induction bs arbitrary: v out rule: b64_groups.induct)
  case 1
  then show ?case by (simp add: enc_finish_def enc_pad_room)
next
  case (2 a)
  then show ?case
    by (simp add: enc_finish_def put_char_room enc_drain_steps enc_sextets enc_pad_room Let_def)
next
  case (3 a b)
  then show ?case
    by (simp add: enc_finish_def put_char_room enc_drain_steps enc_sextets enc_pad_room Let_def)
next
  case (4 a b c bs)
  obtain v' where e: "enc_bytes n v 0 out (a # b # c # bs) =
     (if length out + 4 \<le> n
      then enc_bytes n v' 0 (out @ [sextet_char (sextet0 a), sextet_char (sextet1 a b),
             sextet_char (sextet2 b c), sextet_char (sextet3 c)]) bs
      else None)"
    using enc_bytes_3 by blast
  show ?case
    using "4.IH" [of "out @ [sextet_char (sextet0 a), sextet_char (sextet1 a b),
             sextet_char (sextet2 b c), sextet_char (sextet3 c)]" v'] "4.prems"
    unfolding e by (auto simp: enc_finish_def)
qed

lemma base64_encode_groups:
  "base64_encode bs n = (if length (b64_groups bs) < n then Some (b64_groups bs) else None)"
  using enc_finish_groups [of "[]" n 0 bs] by (simp add: base64_encode_def enc_finish_def)

lemma length_b64_groups: "length (b64_groups bs) = 4 * ((length bs + 2) div 3)"
proof (induction bs rule: b64_groups.induct)
  case (4 a b c bs)
  have "(5 + n) div 3 = Suc ((2 + n) div 3)" for n :: nat by presburger
  then show ?case using "4.IH" by (simp add: add.commute)
qed simp_all

section \<open>Decoding an encoding\<close>

text \<open>The decoding table inverts the encoding table on sextets; padding has no entry there.\<close>

lemma dec_tab_enc:
  assumes "s < 64"
  shows "base64dec_tab ! code (base64enc_tab ! s) = Some s"
    "base64enc_tab ! s \<noteq> NUL \<and> base64enc_tab ! s \<noteq> CHR ''=''"
proof -
  have all: "list_all (\<lambda>s. base64dec_tab ! code (base64enc_tab ! s) = Some s \<and>
      base64enc_tab ! s \<noteq> NUL \<and> base64enc_tab ! s \<noteq> CHR ''='') [0..<64]"
    by code_simp
  have "s \<in> set [0..<64]" using assms by simp
  then show "base64dec_tab ! code (base64enc_tab ! s) = Some s"
    "base64enc_tab ! s \<noteq> NUL \<and> base64enc_tab ! s \<noteq> CHR ''=''"
    using all unfolding list_all_iff by blast+
qed

lemma sextet_bound: "unat (take_bit 6 (w :: 8 word)) < 64"
proof -
  have "unat (take_bit 6 w) = take_bit 6 (unat w)" by (simp add: unsigned_take_bit_eq)
  then show ?thesis by (simp add: take_bit_eq_mod)
qed

lemma sextets_bound [simp]:
  "unat (sextet0 a) < 64" "unat (sextet1 a b) < 64" "unat (sextet2 b c) < 64" "unat (sextet3 c) < 64"
proof -
  have "sextet0 a = take_bit 6 (sextet0 a)"
    by (rule bit_word_eqI) (auto simp: sextet0_def bit_simps dest: bit_imp_le_length)
  then show "unat (sextet0 a) < 64" by (metis sextet_bound)
qed (simp_all add: sextet1_def sextet2_def sextet3_def and_63 sextet_bound del: take_bit_or)

text \<open>Two to four characters give back one to three bytes, whatever is left in the buffer.\<close>

lemma dec_step:
  "unat s < 64 \<Longrightarrow> dec_chars n v rem out (sextet_char s # cs) =
    (let v = push_bit 6 v OR ucast s; rem = rem + 6 in
     if rem \<ge> 8
     then (if length out < n then dec_chars n v (rem - 8) (out @ [dec_byte v (rem - 8)]) cs
           else None)
     else dec_chars n v rem out cs)"
  using dec_tab_enc [of "unat s"] by (simp add: put_byte_def Let_def del: dec_chars.simps)
    (simp add: put_byte_def Let_def)

lemma byte_eqI:
  fixes a b :: "8 word"
  assumes "\<And>n. n \<in> {0, 1, 2, 3, 4, 5, 6, 7} \<Longrightarrow> bit a n = bit b n"
  shows "a = b"
proof (rule bit_word_eqI)
  fix n assume "n < LENGTH(8)"
  then have "n \<in> {0, 1, 2, 3, 4, 5, 6, 7}" by auto
  then show "bit a n = bit b n" by (rule assms)
qed

lemma bit_beyond: "8 \<le> n \<Longrightarrow> \<not> bit (a :: 8 word) n"
  by (auto dest: bit_imp_le_length)

lemma and_ff: "x AND 0xff = take_bit 8 x" for x :: "32 word"
  by (simp add: take_bit_eq_mask mask_eq_exp_minus_1)

lemma dec_bytes:
  fixes v :: "32 word"
  shows "dec_byte (push_bit 6 (push_bit 6 v OR ucast (sextet0 a)) OR ucast (sextet1 a b)) 4 = a"
    "dec_byte (push_bit 6 (push_bit 6 v OR ucast (sextet1 a b)) OR ucast (sextet2 b c)) 2 = b"
    "dec_byte (push_bit 6 (push_bit 6 v OR ucast (sextet2 b c)) OR ucast (sextet3 c)) 0 = c"
  by (rule byte_eqI; elim insertE emptyE;
      simp add: dec_byte_def and_ff sextets and_63 bit_simps bit_beyond)+

declare dec_chars.simps(2) [simp del]

lemma dec_chars_3:
  "\<exists>v'. dec_chars n v 0 out (sextet_char (sextet0 a) # sextet_char (sextet1 a b) #
       sextet_char (sextet2 b c) # sextet_char (sextet3 c) # cs) =
     (if length out + 3 \<le> n then dec_chars n v' 0 (out @ [a, b, c]) cs else None)"
  by (rule exI) (auto simp: dec_step Let_def dec_bytes)

lemma dec_chars_end:
  "dec_chars n v rem out (CHR ''='' # cs) = Some (v, rem, out)"
  by (simp add: dec_chars.simps)

lemma dec_groups:
  "length out \<le> n \<Longrightarrow> map_option (\<lambda>(v, rem, out). (rem < 8, out)) (dec_chars n v0 0 out (b64_groups bs)) =
     (if length (out @ bs) \<le> n then Some (True, out @ bs) else None)"
proof (induction bs arbitrary: v0 out rule: b64_groups.induct)
  case (4 a b c bs)
  obtain v' where d: "dec_chars n v0 0 out (b64_groups (a # b # c # bs)) =
     (if length out + 3 \<le> n then dec_chars n v' 0 (out @ [a, b, c]) (b64_groups bs) else None)"
    using dec_chars_3 unfolding b64_groups.simps by blast
  show ?case using "4.IH" [of "out @ [a, b, c]" v'] unfolding d by auto
qed (auto simp: dec_step Let_def dec_bytes dec_chars_end)

lemma base64_decode_groups:
  "base64_decode (b64_groups bs) n = (if length bs \<le> n then Some bs else None)"
  using dec_groups [of "[]" n 0 bs] by (auto simp: base64_decode_def split: if_splits option.splits)

text \<open>
  C20. Decoding what \<open>base64_encode\<close> wrote gives back the bytes when the output buffer holds them,
  and -1 when it does not.
\<close>

theorem base64_roundtrip:
  assumes "base64_encode bs out_len = Some s"
  shows "base64_decode s out_size = (if length bs \<le> out_size then Some bs else None)"
  using assms by (auto simp: base64_encode_groups base64_decode_groups split: if_splits)

theorem base64_roundtrip_witness:
  "base64_decode ''Zm9vYg=='' 4 = Some [0x66, 0x6f, 0x6f, 0x62]"
proof -
  have "base64_encode [0x66, 0x6f, 0x6f, 0x62] 9 = Some ''Zm9vYg==''" by code_simp
  from base64_roundtrip [OF this, of 4] show ?thesis by simp
qed

text \<open>
  \<open>base64_encode\<close> needs four characters for every three bytes begun and one for the NUL: with a
  buffer that has less it fails, else the result is that long, so it never writes beyond the buffer.
\<close>

theorem base64_encode_room:
  "case base64_encode bs out_len of
     None \<Rightarrow> out_len \<le> 4 * ((length bs + 2) div 3)
   | Some s \<Rightarrow> length s = 4 * ((length bs + 2) div 3) \<and> length s < out_len"
  by (auto simp: base64_encode_groups length_b64_groups)

end
