(* ===== verification/Sha2.thy ===== *)
theory Sha2
  imports Prelude "HOL-Library.While_Combinator"
begin

text \<open>
  SHA-224, SHA-256, SHA-384 and SHA-512 (\<open>lib/util/sha2.c\<close>) and their table
  (\<open>lib/util/digest.c\<close>). Bytes are 8-bit words. The macros of the two word sizes are the same text
  with other rotations and constants, which are a record here; \<open>T\<close> and \<open>W\<close> are arrays of 8 and 16
  words that the rounds index modulo their length.
\<close>

unbundle bit_operations_syntax

section \<open>Bytes and words\<close>

definition be8_to_32 :: "8 word list \<Rightarrow> 32 word" where
  "be8_to_32 y =
     push_bit 24 (ucast (y ! 0)) OR push_bit 16 (ucast (y ! 1)) OR push_bit 8 (ucast (y ! 2)) OR ucast (y ! 3)"

definition be8_to_64 :: "8 word list \<Rightarrow> 64 word" where
  "be8_to_64 y =
     push_bit 56 (ucast (y ! 0)) OR push_bit 48 (ucast (y ! 1)) OR push_bit 40 (ucast (y ! 2)) OR
     push_bit 32 (ucast (y ! 3)) OR push_bit 24 (ucast (y ! 4)) OR push_bit 16 (ucast (y ! 5)) OR
     push_bit 8 (ucast (y ! 6)) OR ucast (y ! 7)"

definition be32_to_8 :: "32 word \<Rightarrow> 8 word list" where
  "be32_to_8 y = map (\<lambda>n. ucast (drop_bit n y AND 255)) [24, 16, 8, 0]"

definition be64_to_8 :: "64 word \<Rightarrow> 8 word list" where
  "be64_to_8 y = map (\<lambda>n. ucast (drop_bit n y AND 255)) [56, 48, 40, 32, 24, 16, 8, 0]"

text \<open>\<open>memcpy(&buffer[j], data, len)\<close>\<close>

definition memcpy_at :: "nat \<Rightarrow> 'a list \<Rightarrow> 'a list \<Rightarrow> 'a list" where
  "memcpy_at j data buffer = take j buffer @ data @ drop (j + length data) buffer"

section \<open>Rounds\<close>

definition rotr_fixed :: "'a::len word \<Rightarrow> nat \<Rightarrow> 'a word" where
  "rotr_fixed x y = (if y \<noteq> 0 then drop_bit y x OR push_bit (LENGTH('a) - y) x else x)"

record 'w sha_fns =
  sg_S0 :: "'w \<Rightarrow> 'w"
  sg_S1 :: "'w \<Rightarrow> 'w"
  sg_s0 :: "'w \<Rightarrow> 'w"
  sg_s1 :: "'w \<Rightarrow> 'w"
  sg_K :: "'w list"

definition sha_Ch :: "'a::len word \<Rightarrow> 'a word \<Rightarrow> 'a word \<Rightarrow> 'a word" where
  "sha_Ch x y z = (z XOR (x AND (y XOR z)))"

definition sha_Maj :: "'a::len word \<Rightarrow> 'a word \<Rightarrow> 'a word \<Rightarrow> 'a word" where
  "sha_Maj x y z = (y XOR ((x XOR y) AND (y XOR z)))"

text \<open>The index of \<open>a(i)\<close>, ..., \<open>h(i)\<close> (k = 0, ..., 7): \<open>(k - i) & 7\<close> in unsigned arithmetic.\<close>

definition reg :: "nat \<Rightarrow> nat \<Rightarrow> nat" where
  "reg k i = (k + 8 - i mod 8) mod 8"

definition blk2 :: "'a::len word sha_fns \<Rightarrow> nat \<Rightarrow> 'a word list \<Rightarrow> 'a word" where
  "blk2 fn i W = W ! (i mod 16) + (sg_s1 fn (W ! ((i + 14) mod 16)) + W ! ((i + 9) mod 16) + sg_s0 fn (W ! ((i + 1) mod 16)))"

text \<open>The macro \<open>R(i)\<close> on \<open>T\<close> and \<open>W\<close> in the loop over \<open>j\<close>.\<close>

definition sha_R :: "'a::len word sha_fns \<Rightarrow> nat \<Rightarrow> nat \<Rightarrow> 'a word list \<times> 'a word list \<Rightarrow> 'a word list \<times> 'a word list" where
  "sha_R fn j i = (\<lambda>(T, W).
     (let W = (if j \<noteq> 0 then W[i mod 16 := blk2 fn i W] else W);
          T = T[reg 7 i := T ! reg 7 i +
                (sg_S1 fn (T ! reg 4 i) + sha_Ch (T ! reg 4 i) (T ! reg 5 i) (T ! reg 6 i) + sg_K fn ! (i + j) + W ! (i mod 16))];
          T = T[reg 3 i := T ! reg 3 i + T ! reg 7 i];
          T = T[reg 7 i := T ! reg 7 i +
                (sg_S0 fn (T ! reg 0 i) + sha_Maj (T ! reg 0 i) (T ! reg 1 i) (T ! reg 2 i))]
      in (T, W)))"

definition sha_rounds :: "'a::len word sha_fns \<Rightarrow> nat \<Rightarrow> 'a word list \<times> 'a word list \<Rightarrow> 'a word list \<times> 'a word list" where
  \<comment> \<open>\<open>for (j = 0; j < 16 * n; j += 16) { R(0); ...; R(15); }\<close>\<close>
  "sha_rounds fn n TW = fold (\<lambda>j. fold (sha_R fn (16 * j)) [0..<16]) [0..<n] TW"

definition sha_transform :: "'a::len word sha_fns \<Rightarrow> nat \<Rightarrow> (8 word list \<Rightarrow> 'a word) \<Rightarrow> nat \<Rightarrow> 'a word list \<Rightarrow> 8 word list \<Rightarrow> 'a word list" where
  "sha_transform fn n be sz state data =
     (let W = map (\<lambda>j. be (take sz (drop (sz * j) data))) [0..<16];
          (T, W) = sha_rounds fn n (state, W)
      in map (\<lambda>k. state ! k + T ! reg k 0) [0..<8])"

section \<open>SHA-256 and SHA-224\<close>

definition sha256_K :: "32 word list" where
  "sha256_K = [
    0x428a2f98, 0x71374491, 0xb5c0fbcf, 0xe9b5dba5, 0x3956c25b, 0x59f111f1,
    0x923f82a4, 0xab1c5ed5, 0xd807aa98, 0x12835b01, 0x243185be, 0x550c7dc3,
    0x72be5d74, 0x80deb1fe, 0x9bdc06a7, 0xc19bf174, 0xe49b69c1, 0xefbe4786,
    0x0fc19dc6, 0x240ca1cc, 0x2de92c6f, 0x4a7484aa, 0x5cb0a9dc, 0x76f988da,
    0x983e5152, 0xa831c66d, 0xb00327c8, 0xbf597fc7, 0xc6e00bf3, 0xd5a79147,
    0x06ca6351, 0x14292967, 0x27b70a85, 0x2e1b2138, 0x4d2c6dfc, 0x53380d13,
    0x650a7354, 0x766a0abb, 0x81c2c92e, 0x92722c85, 0xa2bfe8a1, 0xa81a664b,
    0xc24b8b70, 0xc76c51a3, 0xd192e819, 0xd6990624, 0xf40e3585, 0x106aa070,
    0x19a4c116, 0x1e376c08, 0x2748774c, 0x34b0bcb5, 0x391c0cb3, 0x4ed8aa4a,
    0x5b9cca4f, 0x682e6ff3, 0x748f82ee, 0x78a5636f, 0x84c87814, 0x8cc70208,
    0x90befffa, 0xa4506ceb, 0xbef9a3f7, 0xc67178f2]"

definition sha256_fns :: "32 word sha_fns" where
  "sha256_fns = \<lparr>sg_S0 = (\<lambda>x. rotr_fixed x 2 XOR rotr_fixed x 13 XOR rotr_fixed x 22),
     sg_S1 = (\<lambda>x. rotr_fixed x 6 XOR rotr_fixed x 11 XOR rotr_fixed x 25),
     sg_s0 = (\<lambda>x. rotr_fixed x 7 XOR rotr_fixed x 18 XOR drop_bit 3 x),
     sg_s1 = (\<lambda>x. rotr_fixed x 17 XOR rotr_fixed x 19 XOR drop_bit 10 x), sg_K = sha256_K\<rparr>"

definition sha256_transform :: "32 word list \<Rightarrow> 8 word list \<Rightarrow> 32 word list" where
  "sha256_transform = sha_transform sha256_fns 4 be8_to_32 4"

text \<open>\<open>SHA2_CTX\<close>: the union of the states as two fields, of which a context uses one.\<close>

record sha2_ctx =
  st32 :: "32 word list"
  st64 :: "64 word list"
  count0 :: "64 word"
  count1 :: "64 word"
  hbuffer :: "8 word list"

definition sha2_zero :: sha2_ctx where
  "sha2_zero = \<lparr>st32 = replicate 8 0, st64 = replicate 8 0, count0 = 0, count1 = 0, hbuffer = replicate 128 0\<rparr>"

definition sha224_init :: sha2_ctx where
  "sha224_init = sha2_zero\<lparr>st32 := [0xc1059ed8, 0x367cd507, 0x3070dd17, 0xf70e5939, 0xffc00b31, 0x68581511, 0x64f98fa7, 0xbefa4fa4]\<rparr>"

definition sha256_init :: sha2_ctx where
  "sha256_init = sha2_zero\<lparr>st32 := [0x6a09e667, 0xbb67ae85, 0x3c6ef372, 0xa54ff53a, 0x510e527f, 0x9b05688c, 0x1f83d9ab, 0x5be0cd19]\<rparr>"

text \<open>\<open>for (; i + B - 1 < len; i += B) transform(state, &data[i])\<close> on what is left of the data.\<close>

function hash_blocks :: "nat \<Rightarrow> ('s \<Rightarrow> 8 word list \<Rightarrow> 's) \<Rightarrow> 's \<Rightarrow> 8 word list \<Rightarrow> 's \<times> 8 word list" where
  "hash_blocks B tr st data =
     (if 0 < B \<and> B \<le> length data then hash_blocks B tr (tr st (take B data)) (drop B data) else (st, data))"
  by pat_completeness auto
termination
  by (relation "measure (\<lambda>(B, tr, st, data). length data)") auto

declare hash_blocks.simps [simp del]

definition sha256_update :: "8 word list \<Rightarrow> sha2_ctx \<Rightarrow> sha2_ctx" where
  "sha256_update data ctx =
     (let j = unat (drop_bit 3 (count0 ctx) AND 63);
          ctx = ctx\<lparr>count0 := count0 ctx + push_bit 3 (word_of_nat (length data))\<rparr>
      in if j + length data > 63
         then (let i = 64 - j;
                   buf = memcpy_at j (take i data) (hbuffer ctx);
                   st = sha256_transform (st32 ctx) (take 64 buf);
                   (st, rest) = hash_blocks 64 sha256_transform st (drop i data)
               in ctx\<lparr>st32 := st, hbuffer := memcpy_at 0 rest buf\<rparr>)
         else ctx\<lparr>hbuffer := memcpy_at j data (hbuffer ctx)\<rparr>)"

definition sha256_pad :: "sha2_ctx \<Rightarrow> sha2_ctx option" where
  "sha256_pad ctx =
     (let finalcount = be64_to_8 (count0 ctx);
          ctx = sha256_update [0x80] ctx
      in map_option (sha256_update finalcount)
           (while_option (\<lambda>ctx. count0 ctx AND 511 \<noteq> 448) (sha256_update [0]) ctx))"

definition sha256_final :: "sha2_ctx \<Rightarrow> 8 word list option" where
  "sha256_final ctx = map_option (\<lambda>ctx. concat (map be32_to_8 (st32 ctx))) (sha256_pad ctx)"

definition sha224_final :: "sha2_ctx \<Rightarrow> 8 word list option" where
  "sha224_final ctx = map_option (\<lambda>ctx. concat (map (\<lambda>i. be32_to_8 (st32 ctx ! i)) [0..<7])) (sha256_pad ctx)"

section \<open>SHA-512 and SHA-384\<close>

definition sha512_K :: "64 word list" where
  "sha512_K = [
    0x428a2f98d728ae22, 0x7137449123ef65cd, 0xb5c0fbcfec4d3b2f, 0xe9b5dba58189dbbc,
    0x3956c25bf348b538, 0x59f111f1b605d019, 0x923f82a4af194f9b, 0xab1c5ed5da6d8118,
    0xd807aa98a3030242, 0x12835b0145706fbe, 0x243185be4ee4b28c, 0x550c7dc3d5ffb4e2,
    0x72be5d74f27b896f, 0x80deb1fe3b1696b1, 0x9bdc06a725c71235, 0xc19bf174cf692694,
    0xe49b69c19ef14ad2, 0xefbe4786384f25e3, 0x0fc19dc68b8cd5b5, 0x240ca1cc77ac9c65,
    0x2de92c6f592b0275, 0x4a7484aa6ea6e483, 0x5cb0a9dcbd41fbd4, 0x76f988da831153b5,
    0x983e5152ee66dfab, 0xa831c66d2db43210, 0xb00327c898fb213f, 0xbf597fc7beef0ee4,
    0xc6e00bf33da88fc2, 0xd5a79147930aa725, 0x06ca6351e003826f, 0x142929670a0e6e70,
    0x27b70a8546d22ffc, 0x2e1b21385c26c926, 0x4d2c6dfc5ac42aed, 0x53380d139d95b3df,
    0x650a73548baf63de, 0x766a0abb3c77b2a8, 0x81c2c92e47edaee6, 0x92722c851482353b,
    0xa2bfe8a14cf10364, 0xa81a664bbc423001, 0xc24b8b70d0f89791, 0xc76c51a30654be30,
    0xd192e819d6ef5218, 0xd69906245565a910, 0xf40e35855771202a, 0x106aa07032bbd1b8,
    0x19a4c116b8d2d0c8, 0x1e376c085141ab53, 0x2748774cdf8eeb99, 0x34b0bcb5e19b48a8,
    0x391c0cb3c5c95a63, 0x4ed8aa4ae3418acb, 0x5b9cca4f7763e373, 0x682e6ff3d6b2b8a3,
    0x748f82ee5defb2fc, 0x78a5636f43172f60, 0x84c87814a1f0ab72, 0x8cc702081a6439ec,
    0x90befffa23631e28, 0xa4506cebde82bde9, 0xbef9a3f7b2c67915, 0xc67178f2e372532b,
    0xca273eceea26619c, 0xd186b8c721c0c207, 0xeada7dd6cde0eb1e, 0xf57d4f7fee6ed178,
    0x06f067aa72176fba, 0x0a637dc5a2c898a6, 0x113f9804bef90dae, 0x1b710b35131c471b,
    0x28db77f523047d84, 0x32caab7b40c72493, 0x3c9ebe0a15c9bebc, 0x431d67c49c100d4c,
    0x4cc5d4becb3e42b6, 0x597f299cfc657e2a, 0x5fcb6fab3ad6faec, 0x6c44198c4a475817]"

definition sha512_fns :: "64 word sha_fns" where
  "sha512_fns = \<lparr>sg_S0 = (\<lambda>x. rotr_fixed x 28 XOR rotr_fixed x 34 XOR rotr_fixed x 39),
     sg_S1 = (\<lambda>x. rotr_fixed x 14 XOR rotr_fixed x 18 XOR rotr_fixed x 41),
     sg_s0 = (\<lambda>x. rotr_fixed x 1 XOR rotr_fixed x 8 XOR drop_bit 7 x),
     sg_s1 = (\<lambda>x. rotr_fixed x 19 XOR rotr_fixed x 61 XOR drop_bit 6 x), sg_K = sha512_K\<rparr>"

definition sha512_transform :: "64 word list \<Rightarrow> 8 word list \<Rightarrow> 64 word list" where
  "sha512_transform = sha_transform sha512_fns 5 be8_to_64 8"

definition sha384_init :: sha2_ctx where
  "sha384_init = sha2_zero\<lparr>st64 := [
    0xcbbb9d5dc1059ed8, 0x629a292a367cd507, 0x9159015a3070dd17, 0x152fecd8f70e5939,
    0x67332667ffc00b31, 0x8eb44a8768581511, 0xdb0c2e0d64f98fa7, 0x47b5481dbefa4fa4]\<rparr>"

definition sha512_init :: sha2_ctx where
  "sha512_init = sha2_zero\<lparr>st64 := [
    0x6a09e667f3bcc908, 0xbb67ae8584caa73b, 0x3c6ef372fe94f82b, 0xa54ff53a5f1d36f1,
    0x510e527fade682d1, 0x9b05688c2b3e6c1f, 0x1f83d9abfb41bd6b, 0x5be0cd19137e2179]\<rparr>"

definition sha512_update :: "8 word list \<Rightarrow> sha2_ctx \<Rightarrow> sha2_ctx" where
  "sha512_update data ctx =
     (let j = unat (drop_bit 3 (count0 ctx) AND 127);
          bits = push_bit 3 (word_of_nat (length data));
          ctx = ctx\<lparr>count0 := count0 ctx + bits\<rparr>;
          ctx = (if count0 ctx < bits then ctx\<lparr>count1 := count1 ctx + 1\<rparr> else ctx)
      in if j + length data > 127
         then (let i = 128 - j;
                   buf = memcpy_at j (take i data) (hbuffer ctx);
                   st = sha512_transform (st64 ctx) (take 128 buf);
                   (st, rest) = hash_blocks 128 sha512_transform st (drop i data)
               in ctx\<lparr>st64 := st, hbuffer := memcpy_at 0 rest buf\<rparr>)
         else ctx\<lparr>hbuffer := memcpy_at j data (hbuffer ctx)\<rparr>)"

definition sha512_pad :: "sha2_ctx \<Rightarrow> sha2_ctx option" where
  "sha512_pad ctx =
     (let finalcount = be64_to_8 (count1 ctx) @ be64_to_8 (count0 ctx);
          ctx = sha512_update [0x80] ctx
      in map_option (sha512_update finalcount)
           (while_option (\<lambda>ctx. count0 ctx AND 1023 \<noteq> 896) (sha512_update [0]) ctx))"

definition sha512_final :: "sha2_ctx \<Rightarrow> 8 word list option" where
  "sha512_final ctx = map_option (\<lambda>ctx. concat (map be64_to_8 (st64 ctx))) (sha512_pad ctx)"

definition sha384_final :: "sha2_ctx \<Rightarrow> 8 word list option" where
  "sha384_final ctx = map_option (\<lambda>ctx. concat (map (\<lambda>i. be64_to_8 (st64 ctx ! i)) [0..<6])) (sha512_pad ctx)"

section \<open>The table of digests\<close>

record digest_function =
  df_len :: nat
  df_init :: sha2_ctx
  df_update :: "8 word list \<Rightarrow> sha2_ctx \<Rightarrow> sha2_ctx"
  df_final :: "sha2_ctx \<Rightarrow> 8 word list option"

definition digest_functions :: "digest_function list" where
  "digest_functions =
     [\<lparr>df_len = 28, df_init = sha224_init, df_update = sha256_update, df_final = sha224_final\<rparr>,
      \<lparr>df_len = 32, df_init = sha256_init, df_update = sha256_update, df_final = sha256_final\<rparr>,
      \<lparr>df_len = 48, df_init = sha384_init, df_update = sha512_update, df_final = sha384_final\<rparr>,
      \<lparr>df_len = 64, df_init = sha512_init, df_update = sha512_update, df_final = sha512_final\<rparr>]"

definition sudo_digest_alloc :: "nat \<Rightarrow> (digest_function \<times> sha2_ctx) option" where
  "sudo_digest_alloc digest_type =
     (if digest_type < length digest_functions
      then Some (digest_functions ! digest_type, df_init (digest_functions ! digest_type)) else None)"

definition sudo_digest_reset :: "digest_function \<times> sha2_ctx \<Rightarrow> digest_function \<times> sha2_ctx" where
  "sudo_digest_reset dig = (fst dig, df_init (fst dig))"

definition sudo_digest_getlen :: "nat \<Rightarrow> nat" where
  "sudo_digest_getlen digest_type =
     (if digest_type < length digest_functions then df_len (digest_functions ! digest_type) else 0)"

definition sudo_digest_update :: "8 word list \<Rightarrow> digest_function \<times> sha2_ctx \<Rightarrow> digest_function \<times> sha2_ctx" where
  "sudo_digest_update data dig = (fst dig, df_update (fst dig) data (snd dig))"

definition sudo_digest_final :: "digest_function \<times> sha2_ctx \<Rightarrow> 8 word list option" where
  "sudo_digest_final dig = df_final (fst dig) (snd dig)"

end
