(* ===== verification/Digest.thy ===== *)
theory Digest
  imports Files Base64 Sha2
begin

text \<open>
  Digests of commands: \<open>filedigest.c\<close> and \<open>match_digest.c\<close>. Running out of memory is
  not modelled.
\<close>

definition SUDO_DIGEST_INVALID :: nat where "SUDO_DIGEST_INVALID = 4"

definition c_open :: "file_system \<Rightarrow> string \<Rightarrow> open_result" where
  "c_open fs path = (if length path < PATH_MAX then fs_open fs path else OpenFailed)"

section \<open>The digest of a file\<close>

text \<open>The loop over \<open>fread\<close>, with a buffer of 32 KiB.\<close>

function digest_pieces_of :: "8 word list \<Rightarrow> digest_function \<times> sha2_ctx \<Rightarrow> digest_function \<times> sha2_ctx" where
  "digest_pieces_of data dig =
     (if data = [] then dig else digest_pieces_of (drop 32768 data) (sudo_digest_update (take 32768 data) dig))"
  by pat_completeness auto
termination digest_pieces_of
  by (relation "measure (length \<circ> fst)") auto

declare digest_pieces_of.simps [simp del]

text \<open>
  \<open>sudo_filedigest\<close>: the descriptor is duplicated, a stream is made of the duplicate and closed at the
  end, on every path. The descriptor is at the beginning of the file, to which the caller takes it back.
\<close>

definition sudo_filedigest :: "file_system \<Rightarrow> int \<Rightarrow> nat \<Rightarrow> match_state \<Rightarrow> 8 word list option \<times> match_state" where
  "sudo_filedigest fs fd digest_type s =
     (if sudo_digest_getlen digest_type = 0 then (None, s)
      else case fd_path s fd of None \<Rightarrow> (None, s)
      | Some path \<Rightarrow>
          if \<not> fs_dup fs path then (None, s)
          else let (fd2, s) = add_fd path s in
            if \<not> fs_fdopen fs path then (None, close_fd fd2 s)
            else case sudo_digest_alloc digest_type of None \<Rightarrow> (None, close_fd fd2 s)
            | Some dig \<Rightarrow>
                (let dig = digest_pieces_of (fs_content fs path) dig in
                 if fs_read_error fs path then (None, close_fd fd2 s)
                 else (sudo_digest_final dig, close_fd fd2 s)))"

section \<open>Comparing with the policy\<close>

text \<open>Two hexadecimal digits for every byte; None for \<open>bad_format\<close>.\<close>

fun hex_bytes :: "string \<Rightarrow> 8 word list option" where
  "hex_bytes (s0 # s1 # str) =
     (let h = sudo_hexchar s0 s1 in
      if h = -1 then None
      else case hex_bytes str of None \<Rightarrow> None | Some bs \<Rightarrow> Some (word_of_int h # bs))"
| "hex_bytes _ = Some []"

definition command_digest_bytes :: "string \<Rightarrow> nat \<Rightarrow> 8 word list option" where
  \<comment> \<open>the digest of the policy in binary, None when it is malformed\<close>
  "command_digest_bytes digest_str digest_len =
     (if length digest_str = digest_len * 2 then hex_bytes digest_str
      else case base64_decode digest_str digest_len of None \<Rightarrow> None
      | Some bs \<Rightarrow> if length bs \<noteq> digest_len then None else Some bs)"

text \<open>The loop over the digests: a malformed digest, or one the file has no digest for, ends it.\<close>

fun digest_loop :: "file_system \<Rightarrow> int \<Rightarrow> nat \<Rightarrow> 8 word list option \<Rightarrow> command_digest list \<Rightarrow> match_state \<Rightarrow>
    verdict \<times> match_state" where
  "digest_loop fs fd digest_type file_digest [] s = (DENY, s)"
| "digest_loop fs fd digest_type file_digest (digest # digests) s =
     (let (file_digest, s) = (if cd_type digest \<noteq> digest_type then sudo_filedigest fs fd (cd_type digest) s
                              else (file_digest, s));
          digest_type = cd_type digest
      in case file_digest of None \<Rightarrow> (DENY, s)
         | Some fdig \<Rightarrow>
             (case command_digest_bytes (cd_str digest) (sudo_digest_getlen digest_type) of
                None \<Rightarrow> (DENY, s)
              | Some sudoers_digest \<Rightarrow>
                  if fdig = sudoers_digest then (ALLOW, s) else digest_loop fs fd digest_type file_digest digests s))"

text \<open>
  \<open>digest_matches\<close>: without a descriptor it opens the path as it is given; the name below the
  chroot is only checked for its length (and named in the messages).
\<close>

definition digest_matches :: "file_system \<Rightarrow> int \<Rightarrow> string \<Rightarrow> string option \<Rightarrow> command_digest list \<Rightarrow>
    match_state \<Rightarrow> verdict \<times> match_state" where
  "digest_matches fs fd path runchroot digests s =
     (if digests = [] then (ALLOW, s)
      else if fd = -1 \<and> c_open fs path \<noteq> Opened then (DENY, s)
      else let
        (fd2, s) = (if fd = -1 then add_fd path s else (-1, s));
        fd = (if fd = -1 then fd2 else fd);
        (matched, s) = (if in_chroot runchroot path = None then (DENY, s)
                        else digest_loop fs fd SUDO_DIGEST_INVALID None digests s)
      in (matched, if fd2 \<noteq> -1 then close_fd fd2 s else s))"

end
