(* ===== verification/Regex.thy ===== *)
theory Regex
  imports Files
begin

text \<open>
  \<open>lib/util/regex.c\<close>: the checks made on a regular expression before it is given to \<open>regcomp(3)\<close>,
  which is \<open>fs_regcomp\<close>.
\<close>

text \<open>
  \<open>parse_num\<close>: the number, or -1 for one above \<open>INT_MAX\<close>, and where parsing stopped, which after
  an overflow is the digit that was too much.
\<close>


fun parse_num_from :: "int \<Rightarrow> string \<Rightarrow> int \<times> string" where
  "parse_num_from result [] = (result, [])"
| "parse_num_from result (ch # str) =
     (if ch = CHR 0x5C \<and> c_isdigit (c_at str)
      then (case str of [] \<Rightarrow> (result, ch # str)
            | ch # str \<Rightarrow>
               (let d = digit_val ch in
                if result > INT_MAX div 10 \<or> (result = INT_MAX div 10 \<and> d > INT_MAX mod 10) then (-1, ch # str)
                else parse_num_from (result * 10 + d) str))
      else if \<not> c_isdigit ch then (result, ch # str)
      else (let d = digit_val ch in
        if result > INT_MAX div 10 \<or> (result = INT_MAX div 10 \<and> d > INT_MAX mod 10) then (-1, ch # str)
        else parse_num_from (result * 10 + d) str))"

definition parse_num :: "string \<Rightarrow> int \<times> string" where
  "parse_num str = parse_num_from 0 str"

datatype regex_error = REG_OK | REG_BADRPT | REG_BADBR

definition repetition :: "char \<Rightarrow> bool" where
  \<comment> \<open>\<open>prev == '?' || prev == '*' || prev == '+' || prev == '{'\<close>\<close>
  "repetition prev \<longleftrightarrow> prev \<in> {CHR ''?'', CHR ''*'', CHR ''+'', CHR ''{''}"

text \<open>A bound after its brace: the two numbers and what follows. Without a comma \<open>b2\<close> is kept.\<close>

definition parse_bound :: "int \<Rightarrow> string \<Rightarrow> int \<times> int \<times> string" where
  "parse_bound b2 cp =
     (let (b1, ep) = parse_num cp;
          ep' = (if c_at ep = CHR 0x5C \<and> c_at (tl ep) = CHR '','' then tl ep else ep)
      in if c_at ep' = CHR '',''
         then (let (b2, ep) = parse_num (tl ep') in (b1, b2, ep))
         else (b1, b2, ep))"

lemma parse_num_from_length: "length (snd (parse_num_from r s)) \<le> length s"
proof (induction r s rule: parse_num_from.induct)
  case (2 r ch str)
  show ?case
  proof (cases "ch = CHR 0x5C \<and> c_isdigit (c_at str)")
    case True
    then obtain d t where "str = d # t" by (cases str) (auto simp: c_at_def)
    then show ?thesis using True 2(1) [OF True, of d t] by (auto simp: Let_def)
  next
    case False
    then show ?thesis using 2(2) [OF False] by (auto simp: Let_def)
  qed
qed simp

lemma parse_bound_length: "length (snd (snd (parse_bound b2 cp))) \<le> length cp"
proof -
  obtain b1 ep where p: "parse_num cp = (b1, ep)" by force
  have ep: "length ep \<le> length cp" using parse_num_from_length [of 0 cp] p by (simp add: parse_num_def)
  have t: "length (snd (parse_num (tl x))) \<le> length x" for x
    using parse_num_from_length [of 0 "tl x"] by (simp add: parse_num_def)
  have "length (snd (parse_num (tl ep))) \<le> length cp" "length (snd (parse_num (tl (tl ep)))) \<le> length cp"
    using ep t [of ep] t [of "tl ep"] by simp_all
  then show ?thesis using ep by (simp add: parse_bound_def p Let_def split_beta)
qed

text \<open>The loop over the pattern, with \<open>prev\<close> and \<open>b2\<close>.\<close>

function check_pattern_from :: "char \<Rightarrow> int \<Rightarrow> string \<Rightarrow> regex_error" where
  "check_pattern_from prev b2 [] = REG_OK"
| "check_pattern_from prev b2 (ch # cp) =
     (if ch = CHR 0x5C then
        (case cp of [] \<Rightarrow> check_pattern_from ch b2 []
         | _ # cp \<Rightarrow> check_pattern_from NUL b2 cp)
      else if ch = CHR ''?'' \<or> ch = CHR ''*'' \<or> ch = CHR ''+'' then
        (if repetition prev then REG_BADRPT else check_pattern_from ch b2 cp)
      else if ch = CHR ''{'' then
        (let (b1, b2, ep) = parse_bound b2 cp in
         if c_at ep = CHR ''}'' then
           (if b1 < 0 \<or> b1 > 255 \<or> b2 < 0 \<or> b2 > 255 then REG_BADBR
            else if repetition prev then REG_BADRPT
            else check_pattern_from ch b2 (tl ep))
         else check_pattern_from NUL b2 ep)
      else check_pattern_from ch b2 cp)"
  by pat_completeness auto
termination check_pattern_from
proof (relation "measure (\<lambda>(prev, b2, cp). length cp)", goal_cases)
  case (5 prev b2 ch cp x b1 y b2' ep)
  then have "parse_bound b2 cp = (b1, b2', ep)" by simp
  then have "length ep \<le> length cp" using parse_bound_length [of b2 cp] by simp
  then show ?case by simp
next
  case (6 prev b2 ch cp x b1 y b2' ep)
  then have "parse_bound b2 cp = (b1, b2', ep)" by simp
  then show ?case using parse_bound_length [of b2 cp] by simp
qed auto

declare check_pattern_from.simps(2) [simp del]

definition check_pattern :: "string \<Rightarrow> regex_error" where
  "check_pattern pattern = check_pattern_from NUL 0 pattern"

definition sudo_regex_compile :: "file_system \<Rightarrow> string \<Rightarrow> (string \<Rightarrow> bool) option" where
  "sudo_regex_compile fs pattern =
     (if length pattern > 1024 then None
      else let
        cp = (if c_at pattern = CHR ''^'' then tl pattern else pattern);
        icase = strncmp_eq cp ''(?i)'' 4;
        copy = drop 4 pattern;
        pattern = (if icase then (if c_at pattern = CHR ''^'' then CHR ''^'' # tl copy else copy) else pattern)
      in if check_pattern pattern = REG_OK then fs_regcomp fs pattern icase else None)"

end
