(* ===== verification/CommandMatch.thy ===== *)
theory CommandMatch
  imports Match Digest Regex
begin

text \<open>
  Matching the user's command with a command of the policy (\<open>match_command.c\<close>, with inodes, that
  is without \<open>SUDOERS_NAME_MATCH\<close>). The environment is a \<open>match_env\<close>; \<open>cmnd\<close> is
  \<open>ctx->user.cmnd\<close>, which is set. What changes is the \<open>match_state\<close>: the descriptors, the one
  kept for \<open>fexecve\<close>, the status and directory of the command and what the rule says of it.
  Descriptors carry the path they were opened at; \<open>FD_CLOEXEC\<close> is not modelled, nor is running
  out of memory. A command of the policy is not empty, and as everywhere strings
  are NUL free, so that \<open>=\<close> may stand for a comparison with \<open>strcmp\<close>.
\<close>

record match_env =
  me_sys :: system
  me_fs :: file_system
  me_perms :: "perm \<Rightarrow> file_system option"
  me_restored :: bool
  me_defs :: sudo_defs
  me_ctx :: sudo_context

section \<open>Arguments\<close>

definition regex_matches :: "file_system \<Rightarrow> string \<Rightarrow> string \<Rightarrow> verdict" where
  "regex_matches fs pattern str =
     (case sudo_regex_compile fs pattern of None \<Rightarrow> DENY
      | Some re \<Rightarrow> if re str then ALLOW else DENY)"

definition command_args_match :: "match_env \<Rightarrow> string \<Rightarrow> string option \<Rightarrow> verdict" where
  "command_args_match env sudoers_cmnd sudoers_args =
     (let user_args = user_cmnd_args (me_ctx env);
          args = (case user_args of Some a \<Rightarrow> a | None \<Rightarrow> [])
      in case sudoers_args of None \<Rightarrow> ALLOW
         | Some sargs \<Rightarrow>
             if strcmp [CHR 0x22, CHR 0x22] sargs = 0 then (if user_args \<noteq> None then DENY else ALLOW)
             else if c_at sargs = CHR ''^'' \<and> last sargs = CHR ''$'' then regex_matches (me_fs env) sargs args
             else if fs_fnmatch (me_fs env) sargs args (strcmp sudoers_cmnd ''sudoedit'' = 0) then ALLOW
             else DENY)"

section \<open>Opening the command\<close>

definition do_stat :: "file_system \<Rightarrow> match_state \<Rightarrow> int \<Rightarrow> string \<Rightarrow> string option \<Rightarrow> file_stat option" where
  "do_stat fs s fd path runchroot =
     (if fd \<noteq> -1 then (case fd_path s fd of None \<Rightarrow> None | Some p \<Rightarrow> c_stat fs p)
      else case in_chroot runchroot path of None \<Rightarrow> None | Some p \<Rightarrow> c_stat fs p)"

text \<open>A descriptor that could only be opened with \<open>O_EXEC\<close> cannot be read.\<close>

definition is_script :: "file_system \<Rightarrow> match_state \<Rightarrow> int \<Rightarrow> bool" where
  "is_script fs s fd \<longleftrightarrow>
     (case fd_path s fd of None \<Rightarrow> False
      | Some p \<Rightarrow> c_open fs p = Opened \<and> \<not> fs_read_error fs p \<and> take 2 (fs_content fs p) = [0x23, 0x21])"

text \<open>Whether it succeeds, and the descriptor or -1.\<close>

definition open_cmnd :: "match_env \<Rightarrow> string \<Rightarrow> string option \<Rightarrow> command_digest list \<Rightarrow> match_state \<Rightarrow>
    bool \<times> int \<times> match_state" where
  "open_cmnd env path runchroot digests s =
     (if def_fdexec (me_defs env) \<noteq> always \<and> digests = [] then (True, -1, s)
      else case in_chroot runchroot path of None \<Rightarrow> (False, -1, s)
      | Some path \<Rightarrow>
          (let opened = (case c_open (me_fs env) path of
                           Opened \<Rightarrow> True
                         | OpenEACCES \<Rightarrow> digests = [] \<and> fs_open_exec (me_fs env) path
                         | OpenFailed \<Rightarrow> False)
           in if opened then (let (fd, s) = add_fd path s in (True, fd, s)) else (False, -1, s)))"

definition close_if :: "int \<Rightarrow> match_state \<Rightarrow> match_state" where
  \<comment> \<open>\<open>if (fd != -1) close(fd)\<close>\<close>
  "close_if fd s = (if fd \<noteq> -1 then close_fd fd s else s)"

definition set_cmnd_fd :: "match_env \<Rightarrow> int \<Rightarrow> match_state \<Rightarrow> match_state" where
  "set_cmnd_fd env fd s =
     (let s = close_if (ms_execfd s) s;
          drop = (fd \<noteq> -1 \<and> (def_fdexec (me_defs env) = never \<or>
                   is_script (me_fs env) s fd \<and> \<not> fs_dev_fd (me_fs env) fd))
      in if drop then (close_fd fd s)\<lparr>ms_execfd := -1\<rparr> else s\<lparr>ms_execfd := fd\<rparr>)"

definition stat_agrees :: "match_state \<Rightarrow> file_stat \<Rightarrow> bool" where
  \<comment> \<open>\<open>user.cmnd_stat\<close> is NULL or names the same inode\<close>
  "stat_agrees s sb = (case ms_cmnd_stat s of None \<Rightarrow> True | Some c \<Rightarrow> same_file c sb)"

definition dir_agrees :: "file_system \<Rightarrow> match_state \<Rightarrow> string \<Rightarrow> bool" where
  \<comment> \<open>the canonical name of the directory is \<open>user.cmnd_dir\<close>, as far as both are known\<close>
  "dir_agrees fs s dir =
     (case ms_cmnd_dir s of None \<Rightarrow> True
      | Some d \<Rightarrow> (case canonical fs dir of None \<Rightarrow> True | Some resolved \<Rightarrow> strcmp resolved d = 0))"

definition parent_agrees :: "file_system \<Rightarrow> match_state \<Rightarrow> string \<Rightarrow> bool" where
  \<comment> \<open>the same for the directory of a path\<close>
  "parent_agrees fs s path =
     (case strrchr path (CHR ''/'') of None \<Rightarrow> True
      | Some slash \<Rightarrow> dir_agrees fs s (take (length path - length slash) path))"

definition ends_slash :: "string \<Rightarrow> bool" where
  \<comment> \<open>\<open>cp[dlen - 1] == '/'\<close>\<close>
  "ends_slash s \<longleftrightarrow> s \<noteq> [] \<and> last s = CHR ''/''"

section \<open>Directories and ALL\<close>

definition command_matches_dir :: "match_env \<Rightarrow> string \<Rightarrow> string option \<Rightarrow> command_digest list \<Rightarrow>
    match_state \<Rightarrow> verdict \<times> match_state" where
  "command_matches_dir env sudoers_dir runchroot digests s =
     (let fs = me_fs env; chrootlen = (case runchroot of None \<Rightarrow> 0 | Some r \<Rightarrow> length r) in
      case in_chroot runchroot sudoers_dir of None \<Rightarrow> (DENY, s)
      | Some sudoers_dir \<Rightarrow>
          if \<not> dir_agrees fs s sudoers_dir then (DENY, s)
          else let path = sudoers_dir @ ''/'' @ user_cmnd_base (me_ctx env) in
            if length path \<ge> PATH_MAX then (DENY, s)
            else let (opened, fd, s) = open_cmnd env path None digests s in
              if \<not> opened then (DENY, s)
              else case do_stat fs s fd path None of None \<Rightarrow> (DENY, close_if fd s)
              | Some sudoers_stat \<Rightarrow>
                  if \<not> stat_agrees s sudoers_stat then (DENY, close_if fd s)
                  else let (matched, s) = digest_matches fs fd path None digests s in
                    if matched \<noteq> ALLOW then (DENY, close_if fd s)
                    else (ALLOW, close_if fd (s\<lparr>ms_runas_cmnd := Some (drop chrootlen path)\<rparr>)))"

definition command_matches_all :: "match_env \<Rightarrow> string \<Rightarrow> string option \<Rightarrow> command_digest list \<Rightarrow>
    match_state \<Rightarrow> verdict \<times> match_state" where
  "command_matches_all env cmnd runchroot digests s =
     (let fs = me_fs env;
          slash = strchr cmnd (CHR ''/'') \<noteq> None;
          (opened, fd, s) = (if slash then open_cmnd env cmnd runchroot digests s else (True, -1, s))
      in if slash \<and> do_stat fs s fd cmnd runchroot \<noteq> None \<and> \<not> opened then (DENY, close_if fd s)
         else let (matched, s) = digest_matches fs fd cmnd runchroot digests s in
           if matched \<noteq> ALLOW then (DENY, close_if fd s) else (ALLOW, set_cmnd_fd env fd s))"

section \<open>Patterns\<close>

text \<open>
  The name that matches a pattern: the command as the user gave it, if it is absolute, else the
  one with the canonical directory.
\<close>

definition matched_name :: "match_env \<Rightarrow> (string \<Rightarrow> bool) \<Rightarrow> string \<Rightarrow> match_state \<Rightarrow> string option" where
  "matched_name env matches cmnd s =
     (if c_at cmnd = CHR ''/'' \<and> matches cmnd then Some cmnd
      else case ms_cmnd_dir s of None \<Rightarrow> None
      | Some dir \<Rightarrow>
          (let buf = dir @ ''/'' @ user_cmnd_base (me_ctx env) in
           if length buf \<ge> PATH_MAX then None else if matches buf then Some buf else None))"

text \<open>What \<open>command_matches_fnmatch\<close> and \<open>command_matches_regex\<close> do with that name.\<close>

definition check_matched :: "match_env \<Rightarrow> string \<Rightarrow> string option \<Rightarrow> string \<Rightarrow> string option \<Rightarrow>
    command_digest list \<Rightarrow> match_state \<Rightarrow> verdict \<times> match_state" where
  "check_matched env sudoers_cmnd sudoers_args cmnd runchroot digests s =
     (if command_args_match env sudoers_cmnd sudoers_args \<noteq> ALLOW then (DENY, s)
      else let fs = me_fs env; (opened, fd, s) = open_cmnd env cmnd runchroot digests s in
        if \<not> opened then (DENY, close_if fd s)
        else if do_stat fs s fd cmnd runchroot = None then (DENY, close_if fd s)
        else let (matched, s) = digest_matches fs fd cmnd runchroot digests s in
          if matched \<noteq> ALLOW then (DENY, close_if fd s) else (ALLOW, set_cmnd_fd env fd s))"

definition command_matches_fnmatch :: "match_env \<Rightarrow> string \<Rightarrow> string \<Rightarrow> string option \<Rightarrow> string option \<Rightarrow>
    command_digest list \<Rightarrow> match_state \<Rightarrow> verdict \<times> match_state" where
  "command_matches_fnmatch env cmnd sudoers_cmnd sudoers_args runchroot digests s =
     (case matched_name env (\<lambda>c. fs_fnmatch (me_fs env) sudoers_cmnd c True) cmnd s of None \<Rightarrow> (DENY, s)
      | Some c \<Rightarrow> check_matched env sudoers_cmnd sudoers_args c runchroot digests s)"

definition command_matches_regex :: "match_env \<Rightarrow> string \<Rightarrow> string \<Rightarrow> string option \<Rightarrow> string option \<Rightarrow>
    command_digest list \<Rightarrow> match_state \<Rightarrow> verdict \<times> match_state" where
  "command_matches_regex env cmnd sudoers_cmnd sudoers_args runchroot digests s =
     (case matched_name env (\<lambda>c. regex_matches (me_fs env) sudoers_cmnd c = ALLOW) cmnd s of None \<Rightarrow> (DENY, s)
      | Some c \<Rightarrow> check_matched env sudoers_cmnd sudoers_args c runchroot digests s)"

section \<open>Globbing\<close>

text \<open>
  How a loop over the names leaves: at the end of the list, by \<open>goto done\<close> with the name or NULL,
  or with the answer of a directory.
\<close>

datatype glob_exit = GlobEnd | GlobDone "string option" | GlobDir

text \<open>The loop for an exact match, with the descriptor of the last round and \<open>bad_digest\<close>.\<close>

fun glob_exact :: "match_env \<Rightarrow> string \<Rightarrow> string option \<Rightarrow> command_digest list \<Rightarrow> string list \<Rightarrow>
    int \<Rightarrow> bool \<Rightarrow> match_state \<Rightarrow> glob_exit \<times> int \<times> bool \<times> match_state" where
  "glob_exact env cmnd runchroot digests [] fd bad_digest s = (GlobEnd, fd, bad_digest, s)"
| "glob_exact env cmnd runchroot digests (cp # ap) fd bad_digest s =
     (let fs = me_fs env;
          s = close_if fd s;
          cp = drop (case runchroot of None \<Rightarrow> 0 | Some r \<Rightarrow> length r) cp
      in if cp \<noteq> cmnd then glob_exact env cmnd runchroot digests ap (-1) bad_digest s
         else let (opened, fd, s) = open_cmnd env cp runchroot digests s in
           if \<not> opened then glob_exact env cmnd runchroot digests ap fd bad_digest s
           else case do_stat fs s fd cp runchroot of
                  None \<Rightarrow> glob_exact env cmnd runchroot digests ap fd bad_digest s
                | Some sudoers_stat \<Rightarrow>
                    if stat_agrees s sudoers_stat then
                      (let (matched, s) = digest_matches fs fd cp runchroot digests s in
                       if matched \<noteq> ALLOW then glob_exact env cmnd runchroot digests ap fd True s
                       else (GlobDone (Some cp), fd, bad_digest, s\<lparr>ms_runas_cmnd := Some cp\<rparr>))
                    else (GlobDone None, fd, bad_digest, s))"

fun glob_names :: "match_env \<Rightarrow> string option \<Rightarrow> command_digest list \<Rightarrow> string list \<Rightarrow>
    int \<Rightarrow> match_state \<Rightarrow> glob_exit \<times> int \<times> match_state" where
  "glob_names env runchroot digests [] fd s = (GlobEnd, fd, s)"
| "glob_names env runchroot digests (cp # ap) fd s =
     (let fs = me_fs env;
          s = close_if fd s;
          cp = drop (case runchroot of None \<Rightarrow> 0 | Some r \<Rightarrow> length r) cp
      in if ends_slash cp then
           (let (matched, s) = command_matches_dir env cp runchroot digests s in
            if matched = ALLOW then (GlobDir, -1, s) else glob_names env runchroot digests ap (-1) s)
         else if strcmp (user_cmnd_base (me_ctx env)) (sudo_basename cp) \<noteq> 0
         then glob_names env runchroot digests ap (-1) s
         else if \<not> parent_agrees fs s cp then glob_names env runchroot digests ap (-1) s
         else let (opened, fd, s) = open_cmnd env cp runchroot digests s in
           if \<not> opened then glob_names env runchroot digests ap fd s
           else case do_stat fs s fd cp runchroot of
                  None \<Rightarrow> glob_names env runchroot digests ap fd s
                | Some sudoers_stat \<Rightarrow>
                    if stat_agrees s sudoers_stat then
                      (let (matched, s) = digest_matches fs fd cp runchroot digests s in
                       if matched \<noteq> ALLOW then glob_names env runchroot digests ap fd s
                       else (GlobDone (Some cp), fd, s\<lparr>ms_runas_cmnd := Some cp\<rparr>))
                    else glob_names env runchroot digests ap fd s)"

definition command_matches_glob :: "match_env \<Rightarrow> string \<Rightarrow> string \<Rightarrow> string option \<Rightarrow> string option \<Rightarrow>
    command_digest list \<Rightarrow> match_state \<Rightarrow> verdict \<times> match_state" where
  "command_matches_glob env cmnd sudoers_cmnd sudoers_args runchroot digests s =
     (case in_chroot runchroot sudoers_cmnd of None \<Rightarrow> (DENY, s)
      | Some sudoers_cmnd \<Rightarrow>
        (let base = sudo_basename sudoers_cmnd in
         if \<not> ends_slash sudoers_cmnd \<and> \<not> has_meta base \<and> strcmp (user_cmnd_base (me_ctx env)) base \<noteq> 0
         then (DENY, s)
         else case fs_glob (me_fs env) sudoers_cmnd of None \<Rightarrow> (DENY, s)
         | Some pathv \<Rightarrow>
             if pathv = [] then (DENY, s)
             else let
               (exit, fd, bad_digest, s) =
                 (if c_at cmnd = CHR ''/'' then glob_exact env cmnd runchroot digests pathv (-1) False s
                  else (GlobEnd, -1, False, s));
               (exit, fd, s) =
                 (if exit = GlobEnd \<and> \<not> bad_digest then glob_names env runchroot digests pathv fd s
                  else (exit, fd, s))
             in case exit of
                  GlobDir \<Rightarrow> (ALLOW, s)
                | GlobDone (Some cp) \<Rightarrow>
                    if command_args_match env sudoers_cmnd sudoers_args = ALLOW
                    then (ALLOW, set_cmnd_fd env fd s) else (DENY, close_if fd s)
                | _ \<Rightarrow> (DENY, close_if fd s)))"

section \<open>Plain commands\<close>

definition command_matches_normal :: "match_env \<Rightarrow> string \<Rightarrow> string \<Rightarrow> string option \<Rightarrow> string option \<Rightarrow>
    command_digest list \<Rightarrow> match_state \<Rightarrow> verdict \<times> match_state" where
  "command_matches_normal env cmnd sudoers_cmnd sudoers_args runchroot digests s =
     (let fs = me_fs env in
      if ends_slash sudoers_cmnd then command_matches_dir env sudoers_cmnd runchroot digests s
      else if strcmp (user_cmnd_base (me_ctx env)) (sudo_basename sudoers_cmnd) \<noteq> 0 then (DENY, s)
      else if ms_cmnd_dir s \<noteq> None \<and>
              (case strrchr sudoers_cmnd (CHR ''/'') of None \<Rightarrow> False
               | Some slash \<Rightarrow> length sudoers_cmnd - length slash \<ge> PATH_MAX)
      then (DENY, s)
      else if \<not> parent_agrees fs s sudoers_cmnd then (DENY, s)
      else let (opened, fd, s) = open_cmnd env sudoers_cmnd runchroot digests s in
        if \<not> opened then (DENY, close_if fd s)
        else let same =
            (case (ms_cmnd_stat s, do_stat fs s fd sudoers_cmnd runchroot) of
               (Some user_stat, Some sudoers_stat) \<Rightarrow> same_file user_stat sudoers_stat
             | _ \<Rightarrow> strcmp cmnd sudoers_cmnd = 0)
          in if \<not> same then (DENY, close_if fd s)
             else if command_args_match env sudoers_cmnd sudoers_args \<noteq> ALLOW then (DENY, close_if fd s)
             else let (matched, s) = digest_matches fs fd sudoers_cmnd runchroot digests s in
               if matched \<noteq> ALLOW then (DENY, close_if fd s)
               else (ALLOW, set_cmnd_fd env fd (s\<lparr>ms_runas_cmnd := Some sudoers_cmnd\<rparr>)))"

section \<open>The dispatch\<close>

definition command_dispatch :: "match_env \<Rightarrow> string \<Rightarrow> string option \<Rightarrow> string option \<Rightarrow> string option \<Rightarrow>
    command_digest list \<Rightarrow> match_state \<Rightarrow> verdict \<times> match_state" where
  "command_dispatch env cmnd sudoers_cmnd sudoers_args runchroot digests s =
     (case sudoers_cmnd of None \<Rightarrow> command_matches_all env cmnd runchroot digests s
      | Some sc \<Rightarrow>
          if c_at sc = CHR ''^'' then command_matches_regex env cmnd sc sudoers_args runchroot digests s
          else if c_at sc \<noteq> CHR ''/'' then
            (if (strcmp sc ''list'' = 0 \<or> strcmp sc ''sudoedit'' = 0) \<and> strcmp cmnd sc = 0 \<and>
                command_args_match env sc sudoers_args = ALLOW
             then (ALLOW, s) else (DENY, s))
          else if has_meta sc then
            (if def_fast_glob (me_defs env)
             then command_matches_fnmatch env cmnd sc sudoers_args runchroot digests s
             else command_matches_glob env cmnd sc sudoers_args runchroot digests s)
          else command_matches_normal env cmnd sc sudoers_args runchroot digests s)"

definition find_code :: "find_status \<Rightarrow> int" where
  "find_code st = (case st of FOUND \<Rightarrow> 0 | NOT_FOUND \<Rightarrow> 1 | NOT_FOUND_DOT \<Rightarrow> 2 | NOT_FOUND_ERROR \<Rightarrow> 3)"

text \<open>
  \<open>command_matches\<close>. A chroot of the rule looks the command up again and afterwards gives back
  \<open>user.cmnd\<close> and \<open>user.cmnd_stat\<close> when the command was found there, but not \<open>user.cmnd_dir\<close>.
\<close>

definition rule_chroot_enter :: "match_env \<Rightarrow> string \<Rightarrow> string \<Rightarrow> match_state \<Rightarrow> find_status \<times> string \<times> match_state" where
  "rule_chroot_enter env cmnd r s =
     (let (status, cmnd_out, s) =
            set_cmnd_path (me_sys env) (me_perms env) (me_restored env) (me_fs env) (me_defs env)
              (me_ctx env) (Some r) s
      in (status,
          (case (status, cmnd_out) of (FOUND, Some c) \<Rightarrow> c | _ \<Rightarrow> cmnd),
          s\<lparr>ms_info := map_option (\<lambda>i. i\<lparr>ci_status := find_code status\<rparr>) (ms_info s)\<rparr>))"

definition rule_chroot_leave :: "find_status \<Rightarrow> string \<Rightarrow> file_stat option \<Rightarrow> match_state \<Rightarrow> match_state" where
  "rule_chroot_leave status cmnd saved_stat s =
     (if status \<noteq> FOUND then s
      else s\<lparr>ms_info := map_option (\<lambda>i. i\<lparr>ci_path := Some cmnd,
                 ci_stat := (case ms_cmnd_stat s of Some sb \<Rightarrow> sb | None \<Rightarrow> ci_stat i)\<rparr>) (ms_info s),
             ms_cmnd_stat := write_stat (ms_cmnd_stat s) saved_stat\<rparr>)"

definition command_matches :: "match_env \<Rightarrow> string \<Rightarrow> string option \<Rightarrow> string option \<Rightarrow> string option \<Rightarrow>
    command_digest list \<Rightarrow> match_state \<Rightarrow> verdict \<times> match_state" where
  "command_matches env cmnd sudoers_cmnd sudoers_args runchroot digests s =
     (case runas_chroot (me_ctx env) of
        Some user_chroot \<Rightarrow>
          (if (case runchroot of None \<Rightarrow> False
               | Some r \<Rightarrow> strcmp r ''*'' \<noteq> 0 \<and> strcmp r user_chroot \<noteq> 0)
           then (DENY, s)
           else command_dispatch env cmnd sudoers_cmnd sudoers_args (Some user_chroot) digests s)
      | None \<Rightarrow>
          (case runchroot of
             None \<Rightarrow>
               command_dispatch env cmnd sudoers_cmnd sudoers_args
                 (case def_runchroot (me_defs env) of None \<Rightarrow> None
                  | Some r \<Rightarrow> if strcmp r ''*'' \<noteq> 0 then Some r else None) digests s
           | Some r \<Rightarrow>
               (let saved_stat = ms_cmnd_stat s;
                    (status, cmnd, s) = rule_chroot_enter env cmnd r s;
                    (ret, s) = command_dispatch env cmnd sudoers_cmnd sudoers_args (Some r) digests s
                in (ret, rule_chroot_leave status cmnd saved_stat s))))"

text \<open>The command matcher of the lookup.\<close>

definition sudoers_matcher :: "match_env \<Rightarrow> string \<Rightarrow> command_matcher" where
  "sudoers_matcher env cmnd c runchroot s =
     command_matches env cmnd (sc_cmnd c) (sc_args c) runchroot (sc_digests c) s"

end
