(* ===== verification/Sha2Fips.thy ===== *)
theory Sha2Fips
  imports Sha2
begin

text \<open>
  The compression functions are those of FIPS 180-4: the code keeps the eight working variables in
  a ring and sixteen words of the message schedule in place; the standard shifts the variables and
  has the whole schedule.
\<close>

section \<open>The standard\<close>

definition fips_Ch :: "'a::len word \<Rightarrow> 'a word \<Rightarrow> 'a word \<Rightarrow> 'a word" where
  "fips_Ch x y z = ((x AND y) XOR (NOT x AND z))"

definition fips_Maj :: "'a::len word \<Rightarrow> 'a word \<Rightarrow> 'a word \<Rightarrow> 'a word" where
  "fips_Maj x y z = ((x AND y) XOR (x AND z) XOR (y AND z))"

fun fips_W :: "'a::len word sha_fns \<Rightarrow> (nat \<Rightarrow> 'a word) \<Rightarrow> nat \<Rightarrow> 'a word" where
  "fips_W fn M t =
     (if t < 16 then M t
      else sg_s1 fn (fips_W fn M (t - 2)) + fips_W fn M (t - 7) + sg_s0 fn (fips_W fn M (t - 15)) + fips_W fn M (t - 16))"

declare fips_W.simps [simp del]

definition fips_step :: "'a::len word sha_fns \<Rightarrow> (nat \<Rightarrow> 'a word) \<Rightarrow> nat \<Rightarrow> 'a word list \<Rightarrow> 'a word list" where
  "fips_step fn M t v =
     (let T1 = v ! 7 + sg_S1 fn (v ! 4) + fips_Ch (v ! 4) (v ! 5) (v ! 6) + sg_K fn ! t + fips_W fn M t;
          T2 = sg_S0 fn (v ! 0) + fips_Maj (v ! 0) (v ! 1) (v ! 2)
      in [T1 + T2, v ! 0, v ! 1, v ! 2, v ! 3 + T1, v ! 4, v ! 5, v ! 6])"

definition fips_compress :: "'a::len word sha_fns \<Rightarrow> nat \<Rightarrow> (8 word list \<Rightarrow> 'a word) \<Rightarrow> nat \<Rightarrow> 'a word list \<Rightarrow> 8 word list \<Rightarrow> 'a word list" where
  "fips_compress fn n be sz H block =
     (let M = (\<lambda>t. be (take sz (drop (sz * t) block)));
          v = fold (fips_step fn M) [0..<n] H
      in map (\<lambda>k. H ! k + v ! k) [0..<8])"

section \<open>Rounds in a ring\<close>

lemma sha_Ch_fips: "sha_Ch x y z = fips_Ch x y z"
  by (rule bit_word_eqI) (auto simp: sha_Ch_def fips_Ch_def bit_simps)

lemma sha_Maj_fips: "sha_Maj x y z = fips_Maj x y z"
  by (rule bit_word_eqI) (auto simp: sha_Maj_def fips_Maj_def bit_simps)

lemma reg_less [simp]: "reg k t < 8"
  by (simp add: reg_def)

lemma reg_cases:
  "list_all (\<lambda>m. list_all (\<lambda>k.
     (k + 8 - Suc m mod 8) mod 8 = (if k = 0 then (7 + 8 - m) mod 8 else (k - 1 + 8 - m) mod 8) \<and>
     list_all (\<lambda>k'. ((k + 8 - m) mod 8 = (k' + 8 - m) mod 8) = (k = k')) [0..<8]) [0..<8]) [0..<8]"
  by code_simp

lemma reg_eq_iff: "k < 8 \<Longrightarrow> k' < 8 \<Longrightarrow> reg k t = reg k' t \<longleftrightarrow> k = k'"
  using reg_cases unfolding list_all_iff reg_def by (auto simp: Ball_def)

lemma reg_Suc: "k < 8 \<Longrightarrow> reg k (Suc t) = (if k = 0 then reg 7 t else reg (k - 1) t)"
proof -
  assume k: "k < 8"
  have m: "t mod 8 \<in> set [0..<8]" "k \<in> set [0..<8]" using k by simp_all
  have "(k + 8 - Suc (t mod 8) mod 8) mod 8 =
      (if k = 0 then (7 + 8 - t mod 8) mod 8 else (k - 1 + 8 - t mod 8) mod 8)"
    using reg_cases m unfolding list_all_iff by blast
  then show ?thesis unfolding reg_def mod_Suc_eq .
qed

lemma reg_mod_16: "reg k (t mod 16) = reg k t"
proof -
  have "t mod 16 mod 8 = t mod 8" by (simp add: mod_mod_cancel)
  then show ?thesis by (simp add: reg_def)
qed

definition ring :: "nat \<Rightarrow> 'a list \<Rightarrow> 'a list \<Rightarrow> bool" where
  "ring t T v \<longleftrightarrow> length T = 8 \<and> length v = 8 \<and> (\<forall>k<8. T ! reg k t = v ! k)"

definition window :: "'a::len word sha_fns \<Rightarrow> (nat \<Rightarrow> 'a word) \<Rightarrow> nat \<Rightarrow> 'a word list \<Rightarrow> bool" where
  "window fn M t W \<longleftrightarrow> length W = 16 \<and> (\<forall>s. t \<le> s + 16 \<longrightarrow> s < max 16 t \<longrightarrow> W ! (s mod 16) = fips_W fn M s)"

lemma window_step:
  assumes "window fn M t W"
  defines "W' \<equiv> (if t div 16 \<noteq> 0 then W[t mod 16 := blk2 fn (t mod 16) W] else W)"
  shows "window fn M (Suc t) W' \<and> W' ! (t mod 16) = fips_W fn M t"
proof (cases "t < 16")
  case True
  then show ?thesis using assms by (auto simp: window_def)
next
  case False
  have w: "W ! (s mod 16) = fips_W fn M s" if "t \<le> s + 16" "s < t" for s
    using assms(1) that by (simp add: window_def)
  have i: "(t mod 16 + k) mod 16 = (t - l) mod 16" if "k + l = 16" for k l
  proof -
    have "t + k = (t - l) + 16" using False that by linarith
    then show ?thesis by (simp add: mod_add_left_eq del: add_diff_assoc2)
  qed
  have i': "(t mod 16 + 14) mod 16 = (t - 2) mod 16" "(t mod 16 + 9) mod 16 = (t - 7) mod 16"
    "(t mod 16 + 1) mod 16 = (t - 15) mod 16" "(t mod 16 + 0) mod 16 = (t - 16) mod 16"
    by (rule i, simp)+
  have "blk2 fn (t mod 16) W = fips_W fn M t"
    unfolding blk2_def i' i'(4) [unfolded add_0_right]
    using False w [of "t - 2"] w [of "t - 7"] w [of "t - 15"] w [of "t - 16"]
    by (simp only: fips_W.simps [of fn M t] if_False not_less) (simp add: ac_simps)
  then have W': "W' = W[t mod 16 := fips_W fn M t]" using False by (simp add: W'_def div_eq_0_iff)
  have "W' ! (s mod 16) = fips_W fn M s" if "Suc t \<le> s + 16" "s < Suc t" for s
  proof (cases "s = t")
    case True
    then show ?thesis using assms(1) by (simp add: W' window_def)
  next
    case ne: False
    then have "t mod 16 \<noteq> s mod 16"
      using that mod_eq_dvd_iff_nat [of s t 16] dvd_imp_le [of 16 "t - s"] by auto
    then show ?thesis using w [of s] that ne by (simp add: W')
  qed
  then show ?thesis using assms(1) False by (auto simp: window_def W')
qed

lemma ring_step:
  assumes "ring t T v" "window fn M t W"
  shows "case sha_R fn (16 * (t div 16)) (t mod 16) (T, W) of (T', W') \<Rightarrow>
    ring (Suc t) T' (fips_step fn M t v) \<and> window fn M (Suc t) W'"
proof -
  let ?W = "if t div 16 \<noteq> 0 then W[t mod 16 := blk2 fn (t mod 16) W] else W"
  have W: "window fn M (Suc t) ?W" "?W ! (t mod 16) = fips_W fn M t"
    using window_step [OF assms(2)] by blast+
  have v: "T ! reg k t = v ! k" if "k < 8" for k using assms(1) that by (simp add: ring_def)
  have l: "length T = 8" using assms(1) by (simp add: ring_def)
  let ?h = "v ! 7 + (sg_S1 fn (v ! 4) + fips_Ch (v ! 4) (v ! 5) (v ! 6) + sg_K fn ! t + fips_W fn M t)"
  let ?T = "T[reg 7 t := ?h, reg 3 t := v ! 3 + ?h, reg 7 t := ?h + (sg_S0 fn (v ! 0) + fips_Maj (v ! 0) (v ! 1) (v ! 2))]"
  have t: "t mod 16 + 16 * (t div 16) = t" "16 * (t div 16) \<noteq> 0 \<longleftrightarrow> t div 16 \<noteq> 0" "t mod 16 mod 16 = t mod 16"
    by simp_all
  have R: "sha_R fn (16 * (t div 16)) (t mod 16) (T, W) = (?T, ?W)"
    unfolding sha_R_def prod.case Let_def t reg_mod_16 W(2) sha_Ch_fips sha_Maj_fips
    by (simp add: l v reg_eq_iff)
  have "?T ! reg k (Suc t) = fips_step fn M t v ! k" if "k < 8" for k
  proof -
    have "k \<in> {0, 1, 2, 3, 4, 5, 6, 7}" using that by auto
    then show ?thesis
      by (elim insertE emptyE) (simp_all add: reg_Suc reg_eq_iff l v fips_step_def Let_def ac_simps)
  qed
  then have "ring (Suc t) ?T (fips_step fn M t v)" by (simp add: ring_def l fips_step_def Let_def)
  then show ?thesis using W(1) unfolding R by blast
qed

lemma rounds_flat:
  "sha_rounds fn n TW = fold (\<lambda>t. sha_R fn (16 * (t div 16)) (t mod 16)) [0..<16 * n] TW"
proof (induction n)
  case (Suc n)
  have "[16 * n..<16 * n + 16] = map (\<lambda>i. 16 * n + i) [0..<16]"
    using map_add_upt [of "16 * n" 16] by (simp add: add.commute)
  moreover have "fold (\<lambda>t. sha_R fn (16 * (t div 16)) (t mod 16)) (map (\<lambda>i. 16 * n + i) [0..<16]) X =
      fold (sha_R fn (16 * n)) [0..<16] X" for X
    unfolding fold_map by (rule fold_cong) auto
  moreover have "[0..<16 * Suc n] = [0..<16 * n] @ [16 * n..<16 * n + 16]"
    using upt_add_eq_append [of 0 "16 * n" 16] by (simp add: add.commute)
  ultimately show ?case using Suc by (simp add: sha_rounds_def)
qed (simp add: sha_rounds_def)

lemma rounds_fips:
  assumes "length H = 8" "length W = 16" "\<And>t. t < 16 \<Longrightarrow> W ! t = M t"
  shows "case fold (\<lambda>t. sha_R fn (16 * (t div 16)) (t mod 16)) [0..<n] (H, W) of (T, W') \<Rightarrow>
    ring n T (fold (fips_step fn M) [0..<n] H) \<and> window fn M n W'"
proof (induction n)
  case 0
  have "W ! (s mod 16) = fips_W fn M s" if "s < 16" for s
    using that assms(3) by (simp add: fips_W.simps [of fn M s])
  then show ?case using assms by (auto simp: ring_def window_def reg_def)
next
  case (Suc n)
  obtain T W' where f: "fold (\<lambda>t. sha_R fn (16 * (t div 16)) (t mod 16)) [0..<n] (H, W) = (T, W')"
    by force
  show ?case using ring_step [of n T _ fn M] Suc by (simp add: f)
qed

lemma sha_transform_fips:
  assumes "length H = 8"
  shows "sha_transform fn n be sz H block = fips_compress fn (16 * n) be sz H block"
proof -
  let ?M = "\<lambda>t. be (take sz (drop (sz * t) block))"
  let ?W = "map ?M [0..<16]"
  obtain T W' where f: "sha_rounds fn n (H, ?W) = (T, W')" by force
  have "ring (16 * n) T (fold (fips_step fn ?M) [0..<16 * n] H)"
    using rounds_fips [OF assms, where W = ?W and M = ?M and fn = fn and n = "16 * n"] f unfolding rounds_flat by simp
  moreover have "reg k (16 * n) = reg k 0" for k
    using mod_mult_self1_is_0 [of 8 "2 * n"] by (simp add: reg_def)
  ultimately have "T ! reg k 0 = fold (fips_step fn ?M) [0..<16 * n] H ! k" if "k < 8" for k
    using that by (simp add: ring_def)
  then show ?thesis unfolding sha_transform_def fips_compress_def Let_def f prod.case
    by (intro map_cong refl) simp
qed

end
