(* ===== verification/Sha2Props.thy ===== *)
theory Sha2Props
  imports Sha2Fips
begin

text \<open>
  The digests are those of FIPS 180-4, for data given in any number of pieces. The buffer logic
  of the two update routines is shown once, in a locale of block hashes.
\<close>

section \<open>Buffering\<close>

lemma hash_blocks_short: "length xs < B \<Longrightarrow> hash_blocks B tr st xs = (st, xs)"
  by (simp add: hash_blocks.simps)

lemma hash_blocks_full:
  "0 < B \<Longrightarrow> length b = B \<Longrightarrow> hash_blocks B tr st (b @ xs) = hash_blocks B tr (tr st b) xs"
  by (subst hash_blocks.simps) simp

lemma hash_blocks_append:
  assumes "0 < B"
  shows "hash_blocks B tr st xs = (st', rest) \<Longrightarrow> hash_blocks B tr st (xs @ ys) = hash_blocks B tr st' (rest @ ys)"
proof (induction B tr st xs rule: hash_blocks.induct)
  case (1 B tr st xs)
  show ?case
  proof (cases "0 < B \<and> B \<le> length xs")
    case True
    then have "hash_blocks B tr (tr st (take B xs)) (drop B xs) = (st', rest)"
      using "1.prems" by (subst (asm) hash_blocks.simps) simp
    moreover have "hash_blocks B tr st (xs @ ys) = hash_blocks B tr (tr st (take B xs)) (drop B xs @ ys)"
      using True by (subst hash_blocks.simps) simp
    ultimately show ?thesis using "1.IH" [OF True] by simp
  next
    case False
    then show ?thesis using "1.prems" by (subst (asm) hash_blocks.simps) auto
  qed
qed

lemma hash_blocks_rest:
  "0 < B \<Longrightarrow> length (snd (hash_blocks B tr st xs)) = length xs mod B"
proof (induction B tr st xs rule: hash_blocks.induct)
  case (1 B tr st xs)
  show ?case
  proof (cases "B \<le> length xs")
    case True
    then show ?thesis using 1 by (subst hash_blocks.simps) (simp add: le_mod_geq)
  next
    case False
    then show ?thesis using 1 by (subst hash_blocks.simps) simp
  qed
qed

lemma memcpy_at_length: "j + length data \<le> length buf \<Longrightarrow> length (memcpy_at j data buf) = length buf"
  by (simp add: memcpy_at_def)

lemma memcpy_at_start: "take (length data) (memcpy_at 0 data buf) = data"
  by (simp add: memcpy_at_def)

text \<open>
  \<open>absorbed\<close>: the state and the first bytes of the buffer are what hashing the blocks of the message
  \<open>m\<close> leaves. \<open>buffer_update\<close> is what both update routines do with them.
\<close>

locale block_hash =
  fixes B :: nat and tr :: "'s \<Rightarrow> 8 word list \<Rightarrow> 's"
  assumes B_pos: "0 < B"
begin

definition absorbed :: "'s \<Rightarrow> 8 word list \<Rightarrow> 's \<Rightarrow> 8 word list \<Rightarrow> bool" where
  "absorbed iv m st buf \<longleftrightarrow> B \<le> length buf \<and> hash_blocks B tr iv m = (st, take (length m mod B) buf)"

definition buffer_update :: "nat \<Rightarrow> 8 word list \<Rightarrow> 's \<Rightarrow> 8 word list \<Rightarrow> 's \<times> 8 word list" where
  "buffer_update j data st buf =
     (if j + length data > B - 1
      then (let buf = memcpy_at j (take (B - j) data) buf;
                (st, rest) = hash_blocks B tr (tr st (take B buf)) (drop (B - j) data)
            in (st, memcpy_at 0 rest buf))
      else (st, memcpy_at j data buf))"

lemma absorbed_init: "B \<le> length buf \<Longrightarrow> absorbed iv [] iv buf"
  using B_pos by (simp add: absorbed_def hash_blocks_short)

lemma absorbed_update:
  assumes "absorbed iv m st buf" "buffer_update (length m mod B) data st buf = (st', buf')"
  shows "absorbed iv (m @ data) st' buf' \<and> length buf' = length buf"
proof -
  let ?j = "length m mod B"
  have j: "?j < B" "B \<le> length buf" using B_pos assms(1) by (simp_all add: absorbed_def)
  have h: "hash_blocks B tr iv (m @ data) = hash_blocks B tr st (take ?j buf @ data)"
    by (rule hash_blocks_append [OF B_pos]) (use assms(1) in \<open>simp add: absorbed_def\<close>)
  show ?thesis
  proof (cases "?j + length data > B - 1")
    case False
    then have s: "?j + length data < B" using B_pos by simp
    then have "hash_blocks B tr st (take ?j buf @ data) = (st, take ?j buf @ data)"
      using j by (intro hash_blocks_short) simp
    moreover have "(length m + length data) mod B = ?j + length data"
      using s by (metis mod_add_left_eq mod_less)
    ultimately show ?thesis
      using assms(2) False j s h by (auto simp: buffer_update_def absorbed_def memcpy_at_def)
  next
    case True
    let ?buf = "memcpy_at ?j (take (B - ?j) data) buf"
    obtain st2 rest where r: "hash_blocks B tr (tr st (take B ?buf)) (drop (B - ?j) data) = (st2, rest)" by force
    have b: "take B ?buf = take ?j buf @ take (B - ?j) data" "length ?buf = length buf"
      "length (take ?j buf @ take (B - ?j) data) = B"
      using True j by (simp_all add: memcpy_at_def)
    have "take ?j buf @ data = (take ?j buf @ take (B - ?j) data) @ drop (B - ?j) data" by simp
    then have "hash_blocks B tr st (take ?j buf @ data) = (st2, rest)"
      using hash_blocks_full [OF B_pos b(3), of tr st "drop (B - ?j) data"] r b(1) by simp
    moreover from this have "length rest = (length m + length data) mod B"
      using hash_blocks_rest [OF B_pos, of tr iv "m @ data"] h by simp
    moreover have "st' = st2" "buf' = memcpy_at 0 rest ?buf"
      using assms(2) True r by (simp_all add: buffer_update_def Let_def)
    moreover have "length rest < B" using calculation(2) B_pos by simp
    then have "length (memcpy_at 0 rest ?buf) = length buf"
      using memcpy_at_length [of 0 rest ?buf] j(2) b(2) by simp
    ultimately show ?thesis
      using j(2) h memcpy_at_start [of rest ?buf] by (simp add: absorbed_def)
  qed
qed

end

interpretation sha256_hash: block_hash 64 sha256_transform by unfold_locales simp
interpretation sha512_hash: block_hash 128 sha512_transform by unfold_locales simp

section \<open>Contexts that have absorbed a message\<close>

definition sha256_holds :: "32 word list \<Rightarrow> 8 word list \<Rightarrow> sha2_ctx \<Rightarrow> bool" where
  "sha256_holds iv m ctx \<longleftrightarrow> sha256_hash.absorbed iv m (st32 ctx) (hbuffer ctx) \<and>
     count0 ctx = word_of_nat (8 * length m)"

definition sha512_holds :: "64 word list \<Rightarrow> 8 word list \<Rightarrow> sha2_ctx \<Rightarrow> bool" where
  "sha512_holds iv m ctx \<longleftrightarrow> sha512_hash.absorbed iv m (st64 ctx) (hbuffer ctx) \<and>
     count0 ctx = word_of_nat (8 * length m) \<and> count1 ctx = word_of_nat (8 * length m div 2 ^ 64)"

lemma count_index:
  "n \<le> 61 \<Longrightarrow> unat (drop_bit 3 (word_of_nat (8 * l) :: 64 word) AND mask n) = l mod 2 ^ n"
proof -
  assume n: "n \<le> 61"
  have "unat (drop_bit 3 (word_of_nat (8 * l) :: 64 word) AND mask n) =
      take_bit n (drop_bit 3 (take_bit 64 (8 * l)))"
    by (simp add: unsigned_take_bit_eq unsigned_drop_bit_eq unsigned_of_nat del: of_nat_mult flip: take_bit_eq_mask)
  also have "drop_bit 3 (take_bit 64 (8 * l)) = take_bit 61 (drop_bit 3 (8 * l))"
    by (simp add: take_bit_drop_bit)
  also have "drop_bit 3 (8 * l) = l" by (simp add: drop_bit_eq_div)
  also have "take_bit n (take_bit 61 l) = take_bit n l" using n by simp
  finally show ?thesis by (simp add: take_bit_eq_mod)
qed

lemma count_bits: "push_bit 3 (word_of_nat l :: 64 word) = word_of_nat (8 * l)"
  by (simp add: push_bit_eq_mult mult.commute)

lemma sha256_update_holds:
  assumes "sha256_holds iv m ctx"
  shows "sha256_holds iv (m @ data) (sha256_update data ctx)"
proof -
  have j: "unat (drop_bit 3 (count0 ctx) AND 63) = length m mod 64"
    using count_index [of 6 "length m"] assms by (simp add: sha256_holds_def mask_eq_exp_minus_1)
  obtain st' buf' where u: "sha256_hash.buffer_update (length m mod 64) data (st32 ctx) (hbuffer ctx) = (st', buf')"
    by force
  have "sha256_hash.absorbed iv (m @ data) st' buf'"
    using sha256_hash.absorbed_update [OF _ u] assms by (simp add: sha256_holds_def)
  moreover have "st32 (sha256_update data ctx) = st'" "hbuffer (sha256_update data ctx) = buf'"
    using u unfolding sha256_update_def j sha256_hash.buffer_update_def
    by (auto simp: Let_def split: if_splits prod.splits)
  moreover have "count0 (sha256_update data ctx) = count0 ctx + word_of_nat (8 * length data)"
    by (simp add: sha256_update_def Let_def count_bits split: prod.split)
  ultimately show ?thesis using assms by (simp add: sha256_holds_def distrib_left)
qed

text \<open>The 128-bit count of SHA-512: the carry is right for pieces below \<open>2 ^ 61\<close> bytes.\<close>

lemma add_carry:
  assumes "b < 2 ^ 64"
  shows "((word_of_nat x + word_of_nat b :: 64 word) < word_of_nat b) = (2 ^ 64 \<le> x mod 2 ^ 64 + b)"
    "(x + b) div 2 ^ 64 = x div 2 ^ 64 + (if 2 ^ 64 \<le> x mod 2 ^ 64 + b then 1 else 0)"
proof -
  have q: "(x mod 2 ^ 64 + b) div 2 ^ 64 = (if 2 ^ 64 \<le> x mod 2 ^ 64 + b then 1 else 0)"
  proof (cases "2 ^ 64 \<le> x mod 2 ^ 64 + b")
    case True
    then have "x mod 2 ^ 64 + b = (x mod 2 ^ 64 + b - 2 ^ 64) + 2 ^ 64" by simp
    moreover have "x mod 2 ^ 64 + b - 2 ^ 64 < 2 ^ 64"
      using assms mod_less_divisor [of "2 ^ 64" x] by linarith
    ultimately show ?thesis using True by (metis div_add_self2 div_less add_0 power_eq_0_iff zero_neq_numeral)
  qed simp
  show "(x + b) div 2 ^ 64 = x div 2 ^ 64 + (if 2 ^ 64 \<le> x mod 2 ^ 64 + b then 1 else 0)"
    using q assms by (simp only: div_add1_eq [of x b] div_less mod_less add_0_right)
  have m: "(x mod 2 ^ 64 + b) mod 2 ^ 64 = (if 2 ^ 64 \<le> x mod 2 ^ 64 + b then x mod 2 ^ 64 + b - 2 ^ 64 else x mod 2 ^ 64 + b)"
    using assms mod_less_divisor [of "2 ^ 64" x] by (auto simp: le_mod_geq)
  have "(word_of_nat x + word_of_nat b :: 64 word) < word_of_nat b \<longleftrightarrow> (x + b) mod 2 ^ 64 < b"
    using assms by (simp add: word_less_nat_alt unsigned_of_nat take_bit_eq_mod flip: of_nat_add)
  also have "(x + b) mod 2 ^ 64 = (x mod 2 ^ 64 + b) mod 2 ^ 64" by (simp add: mod_add_left_eq)
  also have "\<dots> < b \<longleftrightarrow> 2 ^ 64 \<le> x mod 2 ^ 64 + b"
    unfolding m using assms mod_less_divisor [of "2 ^ 64" x] by (auto split: if_splits)
  finally show "((word_of_nat x + word_of_nat b :: 64 word) < word_of_nat b) = (2 ^ 64 \<le> x mod 2 ^ 64 + b)" .
qed

lemma sha512_update_holds:
  assumes "sha512_holds iv m ctx" "length data < 2 ^ 61"
  shows "sha512_holds iv (m @ data) (sha512_update data ctx)"
proof -
  have j: "unat (drop_bit 3 (count0 ctx) AND 127) = length m mod 128"
    using count_index [of 7 "length m"] assms by (simp add: sha512_holds_def mask_eq_exp_minus_1)
  obtain st' buf' where u: "sha512_hash.buffer_update (length m mod 128) data (st64 ctx) (hbuffer ctx) = (st', buf')"
    by force
  have "sha512_hash.absorbed iv (m @ data) st' buf'"
    using sha512_hash.absorbed_update [OF _ u] assms by (simp add: sha512_holds_def)
  moreover have "st64 (sha512_update data ctx) = st'" "hbuffer (sha512_update data ctx) = buf'"
    using u unfolding sha512_update_def j sha512_hash.buffer_update_def
    by (auto simp: Let_def split: if_splits prod.splits)
  moreover have "count0 (sha512_update data ctx) = count0 ctx + word_of_nat (8 * length data)"
    "count1 (sha512_update data ctx) =
      (if count0 ctx + word_of_nat (8 * length data) < word_of_nat (8 * length data) then count1 ctx + 1 else count1 ctx)"
    by (simp_all add: sha512_update_def Let_def count_bits split: prod.split)
  moreover have "8 * length data < 2 ^ 64" using assms(2) by simp
  note add_carry [OF this, of "8 * length m"]
  ultimately show ?thesis using assms
    by (simp add: sha512_holds_def distrib_left del: of_nat_mult)
qed

section \<open>Padding\<close>

lemma while_option_steps:
  "(\<And>i. i < k \<Longrightarrow> b ((f ^^ i) s)) \<Longrightarrow> \<not> b ((f ^^ k) s) \<Longrightarrow> while_option b f s = Some ((f ^^ k) s)"
proof (induction k arbitrary: s)
  case 0
  then show ?case by (subst while_option_unfold) simp
next
  case (Suc k)
  have "while_option b f (f s) = Some ((f ^^ k) (f s))"
  proof (rule Suc.IH)
    show "b ((f ^^ i) (f s))" if "i < k" for i
      using Suc.prems(1) [of "Suc i"] that by (simp add: funpow_swap1)
    show "\<not> b ((f ^^ k) (f s))"
      using Suc.prems(2) by (simp add: funpow_swap1)
  qed
  moreover have "b s" using Suc.prems(1) [of 0] by simp
  ultimately show ?case by (subst while_option_unfold) (simp add: funpow_swap1)
qed

text \<open>The number of zero bytes for a message of \<open>l\<close> bytes and a length field of \<open>sz\<close>.\<close>

definition pad_zeros :: "nat \<Rightarrow> nat \<Rightarrow> nat \<Rightarrow> nat" where
  "pad_zeros B sz l = (2 * B - 1 - sz - l mod B) mod B"

definition fips_pad :: "nat \<Rightarrow> nat \<Rightarrow> (nat \<Rightarrow> 8 word list) \<Rightarrow> 8 word list \<Rightarrow> 8 word list" where
  "fips_pad B sz enc m = m @ 0x80 # replicate (pad_zeros B sz (length m)) 0 @ enc (8 * length m)"

lemma pad_zeros_least:
  assumes "0 < sz" "sz < B"
  shows "(Suc l + pad_zeros B sz l) mod B = B - sz"
    "i < pad_zeros B sz l \<Longrightarrow> (Suc l + i) mod B \<noteq> B - sz"
proof -
  define r where "r = l mod B"
  have r: "r < B" using assms by (simp add: r_def)
  have m: "(Suc l + i) mod B = (Suc r + i) mod B" for i
    unfolding r_def by (metis add_Suc mod_Suc_eq mod_add_left_eq)
  have k: "pad_zeros B sz l = (if Suc r \<le> B - sz then B - sz - Suc r else 2 * B - 1 - sz - r)"
  proof (cases "Suc r \<le> B - sz")
    case True
    then have "2 * B - 1 - sz - r = B + (B - sz - Suc r)" using assms by simp
    moreover have "B - sz - Suc r < B" using assms by simp
    ultimately show ?thesis using True unfolding pad_zeros_def r_def [symmetric]
      by (simp only: mod_add_self1 mod_less if_True)
  next
    case False
    then have "2 * B - 1 - sz - r < B" using assms r by simp
    then show ?thesis using False unfolding pad_zeros_def r_def [symmetric] by simp
  qed
  show "(Suc l + pad_zeros B sz l) mod B = B - sz"
  proof (cases "Suc r \<le> B - sz")
    case True
    then have "Suc r + (B - sz - Suc r) = B - sz" "B - sz < B" using assms by simp_all
    then show ?thesis using True unfolding m k by (simp only: if_True mod_less)
  next
    case False
    then have "Suc r + (2 * B - 1 - sz - r) = B + (B - sz)" using assms r by simp
    moreover have "B - sz < B" using assms by simp
    ultimately show ?thesis using False unfolding m k by (simp only: if_False mod_add_self1 mod_less)
  qed
  show "(Suc l + i) mod B \<noteq> B - sz" if "i < pad_zeros B sz l"
  proof (cases "Suc r + i < B")
    case True
    then show ?thesis using that assms unfolding m k by (simp split: if_splits)
  next
    case False
    then have "\<not> Suc r \<le> B - sz" using that assms by (auto simp: k)
    then have "Suc r + i - B < B - sz" using that assms False by (simp add: k)
    then show ?thesis unfolding m using False assms by (simp add: le_mod_geq)
  qed
qed

lemma count_pad:
  assumes "e \<le> 61" "r < 2 ^ e"
  shows "(word_of_nat (8 * n) :: 64 word) AND mask (e + 3) = word_of_nat (8 * r) \<longleftrightarrow> n mod 2 ^ e = r"
proof -
  have p: "(2 :: nat) ^ (e + 3) = 8 * 2 ^ e" by (simp add: power_add)
  have lt: "8 * k < 2 ^ 64" if "k < 2 ^ e" for k :: nat
  proof -
    have "(2 :: nat) ^ e \<le> 2 ^ 61" using assms(1) by (intro power_increasing) auto
    then show ?thesis using that by simp
  qed
  have "(word_of_nat (8 * n) :: 64 word) AND mask (e + 3) = word_of_nat (take_bit (e + 3) (8 * n))"
    by (simp only: take_bit_of_nat flip: take_bit_eq_mask)
  also have "take_bit (e + 3) (8 * n) = 8 * (n mod 2 ^ e)"
    by (simp only: take_bit_eq_mod p mult_mod_right)
  finally have "(word_of_nat (8 * n) :: 64 word) AND mask (e + 3) = word_of_nat (8 * (n mod 2 ^ e))" .
  moreover have "word_of_nat (8 * (n mod 2 ^ e)) = (word_of_nat (8 * r) :: 64 word) \<longleftrightarrow> 8 * (n mod 2 ^ e) = 8 * r"
    using lt [of r] lt [of "n mod 2 ^ e"] assms(2)
    by (simp add: word_of_nat_eq_iff take_bit_eq_mod del: of_nat_mult)
  ultimately show ?thesis by simp
qed

lemma sha256_pads:
  assumes "sha256_holds iv m ctx"
  shows "\<exists>ctx'. sha256_pad ctx = Some ctx' \<and>
    sha256_holds iv (fips_pad 64 8 (\<lambda>n. be64_to_8 (word_of_nat n)) m) ctx'"
proof -
  let ?f = "sha256_update [0]" and ?c = "sha256_update [0x80] ctx" and ?k = "pad_zeros 64 8 (length m)"
  have c: "sha256_holds iv (m @ [0x80]) ?c" by (rule sha256_update_holds [OF assms])
  have f: "sha256_holds iv (m @ 0x80 # replicate i 0) ((?f ^^ i) ?c)" for i
  proof (induction i)
    case (Suc i)
    then show ?case using sha256_update_holds [OF Suc, of "[0]"] by (simp add: replicate_append_same)
  qed (simp add: c)
  have b: "count0 ((?f ^^ i) ?c) AND 511 = 448 \<longleftrightarrow> (Suc (length m) + i) mod 64 = 56" for i
    using f [of i] count_pad [of 6 56 "Suc (length m) + i"]
    by (simp add: sha256_holds_def mask_eq_exp_minus_1)
  have "while_option (\<lambda>ctx. count0 ctx AND 511 \<noteq> 448) ?f ?c = Some ((?f ^^ ?k) ?c)"
    by (rule while_option_steps) (use pad_zeros_least [of 8 64] b in auto)
  moreover have "count0 ctx = word_of_nat (8 * length m)" using assms by (simp add: sha256_holds_def)
  ultimately have "sha256_pad ctx = Some (sha256_update (be64_to_8 (word_of_nat (8 * length m))) ((?f ^^ ?k) ?c))"
    by (simp add: sha256_pad_def Let_def)
  moreover have "fips_pad 64 8 (\<lambda>n. be64_to_8 (word_of_nat n)) m =
      (m @ 0x80 # replicate ?k 0) @ be64_to_8 (word_of_nat (8 * length m))"
    by (simp add: fips_pad_def)
  ultimately show ?thesis using sha256_update_holds [OF f] by metis
qed

definition length_field :: "nat \<Rightarrow> 8 word list" where
  "length_field n = be64_to_8 (word_of_nat (n div 2 ^ 64)) @ be64_to_8 (word_of_nat n)"

lemma sha512_pads:
  assumes "sha512_holds iv m ctx"
  shows "\<exists>ctx'. sha512_pad ctx = Some ctx' \<and> sha512_holds iv (fips_pad 128 16 length_field m) ctx'"
proof -
  let ?f = "sha512_update [0]" and ?c = "sha512_update [0x80] ctx" and ?k = "pad_zeros 128 16 (length m)"
  have c: "sha512_holds iv (m @ [0x80]) ?c" by (rule sha512_update_holds [OF assms]) simp
  have f: "sha512_holds iv (m @ 0x80 # replicate i 0) ((?f ^^ i) ?c)" for i
  proof (induction i)
    case (Suc i)
    then show ?case using sha512_update_holds [OF Suc, of "[0]"] by (simp add: replicate_append_same)
  qed (simp add: c)
  have b: "count0 ((?f ^^ i) ?c) AND 1023 = 896 \<longleftrightarrow> (Suc (length m) + i) mod 128 = 112" for i
    using f [of i] count_pad [of 7 112 "Suc (length m) + i"]
    by (simp add: sha512_holds_def mask_eq_exp_minus_1)
  have "while_option (\<lambda>ctx. count0 ctx AND 1023 \<noteq> 896) ?f ?c = Some ((?f ^^ ?k) ?c)"
    by (rule while_option_steps) (use pad_zeros_least [of 16 128] b in auto)
  moreover have "be64_to_8 (count1 ctx) @ be64_to_8 (count0 ctx) = length_field (8 * length m)"
    using assms by (simp add: sha512_holds_def length_field_def)
  ultimately have "sha512_pad ctx = Some (sha512_update (length_field (8 * length m)) ((?f ^^ ?k) ?c))"
    by (simp add: sha512_pad_def Let_def)
  moreover have "fips_pad 128 16 length_field m =
      (m @ 0x80 # replicate ?k 0) @ length_field (8 * length m)"
    by (simp add: fips_pad_def)
  moreover have "length (length_field (8 * length m)) < 2 ^ 61"
    by (simp add: length_field_def be64_to_8_def)
  ultimately show ?thesis using sha512_update_holds [OF f] by metis
qed

section \<open>The digests\<close>

text \<open>The hash of FIPS 180-4: pad, compress block by block, write the state out in big endian.\<close>

definition fips_sha256 :: "32 word list \<Rightarrow> 8 word list \<Rightarrow> 8 word list" where
  "fips_sha256 iv m = concat (map be32_to_8 (fst (hash_blocks 64 (fips_compress sha256_fns 64 be8_to_32 4) iv
     (fips_pad 64 8 (\<lambda>n. be64_to_8 (word_of_nat n)) m))))"

definition fips_sha512 :: "64 word list \<Rightarrow> 8 word list \<Rightarrow> 8 word list" where
  "fips_sha512 iv m = concat (map be64_to_8 (fst (hash_blocks 128 (fips_compress sha512_fns 80 be8_to_64 8) iv
     (fips_pad 128 16 length_field m))))"

definition fips_digest :: "nat \<Rightarrow> 8 word list \<Rightarrow> 8 word list" where
  "fips_digest digest_type m =
     (if digest_type = 0 then take 28 (fips_sha256 (st32 sha224_init) m)
      else if digest_type = 1 then fips_sha256 (st32 sha256_init) m
      else if digest_type = 2 then take 48 (fips_sha512 (st64 sha384_init) m)
      else fips_sha512 (st64 sha512_init) m)"

lemma hash_blocks_cong:
  assumes "\<And>st b. length st = n \<Longrightarrow> tr st b = tr' st b" "\<And>st b. length st = n \<Longrightarrow> length (tr st b) = n"
  shows "length st = n \<Longrightarrow> hash_blocks B tr st m = hash_blocks B tr' st m \<and> length (fst (hash_blocks B tr st m)) = n"
proof (induction "length m" arbitrary: m st rule: less_induct)
  case less
  show ?case
  proof (cases "0 < B \<and> B \<le> length m")
    case True
    then have "length (drop B m) < length m" by auto
    from less.hyps [OF this, of "tr st (take B m)"] show ?thesis
      using True less.prems assms by (subst (1 2 3) hash_blocks.simps) auto
  next
    case False
    then show ?thesis using less.prems by (subst (1 2 3) hash_blocks.simps) auto
  qed
qed

lemma sha_transform_length: "length (sha_transform fn n be sz st b) = 8"
  by (simp add: sha_transform_def split: prod.split)

lemma fips_compress_length: "length (fips_compress fn n be sz st b) = 8"
  by (simp add: fips_compress_def Let_def)

lemma sha256_blocks:
  assumes "length iv = 8"
  shows "hash_blocks 64 sha256_transform iv m = hash_blocks 64 (fips_compress sha256_fns 64 be8_to_32 4) iv m"
    "length (fst (hash_blocks 64 sha256_transform iv m)) = 8"
  using hash_blocks_cong [of 8 sha256_transform "fips_compress sha256_fns 64 be8_to_32 4" iv 64 m] assms
  by (auto simp: sha256_transform_def sha_transform_length sha_transform_fips fips_compress_length)

lemma sha512_blocks:
  assumes "length iv = 8"
  shows "hash_blocks 128 sha512_transform iv m = hash_blocks 128 (fips_compress sha512_fns 80 be8_to_64 8) iv m"
    "length (fst (hash_blocks 128 sha512_transform iv m)) = 8"
  using hash_blocks_cong [of 8 sha512_transform "fips_compress sha512_fns 80 be8_to_64 8" iv 128 m] assms
  by (auto simp: sha512_transform_def sha_transform_length sha_transform_fips fips_compress_length)

lemma sha256_final_state:
  assumes "sha256_holds iv m ctx" "length iv = 8"
  shows "\<exists>ctx'. sha256_pad ctx = Some ctx' \<and> length (st32 ctx') = 8 \<and>
    concat (map be32_to_8 (st32 ctx')) = fips_sha256 iv m"
proof -
  obtain ctx' where p: "sha256_pad ctx = Some ctx'"
    "sha256_holds iv (fips_pad 64 8 (\<lambda>n. be64_to_8 (word_of_nat n)) m) ctx'"
    using sha256_pads [OF assms(1)] by blast
  let ?h = "hash_blocks 64 sha256_transform iv (fips_pad 64 8 (\<lambda>n. be64_to_8 (word_of_nat n)) m)"
  have "st32 ctx' = fst ?h" using p(2) by (simp add: sha256_holds_def sha256_hash.absorbed_def)
  then show ?thesis
    using p(1) sha256_blocks [OF assms(2)] by (simp add: fips_sha256_def)
qed

lemma sha512_final_state:
  assumes "sha512_holds iv m ctx" "length iv = 8"
  shows "\<exists>ctx'. sha512_pad ctx = Some ctx' \<and> length (st64 ctx') = 8 \<and>
    concat (map be64_to_8 (st64 ctx')) = fips_sha512 iv m"
proof -
  obtain ctx' where p: "sha512_pad ctx = Some ctx'" "sha512_holds iv (fips_pad 128 16 length_field m) ctx'"
    using sha512_pads [OF assms(1)] by blast
  let ?h = "hash_blocks 128 sha512_transform iv (fips_pad 128 16 length_field m)"
  have "st64 ctx' = fst ?h" using p(2) by (simp add: sha512_holds_def sha512_hash.absorbed_def)
  then show ?thesis
    using p(1) sha512_blocks [OF assms(2)] by (simp add: fips_sha512_def)
qed

text \<open>What a context of each digest type holds after the pieces fed to it.\<close>

definition digest_holds :: "nat \<Rightarrow> 8 word list \<Rightarrow> sha2_ctx \<Rightarrow> bool" where
  "digest_holds digest_type m ctx \<longleftrightarrow>
     (if digest_type < 2 then sha256_holds (st32 (df_init (digest_functions ! digest_type))) m ctx
      else sha512_holds (st64 (df_init (digest_functions ! digest_type))) m ctx)"

lemma digest_type_cases: "t < length digest_functions \<Longrightarrow> t \<in> {0, 1, 2, 3}"
  by (auto simp: digest_functions_def)

lemmas inits = sha224_init_def sha256_init_def sha384_init_def sha512_init_def sha2_zero_def

lemma digest_holds_init:
  assumes "t < length digest_functions"
  shows "digest_holds t [] (df_init (digest_functions ! t))"
  using digest_type_cases [OF assms]
  by (elim insertE emptyE) (simp_all add: digest_holds_def digest_functions_def sha256_holds_def
      sha512_holds_def sha256_hash.absorbed_init sha512_hash.absorbed_init inits)

lemma digest_holds_update:
  assumes "t < length digest_functions" "digest_holds t m ctx" "length data < 2 ^ 61"
  shows "digest_holds t (m @ data) (df_update (digest_functions ! t) data ctx)"
  using digest_type_cases [OF assms(1)] assms(2,3) sha256_update_holds sha512_update_holds
  by (elim insertE emptyE) (simp_all add: digest_holds_def digest_functions_def)

lemma digest_holds_final:
  assumes "t < length digest_functions" "digest_holds t m ctx"
  shows "df_final (digest_functions ! t) ctx = Some (fips_digest t m)"
proof -
  have iv: "length (st32 sha224_init) = 8" "length (st32 sha256_init) = 8"
    "length (st64 sha384_init) = 8" "length (st64 sha512_init) = 8" by (simp_all add: inits)
  have cut: "concat (map (\<lambda>i. be32_to_8 (s ! i)) [0..<7]) = take 28 (concat (map be32_to_8 s))"
    if "length s = 8" for s
    using that by (auto simp: be32_to_8_def numeral_eq_Suc length_Suc_conv upt_rec)
  have cut': "concat (map (\<lambda>i. be64_to_8 (s ! i)) [0..<6]) = take 48 (concat (map be64_to_8 s))"
    if "length s = 8" for s
    using that by (auto simp: be64_to_8_def numeral_eq_Suc length_Suc_conv upt_rec)
  show ?thesis
    using digest_type_cases [OF assms(1)] assms(2) sha256_final_state [of _ m ctx] sha512_final_state [of _ m ctx] iv
    by (elim insertE emptyE) (fastforce simp: digest_holds_def digest_functions_def fips_digest_def
        sha224_final_def sha256_final_def sha384_final_def sha512_final_def cut cut')+
qed

lemma digest_feed:
  assumes "t < length digest_functions" "\<forall>d\<in>set pieces. length d < 2 ^ 61"
  shows "digest_holds t m ctx \<Longrightarrow> fold sudo_digest_update pieces (digest_functions ! t, ctx) =
      (digest_functions ! t, ctx') \<Longrightarrow> digest_holds t (m @ concat pieces) ctx'"
  using assms(2)
proof (induction pieces arbitrary: m ctx)
  case (Cons d ds)
  then show ?case
    using digest_holds_update [OF assms(1), of m ctx d] Cons.IH [of "m @ d"]
    by (simp add: sudo_digest_update_def)
qed simp

lemma fold_digest_fst: "fst (fold sudo_digest_update pieces dig) = fst dig"
  by (induction pieces arbitrary: dig) (simp_all add: sudo_digest_update_def)

lemma digest_pieces:
  assumes "sudo_digest_alloc t = Some dig" "\<forall>d\<in>set pieces. length d < 2 ^ 61"
  shows "sudo_digest_final (fold sudo_digest_update pieces dig) = Some (fips_digest t (concat pieces))"
proof -
  have t: "t < length digest_functions" "dig = (digest_functions ! t, df_init (digest_functions ! t))"
    using assms(1) by (simp_all add: sudo_digest_alloc_def split: if_splits)
  obtain ctx' where f: "fold sudo_digest_update pieces dig = (digest_functions ! t, ctx')"
    using fold_digest_fst [of pieces dig] t(2) by (metis fst_conv surj_pair)
  have "digest_holds t (concat pieces) ctx'"
    using digest_feed [OF t(1) assms(2) digest_holds_init [OF t(1)]] f t(2) by simp
  then show ?thesis using digest_holds_final [OF t(1)] f by (simp add: sudo_digest_final_def)
qed

text \<open>
  C16. The digests are SHA-224, SHA-256, SHA-384 and SHA-512 of FIPS 180-4 for the data given to
  \<open>sudo_digest_update\<close>, in whatever pieces it comes: the ring of working variables, the message
  schedule in place, the buffering of partial blocks, the padding loop (which ends) and the bit
  count with its carry are right together.
\<close>

theorem sudo_digest_fips:
  assumes "sudo_digest_alloc digest_type = Some dig" "\<forall>d\<in>set pieces. length d < 2 ^ 61"
  shows "sudo_digest_final (fold sudo_digest_update pieces dig) = Some (fips_digest digest_type (concat pieces))"
  by (rule digest_pieces [OF assms])

theorem sudo_digest_fips_witness:
  "sudo_digest_final (fold sudo_digest_update [[0x61], [], [0x62, 0x63]]
     (digest_functions ! 1, sha256_init)) = Some (fips_digest 1 [0x61, 0x62, 0x63])"
proof -
  have "sudo_digest_alloc 1 = Some (digest_functions ! 1, sha256_init)"
    by (simp add: sudo_digest_alloc_def digest_functions_def)
  from sudo_digest_fips [OF this, of "[[0x61], [], [0x62, 0x63]]"] show ?thesis by simp
qed

end
