(* ===== verification/CommandSpec.thy ===== *)
theory CommandSpec
  imports CommandMatch Sha2Props
begin

text \<open>
  What matching a command comes to, without descriptors: \<open>command_accepts\<close> says when a command of
  the policy accepts the user's command, by opening rights, inodes, names, arguments and FIPS 180-4
  digests. \<open>command_matches\<close> implements it, whatever descriptors are open, and leaves the
  descriptors as they were but for the one for \<open>fexecve\<close>.
\<close>

section \<open>Digests\<close>

text \<open>The digest of a file that can be read through a duplicated descriptor.\<close>

definition file_digest_of :: "file_system \<Rightarrow> string \<Rightarrow> nat \<Rightarrow> 8 word list option" where
  "file_digest_of fs path digest_type =
     (if digest_type < length digest_functions \<and> fs_dup fs path \<and> fs_fdopen fs path \<and> \<not> fs_read_error fs path
      then Some (fips_digest digest_type (fs_content fs path)) else None)"

text \<open>A digest of the list is that of the file, and the ones before it are well-formed.\<close>

fun digest_listed :: "file_system \<Rightarrow> string \<Rightarrow> command_digest list \<Rightarrow> bool" where
  "digest_listed fs path [] \<longleftrightarrow> False"
| "digest_listed fs path (d # ds) \<longleftrightarrow>
     (case (file_digest_of fs path (cd_type d), command_digest_bytes (cd_str d) (sudo_digest_getlen (cd_type d))) of
        (Some fd, Some bs) \<Rightarrow> fd = bs \<or> digest_listed fs path ds
      | _ \<Rightarrow> False)"

lemma digest_pieces_of_fold:
  "\<exists>pieces. digest_pieces_of data dig = fold sudo_digest_update pieces dig \<and> concat pieces = data \<and>
     (\<forall>p\<in>set pieces. length p < 2 ^ 61)"
proof (induction data dig rule: digest_pieces_of.induct)
  case (1 data dig)
  show ?case
  proof (cases "data = []")
    case True
    then show ?thesis by (intro exI [of _ "[]"]) (simp add: digest_pieces_of.simps)
  next
    case False
    from 1 [OF False] obtain pieces where p:
      "digest_pieces_of (drop 32768 data) (sudo_digest_update (take 32768 data) dig) =
         fold sudo_digest_update pieces (sudo_digest_update (take 32768 data) dig)"
      "concat pieces = drop 32768 data" "\<forall>p\<in>set pieces. length p < 2 ^ 61" by blast
    have "length (take 32768 data) < (2::nat) ^ 61"
      by (rule le_less_trans [of _ 32768]) simp_all
    then show ?thesis using p False
      by (intro exI [of _ "take 32768 data # pieces"]) (simp add: digest_pieces_of.simps [of data])
  qed
qed

lemma getlen_zero: "sudo_digest_getlen t = 0 \<longleftrightarrow> \<not> t < length digest_functions"
  by (auto simp: sudo_digest_getlen_def dest!: digest_type_cases) (auto simp: digest_functions_def)

lemma sudo_filedigest_fips:
  assumes "fd_path s fd = Some path"
  shows "sudo_filedigest fs fd t s = (file_digest_of fs path t, s)"
proof (cases "t < length digest_functions")
  case True
  then obtain dig where d: "sudo_digest_alloc t = Some dig" by (simp add: sudo_digest_alloc_def)
  obtain pieces where p: "digest_pieces_of (fs_content fs path) dig = fold sudo_digest_update pieces dig"
    "concat pieces = fs_content fs path" "\<forall>p\<in>set pieces. length p < 2 ^ 61"
    using digest_pieces_of_fold by blast
  obtain fd2 s1 where a: "add_fd path s = (fd2, s1)" by force
  show ?thesis using True d p digest_pieces [OF d p(3)] getlen_zero [of t] assms add_close_fd [OF a]
    by (simp add: sudo_filedigest_def file_digest_of_def Let_def a)
next
  case False
  then show ?thesis by (simp add: sudo_filedigest_def file_digest_of_def getlen_zero)
qed

definition verdict_if :: "bool \<Rightarrow> verdict" where
  "verdict_if b = (if b then ALLOW else DENY)"

lemma verdict_if_ALLOW [simp]: "verdict_if b = ALLOW \<longleftrightarrow> b" "verdict_if b = DENY \<longleftrightarrow> \<not> b" "verdict_if b \<noteq> UNSPEC"
  by (simp_all add: verdict_if_def)

lemma verdict_if_simps [simp]: "verdict_if True = ALLOW" "verdict_if False = DENY"
  by (simp_all add: verdict_if_def)

lemma digest_loop_listed:
  assumes "fd_path s fd = Some path"
  shows "digest_loop fs fd t (file_digest_of fs path t) ds s = (verdict_if (digest_listed fs path ds), s)"
proof (induction ds arbitrary: t)
  case (Cons d ds)
  have "digest_loop fs fd t (file_digest_of fs path t) (d # ds) s =
      digest_loop fs fd (cd_type d) (file_digest_of fs path (cd_type d)) (d # ds) s"
    by (auto simp: Let_def sudo_filedigest_fips [OF assms] split: option.split)
  then show ?case using Cons.IH [of "cd_type d"] by (auto simp: Let_def split: option.split)
qed simp

lemma digest_loop_start:
  assumes "fd_path s fd = Some path"
  shows "digest_loop fs fd SUDO_DIGEST_INVALID None ds s = (verdict_if (digest_listed fs path ds), s)"
proof -
  have "file_digest_of fs path SUDO_DIGEST_INVALID = None"
    by (simp add: file_digest_of_def SUDO_DIGEST_INVALID_def digest_functions_def)
  then show ?thesis using digest_loop_listed [OF assms] by metis
qed

lemma digest_listed_ex:
  "digest_listed fs path ds \<Longrightarrow> \<exists>d\<in>set ds. file_digest_of fs path (cd_type d) \<noteq> None \<and>
     file_digest_of fs path (cd_type d) = command_digest_bytes (cd_str d) (sudo_digest_getlen (cd_type d))"
  by (induction ds) (auto split: option.splits)

section \<open>Acceptance\<close>

definition can_open :: "match_env \<Rightarrow> string option \<Rightarrow> string \<Rightarrow> command_digest list \<Rightarrow> bool" where
  "can_open env rc path digests \<longleftrightarrow>
     def_fdexec (me_defs env) \<noteq> always \<and> digests = [] \<or>
     (case in_chroot rc path of None \<Rightarrow> False
      | Some p \<Rightarrow> c_open (me_fs env) p = Opened \<or>
          c_open (me_fs env) p = OpenEACCES \<and> digests = [] \<and> fs_open_exec (me_fs env) p)"

definition stat_below :: "match_env \<Rightarrow> string option \<Rightarrow> string \<Rightarrow> file_stat option" where
  "stat_below env rc path = (case in_chroot rc path of None \<Rightarrow> None | Some p \<Rightarrow> c_stat (me_fs env) p)"

definition verified :: "match_env \<Rightarrow> string option \<Rightarrow> string \<Rightarrow> command_digest list \<Rightarrow> bool" where
  "verified env rc path digests \<longleftrightarrow>
     digests = [] \<or> (case in_chroot rc path of None \<Rightarrow> False | Some p \<Rightarrow> digest_listed (me_fs env) p digests)"

text \<open>The file exists and is the one the user named, if that one is known.\<close>

definition inode_ok :: "match_env \<Rightarrow> string option \<Rightarrow> string \<Rightarrow> match_state \<Rightarrow> bool" where
  "inode_ok env rc path s \<longleftrightarrow>
     (case (stat_below env rc path, ms_cmnd_stat s) of
        (None, _) \<Rightarrow> False
      | (Some sb, None) \<Rightarrow> True
      | (Some sb, Some c) \<Rightarrow> st_dev sb = st_dev c \<and> st_ino sb = st_ino c)"

lemma inode_ok_agrees:
  "inode_ok env rc path s = (case stat_below env rc path of None \<Rightarrow> False | Some sb \<Rightarrow> stat_agrees s sb)"
  by (auto simp: inode_ok_def stat_agrees_def same_file_def split: option.split)

definition accepts_file :: "match_env \<Rightarrow> string option \<Rightarrow> string \<Rightarrow> command_digest list \<Rightarrow> match_state \<Rightarrow> bool" where
  "accepts_file env rc path digests s \<longleftrightarrow>
     can_open env rc path digests \<and> inode_ok env rc path s \<and> verified env rc path digests"

definition args_ok :: "match_env \<Rightarrow> string \<Rightarrow> string option \<Rightarrow> bool" where
  "args_ok env sc args \<longleftrightarrow> command_args_match env sc args = ALLOW"

definition dir_accepts :: "match_env \<Rightarrow> string \<Rightarrow> string option \<Rightarrow> command_digest list \<Rightarrow> match_state \<Rightarrow> bool" where
  "dir_accepts env dir rc digests s \<longleftrightarrow>
     (case in_chroot rc dir of None \<Rightarrow> False
      | Some d \<Rightarrow> dir_agrees (me_fs env) s d \<and>
          length (d @ ''/'' @ user_cmnd_base (me_ctx env)) < PATH_MAX \<and>
          accepts_file env None (d @ ''/'' @ user_cmnd_base (me_ctx env)) digests s)"

definition all_accepts :: "match_env \<Rightarrow> string \<Rightarrow> string option \<Rightarrow> command_digest list \<Rightarrow> bool" where
  "all_accepts env cmnd rc digests \<longleftrightarrow>
     (let slash = strchr cmnd (CHR ''/'') \<noteq> None in
      if slash \<and> can_open env rc cmnd digests then verified env rc cmnd digests
      else if slash \<and> stat_below env rc cmnd \<noteq> None then False
      else digests = [] \<or> c_open (me_fs env) cmnd = Opened \<and> in_chroot rc cmnd \<noteq> None \<and>
             digest_listed (me_fs env) cmnd digests)"

definition name_accepts :: "match_env \<Rightarrow> (string \<Rightarrow> bool) \<Rightarrow> string \<Rightarrow> string \<Rightarrow> string option \<Rightarrow> string option \<Rightarrow>
    command_digest list \<Rightarrow> match_state \<Rightarrow> bool" where
  "name_accepts env f cmnd sc args rc digests s \<longleftrightarrow>
     (case matched_name env f cmnd s of None \<Rightarrow> False
      | Some c \<Rightarrow> args_ok env sc args \<and> can_open env rc c digests \<and> stat_below env rc c \<noteq> None \<and>
          verified env rc c digests)"

definition strip :: "string option \<Rightarrow> string \<Rightarrow> string" where
  "strip rc cp = drop (case rc of None \<Rightarrow> 0 | Some r \<Rightarrow> length r) cp"

definition glob_candidate :: "match_env \<Rightarrow> string option \<Rightarrow> command_digest list \<Rightarrow> match_state \<Rightarrow> string \<Rightarrow> bool" where
  "glob_candidate env rc digests s cp \<longleftrightarrow>
     (if ends_slash cp then dir_accepts env cp rc digests s
      else strcmp (user_cmnd_base (me_ctx env)) (sudo_basename cp) = 0 \<and>
           parent_agrees (me_fs env) s cp \<and> accepts_file env rc cp digests s)"

text \<open>
  A name equal to an absolute command decides alone when its file can be opened and has a status;
  else the first name of the same file decides.
\<close>

definition glob_accepts :: "match_env \<Rightarrow> string \<Rightarrow> string \<Rightarrow> string option \<Rightarrow> string option \<Rightarrow>
    command_digest list \<Rightarrow> match_state \<Rightarrow> bool" where
  "glob_accepts env cmnd sc args rc digests s \<longleftrightarrow>
     (case in_chroot rc sc of None \<Rightarrow> False
      | Some pat \<Rightarrow>
          (ends_slash pat \<or> has_meta (sudo_basename pat) \<or>
             strcmp (user_cmnd_base (me_ctx env)) (sudo_basename pat) = 0) \<and>
          (case fs_glob (me_fs env) pat of None \<Rightarrow> False
           | Some pathv \<Rightarrow>
              (let names = map (strip rc) pathv in
               if c_at cmnd = CHR ''/'' \<and> cmnd \<in> set names \<and> can_open env rc cmnd digests \<and>
                  stat_below env rc cmnd \<noteq> None
               then inode_ok env rc cmnd s \<and> verified env rc cmnd digests \<and> args_ok env pat args
               else case find (glob_candidate env rc digests s) names of None \<Rightarrow> False
                    | Some cp \<Rightarrow> ends_slash cp \<or> args_ok env pat args)))"

definition normal_accepts :: "match_env \<Rightarrow> string \<Rightarrow> string \<Rightarrow> string option \<Rightarrow> string option \<Rightarrow>
    command_digest list \<Rightarrow> match_state \<Rightarrow> bool" where
  "normal_accepts env cmnd sc args rc digests s \<longleftrightarrow>
     (if ends_slash sc then dir_accepts env sc rc digests s
      else strcmp (user_cmnd_base (me_ctx env)) (sudo_basename sc) = 0 \<and>
        (ms_cmnd_dir s = None \<or> (case strrchr sc (CHR ''/'') of None \<Rightarrow> True
           | Some slash \<Rightarrow> length sc - length slash < PATH_MAX)) \<and>
        parent_agrees (me_fs env) s sc \<and> can_open env rc sc digests \<and>
        (case (ms_cmnd_stat s, stat_below env rc sc) of (Some a, Some b) \<Rightarrow> same_file a b | _ \<Rightarrow> strcmp cmnd sc = 0) \<and>
        args_ok env sc args \<and> verified env rc sc digests)"

definition dispatch_accepts :: "match_env \<Rightarrow> string \<Rightarrow> string option \<Rightarrow> string option \<Rightarrow> string option \<Rightarrow>
    command_digest list \<Rightarrow> match_state \<Rightarrow> bool" where
  "dispatch_accepts env cmnd sco args rc digests s \<longleftrightarrow>
     (case sco of None \<Rightarrow> all_accepts env cmnd rc digests
      | Some sc \<Rightarrow>
          if c_at sc = CHR ''^''
          then name_accepts env (\<lambda>c. regex_matches (me_fs env) sc c = ALLOW) cmnd sc args rc digests s
          else if c_at sc \<noteq> CHR ''/''
          then (strcmp sc ''list'' = 0 \<or> strcmp sc ''sudoedit'' = 0) \<and> strcmp cmnd sc = 0 \<and> args_ok env sc args
          else if has_meta sc then
            (if def_fast_glob (me_defs env)
             then name_accepts env (\<lambda>c. fs_fnmatch (me_fs env) sc c True) cmnd sc args rc digests s
             else glob_accepts env cmnd sc args rc digests s)
          else normal_accepts env cmnd sc args rc digests s)"

text \<open>The chroot in effect, None when the rule's is not the user's; and the command seen from it.\<close>

definition command_accepts :: "match_env \<Rightarrow> string \<Rightarrow> string option \<Rightarrow> string option \<Rightarrow> string option \<Rightarrow>
    command_digest list \<Rightarrow> match_state \<Rightarrow> bool" where
  "command_accepts env cmnd sco args rc digests s \<longleftrightarrow>
     (case (runas_chroot (me_ctx env), rc) of
        (Some u, None) \<Rightarrow> dispatch_accepts env cmnd sco args (Some u) digests s
      | (Some u, Some r) \<Rightarrow> (strcmp r ''*'' = 0 \<or> strcmp r u = 0) \<and> dispatch_accepts env cmnd sco args (Some u) digests s
      | (None, None) \<Rightarrow> dispatch_accepts env cmnd sco args
          (case def_runchroot (me_defs env) of None \<Rightarrow> None
           | Some r \<Rightarrow> if strcmp r ''*'' \<noteq> 0 then Some r else None) digests s
      | (None, Some r) \<Rightarrow>
          (let (status, cmnd', s') = rule_chroot_enter env cmnd r s
           in dispatch_accepts env cmnd' sco args (Some r) digests s'))"

section \<open>Descriptors\<close>

definition wf_fds :: "match_state \<Rightarrow> bool" where
  "wf_fds s \<longleftrightarrow> distinct (map fst (ms_fds s)) \<and> (\<forall>fd\<in>set (map fst (ms_fds s)). 0 \<le> fd) \<and>
     (ms_execfd s = -1 \<or> ms_execfd s \<in> set (map fst (ms_fds s)))"

definition other_fds :: "match_state \<Rightarrow> (int \<times> string) list" where
  "other_fds s = filter (\<lambda>(n, path). n \<noteq> ms_execfd s) (ms_fds s)"

text \<open>What \<open>open_cmnd\<close> leaves: no descriptor, or a new one open at the path below the chroot.\<close>

definition held :: "match_state \<Rightarrow> string option \<Rightarrow> string \<Rightarrow> int \<Rightarrow> match_state \<Rightarrow> bool" where
  "held s rc path fd s1 \<longleftrightarrow>
     fd = -1 \<and> s1 = s \<or>
     (\<exists>p. in_chroot rc path = Some p \<and> fd = fresh_fd (ms_fds s) \<and> s1 = s\<lparr>ms_fds := (fd, p) # ms_fds s\<rparr>)"

lemma held_none [simp]: "held s rc path (-1) s1 \<longleftrightarrow> s1 = s"
  using fresh_fd(1) [of "ms_fds s"] by (auto simp: held_def)

lemma held_fields: "held s rc path fd s1 \<Longrightarrow>
    ms_cmnd_stat s1 = ms_cmnd_stat s \<and> ms_cmnd_dir s1 = ms_cmnd_dir s \<and> ms_info s1 = ms_info s \<and>
    ms_execfd s1 = ms_execfd s \<and> ms_runas_cmnd s1 = ms_runas_cmnd s"
  by (auto simp: held_def)

lemma open_cmnd_held:
  assumes "open_cmnd env path rc digests s = (ok, fd, s1)"
  shows "ok = can_open env rc path digests" "held s rc path fd s1"
    "ok \<Longrightarrow> fd = -1 \<Longrightarrow> digests = []" "\<not> ok \<Longrightarrow> fd = -1"
  using assms fresh_fd [of "ms_fds s"]
  by (auto simp: open_cmnd_def can_open_def held_def add_fd_def Let_def
      split: if_splits option.splits open_result.splits)

lemma close_held [simp]: "held s rc path fd s1 \<Longrightarrow> close_if fd s1 = s"
  "held s rc path fd s1 \<Longrightarrow> close_if fd (s1\<lparr>ms_runas_cmnd := x\<rparr>) = s\<lparr>ms_runas_cmnd := x\<rparr>"
  using fresh_fd(1) [of "ms_fds s"] by (auto simp: held_def close_if_def close_fd_def close_fresh)

lemma do_stat_held: "held s rc path fd s1 \<Longrightarrow> do_stat (me_fs env) s1 fd path rc = stat_below env rc path"
  using fresh_fd(1) [of "ms_fds s"] by (auto simp: held_def do_stat_def stat_below_def fd_path_def)

lemma digest_held:
  assumes "held s rc path fd s1" "fd = -1 \<Longrightarrow> digests = []"
  shows "digest_matches (me_fs env) fd path rc digests s1 = (verdict_if (verified env rc path digests), s1)"
  using assms fresh_fd(1) [of "ms_fds s"]
  by (auto simp: held_def digest_matches_def verified_def fd_path_def digest_loop_start Let_def)

text \<open>Without a descriptor the path is opened as it is, and closed again.\<close>

lemma digest_unheld:
  "digest_matches (me_fs env) (-1) path rc digests s =
     (verdict_if (digests = [] \<or> c_open (me_fs env) path = Opened \<and> in_chroot rc path \<noteq> None \<and>
        digest_listed (me_fs env) path digests), s)"
proof -
  obtain fd2 s1 where a: "add_fd path s = (fd2, s1)" by force
  then have f: "fd_path s1 fd2 = Some path" "fd2 \<noteq> -1"
    using fresh_fd(1) [of "ms_fds s"] by (auto simp: add_fd_def fd_path_def Let_def)
  show ?thesis
    using f(2) add_close_fd [OF a] by (auto simp: digest_matches_def a digest_loop_start [OF f(1)] Let_def)
qed

section \<open>Implementation\<close>

text \<open>
  The effect of a match: of the rest of the state, only \<open>runas.cmnd\<close> may change; a denial leaves
  the descriptors and the one for \<open>fexecve\<close> alone, and all others are left in any case.
\<close>

definition settled :: "bool \<Rightarrow> match_state \<Rightarrow> match_state \<Rightarrow> bool" where
  "settled ok s s' \<longleftrightarrow>
     ms_cmnd_stat s' = ms_cmnd_stat s \<and> ms_cmnd_dir s' = ms_cmnd_dir s \<and> ms_info s' = ms_info s \<and>
     (\<not> ok \<longrightarrow> ms_fds s' = ms_fds s \<and> ms_execfd s' = ms_execfd s) \<and>
     (wf_fds s \<longrightarrow> wf_fds s' \<and> other_fds s' = other_fds s)"

lemma settled_same [simp]: "settled ok s s" "settled ok s (s\<lparr>ms_runas_cmnd := x\<rparr>)"
  by (simp_all add: settled_def wf_fds_def other_fds_def)

definition implements :: "bool \<Rightarrow> match_state \<Rightarrow> verdict \<times> match_state \<Rightarrow> bool" where
  "implements ok s r \<longleftrightarrow> fst r = verdict_if ok \<and> settled ok s (snd r)"

lemma implements_pair [simp]:
  "implements ok s (ALLOW, s') \<longleftrightarrow> ok \<and> settled True s s'"
  "implements ok s (DENY, s') \<longleftrightarrow> \<not> ok \<and> settled False s s'"
  by (cases ok; auto simp: implements_def)+

lemma other_fds_fresh: "wf_fds s \<Longrightarrow> fresh_fd (ms_fds s) \<noteq> ms_execfd s"
  using fresh_fd [of "ms_fds s"] by (force simp: wf_fds_def)

lemma other_fds_closed:
  assumes "wf_fds s"
  shows "ms_fds (close_if (ms_execfd s) s) = other_fds s"
proof (cases "ms_execfd s = -1")
  case True
  then have "filter (\<lambda>(n, path). n \<noteq> ms_execfd s) (ms_fds s) = ms_fds s"
    using assms by (force simp: wf_fds_def filter_id_conv)
  then show ?thesis using True by (simp add: close_if_def other_fds_def)
qed (simp add: close_if_def close_fd_def other_fds_def)

lemma other_fds_wf: "wf_fds s \<Longrightarrow>
    distinct (map fst (other_fds s)) \<and> (\<forall>fd\<in>fst ` set (other_fds s). 0 \<le> fd) \<and>
    fresh_fd (ms_fds s) \<notin> fst ` set (other_fds s)"
  using fresh_fd(2) [of "ms_fds s"] by (auto simp: wf_fds_def other_fds_def distinct_map_filter)

lemma wf_fds_intro:
  assumes "distinct (map fst os)" "\<forall>fd\<in>fst ` set os. 0 \<le> fd"
    and "ms_fds r = os \<and> ms_execfd r = -1 \<or> (\<exists>f p. ms_fds r = (f, p) # os \<and> ms_execfd r = f \<and> 0 \<le> f \<and> f \<notin> fst ` set os)"
  shows "wf_fds r \<and> other_fds r = os"
proof -
  have "filter (\<lambda>(n, path). n \<noteq> f) os = os" if "f \<notin> fst ` set os" for f
    using that by (force simp: filter_id_conv)
  moreover from this have "filter (\<lambda>(n, path). n \<noteq> -1) os = os" using assms(2) by force
  ultimately show ?thesis using assms by (auto simp: wf_fds_def other_fds_def)
qed

lemma settled_set_cmnd_fd:
  assumes "held s rc path fd s1"
  shows "settled True s (set_cmnd_fd env fd (s1\<lparr>ms_runas_cmnd := x\<rparr>))" "settled True s (set_cmnd_fd env fd s1)"
proof -
  have 1: "wf_fds (set_cmnd_fd env fd t) \<and> other_fds (set_cmnd_fd env fd t) = other_fds s"
    if w: "wf_fds s" and t: "ms_fds t = ms_fds s1" "ms_execfd t = ms_execfd s1" for t
  proof -
    let ?t = "close_if (ms_execfd t) t" and ?os = "other_fds s"
    have os: "distinct (map fst ?os)" "\<forall>fd\<in>fst ` set ?os. 0 \<le> fd" "fresh_fd (ms_fds s) \<notin> fst ` set ?os"
      using other_fds_wf [OF w] by simp_all
    have f: "fd = -1 \<and> ms_fds ?t = ?os \<or> (\<exists>p. fd = fresh_fd (ms_fds s) \<and> ms_fds ?t = (fd, p) # ?os)"
      using assms t other_fds_closed [OF w] other_fds_fresh [OF w]
      by (auto simp: held_def close_if_def close_fd_def split: if_splits)
    have k: "filter (\<lambda>(n, path). n \<noteq> fresh_fd (ms_fds s)) ?os = ?os"
      using os by (force simp: filter_id_conv)
    let ?r = "set_cmnd_fd env fd t"
    have "ms_fds ?r = ?os \<and> ms_execfd ?r = -1 \<or> (\<exists>p. ms_fds ?r = (fresh_fd (ms_fds s), p) # ?os \<and>
        ms_execfd ?r = fresh_fd (ms_fds s))"
      using f k by (auto simp: set_cmnd_fd_def Let_def close_fd_def)
    then show ?thesis by (intro wf_fds_intro) (use os fresh_fd(1) [of "ms_fds s"] in blast)+
  qed
  have 2: "ms_cmnd_stat (set_cmnd_fd env fd t) = ms_cmnd_stat t" "ms_cmnd_dir (set_cmnd_fd env fd t) = ms_cmnd_dir t"
    "ms_info (set_cmnd_fd env fd t) = ms_info t" for t
    by (simp_all add: set_cmnd_fd_def Let_def close_if_def close_fd_def)
  show "settled True s (set_cmnd_fd env fd (s1\<lparr>ms_runas_cmnd := x\<rparr>))" "settled True s (set_cmnd_fd env fd s1)"
    using 1 2 held_fields [OF assms] by (simp_all add: settled_def)
qed

lemma dir_result: "\<exists>x. command_matches_dir env dir rc digests s =
    (if dir_accepts env dir rc digests s then (ALLOW, s\<lparr>ms_runas_cmnd := x\<rparr>) else (DENY, s))"
proof (cases "in_chroot rc dir")
  case (Some d)
  let ?p = "d @ CHR ''/'' # user_cmnd_base (me_ctx env)"
  obtain ok fd s1 where o: "open_cmnd env ?p None digests s = (ok, fd, s1)" by (metis prod_cases3)
  note h = open_cmnd_held [OF o]
  show ?thesis
  proof (cases "dir_agrees (me_fs env) s d \<and> length ?p < PATH_MAX \<and> ok")
    case True
    then show ?thesis
      using h held_fields [OF h(2)] digest_held [OF h(2), of digests env]
      by (auto simp: command_matches_dir_def dir_accepts_def accepts_file_def inode_ok_agrees Some o Let_def
          do_stat_held [OF h(2)] stat_agrees_def split: option.split)
  next
    case False
    then show ?thesis using h
      by (auto simp: command_matches_dir_def dir_accepts_def accepts_file_def Some o Let_def)
  qed
qed (simp add: command_matches_dir_def dir_accepts_def)

lemma dir_implements: "implements (dir_accepts env dir rc digests s) s (command_matches_dir env dir rc digests s)"
  using dir_result [of env dir rc digests s] by (auto split: if_splits)

lemma verified_nil [simp]: "verified env rc path []"
  by (simp add: verified_def)

lemma all_implements: "implements (all_accepts env cmnd rc digests) s (command_matches_all env cmnd rc digests s)"
proof (cases "strchr cmnd (CHR ''/'') = None")
  case True
  then show ?thesis
    using settled_set_cmnd_fd(2) [of s rc cmnd "-1" s env]
    by (simp add: command_matches_all_def all_accepts_def digest_unheld close_if_def)
next
  case False
  obtain ok fd s1 where o: "open_cmnd env cmnd rc digests s = (ok, fd, s1)" by (metis prod_cases3)
  note h = open_cmnd_held [OF o]
  show ?thesis
  proof (cases ok)
    case True
    then show ?thesis
      using h False digest_held [OF h(2), of digests env] settled_set_cmnd_fd(2) [OF h(2), of env]
      by (auto simp: command_matches_all_def all_accepts_def o Let_def)
  next
    case notok: False
    then show ?thesis
      using h False do_stat_held [OF h(2), of env] settled_set_cmnd_fd(2) [of s rc cmnd "-1" s env]
      by (auto simp: command_matches_all_def all_accepts_def o Let_def digest_unheld close_if_def)
  qed
qed

lemma name_implements:
  "implements (name_accepts env f cmnd sc args rc digests s) s
     (case matched_name env f cmnd s of None \<Rightarrow> (DENY, s)
      | Some c \<Rightarrow> check_matched env sc args c rc digests s)"
proof (cases "matched_name env f cmnd s")
  case (Some c)
  obtain ok fd s1 where o: "open_cmnd env c rc digests s = (ok, fd, s1)" by (metis prod_cases3)
  note h = open_cmnd_held [OF o]
  show ?thesis
    using h digest_held [OF h(2), of digests env] do_stat_held [OF h(2), of env]
      settled_set_cmnd_fd(2) [OF h(2), of env]
    by (auto simp: name_accepts_def check_matched_def Some o Let_def args_ok_def)
qed (simp add: name_accepts_def)

lemma normal_implements:
  "implements (normal_accepts env cmnd sc args rc digests s) s (command_matches_normal env cmnd sc args rc digests s)"
proof (cases "ends_slash sc")
  case True
  then show ?thesis by (simp add: normal_accepts_def command_matches_normal_def dir_implements)
next
  case False
  obtain ok fd s1 where o: "open_cmnd env sc rc digests s = (ok, fd, s1)" by (metis prod_cases3)
  note h = open_cmnd_held [OF o]
  let ?pre = "strcmp (user_cmnd_base (me_ctx env)) (sudo_basename sc) = 0 \<and>
        (ms_cmnd_dir s = None \<or> (case strrchr sc (CHR ''/'') of None \<Rightarrow> True
           | Some slash \<Rightarrow> length sc - length slash < PATH_MAX)) \<and> parent_agrees (me_fs env) s sc"
  let ?same = "case (ms_cmnd_stat s, stat_below env rc sc) of (Some a, Some b) \<Rightarrow> same_file a b | _ \<Rightarrow> strcmp cmnd sc = 0"
  have spec: "normal_accepts env cmnd sc args rc digests s \<longleftrightarrow>
      ?pre \<and> ok \<and> ?same \<and> args_ok env sc args \<and> verified env rc sc digests"
    using h(1) False by (auto simp: normal_accepts_def)
  show ?thesis
  proof (cases ?pre)
    case True
    then have pre: "(ms_cmnd_dir s \<noteq> None \<and> (case strrchr sc (CHR ''/'') of None \<Rightarrow> False
        | Some slash \<Rightarrow> length sc - length slash \<ge> PATH_MAX)) = False"
      by (auto split: option.splits)
    have st: "do_stat (me_fs env) s1 fd sc rc = stat_below env rc sc" by (rule do_stat_held [OF h(2)])
    have "command_matches_normal env cmnd sc args rc digests s =
        (if \<not> ok then (DENY, close_if fd s1)
         else if \<not> ?same then (DENY, close_if fd s1)
         else if \<not> args_ok env sc args then (DENY, close_if fd s1)
         else let (matched, s) = digest_matches (me_fs env) fd sc rc digests s1 in
           if matched \<noteq> ALLOW then (DENY, close_if fd s)
           else (ALLOW, set_cmnd_fd env fd (s\<lparr>ms_runas_cmnd := Some sc\<rparr>)))"
      using True False held_fields [OF h(2)]
      by (simp only: command_matches_normal_def pre o st args_ok_def Let_def prod.case if_False simp_thms)
    then show ?thesis
      using spec True h digest_held [OF h(2), of digests env] settled_set_cmnd_fd(1) [OF h(2), of env]
      by (cases "ok \<and> ?same \<and> args_ok env sc args") auto
  next
    case pre: False
    then have "command_matches_normal env cmnd sc args rc digests s = (DENY, s)"
      using False by (auto simp: command_matches_normal_def Let_def split: option.splits)
    then show ?thesis using spec pre by simp
  qed
qed

lemma strip_drop: "drop (case rc of None \<Rightarrow> 0 | Some r \<Rightarrow> length r) cp = strip rc cp"
  by (simp add: strip_def)

lemma glob_exact_result:
  assumes "close_if fd s = s0" "glob_exact env cmnd rc digests ap fd bad s = (exit, fd', bad', s')"
  shows "if cmnd \<in> set (map (strip rc) ap) \<and> can_open env rc cmnd digests \<and> stat_below env rc cmnd \<noteq> None
    then if \<not> inode_ok env rc cmnd s0 then exit = GlobDone None \<and> close_if fd' s' = s0
      else if verified env rc cmnd digests
      then exit = GlobDone (Some cmnd) \<and> (\<exists>s1. held s0 rc cmnd fd' s1 \<and> s' = s1\<lparr>ms_runas_cmnd := Some cmnd\<rparr>)
      else exit = GlobEnd \<and> bad' \<and> close_if fd' s' = s0
    else exit = GlobEnd \<and> bad' = bad \<and> close_if fd' s' = s0"
  using assms
proof (induction ap arbitrary: fd bad s)
  case (Cons cp ap)
  show ?case
  proof (cases "strip rc cp = cmnd")
    case False
    then have "glob_exact env cmnd rc digests ap (-1) bad s0 = (exit, fd', bad', s')"
      using Cons.prems by (simp add: strip_drop Let_def)
    from Cons.IH [OF _ this] False show ?thesis by (simp add: close_if_def)
  next
    case True
    obtain ok fd1 s1 where o: "open_cmnd env cmnd rc digests s0 = (ok, fd1, s1)" by (metis prod_cases3)
    note h = open_cmnd_held [OF o]
    have ag: "stat_agrees s1 sb = stat_agrees s0 sb" for sb
      using held_fields [OF h(2)] by (simp add: stat_agrees_def)
    have dm: "digest_matches (me_fs env) fd1 cmnd rc digests s1 = (verdict_if (verified env rc cmnd digests), s1)" if ok
      using h that by (intro digest_held [OF h(2)]) simp
    have step: "glob_exact env cmnd rc digests (cp # ap) fd bad s =
      (if \<not> ok \<or> stat_below env rc cmnd = None then glob_exact env cmnd rc digests ap fd1 bad s1
       else if \<not> inode_ok env rc cmnd s0 then (GlobDone None, fd1, bad, s1)
       else if verified env rc cmnd digests then (GlobDone (Some cmnd), fd1, bad, s1\<lparr>ms_runas_cmnd := Some cmnd\<rparr>)
       else glob_exact env cmnd rc digests ap fd1 True s1)"
      unfolding glob_exact.simps strip_drop Let_def True Cons.prems(1) o
      using do_stat_held [OF h(2), of env] by (simp add: inode_ok_agrees ag dm split: option.split)
    have c: "close_if fd1 s1 = s0" using h by simp
    note IH = Cons.IH [OF c]
    show ?thesis
      using Cons.prems(2) IH [of bad] IH [of True] True h unfolding step
      by (auto split: if_splits)
  qed
qed (simp add: close_if_def)

lemma glob_names_result:
  assumes "close_if fd s = s0" "glob_names env rc digests ap fd s = (exit, fd', s')"
  shows "case find (glob_candidate env rc digests s0) (map (strip rc) ap) of
      None \<Rightarrow> exit = GlobEnd \<and> close_if fd' s' = s0
    | Some cp \<Rightarrow>
        if ends_slash cp then exit = GlobDir \<and> (\<exists>x. s' = s0\<lparr>ms_runas_cmnd := x\<rparr>)
        else exit = GlobDone (Some cp) \<and> (\<exists>s1. held s0 rc cp fd' s1 \<and> s' = s1\<lparr>ms_runas_cmnd := Some cp\<rparr>)"
  using assms
proof (induction ap arbitrary: fd s)
  case (Cons ap1 ap)
  let ?cp = "strip rc ap1"
  obtain ok fd1 s1 where o: "open_cmnd env ?cp rc digests s0 = (ok, fd1, s1)" by (metis prod_cases3)
  note h = open_cmnd_held [OF o]
  have dm: "digest_matches (me_fs env) fd1 ?cp rc digests s1 = (verdict_if (verified env rc ?cp digests), s1)" if ok
    using h that by (intro digest_held [OF h(2)]) simp
  have ag: "stat_agrees s1 sb = stat_agrees s0 sb" for sb
    using held_fields [OF h(2)] by (simp add: stat_agrees_def)
  obtain x where d: "command_matches_dir env ?cp rc digests s0 =
      (if dir_accepts env ?cp rc digests s0 then (ALLOW, s0\<lparr>ms_runas_cmnd := x\<rparr>) else (DENY, s0))"
    using dir_result by blast
  let ?rest = "glob_names env rc digests ap" and ?cand = "glob_candidate env rc digests s0 ?cp"
  have step: "glob_names env rc digests (ap1 # ap) fd s =
    (if ends_slash ?cp then if ?cand then (GlobDir, -1, s0\<lparr>ms_runas_cmnd := x\<rparr>) else ?rest (-1) s0
     else if strcmp (user_cmnd_base (me_ctx env)) (sudo_basename ?cp) \<noteq> 0 then ?rest (-1) s0
     else if \<not> parent_agrees (me_fs env) s0 ?cp then ?rest (-1) s0
     else if ?cand then (GlobDone (Some ?cp), fd1, s1\<lparr>ms_runas_cmnd := Some ?cp\<rparr>) else ?rest fd1 s1)"
    unfolding glob_names.simps strip_drop Let_def Cons.prems(1) o d
    using do_stat_held [OF h(2), of env] h(1)
    by (simp add: inode_ok_agrees glob_candidate_def accepts_file_def ag dm split: option.split)
  have "close_if fd1 s1 = s0" using h by simp
  moreover have "close_if (-1) s0 = s0" by (simp add: close_if_def)
  ultimately have cl: "close_if fd1 s1 = s0" "close_if (-1) s0 = s0" .
  note IH = Cons.IH [OF cl(1)] Cons.IH [OF cl(2)]
  have cand: "?cand \<Longrightarrow> \<not> ends_slash ?cp \<Longrightarrow> strcmp (user_cmnd_base (me_ctx env)) (sudo_basename ?cp) = 0 \<and>
      parent_agrees (me_fs env) s0 ?cp" by (simp add: glob_candidate_def)
  show ?case
  proof (cases ?cand)
    case True
    then show ?thesis using Cons.prems(2) h cand unfolding step by (auto split: if_splits)
  next
    case False
    then have "?rest (-1) s0 = (exit, fd', s') \<or> ?rest fd1 s1 = (exit, fd', s')"
      using Cons.prems(2) unfolding step by (simp split: if_splits)
    then show ?thesis using False IH by (elim disjE) (simp_all split del: if_split)
  qed
qed (simp add: close_if_def)

lemma glob_implements:
  "implements (glob_accepts env cmnd sc args rc digests s) s (command_matches_glob env cmnd sc args rc digests s)"
proof (cases "\<exists>pat pathv. in_chroot rc sc = Some pat \<and> fs_glob (me_fs env) pat = Some pathv \<and> pathv \<noteq> [] \<and>
    (ends_slash pat \<or> has_meta (sudo_basename pat) \<or> strcmp (user_cmnd_base (me_ctx env)) (sudo_basename pat) = 0)")
  case False
  then show ?thesis
    by (auto simp: glob_accepts_def command_matches_glob_def Let_def split: option.split)
next
  case True
  then obtain pat pathv where p: "in_chroot rc sc = Some pat" "fs_glob (me_fs env) pat = Some pathv" "pathv \<noteq> []"
    "ends_slash pat \<or> has_meta (sudo_basename pat) \<or> strcmp (user_cmnd_base (me_ctx env)) (sudo_basename pat) = 0"
    by blast
  obtain e1 fd1 bad s1 where x: "(if c_at cmnd = CHR ''/'' then glob_exact env cmnd rc digests pathv (-1) False s
      else (GlobEnd, -1, False, s)) = (e1, fd1, bad, s1)" by (metis prod_cases4)
  obtain e2 fd2 s2 where y: "(if e1 = GlobEnd \<and> \<not> bad then glob_names env rc digests pathv fd1 s1
      else (e1, fd1, s1)) = (e2, fd2, s2)" by (metis prod_cases3)
  have r: "command_matches_glob env cmnd sc args rc digests s =
     (case e2 of GlobDir \<Rightarrow> (ALLOW, s2)
      | GlobDone (Some cp) \<Rightarrow>
          if args_ok env pat args then (ALLOW, set_cmnd_fd env fd2 s2) else (DENY, close_if fd2 s2)
      | _ \<Rightarrow> (DENY, close_if fd2 s2))"
    using p x y by (auto simp: command_matches_glob_def Let_def args_ok_def)
  let ?hit = "c_at cmnd = CHR ''/'' \<and> cmnd \<in> set (map (strip rc) pathv) \<and> can_open env rc cmnd digests \<and>
    stat_below env rc cmnd \<noteq> None"
  have spec: "glob_accepts env cmnd sc args rc digests s \<longleftrightarrow>
    (if ?hit then inode_ok env rc cmnd s \<and> verified env rc cmnd digests \<and> args_ok env pat args
     else case find (glob_candidate env rc digests s) (map (strip rc) pathv) of None \<Rightarrow> False
       | Some cp \<Rightarrow> ends_slash cp \<or> args_ok env pat args)"
    using p by (auto simp: glob_accepts_def Let_def)
  have c: "close_if (-1) s = s" by (simp add: close_if_def)
  show ?thesis
  proof (cases ?hit)
    case True
    then have "glob_exact env cmnd rc digests pathv (-1) False s = (e1, fd1, bad, s1)" using x by simp
    note g = glob_exact_result [OF c this]
    show ?thesis
      using g True y by (auto simp: r spec settled_set_cmnd_fd(1) split: if_splits)
  next
    case False
    have "e1 = GlobEnd \<and> \<not> bad \<and> close_if fd1 s1 = s"
      using x False glob_exact_result [OF c, of env cmnd rc digests pathv False e1 fd1 bad s1] c
      by (auto split: if_splits)
    then have "glob_names env rc digests pathv fd1 s1 = (e2, fd2, s2)" "close_if fd1 s1 = s" using y by simp_all
    from glob_names_result [OF this(2,1)] show ?thesis
      using False by (auto simp: r spec settled_set_cmnd_fd(1) split: if_splits option.splits)
  qed
qed

lemma regex_implements:
  "implements (name_accepts env (\<lambda>c. regex_matches (me_fs env) sc c = ALLOW) cmnd sc args rc digests s) s
     (command_matches_regex env cmnd sc args rc digests s)"
  unfolding command_matches_regex_def by (rule name_implements)

lemma fnmatch_implements:
  "implements (name_accepts env (\<lambda>c. fs_fnmatch (me_fs env) sc c True) cmnd sc args rc digests s) s
     (command_matches_fnmatch env cmnd sc args rc digests s)"
  unfolding command_matches_fnmatch_def by (rule name_implements)

lemma dispatch_implements:
  "implements (dispatch_accepts env cmnd sco args rc digests s) s (command_dispatch env cmnd sco args rc digests s)"
proof (cases sco)
  case (Some sc)
  then show ?thesis
    by (simp add: command_dispatch_def dispatch_accepts_def args_ok_def regex_implements fnmatch_implements
        glob_implements normal_implements)
qed (simp add: command_dispatch_def dispatch_accepts_def all_implements)

text \<open>Entering the chroot of a rule and leaving it changes no descriptor.\<close>

lemma rule_chroot_enter_fds:
  "rule_chroot_enter env cmnd r s = (status, cmnd', s') \<Longrightarrow> ms_fds s' = ms_fds s \<and> ms_execfd s' = ms_execfd s"
  by (auto simp: rule_chroot_enter_def set_cmnd_path_def Let_def split_beta)

lemma rule_chroot_leave_fds:
  "ms_fds (rule_chroot_leave status cmnd sb s) = ms_fds s" "ms_execfd (rule_chroot_leave status cmnd sb s) = ms_execfd s"
  by (simp_all add: rule_chroot_leave_def)

definition fds_settled :: "bool \<Rightarrow> match_state \<Rightarrow> match_state \<Rightarrow> bool" where
  "fds_settled ok s s' \<longleftrightarrow>
     (\<not> ok \<longrightarrow> ms_fds s' = ms_fds s \<and> ms_execfd s' = ms_execfd s) \<and>
     (wf_fds s \<longrightarrow> wf_fds s' \<and> other_fds s' = other_fds s)"

lemma fds_settled_via:
  "ms_fds t = ms_fds s \<Longrightarrow> ms_execfd t = ms_execfd s \<Longrightarrow> ms_fds t' = ms_fds s' \<Longrightarrow> ms_execfd t' = ms_execfd s' \<Longrightarrow>
     settled ok t t' \<Longrightarrow> fds_settled ok s s'"
  by (simp add: settled_def fds_settled_def wf_fds_def other_fds_def)

lemma command_matches_plain:
  assumes "runas_chroot (me_ctx env) \<noteq> None \<or> rc = None"
  obtains rc' where "\<And>digests s. command_matches env cmnd sco args rc digests s = (DENY, s) \<and>
      \<not> command_accepts env cmnd sco args rc digests s \<or>
    command_matches env cmnd sco args rc digests s = command_dispatch env cmnd sco args rc' digests s \<and>
      command_accepts env cmnd sco args rc digests s = dispatch_accepts env cmnd sco args rc' digests s"
proof (cases "runas_chroot (me_ctx env)")
  case None
  then have "rc = None" using assms by simp
  then show ?thesis using None
    by (intro that [of "case def_runchroot (me_defs env) of None \<Rightarrow> None
        | Some r \<Rightarrow> if strcmp r ''*'' \<noteq> 0 then Some r else None"])
      (simp add: command_matches_def command_accepts_def)
next
  case (Some u)
  then show ?thesis
    by (intro that [of "Some u"]) (cases rc; simp add: command_matches_def command_accepts_def)
qed

lemma command_matches_implements:
  "fst (command_matches env cmnd sco args rc digests s) = verdict_if (command_accepts env cmnd sco args rc digests s) \<and>
   fds_settled (command_accepts env cmnd sco args rc digests s) s (snd (command_matches env cmnd sco args rc digests s))"
proof (cases "runas_chroot (me_ctx env) = None \<and> rc \<noteq> None")
  case True
  then obtain r where r: "rc = Some r" by auto
  obtain status cmnd' s1 where e: "rule_chroot_enter env cmnd r s = (status, cmnd', s1)" by (metis prod_cases3)
  obtain v s2 where d: "command_dispatch env cmnd' sco args (Some r) digests s1 = (v, s2)" by force
  have i: "v = verdict_if (dispatch_accepts env cmnd' sco args (Some r) digests s1)"
    "settled (dispatch_accepts env cmnd' sco args (Some r) digests s1) s1 s2"
    using dispatch_implements [of env cmnd' sco args "Some r" digests s1] by (simp_all add: d implements_def)
  show ?thesis
    using True r i fds_settled_via [OF _ _ _ _ i(2)] rule_chroot_enter_fds [OF e]
    by (simp add: command_matches_def command_accepts_def e d Let_def rule_chroot_leave_fds)
next
  case False
  then obtain rc' where "command_matches env cmnd sco args rc digests s = (DENY, s) \<and>
      \<not> command_accepts env cmnd sco args rc digests s \<or>
    command_matches env cmnd sco args rc digests s = command_dispatch env cmnd sco args rc' digests s \<and>
      command_accepts env cmnd sco args rc digests s = dispatch_accepts env cmnd sco args rc' digests s"
    using command_matches_plain [of env rc cmnd sco args] by metis
  then show ?thesis
    using dispatch_implements [of env cmnd sco args rc' digests s]
    by (auto simp: implements_def settled_def fds_settled_def)
qed

end
