(* ===== verification/Samples.thy ===== *)
theory Samples
  imports Sudoers
begin

text \<open>Sample data for the concrete instances of the properties: a user, an invocation, Defaults and policies.\<close>

definition sample_pw :: "string \<Rightarrow> 32 word \<Rightarrow> passwd" where
  "sample_pw name uid = \<lparr>pw_name = name, pw_uid = uid, pw_gid = uid, pw_dir = ''/'', pw_shell = ''/bin/sh''\<rparr>"

definition sample_ctx :: sudo_context where
  "sample_ctx = \<lparr>user_name = ''alice'', user_uid = 1000, user_gid = 1000, user_pw = sample_pw ''alice'' 1000,
     user_cmnd = None, user_cmnd_args = None, user_cmnd_base = ''ls'', user_path = None, user_gid_list = None,
     runas_pw = sample_pw ''root'' 0, runas_gr = None, runas_list_pw = None, runas_chroot = None, runas_argv0 = ''ls'',
     runas_host = ''box.example.org'', runas_shost = ''box'', runas_role = None, runas_type = None,
     runas_apparmor_profile = None, runas_privs = None, runas_limitprivs = None, settings_flags = 0\<rparr>"

definition sample_defs :: sudo_defs where
  "sample_defs = \<lparr>def_netgroup_tuple = False, def_use_netgroups = False, def_case_insensitive_user = False,
     def_case_insensitive_group = False, def_group_plugin = None, def_always_query_group_plugin = False,
     def_preserve_groups = False, def_runas_default = ''root'', def_authenticate = True, def_noexec = False,
     def_intercept = False, def_setenv = False, def_log_input = False, def_log_output = False,
     def_mail_all_cmnds = False, def_mail_always = False, def_mail_no_perms = False,
     def_sudoedit_follow = False, def_role = None, def_type = None, def_apparmor_profile = None,
     def_privs = None, def_limitprivs = None, def_command_timeout = 0, def_runcwd = None,
     def_runchroot = None, def_log_stdin = False, def_log_ttyin = False, def_log_stdout = False,
     def_log_stderr = False, def_log_ttyout = False, def_fdexec = never, def_fast_glob = False,
     def_ignore_dot = False, def_secure_path = None, def_exempt_group = None, def_tuple_of = (\<lambda>_. any)\<rparr>"

definition sample_cmnd :: "string \<Rightarrow> bool \<Rightarrow> member" where
  "sample_cmnd path neg = \<lparr>m_name = Cmnd \<lparr>sc_cmnd = Some path, sc_args = None, sc_digests = []\<rparr>,
     m_type = COMMAND, m_negated = neg\<rparr>"

definition no_tags :: cmndtag where
  "no_tags = \<lparr>t_follow = Tag_UNSPEC, t_intercept = Tag_UNSPEC, t_log_input = Tag_UNSPEC,
     t_log_output = Tag_UNSPEC, t_noexec = Tag_UNSPEC, t_nopasswd = Tag_UNSPEC,
     t_send_mail = Tag_UNSPEC, t_setenv = Tag_UNSPEC\<rparr>"

definition sample_entry :: "string \<Rightarrow> bool \<Rightarrow> cmndspec" where
  "sample_entry path neg = \<lparr>runasuserlist = None, runasgrouplist = None, cs_cmnd = sample_cmnd path neg,
     cs_tags = no_tags, cs_timeout = -1, notbefore = -1, notafter = -1, cs_runcwd = None,
     cs_runchroot = None, cs_role = None, cs_type = None, cs_apparmor_profile = None, cs_privs = None,
     cs_limitprivs = None\<rparr>"

definition word_member :: "string \<Rightarrow> member" where
  "word_member name = \<lparr>m_name = Name name, m_type = WORD, m_negated = False\<rparr>"

definition all_member :: member where
  "all_member = \<lparr>m_name = NoName, m_type = ALL_member, m_negated = False\<rparr>"

text \<open>\<open>alice ALL = entries\<close>\<close>

definition sample_spec :: "cmndspec list \<Rightarrow> userspec" where
  "sample_spec entries = \<lparr>us_users = [word_member ''alice''],
     us_privileges = [\<lparr>hostlist = [all_member], cmndlist = entries, p_defaults = []\<rparr>],
     us_line = 1, us_column = 1, us_file = ''sudoers''\<rparr>"

definition sample_tree :: "userspec list \<Rightarrow> parse_tree" where
  "sample_tree specs = \<lparr>userspecs = specs, pt_defaults = [], aliases = None, pt_shost = None,
     pt_lhost = None, pt_innetgr = None\<rparr>"

text \<open>A command matcher that compares names and gives back the path it found.\<close>

definition sample_cm :: "string \<Rightarrow> sudo_command \<Rightarrow> string option \<Rightarrow> match_state \<Rightarrow> verdict \<times> match_state" where
  "sample_cm path c runchroot s =
     (if sc_cmnd c = Some path
      then (ALLOW, s\<lparr>ms_info := Some \<lparr>ci_path = Some path, ci_stat = stat0, ci_status = 1\<rparr>\<rparr>) else (DENY, s))"

definition sample_ms :: match_state where
  "sample_ms = \<lparr>ms_info = None, ms_runas_cmnd = None, ms_execfd = -1,
     ms_cmnd_stat = Some stat0, ms_cmnd_dir = None, ms_fds = []\<rparr>"

lemmas sample_defs_all = sample_pw_def sample_ctx_def sample_defs_def sample_cmnd_def no_tags_def
  sample_entry_def word_member_def all_member_def sample_spec_def sample_tree_def sample_cm_def sample_ms_def

end
