(* ===== verification/MatchEval.thy ===== *)
theory MatchEval
  imports Match Samples
begin

text \<open>
  What the list matchers of \<open>Match\<close> compute. A member list is expanded: each alias that can be
  entered is replaced by its members, with the sign of the alias; the verdict is that of the last
  entry of the expansion that matches. The matchers share this contract as the locale
  \<open>member_eval\<close>, which is interpreted on each of them.
\<close>

section \<open>Expansion of aliases\<close>

text \<open>
  The entries in the order they are tried (last first), each with the sign it gets from the
  aliases around it. An alias in use or not defined stays as an entry.
\<close>

definition entered :: "alias_table \<Rightarrow> alias_type \<Rightarrow> member \<Rightarrow> (alias_entry \<times> alias_table) option" where
  "entered al ty m =
     (if m_type m = ALIAS then
        (case alias_get al (name_str (m_name m)) ty of Inr p \<Rightarrow> Some p | Inl _ \<Rightarrow> None)
      else None)"

lemma entered_unused: "entered al ty m = Some (a, al') \<Longrightarrow> unused al' < unused al"
  by (auto simp: entered_def dest: alias_get_unused split: if_splits sum.splits)

function flat :: "alias_table \<Rightarrow> alias_type \<Rightarrow> bool \<Rightarrow> member list \<Rightarrow> (bool \<times> member) list" where
  "flat al ty neg [] = []"
| "flat al ty neg (m # ms) =
     (case entered al ty m of
        Some (a, al') \<Rightarrow> flat al' ty (neg \<noteq> m_negated m) (rev (a_members a))
      | None \<Rightarrow> [(neg, m)]) @ flat al ty neg ms"
  by pat_completeness auto
termination
  by (relation "measures [\<lambda>(al, ty, neg, ms). unused al, \<lambda>(al, ty, neg, ms). length ms]")
    (auto dest: entered_unused)

text \<open>Induction along the expansion, for statements that do not follow the sign.\<close>

lemma flat_induct [case_names Nil Cons]:
  assumes "\<And>al. P al []"
    and "\<And>al m ms. (\<And>a al'. entered al ty m = Some (a, al') \<Longrightarrow> P al' (rev (a_members a))) \<Longrightarrow>
      P al ms \<Longrightarrow> P al (m # ms)"
  shows "P al ms"
proof -
  have "t = ty \<Longrightarrow> P al ms" for t and neg :: bool
    by (induction al t neg ms rule: flat.induct) (auto intro: assms)
  then show ?thesis by blast
qed

definition expand :: "alias_table \<Rightarrow> alias_type \<Rightarrow> member list \<Rightarrow> (bool \<times> member) list" where
  \<comment> \<open>in the order of the file\<close>
  "expand al ty ms = rev (flat al ty False (rev ms))"

definition under_sign :: "bool \<Rightarrow> verdict \<Rightarrow> verdict" where
  "under_sign neg v = (if neg \<and> SPECIFIED v then flip_verdict v else v)"

fun scan :: "(member \<Rightarrow> 's \<Rightarrow> verdict \<times> 's) \<Rightarrow> (bool \<times> member) list \<Rightarrow> 's \<Rightarrow> verdict \<times> 's" where
  "scan leaf [] s = (UNSPEC, s)"
| "scan leaf ((neg, m) # xs) s =
     (let (v, s1) = leaf m s in if SPECIFIED v then (under_sign neg v, s1) else scan leaf xs s1)"

definition last_match :: "(member \<Rightarrow> verdict) \<Rightarrow> (bool \<times> member) list \<Rightarrow> verdict" where
  "last_match w xs =
     (let ys = filter (\<lambda>(neg, m). SPECIFIED (w m)) xs in
      if ys = [] then UNSPEC else case last ys of (neg, m) \<Rightarrow> under_sign neg (w m))"

lemma under_sign_simps [simp]: "under_sign False v = v" "under_sign n UNSPEC = UNSPEC"
  "SPECIFIED (under_sign n v) = SPECIFIED v"
  by (cases v; cases n; simp add: under_sign_def flip_verdict_def)+

lemma alias_verdict_under_sign: "alias_verdict m rc = under_sign (m_negated m) rc"
  by (cases rc) (simp_all add: alias_verdict_def under_sign_def)

lemma under_sign_signed: "under_sign a (under_sign b v) = under_sign (a \<noteq> b) v"
  by (cases v; cases a; cases b; simp add: under_sign_def flip_verdict_def)

lemma scan_append:
  "scan leaf (xs @ ys) s = (let (v, s1) = scan leaf xs s in if SPECIFIED v then (v, s1) else scan leaf ys s1)"
proof (induction xs arbitrary: s)
  case (Cons x xs)
  obtain n m where "x = (n, m)" by force
  moreover obtain v s1 where "leaf m s = (v, s1)" by force
  ultimately show ?case using Cons by simp
qed simp

lemma scan_toggle:
  "scan leaf (map (\<lambda>(n, m). (n \<noteq> b, m)) xs) s = (let (v, s1) = scan leaf xs s in (under_sign b v, s1))"
proof (induction xs arbitrary: s)
  case (Cons x xs)
  obtain n m where x: "x = (n, m)" by force
  obtain v s1 where l: "leaf m s = (v, s1)" by force
  have "under_sign (n \<noteq> b) v = under_sign b (under_sign n v)"
    by (cases v; cases n; cases b; simp add: under_sign_def flip_verdict_def)
  then show ?case using Cons x l by (simp add: Let_def)
qed simp

lemma flat_toggle: "flat al ty (neg \<noteq> b) ms = map (\<lambda>(n, m). (n \<noteq> b, m)) (flat al ty neg ms)"
proof (induction al ty neg ms rule: flat.induct)
  case (2 al ty neg m ms)
  show ?case
  proof (cases "entered al ty m")
    case None
    then show ?thesis using 2(2) by simp
  next
    case (Some p)
    obtain a al' where p: "p = (a, al')" by force
    have "((neg \<noteq> b) \<noteq> m_negated m) = ((neg \<noteq> m_negated m) \<noteq> b)" by blast
    then show ?thesis using 2(1) [OF Some p [symmetric]] 2(2) Some p by simp
  qed
qed simp

lemma scan_pure: "scan (\<lambda>m s. (w m, s)) xs s = (last_match w (rev xs), s)"
proof (induction xs)
  case (Cons x xs)
  obtain n m where [simp]: "x = (n, m)" by force
  show ?case using Cons by (simp add: last_match_def Let_def)
qed (simp add: last_match_def)

section \<open>The shared contract\<close>

locale member_eval =
  fixes evals :: "alias_table \<Rightarrow> member list \<Rightarrow> 's \<Rightarrow> verdict \<times> 's"
    and leaf :: "member \<Rightarrow> 's \<Rightarrow> verdict \<times> 's"
    and ty :: alias_type
  assumes evals_Nil: "evals al [] s = (UNSPEC, s)"
    and evals_Cons: "evals al (m # ms) s =
      (let (v, s1) =
         (case entered al ty m of
            Some (a, al') \<Rightarrow> (let (rc, s1) = evals al' (rev (a_members a)) s in (alias_verdict m rc, s1))
          | None \<Rightarrow> leaf m s)
       in if SPECIFIED v then (v, s1) else evals al ms s1)"
begin

lemma evals_scan: "evals al ms s = scan leaf (flat al ty False ms) s"
proof (induction al ms arbitrary: s rule: flat_induct [where ty = ty])
  case (Cons al m ms)
  show ?case
  proof (cases "entered al ty m")
    case None
    then show ?thesis using Cons(2) by (simp add: evals_Cons Let_def split_beta)
  next
    case (Some p)
    obtain a al' where p: "p = (a, al')" by force
    have "flat al' ty (m_negated m) (rev (a_members a)) =
        map (\<lambda>(n, x). (n \<noteq> m_negated m, x)) (flat al' ty False (rev (a_members a)))"
      using flat_toggle [of al' ty False "m_negated m"] by simp
    then have "scan leaf (flat al' ty (m_negated m) (rev (a_members a))) s =
        (let (v, s1) = scan leaf (flat al' ty False (rev (a_members a))) s in (under_sign (m_negated m) v, s1))"
      by (simp only: scan_toggle)
    then show ?thesis using Cons Some p
      by (simp add: evals_Cons Let_def split_beta scan_append alias_verdict_under_sign)
  qed
qed (simp add: evals_Nil)

end

section \<open>The matchers keep the contract\<close>

lemma matchers_on_aliases [simp]:
  "user_word sys df ctx (pt\<lparr>aliases := al\<rparr>) pw m = user_word sys df ctx pt pw m"
  "host_word sys df (pt\<lparr>aliases := al\<rparr>) pw lhost shost m = host_word sys df pt pw lhost shost m"
  "runas_user_word sys df ctx (pt\<lparr>aliases := al\<rparr>) m = runas_user_word sys df ctx pt m"
  by (cases "m_type m"; simp add: user_word_def host_word_def runas_user_word_def
      tree_lhost_def tree_shost_def Let_def)+

lemma alias_verdict_pair:
  "(let (rc, s1) = x in (alias_verdict m rc, s1)) = (alias_verdict m (fst x), snd x)"
  by (simp add: split_beta)

interpretation user_eval: member_eval
    "\<lambda>al ms s. (userlist_rev_matches sys df ctx (pt\<lparr>aliases := al\<rparr>) pw ms, s)"
    "\<lambda>m s. (user_word sys df ctx pt pw m, s)" USERALIAS
  for sys df ctx pt pw
  by unfold_locales
    (auto simp: user_matches.simps entered_def Let_def split: sum.splits)

interpretation host_eval: member_eval
    "\<lambda>al ms s. (hostlist_rev_matches sys df (pt\<lparr>aliases := al\<rparr>) pw lhost shost ms, s)"
    "\<lambda>m s. (host_word sys df pt pw lhost shost m, s)" HOSTALIAS
  for sys df pt pw lhost shost
  by unfold_locales
    (auto simp: host_matches.simps entered_def Let_def split: sum.splits)

text \<open>A match of a runas user outside an alias name sets \<open>*matching_user\<close>.\<close>

definition runas_user_leaf :: "system \<Rightarrow> sudo_defs \<Rightarrow> sudo_context \<Rightarrow> parse_tree \<Rightarrow> member \<Rightarrow>
    member option \<Rightarrow> verdict \<times> member option" where
  "runas_user_leaf sys df ctx pt m matching =
     (let v = runas_user_word sys df ctx pt m in
      (v, if SPECIFIED v \<and> m_type m \<noteq> ALIAS then Some m else matching))"

interpretation runas_user_eval: member_eval
    "\<lambda>al ms s. runas_userlist_rev_matches sys df ctx (pt\<lparr>aliases := al\<rparr>) ms s"
    "runas_user_leaf sys df ctx pt" RUNASALIAS
  for sys df ctx pt
  by unfold_locales
    (auto simp: runas_user_leaf_def entered_def Let_def split_beta split: sum.splits)

interpretation cmnd_eval: member_eval
    "\<lambda>al ms s. cmndlist_rev_matches cm (pt\<lparr>aliases := al\<rparr>) ms runchroot s"
    "cmnd_word cm runchroot" CMNDALIAS
  for cm pt runchroot
  by unfold_locales
    (auto simp: cmnd_matches.simps cmnd_word_def entered_def Let_def split_beta split: sum.splits)

lemma all_rev_negated:
  "all_rev_matches cm pt neg ms runchroot s =
     (let (v, s1) = all_rev_matches cm pt False ms runchroot s in (under_sign neg v, s1))"
  by (induction ms arbitrary: s) (simp_all add: Let_def split_beta under_sign_def)

interpretation cmnd_all_eval: member_eval
    "\<lambda>al ms s. all_rev_matches cm (pt\<lparr>aliases := al\<rparr>) False ms runchroot s"
    "cmnd_word_all cm runchroot" CMNDALIAS
  for cm pt runchroot
proof unfold_locales
  fix al m ms s
  show "all_rev_matches cm (pt\<lparr>aliases := al\<rparr>) False (m # ms) runchroot s =
      (let (v, s1) =
         (case entered al CMNDALIAS m of
            Some (a, al') \<Rightarrow> (let (rc, s1) = all_rev_matches cm (pt\<lparr>aliases := al'\<rparr>) False
                (rev (a_members a)) runchroot s in (alias_verdict m rc, s1))
          | None \<Rightarrow> cmnd_word_all cm runchroot m s)
       in if SPECIFIED v then (v, s1) else all_rev_matches cm (pt\<lparr>aliases := al\<rparr>) False ms runchroot s1)"
    by (simp add: cmnd_matches_all.simps entered_def alias_verdict_under_sign Let_def split_beta
        cmnd_word_all_def all_rev_negated [of cm _ "m_negated m"] split: sum.split)
qed simp

section \<open>Properties\<close>

text \<open>
  C5. A user list gives the verdict of the last entry that matches, after every alias that can be
  entered is replaced by its members, negated once for each negated alias around them; without
  a match it gives UNSPEC. This holds for alias tables with cycles too.
\<close>

theorem userlist_matches_last:
  "userlist_matches sys df ctx pt pw list =
     last_match (user_word sys df ctx pt pw) (expand (aliases pt) USERALIAS list)"
  using user_eval.evals_scan [where al = "aliases pt" and ms = "rev list" and pt = pt]
  by (simp add: userlist_matches_def expand_def scan_pure)

text \<open>
  A host list gives the verdict of the last entry of its expansion that matches the machine, by
  its long or short name, address or netgroup.
\<close>

theorem hostlist_matches_last:
  "hostlist_matches sys df ctx pt pw list =
     last_match (host_word sys df pt pw (tree_lhost ctx pt) (tree_shost ctx pt))
       (expand (aliases pt) HOSTALIAS list)"
  using host_eval.evals_scan [where al = "aliases pt" and ms = "rev list" and pt = pt]
  by (simp add: hostlist_matches_def hostlist_matches_int_def expand_def scan_pure)

text \<open>
  A runas user list gives the verdict of the last entry of its expansion that matches the
  target user, and reports that entry as the matching member, unless the entry is the name of an
  alias that cannot be entered.
\<close>

theorem runas_userlist_matches_last:
  "runas_userlist_matches sys df ctx pt list matching =
     scan (runas_user_leaf sys df ctx pt) (rev (expand (aliases pt) RUNASALIAS list)) matching"
  using runas_user_eval.evals_scan [where al = "aliases pt" and ms = "rev list" and pt = pt]
  by (simp add: runas_userlist_matches_def expand_def)

text \<open>
  The commands of a list are tried from the last entry of its expansion backwards, the state of
  the command matcher passed on, up to the first that matches; none after that one is tried.
\<close>

theorem cmndlist_matches_last:
  "cmndlist_matches cm pt list runchroot s =
     scan (cmnd_word cm runchroot) (rev (expand (aliases pt) CMNDALIAS list)) s"
  using cmnd_eval.evals_scan [where al = "aliases pt" and ms = "rev list" and pt = pt]
  by (simp add: cmndlist_matches_def expand_def)

text \<open>
  A negated alias in a group list: the recursive call for its members ends with the fallback to
  the target user's own groups, so its ALLOW is negated although no member matched.
\<close>

text \<open>
  A runas group list does not treat a negated alias as the negation of its members: when the
  only member does not match and the requested group is one of the target user's groups, the
  negated alias denies what the negated member itself allows.
\<close>

theorem negated_group_alias_denies:
  assumes "alias_get (aliases pt) n RUNASALIAS = Inr (a, al')"
    and "a_members a = [\<lparr>m_name = Name g, m_type = WORD, m_negated = False\<rparr>]"
    and "group_matches df g gr = DENY" "runas_group_fallback sys df ctx gr = ALLOW"
  shows "runas_grouplist_matches sys df ctx pt gr
           (Some [\<lparr>m_name = Name n, m_type = ALIAS, m_negated = True\<rparr>]) = DENY \<and>
         runas_grouplist_matches sys df ctx pt gr
           (Some [\<lparr>m_name = Name g, m_type = WORD, m_negated = True\<rparr>]) = ALLOW"
  using assms
  by (simp_all add: runas_grouplist_matches_def runas_group_word_def matched_if_def alias_verdict_def
      flip_verdict_def)

text \<open>A table with one group alias: \<open>Runas_Alias ADM = wheel\<close>.\<close>

definition sample_group_aliases :: alias_table where
  "sample_group_aliases = snd (alias_add None ''ADM'' RUNASALIAS [] 1 1 [word_member ''wheel''])"

lemma negated_group_alias_denies_witness:
  "runas_grouplist_matches empty_system sample_defs sample_ctx
     ((sample_tree [])\<lparr>aliases := sample_group_aliases\<rparr>) \<lparr>gr_name = ''staff'', gr_gid = 0\<rparr>
     (Some [\<lparr>m_name = Name ''ADM'', m_type = ALIAS, m_negated = True\<rparr>]) = DENY"
proof -
  let ?a = "\<lparr>a_name = ''ADM'', a_type = RUNASALIAS, a_used = True, a_line = 1, a_column = 1,
    a_file = [], a_members = [word_member ''wheel'']\<rparr>"
  have g: "\<exists>al'. alias_get sample_group_aliases ''ADM'' RUNASALIAS = Inr (?a, al')"
    by (simp add: sample_group_aliases_def alias_add_def alias_get_def rbcreate_def rbinsert_def
        alias_key_def alias_compare_def set_used_def Let_def)
  then obtain al' where "alias_get (aliases ((sample_tree [])\<lparr>aliases := sample_group_aliases\<rparr>)) ''ADM'' RUNASALIAS
      = Inr (?a, al')" by auto
  from negated_group_alias_denies [OF this, of "''wheel''" sample_defs "\<lparr>gr_name = ''staff'', gr_gid = 0\<rparr>"
      empty_system sample_ctx]
  show ?thesis
    by (simp add: word_member_def group_matches_def runas_group_fallback_def sample_defs_all c_at_def)
qed

end
