(* ===== verification/Lookup.thy ===== *)
theory Lookup
  imports MatchEval
begin

text \<open>
  The lookup of the user's command in the sudoers sources (\<open>plugins/sudoers/lookup.c\<close>): the list
  of sources is a list of \<open>sudo_nss\<close>, with the parse tree that the query of the source gives, or
  None for a failed query. The calls of the callback are recorded in order. \<open>cm\<close> is the command
  matcher, which reads the Defaults (\<open>def_runchroot\<close>).
\<close>

section \<open>Flags, sources, callbacks\<close>

definition VALIDATE_ERROR :: "32 word" where "VALIDATE_ERROR = 0x001"
definition VALIDATE_SUCCESS :: "32 word" where "VALIDATE_SUCCESS = 0x002"
definition VALIDATE_FAILURE :: "32 word" where "VALIDATE_FAILURE = 0x004"
definition FLAG_CHECK_USER :: "32 word" where "FLAG_CHECK_USER = 0x010"
definition FLAG_NO_USER :: "32 word" where "FLAG_NO_USER = 0x020"
definition FLAG_NO_HOST :: "32 word" where "FLAG_NO_HOST = 0x040"
definition FLAG_NO_CHECK :: "32 word" where "FLAG_NO_CHECK = 0x080"

lemmas flag_defs = VALIDATE_ERROR_def VALIDATE_SUCCESS_def VALIDATE_FAILURE_def
  FLAG_CHECK_USER_def FLAG_NO_USER_def FLAG_NO_HOST_def FLAG_NO_CHECK_def

record sudo_nss =
  nss_tree :: "parse_tree option"
  ret_if_found :: bool
  ret_if_notfound :: bool

definition sudo_nss_can_continue :: "sudo_nss \<Rightarrow> verdict \<Rightarrow> bool" where
  "sudo_nss_can_continue nss match =
     (if ret_if_notfound nss \<and> match = UNSPEC then False
      else if ret_if_found nss \<and> match \<noteq> UNSPEC then False
      else True)"

record lookup_event =
  ev_us :: userspec
  ev_user_match :: verdict
  ev_priv :: "privilege option"
  ev_host_match :: verdict
  ev_cs :: "cmndspec option"
  ev_date_match :: verdict
  ev_runas_match :: verdict
  ev_cmnd_match :: verdict

definition callback_user :: "userspec \<Rightarrow> verdict \<Rightarrow> lookup_event" where
  "callback_user us user_match = \<lparr>ev_us = us, ev_user_match = user_match, ev_priv = None,
     ev_host_match = UNSPEC, ev_cs = None, ev_date_match = UNSPEC, ev_runas_match = UNSPEC,
     ev_cmnd_match = UNSPEC\<rparr>"

definition callback_host :: "userspec \<Rightarrow> privilege \<Rightarrow> verdict \<Rightarrow> lookup_event" where
  "callback_host us priv host_match = \<lparr>ev_us = us, ev_user_match = ALLOW, ev_priv = Some priv,
     ev_host_match = host_match, ev_cs = None, ev_date_match = UNSPEC, ev_runas_match = UNSPEC,
     ev_cmnd_match = UNSPEC\<rparr>"

definition callback_cmnd :: "userspec \<Rightarrow> privilege \<Rightarrow> cmndspec \<Rightarrow> verdict \<Rightarrow> verdict \<Rightarrow> verdict \<Rightarrow> lookup_event" where
  "callback_cmnd us priv cs date_match runas_match cmnd_match = \<lparr>ev_us = us, ev_user_match = ALLOW,
     ev_priv = Some priv, ev_host_match = ALLOW, ev_cs = Some cs, ev_date_match = date_match,
     ev_runas_match = runas_match, ev_cmnd_match = cmnd_match\<rparr>"

text \<open>The date range of an entry: the test of \<open>notafter\<close> comes second and overwrites the first.\<close>

definition date_matches :: "int \<Rightarrow> cmndspec \<Rightarrow> verdict" where
  "date_matches now cs =
     (let date_match = UNSPEC;
          date_match = (if notbefore cs \<noteq> TIME_UNSPEC
                        then (if now < notbefore cs then DENY else ALLOW) else date_match);
          date_match = (if notafter cs \<noteq> TIME_UNSPEC
                        then (if now > notafter cs then DENY else ALLOW) else date_match)
      in date_match)"

section \<open>Pseudo-commands\<close>

definition runas_matches_pw :: "system \<Rightarrow> sudo_defs \<Rightarrow> sudo_context \<Rightarrow> parse_tree \<Rightarrow> cmndspec \<Rightarrow> passwd \<Rightarrow> verdict" where
  "runas_matches_pw sys df ctx pt cs pw =
     (case runasuserlist cs of
        Some list \<Rightarrow> userlist_matches sys df ctx pt pw list
      | None \<Rightarrow>
          (if runasgrouplist cs = None \<and>
              userpw_matches df (def_runas_default df) (pw_name pw) (Some pw) = ALLOW
           then ALLOW else UNSPEC))"

record pseudo_state =
  ps_nopass :: bool
  ps_match :: verdict
  ps_ms :: match_state
  ps_events :: "lookup_event list"

definition pseudo_nopass :: "def_tuple \<Rightarrow> bool option \<Rightarrow> cmndspec \<Rightarrow> bool \<Rightarrow> bool" where
  "pseudo_nopass pwcheck priv_nopass cs nopass =
     (let nopasswd = t_nopasswd (cs_tags cs) = Tag_true \<or> priv_nopass = Some True in
      case pwcheck of any \<Rightarrow> if nopasswd then True else nopass
      | all_tuple \<Rightarrow> if \<not> nopasswd then False else nopass
      | _ \<Rightarrow> nopass)"

text \<open>The runas and command match of one entry; \<open>root_pw\<close> is root's passwd entry, if looked up.\<close>

definition pseudo_cmnd_match :: "system \<Rightarrow> sudo_defs \<Rightarrow> sudo_context \<Rightarrow> command_matcher \<Rightarrow> passwd option \<Rightarrow>
    parse_tree \<Rightarrow> cmndspec \<Rightarrow> verdict \<Rightarrow> match_state \<Rightarrow> verdict \<times> verdict \<times> match_state" where
  "pseudo_cmnd_match sys df ctx cm root_pw pt cs date_match s =
     (if user_uid ctx = 0 \<or> (case runas_list_pw ctx of None \<Rightarrow> True | Some lpw \<Rightarrow> user_uid ctx = pw_uid lpw)
      then (ALLOW, ALLOW, s)
      else if date_match \<noteq> DENY then
        (case runas_matches_pw sys df ctx pt cs (the (runas_list_pw ctx)) of
           DENY \<Rightarrow> (DENY, UNSPEC, s)
         | ALLOW \<Rightarrow> (let (cmnd_match, s) = cmnd_matches cm pt (cs_cmnd cs) (cs_runchroot cs) s
                    in (ALLOW, cmnd_match, s))
         | UNSPEC \<Rightarrow>
             (if (case root_pw of None \<Rightarrow> False | Some rpw \<Rightarrow> runas_matches_pw sys df ctx pt cs rpw = ALLOW)
              then (let (cmnd_match, s) = cmnd_matches_all cm pt (cs_cmnd cs) (cs_runchroot cs) s
                    in (ALLOW, cmnd_match, s))
              else (UNSPEC, UNSPEC, s)))
      else (UNSPEC, UNSPEC, s))"

definition pseudo_cmndspec :: "system \<Rightarrow> sudo_defs \<Rightarrow> sudo_context \<Rightarrow> command_matcher \<Rightarrow> int \<Rightarrow> def_tuple \<Rightarrow>
    passwd option \<Rightarrow> parse_tree \<Rightarrow> userspec \<Rightarrow> privilege \<Rightarrow> bool option \<Rightarrow> cmndspec \<Rightarrow> pseudo_state \<Rightarrow> pseudo_state" where
  "pseudo_cmndspec sys df ctx cm now pwcheck root_pw pt us priv priv_nopass cs st =
     (let date_match = date_matches now cs;
          (runas_match, cmnd_match, s) = pseudo_cmnd_match sys df ctx cm root_pw pt cs date_match (ps_ms st)
      in st\<lparr>ps_nopass := pseudo_nopass pwcheck priv_nopass cs (ps_nopass st),
            ps_ms := s,
            ps_events := ps_events st @ [callback_cmnd us priv cs date_match runas_match cmnd_match],
            ps_match := if SPECIFIED cmnd_match then cmnd_match else ps_match st\<rparr>)"

definition priv_nopass_of :: "privilege \<Rightarrow> bool option" where
  \<comment> \<open>from the first \<open>authenticate\<close> among the defaults of the privilege\<close>
  "priv_nopass_of priv =
     (case find (\<lambda>d. strcmp (d_var d) ''authenticate'' = 0) (p_defaults priv) of
        None \<Rightarrow> None | Some d \<Rightarrow> Some (d_op d = 0))"

definition pseudo_privilege :: "system \<Rightarrow> sudo_defs \<Rightarrow> sudo_context \<Rightarrow> command_matcher \<Rightarrow> int \<Rightarrow> def_tuple \<Rightarrow>
    passwd option \<Rightarrow> parse_tree \<Rightarrow> userspec \<Rightarrow> privilege \<Rightarrow> pseudo_state \<Rightarrow> pseudo_state" where
  "pseudo_privilege sys df ctx cm now pwcheck root_pw pt us priv st =
     (let host_match = hostlist_matches sys df ctx pt (user_pw ctx) (hostlist priv) in
      if host_match \<noteq> ALLOW
      then st\<lparr>ps_events := ps_events st @ [callback_host us priv host_match]\<rparr>
      else fold (pseudo_cmndspec sys df ctx cm now pwcheck root_pw pt us priv (priv_nopass_of priv))
             (cmndlist priv) st)"

definition pseudo_userspec :: "system \<Rightarrow> sudo_defs \<Rightarrow> sudo_context \<Rightarrow> command_matcher \<Rightarrow> int \<Rightarrow> def_tuple \<Rightarrow>
    passwd option \<Rightarrow> parse_tree \<Rightarrow> userspec \<Rightarrow> pseudo_state \<Rightarrow> pseudo_state" where
  "pseudo_userspec sys df ctx cm now pwcheck root_pw pt us st =
     (let user_match = userlist_matches sys df ctx pt (user_pw ctx) (us_users us) in
      if user_match \<noteq> ALLOW
      then (if user_match = DENY then st\<lparr>ps_events := ps_events st @ [callback_user us user_match]\<rparr> else st)
      else fold (pseudo_privilege sys df ctx cm now pwcheck root_pw pt us) (us_privileges us) st)"

text \<open>The loop over the sources; the flag is \<open>VALIDATE_ERROR\<close>.\<close>

fun pseudo_sources :: "system \<Rightarrow> sudo_defs \<Rightarrow> sudo_context \<Rightarrow> command_matcher \<Rightarrow> int \<Rightarrow> def_tuple \<Rightarrow>
    passwd option \<Rightarrow> sudo_nss list \<Rightarrow> pseudo_state \<Rightarrow> bool \<times> pseudo_state" where
  "pseudo_sources sys df ctx cm now pwcheck root_pw [] st = (False, st)"
| "pseudo_sources sys df ctx cm now pwcheck root_pw (nss # snl) st =
     (case nss_tree nss of
        None \<Rightarrow> (True, st)
      | Some pt \<Rightarrow>
          (let st = fold (pseudo_userspec sys df ctx cm now pwcheck root_pw pt) (userspecs pt) st in
           if \<not> sudo_nss_can_continue nss (ps_match st) then (False, st)
           else pseudo_sources sys df ctx cm now pwcheck root_pw snl st))"

text \<open>
  \<open>sudoers_lookup_pseudo\<close>: the result flags, the Defaults (only \<open>def_authenticate\<close> may change, as
  \<open>def_runchroot\<close> is put back) and the final state of the walk. Commands are matched with a NULL
  \<open>info\<close>.
\<close>

definition sudoers_lookup_pseudo :: "system \<Rightarrow> (sudo_defs \<Rightarrow> command_matcher) \<Rightarrow> sudo_nss list \<Rightarrow> sudo_context \<Rightarrow>
    sudo_defs \<Rightarrow> match_state \<Rightarrow> int \<Rightarrow> int \<Rightarrow> 32 word \<times> sudo_defs \<times> pseudo_state" where
  "sudoers_lookup_pseudo sys cm snl ctx df s now pwflag =
     (let pwcheck = (if pwflag = -1 then never else def_tuple_of df pwflag);
          root_pw = (case runas_list_pw ctx of None \<Rightarrow> None | Some _ \<Rightarrow> sys_getpwuid sys 0);
          validated = (if runas_list_pw ctx = None then SET 0 FLAG_NO_CHECK else 0);
          df' = df\<lparr>def_runchroot := None\<rparr>;
          (err, st) = pseudo_sources sys df' ctx (cm df') now pwcheck root_pw snl
            \<lparr>ps_nopass = (pwcheck = never \<or> pwcheck = all_tuple), ps_match = UNSPEC,
             ps_ms = s\<lparr>ms_info := None\<rparr>, ps_events = []\<rparr>;
          validated = (if err then SET validated VALIDATE_ERROR else validated);
          validated = SET validated
            (if ps_match st = ALLOW \<or> user_uid ctx = 0 then VALIDATE_SUCCESS else VALIDATE_FAILURE);
          check = (pwcheck = always \<and> def_authenticate df);
          validated = (if check then SET validated FLAG_CHECK_USER else validated)
      in (validated, if \<not> check \<and> ps_nopass st then df\<lparr>def_authenticate := False\<rparr> else df, st))"

section \<open>Commands\<close>

record lookup_state =
  ls_ctx :: sudo_context
  ls_validated :: "32 word"
  ls_ms :: match_state
  ls_cs :: "cmndspec option"
  ls_defs :: "defaults list option"
  ls_events :: "lookup_event list"

text \<open>One entry of a command list: the runas match, then the command match, with \<open>info\<close>.\<close>

definition check_entry :: "system \<Rightarrow> sudo_defs \<Rightarrow> sudo_context \<Rightarrow> command_matcher \<Rightarrow> parse_tree \<Rightarrow>
    int \<Rightarrow> cmndspec \<Rightarrow> match_state \<Rightarrow> verdict \<times> verdict \<times> verdict \<times> member option \<times> match_state" where
  "check_entry sys df ctx cm pt now cs s =
     (let date_match = date_matches now cs in
      if date_match \<noteq> DENY then
        (let (runas_match, matching_user) =
               runaslist_matches sys df ctx pt (runasuserlist cs) (runasgrouplist cs) None
         in if runas_match = ALLOW
            then (let (cmnd_match, s) = cmnd_matches cm pt (cs_cmnd cs) (cs_runchroot cs) s
                  in (date_match, runas_match, cmnd_match, matching_user, s))
            else (date_match, runas_match, UNSPEC, matching_user, s))
      else (date_match, UNSPEC, UNSPEC, None, s))"

definition check_cmndspec :: "system \<Rightarrow> sudo_defs \<Rightarrow> command_matcher \<Rightarrow> parse_tree \<Rightarrow> int \<Rightarrow> userspec \<Rightarrow>
    privilege \<Rightarrow> cmndspec \<Rightarrow> lookup_state \<Rightarrow> verdict \<times> lookup_state" where
  "check_cmndspec sys df cm pt now us priv cs st =
     (let ctx = ls_ctx st;
          (date_match, runas_match, cmnd_match, matching_user, s) =
            check_entry sys df ctx cm pt now cs (ls_ms st);
          st = st\<lparr>ls_ms := s,
            ls_events := ls_events st @ [callback_cmnd us priv cs date_match runas_match cmnd_match]\<rparr>
      in if SPECIFIED cmnd_match
         then (cmnd_match, st\<lparr>
           ls_ctx := (case matching_user of
                Some m \<Rightarrow> if m_type m = MYSELF then ctx\<lparr>runas_pw := user_pw ctx\<rparr> else ctx
              | None \<Rightarrow> ctx),
           ls_cs := Some cs, ls_defs := Some (p_defaults priv)\<rparr>)
         else (UNSPEC, st\<lparr>ls_ms := s\<lparr>ms_info := Some info0\<rparr>\<rparr>))"

fun check_cmndlist :: "system \<Rightarrow> sudo_defs \<Rightarrow> command_matcher \<Rightarrow> parse_tree \<Rightarrow> int \<Rightarrow> userspec \<Rightarrow>
    privilege \<Rightarrow> cmndspec list \<Rightarrow> lookup_state \<Rightarrow> verdict \<times> lookup_state" where
  "check_cmndlist sys df cm pt now us priv [] st = (UNSPEC, st)"
| "check_cmndlist sys df cm pt now us priv (cs # rest) st =
     (let (v, st) = check_cmndspec sys df cm pt now us priv cs st in
      if SPECIFIED v then (v, st) else check_cmndlist sys df cm pt now us priv rest st)"

fun check_privileges :: "system \<Rightarrow> sudo_defs \<Rightarrow> command_matcher \<Rightarrow> parse_tree \<Rightarrow> int \<Rightarrow> userspec \<Rightarrow>
    privilege list \<Rightarrow> lookup_state \<Rightarrow> verdict \<times> lookup_state" where
  "check_privileges sys df cm pt now us [] st = (UNSPEC, st)"
| "check_privileges sys df cm pt now us (priv # rest) st =
     (let host_match = hostlist_matches sys df (ls_ctx st) pt (user_pw (ls_ctx st)) (hostlist priv) in
      if host_match = ALLOW then
        (let st = st\<lparr>ls_validated := CLR (ls_validated st) FLAG_NO_HOST\<rparr>;
             (v, st) = check_cmndlist sys df cm pt now us priv (rev (cmndlist priv)) st
         in if SPECIFIED v then (v, st) else check_privileges sys df cm pt now us rest st)
      else check_privileges sys df cm pt now us rest
             (st\<lparr>ls_events := ls_events st @ [callback_host us priv host_match]\<rparr>))"

fun check_userspecs :: "system \<Rightarrow> sudo_defs \<Rightarrow> command_matcher \<Rightarrow> parse_tree \<Rightarrow> int \<Rightarrow>
    userspec list \<Rightarrow> lookup_state \<Rightarrow> verdict \<times> lookup_state" where
  "check_userspecs sys df cm pt now [] st = (UNSPEC, st)"
| "check_userspecs sys df cm pt now (us # rest) st =
     (let user_match = userlist_matches sys df (ls_ctx st) pt (user_pw (ls_ctx st)) (us_users us) in
      if user_match \<noteq> ALLOW then
        check_userspecs sys df cm pt now rest
          (if user_match = DENY then st\<lparr>ls_events := ls_events st @ [callback_user us user_match]\<rparr> else st)
      else
        (let st = st\<lparr>ls_validated := CLR (ls_validated st) FLAG_NO_USER\<rparr>;
             (v, st) = check_privileges sys df cm pt now us (rev (us_privileges us)) st
         in if SPECIFIED v then (v, st) else check_userspecs sys df cm pt now rest st))"

definition sudoers_lookup_check :: "system \<Rightarrow> sudo_defs \<Rightarrow> command_matcher \<Rightarrow> parse_tree \<Rightarrow> int \<Rightarrow>
    lookup_state \<Rightarrow> verdict \<times> lookup_state" where
  "sudoers_lookup_check sys df cm pt now st =
     check_userspecs sys df cm pt now (rev (userspecs pt))
       (st\<lparr>ls_ms := (ls_ms st)\<lparr>ms_info := Some info0\<rparr>\<rparr>)"

section \<open>Settings of the matching entry\<close>

text \<open>
  \<open>cb_log_input\<close> and \<open>cb_log_output\<close> of \<open>sudoers_cb.c\<close> spread the flag over the I/O streams.
\<close>

definition cb_log_input :: "bool \<Rightarrow> sudo_defs \<Rightarrow> sudo_defs" where
  "cb_log_input op df = df\<lparr>def_log_stdin := op, def_log_ttyin := op\<rparr>"

definition cb_log_output :: "bool \<Rightarrow> sudo_defs \<Rightarrow> sudo_defs" where
  "cb_log_output op df = df\<lparr>def_log_stdout := op, def_log_stderr := op, def_log_ttyout := op\<rparr>"

text \<open>
  SELinux role and type, unless given on the command line, then the AppArmor profile and the
  Solaris privileges; what the entry does not give is moved out of the Defaults.
\<close>

definition apply_role :: "cmndspec \<Rightarrow> sudo_context \<times> sudo_defs \<Rightarrow> sudo_context \<times> sudo_defs" where
  "apply_role cs = (\<lambda>(ctx, df).
     if runas_role ctx \<noteq> None then (ctx, df)
     else if cs_role cs \<noteq> None then (ctx\<lparr>runas_role := cs_role cs\<rparr>, df)
     else (ctx\<lparr>runas_role := def_role df\<rparr>, df\<lparr>def_role := None\<rparr>))"

definition apply_type :: "cmndspec \<Rightarrow> sudo_context \<times> sudo_defs \<Rightarrow> sudo_context \<times> sudo_defs" where
  "apply_type cs = (\<lambda>(ctx, df).
     if runas_type ctx \<noteq> None then (ctx, df)
     else if cs_type cs \<noteq> None then (ctx\<lparr>runas_type := cs_type cs\<rparr>, df)
     else (ctx\<lparr>runas_type := def_type df\<rparr>, df\<lparr>def_type := None\<rparr>))"

definition apply_apparmor :: "cmndspec \<Rightarrow> sudo_context \<times> sudo_defs \<Rightarrow> sudo_context \<times> sudo_defs" where
  "apply_apparmor cs = (\<lambda>(ctx, df).
     if cs_apparmor_profile cs \<noteq> None
     then (ctx\<lparr>runas_apparmor_profile := cs_apparmor_profile cs\<rparr>, df)
     else (ctx\<lparr>runas_apparmor_profile := def_apparmor_profile df\<rparr>, df\<lparr>def_apparmor_profile := None\<rparr>))"

definition apply_privs :: "cmndspec \<Rightarrow> sudo_context \<times> sudo_defs \<Rightarrow> sudo_context \<times> sudo_defs" where
  "apply_privs cs = (\<lambda>(ctx, df).
     if cs_privs cs \<noteq> None then (ctx\<lparr>runas_privs := cs_privs cs\<rparr>, df)
     else (ctx\<lparr>runas_privs := def_privs df\<rparr>, df\<lparr>def_privs := None\<rparr>))"

definition apply_limitprivs :: "cmndspec \<Rightarrow> sudo_context \<times> sudo_defs \<Rightarrow> sudo_context \<times> sudo_defs" where
  "apply_limitprivs cs = (\<lambda>(ctx, df).
     if cs_limitprivs cs \<noteq> None then (ctx\<lparr>runas_limitprivs := cs_limitprivs cs\<rparr>, df)
     else (ctx\<lparr>runas_limitprivs := def_limitprivs df\<rparr>, df\<lparr>def_limitprivs := None\<rparr>))"

definition apply_runas :: "cmndspec \<Rightarrow> sudo_context \<times> sudo_defs \<Rightarrow> sudo_context \<times> sudo_defs" where
  "apply_runas cs cd =
     apply_limitprivs cs (apply_privs cs (apply_apparmor cs (apply_type cs (apply_role cs cd))))"

definition when_tag :: "tag \<Rightarrow> (bool \<Rightarrow> sudo_defs \<Rightarrow> sudo_defs) \<Rightarrow> sudo_defs \<Rightarrow> sudo_defs" where
  \<comment> \<open>\<open>if (tag != UNSPEC) { ... tag ... }\<close>\<close>
  "when_tag t f df = (if tag_set t then f (tag_truth t) df else df)"

definition apply_tags :: "cmndtag \<Rightarrow> sudo_defs \<Rightarrow> sudo_defs" where
  "apply_tags tags df =
     (let df = when_tag (t_nopasswd tags) (\<lambda>b df. df\<lparr>def_authenticate := \<not> b\<rparr>) df;
          df = when_tag (t_noexec tags) (\<lambda>b df. df\<lparr>def_noexec := b\<rparr>) df;
          df = when_tag (t_intercept tags) (\<lambda>b df. df\<lparr>def_intercept := b\<rparr>) df;
          df = when_tag (t_setenv tags) (\<lambda>b df. df\<lparr>def_setenv := b\<rparr>) df;
          df = when_tag (t_log_input tags) (\<lambda>b df. cb_log_input b (df\<lparr>def_log_input := b\<rparr>)) df;
          df = when_tag (t_log_output tags) (\<lambda>b df. cb_log_output b (df\<lparr>def_log_output := b\<rparr>)) df;
          df = when_tag (t_send_mail tags) (\<lambda>b df. if b then df\<lparr>def_mail_all_cmnds := True\<rparr>
                 else df\<lparr>def_mail_all_cmnds := False, def_mail_always := False,
                         def_mail_no_perms := False\<rparr>) df
      in when_tag (t_follow tags) (\<lambda>b df. df\<lparr>def_sudoedit_follow := b\<rparr>) df)"

definition apply_limits :: "cmndspec \<Rightarrow> sudo_defs \<Rightarrow> sudo_defs" where
  "apply_limits cs df =
     (let df = (if cs_timeout cs > 0 then df\<lparr>def_command_timeout := cs_timeout cs\<rparr> else df);
          df = (if cs_runcwd cs \<noteq> None then df\<lparr>def_runcwd := cs_runcwd cs\<rparr> else df)
      in if cs_runchroot cs \<noteq> None then df\<lparr>def_runchroot := cs_runchroot cs\<rparr> else df)"

text \<open>\<open>apply_cmndspec\<close>; it fails only when out of memory, which is not modelled.\<close>

definition apply_cmndspec :: "cmndspec option \<Rightarrow> sudo_context \<times> sudo_defs \<Rightarrow> sudo_context \<times> sudo_defs" where
  "apply_cmndspec cso cd =
     (case cso of None \<Rightarrow> cd
      | Some cs \<Rightarrow>
          (let (ctx, df) = apply_runas cs cd in (ctx, apply_tags (cs_tags cs) (apply_limits cs df))))"

section \<open>The lookup\<close>

text \<open>
  The loop over the sources, with the last verdict, the parse tree it is from and the state; the
  flag tells a failed query.
\<close>

fun lookup_sources :: "system \<Rightarrow> sudo_defs \<Rightarrow> command_matcher \<Rightarrow> int \<Rightarrow> sudo_nss list \<Rightarrow>
    verdict \<Rightarrow> parse_tree option \<Rightarrow> lookup_state \<Rightarrow> verdict \<times> parse_tree option \<times> lookup_state" where
  "lookup_sources sys df cm now [] match tree st = (match, tree, st)"
| "lookup_sources sys df cm now (nss # snl) match tree st =
     (case nss_tree nss of
        None \<Rightarrow> (match, tree, st\<lparr>ls_validated := SET (ls_validated st) VALIDATE_ERROR\<rparr>)
      | Some pt \<Rightarrow>
          (let (m, st) = sudoers_lookup_check sys df cm pt now st;
               (match, tree) = (if SPECIFIED m then (m, Some pt) else (match, tree))
           in if \<not> sudo_nss_can_continue nss m then (match, tree, st)
              else lookup_sources sys df cm now snl match tree st))"

text \<open>
  The result of \<open>sudoers_lookup\<close>: the flags, the context, the Defaults, \<open>*cmnd_status\<close>, the match
  state and the callbacks. \<open>upd\<close> is \<open>update_defaults\<close> for the defaults of the privilege, \<open>perms\<close>
  and \<open>restored\<close> the results of \<open>set_perms\<close> and \<open>restore_perms\<close>.
\<close>

record lookup_result =
  lr_validated :: "32 word"
  lr_ctx :: sudo_context
  lr_defs :: sudo_defs
  lr_status :: int
  lr_ms :: match_state
  lr_events :: "lookup_event list"

definition lookup_start :: "sudo_context \<Rightarrow> match_state \<Rightarrow> lookup_state" where
  "lookup_start ctx s = \<lparr>ls_ctx = ctx, ls_validated = or FLAG_NO_USER FLAG_NO_HOST, ls_ms = s,
     ls_cs = None, ls_defs = None, ls_events = []\<rparr>"

definition update_cmnd :: "cmnd_info \<Rightarrow> sudo_context \<times> match_state \<times> int \<Rightarrow> sudo_context \<times> match_state \<times> int" where
  "update_cmnd info = (\<lambda>(ctx, s, cmnd_status).
     if ci_path info \<noteq> None
     then (ctx\<lparr>user_cmnd := ci_path info\<rparr>,
           s\<lparr>ms_cmnd_stat := map_option (\<lambda>_. ci_stat info) (ms_cmnd_stat s)\<rparr>, ci_status info)
     else (ctx, s, cmnd_status))"

definition lookup_commands :: "system \<Rightarrow> (sudo_defs \<Rightarrow> command_matcher) \<Rightarrow>
    (parse_tree option \<Rightarrow> defaults list \<Rightarrow> sudo_defs \<Rightarrow> sudo_defs) \<Rightarrow> bool \<Rightarrow> bool \<Rightarrow>
    sudo_nss list \<Rightarrow> sudo_context \<Rightarrow> sudo_defs \<Rightarrow> match_state \<Rightarrow> int \<Rightarrow> int \<Rightarrow> lookup_result" where
  "lookup_commands sys cm upd perms restored snl ctx df s now cmnd_status =
     (let validated = ls_validated (lookup_start ctx s) in
      if \<not> perms then \<lparr>lr_validated = validated, lr_ctx = ctx, lr_defs = df, lr_status = cmnd_status,
                       lr_ms = s, lr_events = []\<rparr>
      else let
        (match, tree, st) = lookup_sources sys df (cm df) now snl UNSPEC None (lookup_start ctx s);
        (ctx, df, s, cmnd_status, validated) =
          (if SPECIFIED match then
             (let (ctx, s, cmnd_status) =
                    update_cmnd (the (ms_info (ls_ms st))) (ls_ctx st, ls_ms st, cmnd_status);
                  df = (case ls_defs st of None \<Rightarrow> df | Some defs \<Rightarrow> upd tree defs df);
                  (ctx, df) = apply_cmndspec (ls_cs st) (ctx, df)
              in (ctx, df, s, cmnd_status,
                  SET (ls_validated st) (if match = ALLOW then VALIDATE_SUCCESS else VALIDATE_FAILURE)))
           else (ls_ctx st, df, ls_ms st, cmnd_status, ls_validated st));
        validated = (if \<not> restored then SET validated VALIDATE_ERROR else validated)
      in \<lparr>lr_validated = validated, lr_ctx = ctx, lr_defs = df, lr_status = cmnd_status,
          lr_ms = s, lr_events = ls_events st\<rparr>)"

definition sudoers_lookup :: "system \<Rightarrow> (sudo_defs \<Rightarrow> command_matcher) \<Rightarrow>
    (parse_tree option \<Rightarrow> defaults list \<Rightarrow> sudo_defs \<Rightarrow> sudo_defs) \<Rightarrow> bool \<Rightarrow> bool \<Rightarrow>
    sudo_nss list \<Rightarrow> sudo_context \<Rightarrow> sudo_defs \<Rightarrow> match_state \<Rightarrow> int \<Rightarrow> int \<Rightarrow> int \<Rightarrow> lookup_result" where
  "sudoers_lookup sys cm upd perms restored snl ctx df s now cmnd_status pwflag =
     (if pwflag \<noteq> 0 then
        (let (validated, df, st) = sudoers_lookup_pseudo sys cm snl ctx df s now pwflag in
         \<lparr>lr_validated = validated, lr_ctx = ctx, lr_defs = df, lr_status = cmnd_status,
          lr_ms = ps_ms st, lr_events = ps_events st\<rparr>)
      else lookup_commands sys cm upd perms restored snl ctx df s now cmnd_status)"

end
