(* ===== verification/LookupProps.thy ===== *)
theory LookupProps
  imports Lookup Samples
begin

text \<open>
  What the lookup decides. The entries of a source that apply to the user on this host are put in
  one list, in file order; the lookup is a walk over this list from its end.
\<close>

section \<open>The walk over the applicable entries\<close>

definition priv_entries :: "system \<Rightarrow> sudo_defs \<Rightarrow> parse_tree \<Rightarrow> userspec \<Rightarrow> sudo_context \<Rightarrow> privilege \<Rightarrow>
    (userspec \<times> privilege \<times> cmndspec) list" where
  "priv_entries sys df pt us ctx priv =
     (if hostlist_matches sys df ctx pt (user_pw ctx) (hostlist priv) = ALLOW
      then List.map (\<lambda>cs. (us, priv, cs)) (cmndlist priv) else [])"

definition user_entries :: "system \<Rightarrow> sudo_defs \<Rightarrow> parse_tree \<Rightarrow> sudo_context \<Rightarrow> userspec \<Rightarrow>
    (userspec \<times> privilege \<times> cmndspec) list" where
  "user_entries sys df pt ctx us =
     (if userlist_matches sys df ctx pt (user_pw ctx) (us_users us) = ALLOW
      then concat (List.map (priv_entries sys df pt us ctx) (us_privileges us)) else [])"

definition applicable :: "system \<Rightarrow> sudo_defs \<Rightarrow> sudo_context \<Rightarrow> parse_tree \<Rightarrow>
    (userspec \<times> privilege \<times> cmndspec) list" where
  "applicable sys df ctx pt = concat (List.map (user_entries sys df pt ctx) (userspecs pt))"

fun check_flat :: "system \<Rightarrow> sudo_defs \<Rightarrow> command_matcher \<Rightarrow> parse_tree \<Rightarrow> int \<Rightarrow>
    (userspec \<times> privilege \<times> cmndspec) list \<Rightarrow> lookup_state \<Rightarrow> verdict \<times> lookup_state" where
  "check_flat sys df cm pt now [] st = (UNSPEC, st)"
| "check_flat sys df cm pt now ((us, priv, cs) # es) st =
     (let (v, st) = check_cmndspec sys df cm pt now us priv cs st in
      if SPECIFIED v then (v, st) else check_flat sys df cm pt now es st)"

text \<open>The part of the state a decision depends on.\<close>

definition core :: "lookup_state \<Rightarrow> sudo_context \<times> match_state \<times> cmndspec option \<times> defaults list option" where
  "core st = (ls_ctx st, ls_ms st, ls_cs st, ls_defs st)"

definition same :: "verdict \<times> lookup_state \<Rightarrow> verdict \<times> lookup_state \<Rightarrow> bool" where
  "same x y \<longleftrightarrow> fst x = fst y \<and> core (snd x) = core (snd y)"

lemma core_update [simp]:
  "core (st\<lparr>ls_validated := v\<rparr>) = core st" "core (st\<lparr>ls_events := e\<rparr>) = core st"
  by (simp_all add: core_def)

lemma same_trans: "same x y \<Longrightarrow> same y z \<Longrightarrow> same x z"
  by (simp add: same_def)

lemma check_cmndspec_same:
  "core st = core st' \<Longrightarrow>
     same (check_cmndspec sys df cm pt now us priv cs st) (check_cmndspec sys df cm pt now us priv cs st')"
  by (simp add: check_cmndspec_def same_def core_def Let_def split_beta)

lemma check_cmndspec_unspec:
  "check_cmndspec sys df cm pt now us priv cs st = (v, st1) \<Longrightarrow> \<not> SPECIFIED v \<Longrightarrow>
     ls_ctx st1 = ls_ctx st \<and> ls_cs st1 = ls_cs st \<and> ls_defs st1 = ls_defs st"
  by (auto simp: check_cmndspec_def Let_def split_beta split: if_splits)

lemma check_flat_same:
  "core st = core st' \<Longrightarrow> same (check_flat sys df cm pt now es st) (check_flat sys df cm pt now es st')"
proof (induction es arbitrary: st st')
  case (Cons e es)
  obtain us priv cs where e: "e = (us, priv, cs)" by (cases e)
  have "same (check_cmndspec sys df cm pt now us priv cs st) (check_cmndspec sys df cm pt now us priv cs st')"
    using Cons.prems by (rule check_cmndspec_same)
  then obtain v st1 st2 where c: "check_cmndspec sys df cm pt now us priv cs st = (v, st1)"
    "check_cmndspec sys df cm pt now us priv cs st' = (v, st2)" "core st1 = core st2"
    unfolding same_def by (metis prod.collapse)
  show ?case
    using Cons.IH [OF c(3)] c(3) by (cases "SPECIFIED v") (simp_all add: e c(1,2) same_def)
qed (simp add: same_def)

lemma check_flat_append:
  "check_flat sys df cm pt now (es @ fs) st =
     (let (v, st) = check_flat sys df cm pt now es st in
      if SPECIFIED v then (v, st) else check_flat sys df cm pt now fs st)"
proof (induction es arbitrary: st)
  case (Cons e es)
  obtain us priv cs where e: "e = (us, priv, cs)" by (cases e)
  show ?case using Cons by (simp add: e Let_def split_beta)
qed simp

lemma check_flat_unspec:
  "check_flat sys df cm pt now es st = (v, st1) \<Longrightarrow> \<not> SPECIFIED v \<Longrightarrow>
     v = UNSPEC \<and> ls_ctx st1 = ls_ctx st \<and> ls_cs st1 = ls_cs st \<and> ls_defs st1 = ls_defs st"
proof (induction es arbitrary: st)
  case (Cons e es)
  obtain us priv cs where e: "e = (us, priv, cs)" by (cases e)
  obtain w st2 where c: "check_cmndspec sys df cm pt now us priv cs st = (w, st2)" by force
  show ?case using Cons check_cmndspec_unspec [OF c] by (auto simp: e c split: if_splits)
qed simp

lemma check_cmndlist_flat:
  "check_cmndlist sys df cm pt now us priv css st =
     check_flat sys df cm pt now (List.map (\<lambda>cs. (us, priv, cs)) css) st"
  by (induction css arbitrary: st) (simp_all add: Let_def split_beta)

text \<open>Going on after a block of entries, under the first state or one with the same core.\<close>

lemma same_continue:
  assumes "same x (check_flat sys df cm pt now es st)"
    and "\<And>st1. ls_ctx st1 = ls_ctx st \<Longrightarrow> same (f st1) (check_flat sys df cm pt now fs st1)"
  shows "same (let (v, st1) = x in if SPECIFIED v then (v, st1) else f st1)
    (check_flat sys df cm pt now (es @ fs) st)"
proof -
  obtain v st1 where x: "x = (v, st1)" by force
  obtain st2 where y: "check_flat sys df cm pt now es st = (v, st2)" and c: "core st1 = core st2"
    using assms(1) x by (cases "check_flat sys df cm pt now es st") (auto simp: same_def)
  show ?thesis
  proof (cases "SPECIFIED v")
    case True
    then show ?thesis using x y c by (simp add: check_flat_append same_def)
  next
    case False
    then have "ls_ctx st1 = ls_ctx st" using check_flat_unspec [OF y] c by (simp add: core_def)
    then have "same (f st1) (check_flat sys df cm pt now fs st2)"
      using assms(2) check_flat_same [OF c] same_trans by blast
    then show ?thesis using False x y by (simp add: check_flat_append)
  qed
qed

definition rev_privs :: "system \<Rightarrow> sudo_defs \<Rightarrow> parse_tree \<Rightarrow> userspec \<Rightarrow> privilege list \<Rightarrow> sudo_context \<Rightarrow>
    (userspec \<times> privilege \<times> cmndspec) list" where
  "rev_privs sys df pt us privs ctx = concat (List.map (\<lambda>priv. rev (priv_entries sys df pt us ctx priv)) privs)"

definition rev_users :: "system \<Rightarrow> sudo_defs \<Rightarrow> parse_tree \<Rightarrow> userspec list \<Rightarrow> sudo_context \<Rightarrow>
    (userspec \<times> privilege \<times> cmndspec) list" where
  "rev_users sys df pt uss ctx = concat (List.map (\<lambda>us. rev (user_entries sys df pt ctx us)) uss)"

lemma rev_concat_map: "rev (concat (List.map f xs)) = concat (List.map (\<lambda>x. rev (f x)) (rev xs))"
  by (induction xs) simp_all

lemma check_privileges_flat:
  "same (check_privileges sys df cm pt now us privs st)
     (check_flat sys df cm pt now (rev_privs sys df pt us privs (ls_ctx st)) st)"
proof (induction privs arbitrary: st)
  case (Cons priv privs)
  show ?case
  proof (cases "hostlist_matches sys df (ls_ctx st) pt (user_pw (ls_ctx st)) (hostlist priv) = ALLOW")
    case True
    let ?st = "st\<lparr>ls_validated := CLR (ls_validated st) FLAG_NO_HOST\<rparr>"
    have "rev (priv_entries sys df pt us (ls_ctx st) priv) = List.map (\<lambda>cs. (us, priv, cs)) (rev (cmndlist priv))"
      using True by (simp add: priv_entries_def rev_map)
    then have "same (check_cmndlist sys df cm pt now us priv (rev (cmndlist priv)) ?st)
        (check_flat sys df cm pt now (rev (priv_entries sys df pt us (ls_ctx st) priv)) st)"
      by (simp add: check_cmndlist_flat check_flat_same)
    moreover have "\<And>st1. ls_ctx st1 = ls_ctx st \<Longrightarrow> same (check_privileges sys df cm pt now us privs st1)
        (check_flat sys df cm pt now (rev_privs sys df pt us privs (ls_ctx st)) st1)"
      using Cons.IH by metis
    ultimately show ?thesis
      using same_continue [of "check_cmndlist sys df cm pt now us priv (rev (cmndlist priv)) ?st"] True
      by (simp add: Let_def rev_privs_def)
  next
    case False
    define st2 where "st2 = st\<lparr>ls_events := ls_events st @ [callback_host us priv
      (hostlist_matches sys df (ls_ctx st) pt (user_pw (ls_ctx st)) (hostlist priv))]\<rparr>"
    have "core st2 = core st" "ls_ctx st2 = ls_ctx st" by (simp_all add: st2_def)
    then have "same (check_privileges sys df cm pt now us privs st2)
        (check_flat sys df cm pt now (rev_privs sys df pt us privs (ls_ctx st)) st)"
      using same_trans [OF Cons.IH [of st2] check_flat_same] by simp
    moreover have "check_privileges sys df cm pt now us (priv # privs) st =
        check_privileges sys df cm pt now us privs st2"
      using False by (simp add: Let_def st2_def)
    ultimately show ?thesis using False by (simp add: rev_privs_def priv_entries_def)
  qed
qed (simp add: same_def rev_privs_def)

lemma check_userspecs_flat:
  "same (check_userspecs sys df cm pt now uss st)
     (check_flat sys df cm pt now (rev_users sys df pt uss (ls_ctx st)) st)"
proof (induction uss arbitrary: st)
  case (Cons us uss)
  show ?case
  proof (cases "userlist_matches sys df (ls_ctx st) pt (user_pw (ls_ctx st)) (us_users us) = ALLOW")
    case True
    let ?st = "st\<lparr>ls_validated := CLR (ls_validated st) FLAG_NO_USER\<rparr>"
    have "rev (user_entries sys df pt (ls_ctx st) us) = rev_privs sys df pt us (rev (us_privileges us)) (ls_ctx st)"
      using True by (simp add: user_entries_def rev_privs_def rev_concat_map)
    then have "same (check_privileges sys df cm pt now us (rev (us_privileges us)) ?st)
        (check_flat sys df cm pt now (rev (user_entries sys df pt (ls_ctx st) us)) st)"
      using same_trans [OF check_privileges_flat [of _ _ _ _ _ _ _ ?st] check_flat_same [of ?st st]] by simp
    moreover have "\<And>st1. ls_ctx st1 = ls_ctx st \<Longrightarrow> same (check_userspecs sys df cm pt now uss st1)
        (check_flat sys df cm pt now (rev_users sys df pt uss (ls_ctx st)) st1)"
      using Cons.IH by metis
    ultimately show ?thesis
      using same_continue [of "check_privileges sys df cm pt now us (rev (us_privileges us)) ?st"] True
      by (simp add: Let_def rev_users_def)
  next
    case False
    define st2 where "st2 = (if userlist_matches sys df (ls_ctx st) pt (user_pw (ls_ctx st)) (us_users us) = DENY
      then st\<lparr>ls_events := ls_events st @ [callback_user us DENY]\<rparr> else st)"
    have "core st2 = core st" "ls_ctx st2 = ls_ctx st" by (simp_all add: st2_def)
    then have "same (check_userspecs sys df cm pt now uss st2)
        (check_flat sys df cm pt now (rev_users sys df pt uss (ls_ctx st)) st)"
      using same_trans [OF Cons.IH [of st2] check_flat_same] by simp
    moreover have "check_userspecs sys df cm pt now (us # uss) st = check_userspecs sys df cm pt now uss st2"
      using False by (simp add: Let_def st2_def)
    ultimately show ?thesis using False by (simp add: rev_users_def user_entries_def)
  qed
qed (simp add: same_def rev_users_def)

lemma lookup_check_flat:
  "same (sudoers_lookup_check sys df cm pt now st)
     (check_flat sys df cm pt now (rev (applicable sys df (ls_ctx st) pt))
       (st\<lparr>ls_ms := (ls_ms st)\<lparr>ms_info := Some info0\<rparr>\<rparr>))"
  using check_userspecs_flat [of sys df cm pt now "rev (userspecs pt)"
      "st\<lparr>ls_ms := (ls_ms st)\<lparr>ms_info := Some info0\<rparr>\<rparr>"]
  by (simp add: sudoers_lookup_check_def applicable_def rev_concat_map rev_users_def)

section \<open>Decisions\<close>

definition cmnd_leaf :: "(sudo_command \<Rightarrow> string option \<Rightarrow> verdict) \<Rightarrow> string option \<Rightarrow> member \<Rightarrow> verdict" where
  "cmnd_leaf w runchroot m =
     (if m_type m = ALL_member \<or> m_type m = COMMAND
      then (case m_name m of Cmnd c \<Rightarrow> matched_if m (w c runchroot) | _ \<Rightarrow> UNSPEC) else UNSPEC)"

text \<open>
  The verdict of one entry when the verdict of the command matcher does not depend on its state:
  inside its dates, for an allowed target, the last command of the expansion that matches.
\<close>

definition entry_verdict :: "system \<Rightarrow> sudo_defs \<Rightarrow> sudo_context \<Rightarrow> parse_tree \<Rightarrow> int \<Rightarrow>
    (sudo_command \<Rightarrow> string option \<Rightarrow> verdict) \<Rightarrow> cmndspec \<Rightarrow> verdict" where
  "entry_verdict sys df ctx pt now w cs =
     (if date_matches now cs \<noteq> DENY \<and>
         fst (runaslist_matches sys df ctx pt (runasuserlist cs) (runasgrouplist cs) None) = ALLOW
      then last_match (cmnd_leaf w (cs_runchroot cs)) (expand (aliases pt) CMNDALIAS [cs_cmnd cs])
      else UNSPEC)"

text \<open>
  A command matcher with an invariant \<open>I\<close> of the state, under which it answers \<open>w\<close> for every chroot
  in \<open>R\<close>.
\<close>

definition answers :: "(match_state \<Rightarrow> bool) \<Rightarrow> (string option \<Rightarrow> bool) \<Rightarrow> command_matcher \<Rightarrow>
    (sudo_command \<Rightarrow> string option \<Rightarrow> verdict) \<Rightarrow> bool" where
  "answers I R cm w \<longleftrightarrow>
     (\<forall>c r s. R r \<longrightarrow> I s \<longrightarrow> fst (cm c r s) = w c r \<and> I (snd (cm c r s))) \<and>
     (\<forall>s i. I s \<longrightarrow> I (s\<lparr>ms_info := i\<rparr>))"

lemma scan_verdict:
  assumes "\<And>m s. I s \<Longrightarrow> fst (leaf m s) = w m \<and> I (snd (leaf m s))" "I s"
  shows "fst (scan leaf xs s) = last_match w (rev xs) \<and> I (snd (scan leaf xs s))"
  using assms(2)
proof (induction xs arbitrary: s)
  case (Cons x xs)
  obtain n m where x: "x = (n, m)" by force
  obtain s1 where "leaf m s = (w m, s1)" "I s1" using assms(1) [OF Cons.prems] by (metis prod.collapse)
  then show ?case using Cons.IH [of s1] by (simp add: x last_match_def Let_def)
qed (simp add: last_match_def)

lemma cmnd_matches_scan:
  "cmnd_matches cm pt m runchroot s = scan (cmnd_word cm runchroot) (rev (expand (aliases pt) CMNDALIAS [m])) s"
proof -
  have "fst (cmnd_matches cm pt m runchroot s) = fst (cmndlist_rev_matches cm pt [m] runchroot s) \<and>
      snd (cmnd_matches cm pt m runchroot s) = snd (cmndlist_rev_matches cm pt [m] runchroot s)"
    by (simp add: Let_def split_beta SPECIFIED_iff)
  then have "cmnd_matches cm pt m runchroot s = cmndlist_rev_matches cm pt [m] runchroot s"
    by (simp add: prod_eq_iff)
  also have "\<dots> = scan (cmnd_word cm runchroot) (flat (aliases pt) CMNDALIAS False [m]) s"
    using cmnd_eval.evals_scan [where al = "aliases pt" and ms = "[m]" and pt = pt and cm = cm] by simp
  finally show ?thesis by (simp add: expand_def)
qed

lemma cmnd_matches_verdict:
  assumes "answers I R cm w" "R runchroot" "I s"
  shows "fst (cmnd_matches cm pt m runchroot s) =
    last_match (cmnd_leaf w runchroot) (expand (aliases pt) CMNDALIAS [m]) \<and>
    I (snd (cmnd_matches cm pt m runchroot s))"
proof -
  have l: "fst (cmnd_word cm runchroot x t) = cmnd_leaf w runchroot x \<and> I (snd (cmnd_word cm runchroot x t))"
    if "I t" for x t
    using assms(1,2) that unfolding answers_def
    by (auto simp: cmnd_word_def cmnd_leaf_def split_beta split: member_name.split)
  show ?thesis
    using scan_verdict [of I "cmnd_word cm runchroot", OF l assms(3)] unfolding cmnd_matches_scan by simp
qed

lemma check_cmndspec_verdict:
  assumes "answers I R cm w" "R (cs_runchroot cs)" "I (ls_ms st)"
    and "check_cmndspec sys df cm pt now us priv cs st = (v, st1)"
  shows "v = entry_verdict sys df (ls_ctx st) pt now w cs"
    and "v \<noteq> UNSPEC \<Longrightarrow> ls_cs st1 = Some cs \<and> ls_defs st1 = Some (p_defaults priv)"
    and "I (ls_ms st1)"
  using assms(4) cmnd_matches_verdict [OF assms(1-3)] assms(1,3) unfolding answers_def
  by (auto simp: check_cmndspec_def check_entry_def entry_verdict_def Let_def split_beta SPECIFIED_iff
      split: if_splits)

lemma check_flat_verdict:
  assumes "answers I R cm w"
  shows "ls_ctx st = ctx \<Longrightarrow> I (ls_ms st) \<Longrightarrow> \<forall>(us, priv, cs)\<in>set es. R (cs_runchroot cs) \<Longrightarrow>
    check_flat sys df cm pt now es st = (v, st1) \<Longrightarrow>
    (case filter (\<lambda>(us, priv, cs). entry_verdict sys df ctx pt now w cs \<noteq> UNSPEC) es of
       [] \<Rightarrow> v = UNSPEC
     | (us, priv, cs) # _ \<Rightarrow> v = entry_verdict sys df ctx pt now w cs \<and>
         ls_cs st1 = Some cs \<and> ls_defs st1 = Some (p_defaults priv))"
proof (induction es arbitrary: st)
  case (Cons e es)
  obtain us priv cs where e: "e = (us, priv, cs)" by (cases e)
  obtain u st2 where c: "check_cmndspec sys df cm pt now us priv cs st = (u, st2)" by force
  have r: "R (cs_runchroot cs)" using Cons.prems e by simp
  note v = check_cmndspec_verdict [OF assms r Cons.prems(2) c]
  show ?case
  proof (cases "u = UNSPEC")
    case True
    then have "ls_ctx st2 = ctx" using check_cmndspec_unspec [OF c] Cons.prems by simp
    then show ?thesis using Cons.IH [of st2] True v(1,3) Cons.prems by (simp add: e c)
  next
    case False
    then show ?thesis using v Cons.prems by (simp add: e c SPECIFIED_iff)
  qed
qed simp

lemma lookup_check_last:
  assumes "answers I R cm w" "I (ls_ms st)"
    and "\<forall>(us, priv, cs)\<in>set (applicable sys df (ls_ctx st) pt). R (cs_runchroot cs)"
    and "sudoers_lookup_check sys df cm pt now st = (v, st')"
    and "es = filter (\<lambda>(us, priv, cs). entry_verdict sys df (ls_ctx st) pt now w cs \<noteq> UNSPEC)
           (applicable sys df (ls_ctx st) pt)"
  shows "if es = [] then v = UNSPEC
         else case last es of (us, priv, cs) \<Rightarrow>
           v = entry_verdict sys df (ls_ctx st) pt now w cs \<and>
           ls_cs st' = Some cs \<and> ls_defs st' = Some (p_defaults priv)"
proof -
  let ?st = "st\<lparr>ls_ms := (ls_ms st)\<lparr>ms_info := Some info0\<rparr>\<rparr>"
  obtain st2 where f: "check_flat sys df cm pt now (rev (applicable sys df (ls_ctx st) pt)) ?st = (v, st2)"
    and c: "core st' = core st2"
    using lookup_check_flat [of sys df cm pt now st] assms(4)
    by (cases "check_flat sys df cm pt now (rev (applicable sys df (ls_ctx st) pt)) ?st") (auto simp: same_def)
  have es: "filter (\<lambda>(us, priv, cs). entry_verdict sys df (ls_ctx st) pt now w cs \<noteq> UNSPEC)
      (rev (applicable sys df (ls_ctx st) pt)) = rev es"
    by (simp add: assms(5) rev_filter)
  have st: "ls_ctx ?st = ls_ctx st" "I (ls_ms ?st)"
    "\<forall>(us, priv, cs)\<in>set (rev (applicable sys df (ls_ctx st) pt)). R (cs_runchroot cs)"
    using assms(1-3) by (simp_all add: answers_def)
  note r = check_flat_verdict [OF assms(1) st f, unfolded es]
  show ?thesis
    using r c by (cases es rule: rev_cases) (auto simp: core_def)
qed

text \<open>
  The answer of one entry, in a state: inside its dates and for an allowed target, what the last command
  of the expansion that matches says; the matcher is asked from the end and may change the state.
\<close>

definition entry_answer :: "system \<Rightarrow> sudo_defs \<Rightarrow> sudo_context \<Rightarrow> command_matcher \<Rightarrow> parse_tree \<Rightarrow> int \<Rightarrow>
    cmndspec \<Rightarrow> match_state \<Rightarrow> verdict \<times> match_state" where
  "entry_answer sys df ctx cm pt now cs s =
     (if date_matches now cs \<noteq> DENY \<and>
         fst (runaslist_matches sys df ctx pt (runasuserlist cs) (runasgrouplist cs) None) = ALLOW
      then scan (cmnd_word cm (cs_runchroot cs)) (rev (expand (aliases pt) CMNDALIAS [cs_cmnd cs])) s
      else (UNSPEC, s))"

text \<open>The state after entries none of which decides, None when one does.\<close>

fun passed :: "(cmndspec \<Rightarrow> match_state \<Rightarrow> verdict \<times> match_state) \<Rightarrow> (userspec \<times> privilege \<times> cmndspec) list \<Rightarrow>
    match_state \<Rightarrow> match_state option" where
  "passed ans [] s = Some s"
| "passed ans ((us, priv, cs) # es) s =
     (if fst (ans cs s) = UNSPEC then passed ans es ((snd (ans cs s))\<lparr>ms_info := Some info0\<rparr>) else None)"

lemma check_cmndspec_answer:
  assumes "check_cmndspec sys df cm pt now us priv cs st = (v, st1)"
  shows "v = fst (entry_answer sys df (ls_ctx st) cm pt now cs (ls_ms st))"
    and "v = UNSPEC \<Longrightarrow> ls_ctx st1 = ls_ctx st \<and>
      ls_ms st1 = (snd (entry_answer sys df (ls_ctx st) cm pt now cs (ls_ms st)))\<lparr>ms_info := Some info0\<rparr>"
    and "v \<noteq> UNSPEC \<Longrightarrow> ls_cs st1 = Some cs \<and> ls_defs st1 = Some (p_defaults priv) \<and>
      ls_ms st1 = snd (entry_answer sys df (ls_ctx st) cm pt now cs (ls_ms st))"
  using assms
  by (auto simp: check_cmndspec_def check_entry_def entry_answer_def cmnd_matches_scan Let_def split_beta
      SPECIFIED_iff split: if_splits)

lemma check_flat_answer:
  assumes "check_flat sys df cm pt now es st = (v, st1)"
  shows "if v = UNSPEC then passed (entry_answer sys df (ls_ctx st) cm pt now) es (ls_ms st) \<noteq> None
    else \<exists>later us priv cs earlier s. es = later @ (us, priv, cs) # earlier \<and>
      passed (entry_answer sys df (ls_ctx st) cm pt now) later (ls_ms st) = Some s \<and>
      (v, ls_ms st1) = entry_answer sys df (ls_ctx st) cm pt now cs s \<and>
      ls_cs st1 = Some cs \<and> ls_defs st1 = Some (p_defaults priv)"
  using assms
proof (induction es arbitrary: st)
  case (Cons e es)
  obtain us priv cs where e: "e = (us, priv, cs)" by (cases e)
  obtain u st2 where c: "check_cmndspec sys df cm pt now us priv cs st = (u, st2)" by force
  note a = check_cmndspec_answer [OF c]
  show ?case
  proof (cases "u = UNSPEC")
    case True
    have "check_flat sys df cm pt now es st2 = (v, st1)" using Cons.prems True by (simp add: e c SPECIFIED_iff)
    note IH = Cons.IH [OF this]
    have p: "passed (entry_answer sys df (ls_ctx st) cm pt now) (e # xs) (ls_ms st) =
        passed (entry_answer sys df (ls_ctx st2) cm pt now) xs (ls_ms st2)" for xs
      using True a(1,2) by (simp add: e)
    show ?thesis
    proof (cases "v = UNSPEC")
      case False
      then obtain later us' priv' cs' earlier s where "es = later @ (us', priv', cs') # earlier"
        "passed (entry_answer sys df (ls_ctx st2) cm pt now) later (ls_ms st2) = Some s"
        "(v, ls_ms st1) = entry_answer sys df (ls_ctx st2) cm pt now cs' s"
        "ls_cs st1 = Some cs' \<and> ls_defs st1 = Some (p_defaults priv')" using IH by auto
      then show ?thesis using False p [of later] a(2) [OF True]
        by (simp del: passed.simps) (metis append_Cons)
    qed (use IH p in simp)
  next
    case False
    then have "v = u" "st1 = st2" using Cons.prems by (simp_all add: e c SPECIFIED_iff)
    then show ?thesis using False a(1,3) e
      by (simp del: passed.simps) (metis append_Nil passed.simps(1) prod.collapse)
  qed
qed simp

text \<open>
  C1. The last entry that decides wins, whatever the command matcher does: among all entries of the policy for this user
  and host, in file order, the lookup returns the answer (by its dates, target user and group and
  commands) of one after which no entry decides, and hands out its settings. The matcher may change its state: each entry is asked in
  the state that the entries after it have left. Without such an entry the verdict is UNSPEC.
\<close>

theorem lookup_check_last_entry:
  "case sudoers_lookup_check sys df cm pt now st of (v, st') \<Rightarrow>
     (let ans = entry_answer sys df (ls_ctx st) cm pt now; es = applicable sys df (ls_ctx st) pt;
          start = (ls_ms st)\<lparr>ms_info := Some info0\<rparr>
      in if v = UNSPEC then passed ans (rev es) start \<noteq> None
         else \<exists>earlier us priv cs later s. es = earlier @ (us, priv, cs) # later \<and>
           passed ans (rev later) start = Some s \<and> (v, ls_ms st') = ans cs s \<and>
           ls_cs st' = Some cs \<and> ls_defs st' = Some (p_defaults priv))"
proof -
  let ?st = "st\<lparr>ls_ms := (ls_ms st)\<lparr>ms_info := Some info0\<rparr>\<rparr>"
  obtain v st' where l: "sudoers_lookup_check sys df cm pt now st = (v, st')" by force
  obtain st2 where f: "check_flat sys df cm pt now (rev (applicable sys df (ls_ctx st) pt)) ?st = (v, st2)"
    and c: "core st' = core st2"
    using lookup_check_flat [of sys df cm pt now st] l
    by (cases "check_flat sys df cm pt now (rev (applicable sys df (ls_ctx st) pt)) ?st") (auto simp: same_def)
  have r: "rev xs = later @ x # earlier \<longleftrightarrow> xs = rev earlier @ x # rev later" for xs later earlier and x :: "userspec \<times> privilege \<times> cmndspec"
    by (metis append.assoc append_Cons append_Nil rev.simps(2) rev_append rev_rev_ident)
  show ?thesis
  proof (cases "v = UNSPEC")
    case True
    then show ?thesis using check_flat_answer [OF f] by (simp add: l)
  next
    case False
    then obtain later us priv cs earlier s where
      "applicable sys df (ls_ctx st) pt = rev earlier @ (us, priv, cs) # rev later"
      "passed (entry_answer sys df (ls_ctx st) cm pt now) later ((ls_ms st)\<lparr>ms_info := Some info0\<rparr>) = Some s"
      "(v, ls_ms st') = entry_answer sys df (ls_ctx st) cm pt now cs s"
      "ls_cs st' = Some cs" "ls_defs st' = Some (p_defaults priv)"
      using check_flat_answer [OF f] c by (auto simp: r core_def)
    then show ?thesis using False by (simp add: l Let_def) (metis rev_rev_ident)
  qed
qed

text \<open>The samples: alice may run \<open>/bin/ls\<close> by an entry that a later one takes back.\<close>

lemma sample_users:
  "userlist_matches sys sample_defs sample_ctx (sample_tree specs) (user_pw sample_ctx)
     (us_users (sample_spec es)) = ALLOW"
  "hostlist_matches sys sample_defs sample_ctx (sample_tree specs) (user_pw sample_ctx) [all_member] = ALLOW"
  by (simp_all add: userlist_matches_def user_matches.simps user_word_def userpw_matches_def matched_if_def
      hostlist_matches_def hostlist_matches_int_def host_matches.simps host_word_def sign_verdict_def
      sample_defs_all c_at_def Let_def)

lemma sample_applicable:
  "applicable sys sample_defs sample_ctx (sample_tree [sample_spec es]) =
     List.map (\<lambda>cs. (sample_spec es, hd (us_privileges (sample_spec es)), cs)) es"
proof -
  have "us_privileges (sample_spec es) = [\<lparr>hostlist = [all_member], cmndlist = es, p_defaults = []\<rparr>]"
    "userspecs (sample_tree specs) = specs" for specs
    by (simp_all add: sample_spec_def sample_tree_def)
  then show ?thesis
    by (simp add: applicable_def user_entries_def priv_entries_def sample_users)
qed

lemma sample_entry_verdict:
  "entry_verdict sys sample_defs sample_ctx (sample_tree specs) now w (sample_entry path neg) =
     (case w \<lparr>sc_cmnd = Some path, sc_args = None, sc_digests = []\<rparr> None of
        ALLOW \<Rightarrow> sign_verdict neg | _ \<Rightarrow> UNSPEC)"
proof -
  have d: "date_matches now (sample_entry path neg) = UNSPEC"
    by (simp add: date_matches_def sample_entry_def)
  have r: "fst (runaslist_matches sys sample_defs sample_ctx (sample_tree specs)
      (runasuserlist (sample_entry path neg)) (runasgrouplist (sample_entry path neg)) None) = ALLOW"
    by (simp add: runaslist_matches_def runas_userlist_matches_def runas_user_word_def userpw_matches_def
        matched_if_def sign_verdict_def sample_defs_all c_at_def Let_def)
  have e: "expand (aliases (sample_tree specs)) CMNDALIAS [sample_cmnd path neg] = [(False, sample_cmnd path neg)]"
    by (simp add: expand_def entered_def sample_cmnd_def)
  show ?thesis
    using d r e
    by (simp add: entry_verdict_def last_match_def cmnd_leaf_def Let_def matched_if_def)
      (simp add: sample_entry_def sample_cmnd_def last_match_def cmnd_leaf_def matched_if_def Let_def
        sign_verdict_def split: verdict.split)
qed

text \<open>
  The date test of an entry with both dates looks at \<open>notafter\<close> only: \<open>notbefore\<close> keeps an
  entry from being used only when there is no \<open>notafter\<close>.
\<close>

theorem date_matches_deny:
  "date_matches now cs = DENY \<longleftrightarrow>
     (if notafter cs \<noteq> TIME_UNSPEC then now > notafter cs
      else notbefore cs \<noteq> TIME_UNSPEC \<and> now < notbefore cs)"
  by (simp add: date_matches_def Let_def)

section \<open>Flags\<close>

lemma ISSET_SET: "ISSET (SET w f) g \<longleftrightarrow> ISSET w g \<or> and f g \<noteq> 0"
  by (simp add: ISSET_def SET_def bit.conj_disj_distrib2 or_eq_0_iff)

lemma ISSET_CLR_other: "and f g = 0 \<Longrightarrow> ISSET (CLR w f) g = ISSET w g"
proof -
  assume "and f g = 0"
  then have "\<not> (bit f n \<and> bit g n)" for n by (metis bit_and_iff bit_0_eq bot_fun_def bot_bool_def)
  then have "and (not f) g = g" by (intro bit_word_eqI) (auto simp: bit_simps)
  then show ?thesis by (simp add: ISSET_def CLR_def and.assoc)
qed

lemma ISSET_CLR_same: "\<not> ISSET (CLR w f) f"
  by (simp add: ISSET_def CLR_def and.assoc)

lemma ISSET_CLR_mono: "ISSET (CLR w f) g \<Longrightarrow> ISSET w g"
proof -
  have "and (and w (not f)) g = and (not f) (and w g)" by (simp only: ac_simps)
  then show "ISSET (CLR w f) g \<Longrightarrow> ISSET w g" by (auto simp: ISSET_def CLR_def)
qed

text \<open>During the walk \<open>FLAG_NO_USER\<close> and \<open>FLAG_NO_HOST\<close> may be cleared, all else stays.\<close>

definition only_clears :: "32 word \<Rightarrow> 32 word \<Rightarrow> bool" where
  "only_clears v v' \<longleftrightarrow> (\<forall>g. ISSET v' g \<longrightarrow> ISSET v g) \<and>
     (\<forall>g. and FLAG_NO_USER g = 0 \<longrightarrow> and FLAG_NO_HOST g = 0 \<longrightarrow> ISSET v' g = ISSET v g)"

lemma only_clears_refl [simp]: "only_clears v v"
  by (simp add: only_clears_def)

lemma only_clears_trans: "only_clears u v \<Longrightarrow> only_clears v w \<Longrightarrow> only_clears u w"
  by (auto simp: only_clears_def)

lemma only_clears_CLR: "only_clears v (CLR v FLAG_NO_HOST)" "only_clears v (CLR v FLAG_NO_USER)"
  by (auto simp: only_clears_def ISSET_CLR_other dest: ISSET_CLR_mono)

lemma check_cmndlist_validated:
  "check_cmndlist sys df cm pt now us priv css st = (v, st1) \<Longrightarrow> ls_validated st1 = ls_validated st"
proof (induction css arbitrary: st)
  case (Cons cs css)
  have "ls_validated (snd (check_cmndspec sys df cm pt now us priv cs st)) = ls_validated st"
    by (simp add: check_cmndspec_def Let_def split_beta)
  then show ?case
    using Cons by (cases "check_cmndspec sys df cm pt now us priv cs st") (auto split: if_splits)
qed simp

lemma check_privileges_validated:
  "check_privileges sys df cm pt now us privs st = (v, st1) \<Longrightarrow>
     only_clears (ls_validated st) (ls_validated st1) \<and>
     (SPECIFIED v \<longrightarrow> \<not> ISSET (ls_validated st1) FLAG_NO_HOST)"
proof (induction privs arbitrary: st)
  case (Cons priv privs)
  let ?st = "st\<lparr>ls_validated := CLR (ls_validated st) FLAG_NO_HOST\<rparr>"
  show ?case
  proof (cases "hostlist_matches sys df (ls_ctx st) pt (user_pw (ls_ctx st)) (hostlist priv) = ALLOW")
    case True
    obtain u st2 where c: "check_cmndlist sys df cm pt now us priv (rev (cmndlist priv)) ?st = (u, st2)" by force
    have v2: "ls_validated st2 = CLR (ls_validated st) FLAG_NO_HOST"
      using check_cmndlist_validated [OF c] by simp
    show ?thesis
    proof (cases "SPECIFIED u")
      case True
      then show ?thesis
        using Cons.prems c v2 \<open>hostlist_matches sys df _ pt _ _ = ALLOW\<close>
        by (simp add: only_clears_CLR ISSET_CLR_same)
    next
      case False
      then have "check_privileges sys df cm pt now us privs st2 = (v, st1)"
        using Cons.prems c \<open>hostlist_matches sys df _ pt _ _ = ALLOW\<close> by simp
      from Cons.IH [OF this] show ?thesis
        using only_clears_trans [OF only_clears_CLR(1)] v2 by metis
    qed
  next
    case False
    then have "check_privileges sys df cm pt now us privs (st\<lparr>ls_events := ls_events st @ [callback_host us priv
        (hostlist_matches sys df (ls_ctx st) pt (user_pw (ls_ctx st)) (hostlist priv))]\<rparr>) = (v, st1)"
      using Cons.prems by (simp add: Let_def)
    from Cons.IH [OF this] show ?thesis by simp
  qed
qed simp

lemma check_userspecs_validated:
  "check_userspecs sys df cm pt now uss st = (v, st1) \<Longrightarrow>
     only_clears (ls_validated st) (ls_validated st1) \<and>
     (SPECIFIED v \<longrightarrow> \<not> ISSET (ls_validated st1) FLAG_NO_HOST \<and> \<not> ISSET (ls_validated st1) FLAG_NO_USER)"
proof (induction uss arbitrary: st)
  case (Cons us uss)
  let ?st = "st\<lparr>ls_validated := CLR (ls_validated st) FLAG_NO_USER\<rparr>"
  show ?case
  proof (cases "userlist_matches sys df (ls_ctx st) pt (user_pw (ls_ctx st)) (us_users us) = ALLOW")
    case allow: True
    obtain u st2 where c: "check_privileges sys df cm pt now us (rev (us_privileges us)) ?st = (u, st2)" by force
    note v2 = check_privileges_validated [OF c]
    have oc: "only_clears (CLR (ls_validated st) FLAG_NO_USER) (ls_validated st2)" using v2 by simp
    then have nu: "\<not> ISSET (ls_validated st2) FLAG_NO_USER"
      using ISSET_CLR_same unfolding only_clears_def by blast
    have oc2: "only_clears (ls_validated st) (ls_validated st2)"
      by (rule only_clears_trans [OF only_clears_CLR(2) oc])
    show ?thesis
    proof (cases "SPECIFIED u")
      case True
      then show ?thesis using Cons.prems c v2 nu oc2 allow by simp
    next
      case False
      then have "check_userspecs sys df cm pt now uss st2 = (v, st1)"
        using Cons.prems c allow by simp
      from Cons.IH [OF this] show ?thesis using only_clears_trans [OF oc2] by blast
    qed
  next
    case False
    define st2 where "st2 = (if userlist_matches sys df (ls_ctx st) pt (user_pw (ls_ctx st)) (us_users us) = DENY
      then st\<lparr>ls_events := ls_events st @ [callback_user us DENY]\<rparr> else st)"
    have "check_userspecs sys df cm pt now uss st2 = (v, st1)"
      using False Cons.prems by (simp add: Let_def st2_def split: if_splits)
    moreover have "ls_validated st2 = ls_validated st" by (simp add: st2_def)
    ultimately show ?thesis using Cons.IH [of st2] by simp
  qed
qed simp

lemma lookup_sources_validated:
  assumes "lookup_sources sys df cm now snl match tree st = (match', tree', st1)"
    and "SPECIFIED match \<longrightarrow> \<not> ISSET (ls_validated st) FLAG_NO_HOST \<and> \<not> ISSET (ls_validated st) FLAG_NO_USER"
  shows "(ISSET (ls_validated st1) VALIDATE_SUCCESS = ISSET (ls_validated st) VALIDATE_SUCCESS \<and>
     ISSET (ls_validated st1) VALIDATE_FAILURE = ISSET (ls_validated st) VALIDATE_FAILURE) \<and>
    (SPECIFIED match' \<longrightarrow> \<not> ISSET (ls_validated st1) FLAG_NO_HOST \<and> \<not> ISSET (ls_validated st1) FLAG_NO_USER)"
  using assms
proof (induction snl arbitrary: match tree st)
  case (Cons nss snl)
  show ?case
  proof (cases "nss_tree nss")
    case None
    then show ?thesis using Cons.prems by (auto simp: ISSET_SET flag_defs)
  next
    case (Some pt)
    obtain m st2 where c: "sudoers_lookup_check sys df cm pt now st = (m, st2)" by force
    note v = check_userspecs_validated [OF c [unfolded sudoers_lookup_check_def]]
    have s: "ISSET (ls_validated st2) VALIDATE_SUCCESS = ISSET (ls_validated st) VALIDATE_SUCCESS"
      "ISSET (ls_validated st2) VALIDATE_FAILURE = ISSET (ls_validated st) VALIDATE_FAILURE"
      using v by (auto simp: only_clears_def flag_defs)
    have h: "SPECIFIED (if SPECIFIED m then m else match) \<longrightarrow>
        \<not> ISSET (ls_validated st2) FLAG_NO_HOST \<and> \<not> ISSET (ls_validated st2) FLAG_NO_USER"
      using v Cons.prems(2) by (auto simp: only_clears_def)
    show ?thesis
    proof (cases "sudo_nss_can_continue nss m")
      case True
      then have "lookup_sources sys df cm now snl (if SPECIFIED m then m else match)
          (if SPECIFIED m then Some pt else tree) st2 = (match', tree', st1)"
        using Cons.prems(1) Some c by (simp split: if_splits)
      from Cons.IH [OF this h] show ?thesis using s by simp
    next
      case False
      then have "st1 = st2" "match' = (if SPECIFIED m then m else match)"
        using Cons.prems(1) Some c by (auto split: if_splits)
      then show ?thesis using s h by simp
    qed
  qed
qed simp

lemma start_flags:
  "\<not> ISSET (ls_validated (lookup_start ctx s)) VALIDATE_SUCCESS"
  "\<not> ISSET (ls_validated (lookup_start ctx s)) VALIDATE_FAILURE"
  by (simp_all add: lookup_start_def ISSET_def flag_defs)

lemma validated_shape:
  assumes "lookup_sources sys df (cm df) now snl UNSPEC None (lookup_start ctx s) = (match, tree, st)"
  shows "\<exists>v. lr_validated (sudoers_lookup sys cm upd True restored snl ctx df s now status 0) =
      (if restored then v else SET v VALIDATE_ERROR) \<and>
    v = (if SPECIFIED match then SET (ls_validated st) (if match = ALLOW then VALIDATE_SUCCESS else VALIDATE_FAILURE)
         else ls_validated st)"
  using assms by (simp add: sudoers_lookup_def lookup_commands_def Let_def split_beta)


section \<open>Several sources\<close>

lemmas apply_runas_steps = apply_role_def apply_type_def apply_apparmor_def apply_privs_def apply_limitprivs_def

lemma apply_runas_keeps:
  assumes "\<And>ctx u. g (ctx\<lparr>runas_role := u\<rparr>) = g ctx" "\<And>ctx u. g (ctx\<lparr>runas_type := u\<rparr>) = g ctx"
    "\<And>ctx u. g (ctx\<lparr>runas_apparmor_profile := u\<rparr>) = g ctx" "\<And>ctx u. g (ctx\<lparr>runas_privs := u\<rparr>) = g ctx"
    "\<And>ctx u. g (ctx\<lparr>runas_limitprivs := u\<rparr>) = g ctx"
  shows "g (fst (apply_runas cs cd)) = g (fst cd)"
proof -
  have "g (fst (apply_role cs x)) = g (fst x)" "g (fst (apply_type cs x)) = g (fst x)"
    "g (fst (apply_apparmor cs x)) = g (fst x)" "g (fst (apply_privs cs x)) = g (fst x)"
    "g (fst (apply_limitprivs cs x)) = g (fst x)" for x
    by (simp_all add: apply_runas_steps assms split_beta)
  then show ?thesis by (simp add: apply_runas_def)
qed

lemma apply_cmndspec_user_cmnd: "user_cmnd (fst (apply_cmndspec cso cd)) = user_cmnd (fst cd)"
  using apply_runas_keeps [of user_cmnd _ cd]
  by (simp add: apply_cmndspec_def Let_def split_beta split: option.split)

text \<open>
  When a source with no entries is asked after a source that allowed the command, the resolved
  path, status and file information of the matching entry are lost: the command to run is not
  updated, although the verdict and the settings of the entry stay.
\<close>

theorem second_source_drops_cmnd_info:
  assumes "sudoers_lookup_check sys df (cm df) pt now (lookup_start ctx s) = (ALLOW, st)"
    and "ms_info (ls_ms st) = Some info" "ci_path info = Some path"
    and "userspecs pt2 = []"
  shows "let one = \<lparr>nss_tree = Some pt, ret_if_found = False, ret_if_notfound = False\<rparr>;
             two = \<lparr>nss_tree = Some pt2, ret_if_found = False, ret_if_notfound = False\<rparr>;
             r1 = sudoers_lookup sys cm upd True True [one] ctx df s now status 0;
             r2 = sudoers_lookup sys cm upd True True [one, two] ctx df s now status 0
         in user_cmnd (lr_ctx r1) = Some path \<and> lr_status r1 = ci_status info \<and>
            user_cmnd (lr_ctx r2) = user_cmnd (ls_ctx st) \<and> lr_status r2 = status \<and>
            lr_validated r1 = lr_validated r2"
proof -
  have "sudoers_lookup_check sys df (cm df) pt2 now st = (UNSPEC, st\<lparr>ls_ms := (ls_ms st)\<lparr>ms_info := Some info0\<rparr>\<rparr>)"
    using assms(4) by (simp add: sudoers_lookup_check_def)
  then show ?thesis
    using assms(1-3)
    by (simp add: sudoers_lookup_def lookup_commands_def Let_def split_beta sudo_nss_can_continue_def
        update_cmnd_def info0_def apply_cmndspec_user_cmnd)
qed

lemma sample_check:
  "\<exists>st. sudoers_lookup_check empty_system sample_defs (sample_cm ''/bin/ls'')
      (sample_tree [sample_spec [sample_entry ''/bin/ls'' False]]) 0 (lookup_start sample_ctx sample_ms) = (ALLOW, st) \<and>
    ms_info (ls_ms st) = Some \<lparr>ci_path = Some ''/bin/ls'', ci_stat = stat0, ci_status = 1\<rparr> \<and>
    user_cmnd (ls_ctx st) = None"
proof -
  let ?pt = "sample_tree [sample_spec [sample_entry ''/bin/ls'' False]]"
  let ?st = "(lookup_start sample_ctx sample_ms)\<lparr>ls_ms := sample_ms\<lparr>ms_info := Some info0\<rparr>\<rparr>"
  let ?us = "sample_spec [sample_entry ''/bin/ls'' False]"
  obtain st where st: "check_cmndspec empty_system sample_defs (sample_cm ''/bin/ls'') ?pt 0 ?us
      (hd (us_privileges ?us)) (sample_entry ''/bin/ls'' False) ?st = (ALLOW, st)"
    "ms_info (ls_ms st) = Some \<lparr>ci_path = Some ''/bin/ls'', ci_stat = stat0, ci_status = 1\<rparr>"
    "user_cmnd (ls_ctx st) = None"
    by (simp add: check_cmndspec_def check_entry_def date_matches_def runaslist_matches_def
        runas_userlist_matches_def runas_user_word_def userpw_matches_def matched_if_def sign_verdict_def
        cmnd_matches.simps cmnd_word_def sample_defs_all lookup_start_def c_at_def Let_def)
  have "same (sudoers_lookup_check empty_system sample_defs (sample_cm ''/bin/ls'') ?pt 0
      (lookup_start sample_ctx sample_ms)) (ALLOW, st)"
    using lookup_check_flat [of empty_system sample_defs "sample_cm ''/bin/ls''" ?pt 0 "lookup_start sample_ctx sample_ms"] st(1)
    by (simp add: lookup_start_def sample_applicable)
  then show ?thesis
    using st(2,3) by (cases "sudoers_lookup_check empty_system sample_defs (sample_cm ''/bin/ls'') ?pt 0
      (lookup_start sample_ctx sample_ms)") (simp add: same_def core_def)
qed

lemma second_source_drops_cmnd_info_witness:
  "let one = \<lparr>nss_tree = Some (sample_tree [sample_spec [sample_entry ''/bin/ls'' False]]),
         ret_if_found = False, ret_if_notfound = False\<rparr>;
       two = \<lparr>nss_tree = Some (sample_tree []), ret_if_found = False, ret_if_notfound = False\<rparr>;
       look = (\<lambda>snl. sudoers_lookup empty_system (\<lambda>_. sample_cm ''/bin/ls'') (\<lambda>_ _ df. df) True True snl
         sample_ctx sample_defs sample_ms 0 0 0)
   in user_cmnd (lr_ctx (look [one])) = Some ''/bin/ls'' \<and> lr_status (look [one]) = 1 \<and>
      user_cmnd (lr_ctx (look [one, two])) = None \<and> lr_status (look [one, two]) = 0"
proof -
  obtain st where st: "sudoers_lookup_check empty_system sample_defs (sample_cm ''/bin/ls'')
      (sample_tree [sample_spec [sample_entry ''/bin/ls'' False]]) 0 (lookup_start sample_ctx sample_ms) = (ALLOW, st)"
    "ms_info (ls_ms st) = Some \<lparr>ci_path = Some ''/bin/ls'', ci_stat = stat0, ci_status = 1\<rparr>"
    "user_cmnd (ls_ctx st) = None" using sample_check by blast
  have "userspecs (sample_tree []) = []" by (simp add: sample_tree_def)
  from second_source_drops_cmnd_info [where cm = "\<lambda>_. sample_cm ''/bin/ls''", OF st(1,2) _ this]
  show ?thesis using st(3) by (simp add: Let_def)
qed

section \<open>The settings of the matching entry\<close>

definition by_tag :: "tag \<Rightarrow> bool \<Rightarrow> bool" where
  "by_tag t old = (if tag_set t then tag_truth t else old)"

lemma when_tag_keeps: "g (f (tag_truth t) df) = g df \<Longrightarrow> g (when_tag t f df) = g df"
  by (simp add: when_tag_def)

lemma when_tag_sets: "g (f (tag_truth t) df) = tag_truth t \<Longrightarrow> g (when_tag t f df) = by_tag t (g df)"
  by (simp add: when_tag_def by_tag_def)

lemma when_tag_clears: "g (f (tag_truth t) df) = (\<not> tag_truth t) \<Longrightarrow> g (when_tag t f df) = (\<not> by_tag t (\<not> g df))"
  by (simp add: when_tag_def by_tag_def)

lemmas tag_keeps =
  when_tag_keeps [where g = def_authenticate]
  when_tag_keeps [where g = def_noexec]
  when_tag_keeps [where g = def_intercept]
  when_tag_keeps [where g = def_setenv]
  when_tag_keeps [where g = def_log_input]
  when_tag_keeps [where g = def_log_output]
  when_tag_keeps [where g = def_sudoedit_follow]
  when_tag_keeps [where g = def_mail_always]
  when_tag_keeps [where g = def_command_timeout]
  when_tag_keeps [where g = def_runcwd]
  when_tag_keeps [where g = def_runchroot]

lemmas tag_sets =
  when_tag_sets [where g = def_noexec]
  when_tag_sets [where g = def_intercept]
  when_tag_sets [where g = def_setenv]
  when_tag_sets [where g = def_log_input]
  when_tag_sets [where g = def_log_output]
  when_tag_sets [where g = def_sudoedit_follow]

lemma apply_tags_fields:
  "def_authenticate (apply_tags tags df) = (\<not> by_tag (t_nopasswd tags) (\<not> def_authenticate df))"
  "def_noexec (apply_tags tags df) = by_tag (t_noexec tags) (def_noexec df)"
  "def_intercept (apply_tags tags df) = by_tag (t_intercept tags) (def_intercept df)"
  "def_setenv (apply_tags tags df) = by_tag (t_setenv tags) (def_setenv df)"
  "def_log_input (apply_tags tags df) = by_tag (t_log_input tags) (def_log_input df)"
  "def_log_output (apply_tags tags df) = by_tag (t_log_output tags) (def_log_output df)"
  "def_sudoedit_follow (apply_tags tags df) = by_tag (t_follow tags) (def_sudoedit_follow df)"
  "def_command_timeout (apply_tags tags df) = def_command_timeout df"
  "def_runcwd (apply_tags tags df) = def_runcwd df"
  "def_runchroot (apply_tags tags df) = def_runchroot df"
  by (simp_all add: apply_tags_def Let_def tag_keeps tag_sets when_tag_clears [where g = def_authenticate]
      cb_log_input_def cb_log_output_def)

lemma apply_tags_mail:
  "def_mail_always (apply_tags tags df) = (def_mail_always df \<and> t_send_mail tags \<noteq> Tag_false)"
proof -
  have "def_mail_always (when_tag t (\<lambda>b df. if b then df\<lparr>def_mail_all_cmnds := True\<rparr>
      else df\<lparr>def_mail_all_cmnds := False, def_mail_always := False, def_mail_no_perms := False\<rparr>) df) =
    (def_mail_always df \<and> t \<noteq> Tag_false)" for t df
    by (cases t) (simp_all add: when_tag_def tag_set_def tag_truth_def)
  then show ?thesis
    by (simp add: apply_tags_def Let_def tag_keeps cb_log_input_def cb_log_output_def)
qed

lemma apply_runas_keeps_defs:
  assumes "\<And>df u. g (df\<lparr>def_role := u\<rparr>) = g df" "\<And>df u. g (df\<lparr>def_type := u\<rparr>) = g df"
    "\<And>df u. g (df\<lparr>def_apparmor_profile := u\<rparr>) = g df" "\<And>df u. g (df\<lparr>def_privs := u\<rparr>) = g df"
    "\<And>df u. g (df\<lparr>def_limitprivs := u\<rparr>) = g df"
  shows "g (snd (apply_runas cs cd)) = g (snd cd)"
proof -
  have "g (snd (apply_role cs x)) = g (snd x)" "g (snd (apply_type cs x)) = g (snd x)"
    "g (snd (apply_apparmor cs x)) = g (snd x)" "g (snd (apply_privs cs x)) = g (snd x)"
    "g (snd (apply_limitprivs cs x)) = g (snd x)" for x
    by (simp_all add: apply_runas_steps assms split_beta)
  then show ?thesis by (simp add: apply_runas_def)
qed

lemmas apply_runas_defs =
  apply_runas_keeps_defs [of def_authenticate, simplified]
  apply_runas_keeps_defs [of def_noexec, simplified]
  apply_runas_keeps_defs [of def_intercept, simplified]
  apply_runas_keeps_defs [of def_setenv, simplified]
  apply_runas_keeps_defs [of def_log_input, simplified]
  apply_runas_keeps_defs [of def_log_output, simplified]
  apply_runas_keeps_defs [of def_sudoedit_follow, simplified]
  apply_runas_keeps_defs [of def_mail_always, simplified]
  apply_runas_keeps_defs [of def_command_timeout, simplified]
  apply_runas_keeps_defs [of def_runcwd, simplified]
  apply_runas_keeps_defs [of def_runchroot, simplified]

lemma apply_runas_role:
  "runas_role (fst (apply_runas cs (ctx, df))) = (case runas_role ctx of Some r \<Rightarrow> Some r
     | None \<Rightarrow> (case cs_role cs of Some r \<Rightarrow> Some r | None \<Rightarrow> def_role df))"
proof -
  have "runas_role (fst (apply_type cs x)) = runas_role (fst x)"
    "runas_role (fst (apply_apparmor cs x)) = runas_role (fst x)"
    "runas_role (fst (apply_privs cs x)) = runas_role (fst x)"
    "runas_role (fst (apply_limitprivs cs x)) = runas_role (fst x)" for x
    by (simp_all add: apply_runas_steps split_beta)
  then show ?thesis by (simp add: apply_runas_def apply_role_def split: option.split)
qed

lemma apply_limits_fields:
  "def_authenticate (apply_limits cs df) = def_authenticate df"
  "def_noexec (apply_limits cs df) = def_noexec df"
  "def_intercept (apply_limits cs df) = def_intercept df"
  "def_setenv (apply_limits cs df) = def_setenv df"
  "def_log_input (apply_limits cs df) = def_log_input df"
  "def_log_output (apply_limits cs df) = def_log_output df"
  "def_sudoedit_follow (apply_limits cs df) = def_sudoedit_follow df"
  "def_mail_always (apply_limits cs df) = def_mail_always df"
  by (simp_all add: apply_limits_def Let_def)

lemma apply_limits_cases:
  "def_command_timeout (apply_limits cs df) = (if cs_timeout cs > 0 then cs_timeout cs else def_command_timeout df)"
  "def_runcwd (apply_limits cs df) = (case cs_runcwd cs of None \<Rightarrow> def_runcwd df | Some d \<Rightarrow> Some d)"
  "def_runchroot (apply_limits cs df) = (case cs_runchroot cs of None \<Rightarrow> def_runchroot df | Some d \<Rightarrow> Some d)"
  by (auto simp: apply_limits_def Let_def split: option.split)

text \<open>
  The settings of the matching entry: each tag of the entry decides its default and an unset
  tag leaves it as it was (\<open>NOPASSWD\<close> turns authentication off, \<open>LOG_OUTPUT\<close> sets all three output
  streams, \<open>NOMAIL\<close> turns mail off); a directory, chroot or positive timeout of the entry
  replaces the default; the role is the one of the command line, else of the entry, else the
  default.
\<close>

theorem apply_cmndspec_settings:
  "let (ctx', df') = apply_cmndspec (Some cs) (ctx, df); tags = cs_tags cs in
   def_authenticate df' = (\<not> by_tag (t_nopasswd tags) (\<not> def_authenticate df)) \<and>
   def_noexec df' = by_tag (t_noexec tags) (def_noexec df) \<and>
   def_intercept df' = by_tag (t_intercept tags) (def_intercept df) \<and>
   def_setenv df' = by_tag (t_setenv tags) (def_setenv df) \<and>
   def_log_input df' = by_tag (t_log_input tags) (def_log_input df) \<and>
   def_log_output df' = by_tag (t_log_output tags) (def_log_output df) \<and>
   def_sudoedit_follow df' = by_tag (t_follow tags) (def_sudoedit_follow df) \<and>
   def_mail_always df' = (def_mail_always df \<and> t_send_mail tags \<noteq> Tag_false) \<and>
   def_command_timeout df' = (if cs_timeout cs > 0 then cs_timeout cs else def_command_timeout df) \<and>
   def_runcwd df' = (case cs_runcwd cs of None \<Rightarrow> def_runcwd df | Some d \<Rightarrow> Some d) \<and>
   def_runchroot df' = (case cs_runchroot cs of None \<Rightarrow> def_runchroot df | Some d \<Rightarrow> Some d) \<and>
   runas_role ctx' = (case runas_role ctx of Some r \<Rightarrow> Some r
     | None \<Rightarrow> (case cs_role cs of Some r \<Rightarrow> Some r | None \<Rightarrow> def_role df))"
  by (simp add: apply_cmndspec_def apply_tags_fields apply_tags_mail apply_limits_fields apply_limits_cases
      apply_runas_defs apply_runas_role Let_def split_beta cong: option.case_cong)

section \<open>Pseudo-commands\<close>

definition nopasswd_entry :: "userspec \<times> privilege \<times> cmndspec \<Rightarrow> bool" where
  "nopasswd_entry = (\<lambda>(us, priv, cs). t_nopasswd (cs_tags cs) = Tag_true \<or> priv_nopass_of priv = Some True)"

definition pseudo_entry :: "system \<Rightarrow> sudo_defs \<Rightarrow> sudo_context \<Rightarrow> command_matcher \<Rightarrow> int \<Rightarrow> def_tuple \<Rightarrow>
    passwd option \<Rightarrow> parse_tree \<Rightarrow> userspec \<times> privilege \<times> cmndspec \<Rightarrow> pseudo_state \<Rightarrow> pseudo_state" where
  "pseudo_entry sys df ctx cm now pwcheck root_pw pt = (\<lambda>(us, priv, cs).
     pseudo_cmndspec sys df ctx cm now pwcheck root_pw pt us priv (priv_nopass_of priv) cs)"

text \<open>The state without the recorded callbacks.\<close>

definition quiet :: "pseudo_state \<Rightarrow> pseudo_state" where
  "quiet st = st\<lparr>ps_events := []\<rparr>"

lemma quiet_simps [simp]: "quiet (st\<lparr>ps_events := e\<rparr>) = quiet st" "ps_nopass (quiet st) = ps_nopass st"
  "ps_match (quiet st) = ps_match st"
  by (simp_all add: quiet_def)

lemma quiet_eq: "quiet st = quiet st' \<longleftrightarrow>
    ps_nopass st = ps_nopass st' \<and> ps_match st = ps_match st' \<and> ps_ms st = ps_ms st'"
  by (cases st; cases st') (simp add: quiet_def)

lemma quiet_entry: "quiet st = quiet st' \<Longrightarrow>
    quiet (pseudo_entry sys df ctx cm now pwcheck root_pw pt e st) =
    quiet (pseudo_entry sys df ctx cm now pwcheck root_pw pt e st')"
proof -
  assume "quiet st = quiet st'"
  then have q: "ps_nopass st = ps_nopass st'" "ps_match st = ps_match st'" "ps_ms st = ps_ms st'"
    by (simp_all add: quiet_eq)
  obtain us priv cs where e: "e = (us, priv, cs)" by (cases e)
  obtain r c t where p: "pseudo_cmnd_match sys df ctx cm root_pw pt cs (date_matches now cs) (ps_ms st') = (r, c, t)"
    by (metis prod_cases3)
  show ?thesis
    unfolding quiet_eq pseudo_entry_def pseudo_cmndspec_def e by (simp add: q p Let_def)
qed

lemma quiet_fold: "quiet st = quiet st' \<Longrightarrow>
    quiet (fold (pseudo_entry sys df ctx cm now pwcheck root_pw pt) es st) =
    quiet (fold (pseudo_entry sys df ctx cm now pwcheck root_pw pt) es st')"
proof (induction es arbitrary: st st')
  case (Cons e es)
  show ?case
    unfolding fold_simps by (rule Cons.IH [OF quiet_entry [OF Cons.prems]])
qed simp

lemma pseudo_privilege_flat:
  "quiet (pseudo_privilege sys df ctx cm now pwcheck root_pw pt us priv st) =
   quiet (fold (pseudo_entry sys df ctx cm now pwcheck root_pw pt) (priv_entries sys df pt us ctx priv) st)"
proof -
  have "fold (pseudo_entry sys df ctx cm now pwcheck root_pw pt) (List.map (\<lambda>cs. (us, priv, cs)) css) st =
      fold (pseudo_cmndspec sys df ctx cm now pwcheck root_pw pt us priv (priv_nopass_of priv)) css st" for css st
    by (induction css arbitrary: st) (simp_all add: pseudo_entry_def)
  then show ?thesis by (simp add: pseudo_privilege_def priv_entries_def Let_def)
qed

lemma pseudo_userspec_flat:
  "quiet (pseudo_userspec sys df ctx cm now pwcheck root_pw pt us st) =
   quiet (fold (pseudo_entry sys df ctx cm now pwcheck root_pw pt) (user_entries sys df pt ctx us) st)"
proof -
  have "quiet (fold (pseudo_privilege sys df ctx cm now pwcheck root_pw pt us) privs st) =
      quiet (fold (pseudo_entry sys df ctx cm now pwcheck root_pw pt)
        (concat (List.map (priv_entries sys df pt us ctx) privs)) st)" for privs st
  proof (induction privs arbitrary: st)
    case (Cons priv privs)
    then show ?case using quiet_fold [OF pseudo_privilege_flat] by simp
  qed simp
  then show ?thesis by (simp add: pseudo_userspec_def user_entries_def Let_def)
qed

lemma pseudo_flat:
  "quiet (fold (pseudo_userspec sys df ctx cm now pwcheck root_pw pt) (userspecs pt) st) =
   quiet (fold (pseudo_entry sys df ctx cm now pwcheck root_pw pt) (applicable sys df ctx pt) st)"
proof -
  have "quiet (fold (pseudo_userspec sys df ctx cm now pwcheck root_pw pt) uss st) =
      quiet (fold (pseudo_entry sys df ctx cm now pwcheck root_pw pt)
        (concat (List.map (user_entries sys df pt ctx) uss)) st)" for uss st
  proof (induction uss arbitrary: st)
    case (Cons us uss)
    then show ?case using quiet_fold [OF pseudo_userspec_flat] by simp
  qed simp
  then show ?thesis by (simp add: applicable_def)
qed

lemma pseudo_nopass_fold:
  "ps_nopass (fold (pseudo_entry sys df ctx cm now pwcheck root_pw pt) es st) =
     (case pwcheck of any \<Rightarrow> ps_nopass st \<or> (\<exists>e \<in> set es. nopasswd_entry e)
      | all_tuple \<Rightarrow> ps_nopass st \<and> (\<forall>e \<in> set es. nopasswd_entry e)
      | _ \<Rightarrow> ps_nopass st)"
proof (induction es arbitrary: st)
  case (Cons e es)
  have "ps_nopass (pseudo_entry sys df ctx cm now pwcheck root_pw pt e st) =
      (case pwcheck of any \<Rightarrow> ps_nopass st \<or> nopasswd_entry e
       | all_tuple \<Rightarrow> ps_nopass st \<and> nopasswd_entry e | _ \<Rightarrow> ps_nopass st)"
    by (cases e; cases pwcheck)
      (simp_all add: pseudo_entry_def pseudo_cmndspec_def pseudo_nopass_def nopasswd_entry_def Let_def split_beta)
  then show ?case using Cons by (cases pwcheck) auto
qed (cases pwcheck; simp)

lemma pseudo_match_fold:
  assumes "user_uid ctx = 0 \<or> runas_list_pw ctx = None"
  shows "ps_match (fold (pseudo_entry sys df ctx cm now pwcheck root_pw pt) es st) =
    (if es = [] then ps_match st else ALLOW)"
proof (induction es arbitrary: st)
  case (Cons e es)
  have "ps_match (pseudo_entry sys df ctx cm now pwcheck root_pw pt e st) = ALLOW"
    using assms by (cases e) (auto simp: pseudo_entry_def pseudo_cmndspec_def pseudo_cmnd_match_def Let_def)
  then show ?case using Cons by simp
qed simp

text \<open>
  Listing one's own privileges and validating, with one source: the request succeeds exactly
  for root and for users with an entry for this host, whatever its dates and commands are;
  whether a password is needed follows \<open>listpw\<close> or \<open>verifypw\<close>: not needed for \<open>never\<close>, for \<open>any\<close>
  when some applicable entry is \<open>NOPASSWD\<close>, for \<open>all\<close> when all of them are.
\<close>

theorem pseudo_own_privileges:
  assumes "runas_list_pw ctx = None"
    and "sudoers_lookup_pseudo sys cm [\<lparr>nss_tree = Some pt, ret_if_found = rf, ret_if_notfound = rn\<rparr>]
           ctx df s now pwflag = (validated, df', st)"
    and "pwcheck = (if pwflag = -1 then never else def_tuple_of df pwflag)"
    and "es = applicable sys (df\<lparr>def_runchroot := None\<rparr>) ctx pt"
  shows "ISSET validated VALIDATE_SUCCESS = (es \<noteq> [] \<or> user_uid ctx = 0) \<and>
         ISSET validated VALIDATE_FAILURE = (\<not> ISSET validated VALIDATE_SUCCESS) \<and>
         def_authenticate df' = (def_authenticate df \<and>
           (case pwcheck of never \<Rightarrow> False | always \<Rightarrow> True
            | any \<Rightarrow> \<not> (\<exists>e \<in> set es. nopasswd_entry e)
            | all_tuple \<Rightarrow> \<not> (\<forall>e \<in> set es. nopasswd_entry e)))"
proof -
  define df0 where "df0 = df\<lparr>def_runchroot := None\<rparr>"
  define st0 where "st0 = \<lparr>ps_nopass = (pwcheck = never \<or> pwcheck = all_tuple), ps_match = UNSPEC,
    ps_ms = s\<lparr>ms_info := None\<rparr>, ps_events = []\<rparr>"
  define st1 where "st1 = fold (pseudo_userspec sys df0 ctx (cm df0) now pwcheck None pt) (userspecs pt) st0"
  have q: "quiet st1 = quiet (fold (pseudo_entry sys df0 ctx (cm df0) now pwcheck None pt) es st0)"
    by (simp add: st1_def pseudo_flat assms(4) df0_def)
  have m: "ps_match st1 = (if es = [] then UNSPEC else ALLOW)"
    using arg_cong [OF q, of ps_match] pseudo_match_fold [of ctx] assms(1) by (simp add: st0_def)
  have n: "ps_nopass st1 = (case pwcheck of never \<Rightarrow> True | always \<Rightarrow> False
      | any \<Rightarrow> (\<exists>e \<in> set es. nopasswd_entry e) | all_tuple \<Rightarrow> (\<forall>e \<in> set es. nopasswd_entry e))"
    using arg_cong [OF q, of ps_nopass] pseudo_nopass_fold by (cases pwcheck) (simp_all add: st0_def)
  have p: "pseudo_sources sys df0 ctx (cm df0) now pwcheck None
      [\<lparr>nss_tree = Some pt, ret_if_found = rf, ret_if_notfound = rn\<rparr>] st0 = (False, st1)"
    by (simp add: st1_def Let_def)
  have r: "(validated, df', st) =
      (let v = SET (SET 0 FLAG_NO_CHECK) (if es \<noteq> [] \<or> user_uid ctx = 0 then VALIDATE_SUCCESS else VALIDATE_FAILURE);
           check = (pwcheck = always \<and> def_authenticate df)
       in (if check then SET v FLAG_CHECK_USER else v,
           if \<not> check \<and> ps_nopass st1 then df\<lparr>def_authenticate := False\<rparr> else df, st1))"
    using assms(1,2) m p unfolding sudoers_lookup_pseudo_def assms(3) [symmetric]
    by (cases "es = []")
      (auto simp: Let_def simp del: pseudo_sources.simps simp flip: st0_def df0_def split: if_splits)
  have b: "ISSET 0 f = False" for f by (simp add: ISSET_def)
  show ?thesis
    using r n by (cases pwcheck; cases "def_authenticate df")
      (auto simp: Let_def ISSET_SET b flag_defs)
qed

lemma pseudo_own_privileges_witness:
  "ISSET (fst (sudoers_lookup_pseudo empty_system (\<lambda>_. sample_cm ''/bin/ls'')
     [\<lparr>nss_tree = Some (sample_tree [sample_spec [sample_entry ''/bin/ls'' True]]),
       ret_if_found = False, ret_if_notfound = False\<rparr>] sample_ctx sample_defs sample_ms 0 54))
     VALIDATE_SUCCESS"
proof -
  obtain v df st where r: "sudoers_lookup_pseudo empty_system (\<lambda>_. sample_cm ''/bin/ls'')
     [\<lparr>nss_tree = Some (sample_tree [sample_spec [sample_entry ''/bin/ls'' True]]),
       ret_if_found = False, ret_if_notfound = False\<rparr>] sample_ctx sample_defs sample_ms 0 54 = (v, df, st)"
    by (metis prod_cases3)
  have l: "runas_list_pw sample_ctx = None" by (simp add: sample_ctx_def)
  have "sample_defs\<lparr>def_runchroot := None\<rparr> = sample_defs" by (simp add: sample_defs_def)
  then show ?thesis
    using pseudo_own_privileges [OF l r refl refl] by (simp add: r sample_applicable)
qed

end
