(* ===== verification/CommandProps.thy ===== *)
theory CommandProps
  imports CommandSpec LookupProps
begin

text \<open>The properties of command matching, alone and inside the lookup of the policy.\<close>

section \<open>A sample environment\<close>

text \<open>One file, \<open>/bin/ls\<close>.\<close>

definition sample_stat :: file_stat where
  "sample_stat = \<lparr>st_dev = 1, st_ino = 2, st_mode = 0x81ed\<rparr>"

definition sample_fs :: file_system where
  "sample_fs = \<lparr>fs_stat = (\<lambda>p. if p = ''/bin/ls'' then Some sample_stat else None),
     fs_open = (\<lambda>p. if p = ''/bin/ls'' then Opened else OpenFailed), fs_open_exec = (\<lambda>_. False),
     fs_content = (\<lambda>_. [0x61, 0x62, 0x63]), fs_read_error = (\<lambda>_. False), fs_dup = (\<lambda>_. True), fs_fdopen = (\<lambda>_. True), fs_dev_fd = (\<lambda>_. True),
     fs_realpath = (\<lambda>p. Some p), fs_fnmatch = (\<lambda>p s f. p = s), fs_glob = (\<lambda>p. Some [p]),
     fs_regcomp = (\<lambda>p f. None)\<rparr>"

definition sample_env :: match_env where
  "sample_env = \<lparr>me_sys = empty_system, me_fs = sample_fs, me_perms = (\<lambda>_. Some sample_fs), me_restored = True,
     me_defs = sample_defs\<lparr>def_fdexec := always\<rparr>, me_ctx = sample_ctx\<rparr>"

definition sample_cs :: match_state where
  \<comment> \<open>standard input, output and error are open\<close>
  "sample_cs = sample_ms\<lparr>ms_cmnd_stat := Some sample_stat, ms_cmnd_dir := Some ''/bin'',
     ms_fds := [(0, ''tty''), (1, ''tty''), (2, ''tty'')]\<rparr>"

lemmas sample_env_defs = sample_env_def sample_fs_def sample_stat_def sample_cs_def sample_ms_def
  sample_defs_def sample_ctx_def

section \<open>Refinement\<close>

text \<open>
  C12. \<open>command_matches\<close> implements its specification: whatever descriptors are open, it allows the
  user's command exactly when \<open>command_accepts\<close> says so, which speaks of opening rights, inodes,
  names, arguments and FIPS digests only. In the globbing loops this means that the first name
  that is the command decides, and that a directory entry needs no arguments.
\<close>

theorem command_matches_refines:
  "fst (command_matches env cmnd sco args rc digests s) =
     verdict_if (command_accepts env cmnd sco args rc digests s)"
  by (simp add: command_matches_implements)

text \<open>
  C14. Matching a command leaks no descriptor and closes none of others: the open descriptors
  besides the one for \<open>fexecve\<close> are the same afterwards, on every path through the code, and a
  denial leaves that one as well. This includes the duplicates that \<open>sudo_filedigest\<close> makes and the streams over
  them, whether or not duplicating, opening the stream and reading succeed. The table stays well-formed.
\<close>

theorem command_matches_descriptors:
  assumes "command_matches env cmnd sco args rc digests s = (v, s')" "wf_fds s"
  shows "wf_fds s' \<and> other_fds s' = other_fds s \<and>
    (v \<noteq> ALLOW \<longrightarrow> ms_fds s' = ms_fds s \<and> ms_execfd s' = ms_execfd s)"
  using command_matches_implements [of env cmnd sco args rc digests s] assms
  by (auto simp: fds_settled_def)

lemma sample_normal: "command_matches sample_env ''/bin/ls'' (Some ''/bin/ls'') None None [] sample_cs =
    (ALLOW, sample_cs\<lparr>ms_runas_cmnd := Some ''/bin/ls'', ms_execfd := 3, ms_fds := (3, ''/bin/ls'') # ms_fds sample_cs\<rparr>)"
  by code_simp

theorem command_matches_descriptors_witness:
  "other_fds (sample_cs\<lparr>ms_runas_cmnd := Some ''/bin/ls'', ms_execfd := 3,
     ms_fds := (3, ''/bin/ls'') # ms_fds sample_cs\<rparr>) = ms_fds sample_cs"
proof -
  have "wf_fds sample_cs" "other_fds sample_cs = ms_fds sample_cs"
    by (simp_all add: wf_fds_def other_fds_def sample_env_defs)
  then show ?thesis using command_matches_descriptors [OF sample_normal] by simp
qed

section \<open>Digests\<close>

text \<open>The files a digest of the rule may be taken of: by name, or by the inode of the command.\<close>

definition same_command :: "match_env \<Rightarrow> string \<Rightarrow> match_state \<Rightarrow> string \<Rightarrow> bool" where
  "same_command env cmnd s p \<longleftrightarrow>
     strcmp cmnd p = 0 \<or>
     (\<exists>dir. ms_cmnd_dir s = Some dir \<and> p = dir @ ''/'' @ user_cmnd_base (me_ctx env)) \<or>
     (\<exists>sb. c_stat (me_fs env) p = Some sb \<and>
        (case ms_cmnd_stat s of None \<Rightarrow> True | Some c \<Rightarrow> st_dev c = st_dev sb \<and> st_ino c = st_ino sb))"

lemma in_chroot_None [simp]: "in_chroot None p = Some p"
  by (simp add: in_chroot_def)

lemma accepts_file_digest:
  "accepts_file env None p digests s \<Longrightarrow> digests \<noteq> [] \<Longrightarrow>
     digest_listed (me_fs env) p digests \<and> same_command env cmnd s p"
  by (auto simp: accepts_file_def verified_def inode_ok_agrees stat_below_def same_command_def stat_agrees_def
      same_file_def split: option.splits)

lemma matched_name_same: "matched_name env f cmnd s = Some c \<Longrightarrow> same_command env cmnd s c"
  by (auto simp: matched_name_def same_command_def Let_def split: if_splits option.splits)

lemma dispatch_digest:
  assumes "dispatch_accepts env cmnd sco args None digests s" "digests \<noteq> []"
    and "case sco of None \<Rightarrow> True | Some sc \<Rightarrow> c_at sc = CHR ''^'' \<or> c_at sc = CHR ''/''"
  shows "\<exists>p. digest_listed (me_fs env) p digests \<and> same_command env cmnd s p"
proof -
  have leaf: "accepts_file env None p digests s \<Longrightarrow> ?thesis" for p
    using accepts_file_digest [OF _ assms(2)] by blast
  then have dir: "dir_accepts env d None digests s \<Longrightarrow> ?thesis" for d
    by (simp add: dir_accepts_def) blast
  have all: "all_accepts env cmnd None digests \<Longrightarrow> ?thesis"
    using assms(2) by (auto simp: all_accepts_def verified_def same_command_def Let_def split: if_splits)
  have name: "name_accepts env f cmnd sc args None digests s \<Longrightarrow> ?thesis" for f sc
    using matched_name_same [of env f cmnd s] assms(2)
    by (auto simp: name_accepts_def verified_def split: option.splits)
  have normal: "normal_accepts env cmnd sc args None digests s \<Longrightarrow> ?thesis" for sc
  proof (cases "ends_slash sc")
    case False
    assume n: "normal_accepts env cmnd sc args None digests s"
    then have "digest_listed (me_fs env) sc digests" using False assms(2) by (simp add: normal_accepts_def verified_def)
    moreover have "case (ms_cmnd_stat s, c_stat (me_fs env) sc) of (Some a, Some b) \<Rightarrow> same_file a b | _ \<Rightarrow> strcmp cmnd sc = 0"
      using n False by (simp add: normal_accepts_def stat_below_def)
    then have "same_command env cmnd s sc"
      by (auto simp: same_command_def same_file_def split: option.splits)
    ultimately show ?thesis by blast
  qed (simp add: normal_accepts_def dir)
  have glob: "glob_accepts env cmnd sc args None digests s \<Longrightarrow> ?thesis" for sc
  proof -
    assume g: "glob_accepts env cmnd sc args None digests s"
    show ?thesis
    proof (cases "verified env None cmnd digests")
      case True
      then show ?thesis using assms(2) by (auto simp: verified_def same_command_def)
    next
      case False
      then obtain names cp where "find (glob_candidate env None digests s) names = Some cp"
        using g by (auto simp: glob_accepts_def Let_def split: option.splits if_splits)
      then have "glob_candidate env None digests s cp" by (auto simp: find_Some_iff)
      then show ?thesis using dir leaf by (simp add: glob_candidate_def split: if_splits) blast+
    qed
  qed
  show ?thesis
    using assms(1,3) all name normal glob
    by (auto simp: dispatch_accepts_def split: option.splits if_splits)
qed

text \<open>
  C15. A digest guards the command: when a rule with digests allows a command (no chroot, and not one of
  the pseudo-commands \<open>list\<close> and \<open>sudoedit\<close>), one of the digests is the FIPS 180-4 digest of the
  content of a file that is the user's command, by its name, its canonical name or its inode.
\<close>

theorem digest_guards_command:
  assumes "command_matches env cmnd sco args None digests s = (ALLOW, s')" "digests \<noteq> []"
    and "runas_chroot (me_ctx env) = None" "def_runchroot (me_defs env) = None"
    and "case sco of None \<Rightarrow> True | Some sc \<Rightarrow> c_at sc = CHR ''^'' \<or> c_at sc = CHR ''/''"
  shows "\<exists>p d. same_command env cmnd s p \<and> d \<in> set digests \<and> cd_type d < 4 \<and>
    command_digest_bytes (cd_str d) (sudo_digest_getlen (cd_type d)) =
      Some (fips_digest (cd_type d) (fs_content (me_fs env) p))"
proof -
  have "command_accepts env cmnd sco args None digests s"
    using command_matches_refines [of env cmnd sco args None digests s] assms(1)
    by (metis fst_conv verdict_if_ALLOW(1))
  then have "dispatch_accepts env cmnd sco args None digests s"
    using assms(3,4) by (simp add: command_accepts_def)
  then obtain p where p: "digest_listed (me_fs env) p digests" "same_command env cmnd s p"
    using dispatch_digest [OF _ assms(2,5)] by metis
  obtain d where d: "d \<in> set digests" "file_digest_of (me_fs env) p (cd_type d) \<noteq> None"
    "file_digest_of (me_fs env) p (cd_type d) = command_digest_bytes (cd_str d) (sudo_digest_getlen (cd_type d))"
    using digest_listed_ex [OF p(1)] by blast
  have "length digest_functions = 4" by (simp add: digest_functions_def)
  then have "cd_type d < 4 \<and> command_digest_bytes (cd_str d) (sudo_digest_getlen (cd_type d)) =
      Some (fips_digest (cd_type d) (fs_content (me_fs env) p))"
    using d(2,3) by (metis file_digest_of_def)
  then show ?thesis using p(2) d(1) by blast
qed

text \<open>A rule for \<open>/bin/ls\<close> with its SHA-256 in base64.\<close>

definition sample_digest :: command_digest where
  "sample_digest = \<lparr>cd_type = 1, cd_str = b64_groups (fips_digest 1 [0x61, 0x62, 0x63])\<rparr>"

lemma length_fips_sha256: "length (fips_digest 1 m) = 32"
proof -
  have c: "length (concat (map be32_to_8 xs)) = 4 * length xs" for xs
    by (induction xs) (simp_all add: be32_to_8_def)
  have "length (st32 sha256_init) = 8" by (simp add: sha256_init_def sha2_zero_def)
  from hash_blocks_cong [OF refl _ this, of "fips_compress sha256_fns 64 be8_to_32 4"] show ?thesis
    by (simp add: fips_digest_def fips_sha256_def c fips_compress_length)
qed

lemma sample_digest_listed: "digest_listed sample_fs ''/bin/ls'' [sample_digest]"
proof -
  have g: "sudo_digest_getlen (Suc 0) = 32" by (simp add: sudo_digest_getlen_def digest_functions_def)
  have "command_digest_bytes (cd_str sample_digest) 32 = Some (fips_digest 1 [0x61, 0x62, 0x63])"
    using length_fips_sha256 [of "[0x61, 0x62, 0x63]"]
    by (simp add: command_digest_bytes_def sample_digest_def length_b64_groups base64_decode_groups)
  then show ?thesis
    by (simp add: g file_digest_of_def sample_digest_def sample_fs_def digest_functions_def)
qed

theorem digest_guards_command_witness:
  "\<exists>p d. same_command sample_env ''/bin/ls'' sample_cs p \<and> d \<in> set [sample_digest] \<and> cd_type d < 4 \<and>
    command_digest_bytes (cd_str d) (sudo_digest_getlen (cd_type d)) =
      Some (fips_digest (cd_type d) (fs_content (me_fs sample_env) p))"
proof -
  let ?d = "[sample_digest]"
  have "digest_listed sample_fs ''/bin/ls'' ?d" by (rule sample_digest_listed)
  then have "verified sample_env None ''/bin/ls'' ?d" by (simp add: verified_def sample_env_def)
  moreover have "can_open sample_env None ''/bin/ls'' ?d" "strchr ''/bin/ls'' (CHR ''/'') \<noteq> None"
    by (simp_all add: can_open_def sample_env_defs c_open_def PATH_MAX_def strchr_def)
  ultimately have "all_accepts sample_env ''/bin/ls'' None ?d" by (simp add: all_accepts_def)
  then have "command_accepts sample_env ''/bin/ls'' None None None ?d sample_cs"
    by (simp add: command_accepts_def dispatch_accepts_def sample_env_def sample_ctx_def sample_defs_def)
  then have "command_matches sample_env ''/bin/ls'' None None None ?d sample_cs =
      (ALLOW, snd (command_matches sample_env ''/bin/ls'' None None None ?d sample_cs))"
    using command_matches_refines [of sample_env "''/bin/ls''" None None None ?d sample_cs]
    by (metis prod.collapse verdict_if_ALLOW(1))
  from digest_guards_command [OF this] show ?thesis
    by (simp add: sample_env_defs)
qed

section \<open>Inside the lookup\<close>

lemma accepts_cong:
  assumes "ms_cmnd_stat s = ms_cmnd_stat t" "ms_cmnd_dir s = ms_cmnd_dir t"
  shows "dispatch_accepts env cmnd sco args rc digests s = dispatch_accepts env cmnd sco args rc digests t"
proof -
  have 1: "inode_ok env rc p s = inode_ok env rc p t" "dir_agrees (me_fs env) s p = dir_agrees (me_fs env) t p"
    for rc p using assms by (auto simp: inode_ok_agrees dir_agrees_def stat_agrees_def split: option.split)
  then have 2: "parent_agrees (me_fs env) s p = parent_agrees (me_fs env) t p"
    "accepts_file env rc p digests s = accepts_file env rc p digests t" for p rc
    by (auto simp: parent_agrees_def accepts_file_def split: option.split)
  have 3: "dir_accepts env d rc digests s = dir_accepts env d rc digests t"
    "matched_name env f cmnd s = matched_name env f cmnd t" for d f
    using assms by (auto simp: dir_accepts_def matched_name_def 1 2 split: option.split)
  then have "glob_candidate env rc digests s = glob_candidate env rc digests t"
    by (intro ext) (simp add: glob_candidate_def 2)
  then have 4: "glob_accepts env cmnd sc args rc digests s = glob_accepts env cmnd sc args rc digests t" for sc
    by (simp add: glob_accepts_def Let_def 1 cong: option.case_cong)
  have 5: "name_accepts env f cmnd sc args rc digests s = name_accepts env f cmnd sc args rc digests t" for f sc
    by (simp add: name_accepts_def 3)
  have 6: "normal_accepts env cmnd sc args rc digests s = normal_accepts env cmnd sc args rc digests t" for sc
    by (simp add: normal_accepts_def 2 3 assms cong: option.case_cong)
  show ?thesis by (simp add: dispatch_accepts_def 4 5 6 cong: option.case_cong)
qed

lemma command_accepts_cong:
  assumes "ms_cmnd_stat s = ms_cmnd_stat t" "ms_cmnd_dir s = ms_cmnd_dir t" "runas_chroot (me_ctx env) \<noteq> None \<or> rc = None"
  shows "command_accepts env cmnd sco args rc digests s = command_accepts env cmnd sco args rc digests t"
  using accepts_cong [OF assms(1,2)] assms(3) by (auto simp: command_accepts_def split: option.split)

lemma command_matches_frame:
  assumes "runas_chroot (me_ctx env) \<noteq> None \<or> rc = None"
  shows "ms_cmnd_stat (snd (command_matches env cmnd sco args rc digests s)) = ms_cmnd_stat s"
    "ms_cmnd_dir (snd (command_matches env cmnd sco args rc digests s)) = ms_cmnd_dir s"
proof -
  obtain rc' where "command_matches env cmnd sco args rc digests s = (DENY, s) \<or>
    command_matches env cmnd sco args rc digests s = command_dispatch env cmnd sco args rc' digests s"
    using command_matches_plain [OF assms, of cmnd sco args] by metis
  then show "ms_cmnd_stat (snd (command_matches env cmnd sco args rc digests s)) = ms_cmnd_stat s"
    "ms_cmnd_dir (snd (command_matches env cmnd sco args rc digests s)) = ms_cmnd_dir s"
    using dispatch_implements [of env cmnd sco args rc' digests s] by (auto simp: implements_def settled_def)
qed

lemma sudoers_matcher_answers:
  "answers (\<lambda>s. ms_cmnd_stat s = ms_cmnd_stat s0 \<and> ms_cmnd_dir s = ms_cmnd_dir s0)
     (\<lambda>r. runas_chroot (me_ctx env) \<noteq> None \<or> r = None) (sudoers_matcher env cmnd)
     (\<lambda>c r. verdict_if (command_accepts env cmnd (sc_cmnd c) (sc_args c) r (sc_digests c) s0))"
proof -
  have "fst (command_matches env cmnd sc args r ds s) = verdict_if (command_accepts env cmnd sc args r ds s0)"
    if "ms_cmnd_stat s = ms_cmnd_stat s0" "ms_cmnd_dir s = ms_cmnd_dir s0" "runas_chroot (me_ctx env) \<noteq> None \<or> r = None"
    for sc args r ds s
    using command_accepts_cong [OF that] by (simp only: command_matches_refines)
  then show ?thesis
    unfolding answers_def sudoers_matcher_def by (simp add: command_matches_frame)
qed

text \<open>
  C13. The policy decides about files: when the user has chosen the chroot or no applicable entry
  has one, the lookup gives the verdict of the last applicable entry whose dates, target and command
  match, where a command matches as \<open>command_accepts\<close> says for the status and the directory that the
  user's command had at the start; what is opened and closed on the way does not influence it.
\<close>

theorem sudoers_commands_last_match:
  assumes "\<forall>(us, priv, cs)\<in>set (applicable sys df (ls_ctx st) pt).
      runas_chroot (me_ctx env) \<noteq> None \<or> cs_runchroot cs = None"
    and "sudoers_lookup_check sys df (sudoers_matcher env cmnd) pt now st = (v, st')"
    and "w = (\<lambda>c r. verdict_if (command_accepts env cmnd (sc_cmnd c) (sc_args c) r (sc_digests c) (ls_ms st)))"
    and "es = filter (\<lambda>(us, priv, cs). entry_verdict sys df (ls_ctx st) pt now w cs \<noteq> UNSPEC)
           (applicable sys df (ls_ctx st) pt)"
  shows "if es = [] then v = UNSPEC
         else case last es of (us, priv, cs) \<Rightarrow>
           v = entry_verdict sys df (ls_ctx st) pt now w cs \<and>
           ls_cs st' = Some cs \<and> ls_defs st' = Some (p_defaults priv)"
  using lookup_check_last [OF sudoers_matcher_answers [of "ls_ms st" env cmnd] _ assms(1,2),
      folded assms(3), OF _ assms(4)] by simp

theorem sudoers_commands_last_match_witness:
  "fst (sudoers_lookup_check empty_system sample_defs (sudoers_matcher sample_env ''/bin/ls'')
     (sample_tree [sample_spec [sample_entry ''/bin/ls'' False, sample_entry ''/bin/cat'' True]]) 0
     (lookup_start sample_ctx sample_cs)) = ALLOW"
proof -
  let ?t = "sample_tree [sample_spec [sample_entry ''/bin/ls'' False, sample_entry ''/bin/cat'' True]]"
  obtain v st' where l: "sudoers_lookup_check empty_system sample_defs (sudoers_matcher sample_env ''/bin/ls'')
      ?t 0 (lookup_start sample_ctx sample_cs) = (v, st')" by force
  have c: "ls_ctx (lookup_start sample_ctx sample_cs) = sample_ctx" "ls_ms (lookup_start sample_ctx sample_cs) = sample_cs"
    by (simp_all add: lookup_start_def)
  have a: "command_accepts sample_env ''/bin/ls'' (Some ''/bin/ls'') None None [] sample_cs"
    "\<not> command_accepts sample_env ''/bin/ls'' (Some ''/bin/cat'') None None [] sample_cs"
    by code_simp+
  have r: "cs_runchroot (sample_entry p n) = None" for p n by (simp add: sample_entry_def)
  show ?thesis
    using sudoers_commands_last_match [where env = sample_env, OF _ l refl refl]
    by (simp add: c l r a sample_applicable sample_entry_verdict sign_verdict_def)
qed

section \<open>Chroots\<close>

text \<open>
  After a rule with \<open>CHROOT=\<close> in whose root the command is not found, the canonical directory of
  the command is lost: a command given by a relative path is no longer matched against regular
  expressions at all, whatever the later rules say.
\<close>

theorem chroot_rule_loses_cmnd_dir:
  assumes "runas_chroot (me_ctx env) = None" "rule_chroot_enter env cmnd r s = (status, cmnd', s1)" "status \<noteq> FOUND"
    and "c_at cmnd \<noteq> CHR ''/''" "c_at sc = CHR ''^''"
  shows "fst (command_matches env cmnd (Some sc) args None ds
    (snd (command_matches env cmnd sco args' (Some r) ds' s))) = DENY"
proof -
  have "ms_cmnd_dir s1 = None"
    using assms(2,3) by (auto simp: rule_chroot_enter_def set_cmnd_path_def Let_def split_beta split: option.split)
  moreover obtain v s2 where d: "command_dispatch env cmnd' sco args' (Some r) ds' s1 = (v, s2)" by force
  moreover have "ms_cmnd_dir s2 = ms_cmnd_dir s1"
    using dispatch_implements [of env cmnd' sco args' "Some r" ds' s1] by (simp add: d implements_def settled_def)
  moreover have "snd (command_matches env cmnd sco args' (Some r) ds' s) = rule_chroot_leave status cmnd' (ms_cmnd_stat s) s2"
    using assms(1,2) d by (simp add: command_matches_def)
  ultimately have "ms_cmnd_dir (snd (command_matches env cmnd sco args' (Some r) ds' s)) = None"
    using assms(3) by (simp add: rule_chroot_leave_def)
  then show ?thesis using assms(1,4,5)
    by (simp add: command_matches_refines command_accepts_def dispatch_accepts_def name_accepts_def matched_name_def)
qed

text \<open>The same rule matches when it comes before.\<close>

definition regex_env :: match_env where
  "regex_env = sample_env\<lparr>me_fs := sample_fs\<lparr>fs_regcomp := \<lambda>p f. Some (\<lambda>s. s = ''/bin/ls'')\<rparr>,
     me_defs := sample_defs\<rparr>"

theorem chroot_rule_loses_cmnd_dir_witness:
  "fst (command_matches regex_env ''ls'' (Some ''^/bin/l.$'') None None [] sample_cs) = ALLOW \<and>
   fst (command_matches regex_env ''ls'' (Some ''^/bin/l.$'') None None []
     (snd (command_matches regex_env ''ls'' (Some ''/bin/cat'') None (Some ''/jail'') [] sample_cs))) = DENY"
proof
  show "fst (command_matches regex_env ''ls'' (Some ''^/bin/l.$'') None None [] sample_cs) = ALLOW"
    by code_simp
  obtain status cmnd' s1 where e: "rule_chroot_enter regex_env ''ls'' ''/jail'' sample_cs = (status, cmnd', s1)"
    by (metis prod_cases3)
  have "fst (rule_chroot_enter regex_env ''ls'' ''/jail'' sample_cs) = NOT_FOUND" by code_simp
  then have "status \<noteq> FOUND" by (simp add: e)
  from chroot_rule_loses_cmnd_dir [OF _ e this]
  show "fst (command_matches regex_env ''ls'' (Some ''^/bin/l.$'') None None []
     (snd (command_matches regex_env ''ls'' (Some ''/bin/cat'') None (Some ''/jail'') [] sample_cs))) = DENY"
    by (simp add: regex_env_def sample_env_defs c_at_def)
qed

text \<open>
  For \<open>ALL\<close> with digests and a chroot that does not have the command, the digest is taken of the
  file of that name outside the chroot, and allows the command.
\<close>

theorem digest_outside_chroot:
  assumes "runas_chroot (me_ctx env) = Some r" "in_chroot (Some r) cmnd = Some p"
    and "c_open (me_fs env) p = OpenFailed" "c_stat (me_fs env) p = None" "ds \<noteq> []"
  shows "fst (command_matches env cmnd None args None ds s) =
    verdict_if (c_open (me_fs env) cmnd = Opened \<and> digest_listed (me_fs env) cmnd ds)"
  using assms
  by (simp add: command_matches_refines command_accepts_def dispatch_accepts_def all_accepts_def can_open_def
      stat_below_def Let_def)

theorem digest_outside_chroot_witness:
  "fst (command_matches (sample_env\<lparr>me_ctx := sample_ctx\<lparr>runas_chroot := Some ''/jail''\<rparr>\<rparr>) ''/bin/ls'' None None None
     [sample_digest] sample_cs) = ALLOW"
proof -
  let ?e = "sample_env\<lparr>me_ctx := sample_ctx\<lparr>runas_chroot := Some ''/jail''\<rparr>\<rparr>"
  have "c_open (me_fs ?e) ''/jail/bin/ls'' = OpenFailed" "c_stat (me_fs ?e) ''/jail/bin/ls'' = None"
    "in_chroot (Some ''/jail'') ''/bin/ls'' = Some ''/jail/bin/ls''" "runas_chroot (me_ctx ?e) = Some ''/jail''"
    by code_simp+
  moreover have "c_open (me_fs ?e) ''/bin/ls'' = Opened \<and> digest_listed (me_fs ?e) ''/bin/ls'' [sample_digest]"
    using sample_digest_listed by (simp add: sample_env_def c_open_def PATH_MAX_def) (simp add: sample_fs_def)
  ultimately show ?thesis
    using digest_outside_chroot [of ?e "''/jail''" "''/bin/ls''" "''/jail/bin/ls''" "[sample_digest]" None sample_cs]
    by simp
qed

text \<open>
  \<open>CHROOT=*\<close>, which lets the user choose a root, is taken as a directory named \<open>*\<close> when the
  user has not chosen one: a rule with a digest then never matches a plain command.
\<close>

theorem chroot_star_denies_digest:
  assumes "runas_chroot (me_ctx env) = None" "\<forall>p. c_open (me_fs env) (CHR ''*'' # p) \<noteq> Opened"
    and "c_at sc = CHR ''/''" "\<not> has_meta sc" "ds \<noteq> []"
  shows "fst (command_matches env cmnd (Some sc) args (Some ''*'') ds s) = DENY"
proof -
  have o: "\<not> can_open env (Some ''*'') p ds" for p
    using assms(2,5) by (auto simp: can_open_def in_chroot_def path_join_def)
  have "\<not> dir_accepts env sc (Some ''*'') ds t" for t
  proof -
    have "\<not> can_open env None (CHR ''*'' # p) ds" for p
      using assms(2,5) by (auto simp: can_open_def)
    then show ?thesis by (auto simp: dir_accepts_def accepts_file_def in_chroot_def path_join_def split: option.split)
  qed
  then have "\<not> normal_accepts env c sc args (Some ''*'') ds t" for c t
    using o by (simp add: normal_accepts_def)
  then show ?thesis using assms(1,3,4)
    by (simp add: command_matches_refines command_accepts_def dispatch_accepts_def split_beta)
qed

theorem chroot_star_denies_digest_witness:
  "fst (command_matches sample_env ''/bin/ls'' (Some ''/bin/ls'') None None [sample_digest] sample_cs) = ALLOW \<and>
   fst (command_matches sample_env ''/bin/ls'' (Some ''/bin/ls'') None (Some ''*'') [sample_digest] sample_cs) = DENY"
proof
  have v: "verified sample_env None ''/bin/ls'' [sample_digest]"
    using sample_digest_listed by (simp add: verified_def sample_env_def)
  have o: "can_open sample_env None ''/bin/ls'' [sample_digest]"
    by (simp add: can_open_def sample_env_defs c_open_def PATH_MAX_def)
  have "normal_accepts (sample_env) ''/bin/ls'' ''/bin/ls'' None None [] sample_cs" by code_simp
  then have "normal_accepts sample_env ''/bin/ls'' ''/bin/ls'' None None [sample_digest] sample_cs"
    using v o by (auto simp: normal_accepts_def ends_slash_def)
  moreover have "runas_chroot (me_ctx sample_env) = None" "def_runchroot (me_defs sample_env) = None"
    by (simp_all add: sample_env_defs)
  moreover have sc: "c_at ''/bin/ls'' = CHR ''/''" "\<not> has_meta ''/bin/ls''" by code_simp+
  ultimately show "fst (command_matches sample_env ''/bin/ls'' (Some ''/bin/ls'') None None [sample_digest] sample_cs) = ALLOW"
    by (simp only: command_matches_refines command_accepts_def dispatch_accepts_def option.case prod.case)
      simp
  have "\<forall>p. c_open (me_fs sample_env) (CHR ''*'' # p) \<noteq> Opened"
    by (simp add: c_open_def sample_env_def sample_fs_def)
  then show "fst (command_matches sample_env ''/bin/ls'' (Some ''/bin/ls'') None (Some ''*'') [sample_digest] sample_cs) = DENY"
    by (intro chroot_star_denies_digest)
      (simp_all add: sample_env_def sample_ctx_def c_at_def has_meta_def strpbrk_any_def)
qed

end
