(* ===== verification/CanonPath.thy ===== *)
theory CanonPath
  imports Files "HOL-Library.Multiset"
begin

text \<open>
  The cache of canonical paths (\<open>canon_path.c\<close>): a red-black tree of items that are shared with the
  callers and counted by reference.

  What does not change in an item (its address, path name and result) is the data of the tree; the
  reference counts, which are 32-bit words, are a map from addresses, without an entry for memory that is
  not allocated. The
  pointer \<open>canon_path\<close> returns leads to the item by a fixed offset and is modelled by its address,
  with the string it points to. \<open>malloc\<close> takes the next address; it does not fail. Decreasing the
  count of freed memory has no result.
\<close>

section \<open>The cache\<close>

record cache_item =
  ca_addr :: nat
  ca_pathname :: string
  ca_resolved :: string

record canon_state =
  cs_cache :: "cache_item rbt option"
  cs_refs :: "nat \<Rightarrow> 32 word option"
  cs_next :: nat

definition canon_compare :: "cache_item \<Rightarrow> cache_item \<Rightarrow> int" where
  "canon_compare ci1 ci2 = strcmp (ca_pathname ci1) (ca_pathname ci2)"

definition canon_path_free_item :: "nat \<Rightarrow> (nat \<Rightarrow> 32 word option) \<Rightarrow> (nat \<Rightarrow> 32 word option) option" where
  "canon_path_free_item a refs =
     (case refs a of None \<Rightarrow> None
      | Some n \<Rightarrow> Some (if n - 1 = 0 then refs(a := None) else refs(a \<mapsto> n - 1)))"

definition canon_path_free :: "nat \<Rightarrow> canon_state \<Rightarrow> canon_state option" where
  "canon_path_free a st = map_option (\<lambda>refs. st\<lparr>cs_refs := refs\<rparr>) (canon_path_free_item a (cs_refs st))"

fun free_items :: "cache_item list \<Rightarrow> (nat \<Rightarrow> 32 word option) \<Rightarrow> (nat \<Rightarrow> 32 word option) option" where
  "free_items [] refs = Some refs"
| "free_items (it # its) refs =
     (case canon_path_free_item (ca_addr it) refs of None \<Rightarrow> None | Some refs \<Rightarrow> free_items its refs)"

definition canon_path_free_cache :: "canon_state \<Rightarrow> canon_state option" where
  "canon_path_free_cache st =
     (case cs_cache st of None \<Rightarrow> Some st
      | Some t \<Rightarrow> map_option (\<lambda>refs. st\<lparr>cs_cache := None, cs_refs := refs\<rparr>)
          (free_items (rbdestroy_int t) (cs_refs st)))"

definition resolved_of :: "file_system \<Rightarrow> string \<Rightarrow> string" where
  "resolved_of fs inpath =
     (if inpath = [] then ''/'' else case fs_realpath fs inpath of None \<Rightarrow> [] | Some r \<Rightarrow> r)"

text \<open>From the label \<open>done\<close> on.\<close>

definition canon_done :: "cache_item \<Rightarrow> canon_state \<Rightarrow> (nat \<times> string) option \<times> canon_state" where
  "canon_done it st =
     (let a = ca_addr it; n = the (cs_refs st a) in
      if ca_resolved it = [] then (None, if n = 0 then st\<lparr>cs_refs := (cs_refs st)(a := None)\<rparr> else st)
      else (Some (a, ca_resolved it), st\<lparr>cs_refs := (cs_refs st)(a \<mapsto> n + 1)\<rparr>))"

definition canon_path :: "file_system \<Rightarrow> string \<Rightarrow> canon_state \<Rightarrow> (nat \<times> string) option \<times> canon_state" where
  "canon_path fs inpath st =
     (let key = \<lparr>ca_addr = 0, ca_pathname = inpath, ca_resolved = []\<rparr>;
          cached = (case cs_cache st of None \<Rightarrow> None | Some t \<Rightarrow> rbfind canon_compare t key);
          t = (case cs_cache st of None \<Rightarrow> rbcreate | Some t \<Rightarrow> t)
      in case cached of
           Some item \<Rightarrow> canon_done item st
         | None \<Rightarrow>
             (let item = \<lparr>ca_addr = cs_next st, ca_pathname = inpath, ca_resolved = resolved_of fs inpath\<rparr>;
                  (t, n) = (case rbinsert canon_compare t item of RBInserted t \<Rightarrow> (t, 1) | _ \<Rightarrow> (t, 0))
              in canon_done item (st\<lparr>cs_cache := Some t, cs_refs := (cs_refs st)(cs_next st \<mapsto> n),
                   cs_next := Suc (cs_next st)\<rparr>)))"

definition canon_start :: canon_state where
  "canon_start = \<lparr>cs_cache = None, cs_refs = (\<lambda>_. None), cs_next = 1\<rparr>"

interpretation canon_rb: rb_compar canon_compare
proof unfold_locales
  fix x y z :: cache_item
  show "canon_compare y x < 0 \<longleftrightarrow> canon_compare x y > 0"
    using strcmp_swap [of "ca_pathname y" "ca_pathname x"] by (simp add: canon_compare_def)
  show "canon_compare x z < 0" if "canon_compare x y < 0" "canon_compare y z < 0"
    using that strcmp_trans by (auto simp: canon_compare_def)
  show "canon_compare x z < 0 \<longleftrightarrow> canon_compare y z < 0" if "canon_compare x y = 0"
    using that strcmp_cong [of "ca_pathname x" "ca_pathname y" "ca_pathname z"] by (simp add: canon_compare_def)
qed

section \<open>Histories\<close>

text \<open>
  What callers may do: ask for a path, give back a reference they hold, empty the cache. \<open>held\<close> is the
  multiset of the references they hold, and \<open>seen\<close> records for every path asked for since the cache
  was last emptied what \<open>realpath\<close> said the first time. The file system may change between the
  calls. At any time fewer than \<open>2 ^ 32 - 2\<close> references are held; beyond that the counter of an item could
  wrap to zero.
\<close>

type_synonym canon_history = "canon_state \<times> nat multiset \<times> (string \<Rightarrow> string option option)"

definition note_seen :: "file_system \<Rightarrow> string \<Rightarrow> (string \<Rightarrow> string option option) \<Rightarrow> string \<Rightarrow> string option option" where
  "note_seen fs p seen = (if seen p = None then seen(p \<mapsto> canonical fs p) else seen)"

inductive canon_step :: "canon_history \<Rightarrow> canon_history \<Rightarrow> bool" where
  step_get: "nul_free p \<Longrightarrow> canon_path fs p st = (Some (a, r), st') \<Longrightarrow> size held + 2 < 2 ^ 32 \<Longrightarrow>
     canon_step (st, held, seen) (st', add_mset a held, note_seen fs p seen)"
| step_miss: "nul_free p \<Longrightarrow> canon_path fs p st = (None, st') \<Longrightarrow>
     canon_step (st, held, seen) (st', held, note_seen fs p seen)"
| step_free: "canon_path_free a st = Some st' \<Longrightarrow> canon_step (st, add_mset a held, seen) (st', held, seen)"
| step_flush: "canon_path_free_cache st = Some st' \<Longrightarrow> canon_step (st, held, seen) (st', held, (\<lambda>_. None))"

inductive canon_reachable :: "canon_history \<Rightarrow> bool" where
  reach_start: "canon_reachable (canon_start, {#}, (\<lambda>_. None))"
| reach_step: "canon_reachable x \<Longrightarrow> canon_step x y \<Longrightarrow> canon_reachable y"

section \<open>The invariant\<close>

definition cached_items :: "canon_state \<Rightarrow> cache_item list" where
  "cached_items st = (case cs_cache st of None \<Rightarrow> [] | Some t \<Rightarrow> rb_inorder t)"

definition owners :: "canon_state \<Rightarrow> nat multiset \<Rightarrow> nat \<Rightarrow> nat" where
  "owners st held a = count held a + (if a \<in> ca_addr ` set (cached_items st) then 1 else 0)"

definition ref_entry :: "nat \<Rightarrow> 32 word option" where
  "ref_entry n = (if n = 0 then None else Some (of_nat n))"

lemma ref_entry_simps [simp]: "ref_entry 0 = None" "ref_entry n = None \<longleftrightarrow> n = 0" "ref_entry (Suc n) = Some (of_nat (Suc n))"
  by (auto simp: ref_entry_def)

lemma count_less: "n < 2 ^ 32 \<Longrightarrow> (of_nat n :: 32 word) = 0 \<longleftrightarrow> n = 0"
  by (cases "n = 0") (auto simp: word_of_nat_eq_0_iff dest: dvd_imp_le)

lemma owners_less: "size held + 1 < 2 ^ 32 \<Longrightarrow> owners st held a < 2 ^ 32"
  using count_le_size [of held a] by (simp add: owners_def)

definition outcome :: "string option \<Rightarrow> string" where
  "outcome r = (case r of None \<Rightarrow> [] | Some s \<Rightarrow> s)"

definition canon_inv :: "canon_history \<Rightarrow> bool" where
  "canon_inv x \<longleftrightarrow> (case x of (st, held, seen) \<Rightarrow>
     (\<forall>t. cs_cache st = Some t \<longrightarrow> rb_inv t \<and> rb_sorted canon_compare t) \<and>
     inj_on ca_addr (set (cached_items st)) \<and>
     (\<forall>it\<in>set (cached_items st). nul_free (ca_pathname it) \<and>
        (\<exists>r. seen (ca_pathname it) = Some r \<and> r \<noteq> Some [] \<and> ca_resolved it = outcome r)) \<and>
     dom seen \<subseteq> ca_pathname ` set (cached_items st) \<and>
     (\<forall>a\<ge>cs_next st. owners st held a = 0) \<and> size held + 1 < 2 ^ 32 \<and>
     cs_refs st = (\<lambda>a. ref_entry (owners st held a)))"

lemma canon_inv_start: "canon_inv (canon_start, {#}, (\<lambda>_. None))"
  by (simp add: canon_inv_def canon_start_def cached_items_def owners_def)

lemma canonical_resolved: "canonical fs p \<noteq> Some [] \<and> resolved_of fs p = outcome (canonical fs p)"
  by (simp add: canonical_def resolved_of_def outcome_def split: option.split)

text \<open>A hit: the item found is the one for the path, and has the result of the path.\<close>

lemma canon_hit:
  assumes "canon_inv (st, held, seen)" "nul_free p" "cs_cache st = Some t"
    and "rbfind canon_compare t \<lparr>ca_addr = 0, ca_pathname = p, ca_resolved = []\<rparr> = Some it"
  shows "it \<in> set (cached_items st)" "ca_pathname it = p"
proof -
  have s: "rb_sorted canon_compare t" and i: "cached_items st = rb_inorder t"
    using assms(1,3) by (simp_all add: canon_inv_def cached_items_def)
  have f: "it \<in> set (rb_inorder t)" "strcmp p (ca_pathname it) = 0"
    using canon_rb.rbfind_Some [OF s] assms(4) by (auto simp: canon_compare_def)
  then show "it \<in> set (cached_items st)" by (simp add: i)
  then have "nul_free (ca_pathname it)" using assms(1) by (simp add: canon_inv_def)
  then show "ca_pathname it = p" using f(2) assms(2) strcmp_nul_free_eq_0 by metis
qed

text \<open>A miss: the path has not been asked for, and the new item is inserted, owned by the cache.\<close>

lemma canon_miss:
  assumes "canon_inv (st, held, seen)" "nul_free p"
    and "\<And>t. cs_cache st = Some t \<Longrightarrow> rbfind canon_compare t \<lparr>ca_addr = 0, ca_pathname = p, ca_resolved = []\<rparr> = None"
    and "item = \<lparr>ca_addr = cs_next st, ca_pathname = p, ca_resolved = resolved_of fs p\<rparr>"
  shows "seen p = None \<and>
    (\<exists>t'. rbinsert canon_compare (case cs_cache st of None \<Rightarrow> rbcreate | Some t \<Rightarrow> t) item = RBInserted t' \<and>
    canon_inv (st\<lparr>cs_cache := Some t', cs_refs := (cs_refs st)(cs_next st \<mapsto> 1), cs_next := Suc (cs_next st)\<rparr>, held,
      note_seen fs p seen))"
proof -
  define t where "t = (case cs_cache st of None \<Rightarrow> rbcreate | Some t \<Rightarrow> t)"
  have t: "rb_inv t" "rb_sorted canon_compare t" "rb_inorder t = cached_items st"
    using assms(1) by (auto simp: canon_inv_def t_def cached_items_def rbcreate_def rb_inv_def split: option.split)
  have none: "rbfind canon_compare t item = None"
  proof (cases "cs_cache st")
    case (Some u)
    have "rbfind canon_compare v item = rbfind canon_compare v \<lparr>ca_addr = 0, ca_pathname = p, ca_resolved = []\<rparr>" for v
      by (induction v) (simp_all add: canon_compare_def assms(4) Let_def)
    then show ?thesis using assms(3) [OF Some] Some by (simp add: t_def)
  qed (simp add: t_def rbcreate_def)
  have fresh: "p \<notin> ca_pathname ` set (cached_items st)"
  proof
    assume "p \<in> ca_pathname ` set (cached_items st)"
    then obtain it where "it \<in> set (rb_inorder t)" "canon_compare item it = 0"
      by (auto simp: t(3) canon_compare_def assms(4))
    then show False using canon_rb.rbfind_Some [OF t(2), of item it] none by simp
  qed
  then have new: "seen p = None" using assms(1) by (auto simp: canon_inv_def)
  then have seen: "note_seen fs p seen = seen(p \<mapsto> canonical fs p)" by (simp add: note_seen_def)
  obtain t' where t': "rbinsert canon_compare t item = RBInserted t'"
    using none rbinsert_inv(1) [OF t(1), of canon_compare item] canon_rb.rbinsert_exists [OF t(2), of item]
    by (cases "rbinsert canon_compare t item") auto
  define st2 where "st2 = st\<lparr>cs_cache := Some t', cs_refs := (cs_refs st)(cs_next st \<mapsto> 1), cs_next := Suc (cs_next st)\<rparr>"
  have i: "rb_inv t'" "rb_sorted canon_compare t'" "set (rb_inorder t') = insert item (set (cached_items st))"
    using rbinsert_inv(2) [OF t(1) t'] canon_rb.rbinsert_inorder [OF t(2) t'] t(3) by simp_all
  have own: "owners st2 held a = (if a = cs_next st then 1 else owners st held a)" for a
    using assms(1,4) i(3) by (auto simp: owners_def cached_items_def canon_inv_def st2_def)
  have addr: "cs_next st \<notin> ca_addr ` set (cached_items st)"
    using assms(1) by (force simp: canon_inv_def owners_def)
  have ci: "cached_items st2 = rb_inorder t'" by (simp add: cached_items_def st2_def)
  have "canon_inv (st2, held, note_seen fs p seen)"
    unfolding canon_inv_def prod.case ci
  proof (intro conjI)
    show "\<forall>t. cs_cache st2 = Some t \<longrightarrow> rb_inv t \<and> rb_sorted canon_compare t" using i by (simp add: st2_def)
    show "inj_on ca_addr (set (rb_inorder t'))"
      using assms(1,4) i(3) addr by (auto simp: canon_inv_def)
    have "\<forall>it\<in>set (cached_items st). ca_pathname it \<noteq> p" using fresh by auto
    then show "\<forall>it\<in>set (rb_inorder t'). nul_free (ca_pathname it) \<and>
        (\<exists>r. note_seen fs p seen (ca_pathname it) = Some r \<and> r \<noteq> Some [] \<and> ca_resolved it = outcome r)"
      using assms(1,2,4) i(3) canonical_resolved [of fs p] by (simp add: canon_inv_def seen)
    show "dom (note_seen fs p seen) \<subseteq> ca_pathname ` set (rb_inorder t')"
      using assms(1,4) i(3) by (auto simp: canon_inv_def seen)
    have "cs_next st2 = Suc (cs_next st)" by (simp add: st2_def)
    then show "\<forall>a\<ge>cs_next st2. owners st2 held a = 0" using assms(1) by (simp add: own canon_inv_def)
    show "size held + 1 < 2 ^ 32" using assms(1) by (simp add: canon_inv_def)
    show "cs_refs st2 = (\<lambda>a. ref_entry (owners st2 held a))"
      using assms(1) unfolding own
      by (intro ext) (simp add: st2_def canon_inv_def)
  qed
  then show ?thesis using t' new by (auto simp: t_def st2_def)
qed

lemma owners_add: "owners st (add_mset a held) x = owners st held x + (if x = a then 1 else 0)"
  by (simp add: owners_def)

lemma owners_refs [simp]: "owners (st\<lparr>cs_refs := r\<rparr>) held x = owners st held x"
  "cached_items (st\<lparr>cs_refs := r\<rparr>) = cached_items st"
  by (simp_all add: owners_def cached_items_def)

text \<open>Any change of the counts that follows the references held keeps the invariant.\<close>

lemma canon_inv_refs:
  assumes "canon_inv (st, held, seen)" "\<And>a. cs_next st \<le> a \<Longrightarrow> owners st held' a = 0" "size held' + 1 < 2 ^ 32"
    and "refs = (\<lambda>a. ref_entry (owners st held' a))"
  shows "canon_inv (st\<lparr>cs_refs := refs\<rparr>, held', seen)"
  using assms by (simp add: canon_inv_def)

lemma canon_done_inv:
  assumes "canon_inv (st, held, seen)" "it \<in> set (cached_items st)" "canon_done it st = (res, st')"
  shows "map_option snd res = (if ca_resolved it = [] then None else Some (ca_resolved it)) \<and>
    (size held + 2 < 2 ^ 32 \<or> res = None \<longrightarrow>
       canon_inv (st', (case res of None \<Rightarrow> held | Some (a, r) \<Rightarrow> add_mset a held), seen))"
proof -
  have n: "cs_refs st = (\<lambda>a. ref_entry (owners st held a))" and sz: "size held + 1 < 2 ^ 32"
    using assms(1) by (simp_all add: canon_inv_def)
  have pos: "owners st held (ca_addr it) \<noteq> 0" using assms(2) by (simp add: owners_def)
  then have cnt: "cs_refs st (ca_addr it) = Some (of_nat (owners st held (ca_addr it)))"
    "(of_nat (owners st held (ca_addr it)) :: 32 word) \<noteq> 0"
    using count_less [OF owners_less [OF sz]] by (simp_all add: n ref_entry_def)
  show ?thesis
  proof (cases "ca_resolved it = []")
    case True
    then show ?thesis using assms(1,3) cnt by (auto simp: canon_done_def Let_def)
  next
    case False
    have "canon_inv (st\<lparr>cs_refs := (cs_refs st)(ca_addr it \<mapsto> of_nat (owners st held (ca_addr it)) + 1)\<rparr>,
        add_mset (ca_addr it) held, seen)" if "size held + 2 < 2 ^ 32"
    proof (rule canon_inv_refs [OF assms(1)])
      show "owners st (add_mset (ca_addr it) held) a = 0" if "cs_next st \<le> a" for a
        using that assms(1) pos by (auto simp: owners_add canon_inv_def)
    qed (use that in \<open>auto simp: n owners_add pos add.commute\<close>)
    then show ?thesis using False assms(3) cnt by (auto simp: canon_done_def Let_def)
  qed
qed

lemma canon_path_inv:
  assumes "canon_inv (st, held, seen)" "nul_free p" "canon_path fs p st = (res, st')"
  shows "map_option snd res = (case seen p of Some r \<Rightarrow> r | None \<Rightarrow> canonical fs p) \<and>
    (size held + 2 < 2 ^ 32 \<or> res = None \<longrightarrow>
       canon_inv (st', (case res of None \<Rightarrow> held | Some (a, r) \<Rightarrow> add_mset a held), note_seen fs p seen))"
proof -
  let ?key = "\<lparr>ca_addr = 0, ca_pathname = p, ca_resolved = []\<rparr>"
  show ?thesis
  proof (cases "case cs_cache st of None \<Rightarrow> None | Some t \<Rightarrow> rbfind canon_compare t ?key")
    case (Some it)
    then obtain t where t: "cs_cache st = Some t" "rbfind canon_compare t ?key = Some it"
      by (auto split: option.splits)
    note h = canon_hit [OF assms(1,2) t]
    obtain r where r: "seen p = Some r" "r \<noteq> Some []" "ca_resolved it = outcome r"
      using assms(1) h by (auto simp: canon_inv_def)
    have "canon_done it st = (res, st')" using assms(3) t by (simp add: canon_path_def Let_def)
    from canon_done_inv [OF assms(1) h(1) this] show ?thesis using r
      by (cases r) (simp_all add: note_seen_def outcome_def)
  next
    case None
    define item where "item = \<lparr>ca_addr = cs_next st, ca_pathname = p, ca_resolved = resolved_of fs p\<rparr>"
    have "rbfind canon_compare t ?key = None" if "cs_cache st = Some t" for t using None that by simp
    from canon_miss [OF assms(1,2) this item_def]
    obtain t' where t': "rbinsert canon_compare (case cs_cache st of None \<Rightarrow> rbcreate | Some t \<Rightarrow> t) item = RBInserted t'"
      "canon_inv (st\<lparr>cs_cache := Some t', cs_refs := (cs_refs st)(cs_next st \<mapsto> 1), cs_next := Suc (cs_next st)\<rparr>, held,
        note_seen fs p seen)" "seen p = None"
      by blast
    let ?st = "st\<lparr>cs_cache := Some t', cs_refs := (cs_refs st)(cs_next st \<mapsto> 1), cs_next := Suc (cs_next st)\<rparr>"
    have d: "canon_done item ?st = (res, st')"
      using assms(3) None t'(1) by (simp add: canon_path_def Let_def flip: item_def)
    have "item \<in> set (cached_items ?st)"
    proof -
      have "rb_sorted canon_compare (case cs_cache st of None \<Rightarrow> rbcreate | Some t \<Rightarrow> t)"
        using assms(1) by (auto simp: canon_inv_def rbcreate_def split: option.split)
      from canon_rb.rbinsert_inorder [OF this t'(1)] show ?thesis by (simp add: cached_items_def)
    qed
    from canon_done_inv [OF t'(2) this d] show ?thesis
      using canonical_resolved [of fs p]
      by (cases "canonical fs p") (simp_all add: item_def t'(3) outcome_def)
  qed
qed

lemma canon_free_inv:
  assumes "canon_inv (st, add_mset a held, seen)"
  shows "\<exists>st'. canon_path_free a st = Some st' \<and> canon_inv (st', held, seen)"
proof -
  have n: "cs_refs st = (\<lambda>x. ref_entry (owners st (add_mset a held) x))" and sz: "size held + 1 < 2 ^ 32"
    using assms by (simp_all add: canon_inv_def)
  have "(of_nat (owners st held a) :: 32 word) = 0 \<longleftrightarrow> owners st held a = 0"
    by (rule count_less [OF owners_less [OF sz]])
  then have r: "canon_path_free_item a (cs_refs st) = Some (\<lambda>x. ref_entry (owners st held x))"
    by (auto simp: canon_path_free_item_def n owners_add ref_entry_def fun_eq_iff)
  have "owners st held x = 0" if "cs_next st \<le> x" for x
    using assms that by (simp add: canon_inv_def owners_add)
  then show ?thesis
    using r canon_inv_refs [OF assms _ sz refl] by (simp add: canon_path_free_def)
qed

lemma rbdestroy_set: "mset (rbdestroy_int t) = mset (rb_inorder t)"
  by (induction t) simp_all

lemma free_items_owned:
  "distinct (map ca_addr its) \<Longrightarrow> (\<And>a. f a + 1 < 2 ^ 32) \<Longrightarrow>
   refs = (\<lambda>a. ref_entry (f a + (if a \<in> ca_addr ` set its then 1 else 0))) \<Longrightarrow>
   free_items its refs = Some (\<lambda>a. ref_entry (f a))"
proof (induction its arbitrary: refs)
  case (Cons it its)
  let ?refs = "\<lambda>a. ref_entry (f a + (if a \<in> ca_addr ` set its then 1 else 0))"
  have "(of_nat (f (ca_addr it)) :: 32 word) = 0 \<longleftrightarrow> f (ca_addr it) = 0"
    using Cons.prems(2) by (intro count_less) (meson add_lessD1)
  then have "canon_path_free_item (ca_addr it) refs = Some ?refs"
    using Cons.prems(1,3) by (auto simp: canon_path_free_item_def Let_def fun_eq_iff ref_entry_def)
  then show ?case using Cons.IH [OF _ Cons.prems(2) refl] Cons.prems(1) by simp
qed (simp add: Let_def)

lemma canon_flush_inv:
  assumes "canon_inv (st, held, seen)"
  shows "\<exists>st'. canon_path_free_cache st = Some st' \<and> cs_cache st' = None \<and> canon_inv (st', held, (\<lambda>_. None))"
proof (cases "cs_cache st")
  case None
  then have "seen = (\<lambda>_. None)" using assms by (auto simp: canon_inv_def cached_items_def)
  then show ?thesis using assms None by (simp add: canon_path_free_cache_def)
next
  case (Some t)
  have i: "cached_items st = rb_inorder t" by (simp add: cached_items_def Some)
  have "sorted_wrt (\<lambda>x y. canon_compare x y < 0) (rb_inorder t)"
    using assms Some by (simp add: canon_inv_def rb_sorted_def)
  moreover have "sorted_wrt (\<lambda>x y. canon_compare x y < 0) xs \<Longrightarrow> distinct xs" for xs
    by (induction xs) (auto simp: canon_compare_def)
  ultimately have "distinct (rb_inorder t)" by blast
  then have d: "distinct (map ca_addr (rbdestroy_int t))"
    using assms i mset_eq_imp_distinct_iff [OF rbdestroy_set [of t]] mset_eq_setD [OF rbdestroy_set [of t]]
    by (simp add: canon_inv_def distinct_map)
  have r: "cs_refs st = (\<lambda>a. ref_entry (count held a + (if a \<in> ca_addr ` set (rbdestroy_int t) then 1 else 0)))"
    using assms i mset_eq_setD [OF rbdestroy_set [of t]] by (simp add: canon_inv_def owners_def Let_def)
  have "count held a + 1 < 2 ^ 32" for a
    using assms count_le_size [of held a] by (simp add: canon_inv_def)
  note f = free_items_owned [OF d this r]
  let ?st = "st\<lparr>cs_cache := None, cs_refs := \<lambda>a. ref_entry (count held a)\<rparr>"
  have "canon_path_free_cache st = Some ?st"
    using f by (simp add: canon_path_free_cache_def Some)
  moreover have "owners ?st held a = count held a" for a by (simp add: owners_def cached_items_def)
  then have "canon_inv (?st, held, (\<lambda>_. None))"
    using assms by (simp add: canon_inv_def cached_items_def owners_def)
  ultimately show ?thesis by auto
qed

lemma canon_step_inv: "canon_step x y \<Longrightarrow> canon_inv x \<Longrightarrow> canon_inv y"
proof (induction rule: canon_step.induct)
  case (step_get p fs st a r st' held seen)
  then show ?case using canon_path_inv [of st held seen p fs] by fastforce
next
  case (step_miss p fs st st' held seen)
  then show ?case using canon_path_inv [of st held seen p fs] by fastforce
next
  case (step_free a st st' held seen)
  then show ?case using canon_free_inv [of st a held seen] by auto
next
  case (step_flush st st' held seen)
  then show ?case using canon_flush_inv [of st held seen] by auto
qed

lemma canon_reachable_inv: "canon_reachable x \<Longrightarrow> canon_inv x"
  by (induction rule: canon_reachable.induct) (auto intro: canon_inv_start canon_step_inv)

text \<open>
  C17. The cache is transparent while the file system stays the same, and what it remembers is what was so: after
  any history of requests, releases and flushes, during which the file system may change,
  \<open>canon_path\<close> gives what \<open>realpath\<close> said (and \<open>/\<close> for the empty path) when the path was first asked
  for since the cache was last emptied, also that it does not exist; and what it says now when the path has not been asked for.
  (Fewer than \<open>2 ^ 32 - 2\<close> references are held at any time.)
\<close>

theorem canon_path_canonical:
  assumes "canon_reachable (st, held, seen)" "nul_free p"
  shows "map_option snd (fst (canon_path fs p st)) = (case seen p of Some first \<Rightarrow> first | None \<Rightarrow> canonical fs p)"
  using canon_path_inv [OF canon_reachable_inv [OF assms(1)] assms(2)] by (metis prod.collapse)

text \<open>
  C18. The reference counts are right: in every history in which fewer than \<open>2 ^ 32 - 2\<close> references are held at
  a time (the counts are 32-bit words) the memory of a reference that is held is
  allocated, so that giving it back never touches freed memory, and emptying the cache does not
  either; after it, exactly the items that callers hold are left, and none leaks.
\<close>

theorem canon_path_refcounts:
  assumes "canon_reachable (st, held, seen)"
  shows "(\<forall>a\<in>#held. cs_refs st a \<noteq> None \<and> canon_path_free a st \<noteq> None) \<and>
    (\<exists>st'. canon_path_free_cache st = Some st' \<and> {a. cs_refs st' a \<noteq> None} = set_mset held)"
proof (intro conjI ballI)
  have inv: "canon_inv (st, held, seen)" by (rule canon_reachable_inv [OF assms])
  show "cs_refs st a \<noteq> None" if "a \<in># held" for a
    using inv that by (simp add: canon_inv_def owners_def)
  show "canon_path_free a st \<noteq> None" if a: "a \<in># held" for a
  proof -
    obtain h where h: "held = add_mset a h" using multi_member_split [OF a] by blast
    have "canon_inv (st, add_mset a h, seen)" using inv unfolding h .
    from canon_free_inv [OF this] show ?thesis by force
  qed
  obtain st' where st': "canon_path_free_cache st = Some st'" "cs_cache st' = None" "canon_inv (st', held, (\<lambda>_. None))"
    using canon_flush_inv [OF inv] by blast
  then have "{a. cs_refs st' a \<noteq> None} = set_mset held"
    by (auto simp: canon_inv_def owners_def cached_items_def)
  then show "\<exists>st'. canon_path_free_cache st = Some st' \<and> {a. cs_refs st' a \<noteq> None} = set_mset held"
    using st'(1) by blast
qed

text \<open>A history: one request, whose reference is held.\<close>

definition canon_fs :: file_system where
  "canon_fs = \<lparr>fs_stat = (\<lambda>_. None), fs_open = (\<lambda>_. OpenFailed), fs_open_exec = (\<lambda>_. False),
     fs_content = (\<lambda>_. []), fs_read_error = (\<lambda>_. False), fs_dup = (\<lambda>_. True), fs_fdopen = (\<lambda>_. True), fs_dev_fd = (\<lambda>_. True),
     fs_realpath = (\<lambda>p. if p = ''/b'' then Some ''/usr/bin'' else None), fs_fnmatch = (\<lambda>p s f. p = s),
     fs_glob = (\<lambda>p. None), fs_regcomp = (\<lambda>p f. None)\<rparr>"

definition canon_sample :: canon_state where
  "canon_sample = \<lparr>cs_cache = Some (RBNode black RBNil \<lparr>ca_addr = 1, ca_pathname = ''/b'', ca_resolved = ''/usr/bin''\<rparr> RBNil),
     cs_refs = (\<lambda>_. None)(1 \<mapsto> 2), cs_next = 2\<rparr>"

definition canon_sample_seen :: "string \<Rightarrow> string option option" where
  "canon_sample_seen = (\<lambda>_. None)(''/b'' \<mapsto> Some ''/usr/bin'')"

lemma canon_sample_reachable: "canon_reachable (canon_sample, {#1#}, canon_sample_seen)"
proof -
  have r: "resolved_of canon_fs ''/b'' = ''/usr/bin''" by (simp add: resolved_of_def canon_fs_def)
  have "canon_path canon_fs ''/b'' canon_start =
      canon_done \<lparr>ca_addr = 1, ca_pathname = ''/b'', ca_resolved = ''/usr/bin''\<rparr>
        (canon_sample\<lparr>cs_refs := (\<lambda>_. None)(1 \<mapsto> 1)\<rparr>)"
    by (simp add: canon_path_def canon_start_def rbcreate_def rbinsert_def r Let_def canon_sample_def numeral_2_eq_2)
  then have p: "canon_path canon_fs ''/b'' canon_start = (Some (1, ''/usr/bin''), canon_sample)"
    by (simp add: canon_done_def canon_sample_def)
  have s: "note_seen canon_fs ''/b'' (\<lambda>_. None) = canon_sample_seen"
    by (simp add: note_seen_def canon_sample_seen_def canonical_def canon_fs_def)
  have "canon_step (canon_start, {#}, (\<lambda>_. None)) (canon_sample, {#1#}, canon_sample_seen)"
    using step_get [OF _ p, of "{#}" "\<lambda>_. None"] by (simp add: nul_free_def s)
  then show ?thesis by (rule reach_step [OF reach_start])
qed

text \<open>The answer is still the old one when the link is gone.\<close>

theorem canon_path_canonical_witness:
  "map_option snd (fst (canon_path (canon_fs\<lparr>fs_realpath := \<lambda>_. None\<rparr>) ''/b'' canon_sample)) = Some ''/usr/bin''"
  using canon_path_canonical [OF canon_sample_reachable, of "''/b''"]
  by (simp add: nul_free_def canon_sample_seen_def)

theorem canon_path_refcounts_witness: "cs_refs canon_sample 1 \<noteq> None \<and> canon_path_free 1 canon_sample \<noteq> None"
  using canon_path_refcounts [OF canon_sample_reachable] by simp

end
