(* ===== verification/FilesProps.thy ===== *)
theory FilesProps
  imports Files
begin

text \<open>What the search for a command finds (\<open>find_path.c\<close>).\<close>

section \<open>The directories of a search path\<close>

fun str_fields :: "char \<Rightarrow> string \<Rightarrow> string list" where
  "str_fields sep [] = [[]]"
| "str_fields sep (c # s) = (if c = sep then [] # str_fields sep s
     else case str_fields sep s of [] \<Rightarrow> [[c]] | f # fs \<Rightarrow> (c # f) # fs)"

definition path_dirs :: "string \<Rightarrow> string list" where
  "path_dirs path = filter (\<lambda>d. d \<noteq> []) (str_fields (CHR '':'') path)"

lemma fields_split: "str_fields sep s = takeWhile (\<lambda>c. c \<noteq> sep) s #
    (case dropWhile (\<lambda>c. c \<noteq> sep) s of [] \<Rightarrow> [] | _ # t \<Rightarrow> str_fields sep t)"
  by (induction s) auto

lemma path_dirs_skip: "path_dirs path = path_dirs (dropWhile (\<lambda>c. c = CHR '':'') path)"
  by (induction path) (simp_all add: path_dirs_def)

lemma strsplit_dirs:
  "case sudo_strsplit path '':'' of None \<Rightarrow> path_dirs path = []
   | Some (cp, rest) \<Rightarrow> cp \<noteq> [] \<and> path_dirs path = cp # path_dirs rest"
proof -
  define s where "s = dropWhile (\<lambda>c. c = CHR '':'') path"
  define w where "w = takeWhile (\<lambda>c. c \<noteq> CHR '':'') s"
  define r where "r = dropWhile (\<lambda>c. c \<noteq> CHR '':'') s"
  have skip: "path_dirs path = path_dirs s" unfolding s_def by (rule path_dirs_skip)
  have sp: "sudo_strsplit path '':'' = (if s = [] then None else Some (w, r))"
    by (simp add: sudo_strsplit_def s_def w_def r_def Let_def)
  show ?thesis
  proof (cases s)
    case Nil
    then show ?thesis using skip by (simp add: sp path_dirs_def)
  next
    case (Cons c t)
    then have "c \<noteq> CHR '':''" using hd_dropWhile [of "\<lambda>c. c = CHR '':''" path] by (simp flip: s_def)
    then have w: "w \<noteq> []" by (simp add: w_def Cons)
    have "str_fields (CHR '':'') s = w # (case r of [] \<Rightarrow> [] | _ # u \<Rightarrow> str_fields (CHR '':'') u)"
      unfolding w_def r_def by (rule fields_split)
    then have "path_dirs path = w # (case r of [] \<Rightarrow> [] | _ # u \<Rightarrow> path_dirs u)"
      using w unfolding skip by (simp add: path_dirs_def split: list.split)
    also have "(case r of [] \<Rightarrow> [] | _ # u \<Rightarrow> path_dirs u) = path_dirs r"
    proof (cases r)
      case (Cons d u)
      then have "d = CHR '':''" using hd_dropWhile [of "\<lambda>c. c \<noteq> CHR '':''" s] by (simp flip: r_def)
      then show ?thesis unfolding Cons by (simp add: path_dirs_def)
    qed (simp add: path_dirs_def)
    finally show ?thesis using Cons w by (simp add: sp)
  qed
qed

section \<open>The search\<close>

definition good_path :: "file_system \<Rightarrow> string option \<Rightarrow> string \<Rightarrow> bool" where
  "good_path fs runchroot path \<longleftrightarrow> fst (sudo_goodpath fs path runchroot)"

lemma good_path_executable: "good_path fs rc path \<longleftrightarrow>
    (\<exists>p sb. in_chroot rc path = Some p \<and> c_stat fs p = Some sb \<and> executable_file sb)"
  by (auto simp: good_path_def sudo_goodpath_def split: option.split)

lemma cmnd_allowed_plain:
  "fst (cmnd_allowed fs c rc sbp None) = (if good_path fs rc c then Some c else None)"
  by (simp add: cmnd_allowed_def good_path_def Let_def split_beta)

definition in_dirs :: "string \<Rightarrow> string \<Rightarrow> string list" where
  "in_dirs path infile = map (\<lambda>d. d @ ''/'' @ infile) (filter (\<lambda>d. d \<noteq> ''.'') (path_dirs path))"

lemma find_in_path_first:
  assumes "\<forall>c\<in>set (in_dirs path infile). length c < PATH_MAX"
  shows "find_in_path fs infile rc None path dot sbp = (r, dot', sbp') \<Longrightarrow>
    r = Inr (find (good_path fs rc) (in_dirs path infile)) \<and>
    (find (good_path fs rc) (in_dirs path infile) = None \<longrightarrow> dot' = (dot \<or> ''.'' \<in> set (path_dirs path)))"
  using assms
proof (induction "length path" arbitrary: path dot sbp rule: less_induct)
  case less
  show ?case
  proof (cases "sudo_strsplit path '':''")
    case None
    then have "path_dirs path = []" using strsplit_dirs [of path] by simp
    then show ?thesis using less.prems(1) None by (simp add: in_dirs_def find_in_path.simps [of _ _ _ _ path])
  next
    case (Some a)
    obtain cp rest where s: "sudo_strsplit path '':'' = Some (cp, rest)" using Some by (cases a) auto
    have d: "cp \<noteq> []" "path_dirs path = cp # path_dirs rest" using strsplit_dirs [of path] s by simp_all
    note IH = less.hyps [OF sudo_strsplit_shorter [OF s]]
    have r: "\<forall>c\<in>set (in_dirs rest infile). length c < PATH_MAX" using less.prems(2) by (simp add: in_dirs_def d)
    show ?thesis
    proof (cases "cp = ''.''")
      case True
      then have "find_in_path fs infile rc None rest True sbp = (r, dot', sbp')"
        using less.prems(1) by (simp add: s find_in_path.simps [of _ _ _ _ path])
      from IH [OF this r] True show ?thesis by (simp add: in_dirs_def d)
    next
      case False
      define c where "c = cp @ ''/'' @ infile"
      have l: "length c < PATH_MAX" and i: "in_dirs path infile = c # in_dirs rest infile"
        using less.prems(2) False by (simp_all add: in_dirs_def d c_def)
      obtain sbp1 where a: "cmnd_allowed fs c rc sbp None = (if good_path fs rc c then Some c else None, sbp1)"
        using cmnd_allowed_plain [of fs c rc sbp] by (metis prod.collapse)
      have c: "cp @ CHR ''/'' # infile = c" by (simp add: c_def)
      have f: "(if good_path fs rc c then (Inr (Some c), dot, sbp1)
           else find_in_path fs infile rc None rest dot sbp1) = (r, dot', sbp')"
        using less.prems(1) l a False
        by (simp only: s find_in_path.simps [of _ _ _ _ path] Let_def option.case prod.case if_False append.simps c d(1) simp_thms)
          (simp split: if_splits)
      show ?thesis
        using f IH [OF _ r, of dot sbp1] False by (cases "good_path fs rc c") (simp_all add: i d)
    qed
  qed
qed

text \<open>
  C19. A command without a slash is searched in the directories of the path in their order, and the
  first that has it as an executable regular file (below the chroot) decides. The current directory is
  tried last wherever it stands in the path, and with \<open>ignore_dot\<close> a command found there is not
  used. An empty element of the path is not the current directory. (For names that fit into \<open>PATH_MAX\<close>.)
\<close>

theorem find_path_first:
  assumes "strchr infile (CHR ''/'') = None" "length (''./'' @ infile) < PATH_MAX"
    and "\<forall>c\<in>set (in_dirs path infile). length c < PATH_MAX"
  shows "fst (find_path fs infile sbp (Some path) rc ignore_dot None) =
    (case find (good_path fs rc) (in_dirs path infile) of
       Some c \<Rightarrow> (FOUND, Some c)
     | None \<Rightarrow>
         if ''.'' \<in> set (path_dirs path) \<and> good_path fs rc (''./'' @ infile)
         then (if ignore_dot then (NOT_FOUND_DOT, None) else (FOUND, Some (''./'' @ infile)))
         else (NOT_FOUND, None))"
proof -
  define c where "c = ''./'' @ infile"
  obtain r dot sbp1 where f: "find_in_path fs infile rc None path False sbp = (r, dot, sbp1)" by (metis prod_cases3)
  note p = find_in_path_first [OF assms(3) f]
  obtain sbp2 where a: "cmnd_allowed fs c rc sbp1 None = (if good_path fs rc c then Some c else None, sbp2)"
    using cmnd_allowed_plain [of fs c rc sbp1] by (metis prod.collapse)
  have e: "find_path fs infile sbp (Some path) rc ignore_dot None =
    (case (r, dot, sbp1) of
       (Inl _, checkdot, sbp) \<Rightarrow> ((NOT_FOUND_ERROR, None), sbp)
     | (Inr (Some command), checkdot, sbp) \<Rightarrow> ((FOUND, Some command), sbp)
     | (Inr None, checkdot, sbp) \<Rightarrow>
         if \<not> checkdot then ((NOT_FOUND, None), sbp)
         else if length c \<ge> PATH_MAX then ((NOT_FOUND_ERROR, None), sbp)
         else let (d, sbp) = cmnd_allowed fs c rc sbp None in
           if d \<noteq> None \<and> ignore_dot then ((NOT_FOUND_DOT, None), sbp) else (found_or_not d, sbp))"
    using assms(1) by (simp only: find_path_def f c_def option.case simp_thms if_False)
  show ?thesis
    using p a assms(2) unfolding e c_def [symmetric]
    by (cases "find (good_path fs rc) (in_dirs path infile)") (simp_all add: found_or_not_def)
qed

text \<open>\<open>ls\<close> in \<open>/usr/local/bin\<close>, where it is a directory, \<open>/bin\<close> and \<open>.\<close>.\<close>

definition search_fs :: file_system where
  "search_fs = \<lparr>fs_stat = (\<lambda>p. if p = ''/usr/local/bin/ls'' then Some \<lparr>st_dev = 1, st_ino = 7, st_mode = 0x41ed\<rparr>
       else if p = ''/bin/ls'' \<or> p = ''./ls'' then Some \<lparr>st_dev = 1, st_ino = 2, st_mode = 0x81ed\<rparr> else None),
     fs_open = (\<lambda>_. OpenFailed), fs_open_exec = (\<lambda>_. False),
     fs_content = (\<lambda>_. []), fs_read_error = (\<lambda>_. False), fs_dup = (\<lambda>_. True), fs_fdopen = (\<lambda>_. True), fs_dev_fd = (\<lambda>_. True),
     fs_realpath = Some, fs_fnmatch = (\<lambda>p s f. p = s), fs_glob = (\<lambda>p. None), fs_regcomp = (\<lambda>p f. None)\<rparr>"

theorem find_path_first_witness:
  "fst (find_path search_fs ''ls'' None (Some ''.:/usr/local/bin::/bin'') None True None) = (FOUND, Some ''/bin/ls'')"
proof -
  have d: "in_dirs ''.:/usr/local/bin::/bin'' ''ls'' = [''/usr/local/bin/ls'', ''/bin/ls'']"
    by (simp add: in_dirs_def path_dirs_def)
  have "strchr ''ls'' (CHR ''/'') = None" "length (''./'' @ ''ls'') < PATH_MAX"
    by (simp_all add: strchr_def PATH_MAX_def)
  moreover have "\<forall>c\<in>set (in_dirs ''.:/usr/local/bin::/bin'' ''ls''). length c < PATH_MAX"
    unfolding d by (simp add: PATH_MAX_def)
  moreover have "find (good_path search_fs None) (in_dirs ''.:/usr/local/bin::/bin'' ''ls'') = Some ''/bin/ls''"
    unfolding d
    by (simp add: good_path_def sudo_goodpath_def in_chroot_def c_stat_def PATH_MAX_def search_fs_def
        executable_file_def S_ISREG_def ISSET_def S_IXALL_def)
  ultimately show ?thesis
    using find_path_first [of "''ls''" "''.:/usr/local/bin::/bin''" search_fs None None True]
    by (simp only: option.case)
qed

end
