(* ===== verification/PkgVersion.thy ===== *)
theory PkgVersion
  imports Strto
begin

text \<open>
  Comparison of package versions in pkg (\<open>libpkg/pkg_version.c\<close>). A pointer into a version string
  is what is left of the string, so \<open>p < q\<close> for pointers into one string says that more is left
  at \<open>p\<close>; the end of the string is the empty list (strings hold no NUL).
\<close>

section \<open>Splitting\<close>

text \<open>\<open>strtoul(s, NULL, 10)\<close>: a negative number wraps, too large a number gives the maximum.\<close>

definition c_strtoul10 :: "string \<Rightarrow> 64 word" where
  "c_strtoul10 s =
     (let cp = dropWhile c_isspace s;
          neg = c_at cp = CHR ''-'';
          ds = (if neg \<or> c_at cp = CHR ''+'' then tl cp else cp);
          n = digits_val 10 (takeWhile c_isdigit ds)
      in if n > 2 ^ 64 - 1 then -1
         else if neg then - word_of_int n else word_of_int n)"

text \<open>The version string, its end without revision and epoch, the epoch and the revision.\<close>

definition split_version :: "string \<Rightarrow> string \<times> string \<times> 64 word \<times> 64 word" where
  "split_version pkgname =
     (let versionstr = (case strrchr pkgname (CHR ''-'') of Some ch \<Rightarrow> tl ch | None \<Rightarrow> pkgname);
          ch = strrchr versionstr (CHR ''_'');
          revision = (case ch of Some s \<Rightarrow> c_strtoul10 (tl s) | None \<Rightarrow> 0);
          endversionstr = ch;
          ch = strrchr (case endversionstr of Some e \<Rightarrow> tl e | None \<Rightarrow> versionstr) (CHR '','');
          epoch = (case ch of Some s \<Rightarrow> c_strtoul10 (tl s) | None \<Rightarrow> 0);
          endversionstr = (if ch \<noteq> None \<and> endversionstr = None then ch else endversionstr);
          endname = (case endversionstr of Some e \<Rightarrow> e | None \<Rightarrow> [])
      in (versionstr, endname, epoch, revision))"

section \<open>Components\<close>

record version_component =
  vc_n :: int
  vc_a :: int
  vc_pl :: int

definition ABASE :: int where "ABASE = 2"

definition stages :: "(string \<times> int) list" where
  "stages = [(''pl'', 0), (''snap'', 18 + ABASE), (''alpha'', 0 + ABASE), (''beta'', 1 + ABASE),
     (''pre'', 15 + ABASE), (''rc'', 17 + ABASE)]"

definition stage_matches :: "string \<Rightarrow> string \<times> int \<Rightarrow> bool" where
  \<comment> \<open>\<open>strncasecmp(pos, stage->name, len) == 0 && !isalpha(pos[len])\<close>\<close>
  "stage_matches pos st \<longleftrightarrow>
     strcase_eq (take (length (fst st)) pos) (fst st) \<and> \<not> c_isalpha (c_at (drop (length (fst st)) pos))"

text \<open>The number: what is left, \<open>n\<close> and \<open>hasstage\<close>. \<open>strtoll\<close> stops at the largest \<open>long long\<close>.\<close>

definition component_number :: "string \<Rightarrow> string \<times> int \<times> bool" where
  "component_number pos =
     (if c_isdigit (c_at pos) then
        (let (n, e) = c_strtol 10 pos in (e, n, False))
      else if c_at pos = CHR ''*'' then (dropWhile (\<lambda>c. c \<noteq> CHR ''+'') (tl pos), -2, False)
      else (pos, -1, True))"

text \<open>The letter: what is left, \<open>a\<close> and \<open>haspatchlevel\<close>.\<close>

definition component_letter :: "string \<Rightarrow> bool \<Rightarrow> string \<times> int \<times> bool" where
  "component_letter pos hasstage =
     (if c_isalpha (c_at pos) then
        (case (if c_isalpha (c_at (tl pos)) then find (stage_matches pos) stages else None) of
           Some (name, value) \<Rightarrow>
             (if hasstage then (drop (length name) pos, value, True) else (pos, 0, False))
         | None \<Rightarrow>
             (dropWhile c_isalpha (tl pos), int (code (c_tolower (c_at pos))) - 97 + ABASE, True))
      else (pos, 0, False))"

definition component_patch :: "string \<Rightarrow> bool \<Rightarrow> string \<times> int" where
  "component_patch pos haspatchlevel =
     (if haspatchlevel then
        (if c_isdigit (c_at pos) then (let (n, e) = c_strtol 10 pos in (e, n)) else (pos, -1))
      else (pos, 0))"

definition skip_separators :: "string \<Rightarrow> string" where
  "skip_separators pos =
     dropWhile (\<lambda>c. \<not> c_isdigit c \<and> \<not> c_isalpha c \<and> c \<noteq> CHR ''+'' \<and> c \<noteq> CHR ''*'') pos"

definition get_component :: "string \<Rightarrow> string \<times> version_component" where
  "get_component position =
     (let (pos, n, hasstage) = component_number position;
          (pos, a, haspatchlevel) = component_letter pos hasstage;
          (pos, pl) = component_patch pos haspatchlevel
      in (skip_separators pos, \<lparr>vc_n = n, vc_a = a, vc_pl = pl\<rparr>))"

section \<open>Comparison\<close>

definition cmp_int :: "int \<Rightarrow> int \<Rightarrow> int" where
  \<comment> \<open>\<open>(x < y ? -1 : 1)\<close> for different numbers, else the result stays 0\<close>
  "cmp_int x y = (if x = y then 0 else if x < y then -1 else 1)"

definition vc_zero :: version_component where
  "vc_zero = \<lparr>vc_n = 0, vc_a = 0, vc_pl = 0\<rparr>"

definition cmp_component :: "version_component \<Rightarrow> version_component \<Rightarrow> int" where
  "cmp_component vc1 vc2 =
     (if vc_n vc1 \<noteq> vc_n vc2 then cmp_int (vc_n vc1) (vc_n vc2)
      else if vc_a vc1 \<noteq> vc_a vc2 then cmp_int (vc_a vc1) (vc_a vc2)
      else cmp_int (vc_pl vc1) (vc_pl vc2))"

text \<open>One side of a round: blocked at a \<open>+\<close> or at the end, else the next component.\<close>

definition version_side :: "string \<Rightarrow> string \<Rightarrow> bool \<times> string \<times> version_component" where
  "version_side v ve =
     (if length ve < length v \<and> c_at v \<noteq> CHR ''+''
      then (let (v', vc) = get_component v in (False, v', vc)) else (True, v, vc_zero))"

definition version_next :: "string \<Rightarrow> string \<Rightarrow> string" where
  \<comment> \<open>\<open>if (v < ve) v++\<close>\<close>
  "version_next v ve = (if length ve < length v then tl v else v)"

lemma length_strtol_digits:
  "c_isdigit (c_at pos) \<Longrightarrow> length (snd (c_strtol 10 pos)) < length pos"
proof -
  assume d: "c_isdigit (c_at pos)"
  then obtain c s where p: "pos = c # s" "c_isdigit c"
    by (cases pos) (simp_all add: c_at_def)
  have "\<not> c_isspace c" "c \<noteq> CHR ''-''" "c \<noteq> CHR ''+''" "base_digit 10 c"
    using p(2) digit_val_range [of c] by (auto simp: ctype_simps base_digit_def)
  then have "snd (c_strtol 10 pos) = dropWhile (base_digit 10) s"
    by (simp add: p c_strtol_def c_at_def Let_def)
  then show ?thesis using length_dropWhile_le [of "base_digit 10" s] p by simp
qed

lemma length_skip: "length (skip_separators pos) \<le> length pos"
  by (simp add: skip_separators_def length_dropWhile_le)

lemma length_number:
  "component_number pos = (p, n, hs) \<Longrightarrow> length p \<le> length pos \<and> (hs \<longleftrightarrow> p = pos \<and> n = -1 \<and> \<not> c_isdigit (c_at pos) \<and> c_at pos \<noteq> CHR ''*'')
     \<and> (\<not> hs \<longrightarrow> length p < length pos)"
proof -
  assume a: "component_number pos = (p, n, hs)"
  have "c_at pos = CHR ''*'' \<Longrightarrow> length (dropWhile (\<lambda>c. c \<noteq> CHR ''+'') (tl pos)) < length pos"
    using length_dropWhile_le [of "\<lambda>c. c \<noteq> CHR ''+''" "tl pos"] by (cases pos) (auto simp: c_at_def)
  then show ?thesis
    using a length_strtol_digits [of pos]
    by (auto simp: component_number_def split_beta split: if_splits)
qed

lemma stage_nonempty: "find (stage_matches pos) stages = Some (name, value) \<Longrightarrow> name \<noteq> []"
  by (auto simp: stages_def split: if_splits)

lemma length_letter:
  "component_letter pos hs = (p, a, hp) \<Longrightarrow> length p \<le> length pos \<and>
     (hs \<longrightarrow> c_isalpha (c_at pos) \<longrightarrow> length p < length pos)"
proof -
  assume a: "component_letter pos hs = (p, a, hp)"
  show ?thesis
  proof (cases "c_isalpha (c_at pos)")
    case True
    then have "pos \<noteq> []" by (auto simp: c_at_def ctype_simps)
    moreover have "length (dropWhile c_isalpha (tl pos)) \<le> length (tl pos)" by (rule length_dropWhile_le)
    ultimately have "length (dropWhile c_isalpha (tl pos)) < length pos" by (cases pos) auto
    then show ?thesis
      using a True stage_nonempty [of pos] \<open>pos \<noteq> []\<close>
      by (auto simp: component_letter_def split: if_splits option.splits prod.splits)
  qed (use a in \<open>auto simp: component_letter_def\<close>)
qed

lemma length_patch: "length (fst (component_patch pos hp)) \<le> length pos"
  using length_strtol_digits [of pos] by (auto simp: component_patch_def split_beta)

lemma get_component_progress:
  assumes "pos \<noteq> []" "c_at pos \<noteq> CHR ''+''"
  shows "length (fst (get_component pos)) < length pos"
proof -
  obtain p1 n hs where n: "component_number pos = (p1, n, hs)" by (metis prod_cases3)
  obtain p2 a hp where a: "component_letter p1 hs = (p2, a, hp)" by (metis prod_cases3)
  obtain p3 pl where p: "component_patch p2 hp = (p3, pl)" by force
  have g: "fst (get_component pos) = skip_separators p3"
    by (simp add: get_component_def n a p)
  have l: "length p1 \<le> length pos" "length p2 \<le> length p1" "length p3 \<le> length p2"
    "length (skip_separators p3) \<le> length p3"
    using length_number [OF n] length_letter [OF a] length_patch [of p2 hp] p length_skip by auto
  show ?thesis
  proof (cases "hs \<and> \<not> c_isalpha (c_at pos)")
    case False
    then show ?thesis using g l length_number [OF n] length_letter [OF a] by auto
  next
    case True
    then have "p1 = pos" "\<not> c_isdigit (c_at pos)" "c_at pos \<noteq> CHR ''*''" using length_number [OF n] by auto
    moreover have "p2 = pos" "hp = False" using a True \<open>p1 = pos\<close> by (auto simp: component_letter_def)
    moreover have "p3 = pos" using p calculation by (simp add: component_patch_def)
    ultimately have "skip_separators p3 = skip_separators (tl pos)"
      using assms True by (cases pos) (simp_all add: skip_separators_def c_at_def)
    then show ?thesis using g length_skip [of "tl pos"] assms(1) by (cases pos) auto
  qed
qed

function version_loop :: "string \<Rightarrow> string \<Rightarrow> string \<Rightarrow> string \<Rightarrow> int" where
  "version_loop v1 ve1 v2 ve2 =
     (if length ve1 < length v1 \<or> length ve2 < length v2 then
        (let (block_v1, v1, vc1) = version_side v1 ve1;
             (block_v2, v2, vc2) = version_side v2 ve2
         in if block_v1 \<and> block_v2
            then version_loop (version_next v1 ve1) ve1 (version_next v2 ve2) ve2
            else let result = cmp_component vc1 vc2 in
              if result \<noteq> 0 then result else version_loop v1 ve1 v2 ve2)
      else 0)"
  by pat_completeness auto

lemma version_side_length:
  "version_side v ve = (b, v', vc) \<Longrightarrow> length v' \<le> length v \<and> (\<not> b \<longrightarrow> length v' < length v) \<and> (b \<longrightarrow> v' = v)"
proof -
  assume a: "version_side v ve = (b, v', vc)"
  show ?thesis
  proof (cases "length ve < length v \<and> c_at v \<noteq> CHR ''+''")
    case True
    then have "v \<noteq> []" by auto
    then show ?thesis
      using a get_component_progress [of v] True by (auto simp: version_side_def split_beta)
  qed (use a in \<open>auto simp: version_side_def\<close>)
qed

termination version_loop
proof (relation "measure (\<lambda>(v1, ve1, v2, ve2). length v1 + length v2)", goal_cases)
  case (2 v1 ve1 v2 ve2 x b1 y w1 vc1 x' b2 y' w2 vc2)
  then show ?case
    using version_side_length [of v1 ve1 b1 w1 vc1] version_side_length [of v2 ve2 b2 w2 vc2]
    by (auto simp: version_next_def)
next
  case (3 v1 ve1 v2 ve2 x b1 y w1 vc1 x' b2 y' w2 vc2)
  then show ?case
    using version_side_length [of v1 ve1 b1 w1 vc1] version_side_length [of v2 ve2 b2 w2 vc2]
    by auto
qed simp

declare version_loop.simps [simp del]

definition pkg_version_cmp :: "string \<Rightarrow> string \<Rightarrow> int" where
  "pkg_version_cmp pkg1 pkg2 =
     (let (v1, ve1, e1, r1) = split_version pkg1;
          (v2, ve2, e2, r2) = split_version pkg2;
          result = (if e1 \<noteq> e2 then (if e1 < e2 then -1 else 1) else 0);
          n1 = length v1 - length ve1; n2 = length v2 - length ve2;
          result =
            (if result = 0 \<and> (n1 \<noteq> n2 \<or> \<not> strcase_eq (take n1 v1) (take n1 v2))
             then version_loop v1 ve1 v2 ve2 else result)
      in if result = 0 \<and> r1 \<noteq> r2 then (if r1 < r2 then -1 else 1) else result)"

datatype pkg_change = PKG_DOWNGRADE | PKG_REINSTALL | PKG_UPGRADE

definition pkg_version_change_between :: "string \<Rightarrow> string option \<Rightarrow> pkg_change" where
  \<comment> \<open>on the versions of the packages; None for no second package\<close>
  "pkg_version_change_between version1 version2 =
     (case version2 of None \<Rightarrow> PKG_REINSTALL
      | Some v2 \<Rightarrow>
          (let c = pkg_version_cmp v2 version1 in
           if c = -1 then PKG_UPGRADE else if c = 1 then PKG_DOWNGRADE else PKG_REINSTALL))"

end
