(* ===== verification/PkgVersionProps.thy ===== *)
theory PkgVersionProps
  imports PkgVersion
begin

text \<open>
  The comparison of versions as an order. Comparing component lists padded with zero components,
  and lists of such lists padded with empty ones, is shown once, in a locale of comparison
  functions; the loop of \<open>pkg_version_cmp\<close> is such a comparison of what it parses.
\<close>

section \<open>Comparison functions\<close>

locale cmp_order =
  fixes cmp :: "'a \<Rightarrow> 'a \<Rightarrow> int"
  assumes cmp_swap: "cmp y x = - cmp x y"
    and cmp_trans: "cmp x y \<le> 0 \<Longrightarrow> cmp y z \<le> 0 \<Longrightarrow> cmp x z \<le> 0"
    and cmp_range: "cmp x y \<in> {-1, 0, 1}"
begin

lemma cmp_refl: "cmp x x = 0"
  using cmp_swap [of x x] by simp

lemma cmp_less_trans: "cmp x y < 0 \<Longrightarrow> cmp y z \<le> 0 \<Longrightarrow> cmp x z < 0"
proof (rule ccontr)
  assume a: "cmp x y < 0" "cmp y z \<le> 0" "\<not> cmp x z < 0"
  then have "cmp z x \<le> 0" using cmp_swap [of x z] by simp
  then have "cmp y x \<le> 0" using cmp_trans a(2) by blast
  then show False using a(1) cmp_swap [of x y] by simp
qed

lemma cmp_trans_less: "cmp x y \<le> 0 \<Longrightarrow> cmp y z < 0 \<Longrightarrow> cmp x z < 0"
proof (rule ccontr)
  assume a: "cmp x y \<le> 0" "cmp y z < 0" "\<not> cmp x z < 0"
  then have "cmp z x \<le> 0" using cmp_swap [of x z] by simp
  then have "cmp z y \<le> 0" using cmp_trans a(1) by blast
  then show False using a(2) cmp_swap [of y z] by simp
qed

lemma cmp_eq_trans: "cmp x y = 0 \<Longrightarrow> cmp y z = 0 \<Longrightarrow> cmp x z = 0"
  using cmp_trans [of x y z] cmp_trans [of z y x] cmp_swap [of x y] cmp_swap [of y z] cmp_swap [of x z]
  by simp

end

fun hd_pad :: "'a \<Rightarrow> 'a list \<Rightarrow> 'a" where
  "hd_pad z [] = z"
| "hd_pad z (x # xs) = x"

text \<open>Element by element, the shorter list padded with \<open>z\<close>.\<close>

function pad_cmp :: "('a \<Rightarrow> 'a \<Rightarrow> int) \<Rightarrow> 'a \<Rightarrow> 'a list \<Rightarrow> 'a list \<Rightarrow> int" where
  "pad_cmp cmp z xs ys =
     (if xs = [] \<and> ys = [] then 0
      else let r = cmp (hd_pad z xs) (hd_pad z ys) in
        if r \<noteq> 0 then r else pad_cmp cmp z (tl xs) (tl ys))"
  by pat_completeness auto
termination
  by (relation "measure (\<lambda>(cmp, z, xs, ys). length xs + length ys)") (auto simp: neq_Nil_conv)

declare pad_cmp.simps [simp del]

context cmp_order
begin

lemma pad_cmp_step:
  "pad_cmp cmp z xs ys = (let r = cmp (hd_pad z xs) (hd_pad z ys) in
     if r \<noteq> 0 then r else pad_cmp cmp z (tl xs) (tl ys))"
  by (subst pad_cmp.simps) (auto simp: cmp_refl pad_cmp.simps)

lemma pad_cmp_swap: "pad_cmp cmp z ys xs = - pad_cmp cmp z xs ys"
proof (induction "length xs + length ys" arbitrary: xs ys rule: less_induct)
  case less
  show ?case
  proof (cases "xs = [] \<and> ys = []")
    case False
    then have "length (tl xs) + length (tl ys) < length xs + length ys" by (auto simp: neq_Nil_conv)
    then have "pad_cmp cmp z (tl ys) (tl xs) = - pad_cmp cmp z (tl xs) (tl ys)" by (rule less.hyps)
    then show ?thesis
      using cmp_swap [of "hd_pad z xs" "hd_pad z ys"]
      by (subst (1 2) pad_cmp_step) (simp add: Let_def)
  qed (simp add: pad_cmp.simps)
qed

lemma pad_cmp_trans:
  "pad_cmp cmp z xs ys \<le> 0 \<Longrightarrow> pad_cmp cmp z ys us \<le> 0 \<Longrightarrow> pad_cmp cmp z xs us \<le> 0"
proof (induction "length xs + length ys + length us" arbitrary: xs ys us rule: less_induct)
  case less
  let ?x = "hd_pad z xs" and ?y = "hd_pad z ys" and ?u = "hd_pad z us"
  show ?case
  proof (cases "xs = [] \<and> ys = [] \<and> us = []")
    case False
    then have l: "length (tl xs) + length (tl ys) + length (tl us) < length xs + length ys + length us"
      by (auto simp: neq_Nil_conv)
    have s1: "cmp ?x ?y < 0 \<or> cmp ?x ?y = 0 \<and> pad_cmp cmp z (tl xs) (tl ys) \<le> 0"
      using less.prems(1) by (subst (asm) pad_cmp_step) (auto simp: Let_def split: if_splits)
    have s2: "cmp ?y ?u < 0 \<or> cmp ?y ?u = 0 \<and> pad_cmp cmp z (tl ys) (tl us) \<le> 0"
      using less.prems(2) by (subst (asm) pad_cmp_step) (auto simp: Let_def split: if_splits)
    have "cmp ?x ?u < 0 \<or> cmp ?x ?u = 0 \<and> pad_cmp cmp z (tl xs) (tl us) \<le> 0"
    proof (cases "cmp ?x ?y = 0 \<and> cmp ?y ?u = 0")
      case True
      then show ?thesis using less.hyps [OF l] s1 s2 cmp_eq_trans by auto
    next
      case False
      then show ?thesis using s1 s2 cmp_less_trans [of ?x ?y ?u] cmp_trans_less [of ?x ?y ?u] by auto
    qed
    then show ?thesis by (subst pad_cmp_step) (auto simp: Let_def)
  qed (simp add: pad_cmp.simps)
qed

lemma pad_cmp_range: "pad_cmp cmp z xs ys \<in> {-1, 0, 1}"
proof (induction "length xs + length ys" arbitrary: xs ys rule: less_induct)
  case less
  show ?case
  proof (cases "xs = [] \<and> ys = []")
    case False
    then have "length (tl xs) + length (tl ys) < length xs + length ys" by (auto simp: neq_Nil_conv)
    then have "pad_cmp cmp z (tl xs) (tl ys) \<in> {-1, 0, 1}" by (rule less.hyps)
    then show ?thesis
      using cmp_range [of "hd_pad z xs" "hd_pad z ys"] by (subst pad_cmp_step) (auto simp: Let_def)
  qed (simp add: pad_cmp.simps)
qed

end

text \<open>A comparison with a padding element; padding gives a comparison of lists.\<close>

locale padded_order = cmp_order cmp for cmp :: "'a \<Rightarrow> 'a \<Rightarrow> int" +
  fixes z :: 'a

sublocale padded_order \<subseteq> pad: cmp_order "pad_cmp cmp z"
  by unfold_locales (rule pad_cmp_swap, erule (1) pad_cmp_trans, rule pad_cmp_range)

interpretation component_order: padded_order cmp_component vc_zero
proof unfold_locales
  fix x y z :: version_component
  show "cmp_component y x = - cmp_component x y" by (simp add: cmp_component_def cmp_int_def)
  show "cmp_component x z \<le> 0" if "cmp_component x y \<le> 0" "cmp_component y z \<le> 0"
    using that by (auto simp: cmp_component_def cmp_int_def split: if_splits)
  show "cmp_component x y \<in> {-1, 0, 1}" by (simp add: cmp_component_def cmp_int_def)
qed

interpretation block_order: padded_order "pad_cmp cmp_component vc_zero" "[]"
  by unfold_locales

section \<open>What the loop compares\<close>

text \<open>The components up to a \<open>+\<close> or the end, and the blocks between the \<open>+\<close>.\<close>

function block :: "string \<Rightarrow> version_component list \<times> string" where
  "block w =
     (if w = [] \<or> c_at w = CHR ''+'' then ([], w)
      else let (p, c) = get_component w; (cs, r) = block p in (c # cs, r))"
  by pat_completeness auto
termination
proof (relation "measure length", goal_cases)
  case (2 w x p c)
  then show ?case using get_component_progress [of w] by (metis fst_conv in_measure)
qed simp

declare block.simps [simp del]

function blocks :: "string \<Rightarrow> version_component list list" where
  "blocks w = (let (cs, r) = block w in cs # (if r = [] then [] else blocks (tl r)))"
  by pat_completeness auto

lemma block_rest: "block w = (cs, r) \<Longrightarrow> length r \<le> length w"
proof (induction w arbitrary: cs r rule: block.induct)
  case (1 w)
  show ?case
  proof (cases "w = [] \<or> c_at w = CHR ''+''")
    case True
    then show ?thesis using "1.prems" by (subst (asm) block.simps) simp
  next
    case False
    obtain p c where g: "get_component w = (p, c)" by force
    obtain cs' r' where b: "block p = (cs', r')" by force
    have "length r' \<le> length p" using "1.IH" [OF False g [symmetric] refl b] .
    moreover have "length p < length w" using get_component_progress [of w] False g by simp
    moreover have "r = r'" using "1.prems" False g b by (subst (asm) block.simps) simp
    ultimately show ?thesis by simp
  qed
qed

termination blocks
proof (relation "measure length", goal_cases)
  case (2 w x cs r)
  then show ?case using block_rest [of w cs r] by (cases r) auto
qed simp

declare blocks.simps [simp del]

abbreviation cmp_components :: "version_component list \<Rightarrow> version_component list \<Rightarrow> int" where
  "cmp_components \<equiv> pad_cmp cmp_component vc_zero"

abbreviation cmp_blocks :: "version_component list list \<Rightarrow> version_component list list \<Rightarrow> int" where
  "cmp_blocks \<equiv> pad_cmp cmp_components []"

text \<open>One side of a round, for a version whose end is the end of the string.\<close>

lemma version_side_block:
  assumes "version_side w [] = (b, p, c)"
  shows "if b then block w = ([], w) \<and> p = w \<and> c = vc_zero
         else block w = (c # fst (block p), snd (block p)) \<and> length p < length w"
proof (cases "w = [] \<or> c_at w = CHR ''+''")
  case True
  then show ?thesis using assms by (auto simp: version_side_def block.simps)
next
  case False
  then show ?thesis
    using assms get_component_progress [of w]
    by (auto simp: version_side_def block.simps [of w] split_beta)
qed

lemma blocks_Cons: "blocks w = fst (block w) # (if snd (block w) = [] then [] else blocks (tl (snd (block w))))"
  by (subst blocks.simps) (simp add: split_beta)

text \<open>A round takes one component from the first block of each side that is not blocked.\<close>

lemma version_side_blocks:
  assumes "version_side w [] = (b, p, c)"
  shows "hd_pad vc_zero (hd (blocks w)) = c" "tl (hd (blocks w)) = hd (blocks p)"
    "tl (blocks w) = tl (blocks p)" "length p \<le> length w" "\<not> b \<Longrightarrow> length p < length w"
    "b \<Longrightarrow> p = w" "b \<Longrightarrow> hd (blocks w) = []" "b \<Longrightarrow> tl (blocks w) = (if w = [] then [] else blocks (tl w))"
  using version_side_block [OF assms] by (cases b; simp add: blocks_Cons [of w] blocks_Cons [of p])+

lemma cmp_blocks_round:
  "cmp_blocks (blocks w1) (blocks w2) =
     (let r = cmp_component (hd_pad vc_zero (hd (blocks w1))) (hd_pad vc_zero (hd (blocks w2))) in
      if r \<noteq> 0 then r
      else let r = cmp_components (tl (hd (blocks w1))) (tl (hd (blocks w2))) in
        if r \<noteq> 0 then r else cmp_blocks (tl (blocks w1)) (tl (blocks w2)))"
proof -
  have "hd_pad [] (blocks w) = hd (blocks w)" for w by (simp add: blocks_Cons [of w])
  then show ?thesis
    by (subst component_order.pad.pad_cmp_step) (subst component_order.pad_cmp_step, simp add: Let_def)
qed

lemma cmp_blocks_first:
  "cmp_blocks (blocks w1) (blocks w2) =
     (let r = cmp_components (hd (blocks w1)) (hd (blocks w2)) in
      if r \<noteq> 0 then r else cmp_blocks (tl (blocks w1)) (tl (blocks w2)))"
proof -
  have "hd_pad [] (blocks w) = hd (blocks w)" for w by (simp add: blocks_Cons [of w])
  then show ?thesis by (subst component_order.pad.pad_cmp_step) (simp add: Let_def)
qed

lemma cmp_blocks_pad:
  "cmp_blocks (if w1 = [] then [] else blocks (tl w1)) (if w2 = [] then [] else blocks (tl w2)) =
   cmp_blocks (blocks (tl w1)) (blocks (tl w2))"
proof -
  have n: "blocks [] = [[]]" by (simp add: blocks_Cons block.simps)
  have "cmp_blocks [[]] ys = cmp_blocks [] ys" "cmp_blocks ys [[]] = cmp_blocks ys []" for ys
    by (subst (1 2) component_order.pad.pad_cmp_step, simp add: Let_def)+
  then show ?thesis by (simp add: n)
qed

lemma version_loop_blocks: "version_loop w1 [] w2 [] = cmp_blocks (blocks w1) (blocks w2)"
proof (induction "length w1 + length w2" arbitrary: w1 w2 rule: less_induct)
  case less
  obtain b1 p1 c1 where s1: "version_side w1 [] = (b1, p1, c1)" by (metis prod_cases3)
  obtain b2 p2 c2 where s2: "version_side w2 [] = (b2, p2, c2)" by (metis prod_cases3)
  note f1 = version_side_blocks [OF s1] and f2 = version_side_blocks [OF s2]
  have next_tl: "version_next w [] = tl w" for w by (simp add: version_next_def)
  show ?case
  proof (cases "w1 = [] \<and> w2 = []")
    case True
    then show ?thesis by (simp add: version_loop.simps block_order.pad.cmp_refl)
  next
    case False
    then have l: "version_loop w1 [] w2 [] =
        (if b1 \<and> b2 then version_loop (tl w1) [] (tl w2) []
         else let r = cmp_component c1 c2 in if r \<noteq> 0 then r else version_loop p1 [] p2 [])"
      using f1(6) f2(6) by (subst version_loop.simps) (auto simp: s1 s2 next_tl)
    show ?thesis
    proof (cases "b1 \<and> b2")
      case True
      have "length (tl w1) + length (tl w2) < length w1 + length w2"
        using False by (auto simp: neq_Nil_conv)
      from less.hyps [OF this] have "version_loop w1 [] w2 [] = cmp_blocks (blocks (tl w1)) (blocks (tl w2))"
        using l True by simp
      also have "\<dots> = cmp_blocks (tl (blocks w1)) (tl (blocks w2))"
        using f1(8) f2(8) True by (simp only: cmp_blocks_pad)
      also have "\<dots> = cmp_blocks (blocks w1) (blocks w2)"
        using f1(7) f2(7) True by (simp add: cmp_blocks_first [of w1 w2] component_order.pad.cmp_refl)
      finally show ?thesis .
    next
      case nb: False
      then have "length p1 + length p2 < length w1 + length w2"
        using f1(4,5) f2(4,5) by (cases b1; cases b2) auto
      from less.hyps [OF this] show ?thesis
        using l nb f1(1-3) f2(1-3)
        by (simp add: Let_def cmp_blocks_round [of w1 w2] cmp_blocks_first [of p1 p2])
    qed
  qed
qed

section \<open>Only the part before revision and epoch counts\<close>

lemma tolower_classes [simp]:
  "c_isalpha (c_tolower c) = c_isalpha c" "c_isdigit (c_tolower c) = c_isdigit c"
  "c_isdigit c \<Longrightarrow> c_tolower c = c"
  by (auto simp: ctype_simps)

lemma tolower_marks:
  "(c_tolower c = CHR ''+'') = (c = CHR ''+'')" "(c_tolower c = CHR ''*'') = (c = CHR ''*'')"
proof -
  have "\<not> c_isalpha (CHR ''+'')" "\<not> c_isalpha (CHR ''*'')" by (simp_all add: ctype_simps)
  moreover have "c_tolower c = c" if "\<not> c_isalpha c" using that by (auto simp: ctype_simps)
  ultimately show "(c_tolower c = CHR ''+'') = (c = CHR ''+'')" "(c_tolower c = CHR ''*'') = (c = CHR ''*'')"
    by (metis tolower_classes(1))+
qed

text \<open>
  \<open>get_component\<close> is called on a position of the whole string and may read and skip beyond the end
  of the version. What follows the end is nothing or starts with an underscore or a comma.
\<close>

definition ends_version :: "string \<Rightarrow> bool" where
  "ends_version r \<longleftrightarrow> r = [] \<or> hd r = CHR ''_'' \<or> hd r = CHR '',''"

lemma take_dropWhile_end:
  assumes "r = [] \<or> \<not> P (hd r)"
  shows "takeWhile P (w @ r) = takeWhile P w" "dropWhile P (w @ r) = dropWhile P w @ r"
  using assms by (induction w) (cases r; auto)+

lemma c_at_end: "w \<noteq> [] \<Longrightarrow> c_at (w @ r) = c_at w"
  by (cases w) (simp_all add: c_at_def)

lemma ends_version_at: "ends_version r \<Longrightarrow> c_at r \<in> {NUL, CHR ''_'', CHR '',''}"
  by (cases r) (auto simp: ends_version_def c_at_def)

lemma end_chars: "x \<in> {NUL, CHR ''_'', CHR '',''} \<Longrightarrow> \<not> c_isdigit x \<and> \<not> c_isalpha x \<and> x \<noteq> CHR ''+'' \<and> x \<noteq> CHR ''*''"
  by (auto simp: ctype_simps)

lemma ends_version_not: "ends_version r \<Longrightarrow> r = [] \<or> \<not> c_isdigit (hd r) \<and> \<not> c_isalpha (hd r)"
  by (auto simp: ends_version_def ctype_simps)

lemma strtol_digit:
  "c_isdigit (c_at w) \<Longrightarrow> c_strtol 10 w =
     (min (2 ^ 63 - 1) (digits_val 10 (takeWhile c_isdigit w)), dropWhile c_isdigit w)"
proof -
  assume "c_isdigit (c_at w)"
  then obtain c s where w: "w = c # s" "c_isdigit c" by (cases w) (simp_all add: c_at_def)
  have bd: "base_digit 10 = c_isdigit"
  proof
    fix x
    have "digit_val x < 10" if "c_isdigit x" using digit_val_range [OF that] by simp
    then show "base_digit 10 x = c_isdigit x" by (auto simp: base_digit_def)
  qed
  have "\<not> c_isspace c" "c \<noteq> CHR ''-''" "c \<noteq> CHR ''+''" using w(2) by (auto simp: ctype_simps)
  then show ?thesis using w by (simp add: c_strtol_def c_at_def bd Let_def)
qed

lemma strtol_end:
  assumes "c_isdigit (c_at w)" "ends_version r"
  shows "c_strtol 10 (w @ r) = (fst (c_strtol 10 w), snd (c_strtol 10 w) @ r)"
proof -
  have "w \<noteq> []" using assms(1) by (auto simp: c_at_def)
  then have "c_isdigit (c_at (w @ r))" using assms(1) by (simp add: c_at_end)
  moreover have "r = [] \<or> \<not> c_isdigit (hd r)" using ends_version_not [OF assms(2)] by blast
  ultimately show ?thesis using assms(1) by (simp add: strtol_digit take_dropWhile_end)
qed

lemma patch_end:
  assumes "ends_version r"
  shows "component_patch (p @ r) hp = (fst (component_patch p hp) @ r, snd (component_patch p hp))"
proof (cases "p = []")
  case True
  then show ?thesis using end_chars [OF ends_version_at [OF assms]] by (simp add: component_patch_def c_at_def)
next
  case False
  then show ?thesis using strtol_end [OF _ assms, of p] by (simp add: component_patch_def c_at_end split_beta)
qed

lemma stage_matches_end:
  assumes "ends_version r" "st \<in> set stages"
  shows "stage_matches (p @ r) st = stage_matches p st"
proof (cases "length (fst st) \<le> length p")
  case True
  have na: "\<not> c_isalpha (c_at r)" using end_chars [OF ends_version_at [OF assms(1)]] by simp
  have "c_isalpha (c_at (drop (length (fst st)) p @ r)) = c_isalpha (c_at (drop (length (fst st)) p))"
  proof (cases "drop (length (fst st)) p = []")
    case empty: True
    have "\<not> c_isalpha NUL" by (simp add: ctype_simps)
    then show ?thesis using empty na by (simp add: c_at_def)
  qed (simp add: c_at_end)
  then show ?thesis using True by (simp add: stage_matches_def)
next
  case False
  have letters: "list_all c_isalpha (fst st)" using assms(2) by (auto simp: stages_def ctype_simps)
  have "\<not> strcase_eq (take (length (fst st)) p) (fst st)"
    using False by (auto simp: strcase_eq_def dest!: map_eq_imp_length_eq)
  moreover have "\<not> strcase_eq (take (length (fst st)) (p @ r)) (fst st)"
  proof
    assume eq: "strcase_eq (take (length (fst st)) (p @ r)) (fst st)"
    then have "length (take (length (fst st)) (p @ r)) = length (fst st)"
      unfolding strcase_eq_def by (metis length_map)
    then have len: "length (fst st) \<le> length (p @ r)" by (simp add: min_def split: if_splits)
    then have "r \<noteq> []" using False by auto
    have "map c_tolower (take (length (fst st)) (p @ r)) ! length p = map c_tolower (fst st) ! length p"
      using eq unfolding strcase_eq_def by (rule arg_cong)
    then have "c_tolower (hd r) = c_tolower (fst st ! length p)"
      using False len \<open>r \<noteq> []\<close> by (simp add: hd_conv_nth nth_append)
    moreover have "c_isalpha (fst st ! length p)" using letters False by (simp add: list_all_length)
    ultimately have "c_isalpha (hd r)" by (metis tolower_classes(1))
    then show False
      using \<open>r \<noteq> []\<close> ends_version_not [OF assms(1)] by simp
  qed
  ultimately show ?thesis by (simp add: stage_matches_def)
qed

lemma letter_end:
  assumes "ends_version r"
  shows "component_letter (p @ r) hs =
    (fst (component_letter p hs) @ r, snd (component_letter p hs))"
proof (cases "p = []")
  case True
  have "\<not> c_isalpha (c_at r)" "\<not> c_isalpha (c_at [])"
    using end_chars [OF ends_version_at [OF assms]] by (simp, simp add: c_at_def ctype_simps)
  then show ?thesis using True by (simp add: component_letter_def)
next
  case False
  then obtain c s where p: "p = c # s" by (cases p) auto
  have na: "\<not> c_isalpha (c_at r)" "\<not> c_isalpha NUL"
    using end_chars [OF ends_version_at [OF assms]] by (simp_all add: ctype_simps)
  have t: "c_isalpha (c_at (s @ r)) = c_isalpha (c_at s)"
    using na by (cases s) (simp_all add: c_at_def)
  have f: "find (stage_matches (p @ r)) stages = find (stage_matches p) stages"
    by (rule find_cong) (simp_all add: stage_matches_end [OF assms])
  have d: "drop (length name) (p @ r) = drop (length name) p @ r"
    if "find (stage_matches p) stages = Some (name, val)" for name val
  proof -
    have "stage_matches p (name, val)" using that by (metis find_Some_iff)
    then have "length (take (length name) p) = length name"
      unfolding stage_matches_def strcase_eq_def by (metis fst_conv length_map)
    then show ?thesis by simp
  qed
  have w: "dropWhile c_isalpha (s @ r) = dropWhile c_isalpha s @ r"
    by (rule take_dropWhile_end) (use ends_version_not [OF assms] in blast)
  have ca: "c_at (x # xs) = x" for x xs by (simp add: c_at_def)
  show ?thesis
    using f d p w t unfolding component_letter_def
    by (auto simp: ca split: option.split)
qed

lemma skip_end:
  "skip_separators (p @ r) = (if skip_separators p = [] then skip_separators r else skip_separators p @ r)"
  by (induction p) (auto simp: skip_separators_def)

text \<open>Two positions with the same components before the end, the second in the cut string.\<close>

definition cut :: "string \<Rightarrow> string \<Rightarrow> string \<Rightarrow> bool" where
  "cut v ve w \<longleftrightarrow> ends_version ve \<and> (v = w @ ve \<or> w = [] \<and> length v \<le> length ve)"

lemma get_component_cut:
  assumes "ends_version ve" "w \<noteq> []" "c_at w \<noteq> CHR ''+''"
  shows "snd (get_component (w @ ve)) = snd (get_component w) \<and>
    cut (fst (get_component (w @ ve))) ve (fst (get_component w))"
proof (cases "c_at w = CHR ''*'' \<and> CHR ''+'' \<notin> set (tl w)")
  case True
  let ?d = "dropWhile (\<lambda>c. c \<noteq> CHR ''+'')"
  have star: "get_component (u @ x) = (?d x, \<lparr>vc_n = -2, vc_a = 0, vc_pl = 0\<rparr>)"
    if "c_at u = CHR ''*''" "CHR ''+'' \<notin> set (tl u)" "u \<noteq> []" for u x
  proof -
    have "CHR ''+'' \<notin> set y \<Longrightarrow> ?d (y @ x) = ?d x" for y by (induction y) auto
    then have d: "?d (tl u @ x) = ?d x" using that(2) by blast
    have c: "?d x = [] \<or> c_at (?d x) = CHR ''+''"
      using hd_dropWhile [of "\<lambda>c. c \<noteq> CHR ''+''" x] by (cases "?d x") (simp_all add: c_at_def)
    have nn: "\<not> c_isalpha (c_at [])" "\<not> c_isalpha (CHR ''+'')" "\<not> c_isdigit (CHR ''*'')"
      by (simp_all add: c_at_def ctype_simps)
    have na: "\<not> c_isalpha (c_at (?d x))" using c nn by metis
    have "skip_separators y = y" if "y = [] \<or> c_at y = CHR ''+''" for y
      using that by (cases y) (auto simp: skip_separators_def c_at_def)
    then have sk: "skip_separators (?d x) = ?d x" using c by blast
    show ?thesis
      using that na d nn sk by (simp add: get_component_def component_number_def component_letter_def
          component_patch_def c_at_end)
  qed
  have "get_component w = ([], \<lparr>vc_n = -2, vc_a = 0, vc_pl = 0\<rparr>)"
    using star [of w "[]"] True assms(2) by simp
  then show ?thesis
    using star [of w ve] True assms by (simp add: cut_def length_dropWhile_le)
next
  case False
  have n: "component_number (w @ ve) = (fst (component_number w) @ ve, snd (component_number w))"
  proof (cases "c_isdigit (c_at w)")
    case True
    then show ?thesis
      using strtol_end [OF True assms(1)] assms(2) by (simp add: component_number_def c_at_end split_beta)
  next
    case nd: False
    have "dropWhile (\<lambda>c. c \<noteq> CHR ''+'') (tl w @ ve) = dropWhile (\<lambda>c. c \<noteq> CHR ''+'') (tl w) @ ve"
      if "CHR ''+'' \<in> set (tl w)" using that by (rule dropWhile_append1) simp
    then show ?thesis using False nd assms(2) by (auto simp: component_number_def c_at_end)
  qed
  obtain p1 k hs where p1: "component_number w = (p1, k, hs)" by (metis prod_cases3)
  obtain p2 a hp where p2: "component_letter p1 hs = (p2, a, hp)" by (metis prod_cases3)
  obtain p3 pl where p3: "component_patch p2 hp = (p3, pl)" by force
  have "get_component w = (skip_separators p3, \<lparr>vc_n = k, vc_a = a, vc_pl = pl\<rparr>)"
    by (simp add: get_component_def p1 p2 p3)
  moreover have "get_component (w @ ve) = (skip_separators (p3 @ ve), \<lparr>vc_n = k, vc_a = a, vc_pl = pl\<rparr>)"
    by (simp add: get_component_def n p1 letter_end [OF assms(1)] p2 patch_end [OF assms(1)] p3)
  ultimately show ?thesis
    using assms(1) length_skip [of ve] by (auto simp: cut_def skip_end)
qed

lemma version_side_cut:
  assumes "cut v ve w"
  shows "\<exists>b p q c. version_side v ve = (b, p, c) \<and> version_side w [] = (b, q, c) \<and> cut p ve q"
proof (cases "w \<noteq> [] \<and> c_at w \<noteq> CHR ''+''")
  case True
  then have v: "v = w @ ve" "ends_version ve" using assms by (auto simp: cut_def)
  show ?thesis
    using get_component_cut [OF v(2)] True v(1)
    by (auto simp: version_side_def c_at_end prod_eq_iff split_beta)
next
  case False
  then show ?thesis using assms by (auto simp: version_side_def cut_def c_at_end)
qed

lemma version_loop_cut:
  "cut v1 ve1 w1 \<Longrightarrow> cut v2 ve2 w2 \<Longrightarrow> version_loop v1 ve1 v2 ve2 = version_loop w1 [] w2 []"
proof (induction "length v1 + length v2" arbitrary: v1 v2 w1 w2 rule: less_induct)
  case less
  obtain b1 p1 q1 c1 where s1: "version_side v1 ve1 = (b1, p1, c1)" "version_side w1 [] = (b1, q1, c1)" "cut p1 ve1 q1"
    using version_side_cut [OF less.prems(1)] by blast
  obtain b2 p2 q2 c2 where s2: "version_side v2 ve2 = (b2, p2, c2)" "version_side w2 [] = (b2, q2, c2)" "cut p2 ve2 q2"
    using version_side_cut [OF less.prems(2)] by blast
  have more: "length ve < length v \<longleftrightarrow> w \<noteq> []" if "cut v ve w" for v ve w
    using that by (auto simp: cut_def)
  have nxt: "cut (version_next v ve) ve (version_next w [])" if "cut v ve w" for v ve w
    using that by (cases w) (auto simp: cut_def version_next_def)
  note l1 = version_side_length [OF s1(1)] and l2 = version_side_length [OF s2(1)]
  show ?case
  proof (cases "length ve1 < length v1 \<or> length ve2 < length v2")
    case False
    then show ?thesis
      using more less.prems by (subst (1 2) version_loop.simps) simp
  next
    case True
    have w: "w1 \<noteq> [] \<or> w2 \<noteq> []" using True more less.prems by blast
    show ?thesis
    proof (cases "b1 \<and> b2")
      case b: True
      then have "p1 = v1" "p2 = v2" "q1 = w1" "q2 = w2"
        using l1 l2 version_side_length [OF s1(2)] version_side_length [OF s2(2)] by auto
      moreover have "length (version_next v1 ve1) + length (version_next v2 ve2) < length v1 + length v2"
        using True by (auto simp: version_next_def)
      then have "version_loop (version_next v1 ve1) ve1 (version_next v2 ve2) ve2 =
          version_loop (version_next w1 []) [] (version_next w2 []) []"
        by (rule less.hyps) (use less.prems nxt in blast)+
      ultimately show ?thesis
        using True w b by (subst (1 2) version_loop.simps) (simp add: s1 s2)
    next
      case nb: False
      then have "length p1 + length p2 < length v1 + length v2" using l1 l2 by (cases b1; cases b2) auto
      then have "version_loop p1 ve1 p2 ve2 = version_loop q1 [] q2 []"
        by (rule less.hyps) (rule s1(3), rule s2(3))
      then show ?thesis
        using True w nb by (subst (1 2) version_loop.simps) (auto simp: s1 s2 Let_def)
    qed
  qed
qed

section \<open>Case\<close>

text \<open>
  Components do not depend on the case of letters, so the shortcut of \<open>pkg_version_cmp\<close> (equal
  up to case, not compared) agrees with the loop.
\<close>

lemma tolower_pred:
  "c_isalpha \<circ> c_tolower = c_isalpha" "c_isdigit \<circ> c_tolower = c_isdigit"
  "(\<lambda>c. c \<noteq> CHR ''+'') \<circ> c_tolower = (\<lambda>c. c \<noteq> CHR ''+'')"
  "(\<lambda>c. \<not> c_isdigit c \<and> \<not> c_isalpha c \<and> c \<noteq> CHR ''+'' \<and> c \<noteq> CHR ''*'') \<circ> c_tolower =
   (\<lambda>c. \<not> c_isdigit c \<and> \<not> c_isalpha c \<and> c \<noteq> CHR ''+'' \<and> c \<noteq> CHR ''*'')"
  by (auto simp: fun_eq_iff tolower_marks)

lemma c_at_map: "c_at (map c_tolower w) = c_tolower (c_at w)"
  by (cases w) (auto simp: c_at_def ctype_simps)

lemma dropWhile_tolower:
  "P \<circ> c_tolower = P \<Longrightarrow> dropWhile P (map c_tolower w) = map c_tolower (dropWhile P w)"
  by (simp add: dropWhile_map)

lemma digits_tolower: "takeWhile c_isdigit (map c_tolower w) = takeWhile c_isdigit w"
  by (induction w) auto

lemma strtol_tolower:
  assumes "c_isdigit (c_at w)"
  shows "c_strtol 10 (map c_tolower w) = (fst (c_strtol 10 w), map c_tolower (snd (c_strtol 10 w)))"
proof -
  have "c_isdigit (c_at (map c_tolower w))" using assms by (simp add: c_at_map)
  then show ?thesis
    using assms by (simp add: strtol_digit digits_tolower dropWhile_tolower tolower_pred)
qed

lemma number_tolower:
  "component_number (map c_tolower w) =
   (map c_tolower (fst (component_number w)), snd (component_number w))"
  by (auto simp: component_number_def c_at_map strtol_tolower tolower_marks split_beta
      dropWhile_tolower tolower_pred simp flip: map_tl)

lemma patch_tolower:
  "component_patch (map c_tolower w) hp =
   (map c_tolower (fst (component_patch w hp)), snd (component_patch w hp))"
  by (auto simp: component_patch_def c_at_map strtol_tolower split_beta)

lemma stage_tolower: "stage_matches (map c_tolower w) = stage_matches w"
  by (rule ext) (simp add: stage_matches_def strcase_eq_def take_map drop_map c_at_map comp_def)

lemma letter_tolower:
  "component_letter (map c_tolower w) hs =
   (map c_tolower (fst (component_letter w hs)), snd (component_letter w hs))"
  by (auto simp: component_letter_def c_at_map stage_tolower drop_map dropWhile_tolower tolower_pred
      simp flip: map_tl split: option.split)

lemma get_component_tolower:
  "get_component (map c_tolower w) = (map c_tolower (fst (get_component w)), snd (get_component w))"
  by (simp add: get_component_def number_tolower letter_tolower patch_tolower split_beta
      skip_separators_def dropWhile_tolower tolower_pred)

lemma block_tolower:
  "block (map c_tolower w) = (fst (block w), map c_tolower (snd (block w)))"
proof (induction w rule: block.induct)
  case (1 w)
  show ?case
  proof (cases "w = [] \<or> c_at w = CHR ''+''")
    case True
    then show ?thesis by (auto simp: block.simps [of w] block.simps [of "map c_tolower w"] c_at_map tolower_marks)
  next
    case False
    have "block (map c_tolower (fst (get_component w))) =
        (fst (block (fst (get_component w))), map c_tolower (snd (block (fst (get_component w)))))"
      by (rule "1.IH" [OF False refl prod.collapse])
    then show ?thesis
      using False by (simp add: block.simps [of w] block.simps [of "map c_tolower w"] c_at_map
          tolower_marks get_component_tolower split_beta)
  qed
qed

lemma blocks_tolower: "blocks (map c_tolower w) = blocks w"
proof (induction "length w" arbitrary: w rule: less_induct)
  case less
  show ?case
  proof (cases "snd (block w) = []")
    case False
    then have "length (tl (snd (block w))) < length w"
      using block_rest [of w] by (cases "snd (block w)") (auto simp: prod_eq_iff Suc_le_eq)
    from less.hyps [OF this] show ?thesis
      using False by (simp add: blocks_Cons [of w] blocks_Cons [of "map c_tolower w"] block_tolower
          flip: map_tl)
  qed (simp add: blocks_Cons [of w] blocks_Cons [of "map c_tolower w"] block_tolower)
qed

lemma strcase_blocks: "strcase_eq w1 w2 \<Longrightarrow> blocks w1 = blocks w2"
  unfolding strcase_eq_def by (metis blocks_tolower)

section \<open>The comparison of versions\<close>

definition version_base :: "string \<Rightarrow> string" where
  \<comment> \<open>the version without epoch and revision\<close>
  "version_base pkg = (let (v, ve, e, r) = split_version pkg in take (length v - length ve) v)"

definition version_epoch :: "string \<Rightarrow> 64 word" where
  "version_epoch pkg = (let (v, ve, e, r) = split_version pkg in e)"

definition version_revision :: "string \<Rightarrow> 64 word" where
  "version_revision pkg = (let (v, ve, e, r) = split_version pkg in r)"

lemma split_version_base:
  "split_version pkg = (v, ve, e, r) \<Longrightarrow> v = version_base pkg @ ve \<and> ends_version ve"
proof -
  assume a: "split_version pkg = (v, ve, e, r)"
  have ve: "ve = [] \<or> strrchr v (CHR ''_'') = Some ve \<or> strrchr v (CHR '','') = Some ve"
    using a by (auto simp: split_version_def Let_def split: option.splits if_splits)
  have "v = take (length v - length ve) v @ ve \<and> ends_version ve"
    using ve strrchr_split [of v _ ve] by (auto simp: ends_version_def)
  then show ?thesis using a by (simp add: version_base_def)
qed

definition cmp_word :: "64 word \<Rightarrow> 64 word \<Rightarrow> int" where
  "cmp_word x y = (if x = y then 0 else if x < y then -1 else 1)"

definition lex_cmp :: "('a \<Rightarrow> 'a \<Rightarrow> int) \<Rightarrow> ('a \<Rightarrow> 'a \<Rightarrow> int) \<Rightarrow> 'a \<Rightarrow> 'a \<Rightarrow> int" where
  "lex_cmp f g x y = (if f x y \<noteq> 0 then f x y else g x y)"

lemma pkg_version_cmp_lex:
  "pkg_version_cmp p q =
     lex_cmp (\<lambda>p q. cmp_word (version_epoch p) (version_epoch q))
       (lex_cmp (\<lambda>p q. cmp_blocks (blocks (version_base p)) (blocks (version_base q)))
         (\<lambda>p q. cmp_word (version_revision p) (version_revision q))) p q"
proof -
  obtain v1 ve1 e1 r1 where s1: "split_version p = (v1, ve1, e1, r1)" by (metis prod_cases4)
  obtain v2 ve2 e2 r2 where s2: "split_version q = (v2, ve2, e2, r2)" by (metis prod_cases4)
  let ?w1 = "version_base p" and ?w2 = "version_base q"
  have v: "v1 = ?w1 @ ve1" "v2 = ?w2 @ ve2" "ends_version ve1" "ends_version ve2"
    using split_version_base [OF s1] split_version_base [OF s2] by auto
  have "version_loop v1 ve1 v2 ve2 = version_loop ?w1 [] ?w2 []"
    by (rule version_loop_cut) (simp_all add: cut_def v)
  then have loop: "version_loop v1 ve1 v2 ve2 = cmp_blocks (blocks ?w1) (blocks ?w2)"
    by (simp add: version_loop_blocks)
  have n: "length v1 - length ve1 = length ?w1" "length v2 - length ve2 = length ?w2"
    "take (length ?w1) v1 = ?w1" "length ?w1 = length ?w2 \<Longrightarrow> take (length ?w1) v2 = ?w2"
    using v(1,2) by (metis add_diff_cancel_right' length_append)+ (use v(1,2) in simp_all)
  have cut: "cmp_blocks (blocks ?w1) (blocks ?w2) = 0"
    if "length ?w1 = length ?w2" "strcase_eq ?w1 ?w2"
    using strcase_blocks [OF that(2)] by (simp add: block_order.pad.cmp_refl)
  show ?thesis
    unfolding pkg_version_cmp_def s1 s2 lex_cmp_def cmp_word_def version_epoch_def version_revision_def
    using n loop cut by (auto simp: Let_def)
qed

lemma lex_cmp_order:
  assumes f: "cmp_order f" and g: "cmp_order g"
  shows "cmp_order (lex_cmp f g)"
proof
  fix x y z
  note fs = cmp_order.cmp_swap [OF f] and gs = cmp_order.cmp_swap [OF g]
  show "lex_cmp f g y x = - lex_cmp f g x y"
    using fs [of x y] gs [of x y] by (simp add: lex_cmp_def)
  show "lex_cmp f g x y \<in> {-1, 0, 1}"
    using cmp_order.cmp_range [OF f, of x y] cmp_order.cmp_range [OF g, of x y] by (auto simp: lex_cmp_def)
  assume a: "lex_cmp f g x y \<le> 0" "lex_cmp f g y z \<le> 0"
  then have xy: "f x y < 0 \<or> f x y = 0 \<and> g x y \<le> 0" and yz: "f y z < 0 \<or> f y z = 0 \<and> g y z \<le> 0"
    by (auto simp: lex_cmp_def split: if_splits)
  then consider "f x z < 0" | "f x z = 0" "g x y \<le> 0" "g y z \<le> 0"
    using cmp_order.cmp_less_trans [OF f, of x y z] cmp_order.cmp_trans_less [OF f, of x y z]
      cmp_order.cmp_eq_trans [OF f, of x y z] by (metis less_imp_le order_refl)
  then show "lex_cmp f g x z \<le> 0"
    using cmp_order.cmp_trans [OF g, of x y z] by cases (auto simp: lex_cmp_def)
qed

lemma key_cmp_order: "cmp_order c \<Longrightarrow> cmp_order (\<lambda>x y. c (k x) (k y))"
  unfolding cmp_order_def by blast

lemma word_cmp_order: "cmp_order cmp_word"
  by unfold_locales (auto simp: cmp_word_def split: if_splits)

interpretation version_order: cmp_order pkg_version_cmp
proof -
  have eq: "pkg_version_cmp = lex_cmp (\<lambda>p q. cmp_word (version_epoch p) (version_epoch q))
       (lex_cmp (\<lambda>p q. cmp_blocks (blocks (version_base p)) (blocks (version_base q)))
         (\<lambda>p q. cmp_word (version_revision p) (version_revision q)))"
    by (rule ext, rule ext, rule pkg_version_cmp_lex)
  show "cmp_order pkg_version_cmp"
    unfolding eq
    by (rule lex_cmp_order [OF key_cmp_order [OF word_cmp_order, of version_epoch]
          lex_cmp_order [OF key_cmp_order [OF block_order.pad.cmp_order_axioms, of "\<lambda>p. blocks (version_base p)"]
            key_cmp_order [OF word_cmp_order, of version_revision]]])
qed

text \<open>
  C11. \<open>pkg_version_cmp\<close> compares the epochs first, then the versions without epoch and revision
  as lists of blocks (separated by \<open>+\<close>) of components, the shorter list padded with empty blocks
  and the shorter block with zero components, and the revisions last: the cursor loop, which
  parses beyond the end of the version and is skipped for versions equal up to case, decides
  exactly this.
\<close>

theorem pkg_version_cmp_spec:
  "pkg_version_cmp p q =
     (if version_epoch p \<noteq> version_epoch q then cmp_word (version_epoch p) (version_epoch q)
      else if cmp_blocks (blocks (version_base p)) (blocks (version_base q)) \<noteq> 0
      then cmp_blocks (blocks (version_base p)) (blocks (version_base q))
      else cmp_word (version_revision p) (version_revision q))"
  by (simp add: pkg_version_cmp_lex lex_cmp_def) (simp add: cmp_word_def)

text \<open>
  \<open>pkg_version_cmp\<close> is a total preorder on version strings: it gives -1, 0 or 1, is
  antisymmetric in its arguments, and a version not newer than one that is not newer than a third
  is not newer than the third; so upgrades cannot go round in a circle.
\<close>

theorem pkg_version_cmp_preorder:
  "pkg_version_cmp p q \<in> {-1, 0, 1} \<and> pkg_version_cmp q p = - pkg_version_cmp p q \<and>
   (pkg_version_cmp p q \<le> 0 \<longrightarrow> pkg_version_cmp q r \<le> 0 \<longrightarrow> pkg_version_cmp p r \<le> 0) \<and>
   (pkg_version_cmp p q < 0 \<longrightarrow> pkg_version_cmp q r \<le> 0 \<longrightarrow> pkg_version_cmp p r < 0)"
  using version_order.cmp_range version_order.cmp_swap version_order.cmp_trans
    version_order.cmp_less_trans by blast

lemma version_samples:
  "pkg_version_cmp ''1.0.r1'' ''1.0'' = -1" "pkg_version_cmp ''1.0'' ''1.0.1_2'' = -1"
  by (code_simp, code_simp)

theorem pkg_version_cmp_preorder_witness: "pkg_version_cmp ''1.0.r1'' ''1.0.1_2'' < 0"
  using pkg_version_cmp_preorder [of "''1.0.r1''" "''1.0''" "''1.0.1_2''"] by (simp add: version_samples)

text \<open>
  \<open>pkg_version_change_between\<close>: a change is an upgrade exactly when the change back is a
  downgrade, a package is reinstalled over itself or over no other, and two upgrades make one.
\<close>

theorem pkg_version_change_between_spec:
  "pkg_version_change_between v None = PKG_REINSTALL \<and>
   pkg_version_change_between v (Some v) = PKG_REINSTALL \<and>
   (pkg_version_change_between v (Some w) = PKG_UPGRADE) =
     (pkg_version_change_between w (Some v) = PKG_DOWNGRADE) \<and>
   (pkg_version_change_between v (Some w) = PKG_UPGRADE \<longrightarrow>
    pkg_version_change_between w (Some u) = PKG_UPGRADE \<longrightarrow>
    pkg_version_change_between v (Some u) = PKG_UPGRADE)"
proof -
  have up: "pkg_version_change_between a (Some b) = PKG_UPGRADE \<longleftrightarrow> pkg_version_cmp b a < 0"
    and down: "pkg_version_change_between a (Some b) = PKG_DOWNGRADE \<longleftrightarrow> 0 < pkg_version_cmp b a" for a b
    using version_order.cmp_range [of b a] by (auto simp: pkg_version_change_between_def Let_def)
  have self: "pkg_version_change_between v (Some v) = PKG_REINSTALL"
    using version_order.cmp_refl [of v] by (simp add: pkg_version_change_between_def)
  have none: "pkg_version_change_between v None = PKG_REINSTALL"
    by (simp add: pkg_version_change_between_def)
  show ?thesis
    unfolding up down using self none version_order.cmp_swap [of w v]
      version_order.cmp_less_trans [of u w v] by simp
qed

lemma change_samples:
  "pkg_version_change_between ''1.0'' (Some ''1.0.b2'') = PKG_UPGRADE"
  "pkg_version_change_between ''1.0.b2'' (Some ''0.9_3'') = PKG_UPGRADE"
  by (code_simp, code_simp)

theorem pkg_version_change_between_witness:
  "pkg_version_change_between ''1.0'' (Some ''0.9_3'') = PKG_UPGRADE"
  using pkg_version_change_between_spec [of "''1.0''" "''1.0.b2''" "''0.9_3''"]
  by (simp add: change_samples)

end
