(* ===== verification/Timestamp.thy ===== *)
theory Timestamp
  imports Sudoers "HOL-Library.Word"
begin

text \<open>
  The time stamp file (\<open>plugins/sudoers/timestamp.c\<close>, \<open>timestamp.h\<close>): its records, how they are
  read, found and written.

  A file is its bytes, a \<open>struct timestamp_entry\<close> has the layout of a 64-bit little-endian system
  without padding (56 bytes; 40 in version 1). A descriptor carries the file, its offset, the
  positions of the records locked through it, and the number of calls made so far; the outcome of
  call \<open>k\<close> is given by \<open>ts_io\<close>: how many bytes a write transfers at most (None for an error), and
  whether a lock and a truncation succeed. Reading and seeking in a regular file does not fail.
\<close>

section \<open>Times\<close>

record timespec =
  tv_sec :: "64 word"
  tv_nsec :: "64 word"

definition timespec0 :: timespec where "timespec0 = \<lparr>tv_sec = 0, tv_nsec = 0\<rparr>"

definition sudo_timespecisset :: "timespec \<Rightarrow> bool" where
  "sudo_timespecisset ts \<longleftrightarrow> tv_sec ts \<noteq> 0 \<or> tv_nsec ts \<noteq> 0"

definition timespec_less :: "timespec \<Rightarrow> timespec \<Rightarrow> bool" where
  \<comment> \<open>\<open>sudo_timespeccmp(a, b, <)\<close>\<close>
  "timespec_less a b =
     (if tv_sec a = tv_sec b then sint (tv_nsec a) < sint (tv_nsec b) else sint (tv_sec a) < sint (tv_sec b))"

function timespec_borrow :: "64 word \<Rightarrow> 64 word \<Rightarrow> timespec" where
  "timespec_borrow sec nsec =
     (if sint nsec < 0 then timespec_borrow (sec - 1) (nsec + 1000000000) else \<lparr>tv_sec = sec, tv_nsec = nsec\<rparr>)"
  by pat_completeness auto

lemma sint_borrow: "sint (n :: 64 word) < 0 \<Longrightarrow> sint (n + 1000000000) = sint n + 1000000000"
proof -
  assume n: "sint n < 0"
  have "sint (n + 1000000000) = signed_take_bit 63 (sint n + 1000000000)"
    by (simp add: sint_word_ariths)
  also have "\<dots> = sint n + 1000000000"
    using n sint_greater_eq [of n] by (intro signed_take_bit_int_eq_self) auto
  finally show ?thesis .
qed

termination timespec_borrow
  by (relation "measure (\<lambda>(s, n). nat (- sint n))") (auto simp: sint_borrow)

declare timespec_borrow.simps [simp del]

definition sudo_timespecsub :: "timespec \<Rightarrow> timespec \<Rightarrow> timespec" where
  "sudo_timespecsub a b = timespec_borrow (tv_sec a - tv_sec b) (tv_nsec a - tv_nsec b)"

definition TIMESPEC_VALID :: "timespec \<Rightarrow> bool" where
  "TIMESPEC_VALID ts \<longleftrightarrow> 0 \<le> sint (tv_sec ts) \<and> 0 \<le> sint (tv_nsec ts) \<and> sint (tv_nsec ts) < 1000000000"

section \<open>Records\<close>

definition TS_VERSION :: "16 word" where "TS_VERSION = 2"

definition TS_GLOBAL :: "16 word" where "TS_GLOBAL = 1"
definition TS_TTY :: "16 word" where "TS_TTY = 2"
definition TS_PPID :: "16 word" where "TS_PPID = 3"
definition TS_LOCKEXCL :: "16 word" where "TS_LOCKEXCL = 4"

definition TS_DISABLED :: "16 word" where "TS_DISABLED = 1"
definition TS_ANYUID :: "16 word" where "TS_ANYUID = 2"

datatype ts_status = TS_CURRENT | TS_OLD | TS_MISSING | TS_ERROR | TS_FATAL

record timestamp_entry =
  te_version :: "16 word"
  te_size :: "16 word"
  te_type :: "16 word"
  te_flags :: "16 word"
  te_auth_uid :: "32 word"
  te_sid :: "32 word"
  te_start :: timespec
  te_ts :: timespec
  te_u :: "64 word" \<comment> \<open>the union: a device, or a process id in the first four bytes\<close>

definition entry0 :: timestamp_entry where
  \<comment> \<open>\<open>memset(entry, 0, sizeof(*entry))\<close>\<close>
  "entry0 = \<lparr>te_version = 0, te_size = 0, te_type = 0, te_flags = 0, te_auth_uid = 0, te_sid = 0,
     te_start = timespec0, te_ts = timespec0, te_u = 0\<rparr>"

definition u_ppid :: "timestamp_entry \<Rightarrow> 32 word" where
  "u_ppid e = ucast (te_u e)"

definition flag_set :: "16 word \<Rightarrow> timestamp_entry \<Rightarrow> bool" where
  "flag_set f e \<longleftrightarrow> and (te_flags e) f \<noteq> 0"

definition set_flag :: "16 word \<Rightarrow> timestamp_entry \<Rightarrow> timestamp_entry" where
  "set_flag f e = e\<lparr>te_flags := or (te_flags e) f\<rparr>"

definition clear_flag :: "16 word \<Rightarrow> timestamp_entry \<Rightarrow> timestamp_entry" where
  "clear_flag f e = e\<lparr>te_flags := and (te_flags e) (not f)\<rparr>"

section \<open>Bytes\<close>

type_synonym bytes = "8 word list"

fun le_bytes :: "nat \<Rightarrow> nat \<Rightarrow> bytes" where
  "le_bytes 0 x = []"
| "le_bytes (Suc n) x = of_nat (x mod 256) # le_bytes n (x div 256)"

fun le_val :: "bytes \<Rightarrow> nat" where
  "le_val [] = 0"
| "le_val (b # bs) = unat b + 256 * le_val bs"

definition SIZEOF_ENTRY :: nat where "SIZEOF_ENTRY = 56"
definition SIZEOF_ENTRY_V1 :: nat where "SIZEOF_ENTRY_V1 = 40"

definition encode_time :: "timespec \<Rightarrow> bytes" where
  "encode_time ts = le_bytes 8 (unat (tv_sec ts)) @ le_bytes 8 (unat (tv_nsec ts))"

definition encode_entry :: "timestamp_entry \<Rightarrow> bytes" where
  "encode_entry e =
     le_bytes 2 (unat (te_version e)) @ le_bytes 2 (unat (te_size e)) @ le_bytes 2 (unat (te_type e)) @
     le_bytes 2 (unat (te_flags e)) @ le_bytes 4 (unat (te_auth_uid e)) @ le_bytes 4 (unat (te_sid e)) @
     encode_time (te_start e) @ encode_time (te_ts e) @ le_bytes 8 (unat (te_u e))"

definition field :: "nat \<Rightarrow> nat \<Rightarrow> bytes \<Rightarrow> 'a::len word" where
  "field i n bs = of_nat (le_val (take n (drop i bs)))"

definition decode_entry :: "bytes \<Rightarrow> timestamp_entry" where
  "decode_entry bs = \<lparr>te_version = field 0 2 bs, te_size = field 2 2 bs, te_type = field 4 2 bs,
     te_flags = field 6 2 bs, te_auth_uid = field 8 4 bs, te_sid = field 12 4 bs,
     te_start = \<lparr>tv_sec = field 16 8 bs, tv_nsec = field 24 8 bs\<rparr>,
     te_ts = \<lparr>tv_sec = field 32 8 bs, tv_nsec = field 40 8 bs\<rparr>, te_u = field 48 8 bs\<rparr>"

section \<open>Descriptors\<close>

record ts_fd =
  fd_data :: bytes
  fd_off :: nat
  fd_held :: "nat list"
  fd_calls :: nat

record ts_io =
  io_write :: "nat \<Rightarrow> nat option"
  io_lock :: "nat \<Rightarrow> bool"
  io_ftruncate :: "nat \<Rightarrow> bool"

definition put_bytes :: "nat \<Rightarrow> bytes \<Rightarrow> bytes \<Rightarrow> bytes" where
  \<comment> \<open>a gap after the end of the file reads as zeros\<close>
  "put_bytes off bs data =
     take off data @ replicate (off - length data) 0 @ bs @ drop (off + length bs) data"

definition fd_read :: "nat \<Rightarrow> ts_fd \<Rightarrow> bytes \<times> ts_fd" where
  "fd_read n fd = (let bs = take n (drop (fd_off fd) (fd_data fd)) in (bs, fd\<lparr>fd_off := fd_off fd + length bs\<rparr>))"

definition fd_pread :: "nat \<Rightarrow> nat \<Rightarrow> ts_fd \<Rightarrow> bytes" where
  "fd_pread n pos fd = take n (drop pos (fd_data fd))"

definition fd_seek :: "nat \<Rightarrow> ts_fd \<Rightarrow> ts_fd" where
  "fd_seek pos fd = fd\<lparr>fd_off := pos\<rparr>"

definition fd_write :: "ts_io \<Rightarrow> bytes \<Rightarrow> nat option \<Rightarrow> ts_fd \<Rightarrow> nat option \<times> ts_fd" where
  \<comment> \<open>\<open>write\<close>, or \<open>pwrite\<close> at a position, which leaves the offset alone\<close>
  "fd_write io bs pos fd =
     (let k = fd_calls fd; fd = fd\<lparr>fd_calls := k + 1\<rparr> in
      case io_write io k of
        None \<Rightarrow> (None, fd)
      | Some n \<Rightarrow>
          let bs = take n bs in
          (Some (length bs),
           case pos of
             None \<Rightarrow> fd\<lparr>fd_data := put_bytes (fd_off fd) bs (fd_data fd), fd_off := fd_off fd + length bs\<rparr>
           | Some p \<Rightarrow> fd\<lparr>fd_data := put_bytes p bs (fd_data fd)\<rparr>))"

definition fd_ftruncate :: "ts_io \<Rightarrow> nat \<Rightarrow> ts_fd \<Rightarrow> bool \<times> ts_fd" where
  \<comment> \<open>the offset stays\<close>
  "fd_ftruncate io len fd =
     (let k = fd_calls fd; fd = fd\<lparr>fd_calls := k + 1\<rparr>; data = fd_data fd in
      if io_ftruncate io k
      then (True, fd\<lparr>fd_data := take len data @ replicate (len - length data) 0\<rparr>) else (False, fd))"

definition timestamp_lock_record :: "ts_io \<Rightarrow> nat option \<Rightarrow> ts_fd \<Rightarrow> bool \<times> ts_fd" where
  \<comment> \<open>a lock on one record, at the offset when no position is given\<close>
  "timestamp_lock_record io pos fd =
     (let fd = (case pos of Some p \<Rightarrow> fd_seek p fd | None \<Rightarrow> fd);
          k = fd_calls fd; fd = fd\<lparr>fd_calls := k + 1\<rparr>
      in if io_lock io k then (True, fd\<lparr>fd_held := fd_off fd # fd_held fd\<rparr>) else (False, fd))"

definition timestamp_unlock_record :: "nat \<Rightarrow> ts_fd \<Rightarrow> ts_fd" where
  "timestamp_unlock_record pos fd = (let fd = fd_seek pos fd in fd\<lparr>fd_held := removeAll pos (fd_held fd)\<rparr>)"

section \<open>Finding and writing records\<close>

definition ts_match_record :: "timestamp_entry \<Rightarrow> timestamp_entry \<Rightarrow> bool" where
  "ts_match_record key entry =
     (if te_version entry \<noteq> te_version key then False
      else if \<not> flag_set TS_ANYUID key \<and> te_auth_uid entry \<noteq> te_auth_uid key then False
      else if te_type entry \<noteq> te_type key then False
      else if te_type entry = TS_GLOBAL then True
      else if te_type entry = TS_PPID then u_ppid entry = u_ppid key \<and> te_start entry = te_start key
      else if te_type entry = TS_TTY then te_u entry = te_u key \<and> te_start entry = te_start key
      else False)"

function ts_find_record :: "timestamp_entry \<Rightarrow> ts_fd \<Rightarrow> timestamp_entry option \<times> ts_fd" where
  "ts_find_record key fd =
     (let (bs, fd') = fd_read SIZEOF_ENTRY fd; cur = decode_entry bs in
      if length bs \<noteq> SIZEOF_ENTRY then (None, fd')
      else if unat (te_size cur) \<noteq> SIZEOF_ENTRY
      then let fd'' = fd_seek (fd_off fd' + unat (te_size cur) - SIZEOF_ENTRY) fd' in
           if te_size cur = 0 then (None, fd'') else ts_find_record key fd''
      else if ts_match_record key cur then (Some cur, fd') else ts_find_record key fd')"
  by pat_completeness auto

lemma fd_read_full:
  assumes "(bs, fd') = fd_read n fd" "length bs = n"
  shows "bs = take n (drop (fd_off fd) (fd_data fd))" "fd' = fd\<lparr>fd_off := fd_off fd + n\<rparr>"
    and "0 < n \<Longrightarrow> fd_off fd + n \<le> length (fd_data fd)"
  using assms by (auto simp: fd_read_def Let_def)

termination ts_find_record
proof (relation "measure (\<lambda>(key, fd). length (fd_data fd) - fd_off fd)", goal_cases)
  case (2 key fd x bs fd' cur fd'')
  then have l: "(bs, fd') = fd_read SIZEOF_ENTRY fd" "length bs = SIZEOF_ENTRY" "te_size cur \<noteq> 0"
    "fd'' = fd_seek (fd_off fd' + unat (te_size cur) - SIZEOF_ENTRY) fd'" by auto
  have "0 < unat (te_size cur)" using l(3) by (simp add: unat_gt_0)
  then show ?case using fd_read_full [OF l(1,2)] by (simp add: l(4) fd_seek_def SIZEOF_ENTRY_def)
next
  case (3 key fd x bs fd' cur)
  then show ?case using fd_read_full [of bs fd' SIZEOF_ENTRY fd] by (auto simp: SIZEOF_ENTRY_def)
qed simp

declare ts_find_record.simps [simp del]

definition ts_write :: "ts_io \<Rightarrow> timestamp_entry \<Rightarrow> nat option \<Rightarrow> ts_fd \<Rightarrow> bool \<times> ts_fd" where
  \<comment> \<open>after a short write the file is cut at the record\<close>
  "ts_write io entry pos fd =
     (let size = unat (te_size entry);
          old_eof = (case pos of None \<Rightarrow> fd_off fd | Some p \<Rightarrow> p);
          (nwritten, fd) = fd_write io (take size (encode_entry entry)) pos fd
      in case nwritten of
           None \<Rightarrow> (False, fd)
         | Some n \<Rightarrow>
             if n = size then (True, fd)
             else if 0 < n then (False, fd_seek old_eof (snd (fd_ftruncate io old_eof fd)))
             else (False, fd))"

end
