(* ===== verification/TimestampOps.thy ===== *)
theory TimestampOps
  imports Timestamp Strto
begin

text \<open>
  The operations on the time stamp file (\<open>plugins/sudoers/timestamp.c\<close>): opening it, locking the
  record of a user, asking for its status, updating it, and \<open>sudo -k\<close>.

  There are no ticket calls of the terminal (\<open>TIOCCHKVERAUTH\<close> and its likes). A cookie is kept
  apart from its descriptor; \<open>starttime\<close> is \<open>get_starttime\<close>, and \<open>now\<close> what \<open>sudo_gettime_mono\<close>
  reads (None when it fails).
\<close>

section \<open>Keys\<close>

datatype ticket_type = Global | Ppid | Tty | Kernel

record ts_context =
  tc_sudo :: sudo_context
  tc_sid :: "32 word"
  tc_ttydev :: "64 word"
  tc_ppid :: "32 word"

record ts_defs =
  def_timestamp_timeout :: timespec
  def_timestamp_type :: ticket_type

definition NODEV :: "64 word" where "NODEV = -1"

definition start_of :: "(32 word \<Rightarrow> timespec option) \<Rightarrow> 32 word \<Rightarrow> timespec" where
  "start_of starttime pid = (case starttime pid of Some t \<Rightarrow> t | None \<Rightarrow> timespec0)"

definition ts_init_key :: "(32 word \<Rightarrow> timespec option) \<Rightarrow> ts_context \<Rightarrow> passwd option \<Rightarrow> 16 word \<Rightarrow> ticket_type \<Rightarrow>
    timestamp_entry" where
  "ts_init_key starttime ctx pw flags ticket =
     (let entry = entry0\<lparr>te_version := TS_VERSION, te_size := of_nat SIZEOF_ENTRY, te_flags := flags\<rparr>;
          entry = (case pw of Some p \<Rightarrow> entry\<lparr>te_auth_uid := pw_uid p\<rparr> | None \<Rightarrow> set_flag TS_ANYUID entry);
          entry = entry\<lparr>te_sid := tc_sid ctx\<rparr>
      in if ticket = Tty \<and> tc_ttydev ctx \<noteq> NODEV
         then let entry = entry\<lparr>te_type := TS_TTY, te_u := tc_ttydev ctx\<rparr> in
              if te_sid entry \<noteq> -1 then entry\<lparr>te_start := start_of starttime (te_sid entry)\<rparr> else entry
         else if ticket = Global then entry\<lparr>te_type := TS_GLOBAL\<rparr>
         else entry\<lparr>te_type := TS_PPID, te_u := ucast (tc_ppid ctx), te_start := start_of starttime (tc_ppid ctx)\<rparr>)"

definition ts_init_key_nonglobal :: "(32 word \<Rightarrow> timespec option) \<Rightarrow> ts_defs \<Rightarrow> ts_context \<Rightarrow> passwd option \<Rightarrow>
    16 word \<Rightarrow> timestamp_entry" where
  "ts_init_key_nonglobal starttime df ctx pw flags =
     ts_init_key starttime ctx pw flags (if def_timestamp_type df = Ppid then Ppid else Tty)"

section \<open>Opening\<close>

record ts_cookie =
  ck_pos :: "nat option"
  ck_locked :: bool
  ck_key :: timestamp_entry

datatype openat_result = TIMESTAMP_OPEN_ERROR | TIMESTAMP_PERM_ERROR | Opened

record ts_file =
  f_data :: bytes
  f_mtime :: timespec

record ts_directory =
  dir_secure :: bool \<comment> \<open>the result of \<open>ts_secure_opendir\<close>\<close>
  dir_openat :: "nat \<Rightarrow> openat_result" \<comment> \<open>for each try\<close>
  dir_real_time :: "timespec option"
  dir_boottime :: "timespec option"
  dir_new_mtime :: timespec \<comment> \<open>of a file that is created\<close>

definition predates_boot :: "ts_directory \<Rightarrow> ts_file \<Rightarrow> bool" where
  \<comment> \<open>a boot time in the future is ignored\<close>
  "predates_boot d f =
     (case (dir_real_time d, dir_boottime d) of
        (Some now, Some boottime) \<Rightarrow> \<not> timespec_less now boottime \<and> timespec_less (f_mtime f) boottime
      | _ \<Rightarrow> False)"

definition created :: "ts_directory \<Rightarrow> ts_file option \<Rightarrow> ts_file" where
  "created d f = (case f of Some f \<Rightarrow> f | None \<Rightarrow> \<lparr>f_data = [], f_mtime = dir_new_mtime d\<rparr>)"

definition cookie_on :: "ts_file \<Rightarrow> ts_cookie \<times> ts_fd" where
  \<comment> \<open>the rest of the cookie is not looked at before \<open>timestamp_lock\<close> has set it\<close>
  "cookie_on f = (\<lparr>ck_pos = None, ck_locked = False, ck_key = entry0\<rparr>,
     \<lparr>fd_data = f_data f, fd_off = 0, fd_held = [], fd_calls = 0\<rparr>)"

definition timestamp_open :: "ts_directory \<Rightarrow> ts_defs \<Rightarrow> ts_file option \<Rightarrow>
    (ts_cookie \<times> ts_fd) option \<times> ts_file option" where
  \<comment> \<open>the cookie and the file of the user; a file older than the system is replaced once\<close>
  "timestamp_open d df file =
     (if \<not> sudo_timespecisset (def_timestamp_timeout df) then (None, file)
      else if \<not> dir_secure d then (None, file)
      else if dir_openat d 1 \<noteq> Opened then (None, file)
      else let f = created d file in
           if predates_boot d f
           then if dir_openat d 2 \<noteq> Opened then (None, None)
                else let f = created d None in (Some (cookie_on f), Some f)
           else (Some (cookie_on f), Some f))"

section \<open>Locking\<close>

definition timestamp_lock_write :: "ts_io \<Rightarrow> ts_fd \<Rightarrow> bool \<times> ts_fd" where
  "timestamp_lock_write io fd =
     ts_write io (entry0\<lparr>te_version := TS_VERSION, te_size := of_nat SIZEOF_ENTRY, te_type := TS_LOCKEXCL\<rparr>) None fd"

text \<open>The first record is made one of type \<open>TS_LOCKEXCL\<close>, and the offset put after it.\<close>

definition lock_first_record :: "ts_io \<Rightarrow> ts_fd \<Rightarrow> bool \<times> ts_fd" where
  "lock_first_record io fd =
     (let (bs, fd) = fd_read SIZEOF_ENTRY fd;
          nread = length bs;
          entry = decode_entry (bs @ replicate (SIZEOF_ENTRY - nread) 0);
          overwrite = (if nread < SIZEOF_ENTRY_V1 then True
                       else te_type entry \<noteq> TS_LOCKEXCL \<and> unat (te_size entry) \<noteq> SIZEOF_ENTRY_V1);
          convert = (\<not> overwrite \<and> te_type entry \<noteq> TS_LOCKEXCL);
          (ok, fd) = (if convert
                      then ts_write io (entry0\<lparr>te_version := te_version entry, te_size := te_size entry,
                             te_type := TS_LOCKEXCL\<rparr>) (Some 0) fd
                      else (True, fd))
      in if \<not> ok then (False, fd)
         else if overwrite
         then (case fd_ftruncate io 0 fd of
                 (False, fd) \<Rightarrow> (False, fd)
               | (True, fd) \<Rightarrow> timestamp_lock_write io fd)
         else if unat (te_size entry) \<noteq> SIZEOF_ENTRY then (True, fd_seek (unat (te_size entry)) fd)
         else (True, fd))"

text \<open>The position of the record of a key, which is appended if it is missing.\<close>

definition ts_locate :: "ts_io \<Rightarrow> timestamp_entry \<Rightarrow> ts_fd \<Rightarrow> nat \<times> bool \<times> ts_fd" where
  "ts_locate io key fd =
     (case ts_find_record key fd of
        (Some entry, fd) \<Rightarrow> (fd_off fd - unat (te_size entry), True, fd)
      | (None, fd) \<Rightarrow> (let (ok, fd') = ts_write io key None fd in (fd_off fd, ok, fd')))"

definition timestamp_lock :: "ts_io \<Rightarrow> (32 word \<Rightarrow> timespec option) \<Rightarrow> ts_defs \<Rightarrow> ts_context \<Rightarrow> passwd \<Rightarrow>
    ts_cookie \<times> ts_fd \<Rightarrow> bool \<times> ts_cookie \<times> ts_fd" where
  "timestamp_lock io starttime df ctx pw = (\<lambda>(cookie, fd).
     (case timestamp_lock_record io (Some 0) fd of
        (False, fd) \<Rightarrow> (False, cookie, fd)
      | (True, fd) \<Rightarrow>
         (case lock_first_record io fd of
            (False, fd) \<Rightarrow> (False, cookie, fd)
          | (True, fd) \<Rightarrow>
             (let key = ts_init_key_nonglobal starttime df ctx (Some pw) TS_DISABLED;
                  cookie = cookie\<lparr>ck_key := key\<rparr>;
                  (lock_pos, ok, fd) = ts_locate io key fd
              in if \<not> ok then (False, cookie, fd)
                 else let (cookie, ok, fd) =
                        (if def_timestamp_type df = Global
                         then let key = key\<lparr>te_type := TS_GLOBAL\<rparr>;
                                  (pos, ok, fd) = ts_locate io key (fd_seek 0 fd)
                              in (cookie\<lparr>ck_locked := False, ck_key := key, ck_pos := Some pos\<rparr>, ok, fd)
                         else (cookie\<lparr>ck_pos := Some lock_pos, ck_locked := True\<rparr>, True, fd))
                      in if \<not> ok then (False, cookie, fd)
                         else let fd = timestamp_unlock_record 0 fd;
                                  (locked, fd) = timestamp_lock_record io (Some lock_pos) fd
                              in (locked, cookie, fd)))))"

section \<open>Status and update\<close>

definition ts_read :: "ts_io \<Rightarrow> ts_cookie \<Rightarrow> nat \<Rightarrow> ts_fd \<Rightarrow> bytes option \<times> ts_fd" where
  \<comment> \<open>None for -1\<close>
  "ts_read io cookie pos fd =
     (if ck_locked cookie then (Some (fd_pread SIZEOF_ENTRY pos fd), fd)
      else case timestamp_lock_record io (Some pos) fd of
             (False, fd) \<Rightarrow> (None, fd)
           | (True, fd) \<Rightarrow> (Some (fd_pread SIZEOF_ENTRY pos fd), timestamp_unlock_record pos fd))"

definition entry_status :: "ts_defs \<Rightarrow> ts_context \<Rightarrow> timespec option \<Rightarrow> timestamp_entry \<Rightarrow> ts_status \<times> bool" where
  \<comment> \<open>the status of a record of the right size, and whether the record is to be disabled\<close>
  "entry_status df ctx now entry =
     (if te_version entry \<noteq> TS_VERSION \<or> unat (te_size entry) \<noteq> SIZEOF_ENTRY then (TS_OLD, False)
      else if \<not> TIMESPEC_VALID (te_start entry) \<or> \<not> TIMESPEC_VALID (te_ts entry) then (TS_OLD, False)
      else if flag_set TS_DISABLED entry then (TS_OLD, False)
      else if te_type entry \<noteq> TS_GLOBAL \<and> te_sid entry \<noteq> tc_sid ctx then (TS_OLD, False)
      else if timespec_less (def_timestamp_timeout df) timespec0 then (TS_CURRENT, False)
      else case now of None \<Rightarrow> (TS_ERROR, False)
      | Some now \<Rightarrow>
          let diff = sudo_timespecsub now (te_ts entry) in
          if timespec_less diff (def_timestamp_timeout df)
          then if sint (tv_sec diff) < 0 then (TS_OLD, True) else (TS_CURRENT, False)
          else (TS_OLD, False))"

definition timestamp_status :: "ts_io \<Rightarrow> ts_defs \<Rightarrow> ts_context \<Rightarrow> timespec option \<Rightarrow> (ts_cookie \<times> ts_fd) option \<Rightarrow>
    ts_status \<times> (ts_cookie \<times> ts_fd) option" where
  "timestamp_status io df ctx now vcookie =
     (if \<not> sudo_timespecisset (def_timestamp_timeout df) then (TS_OLD, vcookie)
      else case vcookie of None \<Rightarrow> (TS_OLD, None)
      | Some (cookie, fd) \<Rightarrow>
         (case ck_pos cookie of None \<Rightarrow> (TS_OLD, Some (cookie, fd))
          | Some pos \<Rightarrow>
             (case ts_read io cookie pos fd of
                (None, fd) \<Rightarrow> (TS_ERROR, Some (cookie, fd))
              | (Some bs, fd) \<Rightarrow>
                  if length bs \<noteq> SIZEOF_ENTRY then (TS_ERROR, Some (cookie, fd))
                  else let entry = decode_entry bs; (status, disable) = entry_status df ctx now entry in
                       (status, Some (cookie, if disable
                          then snd (ts_write io (set_flag TS_DISABLED entry) (Some pos) fd) else fd)))))"

definition timestamp_update :: "ts_io \<Rightarrow> ts_defs \<Rightarrow> timespec option \<Rightarrow> (ts_cookie \<times> ts_fd) option \<Rightarrow>
    bool \<times> (ts_cookie \<times> ts_fd) option" where
  "timestamp_update io df now vcookie =
     (if \<not> sudo_timespecisset (def_timestamp_timeout df) then (False, vcookie)
      else case vcookie of None \<Rightarrow> (False, None)
      | Some (cookie, fd) \<Rightarrow>
         (case ck_pos cookie of None \<Rightarrow> (False, Some (cookie, fd))
          | Some pos \<Rightarrow>
             (let key = clear_flag TS_DISABLED (ck_key cookie) in
              case now of None \<Rightarrow> (False, Some (cookie\<lparr>ck_key := key\<rparr>, fd))
              | Some now \<Rightarrow>
                  let key = key\<lparr>te_ts := now\<rparr>; (ok, fd) = ts_write io key (Some pos) fd
                  in (ok, Some (cookie\<lparr>ck_key := key\<rparr>, fd)))))"

section \<open>\<open>sudo -k\<close>\<close>

text \<open>The loop that disables the records that match; it may go on for ever.\<close>

partial_function (option) remove_loop :: "ts_io \<Rightarrow> timestamp_entry \<Rightarrow> bool \<Rightarrow> ts_fd \<Rightarrow> (bool \<times> ts_fd) option" where
  "remove_loop io key ret fd =
     (case ts_find_record key fd of
        (None, fd) \<Rightarrow> Some (ret, fd)
      | (Some entry, fd) \<Rightarrow>
          if flag_set TS_DISABLED entry then remove_loop io key ret fd
          else let (ok, fd) = ts_write io (set_flag TS_DISABLED entry) None (fd_seek (fd_off fd - SIZEOF_ENTRY) fd)
               in remove_loop io key (ret \<and> ok) fd)"

datatype remove_result = Removed | Not_removed | Remove_error \<comment> \<open>true, false, -1\<close>

definition timestamp_remove :: "ts_io \<Rightarrow> (32 word \<Rightarrow> timespec option) \<Rightarrow> ts_defs \<Rightarrow> ts_context \<Rightarrow> ts_fd \<Rightarrow>
    (remove_result \<times> ts_fd) option" where
  \<comment> \<open>with the file of the user open, and not to be unlinked (\<open>sudo -K\<close>)\<close>
  "timestamp_remove io starttime df ctx fd =
     (case timestamp_lock_record io None fd of
        (False, fd) \<Rightarrow> Some (Remove_error, fd)
      | (True, fd) \<Rightarrow>
          map_option (\<lambda>(ret, fd). (if ret then Removed else Not_removed, fd))
            (remove_loop io (ts_init_key starttime ctx None 0 (def_timestamp_type df)) True fd))"

text \<open>The whole of \<open>timestamp_remove\<close>, on the file of the user in its directory.\<close>

record remove_env =
  rm_opendir :: "openat_result"
  rm_dir_enoent :: bool
  rm_unlink_ok :: bool
  rm_openat :: openat_result
  rm_enoent :: bool \<comment> \<open>the error of opening the file\<close>

definition remove_user_file :: "remove_env \<Rightarrow> bool \<Rightarrow> ts_io \<Rightarrow> (32 word \<Rightarrow> timespec option) \<Rightarrow> ts_defs \<Rightarrow> ts_context \<Rightarrow>
    bytes option \<Rightarrow> (remove_result \<times> bytes option) option" where
  "remove_user_file env unlink_it io starttime df ctx file =
     (if rm_opendir env \<noteq> Opened then Some (if rm_dir_enoent env then Removed else Remove_error, file)
      else if unlink_it
      then (case file of
              None \<Rightarrow> Some (Remove_error, None)
            | Some f \<Rightarrow> if rm_unlink_ok env then Some (Removed, None) else Some (Remove_error, file))
      else case rm_openat env of
             TIMESTAMP_PERM_ERROR \<Rightarrow> Some (Remove_error, file)
           | TIMESTAMP_OPEN_ERROR \<Rightarrow> Some (if rm_enoent env then Removed else Not_removed, file)
           | Opened \<Rightarrow>
              (case file of None \<Rightarrow> Some (Removed, None)
               | Some f \<Rightarrow>
                  map_option (\<lambda>(r, fd). (r, Some (fd_data fd)))
                    (timestamp_remove io starttime df ctx
                      \<lparr>fd_data = f, fd_off = 0, fd_held = [], fd_calls = 0\<rparr>)))"

section \<open>The owner of the files\<close>

definition cb_timestampowner :: "system \<Rightarrow> string \<Rightarrow> (32 word \<times> 32 word) option" where
  \<comment> \<open>the user and group that own the time stamps, from a name or \<open>#uid\<close>\<close>
  "cb_timestampowner sys user =
     (let pw = (if c_at user = CHR ''#''
                then case sudo_strtoid (tl user) of (uid, None) \<Rightarrow> sys_getpwuid sys uid | _ \<Rightarrow> None
                else None);
          pw = (case pw of None \<Rightarrow> sys_getpwnam sys user | Some p \<Rightarrow> Some p)
      in map_option (\<lambda>p. (pw_uid p, pw_gid p)) pw)"

end
