(* ===== verification/Prompt.thy ===== *)
theory Prompt
  imports Sudoers "HOL-Library.Word"
begin

text \<open>
  \<open>expand_prompt\<close> of \<open>prompt.c\<close>: the escapes of the password prompt. A first pass computes the
  size of the result, a second one fills a buffer of that size and gives up when it is full. The
  sizes are 64-bit words, and the memory is allocated.
\<close>

section \<open>The two passes\<close>

record prompt_names =
  pn_shost :: string
  pn_host :: string
  pn_user :: string
  pn_runas :: string
  pn_auth :: string

definition prompt_escape :: "prompt_names \<Rightarrow> char \<Rightarrow> string option" where
  "prompt_escape x c =
     (if c = CHR ''h'' then Some (pn_shost x)
      else if c = CHR ''H'' then Some (pn_host x)
      else if c = CHR ''p'' then Some (pn_auth x)
      else if c = CHR ''u'' then Some (pn_user x)
      else if c = CHR ''U'' then Some (pn_runas x)
      else None)"

fun prompt_len :: "prompt_names \<Rightarrow> string \<Rightarrow> 64 word \<Rightarrow> bool \<Rightarrow> 64 word \<times> bool" where
  "prompt_len x (c # d # p) len subst =
     (if c = CHR ''%''
      then case prompt_escape x d of
             Some s \<Rightarrow> prompt_len x p (len + (of_nat (length s) - 2)) True
           | None \<Rightarrow>
               if d = CHR ''%'' then prompt_len x p (len - 1) True
               else prompt_len x (d # p) len subst
      else prompt_len x (d # p) len subst)"
| "prompt_len x _ len subst = (len, subst)"

definition prompt_char :: "char \<Rightarrow> string \<times> 64 word \<Rightarrow> (string \<times> 64 word) option" where
  \<comment> \<open>the room includes the NUL\<close>
  "prompt_char c = (\<lambda>(np, len). if len < 2 then None else Some (np @ [c], len - 1))"

definition prompt_copy :: "string \<Rightarrow> string \<times> 64 word \<Rightarrow> (string \<times> 64 word) option" where
  \<comment> \<open>\<open>strlcpy\<close>\<close>
  "prompt_copy s = (\<lambda>(np, len). if of_nat (length s) \<ge> len then None else Some (np @ s, len - of_nat (length s)))"

fun prompt_write :: "prompt_names \<Rightarrow> string \<Rightarrow> string \<times> 64 word \<Rightarrow> (string \<times> 64 word) option" where
  "prompt_write x (c # d # p) buf =
     (if c = CHR ''%''
      then case prompt_escape x d of
             Some s \<Rightarrow> Option.bind (prompt_copy s buf) (prompt_write x p)
           | None \<Rightarrow>
               if d = CHR ''%'' then Option.bind (prompt_char d buf) (prompt_write x p)
               else Option.bind (prompt_char c buf) (prompt_write x (d # p))
      else Option.bind (prompt_char c buf) (prompt_write x (d # p)))"
| "prompt_write x [c] buf = prompt_char c buf"
| "prompt_write x [] buf = Some buf"

definition expand_prompt :: "prompt_names \<Rightarrow> string \<Rightarrow> string option" where
  "expand_prompt x old_prompt =
     (let (len, subst) = prompt_len x old_prompt (of_nat (length old_prompt)) False;
          len = len + 1
      in if subst
         then (case prompt_write x old_prompt ([], len) of
                 None \<Rightarrow> None
               | Some (np, len) \<Rightarrow> if len \<noteq> 1 then None else Some np)
         else Some old_prompt)"

section \<open>What the result is\<close>

fun prompt_text :: "prompt_names \<Rightarrow> string \<Rightarrow> string" where
  "prompt_text x (c # d # p) =
     (if c = CHR ''%'' \<and> d = CHR ''%'' then d # prompt_text x p
      else if c = CHR ''%'' \<and> prompt_escape x d \<noteq> None then the (prompt_escape x d) @ prompt_text x p
      else c # prompt_text x (d # p))"
| "prompt_text x p = p"

lemma escape_percent [simp]: "prompt_escape x CHR ''%'' = None"
  by (simp add: prompt_escape_def)

lemma prompt_len_text:
  "fst (prompt_len x p len subst) = len - of_nat (length p) + of_nat (length (prompt_text x p))"
  by (induction x p len subst rule: prompt_len.induct) (auto split: option.split)

lemma prompt_len_subst: "\<not> snd (prompt_len x p len subst) \<Longrightarrow> prompt_text x p = p \<and> \<not> subst"
proof (induction x p len subst rule: prompt_len.induct)
  case (1 x c d p len subst)
  have keeps: "snd (prompt_len x q l True)" for q and l :: "64 word"
    by (induction x q l True rule: prompt_len.induct) (auto split: option.split)
  show ?case using 1 keeps by (auto split: if_splits option.splits)
qed auto

text \<open>What is written and the room that is left.\<close>

lemma prompt_char_room:
  assumes "1 < unat len"
  shows "prompt_char c (np, len) = Some (np @ [c], len - 1)" "unat (len - 1) = unat len - 1"
proof -
  have "\<not> len < 2" "1 \<le> len" using assms by (simp_all add: word_less_nat_alt word_le_nat_alt)
  then show "prompt_char c (np, len) = Some (np @ [c], len - 1)" "unat (len - 1) = unat len - 1"
    by (simp_all add: prompt_char_def unat_sub)
qed

lemma prompt_copy_room:
  assumes "length s < unat len"
  shows "prompt_copy s (np, len) = Some (np @ s, len - of_nat (length s))"
    "unat (len - of_nat (length s)) = unat len - length s"
proof -
  have n: "unat (of_nat (length s) :: 64 word) = length s" using assms by (intro le_unat_uoi [of _ len]) simp
  then show "prompt_copy s (np, len) = Some (np @ s, len - of_nat (length s))"
    using assms by (simp add: prompt_copy_def word_le_nat_alt)
  show "unat (len - of_nat (length s)) = unat len - length s"
    using assms n by (subst unat_sub) (simp_all add: word_le_nat_alt)
qed

lemma prompt_write_text:
  "unat (snd buf) = length (prompt_text x p) + 1 \<Longrightarrow> prompt_write x p buf = Some (fst buf @ prompt_text x p, 1)"
proof (induction x p buf rule: prompt_write.induct)
  case (1 x c d p buf)
  obtain np len where buf: "buf = (np, len)" by fastforce
  consider "c \<noteq> CHR ''%''" | (both) "c = CHR ''%''" "d = CHR ''%''"
    | (plain) "c = CHR ''%''" "d \<noteq> CHR ''%''" "prompt_escape x d = None"
    | s where "c = CHR ''%''" "d \<noteq> CHR ''%''" "prompt_escape x d = Some s" by fastforce
  then show ?case
  proof cases
    case 1
    then show ?thesis using "1.prems" "1.IH"(4) by (simp add: buf prompt_char_room)
  next
    case both
    then have "\<And>b. prompt_char d buf = Some b \<Longrightarrow> unat (snd b) = length (prompt_text x p) + 1 \<Longrightarrow>
        prompt_write x p b = Some (fst b @ prompt_text x p, 1)"
      using "1.IH" by simp
    then show ?thesis using both "1.prems" by (simp add: buf prompt_char_room)
  next
    case plain
    then show ?thesis using "1.prems" "1.IH"(2) by (simp add: buf prompt_char_room)
  next
    case 4
    then show ?thesis using "1.prems" "1.IH"(3) by (simp add: buf prompt_copy_room)
  qed
next
  case (2 x c buf)
  have "snd buf = 2" using 2 by (simp add: word_unat_eq_iff)
  then show ?case by (cases buf) (simp add: prompt_char_def)
next
  case (3 x buf)
  have "snd buf = 1" using 3 by (simp add: word_unat_eq_iff)
  then show ?case by (cases buf) simp
qed

text \<open>
  C39. The overflow checks never fire: the sizes the passes compute agree, although the
  first one subtracts from an unsigned number, and the result is the prompt with the escapes
  replaced.
\<close>

theorem expand_prompt_text:
  assumes "length (prompt_text x old_prompt) + 1 < 2 ^ 64"
  shows "expand_prompt x old_prompt = Some (prompt_text x old_prompt)"
proof (cases "prompt_len x old_prompt (of_nat (length old_prompt)) False")
  case (Pair len subst)
  have len: "len = of_nat (length (prompt_text x old_prompt))"
    using prompt_len_text [of x old_prompt "of_nat (length old_prompt)" False] by (simp add: Pair)
  show ?thesis
  proof (cases subst)
    case True
    have "unat (len + 1) = length (prompt_text x old_prompt) + 1"
      using assms by (simp add: len unat_word_ariths unat_of_nat)
    then show ?thesis using True prompt_write_text [of "([], len + 1)"] by (simp add: expand_prompt_def Pair)
  next
    case False
    then show ?thesis using prompt_len_subst [of x old_prompt "of_nat (length old_prompt)" False]
      by (simp add: expand_prompt_def Pair)
  qed
qed

theorem expand_prompt_text_witness:
  "expand_prompt \<lparr>pn_shost = ''box'', pn_host = ''box.org'', pn_user = ''alice'', pn_runas = ''root'', pn_auth = ''alice''\<rparr>
     ''[%u@%h as %U] 100%%: '' = Some ''[alice@box as root] 100%: ''"
  by (subst expand_prompt_text) (simp_all add: prompt_escape_def)

end
