(* ===== verification/Auth.thy ===== *)
theory Auth
  imports TimestampOps Prompt
begin

text \<open>
  Authentication methods (\<open>sudo_auth.c\<close>): the table \<open>auth_switch\<close> that is configured,
  \<open>sudo_auth_init\<close>, the tries of \<open>verify_user\<close>, approval, cleanup and the hooks of sessions.

  A method is a record with the functions of \<open>struct sudo_auth\<close>, which work on a world of their
  own (PAM, the password database, the terminal; type \<open>'w\<close>) and are parameters. A function that
  asks the user is a talk: it ends with a reply, and before that may give the lecture
  (\<open>auth_getpass\<close>) or be suspended; suspending closes the time stamp file and resuming opens and
  locks it again (\<open>getpass_suspend\<close>, \<open>getpass_resume\<close>), and the talk learns whether that worked.
  The trace lists what the code logs, audits and prints and the calls of \<open>verify\<close>, the latest first.
\<close>

section \<open>Methods\<close>

datatype auth_status = AUTH_SUCCESS | AUTH_FAILURE | AUTH_INTR | AUTH_ERROR | AUTH_NONINTERACTIVE

datatype ('a, 'w) talk =
    Reply 'a 'w
  | Lecture "('a, 'w) talk"
  | Suspended "bool \<Rightarrow> ('a, 'w) talk"

record 'w sudo_auth =
  auth_flags :: "32 word"
  auth_status_field :: auth_status
  auth_name :: string
  auth_init :: "(32 word \<Rightarrow> passwd \<Rightarrow> 'w \<Rightarrow> auth_status \<times> 'w) option"
  auth_setup :: "(32 word \<Rightarrow> passwd \<Rightarrow> string \<Rightarrow> 'w \<Rightarrow> auth_status \<times> string \<times> 'w) option"
  auth_verify :: "32 word \<Rightarrow> passwd \<Rightarrow> string \<Rightarrow> 'w \<Rightarrow> (auth_status, 'w) talk"
  auth_approval :: "(32 word \<Rightarrow> passwd \<Rightarrow> bool \<Rightarrow> 'w \<Rightarrow> auth_status \<times> 'w) option"
  auth_cleanup :: "(32 word \<Rightarrow> passwd \<Rightarrow> bool \<Rightarrow> 'w \<Rightarrow> auth_status \<times> 'w) option"
  auth_begin_session :: "(32 word \<Rightarrow> passwd \<Rightarrow> string list \<Rightarrow> 'w \<Rightarrow> auth_status \<times> string list \<times> 'w) option"
  auth_end_session :: "(32 word \<Rightarrow> 'w \<Rightarrow> auth_status \<times> 'w) option"

definition FLAG_DISABLED :: "32 word" where "FLAG_DISABLED = 0x02"
definition FLAG_STANDALONE :: "32 word" where "FLAG_STANDALONE = 0x04"
definition FLAG_ONEANDONLY :: "32 word" where "FLAG_ONEANDONLY = 0x08"
definition FLAG_NONINTERACTIVE :: "32 word" where "FLAG_NONINTERACTIVE = 0x10"

definition IS_DISABLED :: "'w sudo_auth \<Rightarrow> bool" where "IS_DISABLED a = ISSET (auth_flags a) FLAG_DISABLED"
definition IS_STANDALONE :: "'w sudo_auth \<Rightarrow> bool" where "IS_STANDALONE a = ISSET (auth_flags a) FLAG_STANDALONE"
definition IS_ONEANDONLY :: "'w sudo_auth \<Rightarrow> bool" where "IS_ONEANDONLY a = ISSET (auth_flags a) FLAG_ONEANDONLY"
definition IS_NONINTERACTIVE :: "'w sudo_auth \<Rightarrow> bool" where
  "IS_NONINTERACTIVE a = ISSET (auth_flags a) FLAG_NONINTERACTIVE"

definition set_auth :: "32 word \<Rightarrow> 'w sudo_auth \<Rightarrow> 'w sudo_auth" where
  "set_auth f a = a\<lparr>auth_flags := SET (auth_flags a) f\<rparr>"

definition MODE_LIST :: "32 word" where "MODE_LIST = 0x00000040"
definition MODE_CHECK :: "32 word" where "MODE_CHECK = 0x00000080"
definition MODE_NONINTERACTIVE :: "32 word" where "MODE_NONINTERACTIVE = 0x00800000"
definition MODE_IGNORE_TICKET :: "32 word" where "MODE_IGNORE_TICKET = 0x01000000"
definition MODE_UPDATE_TICKET :: "32 word" where "MODE_UPDATE_TICKET = 0x02000000"
definition MODE_POLICY_INTERCEPTED :: "32 word" where "MODE_POLICY_INTERCEPTED = 0x04000000"
definition FLAG_NO_USER_INPUT :: "32 word" where "FLAG_NO_USER_INPUT = 0x100"
definition FLAG_BAD_PASSWORD :: "32 word" where "FLAG_BAD_PASSWORD = 0x200"

section \<open>State\<close>

datatype lecture = never | once | always

record auth_defs =
  def_passwd_tries :: nat
  def_authenticate :: bool
  def_intercept_authenticate :: bool
  def_noninteractive_auth :: bool
  def_rootpw :: bool
  def_runaspw :: bool
  def_targetpw :: bool
  def_runas_default :: string
  def_passprompt :: string
  def_lecture :: lecture

datatype auth_event =
    Log_auth_failure "32 word" nat
  | No_auth_methods
  | Invalid_auth_methods
  | Unknown_auth_user
  | Pass_warn
  | Verify string auth_status
  | Set_lectured

text \<open>What a run is given: the process, the file system at each opening of the time stamp file and the clocks.\<close>

record 'w auth_env =
  ae_sys :: system
  ae_ctx :: ts_context
  ae_mode :: "32 word" \<comment> \<open>\<open>ctx->mode\<close>\<close>
  ae_sudo_defs :: sudo_defs
  ae_defs :: auth_defs
  ae_ts_defs :: ts_defs
  ae_shost :: string
  ae_host :: string
  ae_prompt :: "string option" \<comment> \<open>\<open>ctx->user.prompt\<close>\<close>
  ae_lectured :: bool \<comment> \<open>\<open>already_lectured\<close>\<close>
  ae_dir :: "nat \<Rightarrow> ts_directory"
  ae_mtime :: "nat \<Rightarrow> timespec"
  ae_io :: "nat \<Rightarrow> ts_io"
  ae_starttime :: "32 word \<Rightarrow> timespec option"
  ae_now :: "timespec option" \<comment> \<open>for \<open>timestamp_status\<close>\<close>
  ae_later :: "timespec option" \<comment> \<open>for \<open>timestamp_update\<close>\<close>
  ae_interrupted :: "'w \<Rightarrow> bool" \<comment> \<open>\<open>SIGINT\<close> or \<open>SIGQUIT\<close> is pending\<close>
  ae_getpass :: "string \<Rightarrow> 'w \<Rightarrow> (string option, 'w) talk" \<comment> \<open>\<open>sudo_conv\<close>\<close>

record 'w auth_state =
  st_methods :: "'w sudo_auth list"
  st_standalone :: bool
  st_world :: 'w
  st_blocked :: bool \<comment> \<open>\<open>SIGINT\<close>, \<open>SIGQUIT\<close> and the disposition of \<open>SIGTSTP\<close> are not as before\<close>
  st_lectured :: bool
  st_file :: "bytes option" \<comment> \<open>the time stamp file, while it is not open\<close>
  st_cookie :: "(ts_cookie \<times> ts_fd) option"
  st_opens :: nat
  st_trace :: "auth_event list"

definition auth_log :: "auth_event \<Rightarrow> 'w auth_state \<Rightarrow> 'w auth_state" where
  "auth_log e st = st\<lparr>st_trace := e # st_trace st\<rparr>"

section \<open>The time stamp file of a run\<close>

definition close_cookie :: "'w auth_state \<Rightarrow> 'w auth_state" where
  \<comment> \<open>\<open>timestamp_close\<close>, and the cookie is forgotten\<close>
  "close_cookie st =
     (case st_cookie st of None \<Rightarrow> st
      | Some (cookie, fd) \<Rightarrow> st\<lparr>st_cookie := None, st_file := Some (fd_data fd)\<rparr>)"

definition open_cookie :: "'w auth_env \<Rightarrow> 'w auth_state \<Rightarrow> bool \<times> 'w auth_state" where
  "open_cookie env st =
     (let n = st_opens st;
          (vcookie, f) = timestamp_open (ae_dir env n) (ae_ts_defs env)
             (map_option (\<lambda>d. \<lparr>f_data = d, f_mtime = ae_mtime env n\<rparr>) (st_file st))
      in (vcookie \<noteq> None, st\<lparr>st_cookie := vcookie, st_file := map_option f_data f, st_opens := n + 1\<rparr>))"

definition lock_cookie :: "'w auth_env \<Rightarrow> passwd \<Rightarrow> 'w auth_state \<Rightarrow> bool \<times> 'w auth_state" where
  "lock_cookie env pw st =
     (case st_cookie st of None \<Rightarrow> (False, st)
      | Some v \<Rightarrow>
          let (ok, v) = timestamp_lock (ae_io env (st_opens st)) (ae_starttime env) (ae_ts_defs env) (ae_ctx env) pw v
          in (ok, st\<lparr>st_cookie := Some v\<rparr>))"

definition getpass_suspend :: "'w auth_state \<Rightarrow> 'w auth_state" where
  "getpass_suspend st = close_cookie st"

definition getpass_resume :: "'w auth_env \<Rightarrow> passwd \<Rightarrow> 'w auth_state \<Rightarrow> bool \<times> 'w auth_state" where
  "getpass_resume env pw st =
     (let (ok, st) = open_cookie env st in if \<not> ok then (False, st) else lock_cookie env pw st)"

definition display_lecture :: "'w auth_env \<Rightarrow> 'w auth_state \<Rightarrow> 'w auth_state" where
  \<comment> \<open>without the text\<close>
  "display_lecture env st =
     (if st_lectured st then st
      else if def_lecture (ae_defs env) = never \<or> def_lecture (ae_defs env) = once \<and> ae_lectured env then st
      else st\<lparr>st_lectured := True\<rparr>)"

primrec run_talk :: "'w auth_env \<Rightarrow> passwd \<Rightarrow> ('a, 'w) talk \<Rightarrow> 'w auth_state \<Rightarrow> 'a \<times> 'w auth_state" where
  "run_talk env pw (Reply a w) = (\<lambda>st. (a, st\<lparr>st_world := w\<rparr>))"
| "run_talk env pw (Lecture t) = (\<lambda>st. run_talk env pw t (display_lecture env st))"
| "run_talk env pw (Suspended k) = (\<lambda>st.
     let (ok, st) = getpass_resume env pw (getpass_suspend st) in run_talk env pw (k ok) st)"

section \<open>Initialisation\<close>

fun init_methods :: "32 word \<Rightarrow> passwd \<Rightarrow> 'w sudo_auth list \<Rightarrow> 'w \<Rightarrow> bool \<times> 'w sudo_auth list \<times> 'w" where
  "init_methods mode pw [] w = (True, [], w)"
| "init_methods mode pw (a # auths) w =
     (let a = (if ISSET mode MODE_NONINTERACTIVE then set_auth FLAG_NONINTERACTIVE a else a);
          (r, w) = (case auth_init a of
                      None \<Rightarrow> (AUTH_SUCCESS, w)
                    | Some f \<Rightarrow> if IS_DISABLED a then (AUTH_SUCCESS, w) else f (auth_flags a) pw w)
      in if r = AUTH_SUCCESS \<or> r = AUTH_FAILURE
         then let a = (if r = AUTH_FAILURE then set_auth FLAG_DISABLED a else a);
                  (ok, auths, w) = init_methods mode pw auths w
              in (ok, a # auths, w)
         else (False, a # auths, w))"

fun first_standalone :: "bool \<Rightarrow> 'w sudo_auth list \<Rightarrow> bool \<times> 'w sudo_auth list" where
  \<comment> \<open>all standalone methods but the first are disabled; False when one is not standalone\<close>
  "first_standalone found [] = (True, [])"
| "first_standalone found (a # auths) =
     (if IS_DISABLED a then map_prod id ((#) a) (first_standalone found auths)
      else if \<not> IS_STANDALONE a then (False, a # auths)
      else if \<not> found then map_prod id ((#) a) (first_standalone True auths)
      else map_prod id ((#) (set_auth FLAG_DISABLED a)) (first_standalone found auths))"

fun mark_only :: "'w sudo_auth list \<Rightarrow> 'w sudo_auth list" where
  \<comment> \<open>the search for others begins with the first enabled method itself\<close>
  "mark_only [] = []"
| "mark_only (a # auths) =
     (if IS_DISABLED a then a # mark_only auths
      else if list_all IS_DISABLED (a # auths) then set_auth FLAG_ONEANDONLY a # auths
      else a # auths)"

definition sudo_auth_init :: "32 word \<Rightarrow> passwd \<Rightarrow> 'w auth_state \<Rightarrow> auth_status \<times> 'w auth_state" where
  "sudo_auth_init mode pw st =
     (if length (st_methods st) = 0 then (AUTH_SUCCESS, st)
      else let (ok, auths, w) = init_methods mode pw (st_methods st) (st_world st);
               st = st\<lparr>st_methods := auths, st_world := w\<rparr>
           in if \<not> ok then (AUTH_ERROR, st)
              else let standalone = IS_STANDALONE (hd auths);
                       (ok, auths) = (if standalone then first_standalone False auths else (True, auths));
                       st = st\<lparr>st_standalone := standalone, st_methods := auths\<rparr>
                   in if \<not> ok then (AUTH_ERROR, auth_log Invalid_auth_methods st)
                      else (AUTH_SUCCESS, st\<lparr>st_methods := mark_only auths\<rparr>))"

section \<open>Verification\<close>

definition auth_getpass :: "'w auth_env \<Rightarrow> passwd \<Rightarrow> string \<Rightarrow> 'w auth_state \<Rightarrow> string option \<times> 'w auth_state" where
  "auth_getpass env pw prompt st = run_talk env pw (Lecture (ae_getpass env prompt (st_world st))) st"

datatype setup_result = Setup_done | Setup_quit auth_status

fun setup_methods :: "'w auth_env \<Rightarrow> passwd \<Rightarrow> 'w sudo_auth list \<Rightarrow> string \<Rightarrow> 'w \<Rightarrow>
    setup_result \<times> nat \<times> 'w sudo_auth list \<times> string \<times> 'w" where
  \<comment> \<open>with the number of methods; quitting has the status that \<open>ret\<close> has then\<close>
  "setup_methods env pw [] prompt w = (Setup_done, 0, [], prompt, w)"
| "setup_methods env pw (a # auths) prompt w =
     (let next = (\<lambda>a n prompt w. let (r, m, auths, prompt, w) = setup_methods env pw auths prompt w
                                 in (r, m + n, a # auths, prompt, w))
      in if IS_DISABLED a then next a 0 prompt w
         else case auth_setup a of None \<Rightarrow> next a 1 prompt w
         | Some f \<Rightarrow>
             (case f (auth_flags a) pw prompt w of
                (AUTH_SUCCESS, prompt, w) \<Rightarrow>
                  if ae_interrupted env w then (Setup_quit AUTH_FAILURE, 1, a # auths, prompt, w)
                  else next a 1 prompt w
              | (AUTH_FAILURE, prompt, w) \<Rightarrow> next (set_auth FLAG_DISABLED a) 1 prompt w
              | (AUTH_NONINTERACTIVE, prompt, w) \<Rightarrow> (Setup_quit AUTH_FAILURE, 1, a # auths, prompt, w)
              | (_, prompt, w) \<Rightarrow> (Setup_quit AUTH_ERROR, 1, a # auths, prompt, w)))"

fun verify_methods :: "'w auth_env \<Rightarrow> passwd \<Rightarrow> string \<Rightarrow> 'w sudo_auth list \<Rightarrow> 'w auth_state \<Rightarrow>
    auth_status \<times> 'w sudo_auth list \<times> 'w auth_state" where
  "verify_methods env pw p [] st = (AUTH_FAILURE, [], st)"
| "verify_methods env pw p (a # auths) st =
     (if IS_DISABLED a
      then let (ret, auths, st) = verify_methods env pw p auths st in (ret, a # auths, st)
      else let (ret, st) = run_talk env pw (auth_verify a (auth_flags a) pw p (st_world st)) st;
               a = a\<lparr>auth_status_field := ret\<rparr>;
               st = auth_log (Verify (auth_name a) ret) st
           in if ret \<noteq> AUTH_FAILURE then (ret, a # auths, st)
              else let (ret, auths, st) = verify_methods env pw p auths st in (ret, a # auths, st))"

text \<open>One try: go on, leave the loop with a status, or return at once.\<close>

datatype try_result = Try_again | Try_done auth_status | Try_return

definition try_password :: "'w auth_env \<Rightarrow> passwd \<Rightarrow> string \<Rightarrow> 'w auth_state \<Rightarrow> try_result \<times> 'w auth_state" where
  "try_password env pw prompt st =
     (case (if st_standalone st then (Some prompt, st) else auth_getpass env pw prompt st) of
        (None, st) \<Rightarrow> (Try_done AUTH_FAILURE, st)
      | (Some p, st) \<Rightarrow>
          let (ret, auths, st) = verify_methods env pw p (st_methods st) st
          in (if ret \<noteq> AUTH_FAILURE then Try_done ret else Try_again, st\<lparr>st_methods := auths\<rparr>))"

definition verify_round :: "'w auth_env \<Rightarrow> passwd \<Rightarrow> string \<Rightarrow> 'w auth_state \<Rightarrow> try_result \<times> string \<times> 'w auth_state" where
  "verify_round env pw prompt st =
     (let (r, num_methods, auths, prompt, w) = setup_methods env pw (st_methods st) prompt (st_world st);
          st = st\<lparr>st_methods := auths, st_world := w\<rparr>
      in case r of Setup_quit ret \<Rightarrow> (Try_done ret, prompt, st)
         | Setup_done \<Rightarrow>
             if num_methods = 0 then (Try_return, prompt, auth_log No_auth_methods st)
             else if \<not> st_standalone st \<and> IS_NONINTERACTIVE (hd (st_methods st))
             then (Try_done AUTH_NONINTERACTIVE, prompt, st)
             else let (r, st) = try_password env pw prompt st in (r, prompt, st))"

definition verify_try :: "'w auth_env \<Rightarrow> passwd \<Rightarrow> nat \<Rightarrow> string \<Rightarrow> 'w auth_state \<Rightarrow> try_result \<times> string \<times> 'w auth_state" where
  "verify_try env pw ntries prompt st =
     (if ae_interrupted env (st_world st) then (Try_done AUTH_FAILURE, prompt, st)
      else verify_round env pw prompt (if ntries \<noteq> 0 then auth_log Pass_warn st else st))"

definition verify_done :: "32 word \<Rightarrow> nat \<Rightarrow> auth_status \<Rightarrow> 'w auth_state \<Rightarrow> auth_status \<times> 'w auth_state" where
  "verify_done validated ntries ret st =
     (let st = st\<lparr>st_blocked := False\<rparr> in
      case ret of
        AUTH_SUCCESS \<Rightarrow> (AUTH_SUCCESS, st)
      | AUTH_INTR \<Rightarrow> (AUTH_FAILURE, auth_log (Log_auth_failure (if ntries \<noteq> 0 then SET validated FLAG_BAD_PASSWORD else validated) ntries) st)
      | AUTH_FAILURE \<Rightarrow> (AUTH_FAILURE, auth_log (Log_auth_failure (if ntries \<noteq> 0 then SET validated FLAG_BAD_PASSWORD else validated) ntries) st)
      | AUTH_NONINTERACTIVE \<Rightarrow> (AUTH_ERROR, auth_log (Log_auth_failure (SET validated FLAG_NO_USER_INPUT) 0) st)
      | AUTH_ERROR \<Rightarrow> (AUTH_ERROR, auth_log (Log_auth_failure validated 0) st))"

primrec verify_loop :: "'w auth_env \<Rightarrow> passwd \<Rightarrow> 32 word \<Rightarrow> nat \<Rightarrow> nat \<Rightarrow> string \<Rightarrow> 'w auth_state \<Rightarrow> auth_status \<times> 'w auth_state" where
  \<comment> \<open>the tries that are left, and those made\<close>
  "verify_loop env pw validated 0 ntries = (\<lambda>prompt st. verify_done validated ntries AUTH_FAILURE st)"
| "verify_loop env pw validated (Suc left) ntries = (\<lambda>prompt st.
     case verify_try env pw ntries prompt st of
       (Try_again, prompt, st) \<Rightarrow> verify_loop env pw validated left (Suc ntries) prompt st
     | (Try_done ret, prompt, st) \<Rightarrow> verify_done validated ntries ret st
     | (Try_return, prompt, st) \<Rightarrow> (AUTH_ERROR, st))"

definition verify_user :: "'w auth_env \<Rightarrow> passwd \<Rightarrow> string \<Rightarrow> 32 word \<Rightarrow> 'w auth_state \<Rightarrow> auth_status \<times> 'w auth_state" where
  "verify_user env pw prompt validated st =
     (if length (st_methods st) = 0 then (AUTH_ERROR, auth_log No_auth_methods st)
      else verify_loop env pw validated (def_passwd_tries (ae_defs env)) 0 prompt (st\<lparr>st_blocked := True\<rparr>))"

section \<open>Approval, cleanup and sessions\<close>

fun approve_methods :: "passwd \<Rightarrow> bool \<Rightarrow> 'w sudo_auth list \<Rightarrow> 'w \<Rightarrow> auth_status \<times> 'w" where
  "approve_methods pw exempt [] w = (AUTH_SUCCESS, w)"
| "approve_methods pw exempt (a # auths) w =
     (case auth_approval a of
        None \<Rightarrow> approve_methods pw exempt auths w
      | Some f \<Rightarrow>
          if IS_DISABLED a then approve_methods pw exempt auths w
          else let (ret, w) = f (auth_flags a) pw exempt w
               in if ret \<noteq> AUTH_SUCCESS then (ret, w) else approve_methods pw exempt auths w)"

definition sudo_auth_approval :: "passwd \<Rightarrow> 32 word \<Rightarrow> bool \<Rightarrow> 'w auth_state \<Rightarrow> auth_status \<times> 'w auth_state" where
  "sudo_auth_approval pw validated exempt st =
     (let (ret, w) = approve_methods pw exempt (st_methods st) (st_world st); st = st\<lparr>st_world := w\<rparr>
      in (ret, if ret \<noteq> AUTH_SUCCESS then auth_log (Log_auth_failure validated 0) st else st))"

fun cleanup_methods :: "passwd \<Rightarrow> bool \<Rightarrow> 'w sudo_auth list \<Rightarrow> 'w \<Rightarrow> auth_status \<times> 'w" where
  "cleanup_methods pw force [] w = (AUTH_SUCCESS, w)"
| "cleanup_methods pw force (a # auths) w =
     (case auth_cleanup a of
        None \<Rightarrow> cleanup_methods pw force auths w
      | Some f \<Rightarrow>
          if IS_DISABLED a then cleanup_methods pw force auths w
          else let (ret, w) = f (auth_flags a) pw force w
               in if ret \<noteq> AUTH_SUCCESS then (AUTH_ERROR, w) else cleanup_methods pw force auths w)"

definition sudo_auth_cleanup :: "passwd \<Rightarrow> bool \<Rightarrow> 'w auth_state \<Rightarrow> auth_status \<times> 'w auth_state" where
  "sudo_auth_cleanup pw force st =
     map_prod id (\<lambda>w. st\<lparr>st_world := w\<rparr>) (cleanup_methods pw force (st_methods st) (st_world st))"

datatype session_result = Session_ok | Session_failed | Session_error \<comment> \<open>true, false, -1\<close>

definition session_status :: "session_result \<Rightarrow> auth_status \<Rightarrow> session_result" where
  "session_status ret status =
     (case status of AUTH_SUCCESS \<Rightarrow> ret | AUTH_FAILURE \<Rightarrow> Session_failed | _ \<Rightarrow> Session_error)"

fun begin_methods :: "passwd \<Rightarrow> 'w sudo_auth list \<Rightarrow> session_result \<Rightarrow> string list \<Rightarrow> 'w \<Rightarrow> session_result \<times> string list \<times> 'w" where
  "begin_methods pw [] ret user_env w = (ret, user_env, w)"
| "begin_methods pw (a # auths) ret user_env w =
     (case auth_begin_session a of
        None \<Rightarrow> begin_methods pw auths ret user_env w
      | Some f \<Rightarrow>
          if IS_DISABLED a then begin_methods pw auths ret user_env w
          else let (status, user_env, w) = f (auth_flags a) pw user_env w
               in begin_methods pw auths (session_status ret status) user_env w)"

definition sudo_auth_begin_session :: "passwd \<Rightarrow> string list \<Rightarrow> 'w auth_state \<Rightarrow> session_result \<times> string list \<times> 'w auth_state" where
  "sudo_auth_begin_session pw user_env st =
     (let (ret, user_env, w) = begin_methods pw (st_methods st) Session_ok user_env (st_world st)
      in (ret, user_env, st\<lparr>st_world := w\<rparr>))"

definition sudo_auth_needs_end_session :: "'w auth_state \<Rightarrow> bool" where
  "sudo_auth_needs_end_session st \<longleftrightarrow> (\<exists>a \<in> set (st_methods st). \<not> Option.is_none (auth_end_session a) \<and> \<not> IS_DISABLED a)"

fun end_methods :: "'w sudo_auth list \<Rightarrow> session_result \<Rightarrow> 'w \<Rightarrow> session_result \<times> 'w" where
  "end_methods [] ret w = (ret, w)"
| "end_methods (a # auths) ret w =
     (case auth_end_session a of
        None \<Rightarrow> end_methods auths ret w
      | Some f \<Rightarrow>
          if IS_DISABLED a then end_methods auths ret w
          else let (status, w) = f (auth_flags a) w in end_methods auths (session_status ret status) w)"

definition sudo_auth_end_session :: "'w auth_state \<Rightarrow> session_result \<times> 'w auth_state" where
  "sudo_auth_end_session st =
     map_prod id (\<lambda>w. st\<lparr>st_world := w\<rparr>) (end_methods (st_methods st) Session_ok (st_world st))"

end
