(* ===== verification/EnvPattern.thy ===== *)
theory EnvPattern
  imports Prelude
begin

text \<open>
  Matching an environment variable against a pattern of env_delete, env_check or env_keep
  (\<open>plugins/sudoers/env_pattern.c\<close>), and what such a match says about the variable.

  \<open>cp\<close> is what is left of the pattern and \<open>len\<close> the index into the variable.
\<close>

section \<open>The code\<close>

definition str_at :: "string \<Rightarrow> nat \<Rightarrow> char" where
  \<comment> \<open>\<open>s[i]\<close> for an index up to the end of the string\<close>
  "str_at s i = (if i < length s then s ! i else NUL)"

text \<open>\<open>while ((saw_sep || len != sep_pos) && var[len] != '\0' && var[len] != *cp) len++\<close>\<close>

function env_seek :: "string \<Rightarrow> nat \<Rightarrow> bool \<Rightarrow> char \<Rightarrow> nat \<Rightarrow> nat" where
  "env_seek var sep_pos saw_sep c len =
     (if (saw_sep \<or> len \<noteq> sep_pos) \<and> str_at var len \<noteq> NUL \<and> str_at var len \<noteq> c
      then env_seek var sep_pos saw_sep c (len + 1) else len)"
  by pat_completeness auto

termination env_seek
  by (relation "measure (\<lambda>(var, sep_pos, saw_sep, c, len). length var - len)")
    (auto simp: str_at_def split: if_splits)

declare env_seek.simps [simp del]

text \<open>
  The loop over the rest of the pattern: whether a final \<open>*\<close> matched, what is left of the
  pattern and the index.
\<close>

function env_wild :: "string \<Rightarrow> nat \<Rightarrow> bool \<Rightarrow> string \<Rightarrow> nat \<Rightarrow> bool \<times> string \<times> nat" where
  "env_wild var sep_pos saw_sep [] len = (False, [], len)"
| "env_wild var sep_pos saw_sep (p # ps) len =
     (if p = CHR ''*''
      then (case dropWhile (\<lambda>c. c = CHR ''*'') ps of
              [] \<Rightarrow> (True, [], len)
            | q # qs \<Rightarrow>
                (let saw_sep = (saw_sep \<or> q = CHR ''='');
                     len = env_seek var sep_pos saw_sep q len
                 in if str_at var len \<noteq> q then (False, q # qs, len)
                    else env_wild var sep_pos saw_sep qs (len + 1)))
      else if str_at var len \<noteq> p then (False, p # ps, len)
      else env_wild var sep_pos saw_sep ps (len + 1))"
  by pat_completeness auto

termination env_wild
proof (relation "measure (\<lambda>(var, sep_pos, saw_sep, cp, len). length cp)", goal_cases)
  case (2 var sep_pos saw_sep p ps len q qs)
  then show ?case using length_dropWhile_le [of "\<lambda>c. c = CHR ''*''" ps] by simp
qed auto

definition matches_env_pattern :: "string \<Rightarrow> string \<Rightarrow> bool \<Rightarrow> bool \<times> bool" where
  \<comment> \<open>the result, and \<open>*full_match\<close> given what it was\<close>
  "matches_env_pattern pattern var full_match =
     (let sep_pos = strcspn1 var (CHR ''='');
          lit = takeWhile (\<lambda>c. c \<noteq> CHR ''*'') pattern;
          cp = drop (length lit) pattern;
          (matched, len) =
            (if cp \<noteq> []
             then if strncmp_eq pattern var (length lit)
                  then let (m, rest, len) = env_wild var sep_pos False cp (length lit)
                       in (m \<or> rest = [] \<and> (len = sep_pos \<or> str_at var len = NUL), len)
                  else (False, length lit)
             else (strncmp_eq pattern var (length lit) \<and>
                     (length lit = sep_pos \<or> str_at var (length lit) = NUL), length lit))
      in (matched, if matched then len > sep_pos + 1 else full_match))"

section \<open>What a match says\<close>

lemma env_seek_bounds: "len \<le> length var \<Longrightarrow> env_seek var sp saw c len \<le> length var"
  by (induction var sp saw c len rule: env_seek.induct)
    (subst env_seek.simps, auto simp: str_at_def split: if_splits)

lemma env_seek_ge: "len \<le> env_seek var sp saw c len"
  by (induction var sp saw c len rule: env_seek.induct) (subst env_seek.simps, auto)

lemma env_seek_stop: "\<not> saw \<Longrightarrow> len \<le> sp \<Longrightarrow> env_seek var sp saw c len \<le> sp"
  by (induction var sp saw c len rule: env_seek.induct) (subst env_seek.simps, auto)

end
