(* ===== verification/Parseln.thy ===== *)
theory Parseln
  imports Sudoers
begin

text \<open>
  Reading lines of configuration files: \<open>sudo_parseln\<close> of \<open>lib/util/parseln.c\<close>.

  A stream is what is left to read of a file, and whether reading then fails instead of
  reporting the end of file. \<open>getdelim\<close> gives the bytes up to and including the next newline.
  The buffer the caller passes in and out is the line; its allocation succeeds.
\<close>

record stream =
  rest :: string
  read_fails :: bool

definition PARSELN_COMM_BOL :: "32 word" where "PARSELN_COMM_BOL = 0x01"

definition PARSELN_CONT_IGN :: "32 word" where "PARSELN_CONT_IGN = 0x02"

definition c_isblank :: "char \<Rightarrow> bool" where
  [ctype_simps]: "c_isblank c \<longleftrightarrow> code c = 32 \<or> code c = 9"

definition newline :: char where "newline = CHR 0x0A"

definition is_eol :: "char \<Rightarrow> bool" where
  "is_eol c \<longleftrightarrow> c = newline \<or> c = CHR 0x0D"

definition rstrip :: "(char \<Rightarrow> bool) \<Rightarrow> string \<Rightarrow> string" where
  \<comment> \<open>\<open>while (len > 0 && P(line[len - 1])) line[--len] = '\0'\<close>\<close>
  "rstrip P line = rev (dropWhile P (rev line))"

definition getdelim :: "string \<Rightarrow> (string \<times> string) option" where
  "getdelim s =
     (if s = [] then None
      else let line = takeWhile (\<lambda>c. c \<noteq> newline) s;
               r = drop (length line) s
           in Some (line @ take 1 r, drop 1 r))"

text \<open>One line: what is added to the buffer and whether the line goes on.\<close>

definition parse_one :: "32 word \<Rightarrow> string \<Rightarrow> string \<times> bool" where
  "parse_one flags line =
     (let line = rstrip is_eol line;
          (line, comment) =
            (case strchr line (CHR ''#'') of
               Some cp \<Rightarrow> if length cp = length line \<or> \<not> ISSET flags PARSELN_COMM_BOL
                          then (take (length line - length cp) line, True) else (line, False)
             | None \<Rightarrow> (line, False));
          continued = (\<not> comment \<and> \<not> ISSET flags PARSELN_CONT_IGN \<and> line \<noteq> [] \<and>
                       last line = CHR 0x5C \<and> (length line = 1 \<or> last (butlast line) \<noteq> CHR 0x5C));
          line = (if continued then butlast line else rstrip c_isblank line)
      in (dropWhile c_isblank line, continued))"

text \<open>
  The line (None for -1), the line number and what is left of the stream. The end of the file
  after a continued line ends that line.
\<close>

function parseln_loop :: "32 word \<Rightarrow> string \<Rightarrow> nat \<Rightarrow> string \<Rightarrow> string option \<times> nat \<times> string" where
  "parseln_loop flags buf lineno s =
     (case getdelim s of
        None \<Rightarrow> (if buf = [] then None else Some buf, lineno, s)
      | Some (line, s') \<Rightarrow>
          let (added, continued) = parse_one flags line in
          if continued then parseln_loop flags (buf @ added) (lineno + 1) s'
          else (Some (buf @ added), lineno + 1, s'))"
  by pat_completeness auto

lemma getdelim_shorter: "getdelim s = Some (line, s') \<Longrightarrow> length s' < length s"
proof -
  assume a: "getdelim s = Some (line, s')"
  have "length (takeWhile (\<lambda>c. c \<noteq> newline) s) \<le> length s" by (rule length_takeWhile_le)
  then show ?thesis using a by (auto simp: getdelim_def Let_def split: if_splits)
qed

termination parseln_loop
  by (relation "measure (\<lambda>(flags, buf, lineno, s). length s)") (auto dest: getdelim_shorter)

declare parseln_loop.simps [simp del]

definition sudo_parseln :: "32 word \<Rightarrow> nat \<Rightarrow> stream \<Rightarrow> string option \<times> nat \<times> stream" where
  "sudo_parseln flags lineno fp =
     (let (line, lineno, s) = parseln_loop flags [] lineno (rest fp)
      in (line, lineno, fp\<lparr>rest := s\<rparr>))"

lemma parseln_loop_length:
  "parseln_loop flags buf n s = (line, n', s') \<Longrightarrow> s = [] \<and> s' = [] \<or> length s' < length s"
proof (induction flags buf n s arbitrary: line n' s' rule: parseln_loop.induct)
  case (1 flags buf n s)
  show ?case
  proof (cases "getdelim s")
    case None
    then show ?thesis using 1(2) by (auto simp: parseln_loop.simps [of _ _ _ s] getdelim_def Let_def split: if_splits)
  next
    case (Some p)
    obtain l r where p: "p = (l, r)" by force
    obtain a c where o: "parse_one flags l = (a, c)" by force
    note sh = getdelim_shorter [OF Some [unfolded p]]
    show ?thesis
    proof (cases c)
      case True
      then have "parseln_loop flags (buf @ a) (n + 1) r = (line, n', s')"
        using 1(2) Some p o by (subst (asm) parseln_loop.simps) simp
      from 1(1) [OF Some p [symmetric] o [symmetric] refl True this]
      show ?thesis using sh by auto
    next
      case False
      then have "s' = r" using 1(2) Some p o by (subst (asm) parseln_loop.simps) simp
      then show ?thesis using sh by simp
    qed
  qed
qed

lemma sudo_parseln_shorter:
  "sudo_parseln flags n fp = (Some line, n', fp') \<Longrightarrow> length (rest fp') < length (rest fp)"
proof (cases "rest fp")
  case Nil
  assume "sudo_parseln flags n fp = (Some line, n', fp')"
  then show ?thesis using Nil by (simp add: sudo_parseln_def parseln_loop.simps [of _ _ _ "[]"] getdelim_def)
next
  case Cons
  assume "sudo_parseln flags n fp = (Some line, n', fp')"
  then show ?thesis using Cons by (auto simp: sudo_parseln_def split: prod.splits dest!: parseln_loop_length)
qed

end
