(* ===== verification/Env.thy ===== *)
theory Env
  imports Files EnvPattern Parseln
begin

text \<open>
  The environment of the command to run (\<open>plugins/sudoers/env.c\<close>, \<open>sudoers_hooks.c\<close>).

  \<open>environment\<close> is the static \<open>struct environment env\<close>: an array is the list of its entries before
  the terminating NULL, or None for a NULL pointer. Sizes are naturals below \<open>SIZE_MAX\<close>, tested
  where the code does. A run ends with a result, fails with the state reached (the code's -1 or
  \<open>goto bad\<close>), or faults where the code would leave its array. Memory can be allocated.

  The configuration has neither \<open>_AIX\<close>, \<open>HAVE_KERB5\<close>, \<open>HAVE_SECURID\<close> nor \<open>ENV_DEBUG\<close>. What the
  system provides is in \<open>env_system\<close>: the compiled-in paths, the \<open>setenv(3)\<close> calls of
  \<open>setusercontext(3)\<close> for a login class (none when the class is unknown), and the files.
\<close>

section \<open>State\<close>

datatype 'a run = Faulted | Failed 'a | Done 'a

fun run_bind :: "'a run \<Rightarrow> ('a \<Rightarrow> 'b run) \<Rightarrow> ('a \<Rightarrow> 'b) \<Rightarrow> 'b run" where
  \<comment> \<open>go on after a success; the last argument says what remains of a failure\<close>
  "run_bind (Done a) f g = f a"
| "run_bind (Failed a) f g = Failed (g a)"
| "run_bind Faulted f g = Faulted"

record environment =
  envp :: "string list option"
  old_envp :: "string list option"
  env_size :: nat
  env_len :: nat

definition env_free :: environment where
  "env_free = \<lparr>envp = None, old_envp = None, env_size = 0, env_len = 0\<rparr>"

record env_defs =
  def_env_reset :: bool
  def_env_check :: "string list"
  def_env_delete :: "string list"
  def_env_keep :: "string list"
  def_always_set_home :: bool
  def_set_home :: bool
  def_set_logname :: bool
  def_env_file :: "string option"
  def_restricted_env_file :: "string option"

record env_context =
  env_sudo :: sudo_context
  env_mode :: "32 word"
  user_ttypath :: "string option"
  user_env_add :: "string list option"
  runas_class :: "string option"

datatype env_file = ENOENT_file | Env_file stream

record env_system =
  path_zoneinfo :: "string option"
  path_maildir :: string
  path_stdpath :: string
  path_environment :: "string option"
  class_setenv :: "string \<Rightarrow> passwd \<Rightarrow> (string \<times> string \<times> bool) list"
  env_fopen :: "string \<Rightarrow> env_file option"

section \<open>Flags\<close>

definition MODE_RUN :: "32 word" where "MODE_RUN = 0x00000001"
definition MODE_EDIT :: "32 word" where "MODE_EDIT = 0x00000002"
definition MODE_SHELL :: "32 word" where "MODE_SHELL = 0x00020000"
definition MODE_LOGIN_SHELL :: "32 word" where "MODE_LOGIN_SHELL = 0x00040000"
definition MODE_RESET_HOME :: "32 word" where "MODE_RESET_HOME = 0x00100000"
definition MODE_PRESERVE_ENV :: "32 word" where "MODE_PRESERVE_ENV = 0x00400000"

definition DID_TERM :: "32 word" where "DID_TERM = 0x00000001"
definition DID_PATH :: "32 word" where "DID_PATH = 0x00000002"
definition DID_HOME :: "32 word" where "DID_HOME = 0x00000004"
definition DID_SHELL :: "32 word" where "DID_SHELL = 0x00000008"
definition DID_LOGNAME :: "32 word" where "DID_LOGNAME = 0x00000010"
definition DID_USER :: "32 word" where "DID_USER = 0x00000020"
definition DID_MAIL :: "32 word" where "DID_MAIL = 0x00000080"
definition KEPT_HOME :: "32 word" where "KEPT_HOME = 0x00040000"
definition KEPT_LOGNAME :: "32 word" where "KEPT_LOGNAME = 0x00100000"
definition KEPT_USER :: "32 word" where "KEPT_USER = 0x00200000"
definition KEPT_MAIL :: "32 word" where "KEPT_MAIL = 0x00800000"
definition KEPT_USER_VARIABLES :: "32 word" where "KEPT_USER_VARIABLES = or KEPT_LOGNAME KEPT_USER"

section \<open>Tables\<close>

definition initial_badenv_table :: "string list" where
  "initial_badenv_table =
     [''IFS'', ''CDPATH'', ''LOCALDOMAIN'', ''RES_OPTIONS'', ''HOSTALIASES'', ''NLSPATH'', ''PATH_LOCALE'',
      ''LD_*'', ''_RLD*'', ''TERMINFO'', ''TERMINFO_DIRS'', ''TERMPATH'', ''TERMCAP'', ''ENV'', ''BASH_ENV'',
      ''PS4'', ''GLOBIGNORE'', ''BASHOPTS'', ''SHELLOPTS'', ''JAVA_TOOL_OPTIONS'', ''PERLIO_DEBUG'',
      ''PERLLIB'', ''PERL5LIB'', ''PERL5OPT'', ''PERL5DB'', ''FPATH'', ''NULLCMD'', ''READNULLCMD'',
      ''ZDOTDIR'', ''TMPPREFIX'', ''PYTHONHOME'', ''PYTHONPATH'', ''PYTHONINSPECT'', ''PYTHONUSERBASE'',
      ''RUBYLIB'', ''RUBYOPT'', ''*=()*'']"

definition initial_checkenv_table :: "string list" where
  "initial_checkenv_table = [''COLORTERM'', ''LANG'', ''LANGUAGE'', ''LC_*'', ''LINGUAS'', ''TERM'', ''TZ'']"

definition initial_keepenv_table :: "string list" where
  "initial_keepenv_table =
     [''COLORS'', ''DISPLAY'', ''HOSTNAME'', ''KRB5CCNAME'', ''LS_COLORS'', ''PATH'', ''PS1'', ''PS2'',
      ''XAUTHORITY'', ''XAUTHORIZATION'', ''XDG_CURRENT_DESKTOP'']"

definition init_envtables :: "env_defs \<Rightarrow> env_defs" where
  \<comment> \<open>each entry goes to the head of its list\<close>
  "init_envtables df =
     df\<lparr>def_env_delete := rev initial_badenv_table @ def_env_delete df,
        def_env_check := rev initial_checkenv_table @ def_env_check df,
        def_env_keep := rev initial_keepenv_table @ def_env_keep df\<rparr>"

section \<open>The environment array\<close>

definition SIZE_MAX :: nat where "SIZE_MAX = 2 ^ 64 - 1"

definition env_init :: "string list option \<Rightarrow> environment \<Rightarrow> environment" where
  "env_init ep env =
     (case ep of
        None \<Rightarrow> env\<lparr>old_envp := envp env, envp := None, env_size := 0, env_len := 0\<rparr>
      | Some e \<Rightarrow> env\<lparr>env_len := length e, env_size := length e + 1 + 128, envp := Some e, old_envp := None\<rparr>)"

definition env_swap_old :: "environment \<Rightarrow> bool \<times> environment" where
  "env_swap_old env =
     (if old_envp env = None then (False, env)
      else (True, env\<lparr>old_envp := envp env, envp := old_envp env\<rparr>))"

definition env_grow :: "environment \<Rightarrow> environment run" where
  \<comment> \<open>room for the new entry plus a NULL\<close>
  "env_grow env =
     (if env_size env > 2 \<and> env_len env > env_size env - 2
      then if env_size env > SIZE_MAX - 128 then Failed env
           else let nsize = env_size env + 128 in
                if nsize > SIZE_MAX div 8 then Failed env else Done (env\<lparr>env_size := nsize\<rparr>)
      else Done env)"

fun env_dup :: "string \<Rightarrow> nat \<Rightarrow> string list \<Rightarrow> bool" where
  "env_dup str n [] = False"
| "env_dup str n (e # es) = (if strncmp_eq str e n then True else env_dup str n es)"

fun env_prune :: "string \<Rightarrow> nat \<Rightarrow> string list \<Rightarrow> string list" where
  "env_prune str n [] = []"
| "env_prune str n (e # es) = (if strncmp_eq str e n then env_prune str n es else e # env_prune str n es)"

fun env_overwrite :: "string \<Rightarrow> nat \<Rightarrow> string list \<Rightarrow> string list" where
  \<comment> \<open>the first instance is replaced, further ones are pruned\<close>
  "env_overwrite str n [] = []"
| "env_overwrite str n (e # es) =
     (if strncmp_eq str e n then str # env_prune str n es else e # env_overwrite str n es)"

definition env_append :: "string \<Rightarrow> string list \<Rightarrow> environment \<Rightarrow> environment run" where
  \<comment> \<open>the entry and a NULL at \<open>env_len\<close>; an entry after the NULL that ends the array is not seen\<close>
  "env_append str es env =
     (if env_len env + 1 \<ge> env_size env then Faulted
      else Done (env\<lparr>envp := Some (if env_len env \<le> length es then take (env_len env) es @ [str] else es),
                     env_len := env_len env + 1\<rparr>))"

definition sudo_putenv_nodebug :: "string option \<Rightarrow> bool \<Rightarrow> bool \<Rightarrow> environment \<Rightarrow> environment run" where
  "sudo_putenv_nodebug sp dupcheck overwrite env =
     (case sp of None \<Rightarrow> Failed env
      | Some str \<Rightarrow>
         (case strchr str (CHR ''='') of
            None \<Rightarrow> Failed env
          | Some equal \<Rightarrow>
              if equal = str then Failed env
              else run_bind (env_grow env)
                (\<lambda>env. case envp env of None \<Rightarrow> Faulted
                  | Some es \<Rightarrow>
                     let n = length str - length equal + 1 in
                     if dupcheck \<and> env_dup str n es
                     then if overwrite
                          then let es = env_overwrite str n es in
                               Done (env\<lparr>envp := Some es, env_len := length es\<rparr>)
                          else Done env
                     else env_append str es env) id))"

definition sudo_putenv :: "string \<Rightarrow> bool \<Rightarrow> bool \<Rightarrow> environment \<Rightarrow> environment run" where
  "sudo_putenv str dupcheck overwrite env = sudo_putenv_nodebug (Some str) dupcheck overwrite env"

definition sudo_setenv2 :: "string \<Rightarrow> string \<Rightarrow> bool \<Rightarrow> bool \<Rightarrow> environment \<Rightarrow> environment run" where
  "sudo_setenv2 var val dupcheck overwrite env = sudo_putenv (var @ ''='' @ val) dupcheck overwrite env"

definition sudo_setenv :: "string \<Rightarrow> string \<Rightarrow> bool \<Rightarrow> environment \<Rightarrow> environment run" where
  "sudo_setenv var val overwrite env = sudo_setenv2 var val True overwrite env"

fun env_unset :: "string \<Rightarrow> string list \<Rightarrow> nat \<Rightarrow> string list \<times> nat" where
  "env_unset var [] len = ([], len)"
| "env_unset var (e # es) len =
     (if strncmp_eq var e (length var) \<and> str_at e (length var) = CHR ''='' then env_unset var es (len - 1)
      else let (es, len) = env_unset var es len in (e # es, len))"

definition sudo_unsetenv_nodebug :: "string option \<Rightarrow> environment \<Rightarrow> environment run" where
  "sudo_unsetenv_nodebug sp env =
     (case (envp env, sp) of
        (Some es, Some var) \<Rightarrow>
          if var = [] \<or> strchr var (CHR ''='') \<noteq> None then Failed env
          else let (es, len) = env_unset var es (env_len env) in
               Done (env\<lparr>envp := Some es, env_len := len\<rparr>)
      | _ \<Rightarrow> Failed env)"

definition sudo_unsetenv :: "string option \<Rightarrow> environment \<Rightarrow> environment run" where
  "sudo_unsetenv sp env = sudo_unsetenv_nodebug sp env"

fun env_find :: "string \<Rightarrow> nat \<Rightarrow> string list \<Rightarrow> string option" where
  "env_find name n [] = None"
| "env_find name n (e # es) =
     (if strncmp_eq e name n \<and> str_at e n = CHR ''='' then Some (drop (n + 1) e) else env_find name n es)"

definition sudo_getenv_nodebug :: "string \<Rightarrow> environment \<Rightarrow> string option" where
  \<comment> \<open>an environment with a length is not NULL\<close>
  "sudo_getenv_nodebug name env =
     (if env_len env = 0 then None
      else case envp env of None \<Rightarrow> None | Some es \<Rightarrow> env_find name (strcspn1 name (CHR ''='')) es)"

definition sudo_getenv :: "string \<Rightarrow> environment \<Rightarrow> string option" where
  "sudo_getenv name env = sudo_getenv_nodebug name env"

section \<open>The lists of env_delete, env_check and env_keep\<close>

fun env_list_logname :: "string list \<Rightarrow> bool \<Rightarrow> bool \<times> bool" where
  "env_list_logname [] fm = (False, fm)"
| "env_list_logname (p # ps) fm =
     (let (m, fm) = matches_env_pattern p ''LOGNAME'' fm in
      if m then (True, fm)
      else let (m, fm) = matches_env_pattern p ''USER'' fm in
           if m then (True, fm) else env_list_logname ps fm)"

fun env_list_var :: "string \<Rightarrow> string list \<Rightarrow> bool \<Rightarrow> bool \<times> bool" where
  "env_list_var var [] fm = (False, fm)"
| "env_list_var var (p # ps) fm =
     (let (m, fm) = matches_env_pattern p var fm in
      if m then (True, fm) else env_list_var var ps fm)"

definition is_logname :: "string \<Rightarrow> bool" where
  "is_logname var =
     (if c_at var = CHR ''L'' then strncmp_eq var ''LOGNAME='' 8
      else if c_at var = CHR ''U'' then strncmp_eq var ''USER='' 5 else False)"

definition matches_env_list :: "string \<Rightarrow> string list \<Rightarrow> bool \<Rightarrow> bool \<times> bool" where
  "matches_env_list var ps fm = (if is_logname var then env_list_logname ps fm else env_list_var var ps fm)"

definition matches_env_delete :: "env_defs \<Rightarrow> string \<Rightarrow> bool" where
  "matches_env_delete df var = fst (matches_env_list var (def_env_delete df) False)"

text \<open>The characters of a TZ value, with the one before.\<close>

fun tz_chars :: "char \<Rightarrow> string \<Rightarrow> bool" where
  "tz_chars lastch [] = True"
| "tz_chars lastch (c # cs) =
     (if c_isspace c \<or> \<not> c_isprint c then False
      else if lastch = CHR ''/'' \<and> c = CHR ''.'' \<and> c_at cs = CHR ''.'' \<and>
              (str_at cs 1 = CHR ''/'' \<or> str_at cs 1 = NUL) then False
      else tz_chars c cs)"

definition tz_is_safe :: "env_system \<Rightarrow> string \<Rightarrow> bool" where
  "tz_is_safe es tzval =
     (let tzval = (if c_at tzval = CHR '':'' then tl tzval else tzval) in
      if c_at tzval = CHR ''/'' \<and>
         (case path_zoneinfo es of
            None \<Rightarrow> True
          | Some z \<Rightarrow> \<not> strncmp_eq tzval z (length z) \<or> str_at tzval (length z) \<noteq> CHR ''/'')
      then False
      else if \<not> tz_chars (CHR ''/'') tzval then False
      else length tzval < PATH_MAX)"

definition matches_env_check :: "env_system \<Rightarrow> env_defs \<Rightarrow> string \<Rightarrow> bool \<Rightarrow> bool option \<times> bool" where
  \<comment> \<open>None for -1\<close>
  "matches_env_check es df var fm =
     (let (m, fm) = matches_env_list var (def_env_check df) fm in
      if m
      then (if strncmp_eq var ''TZ='' 3 then Some (tz_is_safe es (drop 3 var))
            else case strchr var (CHR ''='') of
                   Some val \<Rightarrow> Some (\<not> strpbrk_any (tl val) ''/%'')
                 | None \<Rightarrow> None, fm)
      else (None, fm))"

definition matches_env_keep :: "env_defs \<Rightarrow> 32 word \<Rightarrow> string \<Rightarrow> bool \<Rightarrow> bool \<times> bool" where
  "matches_env_keep df mode var fm =
     (if ISSET mode MODE_SHELL \<and> strncmp_eq var ''SHELL='' 6 then (True, fm)
      else matches_env_list var (def_env_keep df) fm)"

definition env_should_delete :: "env_system \<Rightarrow> env_defs \<Rightarrow> string \<Rightarrow> bool" where
  "env_should_delete es df var =
     (if matches_env_delete df var then True
      else fst (matches_env_check es df var False) = Some False)"

definition env_should_keep :: "env_system \<Rightarrow> env_defs \<Rightarrow> 32 word \<Rightarrow> string \<Rightarrow> bool" where
  "env_should_keep es df mode var =
     (let (keepit, fm) = matches_env_check es df var False;
          (keepit, fm) = (case keepit of Some k \<Rightarrow> (k, fm) | None \<Rightarrow> matches_env_keep df mode var fm)
      in if keepit \<and> \<not> fm
         then (case strchr var (CHR ''='') of
                 Some cp \<Rightarrow> \<not> strncmp_eq cp ''=() '' 4
               | None \<Rightarrow> True)
         else keepit)"

fun env_merge :: "env_system \<Rightarrow> env_defs \<Rightarrow> 32 word \<Rightarrow> string list \<Rightarrow> environment \<Rightarrow> environment run" where
  "env_merge es df mode [] env = Done env"
| "env_merge es df mode (e # ep) env =
     (let overwrite = (if def_env_reset df then \<not> env_should_keep es df mode e else env_should_delete es df e)
      in run_bind (sudo_putenv e True overwrite env) (env_merge es df mode ep) id)"

section \<open>Environment files\<close>

definition env_line :: "string \<Rightarrow> string option" where
  \<comment> \<open>\<open>name=value\<close> with an optional export and quotes; None skips the line\<close>
  "env_line line =
     (let var = (if strncmp_eq line ''export'' 6 \<and> c_isspace (str_at line 6)
                 then dropWhile c_isspace (drop 7 line) else line);
          name = takeWhile (\<lambda>c. c \<noteq> CHR ''='') var;
          val = drop (length name) var
      in if line = [] \<or> name = [] \<or> val = [] then None
         else let val = tl val;
                  val = (if (c_at val = CHR 0x27 \<or> c_at val = CHR 0x22) \<and> length val > 1 \<and>
                            c_at val = last val
                         then butlast (tl val) else val)
              in Some (name @ ''='' @ val))"

function env_file_next :: "stream \<Rightarrow> string option \<times> bool \<times> stream" where
  \<comment> \<open>the variable, whether \<open>errnum\<close> is set, the stream\<close>
  "env_file_next fp =
     (case sudo_parseln PARSELN_CONT_IGN 0 fp of
        (None, _, fp') \<Rightarrow> (None, read_fails fp', fp')
      | (Some line, _, fp') \<Rightarrow>
          (case env_line line of None \<Rightarrow> env_file_next fp' | Some v \<Rightarrow> (Some v, False, fp')))"
  by pat_completeness auto

termination env_file_next
  by (relation "measure (\<lambda>fp. length (rest fp))") (auto dest: sudo_parseln_shorter [OF sym])

declare env_file_next.simps [simp del]

definition env_file_next_local :: "env_file \<Rightarrow> string option \<times> bool \<times> env_file" where
  "env_file_next_local cookie =
     (case cookie of
        ENOENT_file \<Rightarrow> (None, False, cookie)
      | Env_file fp \<Rightarrow> (let (v, err, fp) = env_file_next fp in (v, err, Env_file fp)))"

lemma env_file_next_shorter:
  "env_file_next fp = (Some v, e, fp') \<Longrightarrow> length (rest fp') < length (rest fp)"
proof (induction fp rule: env_file_next.induct)
  case (1 fp)
  obtain l n f where p: "sudo_parseln PARSELN_CONT_IGN 0 fp = (l, n, f)" by (metis prod_cases3)
  show ?case
  proof (cases l)
    case None
    then show ?thesis using 1(2) p by (simp add: env_file_next.simps [of fp])
  next
    case (Some line)
    have "length (rest f) < length (rest fp)" using p Some by (auto dest: sudo_parseln_shorter)
    then show ?thesis using 1(1) [OF p [symmetric] Some refl] 1(2) p Some
      by (cases "env_line line") (auto simp: env_file_next.simps [of fp])
  qed
qed

text \<open>The loop of \<open>read_env_file\<close>; a failed insertion is not undone.\<close>

function read_env_loop :: "env_system \<Rightarrow> env_defs \<Rightarrow> 32 word \<Rightarrow> bool \<Rightarrow> bool \<Rightarrow> env_file \<Rightarrow> environment \<Rightarrow>
    environment run" where
  "read_env_loop es df mode overwrite restricted cookie env =
     (case env_file_next_local cookie of
        (None, err, cookie) \<Rightarrow> (if err then Failed env else Done env)
      | (Some envstr, err, cookie) \<Rightarrow>
          if restricted \<and> (if def_env_reset df then \<not> env_should_keep es df mode envstr
                           else env_should_delete es df envstr)
          then read_env_loop es df mode overwrite restricted cookie env
          else run_bind (sudo_putenv envstr True overwrite env)
                 (read_env_loop es df mode overwrite restricted cookie) id)"
  by pat_completeness auto

lemma env_file_next_local_shorter:
  "env_file_next_local cookie = (Some v, e, cookie') \<Longrightarrow>
     \<exists>fp fp'. cookie = Env_file fp \<and> cookie' = Env_file fp' \<and> length (rest fp') < length (rest fp)"
  by (auto simp: env_file_next_local_def split: env_file.splits prod.splits dest: env_file_next_shorter)

termination read_env_loop
  by (relation "measure (\<lambda>(es, df, mode, ov, re, cookie, env).
        case cookie of ENOENT_file \<Rightarrow> 0 | Env_file fp \<Rightarrow> length (rest fp))")
    (auto dest!: env_file_next_local_shorter [OF sym])

declare read_env_loop.simps [simp del]

definition read_env_file :: "env_system \<Rightarrow> env_defs \<Rightarrow> 32 word \<Rightarrow> string \<Rightarrow> bool \<Rightarrow> bool \<Rightarrow> environment \<Rightarrow>
    environment run" where
  "read_env_file es df mode path overwrite restricted env =
     (case env_fopen es path of
        None \<Rightarrow> Failed env
      | Some cookie \<Rightarrow> read_env_loop es df mode overwrite restricted cookie env)"

end
