(* ===== verification/EnvBuild.thy ===== *)
theory EnvBuild
  imports Env
begin

text \<open>
  Building the environment of the command: \<open>rebuild_env\<close>, \<open>insert_env_vars\<close> and
  \<open>validate_env_vars\<close> of \<open>plugins/sudoers/env.c\<close>, the hooks of \<open>sudoers_hooks.c\<close>, and the order
  in which \<open>sudoers.c\<close> calls them.

  \<open>user.cmnd\<close> is set when the environment is built (a NULL faults). In \<open>rebuild_env\<close> the loops
  carry the environment, \<open>didvar\<close> and \<open>ps1\<close>.
\<close>

section \<open>Hooks\<close>

definition sudo_setenv_nodebug :: "string option \<Rightarrow> string option \<Rightarrow> bool \<Rightarrow> environment \<Rightarrow> environment run" where
  \<comment> \<open>an equal sign in the name, and what follows it, is ignored\<close>
  "sudo_setenv_nodebug vp valp overwrite env =
     (case vp of None \<Rightarrow> Failed env
      | Some var \<Rightarrow>
          if var = [] then Failed env
          else let estring = takeWhile (\<lambda>c. c \<noteq> CHR ''='') var @ ''='' @
                             (case valp of None \<Rightarrow> [] | Some val \<Rightarrow> val)
               in sudo_putenv_nodebug (Some estring) True overwrite env)"

datatype hook_ret = SUDO_HOOK_RET_NEXT | SUDO_HOOK_RET_STOP

definition run_ignore :: "'a run \<Rightarrow> 'a run" where
  "run_ignore r = (case r of Failed a \<Rightarrow> Done a | _ \<Rightarrow> r)"

definition hook_run :: "bool \<Rightarrow> (environment \<Rightarrow> environment run) \<Rightarrow> environment \<Rightarrow> (hook_ret \<times> environment) run" where
  \<comment> \<open>\<open>in_progress\<close> is set in a call from within the hook itself; the result is not looked at\<close>
  "hook_run in_progress f env =
     (if in_progress \<or> envp env = None then Done (SUDO_HOOK_RET_NEXT, env)
      else run_bind (run_ignore (f env)) (\<lambda>env. Done (SUDO_HOOK_RET_STOP, env)) (\<lambda>env. (SUDO_HOOK_RET_STOP, env)))"

definition sudoers_hook_putenv :: "bool \<Rightarrow> string option \<Rightarrow> environment \<Rightarrow> (hook_ret \<times> environment) run" where
  "sudoers_hook_putenv in_progress str = hook_run in_progress (sudo_putenv_nodebug str True True)"

definition sudoers_hook_setenv :: "bool \<Rightarrow> string option \<Rightarrow> string option \<Rightarrow> bool \<Rightarrow> environment \<Rightarrow>
    (hook_ret \<times> environment) run" where
  "sudoers_hook_setenv in_progress name val overwrite =
     hook_run in_progress (sudo_setenv_nodebug name val overwrite)"

definition sudoers_hook_unsetenv :: "bool \<Rightarrow> string option \<Rightarrow> environment \<Rightarrow> (hook_ret \<times> environment) run" where
  "sudoers_hook_unsetenv in_progress name = hook_run in_progress (sudo_unsetenv_nodebug name)"

definition sudoers_hook_getenv :: "bool \<Rightarrow> bool \<Rightarrow> string option \<Rightarrow> string \<Rightarrow> environment \<Rightarrow>
    hook_ret \<times> string option" where
  \<comment> \<open>with whether messages are in the sudoers locale, and \<open>def_sudoers_locale\<close>\<close>
  "sudoers_hook_getenv in_progress sudoers_locale def_sudoers_locale name env =
     (if in_progress \<or> envp env = None then (SUDO_HOOK_RET_NEXT, None)
      else if c_at name = CHR ''L'' \<and> sudoers_locale \<and> (name = ''LANGUAGE'' \<or> name = ''LANG'')
      then (SUDO_HOOK_RET_STOP, None)
      else if c_at name = CHR ''L'' \<and> sudoers_locale \<and> (name = ''LC_ALL'' \<or> name = ''LC_MESSAGES'')
      then (SUDO_HOOK_RET_STOP, def_sudoers_locale)
      else (SUDO_HOOK_RET_STOP, sudo_getenv_nodebug name env))"

section \<open>Rebuilding the environment\<close>

definition env_update_didvar :: "string \<Rightarrow> 32 word \<Rightarrow> 32 word" where
  "env_update_didvar ep didvar =
     (if strncmp_eq ep ''HOME='' 5 then SET didvar DID_HOME
      else if strncmp_eq ep ''LOGNAME='' 8 then SET didvar DID_LOGNAME
      else if strncmp_eq ep ''MAIL='' 5 then SET didvar DID_MAIL
      else if strncmp_eq ep ''PATH='' 5 then SET didvar DID_PATH
      else if strncmp_eq ep ''SHELL='' 6 then SET didvar DID_SHELL
      else if strncmp_eq ep ''TERM='' 5 then SET didvar DID_TERM
      else if strncmp_eq ep ''USER='' 5 then SET didvar DID_USER
      else didvar)"

type_synonym rebuild_state = "environment \<times> 32 word \<times> string option"

definition on_env :: "(environment \<Rightarrow> environment run) \<Rightarrow> rebuild_state \<Rightarrow> rebuild_state run" where
  \<comment> \<open>a step on the environment that leaves \<open>didvar\<close> and \<open>ps1\<close> alone\<close>
  "on_env f s = (case s of (env, didvar, ps1) \<Rightarrow>
     run_bind (f env) (\<lambda>env. Done (env, didvar, ps1)) (\<lambda>env. (env, didvar, ps1)))"

definition set_did :: "32 word \<Rightarrow> rebuild_state \<Rightarrow> rebuild_state run" where
  "set_did f s = (case s of (env, didvar, ps1) \<Rightarrow> Done (env, SET didvar f, ps1))"

fun run_steps :: "(rebuild_state \<Rightarrow> rebuild_state run) list \<Rightarrow> rebuild_state \<Rightarrow> rebuild_state run" where
  \<comment> \<open>one statement after the other, until one fails\<close>
  "run_steps [] s = Done s"
| "run_steps (f # fs) s = run_bind (f s) (run_steps fs) id"

abbreviation only_if :: "bool \<Rightarrow> (rebuild_state \<Rightarrow> rebuild_state run) \<Rightarrow> rebuild_state \<Rightarrow> rebuild_state run" where
  "only_if b f \<equiv> (if b then f else Done)"

definition check_setenv2 :: "string \<Rightarrow> string \<Rightarrow> bool \<Rightarrow> bool \<Rightarrow> rebuild_state \<Rightarrow> rebuild_state run" where
  "check_setenv2 var val dupcheck overwrite = on_env (sudo_setenv2 var val dupcheck overwrite)"

definition check_putenv :: "string \<Rightarrow> bool \<Rightarrow> bool \<Rightarrow> rebuild_state \<Rightarrow> rebuild_state run" where
  "check_putenv str dupcheck overwrite = on_env (sudo_putenv str dupcheck overwrite)"

fun rebuild_keep :: "env_system \<Rightarrow> env_defs \<Rightarrow> 32 word \<Rightarrow> string list \<Rightarrow> rebuild_state \<Rightarrow> rebuild_state run" where
  "rebuild_keep es df mode [] s = Done s"
| "rebuild_keep es df mode (ep # eps) (env, didvar, ps1) =
     (let keepit = env_should_keep es df mode ep;
          ps1 = (if strncmp_eq ep ''SUDO_PS1='' 9 then Some (drop 5 ep) else ps1)
      in if keepit
         then run_bind (sudo_putenv ep True False env)
                (\<lambda>env. rebuild_keep es df mode eps (env, env_update_didvar ep didvar, ps1))
                (\<lambda>env. (env, didvar, ps1))
         else rebuild_keep es df mode eps (env, didvar, ps1))"

fun rebuild_copy :: "env_system \<Rightarrow> env_defs \<Rightarrow> string list \<Rightarrow> rebuild_state \<Rightarrow> rebuild_state run" where
  "rebuild_copy es df [] s = Done s"
| "rebuild_copy es df (ep # eps) (env, didvar, ps1) =
     (if env_should_delete es df ep then rebuild_copy es df eps (env, didvar, ps1)
      else let ps1' = (if strncmp_eq ep ''SUDO_PS1='' 9 then Some (drop 5 ep) else ps1);
               didvar' = (if strncmp_eq ep ''SUDO_PS1='' 9 then didvar
                          else if strncmp_eq ep ''SHELL='' 6 then SET didvar DID_SHELL
                          else if strncmp_eq ep ''PATH='' 5 then SET didvar DID_PATH
                          else if strncmp_eq ep ''TERM='' 5 then SET didvar DID_TERM
                          else didvar)
           in run_bind (sudo_putenv ep True False env)
                (\<lambda>env. rebuild_copy es df eps (env, didvar', ps1')) (\<lambda>env. (env, didvar', ps1')))"

fun class_env :: "(string \<times> string \<times> bool) list \<Rightarrow> environment \<Rightarrow> environment run" where
  \<comment> \<open>\<open>setusercontext\<close> calls \<open>setenv\<close>, which comes back through the hook\<close>
  "class_env [] env = Done env"
| "class_env ((name, val, overwrite) # vs) env =
     run_bind (sudoers_hook_setenv False (Some name) (Some val) overwrite env)
       (\<lambda>(r, env). class_env vs env) snd"

definition login_class_env :: "env_system \<Rightarrow> env_context \<Rightarrow> environment \<Rightarrow> environment run" where
  "login_class_env es ctx env =
     (case runas_class ctx of None \<Rightarrow> Done env
      | Some c \<Rightarrow> class_env (class_setenv es c (runas_pw (env_sudo ctx))) env)"

definition system_env_file :: "env_system \<Rightarrow> env_defs \<Rightarrow> env_context \<Rightarrow> environment \<Rightarrow> environment run" where
  \<comment> \<open>a failure is only reported\<close>
  "system_env_file es df ctx env =
     (case path_environment es of None \<Rightarrow> Done env
      | Some p \<Rightarrow> run_ignore (read_env_file es df (env_mode ctx) p True False env))"

definition rebuild_fresh :: "env_system \<Rightarrow> env_defs \<Rightarrow> env_context \<Rightarrow> environment \<Rightarrow> rebuild_state run" where
  \<comment> \<open>login class and system-wide variables, which \<open>sudo -i\<close> reads later\<close>
  "rebuild_fresh es df ctx env =
     (if ISSET (env_mode ctx) MODE_LOGIN_SHELL then Done (env, 0, None)
      else run_bind (run_bind (login_class_env es ctx env) (system_env_file es df ctx) id)
             (\<lambda>env. Done (env, fold env_update_didvar (case envp env of None \<Rightarrow> [] | Some e \<Rightarrow> e) 0, None))
             (\<lambda>env. (env, 0, None)))"

definition kept_bits :: "rebuild_state \<Rightarrow> rebuild_state run" where
  \<comment> \<open>\<open>didvar |= didvar << 16\<close>\<close>
  "kept_bits s = (case s of (env, didvar, ps1) \<Rightarrow> Done (env, or didvar (push_bit 16 didvar), ps1))"

definition with_did :: "(32 word \<Rightarrow> rebuild_state \<Rightarrow> rebuild_state run) \<Rightarrow> rebuild_state \<Rightarrow> rebuild_state run" where
  "with_did f s = f (fst (snd s)) s"

definition rebuild_names :: "env_context \<Rightarrow> env_defs \<Rightarrow> rebuild_state \<Rightarrow> rebuild_state run" where
  "rebuild_names ctx df =
     with_did (\<lambda>did.
       if ISSET (env_mode ctx) MODE_LOGIN_SHELL
       then run_steps
              [check_setenv2 ''SHELL'' (pw_shell (runas_pw (env_sudo ctx))) (ISSET did DID_SHELL) True,
               check_setenv2 ''LOGNAME'' (pw_name (runas_pw (env_sudo ctx))) (ISSET did DID_LOGNAME) True,
               check_setenv2 ''USER'' (pw_name (runas_pw (env_sudo ctx))) (ISSET did DID_USER) True]
       else only_if (\<not> def_set_logname df) (run_steps
              [only_if (\<not> ISSET did DID_LOGNAME) (check_setenv2 ''LOGNAME'' (user_name (env_sudo ctx)) False True),
               only_if (\<not> ISSET did DID_USER) (check_setenv2 ''USER'' (user_name (env_sudo ctx)) False True)]))"

definition mail_entry :: "env_system \<Rightarrow> string \<Rightarrow> string" where
  "mail_entry es name =
     ''MAIL='' @ path_maildir es @
     (if path_maildir es \<noteq> [] \<and> last (path_maildir es) = CHR ''/'' then [] else ''/'') @ name"

definition rebuild_mail :: "env_system \<Rightarrow> env_context \<Rightarrow> rebuild_state \<Rightarrow> rebuild_state run" where
  "rebuild_mail es ctx =
     with_did (\<lambda>did.
       only_if (ISSET (env_mode ctx) MODE_LOGIN_SHELL \<or> \<not> ISSET did KEPT_MAIL)
         (check_putenv (mail_entry es (pw_name (runas_pw (env_sudo ctx)))) (ISSET did DID_MAIL) True))"

definition old_entries :: "environment \<Rightarrow> string list" where
  "old_entries env = (case old_envp env of None \<Rightarrow> [] | Some e \<Rightarrow> e)"

text \<open>The first half: the environment kept or copied, and whether HOME is to be reset.\<close>

definition rebuild_old :: "env_system \<Rightarrow> env_defs \<Rightarrow> env_context \<Rightarrow> environment \<Rightarrow> rebuild_state run" where
  "rebuild_old es df ctx env =
     (if def_env_reset df \<or> ISSET (env_mode ctx) MODE_LOGIN_SHELL
      then run_bind (rebuild_fresh es df ctx env)
             (run_steps [\<lambda>s. rebuild_keep es df (env_mode ctx) (old_entries (fst s)) s, kept_bits,
                         rebuild_names ctx df, rebuild_mail es ctx]) id
      else rebuild_copy es df (old_entries env) (env, 0, None))"

definition reset_home :: "env_defs \<Rightarrow> 32 word \<Rightarrow> 32 word \<Rightarrow> bool" where
  \<comment> \<open>with \<open>didvar\<close> after the first half\<close>
  "reset_home df mode did \<longleftrightarrow>
     ISSET mode MODE_RUN \<and>
       (def_always_set_home df \<or> ISSET mode (or MODE_RESET_HOME MODE_LOGIN_SHELL) \<or>
        ISSET mode MODE_SHELL \<and> def_set_home df) \<or>
     (def_env_reset df \<or> ISSET mode MODE_LOGIN_SHELL) \<and> \<not> ISSET did KEPT_HOME"

definition set_path :: "system \<Rightarrow> sudo_defs \<Rightarrow> env_context \<Rightarrow> rebuild_state \<Rightarrow> rebuild_state run" where
  "set_path sys sd ctx =
     (case def_secure_path sd of
        Some p \<Rightarrow> only_if (\<not> user_is_exempt sys sd (env_sudo ctx))
                    (run_steps [check_setenv2 ''PATH'' p True True, set_did DID_PATH])
      | None \<Rightarrow> Done)"

definition set_logname :: "env_defs \<Rightarrow> env_context \<Rightarrow> rebuild_state \<Rightarrow> rebuild_state run" where
  \<comment> \<open>LOGNAME and USER of the target, unless one of them was kept, which then gives the other\<close>
  "set_logname df ctx s =
     (let (env, did, _) = s in
      if def_set_logname df \<and> \<not> ISSET (env_mode ctx) MODE_LOGIN_SHELL
      then if and did KEPT_USER_VARIABLES = 0
           then run_steps
                  [check_setenv2 ''LOGNAME'' (pw_name (runas_pw (env_sudo ctx))) True True,
                   check_setenv2 ''USER'' (pw_name (runas_pw (env_sudo ctx))) True True] s
           else if and did KEPT_USER_VARIABLES \<noteq> KEPT_USER_VARIABLES
           then (case (if ISSET did KEPT_LOGNAME then sudo_getenv ''LOGNAME'' env
                       else if ISSET did KEPT_USER then sudo_getenv ''USER'' env else None) of
                   Some cp \<Rightarrow>
                     run_steps
                       [only_if (\<not> ISSET did KEPT_LOGNAME) (check_setenv2 ''LOGNAME'' cp True True),
                        only_if (\<not> ISSET did KEPT_USER) (check_setenv2 ''USER'' cp True True)] s
                 | None \<Rightarrow> Done s)
           else Done s
      else Done s)"

definition set_defaults :: "env_system \<Rightarrow> env_context \<Rightarrow> rebuild_state \<Rightarrow> rebuild_state run" where
  \<comment> \<open>SHELL, TERM and PATH if not set\<close>
  "set_defaults es ctx =
     with_did (\<lambda>did. run_steps
       [only_if (\<not> ISSET did DID_SHELL) (check_setenv2 ''SHELL'' (pw_shell (runas_pw (env_sudo ctx))) False False),
        only_if (\<not> ISSET did DID_TERM) (check_putenv ''TERM=unknown'' False False),
        only_if (\<not> ISSET did DID_PATH) (check_setenv2 ''PATH'' (path_stdpath es) False True)])"

definition set_ps1 :: "rebuild_state \<Rightarrow> rebuild_state run" where
  "set_ps1 s = (case s of (env, did, ps1) \<Rightarrow>
     (case ps1 of None \<Rightarrow> Done s | Some p \<Rightarrow> check_putenv p True True s))"

definition sudo_command_entry :: "sudo_context \<Rightarrow> string option" where
  \<comment> \<open>the command and at most 4096 bytes of its arguments\<close>
  "sudo_command_entry ctx =
     map_option (\<lambda>cmnd. ''SUDO_COMMAND='' @ cmnd @
       (case user_cmnd_args ctx of Some args \<Rightarrow> '' '' @ take 4096 args | None \<Rightarrow> [])) (user_cmnd ctx)"

definition set_sudo_vars :: "env_context \<Rightarrow> rebuild_state \<Rightarrow> rebuild_state run" where
  "set_sudo_vars ctx =
     (let c = env_sudo ctx in
      case sudo_command_entry c of None \<Rightarrow> (\<lambda>s. Faulted)
      | Some cmd \<Rightarrow>
          run_steps
            [check_putenv cmd True True,
             check_setenv2 ''SUDO_USER'' (user_name c) True True,
             check_setenv2 ''SUDO_UID'' (decimal (unat (user_uid c))) True True,
             check_setenv2 ''SUDO_GID'' (decimal (unat (user_gid c))) True True,
             check_setenv2 ''SUDO_HOME'' (pw_dir (user_pw c)) True True,
             (case user_ttypath ctx of Some tty \<Rightarrow> check_setenv2 ''SUDO_TTY'' tty True True | None \<Rightarrow> Done)])"

definition rebuild_env :: "system \<Rightarrow> env_system \<Rightarrow> sudo_defs \<Rightarrow> env_defs \<Rightarrow> env_context \<Rightarrow> environment \<Rightarrow>
    environment run" where
  "rebuild_env sys es sd df ctx env =
     (let env = env\<lparr>env_len := 0, env_size := 128, old_envp := envp env, envp := Some []\<rparr> in
      run_bind
        (run_bind (rebuild_old es df ctx env)
          (\<lambda>s. let home = reset_home df (env_mode ctx) (fst (snd s)) in
               run_steps
                 [set_path sys sd ctx, set_logname df ctx,
                  only_if home (check_setenv2 ''HOME'' (pw_dir (runas_pw (env_sudo ctx))) True True),
                  set_defaults es ctx, set_ps1, set_sudo_vars ctx] s) id)
        (\<lambda>(env, _). Done env) fst)"

section \<open>Variables given on the command line\<close>

fun insert_env_loop :: "string list \<Rightarrow> environment \<Rightarrow> environment run" where
  "insert_env_loop [] env = Done env"
| "insert_env_loop (e # es) env = run_bind (sudo_putenv e True True env) (insert_env_loop es) id"

definition insert_env_vars :: "string list option \<Rightarrow> environment \<Rightarrow> environment run" where
  "insert_env_vars ep env = (case ep of None \<Rightarrow> Done env | Some es \<Rightarrow> insert_env_loop es env)"

definition env_var_ok :: "system \<Rightarrow> env_system \<Rightarrow> sudo_defs \<Rightarrow> env_defs \<Rightarrow> env_context \<Rightarrow> string \<Rightarrow> bool" where
  "env_var_ok sys es sd df ctx e =
     (case strchr e (CHR ''='') of
        None \<Rightarrow> False
      | Some eq \<Rightarrow>
          if eq = e then False
          else if def_secure_path sd \<noteq> None \<and> \<not> user_is_exempt sys sd (env_sudo ctx) \<and> strncmp_eq e ''PATH='' 5
          then False
          else if def_env_reset df then env_should_keep es df (env_mode ctx) e
          else \<not> env_should_delete es df e)"

text \<open>
  The names of the variables refused, in a buffer of 4096 bytes: the text, and the position
  \<open>errpos\<close>, which is at the end of the buffer once the text has been cut.
\<close>

definition ERRBUF :: nat where "ERRBUF = 4096"

definition errbuf_add :: "string \<Rightarrow> string \<times> nat \<Rightarrow> string \<times> nat" where
  "errbuf_add e b = (case b of (errbuf, errpos) \<Rightarrow>
     if errpos < ERRBUF
     then let errsize = ERRBUF - errpos;
              t = (if errpos \<noteq> 0 then '', '' else []) @ take (strcspn1 e (CHR ''='')) e
          in if length t \<ge> errsize
             then (take (ERRBUF - 4) (errbuf @ take (errsize - 1) t) @ ''...'', ERRBUF)
             else (errbuf @ t, errpos + length t)
     else b)"

fun validate_env_loop :: "(string \<Rightarrow> bool) \<Rightarrow> string list \<Rightarrow> string \<times> nat \<Rightarrow> string \<times> nat" where
  "validate_env_loop ok [] b = b"
| "validate_env_loop ok (e # es) b = validate_env_loop ok es (if ok e then b else errbuf_add e b)"

definition validate_env_vars :: "system \<Rightarrow> env_system \<Rightarrow> sudo_defs \<Rightarrow> env_defs \<Rightarrow> env_context \<Rightarrow>
    string list option \<Rightarrow> bool \<times> string option" where
  \<comment> \<open>the result and the names reported\<close>
  "validate_env_vars sys es sd df ctx ep =
     (case ep of None \<Rightarrow> (True, None)
      | Some vars \<Rightarrow>
          (let (errbuf, errpos) = validate_env_loop (env_var_ok sys es sd df ctx) vars ([], 0)
           in if errpos \<noteq> 0 then (False, Some errbuf) else (True, None)))"

section \<open>The calls of \<open>sudoers.c\<close>\<close>

definition check_env_reset :: "sudo_defs \<Rightarrow> 32 word \<Rightarrow> env_defs \<Rightarrow> env_defs" where
  "check_env_reset sd mode df =
     (if ISSET mode MODE_EDIT \<or> ISSET mode MODE_PRESERVE_ENV \<and> def_setenv sd
      then df\<lparr>def_env_reset := False\<rparr> else df)"

definition check_env_add :: "system \<Rightarrow> env_system \<Rightarrow> sudo_defs \<Rightarrow> env_defs \<Rightarrow> env_context \<Rightarrow> bool" where
  "check_env_add sys es sd df ctx =
     (if ISSET (env_mode ctx) MODE_RUN \<and> \<not> def_setenv sd
      then if ISSET (env_mode ctx) MODE_PRESERVE_ENV then False
           else fst (validate_env_vars sys es sd df ctx (user_env_add ctx))
      else True)"

definition login_env :: "env_system \<Rightarrow> env_defs \<Rightarrow> env_context \<Rightarrow> environment \<Rightarrow> environment run" where
  "login_env es df ctx env =
     (if ISSET (env_mode ctx) MODE_LOGIN_SHELL
      then run_bind (system_env_file es df ctx env) (login_class_env es ctx) id else Done env)"

definition policy_env_file :: "env_system \<Rightarrow> env_defs \<Rightarrow> env_context \<Rightarrow> string option \<Rightarrow> bool \<Rightarrow> environment \<Rightarrow>
    environment run" where
  "policy_env_file es df ctx path restricted env =
     (case path of None \<Rightarrow> Done env
      | Some p \<Rightarrow> run_ignore (read_env_file es df (env_mode ctx) p False restricted env))"

text \<open>
  The environment of the command, as \<open>sudoers_check_common\<close> and \<open>sudoers_check_cmnd\<close> make it from
  the one of the user; None when the command is refused for its environment.
\<close>

definition command_env :: "system \<Rightarrow> env_system \<Rightarrow> sudo_defs \<Rightarrow> env_defs \<Rightarrow> env_context \<Rightarrow> environment \<Rightarrow>
    environment run option" where
  "command_env sys es sd df ctx env =
     (let df = check_env_reset sd (env_mode ctx) df in
      case rebuild_env sys es sd df ctx env of
        Done env \<Rightarrow>
          if check_env_add sys es sd df ctx
          then Some (run_bind (login_env es df ctx env)
                 (\<lambda>env. run_bind (policy_env_file es df ctx (def_restricted_env_file df) True env)
                 (\<lambda>env. run_bind (policy_env_file es df ctx (def_env_file df) False env)
                 (\<lambda>env. run_bind (insert_env_vars (user_env_add ctx) env)
                 (\<lambda>env. Done (if ISSET (env_mode ctx) MODE_EDIT then snd (env_swap_old env) else env))
                   id) id) id) id)
          else None
      | r \<Rightarrow> Some r)"

end
