(* ===== verification/CheckUser.thy ===== *)
theory CheckUser
  imports Auth Lookup EnvBuild
begin

text \<open>
  \<open>check_user\<close> of \<open>check.c\<close>: whether the user has to authenticate, with the time stamp file
  opened, looked at and updated around \<open>verify_user\<close>. Whether memory is available and whether
  setting the lectured flag works are not modelled (the code ignores the latter).
\<close>

definition get_authpw :: "'w auth_env \<Rightarrow> 32 word \<Rightarrow> 'w auth_state \<Rightarrow> passwd option \<times> 'w auth_state" where
  "get_authpw env mode st =
     (let ctx = tc_sudo (ae_ctx env); df = ae_defs env;
          unknown = (\<lambda>r. (r, if r = None then auth_log Unknown_auth_user st else st))
      in if ISSET mode (or MODE_CHECK MODE_LIST) then (Some (user_pw ctx), st)
         else if def_rootpw df then unknown (sys_getpwuid (ae_sys env) 0)
         else if def_runaspw df then unknown (sys_getpwnam (ae_sys env) (def_runas_default df))
         else if def_targetpw df then (Some (runas_pw ctx), st)
         else (Some (user_pw ctx), st))"

definition running_as_user :: "system \<Rightarrow> sudo_context \<Rightarrow> bool" where
  "running_as_user sys ctx \<longleftrightarrow>
     user_uid ctx = pw_uid (runas_pw ctx) \<and>
     (case runas_gr ctx of None \<Rightarrow> True | Some gr \<Rightarrow> sys_user_in_group sys (user_pw ctx) (gr_name gr)) \<and>
     runas_role ctx = None \<and> runas_type ctx = None \<and> runas_apparmor_profile ctx = None \<and>
     runas_privs ctx = None \<and> runas_limitprivs ctx = None"

text \<open>Opening, locking and reading the time stamp file.\<close>

definition ticket_status :: "'w auth_env \<Rightarrow> 32 word \<Rightarrow> passwd \<Rightarrow> 'w auth_state \<Rightarrow> ts_status \<times> 'w auth_state" where
  "ticket_status env mode pw st =
     (if ISSET mode MODE_IGNORE_TICKET then (TS_ERROR, st)
      else let (ok, st) = open_cookie env st in
           if \<not> ok then (TS_ERROR, st)
           else let (ok, st) = lock_cookie env pw st in
                if \<not> ok then (TS_ERROR, st)
                else let (status, v) = timestamp_status (ae_io env (st_opens st)) (ae_ts_defs env) (ae_ctx env) (ae_now env) (st_cookie st)
                     in (status, st\<lparr>st_cookie := v\<rparr>))"

definition user_prompt :: "'w auth_env \<Rightarrow> passwd \<Rightarrow> string option" where
  "user_prompt env pw =
     (let ctx = tc_sudo (ae_ctx env) in
      expand_prompt
        \<lparr>pn_shost = ae_shost env, pn_host = ae_host env, pn_user = user_name ctx, pn_runas = pw_name (runas_pw ctx),
         pn_auth = pw_name pw\<rparr>
        (case ae_prompt env of Some p \<Rightarrow> p | None \<Rightarrow> def_passprompt (ae_defs env)))"

definition ask_user :: "'w auth_env \<Rightarrow> 32 word \<Rightarrow> 32 word \<Rightarrow> passwd \<Rightarrow> 'w auth_state \<Rightarrow> auth_status \<times> 32 word \<times> 'w auth_state" where
  \<comment> \<open>the \<open>default\<close> case, with the new value of \<open>validated\<close>\<close>
  "ask_user env validated mode pw st =
     (if ISSET mode MODE_NONINTERACTIVE \<and> \<not> def_noninteractive_auth (ae_defs env)
      then let validated = SET validated FLAG_NO_USER_INPUT
           in (AUTH_ERROR, validated, auth_log (Log_auth_failure validated 0) st)
      else case user_prompt env pw of
             None \<Rightarrow> (AUTH_ERROR, validated, st)
           | Some prompt \<Rightarrow>
               let (ret, st) = verify_user env pw prompt validated st
               in (ret, validated, if ret = AUTH_SUCCESS \<and> st_lectured st then auth_log Set_lectured st else st))"

definition authenticate :: "'w auth_env \<Rightarrow> 32 word \<Rightarrow> 32 word \<Rightarrow> ts_status \<Rightarrow> passwd \<Rightarrow> 'w auth_state \<Rightarrow>
    auth_status \<times> 32 word \<times> 'w auth_state" where
  "authenticate env validated mode status pw st =
     (case status of
        TS_FATAL \<Rightarrow> (AUTH_ERROR, validated, st)
      | TS_CURRENT \<Rightarrow> if \<not> ISSET validated FLAG_CHECK_USER then (AUTH_SUCCESS, validated, st)
                      else ask_user env validated mode pw st
      | _ \<Rightarrow> ask_user env validated mode pw st)"

definition check_success :: "'w auth_env \<Rightarrow> 32 word \<Rightarrow> 32 word \<Rightarrow> bool \<Rightarrow> ts_status \<Rightarrow> passwd \<Rightarrow> 'w auth_state \<Rightarrow>
    auth_status \<times> 'w auth_state" where
  "check_success env validated mode exempt status pw st =
     (let (ret, st) = sudo_auth_approval pw validated exempt st
      in (ret, if ret = AUTH_SUCCESS \<and> ISSET validated VALIDATE_SUCCESS \<and> ISSET mode MODE_UPDATE_TICKET \<and> status \<noteq> TS_ERROR
               then st\<lparr>st_cookie := snd (timestamp_update (ae_io env (st_opens st)) (ae_ts_defs env) (ae_later env) (st_cookie st))\<rparr>
               else st))"

definition no_password :: "'w auth_env \<Rightarrow> 32 word \<Rightarrow> bool option" where
  \<comment> \<open>the tests that lead to \<open>success\<close> at once, with \<open>exempt\<close>\<close>
  "no_password env mode =
     (let ctx = tc_sudo (ae_ctx env) in
      if \<not> def_authenticate (ae_defs env) \<or> user_is_exempt (ae_sys env) (ae_sudo_defs env) ctx then Some True
      else if user_uid ctx = 0 then Some False
      else if ISSET mode (or MODE_RUN MODE_EDIT) \<and> running_as_user (ae_sys env) ctx then Some False
      else None)"

definition check_user_pw :: "'w auth_env \<Rightarrow> 32 word \<Rightarrow> 32 word \<Rightarrow> passwd \<Rightarrow> 'w auth_state \<Rightarrow>
    auth_status \<times> 32 word \<times> 'w auth_state" where
  "check_user_pw env validated mode pw st =
     (case no_password env mode of
        Some exempt \<Rightarrow> (let (ret, st) = check_success env validated mode exempt TS_ERROR pw st in (ret, validated, st))
      | None \<Rightarrow>
          let (status, st) = ticket_status env mode pw st;
              (ret, validated, st) = authenticate env validated mode status pw st
          in if ret = AUTH_SUCCESS
             then let (ret, st) = check_success env validated mode False status pw st in (ret, validated, st)
             else (ret, validated, st))"

definition check_user :: "'w auth_env \<Rightarrow> 32 word \<Rightarrow> 32 word \<Rightarrow> 'w auth_state \<Rightarrow> auth_status \<times> 'w auth_state" where
  "check_user env validated mode st =
     (if ISSET (ae_mode env) MODE_POLICY_INTERCEPTED \<and> \<not> def_intercept_authenticate (ae_defs env) then (AUTH_SUCCESS, st)
      else case get_authpw env mode st of
        (None, st) \<Rightarrow> (AUTH_ERROR, st)
      | (Some pw, st) \<Rightarrow>
          (case sudo_auth_init mode pw st of
             (AUTH_SUCCESS, st) \<Rightarrow>
                let (ret, validated, st) = check_user_pw env validated mode pw st
                in (ret, snd (sudo_auth_cleanup pw (\<not> ISSET validated VALIDATE_SUCCESS) (close_cookie st)))
           | (_, st) \<Rightarrow> (AUTH_ERROR, st)))"

end
