(* ===== verification/TimestampRecords.thy ===== *)
theory TimestampRecords
  imports TimestampOps
begin

text \<open>
  Well-formed time stamp files: a file of whole records of the current size, as a list. Reading,
  finding and writing records are operations on that list.
\<close>

section \<open>Encoding\<close>

lemma length_le_bytes [simp]: "length (le_bytes n x) = n"
  by (induction n x rule: le_bytes.induct) auto

lemma le_val_le_bytes: "x < 256 ^ n \<Longrightarrow> le_val (le_bytes n x) = x"
proof (induction n x rule: le_bytes.induct)
  case (2 n x)
  have "unat (of_nat (x mod 256) :: 8 word) = x mod 256" by (simp add: unat_of_nat)
  moreover have "x div 256 < 256 ^ n" using 2(2) by (simp add: less_mult_imp_div_less mult.commute)
  ultimately show ?case using 2(1) by simp
qed simp

lemma of_le_bytes [simp]:
  "of_nat (le_val (le_bytes 2 (unat (w :: 16 word)))) = w"
  "of_nat (le_val (le_bytes 4 (unat (v :: 32 word)))) = v"
  "of_nat (le_val (le_bytes 8 (unat (u :: 64 word)))) = u"
proof -
  have "unat w < 2 ^ 16" "unat v < 2 ^ 32" "unat u < 2 ^ 64"
    by (rule order_less_le_trans [OF unsigned_less], simp)+
  then show "of_nat (le_val (le_bytes 2 (unat w))) = w" "of_nat (le_val (le_bytes 4 (unat v))) = v"
    "of_nat (le_val (le_bytes 8 (unat u))) = u"
    by (simp_all add: le_val_le_bytes)
qed

lemma length_encode_time [simp]: "length (encode_time t) = 16"
  by (simp add: encode_time_def)

lemma length_encode_entry [simp]: "length (encode_entry e) = 56"
  by (simp add: encode_entry_def)

lemma decode_encode [simp]: "decode_entry (encode_entry e) = e"
  unfolding decode_entry_def encode_entry_def encode_time_def field_def
  by (intro timestamp_entry.equality timespec.equality) simp_all

section \<open>Files of records\<close>

definition records :: "timestamp_entry list \<Rightarrow> bytes" where
  "records rs = concat (map encode_entry rs)"

definition sized :: "timestamp_entry \<Rightarrow> bool" where
  "sized e \<longleftrightarrow> unat (te_size e) = SIZEOF_ENTRY"

lemma records_simps [simp]: "records [] = []" "records (r # rs) = encode_entry r @ records rs"
  "records (rs @ ss) = records rs @ records ss"
  by (simp_all add: records_def)

lemma length_records [simp]: "length (records rs) = 56 * length rs"
  by (induction rs) auto

lemma sized_simps [simp]: "sized (set_flag f e) = sized e" "sized (clear_flag f e) = sized e"
  "sized (e\<lparr>te_ts := t\<rparr>) = sized e" "sized (e\<lparr>te_type := ty\<rparr>) = sized e"
  by (simp_all add: sized_def set_flag_def clear_flag_def)

lemma match_flags [simp]: "ts_match_record key (set_flag f e) = ts_match_record key e"
  by (simp add: ts_match_record_def set_flag_def u_ppid_def)

text \<open>The descriptor before the records \<open>rs\<close>, after the bytes \<open>pre\<close>.\<close>

definition before :: "bytes \<Rightarrow> timestamp_entry list \<Rightarrow> ts_fd \<Rightarrow> bool" where
  "before pre rs fd \<longleftrightarrow> fd_data fd = pre @ records rs \<and> fd_off fd = length pre \<and> (\<forall>r \<in> set rs. sized r)"

fun first_match :: "timestamp_entry \<Rightarrow> timestamp_entry list \<Rightarrow> nat option" where
  "first_match key [] = None"
| "first_match key (r # rs) = (if ts_match_record key r then Some 0 else map_option Suc (first_match key rs))"

lemma first_match_Some: "first_match key rs = Some j \<Longrightarrow> j < length rs \<and> ts_match_record key (rs ! j)"
  by (induction rs arbitrary: j) (auto split: if_splits)

lemma first_match_None: "first_match key rs = None \<longleftrightarrow> (\<forall>r \<in> set rs. \<not> ts_match_record key r)"
  by (induction rs) auto

lemma read_record:
  "before pre (r # rs) fd \<Longrightarrow> fd_read SIZEOF_ENTRY fd = (encode_entry r, fd\<lparr>fd_off := length pre + 56\<rparr>)"
  by (simp add: before_def fd_read_def SIZEOF_ENTRY_def)

lemma before_next: "before pre (r # rs) fd \<Longrightarrow> before (pre @ encode_entry r) rs (fd\<lparr>fd_off := length pre + 56\<rparr>)"
  by (simp add: before_def)

lemma find_Cons:
  assumes "before pre (r # rs) fd"
  shows "ts_find_record key fd =
    (if ts_match_record key r then (Some r, fd\<lparr>fd_off := length pre + 56\<rparr>)
     else ts_find_record key (fd\<lparr>fd_off := length pre + 56\<rparr>))"
proof -
  have "sized r" using assms by (simp add: before_def)
  then show ?thesis
    by (subst ts_find_record.simps) (simp add: read_record [OF assms, unfolded SIZEOF_ENTRY_def] sized_def SIZEOF_ENTRY_def)
qed

lemma find_Nil: "before pre [] fd \<Longrightarrow> ts_find_record key fd = (None, fd)"
  by (subst ts_find_record.simps) (simp add: before_def fd_read_def SIZEOF_ENTRY_def)

lemma find_records:
  "before pre rs fd \<Longrightarrow> ts_find_record key fd =
     (case first_match key rs of
        None \<Rightarrow> (None, fd\<lparr>fd_off := length pre + 56 * length rs\<rparr>)
      | Some j \<Rightarrow> (Some (rs ! j), fd\<lparr>fd_off := length pre + 56 * (j + 1)\<rparr>))"
proof (induction rs arbitrary: pre fd)
  case Nil
  then show ?case by (simp add: find_Nil) (simp add: before_def)
next
  case (Cons r rs)
  show ?case using Cons.IH [OF before_next [OF Cons.prems]]
    by (simp add: find_Cons [OF Cons.prems] split: option.split)
qed

section \<open>Writing\<close>

definition writes_ok :: "ts_io \<Rightarrow> bool" where
  "writes_ok io \<longleftrightarrow> (\<forall>k. \<exists>n \<ge> SIZEOF_ENTRY. io_write io k = Some n) \<and> (\<forall>k. io_ftruncate io k)"

lemma put_bytes_at: "length pre = off \<Longrightarrow> length bs = length old \<Longrightarrow> put_bytes off bs (pre @ old @ post) = pre @ bs @ post"
  by (simp add: put_bytes_def)

lemma put_bytes_end: "length pre = off \<Longrightarrow> put_bytes off bs pre = pre @ bs"
  by (simp add: put_bytes_def)

lemma write_full:
  assumes "writes_ok io" "length bs \<le> SIZEOF_ENTRY"
  shows "fd_write io bs pos fd = (Some (length bs),
    case pos of
      None \<Rightarrow> fd\<lparr>fd_data := put_bytes (fd_off fd) bs (fd_data fd), fd_off := fd_off fd + length bs, fd_calls := fd_calls fd + 1\<rparr>
    | Some p \<Rightarrow> fd\<lparr>fd_data := put_bytes p bs (fd_data fd), fd_calls := fd_calls fd + 1\<rparr>)"
proof -
  obtain n where "io_write io (fd_calls fd) = Some n" "SIZEOF_ENTRY \<le> n"
    using assms(1) by (auto simp: writes_ok_def)
  then show ?thesis using assms(2) by (simp add: fd_write_def Let_def split: option.split)
qed

lemma ts_write_full:
  assumes "writes_ok io" "sized e"
  shows "ts_write io e pos fd = (True,
    case pos of
      None \<Rightarrow> fd\<lparr>fd_data := put_bytes (fd_off fd) (encode_entry e) (fd_data fd), fd_off := fd_off fd + 56,
              fd_calls := fd_calls fd + 1\<rparr>
    | Some p \<Rightarrow> fd\<lparr>fd_data := put_bytes p (encode_entry e) (fd_data fd), fd_calls := fd_calls fd + 1\<rparr>)"
  using assms by (simp add: ts_write_def write_full sized_def SIZEOF_ENTRY_def Let_def split: option.split)

lemma records_split: "i < length rs \<Longrightarrow> records rs = records (take i rs) @ encode_entry (rs ! i) @ records (drop (Suc i) rs)"
  by (subst id_take_nth_drop [of i rs]) simp_all

lemma put_record: "i < length rs \<Longrightarrow> put_bytes (56 * i) (encode_entry e) (records rs) = records (rs[i := e])"
  by (simp add: records_split [of i rs] upd_conv_take_nth_drop put_bytes_at)

lemma put_record_end: "put_bytes (56 * length rs) (encode_entry e) (records rs) = records (rs @ [e])"
  by (simp add: put_bytes_end)

section \<open>Locking\<close>

definition lock_record :: timestamp_entry where
  "lock_record = entry0\<lparr>te_version := TS_VERSION, te_size := of_nat SIZEOF_ENTRY, te_type := TS_LOCKEXCL\<rparr>"

definition ts_ok :: "timestamp_entry list \<Rightarrow> bool" where
  \<comment> \<open>the first record is the one to lock\<close>
  "ts_ok rs \<longleftrightarrow> rs \<noteq> [] \<and> te_type (hd rs) = TS_LOCKEXCL \<and> (\<forall>r \<in> set rs. sized r)"

lemma sized_lock_record [simp]: "sized lock_record"
  by (simp add: sized_def lock_record_def SIZEOF_ENTRY_def)

lemma ts_ok_lock_record [simp]: "ts_ok [lock_record]"
  by (simp add: ts_ok_def) (simp add: lock_record_def)

lemma lock_first_ok:
  assumes "ts_ok rs" "fd_data fd = records rs" "fd_off fd = 0"
  shows "lock_first_record io fd = (True, fd\<lparr>fd_off := 56\<rparr>)"
proof -
  obtain r rs' where rs: "rs = r # rs'" "te_type r = TS_LOCKEXCL" "sized r" "\<forall>x \<in> set rs'. sized x"
    using assms(1) by (cases rs) (auto simp: ts_ok_def)
  have "before [] (r # rs') fd" using assms rs by (simp add: before_def)
  from read_record [OF this] show ?thesis
    using rs by (simp add: lock_first_record_def SIZEOF_ENTRY_def SIZEOF_ENTRY_V1_def sized_def)
qed

lemma lock_first_new:
  assumes "writes_ok io" "fd_data fd = []" "fd_off fd = 0"
  shows "lock_first_record io fd =
    (True, fd\<lparr>fd_data := records [lock_record], fd_off := 56, fd_calls := fd_calls fd + 2\<rparr>)"
proof -
  have "fd_ftruncate io 0 fd = (True, fd\<lparr>fd_calls := fd_calls fd + 1\<rparr>)"
    using assms by (simp add: fd_ftruncate_def writes_ok_def Let_def)
  moreover have "fd_read SIZEOF_ENTRY fd = ([], fd)" by (simp add: fd_read_def assms(2))
  ultimately show ?thesis using assms
    by (simp add: lock_first_record_def SIZEOF_ENTRY_V1_def timestamp_lock_write_def
        lock_record_def [symmetric] ts_write_full put_bytes_def)
qed

text \<open>Locating a key finds its first record or appends the key.\<close>

definition slot :: "timestamp_entry \<Rightarrow> timestamp_entry list \<Rightarrow> nat" where
  "slot key rs = (case first_match key rs of Some j \<Rightarrow> j | None \<Rightarrow> length rs)"

definition with_slot :: "timestamp_entry \<Rightarrow> timestamp_entry list \<Rightarrow> timestamp_entry list" where
  "with_slot key rs = (case first_match key rs of Some j \<Rightarrow> rs | None \<Rightarrow> rs @ [key])"

lemma locate_records:
  assumes "before pre rs fd" "writes_ok io" "sized key"
  shows "\<exists>fd'. ts_locate io key fd = (length pre + 56 * slot key rs, True, fd') \<and>
    fd_data fd' = pre @ records (with_slot key rs) \<and> fd_held fd' = fd_held fd"
proof (cases "first_match key rs")
  case None
  have d: "fd_data fd = pre @ records rs" using assms(1) by (simp add: before_def)
  have "put_bytes (length pre + 56 * length rs) (encode_entry key) (pre @ records rs) = (pre @ records rs) @ encode_entry key"
    by (rule put_bytes_end) simp
  then show ?thesis using None
    by (simp add: ts_locate_def find_records [OF assms(1)] slot_def with_slot_def ts_write_full [OF assms(2,3)] d)
next
  case (Some j)
  then have "sized (rs ! j)" using assms(1) first_match_Some [OF Some] by (simp add: before_def)
  then show ?thesis using Some assms(1)
    by (simp add: ts_locate_def find_records [OF assms(1)] slot_def with_slot_def sized_def SIZEOF_ENTRY_def before_def)
qed

end
