(* ===== verification/TimestampSafety.thy ===== *)
theory TimestampSafety
  imports TimestampRecords
begin

text \<open>
  When a time stamp is current: only after an update for the same user and terminal that no
  \<open>sudo -k\<close> has undone, in every interleaving of the operations of any number of processes. An
  operation is atomic (the code holds the lock of the first record, or that of the record); the
  writes succeed.
\<close>

section \<open>Keys\<close>

definition own_key :: "ts_context \<Rightarrow> passwd \<Rightarrow> timestamp_entry \<Rightarrow> bool" where
  "own_key ctx pw k \<longleftrightarrow> te_version k = TS_VERSION \<and> sized k \<and> \<not> flag_set TS_ANYUID k \<and> te_auth_uid k = pw_uid pw \<and>
     te_sid k = tc_sid ctx \<and>
     (te_type k = TS_TTY \<and> te_u k = tc_ttydev ctx \<or> te_type k = TS_PPID \<and> u_ppid k = tc_ppid ctx \<or>
      te_type k = TS_GLOBAL)"

lemmas ts_types = TS_TTY_def TS_PPID_def TS_GLOBAL_def TS_LOCKEXCL_def

lemma ucast_pid [simp]: "ucast (ucast (p :: 32 word) :: 64 word) = p"
  by (simp add: ucast_up_ucast_id is_up)

lemma init_key_own:
  "flags = 0 \<or> flags = TS_DISABLED \<Longrightarrow> own_key ctx pw (ts_init_key st ctx (Some pw) flags ticket)"
  by (auto simp: own_key_def ts_init_key_def Let_def flag_set_def TS_ANYUID_def TS_DISABLED_def u_ppid_def sized_def
      SIZEOF_ENTRY_def entry0_def)

lemma init_key_disabled: "flag_set TS_DISABLED (ts_init_key st ctx (Some pw) TS_DISABLED ticket)"
  by (simp add: ts_init_key_def Let_def flag_set_def TS_DISABLED_def entry0_def)

lemma own_key_global: "own_key ctx pw k \<Longrightarrow> own_key ctx pw (k\<lparr>te_type := TS_GLOBAL\<rparr>)"
  by (auto simp: own_key_def flag_set_def)

lemma own_key_match: "own_key ctx pw k \<Longrightarrow> ts_match_record k k"
  by (auto simp: own_key_def ts_match_record_def)

lemma match_type: "ts_match_record k e \<Longrightarrow> te_type e = te_type k \<and> te_version e = te_version k"
  by (auto simp: ts_match_record_def split: if_splits)

lemma own_key_not_lock: "own_key ctx pw k \<Longrightarrow> te_type e = TS_LOCKEXCL \<Longrightarrow> \<not> ts_match_record k e"
  by (auto dest!: match_type simp: own_key_def ts_types)

section \<open>The operations on files of records\<close>

lemma lock_record_data:
  "timestamp_lock_record io pos fd = (b, fd') \<Longrightarrow> fd_data fd' = fd_data fd"
  by (cases pos) (auto simp: timestamp_lock_record_def fd_seek_def Let_def split: if_splits)

lemma lock_record_off:
  "timestamp_lock_record io (Some p) fd = (b, fd') \<Longrightarrow> fd_off fd' = p"
  by (auto simp: timestamp_lock_record_def fd_seek_def Let_def split: if_splits)

lemma unlock_record_data [simp]: "fd_data (timestamp_unlock_record pos fd) = fd_data fd"
  by (simp add: timestamp_unlock_record_def fd_seek_def Let_def)

definition extends :: "timestamp_entry list \<Rightarrow> timestamp_entry list \<Rightarrow> bool" where
  \<comment> \<open>only disabled records are added\<close>
  "extends rs rs' \<longleftrightarrow> (\<exists>new. rs' = rs @ new \<and> (\<forall>r \<in> set new. sized r \<and> flag_set TS_DISABLED r))"

lemma extends_refl [simp]: "extends rs rs"
  by (simp add: extends_def)

lemma extends_trans [trans]: "extends rs ss \<Longrightarrow> extends ss ts \<Longrightarrow> extends rs ts"
  by (auto simp: extends_def)

lemma extends_Cons: "extends rs ss \<Longrightarrow> extends (r # rs) (r # ss)"
  by (auto simp: extends_def)

lemma extends_ok: "ts_ok rs \<Longrightarrow> extends rs ss \<Longrightarrow> ts_ok ss"
  by (auto simp: ts_ok_def extends_def)

lemma with_slot_extends: "sized k \<Longrightarrow> flag_set TS_DISABLED k \<Longrightarrow> extends rs (with_slot k rs)"
  by (auto simp: with_slot_def extends_def split: option.split)

lemma with_slot_match:
  assumes "ts_match_record k k"
  shows "slot k rs < length (with_slot k rs)" "ts_match_record k (with_slot k rs ! slot k rs)"
  using assms first_match_Some [of k rs] by (auto simp: slot_def with_slot_def split: option.split)

definition new_file :: "timestamp_entry list \<Rightarrow> timestamp_entry list" where
  "new_file rs = (if rs = [] then [lock_record] else rs)"

lemma lock_first_records:
  assumes "writes_ok io" "rs = [] \<or> ts_ok rs" "fd_data fd = records rs" "fd_off fd = 0"
  shows "\<exists>fd'. lock_first_record io fd = (True, fd') \<and> fd_data fd' = records (new_file rs) \<and> fd_off fd' = 56"
proof (cases "rs = []")
  case True
  then show ?thesis using lock_first_new [OF assms(1) _ assms(4)] assms(3) by (simp add: new_file_def)
next
  case False
  then show ?thesis using lock_first_ok [OF _ assms(3,4)] assms(2,3) by (simp add: new_file_def)
qed

text \<open>What \<open>timestamp_lock\<close> does to a file of records.\<close>

definition locked_at :: "ts_context \<Rightarrow> passwd \<Rightarrow> timestamp_entry list \<Rightarrow> ts_cookie \<Rightarrow> bool" where
  "locked_at ctx pw rs c \<longleftrightarrow> own_key ctx pw (ck_key c) \<and>
     (\<exists>i < length rs. ck_pos c = Some (56 * i) \<and> ts_match_record (ck_key c) (rs ! i))"

lemma lock_records:
  assumes io: "writes_ok io" and rs: "rs = [] \<or> ts_ok rs" and fd: "fd_data fd = records rs"
    and lock: "timestamp_lock io st df ctx pw (c, fd) = (b, c', fd')"
  shows "\<exists>rs'. fd_data fd' = records rs' \<and>
    (extends (new_file rs) rs' \<and> locked_at ctx pw rs' c' \<and> (te_type (ck_key c') = TS_GLOBAL \<longrightarrow> def_timestamp_type df = Global) \<or>
     rs' = rs \<and> c' = c \<and> \<not> b)"
proof (cases "timestamp_lock_record io (Some 0) fd")
  case (Pair b1 fd1)
  define key where "key = ts_init_key_nonglobal st df ctx (Some pw) TS_DISABLED"
  have own: "own_key ctx pw key" by (simp add: key_def ts_init_key_nonglobal_def init_key_own)
  have dis: "flag_set TS_DISABLED key" by (simp add: key_def ts_init_key_nonglobal_def init_key_disabled)
  have local: "te_type key \<noteq> TS_GLOBAL" by (simp add: key_def ts_init_key_nonglobal_def ts_init_key_def Let_def ts_types)
  have d1: "fd_data fd1 = records rs" "fd_off fd1 = 0" using lock_record_data [OF Pair] lock_record_off [OF Pair] fd by simp_all
  show ?thesis
  proof (cases b1)
    case False
    then show ?thesis using lock d1 by (auto simp: timestamp_lock_def Pair)
  next
    case True
    obtain fd2 where l2: "lock_first_record io fd1 = (True, fd2)" "fd_data fd2 = records (new_file rs)" "fd_off fd2 = 56"
      using lock_first_records [OF io rs d1] by blast
    obtain r0 base where base: "new_file rs = r0 # base" "ts_ok (r0 # base)"
      using rs ts_ok_lock_record by (cases "new_file rs") (auto simp: new_file_def split: if_splits)
    have "before (encode_entry r0) base fd2" using l2 base by (simp add: before_def ts_ok_def)
    from locate_records [OF this io] own
    obtain fd3 where l3: "ts_locate io key fd2 = (56 + 56 * slot key base, True, fd3)"
      "fd_data fd3 = records (r0 # with_slot key base)" by (auto simp: own_key_def)
    have ext: "extends (new_file rs) (r0 # with_slot key base)"
      using own dis by (auto simp: base own_key_def intro!: extends_Cons with_slot_extends)
    have at: "slot key base < length (with_slot key base)" "ts_match_record key (with_slot key base ! slot key base)"
      using with_slot_match own_key_match [OF own] by blast+
    note steps = timestamp_lock_def Pair True l2(1) key_def [symmetric] l3(1) Let_def
    show ?thesis
    proof (cases "def_timestamp_type df = Global")
      case False
      have "fd_data fd' = fd_data fd3"
        "c' = c\<lparr>ck_key := key, ck_pos := Some (56 + 56 * slot key base), ck_locked := True\<rparr>"
        using lock False by (auto simp: steps dest!: lock_record_data split: prod.splits)
      then have "fd_data fd' = records (r0 # with_slot key base)" "locked_at ctx pw (r0 # with_slot key base) c'"
        using l3(2) own at by (auto simp: locked_at_def intro!: exI [of _ "Suc (slot key base)"])
      moreover have "te_type (ck_key c') \<noteq> TS_GLOBAL" using \<open>c' = _\<close> local by simp
      ultimately show ?thesis using ext by blast
    next
      case global: True
      let ?k = "key\<lparr>te_type := TS_GLOBAL\<rparr>" and ?rs = "r0 # with_slot key base"
      have own': "own_key ctx pw ?k" using own by (rule own_key_global)
      have dis': "flag_set TS_DISABLED ?k" using dis by (simp add: flag_set_def)
      have sized': "sized ?k" using own' by (simp add: own_key_def)
      have "ts_ok ?rs" using extends_ok [OF base(2)] ext by (simp add: base(1))
      then have "before [] ?rs (fd_seek 0 fd3)" using l3(2) by (simp add: before_def fd_seek_def ts_ok_def)
      from locate_records [OF this io sized']
      obtain fd4 where l4: "ts_locate io ?k (fd_seek 0 fd3) = (56 * slot ?k ?rs, True, fd4)"
        "fd_data fd4 = records (with_slot ?k ?rs)" by auto
      have "fd_data fd' = fd_data fd4" "c' = c\<lparr>ck_key := ?k, ck_locked := False, ck_pos := Some (56 * slot ?k ?rs)\<rparr>"
        using lock global by (auto simp: steps l4(1) dest!: lock_record_data split: prod.splits)
      then have "fd_data fd' = records (with_slot ?k ?rs)" "locked_at ctx pw (with_slot ?k ?rs) c'"
        using l4(2) own' with_slot_match [OF own_key_match [OF own'], of ?rs] by (auto simp: locked_at_def)
      moreover have "extends (new_file rs) (with_slot ?k ?rs)"
        using ext with_slot_extends [OF sized' dis', of ?rs] by (rule extends_trans)
      ultimately show ?thesis using global by blast
    qed
  qed
qed

lemma pread_record:
  "i < length rs \<Longrightarrow> fd_data fd = records rs \<Longrightarrow> fd_pread SIZEOF_ENTRY (56 * i) fd = encode_entry (rs ! i)"
  by (simp add: fd_pread_def records_split [of i rs] SIZEOF_ENTRY_def)

lemma status_records:
  assumes "writes_ok io" "ts_ok rs" "fd_data fd = records rs" "i < length rs" "ck_pos c = Some (56 * i)"
    and "timestamp_status io df ctx now (Some (c, fd)) = (s, r)"
  shows "\<exists>fd'. r = Some (c, fd') \<and> fd_data fd' \<in> {records rs, records (rs[i := set_flag TS_DISABLED (rs ! i)])} \<and>
    (s = TS_CURRENT \<longrightarrow> fst (entry_status df ctx now (rs ! i)) = TS_CURRENT)"
proof -
  have sized: "sized (rs ! i)" using assms(2,4) by (simp add: ts_ok_def)
  have wr: "fd_data (snd (ts_write io (set_flag TS_DISABLED (rs ! i)) (Some (56 * i)) fd1)) =
      records (rs[i := set_flag TS_DISABLED (rs ! i)])" if "fd_data fd1 = records rs" for fd1
    using ts_write_full [OF assms(1)] sized that put_record [OF assms(4)] by simp
  obtain o1 fd1 where r: "ts_read io c (56 * i) fd = (o1, fd1)" by fastforce
  have fd1: "fd_data fd1 = records rs" "o1 = None \<or> o1 = Some (encode_entry (rs ! i))"
    using r assms(3) pread_record [OF assms(4)] lock_record_data [of io "Some (56 * i)" fd]
    by (auto simp: ts_read_def split: if_splits prod.splits bool.splits)
  show ?thesis
  proof (cases "sudo_timespecisset (def_timestamp_timeout df) \<and> o1 \<noteq> None")
    case False
    then show ?thesis using assms(3,5,6) fd1 by (auto simp: timestamp_status_def r split: if_splits)
  next
    case True
    obtain s1 d where e: "entry_status df ctx now (rs ! i) = (s1, d)" by fastforce
    have "s = s1" "r = Some (c, if d then snd (ts_write io (set_flag TS_DISABLED (rs ! i)) (Some (56 * i)) fd1) else fd1)"
      using True assms(5,6) fd1(2) by (auto simp: timestamp_status_def r e SIZEOF_ENTRY_def)
    then show ?thesis using wr [OF fd1(1)] fd1(1) by (simp add: e)
  qed
qed

lemma update_records:
  assumes "writes_ok io" "fd_data fd = records rs" "i < length rs" "ck_pos c = Some (56 * i)" "sized (ck_key c)"
    and "timestamp_update io df now (Some (c, fd)) = (b, r)"
  shows "\<exists>c' fd' k. r = Some (c', fd') \<and>
    (b \<and> (\<exists>t. now = Some t \<and> k = (clear_flag TS_DISABLED (ck_key c))\<lparr>te_ts := t\<rparr>) \<and>
       fd_data fd' = records (rs[i := k]) \<or> \<not> b \<and> fd_data fd' = records rs \<and> k = clear_flag TS_DISABLED (ck_key c)) \<and>
    (c' = c\<lparr>ck_key := k\<rparr> \<or> c' = c \<and> \<not> b)"
proof (cases "sudo_timespecisset (def_timestamp_timeout df) \<and> now \<noteq> None")
  case False
  then show ?thesis using assms by (auto simp: timestamp_update_def Let_def split: if_splits option.splits)
next
  case True
  then obtain t where t: "now = Some t" by blast
  then show ?thesis
    using True assms ts_write_full [OF assms(1), of "(clear_flag TS_DISABLED (ck_key c))\<lparr>te_ts := t\<rparr>" "Some (56 * i)" fd]
      put_record [OF assms(3)]
    by (auto simp: timestamp_update_def Let_def)
qed

text \<open>\<open>sudo -k\<close> disables the records that match.\<close>

definition disable :: "timestamp_entry \<Rightarrow> timestamp_entry \<Rightarrow> timestamp_entry" where
  "disable k r = (if ts_match_record k r then set_flag TS_DISABLED r else r)"

lemma set_flag_disabled: "flag_set TS_DISABLED r \<Longrightarrow> set_flag TS_DISABLED r = r"
  by (simp add: flag_set_def set_flag_def TS_DISABLED_def and_one_eq or_one_eq odd_iff_mod_2_eq_one)

lemma type_set_flag [simp]: "te_type (set_flag f e) = te_type e"
  by (simp add: set_flag_def)

lemma disabled_set_flag [simp]: "flag_set TS_DISABLED (set_flag TS_DISABLED r)"
proof -
  have "and (or f 1) 1 = 1" for f :: "16 word" by (rule bit_eqI) (auto simp: bit_simps)
  then show ?thesis by (simp add: flag_set_def set_flag_def TS_DISABLED_def)
qed

lemma remove_records:
  "writes_ok io \<Longrightarrow> before pre rs fd \<Longrightarrow>
   \<exists>fd'. remove_loop io k ret fd = Some (ret, fd') \<and> fd_data fd' = pre @ records (map (disable k) rs)"
proof (induction rs arbitrary: pre fd)
  case Nil
  then show ?case
    by (subst remove_loop.simps) (auto simp: find_Nil before_def)
next
  case (Cons r rs)
  let ?next = "fd\<lparr>fd_off := length pre + 56\<rparr>"
  note find = find_Cons [OF Cons.prems(2), of k] and next_ok = before_next [OF Cons.prems(2)]
  consider (other) "\<not> ts_match_record k r" | (off) "ts_match_record k r" "flag_set TS_DISABLED r"
    | (on) "ts_match_record k r" "\<not> flag_set TS_DISABLED r" by blast
  then show ?case
  proof cases
    case other
    have "remove_loop io k ret fd = remove_loop io k ret ?next"
      by (subst (1 2) remove_loop.simps) (simp add: find other)
    then show ?thesis using Cons.IH [OF Cons.prems(1) next_ok] other by (auto simp: disable_def)
  next
    case off
    have "remove_loop io k ret fd = remove_loop io k ret ?next"
      by (subst (1) remove_loop.simps) (simp add: find off)
    then show ?thesis using Cons.IH [OF Cons.prems(1) next_ok] off by (auto simp: disable_def set_flag_disabled)
  next
    case on
    let ?r = "set_flag TS_DISABLED r"
    let ?fd = "fd\<lparr>fd_data := pre @ encode_entry ?r @ records rs, fd_off := length pre + 56, fd_calls := fd_calls fd + 1\<rparr>"
    have b: "fd_data fd = pre @ encode_entry r @ records rs" "sized ?r" using Cons.prems(2) by (simp_all add: before_def)
    have "ts_write io ?r None (fd\<lparr>fd_off := length pre\<rparr>) = (True, ?fd)"
      using ts_write_full [OF Cons.prems(1) b(2)] b(1) put_bytes_at [of pre _ "encode_entry ?r" "encode_entry r"] by simp
    then have "remove_loop io k ret fd = remove_loop io k ret ?fd"
      by (subst (1) remove_loop.simps) (simp add: find on fd_seek_def SIZEOF_ENTRY_def)
    moreover have "before (pre @ encode_entry ?r) rs ?fd" using Cons.prems(2) by (simp add: before_def)
    from Cons.IH [OF Cons.prems(1) this] have "\<exists>fd'. remove_loop io k ret ?fd = Some (ret, fd') \<and>
        fd_data fd' = (pre @ encode_entry ?r) @ records (map (disable k) rs)" .
    moreover have "disable k r = ?r" using on by (simp add: disable_def)
    ultimately show ?thesis by simp
  qed
qed

section \<open>Histories\<close>

datatype ts_event = Updated timestamp_entry | Removed_key timestamp_entry

text \<open>
  The file, the cookies that processes hold on it, and what was written, latest first. A process
  locks, asks and updates at any moment, with whatever Defaults, clock and table of processes.
\<close>

inductive ts_history :: "bytes \<Rightarrow> (ts_context \<times> passwd \<times> ts_cookie) list \<Rightarrow> ts_event list \<Rightarrow> bool" where
  start: "ts_history [] [] []"
| lock: "ts_history data cs log \<Longrightarrow> writes_ok io \<Longrightarrow> fd_data fd = data \<Longrightarrow>
    timestamp_lock io st df ctx pw (c, fd) = (b, c', fd') \<Longrightarrow>
    ts_history (fd_data fd') (if b then (ctx, pw, c') # cs else cs) log"
| status: "ts_history data cs log \<Longrightarrow> writes_ok io \<Longrightarrow> fd_data fd = data \<Longrightarrow> (ctx, pw, c) \<in> set cs \<Longrightarrow>
    timestamp_status io df ctx now (Some (c, fd)) = (s, Some (c', fd')) \<Longrightarrow> ts_history (fd_data fd') cs log"
| update: "ts_history data cs log \<Longrightarrow> writes_ok io \<Longrightarrow> fd_data fd = data \<Longrightarrow> (ctx, pw, c) \<in> set cs \<Longrightarrow>
    timestamp_update io df now (Some (c, fd)) = (b, Some (c', fd')) \<Longrightarrow>
    ts_history (fd_data fd') ((ctx, pw, c') # cs) (if b then Updated (ck_key c') # log else log)"
| remove: "ts_history data cs log \<Longrightarrow> writes_ok io \<Longrightarrow> fd_data fd = data \<Longrightarrow> fd_off fd = 0 \<Longrightarrow>
    timestamp_remove io st df ctx fd = Some (r, fd') \<Longrightarrow> r \<noteq> Remove_error \<Longrightarrow>
    ts_history (fd_data fd') cs (Removed_key (ts_init_key st ctx None 0 (def_timestamp_type df)) # log)"

definition justified :: "ts_event list \<Rightarrow> timestamp_entry \<Rightarrow> bool" where
  \<comment> \<open>written by an update that nothing has undone since\<close>
  "justified log e \<longleftrightarrow> (\<exists>later earlier. log = later @ Updated e # earlier \<and>
     (\<forall>k. Removed_key k \<in> set later \<longrightarrow> \<not> ts_match_record k e))"

lemma justified_new [simp]: "justified (Updated e # log) e"
  by (auto simp: justified_def intro: exI [of _ "[]"])

lemma justified_other: "justified log e \<Longrightarrow> (\<And>k. ev = Removed_key k \<Longrightarrow> \<not> ts_match_record k e) \<Longrightarrow> justified (ev # log) e"
proof -
  assume "justified log e" and ev: "\<And>k. ev = Removed_key k \<Longrightarrow> \<not> ts_match_record k e"
  then obtain later earlier where "log = later @ Updated e # earlier"
    "\<forall>k. Removed_key k \<in> set later \<longrightarrow> \<not> ts_match_record k e" by (auto simp: justified_def)
  then show ?thesis unfolding justified_def using ev by (intro exI [of _ "ev # later"] exI [of _ earlier]) auto
qed

definition file_inv :: "timestamp_entry list \<Rightarrow> (ts_context \<times> passwd \<times> ts_cookie) list \<Rightarrow> ts_event list \<Rightarrow> bool" where
  "file_inv rs cs log \<longleftrightarrow> (rs = [] \<and> cs = [] \<or> ts_ok rs) \<and> (\<forall>(ctx, pw, c) \<in> set cs. locked_at ctx pw rs c) \<and>
     (\<forall>r \<in> set rs. te_type r = TS_LOCKEXCL \<or> flag_set TS_DISABLED r \<or> justified log r)"

lemma match_agrees:
  "ts_match_record a e \<Longrightarrow> \<not> flag_set TS_ANYUID a \<Longrightarrow> ts_match_record k a = ts_match_record k e"
  by (auto simp: ts_match_record_def ts_types split: if_splits)

lemma locked_extends: "locked_at ctx pw rs c \<Longrightarrow> extends rs rs' \<Longrightarrow> locked_at ctx pw rs' c"
  by (fastforce simp: locked_at_def extends_def nth_append)

lemma locked_map:
  assumes "locked_at ctx pw rs c" "length rs' = length rs"
    and "\<And>i k. i < length rs \<Longrightarrow> ts_match_record k (rs' ! i) = ts_match_record k (rs ! i)"
  shows "locked_at ctx pw rs' c"
  using assms by (auto simp: locked_at_def)

lemma inv_lock:
  assumes "file_inv rs cs log" "writes_ok io" "fd_data fd = records rs"
    and "timestamp_lock io st df ctx pw (c, fd) = (b, c', fd')"
  shows "\<exists>rs'. fd_data fd' = records rs' \<and> file_inv rs' (if b then (ctx, pw, c') # cs else cs) log"
proof -
  have "rs = [] \<or> ts_ok rs" using assms(1) by (auto simp: file_inv_def)
  from lock_records [OF assms(2) this assms(3,4)] obtain rs' where
    rs': "fd_data fd' = records rs'" "extends (new_file rs) rs' \<and> locked_at ctx pw rs' c' \<or> rs' = rs \<and> \<not> b" by blast
  show ?thesis
  proof (cases "rs' = rs \<and> \<not> b")
    case True
    then show ?thesis using assms(1) rs'(1) by auto
  next
    case False
    then have ext: "extends (new_file rs) rs'" "locked_at ctx pw rs' c'" using rs'(2) by blast+
    have "ts_ok (new_file rs)" using assms(1) by (auto simp: file_inv_def new_file_def)
    then have "ts_ok rs'" using ext(1) by (rule extends_ok)
    moreover have "locked_at x y rs' z" if "(x, y, z) \<in> set cs" for x y z
    proof -
      have "new_file rs = rs" using that assms(1) by (auto simp: file_inv_def new_file_def ts_ok_def)
      moreover have "locked_at x y rs z" using that assms(1) by (auto simp: file_inv_def)
      ultimately show ?thesis using locked_extends ext(1) by metis
    qed
    moreover have "te_type r = TS_LOCKEXCL \<or> flag_set TS_DISABLED r \<or> justified log r" if "r \<in> set rs'" for r
    proof -
      have "r \<in> set rs \<or> r = lock_record \<or> flag_set TS_DISABLED r"
        using that ext(1) by (auto simp: extends_def new_file_def split: if_splits)
      then show ?thesis using assms(1) by (auto simp: file_inv_def lock_record_def)
    qed
    ultimately have "file_inv rs' (if b then (ctx, pw, c') # cs else cs) log"
      using ext(2) by (auto simp: file_inv_def)
    then show ?thesis using rs'(1) by blast
  qed
qed

lemma inv_locked: "file_inv rs cs log \<Longrightarrow> (ctx, pw, c) \<in> set cs \<Longrightarrow> ts_ok rs \<and> locked_at ctx pw rs c"
  by (auto simp: file_inv_def)

lemma inv_replace:
  assumes inv: "file_inv rs cs log" and ok: "ts_ok rs" and i: "i < length rs" and e: "sized e" "te_type e = te_type (rs ! i)"
    and same: "\<And>k. ts_match_record k e = ts_match_record k (rs ! i)"
    and just: "flag_set TS_DISABLED e \<or> justified log' e" "\<And>r. justified log r \<Longrightarrow> justified log' r"
  shows "file_inv (rs[i := e]) cs log'"
  unfolding file_inv_def
proof (intro conjI ballI)
  have "te_type (hd (rs[i := e])) = te_type (hd rs)" using i e(2) by (cases rs; cases i) simp_all
  moreover have "sized r" if "r \<in> set (rs[i := e])" for r
    using that ok e(1) set_update_subset_insert [of rs i e] by (auto simp: ts_ok_def)
  ultimately show "rs[i := e] = [] \<and> cs = [] \<or> ts_ok (rs[i := e])" using ok by (auto simp: ts_ok_def)
  fix x assume "x \<in> set cs"
  moreover obtain ctx pw c where "x = (ctx, pw, c)" by (cases x)
  ultimately have x: "x = (ctx, pw, c)" "locked_at ctx pw rs c" using inv_locked [OF inv] by blast+
  have "ts_match_record k (rs[i := e] ! j) = ts_match_record k (rs ! j)" if "j < length rs" for j k
    using that i same by (cases "j = i") simp_all
  then have "locked_at ctx pw (rs[i := e]) c" by (intro locked_map [OF x(2)]) simp_all
  then show "case x of (ctx, pw, c) \<Rightarrow> locked_at ctx pw (rs[i := e]) c" by (simp add: x(1))
next
  fix r assume "r \<in> set (rs[i := e])"
  then have "r \<in> set rs \<or> r = e" using set_update_subset_insert [of rs i e] by auto
  then show "te_type r = TS_LOCKEXCL \<or> flag_set TS_DISABLED r \<or> justified log' r"
    using inv just by (auto simp: file_inv_def)
qed

lemma inv_status:
  assumes "file_inv rs cs log" "writes_ok io" "fd_data fd = records rs" "(ctx, pw, c) \<in> set cs"
    and "timestamp_status io df ctx now (Some (c, fd)) = (s, Some (c', fd'))"
  shows "\<exists>rs'. fd_data fd' = records rs' \<and> file_inv rs' cs log"
proof -
  have ok: "ts_ok rs" using inv_locked assms(1,4) by blast
  obtain i where i: "i < length rs" "ck_pos c = Some (56 * i)"
    using inv_locked [OF assms(1,4)] by (auto simp: locked_at_def)
  have "file_inv (rs[i := set_flag TS_DISABLED (rs ! i)]) cs log"
    by (rule inv_replace [OF assms(1) ok i(1)]) (use ok i(1) in \<open>auto simp: ts_ok_def\<close>)
  then show ?thesis using status_records [OF assms(2) ok assms(3) i assms(5)] assms(1) by auto
qed

lemma own_key_clear: "own_key ctx pw k \<Longrightarrow> own_key ctx pw (clear_flag TS_DISABLED k)"
proof -
  have "and (and (te_flags k) (not 1)) 2 = and (te_flags k) 2"
    by (rule bit_eqI) (auto simp: bit_simps)
  then show "own_key ctx pw k \<Longrightarrow> own_key ctx pw (clear_flag TS_DISABLED k)"
    by (auto simp: own_key_def flag_set_def clear_flag_def TS_ANYUID_def TS_DISABLED_def u_ppid_def sized_def)
qed

lemma match_clear [simp]: "ts_match_record k (clear_flag f e) = ts_match_record k e"
  "ts_match_record k (e\<lparr>te_ts := t\<rparr>) = ts_match_record k e"
  by (simp_all add: ts_match_record_def clear_flag_def u_ppid_def)

lemma own_key_ts: "own_key ctx pw k \<Longrightarrow> own_key ctx pw (k\<lparr>te_ts := t\<rparr>)"
  by (auto simp: own_key_def flag_set_def u_ppid_def sized_def)

lemma own_key_matches: "own_key ctx pw k \<Longrightarrow> ts_match_record (clear_flag TS_DISABLED k) e \<longleftrightarrow> ts_match_record k e"
  using own_key_clear [of ctx pw k]
  by (auto simp: own_key_def ts_match_record_def clear_flag_def u_ppid_def)

lemma own_key_matches_ts: "ts_match_record (k\<lparr>te_ts := t\<rparr>) e \<longleftrightarrow> ts_match_record k e"
  by (auto simp: ts_match_record_def u_ppid_def flag_set_def)

lemma inv_update:
  assumes "file_inv rs cs log" "writes_ok io" "fd_data fd = records rs" "(ctx, pw, c) \<in> set cs"
    and "timestamp_update io df now (Some (c, fd)) = (b, Some (c', fd'))"
  shows "\<exists>rs'. fd_data fd' = records rs' \<and>
    file_inv rs' ((ctx, pw, c') # cs) (if b then Updated (ck_key c') # log else log)"
proof -
  have ok: "ts_ok rs" using inv_locked assms(1,4) by blast
  obtain i where i: "i < length rs" "ck_pos c = Some (56 * i)" "ts_match_record (ck_key c) (rs ! i)" "own_key ctx pw (ck_key c)"
    using inv_locked [OF assms(1,4)] by (auto simp: locked_at_def)
  have "sized (ck_key c)" using i(4) by (simp add: own_key_def)
  from update_records [OF assms(2,3) i(1,2) this assms(5)] obtain k where
    k: "b \<and> (\<exists>t. k = (clear_flag TS_DISABLED (ck_key c))\<lparr>te_ts := t\<rparr>) \<and> fd_data fd' = records (rs[i := k]) \<or>
        \<not> b \<and> fd_data fd' = records rs \<and> k = clear_flag TS_DISABLED (ck_key c)"
    "c' = c\<lparr>ck_key := k\<rparr> \<or> c' = c \<and> \<not> b" by auto
  have own: "own_key ctx pw k" using k(1) own_key_clear [OF i(4)] own_key_ts by blast
  have hit: "ts_match_record k (rs ! i)"
    using k(1) own_key_matches [OF i(4)] own_key_matches_ts i(3) by blast
  have same: "ts_match_record j k = ts_match_record j (rs ! i)" for j
    using match_agrees [OF hit] own by (simp add: own_key_def)
  have at: "locked_at ctx pw rs c'" using k(2) own hit i by (auto simp: locked_at_def)
  show ?thesis
  proof (cases b)
    case False
    have "rs \<noteq> []" using ok by (auto simp: ts_ok_def)
    then have "file_inv rs ((ctx, pw, c') # cs) log" using at assms(1) by (simp add: file_inv_def)
    then show ?thesis using k(1) False by auto
  next
    case True
    let ?log = "Updated k # log"
    have r: "fd_data fd' = records (rs[i := k])" "ck_key c' = k" using True k by auto
    have "file_inv (rs[i := k]) cs ?log"
    proof (rule inv_replace [OF assms(1) ok i(1)])
      show "te_type k = te_type (rs ! i)" using match_type [OF hit] by simp
    qed (use own same in \<open>auto simp: own_key_def intro: justified_other\<close>)
    moreover have "locked_at ctx pw (rs[i := k]) c'"
      using at by (rule locked_map) (use i(1) in \<open>auto simp: same nth_list_update\<close>)
    ultimately have "file_inv (rs[i := k]) ((ctx, pw, c') # cs) ?log" using i(1) by (auto simp: file_inv_def)
    then show ?thesis using r True by auto
  qed
qed

lemma match_disable [simp]: "ts_match_record j (disable k r) = ts_match_record j r"
  "sized (disable k r) = sized r" "te_type (disable k r) = te_type r"
  by (simp_all add: disable_def)

lemma remove_file:
  assumes "writes_ok io" "fd_data fd = records rs" "\<forall>r \<in> set rs. sized r" "fd_off fd = 0"
    and "timestamp_remove io st df ctx fd = Some (r, fd')" "r \<noteq> Remove_error"
  shows "fd_data fd' = records (map (disable (ts_init_key st ctx None 0 (def_timestamp_type df))) rs)"
proof -
  obtain b fd1 where l: "timestamp_lock_record io None fd = (b, fd1)" by fastforce
  have "fd_off fd1 = fd_off fd" using l by (auto simp: timestamp_lock_record_def Let_def split: if_splits)
  then have "before [] rs fd1" using assms(2-4) lock_record_data [OF l] by (simp add: before_def)
  from remove_records [OF assms(1) this, of "ts_init_key st ctx None 0 (def_timestamp_type df)" True] show ?thesis
    using assms(5,6) l by (auto simp: timestamp_remove_def split: bool.splits)
qed

lemma inv_remove:
  assumes "file_inv rs cs log" "te_type k \<noteq> TS_LOCKEXCL"
  shows "file_inv (map (disable k) rs) cs (Removed_key k # log)"
  unfolding file_inv_def
proof (intro conjI ballI)
  show "map (disable k) rs = [] \<and> cs = [] \<or> ts_ok (map (disable k) rs)"
    using assms(1) by (auto simp: file_inv_def ts_ok_def hd_map)
  fix x assume "x \<in> set cs"
  moreover obtain ctx pw c where "x = (ctx, pw, c)" by (cases x)
  ultimately show "case x of (ctx, pw, c) \<Rightarrow> locked_at ctx pw (map (disable k) rs) c"
    using inv_locked [OF assms(1)] locked_map [of ctx pw rs c "map (disable k) rs"] by simp
next
  fix r assume "r \<in> set (map (disable k) rs)"
  then obtain r0 where r: "r0 \<in> set rs" "r = disable k r0" by auto
  then have "te_type r0 = TS_LOCKEXCL \<or> flag_set TS_DISABLED r0 \<or> justified log r0" using assms(1) by (auto simp: file_inv_def)
  then show "te_type r = TS_LOCKEXCL \<or> flag_set TS_DISABLED r \<or> justified (Removed_key k # log) r"
    by (cases "ts_match_record k r0") (auto simp: r(2) disable_def set_flag_disabled intro: justified_other)
qed

lemma init_key_type: "te_type (ts_init_key st ctx pw f ticket) \<noteq> TS_LOCKEXCL"
  by (simp add: ts_init_key_def Let_def ts_types)

lemma history_inv: "ts_history data cs log \<Longrightarrow> \<exists>rs. data = records rs \<and> file_inv rs cs log"
proof (induction rule: ts_history.induct)
  case start
  show ?case by (intro exI [of _ "[]"]) (simp add: file_inv_def)
next
  case (lock data cs log io fd st df ctx pw c b c' fd')
  then show ?case using inv_lock [of _ cs log io fd] by blast
next
  case (status data cs log io fd ctx pw c df now s c' fd')
  then show ?case using inv_status [of _ cs log io fd] by blast
next
  case (update data cs log io fd ctx pw c df now b c' fd')
  then show ?case using inv_update [of _ cs log io fd] by blast
next
  case (remove data cs log io fd st df ctx r fd')
  then obtain rs where rs: "data = records rs" "file_inv rs cs log" by blast
  have "\<forall>r \<in> set rs. sized r" using rs(2) by (auto simp: file_inv_def ts_ok_def)
  from remove_file [OF remove(2) _ this remove(4-6)] show ?case
    using remove(3) rs inv_remove [OF rs(2) init_key_type] by metis
qed

section \<open>When a record is current\<close>

definition nanos :: "timespec \<Rightarrow> int" where
  "nanos t = sint (tv_sec t) * 1000000000 + sint (tv_nsec t)"

definition normal :: "timespec \<Rightarrow> bool" where
  "normal t \<longleftrightarrow> 0 \<le> sint (tv_nsec t) \<and> sint (tv_nsec t) < 1000000000"

lemma valid_normal: "TIMESPEC_VALID t \<longleftrightarrow> normal t \<and> 0 \<le> sint (tv_sec t)"
  by (auto simp: TIMESPEC_VALID_def normal_def)

lemma sint_diff:
  assumes "- (2 ^ 63) \<le> sint a - sint b" "sint a - sint b < 2 ^ 63"
  shows "sint (a - b :: 64 word) = sint a - sint b"
proof -
  have "sint (a - b) = signed_take_bit 63 (sint a - sint b)" by (simp add: sint_word_ariths)
  then show ?thesis using assms by (simp add: signed_take_bit_int_eq_self)
qed

lemma sint64: "sint (a :: 64 word) < 2 ^ 63"
  using sint_less [of a] by simp

lemma timespecsub_nanos:
  assumes "TIMESPEC_VALID a" "TIMESPEC_VALID b"
  shows "normal (sudo_timespecsub a b) \<and> nanos (sudo_timespecsub a b) = nanos a - nanos b"
proof -
  have sec: "sint (tv_sec a - tv_sec b) = sint (tv_sec a) - sint (tv_sec b)"
    using assms sint64 [of "tv_sec a"] sint64 [of "tv_sec b"] by (intro sint_diff) (simp_all add: valid_normal)
  have nsec: "sint (tv_nsec a - tv_nsec b) = sint (tv_nsec a) - sint (tv_nsec b)"
    using assms by (intro sint_diff) (simp_all add: valid_normal normal_def)
  show ?thesis
  proof (cases "sint (tv_nsec a) < sint (tv_nsec b)")
    case False
    then show ?thesis using assms sec nsec
      by (simp add: sudo_timespecsub_def timespec_borrow.simps normal_def nanos_def valid_normal)
  next
    case True
    have one: "sint (tv_sec a - tv_sec b - 1) = sint (tv_sec a) - sint (tv_sec b) - 1"
      using assms sec sint64 [of "tv_sec a"] sint64 [of "tv_sec b"]
      by (subst sint_diff) (simp_all add: valid_normal)
    have borrow: "sint (tv_nsec a - tv_nsec b + 1000000000) = sint (tv_nsec a) - sint (tv_nsec b) + 1000000000"
      using sint_borrow [of "tv_nsec a - tv_nsec b"] nsec True by simp
    have "sudo_timespecsub a b = \<lparr>tv_sec = tv_sec a - tv_sec b - 1, tv_nsec = tv_nsec a - tv_nsec b + 1000000000\<rparr>"
      using assms True nsec borrow
      by (simp add: sudo_timespecsub_def timespec_borrow.simps valid_normal normal_def)
    then show ?thesis using assms True one borrow by (simp add: normal_def nanos_def valid_normal algebra_simps)
  qed
qed

lemma timespec_less_nanos:
  assumes "normal a" "normal b"
  shows "timespec_less a b \<longleftrightarrow> nanos a < nanos b"
proof -
  have "tv_sec a = tv_sec b \<longleftrightarrow> sint (tv_sec a) = sint (tv_sec b)" by (auto intro: signed_word_eqI)
  then show ?thesis using assms by (auto simp: timespec_less_def nanos_def normal_def)
qed

lemma nanos_nonneg: "normal t \<Longrightarrow> 0 \<le> nanos t \<longleftrightarrow> 0 \<le> sint (tv_sec t)"
  by (auto simp: nanos_def normal_def)


lemma entry_current:
  assumes "fst (entry_status df ctx now e) = TS_CURRENT"
  shows "\<not> flag_set TS_DISABLED e" "te_type e = TS_GLOBAL \<or> te_sid e = tc_sid ctx"
    "timespec_less (def_timestamp_timeout df) timespec0 \<or> (\<exists>t. now = Some t)"
  using assms by (auto simp: entry_status_def Let_def split: if_splits option.splits)


end
