(* ===== verification/TimestampFaults.thy ===== *)
theory TimestampFaults
  imports TimestampSafety
begin

text \<open>
  What \<open>sudo -k\<close> achieves and when it returns, and three weaknesses of the time stamp file: a
  ticket type that \<open>sudo -k\<close> does not undo, a loop on a file that cannot be written, and a file that
  stays corrupt.
\<close>

section \<open>Revoking a ticket\<close>

lemma lock_key:
  assumes "timestamp_lock io st df ctx pw (c, fd) = (True, c', fd')"
  shows "ck_key c' = (let key = ts_init_key_nonglobal st df ctx (Some pw) TS_DISABLED in
    if def_timestamp_type df = Global then key\<lparr>te_type := TS_GLOBAL\<rparr> else key)"
  using assms by (auto simp: timestamp_lock_def Let_def split: bool.splits prod.splits if_splits)

lemma key_simps [simp]:
  "te_version (ts_init_key st ctx pw f ticket) = TS_VERSION"
  "te_auth_uid (ts_init_key st ctx pw f ticket) = (case pw of None \<Rightarrow> 0 | Some p \<Rightarrow> pw_uid p)"
  "te_sid (ts_init_key st ctx pw f ticket) = tc_sid ctx"
  by (auto simp: ts_init_key_def Let_def set_flag_def entry0_def split: option.split)

lemma anyuid_key [simp]: "flag_set TS_ANYUID (ts_init_key st ctx None 0 ticket)"
  by (simp add: ts_init_key_def Let_def set_flag_def flag_set_def TS_ANYUID_def entry0_def)

lemma key_same [simp]:
  "te_type (ts_init_key st ctx None 0 ticket) = te_type (ts_init_key st ctx (Some pw) f ticket)"
  "te_u (ts_init_key st ctx None 0 ticket) = te_u (ts_init_key st ctx (Some pw) f ticket)"
  "te_start (ts_init_key st ctx None 0 ticket) = te_start (ts_init_key st ctx (Some pw) f ticket)"
  by (simp_all add: ts_init_key_def Let_def set_flag_def entry0_def)

lemma locked_key_matches:
  assumes "timestamp_lock io st df ctx pw (c, fd) = (True, c', fd')" "def_timestamp_type df \<noteq> Kernel"
    and "ts_match_record (ck_key c') e"
  shows "ts_match_record (ts_init_key st ctx None 0 (def_timestamp_type df)) e"
proof (cases "def_timestamp_type df = Global")
  case True
  then have "te_type (ck_key c') = TS_GLOBAL" using lock_key [OF assms(1)] by (simp add: Let_def)
  moreover have "te_version (ck_key c') = TS_VERSION" using lock_key [OF assms(1)] by (simp add: Let_def ts_init_key_nonglobal_def)
  ultimately have "te_type e = TS_GLOBAL" "te_version e = TS_VERSION" using match_type [OF assms(3)] by simp_all
  moreover have "te_type (ts_init_key st ctx None 0 Global) = TS_GLOBAL" by (simp add: ts_init_key_def Let_def)
  ultimately show ?thesis using True by (simp add: ts_match_record_def)
next
  case False
  have "(if def_timestamp_type df = Ppid then Ppid else Tty) = def_timestamp_type df"
    using False assms(2) by (cases "def_timestamp_type df") auto
  then have "ck_key c' = ts_init_key st ctx (Some pw) TS_DISABLED (def_timestamp_type df)"
    using lock_key [OF assms(1)] False by (simp add: Let_def ts_init_key_nonglobal_def)
  then show ?thesis using assms(3)
    by (auto simp: ts_match_record_def u_ppid_def key_same(1) [of st ctx _ pw TS_DISABLED]
        key_same(2) [of st ctx _ pw TS_DISABLED] key_same(3) [of st ctx _ pw TS_DISABLED] split: if_splits)
qed

text \<open>
  C4. After a successful \<open>sudo -k\<close> the user has to authenticate again: the next \<open>timestamp_status\<close>
  of the same session is not \<open>TS_CURRENT\<close>, whatever the ticket type other than \<open>kernel\<close>, when writes to the
  file are complete and the file is a sequence of records.
\<close>

theorem removed_ticket_not_current:
  assumes io: "writes_ok io" and rs: "ts_ok rs" "fd_data fd = records rs" "fd_off fd = 0"
    and remove: "timestamp_remove io st df ctx fd = Some (x, fd1)" "x \<noteq> Remove_error"
    and type: "def_timestamp_type df \<noteq> Kernel"
    and lock: "fd_data fd2 = fd_data fd1" "timestamp_lock io st df ctx pw (c, fd2) = (True, c', fd3)"
  shows "fst (timestamp_status io df ctx now (Some (c', fd3))) \<noteq> TS_CURRENT"
proof
  assume cur: "fst (timestamp_status io df ctx now (Some (c', fd3))) = TS_CURRENT"
  let ?k = "ts_init_key st ctx None 0 (def_timestamp_type df)"
  have "\<forall>r \<in> set rs. sized r" using rs(1) by (simp add: ts_ok_def)
  from remove_file [OF io rs(2) this rs(3) remove]
  have d: "fd_data fd2 = records (map (disable ?k) rs)" using lock(1) by simp
  have ok: "ts_ok (map (disable ?k) rs)" using rs(1) by (auto simp: ts_ok_def hd_map)
  then have "new_file (map (disable ?k) rs) = map (disable ?k) rs" by (auto simp: new_file_def ts_ok_def)
  with lock_records [OF io _ d lock(2)] ok obtain rs' where
    rs': "fd_data fd3 = records rs'" "extends (map (disable ?k) rs) rs'" "locked_at ctx pw rs' c'" by auto
  obtain i where i: "i < length rs'" "ck_pos c' = Some (56 * i)" "ts_match_record (ck_key c') (rs' ! i)"
    using rs'(3) by (auto simp: locked_at_def)
  have "rs' ! i \<in> set rs'" using i(1) by simp
  then have "flag_set TS_DISABLED (rs' ! i)"
    using rs'(2) locked_key_matches [OF lock(2) type i(3)] by (auto simp: extends_def disable_def split: if_splits)
  moreover obtain s r where s: "timestamp_status io df ctx now (Some (c', fd3)) = (s, r)" by fastforce
  ultimately show False
    using status_records [OF io extends_ok [OF ok rs'(2)] rs'(1) i(1,2) s] cur entry_current(1) by auto
qed

section \<open>The type \<open>kernel\<close>\<close>

text \<open>
  With \<open>timestamp_type=kernel\<close> and no ticket calls of the terminal, tickets are kept per
  terminal, but \<open>sudo -k\<close> looks for a record of the parent process: it reports success and the
  status of the ticket is what it was.
\<close>

theorem kernel_ticket_survives_removal:
  assumes io: "writes_ok io" and rs: "rs = [] \<or> ts_ok rs" "fd_data fd0 = records rs"
    and type: "def_timestamp_type df = Kernel" "tc_ttydev ctx \<noteq> NODEV"
    and lock: "timestamp_lock io st df ctx pw (c0, fd0) = (True, c, fd)"
    and remove: "fd_data fdr = fd_data fd" "fd_off fdr = 0" "timestamp_remove io st df ctx fdr = Some (x, fdr')"
      "x \<noteq> Remove_error"
  shows "fst (timestamp_status io df ctx now (Some (c, fd\<lparr>fd_data := fd_data fdr'\<rparr>))) =
    fst (timestamp_status io df ctx now (Some (c, fd)))"
proof -
  let ?k = "ts_init_key st ctx None 0 Kernel"
  obtain rs' where rs': "fd_data fd = records rs'" "extends (new_file rs) rs'" "locked_at ctx pw rs' c"
    using lock_records [OF io rs lock] by auto
  obtain i where i: "i < length rs'" "ck_pos c = Some (56 * i)" "ts_match_record (ck_key c) (rs' ! i)"
    using rs'(3) by (auto simp: locked_at_def)
  have "ts_ok (new_file rs)" using rs(1) by (auto simp: new_file_def)
  then have "\<forall>r \<in> set rs'. sized r" using extends_ok [OF _ rs'(2)] by (simp add: ts_ok_def)
  then have d: "fd_data fdr' = records (map (disable ?k) rs')"
    using remove_file [OF io _ _ remove(2,3,4), of rs'] remove(1) rs'(1) by (simp add: type(1))
  have "te_type (ck_key c) = TS_TTY"
    using lock_key [OF lock] type by (simp add: Let_def ts_init_key_nonglobal_def ts_init_key_def)
  then have "\<not> ts_match_record ?k (rs' ! i)"
    using match_type [OF i(3)] match_type [of ?k "rs' ! i"] by (auto simp: ts_init_key_def Let_def ts_types)
  then have "disable ?k (rs' ! i) = rs' ! i" by (simp add: disable_def)
  then have "take SIZEOF_ENTRY (drop (56 * i) (fd_data fdr')) = take SIZEOF_ENTRY (drop (56 * i) (fd_data fd))"
    using pread_record [of i rs' fd] pread_record [of i "map (disable ?k) rs'" fdr'] i(1) d rs'(1)
    by (simp add: fd_pread_def)
  then show ?thesis
    by (auto simp: timestamp_status_def i(2) ts_read_def timestamp_lock_record_def fd_seek_def fd_pread_def Let_def
        split: prod.splits)
qed

section \<open>When \<open>sudo -k\<close> returns\<close>

lemma find_Some:
  "ts_find_record key fd = (Some e, fd') \<Longrightarrow>
     sized e \<and> (\<exists>off. fd' = fd\<lparr>fd_off := off + 56\<rparr> \<and> fd_off fd \<le> off \<and> off + 56 \<le> length (fd_data fd) \<and>
       decode_entry (take 56 (drop off (fd_data fd))) = e \<and> ts_match_record key e)"
proof (induction key fd rule: ts_find_record.induct)
  case (1 key fd)
  obtain bs fd1 where r: "fd_read SIZEOF_ENTRY fd = (bs, fd1)" by fastforce
  let ?cur = "decode_entry bs"
  have full: "length bs = SIZEOF_ENTRY"
    using 1(3) r by (subst (asm) ts_find_record.simps) (auto simp: Let_def split: if_splits)
  note rd = fd_read_full [OF r [symmetric] full]
  let ?skip = "fd_seek (fd_off fd1 + unat (te_size ?cur) - SIZEOF_ENTRY) fd1"
  consider (skip) "\<not> sized ?cur" "te_size ?cur \<noteq> 0" "ts_find_record key ?skip = (Some e, fd')"
    | (hit) "sized ?cur" "e = ?cur" "fd' = fd1" "ts_match_record key e"
    | (miss) "sized ?cur" "\<not> ts_match_record key ?cur" "ts_find_record key fd1 = (Some e, fd')"
    using 1(3) r full by (subst (asm) ts_find_record.simps) (auto simp: Let_def sized_def split: if_splits)
  then show ?case
  proof cases
    case skip
    then have "sized e \<and> (\<exists>off. fd' = ?skip\<lparr>fd_off := off + 56\<rparr> \<and> fd_off ?skip \<le> off \<and> off + 56 \<le> length (fd_data ?skip) \<and>
       decode_entry (take 56 (drop off (fd_data ?skip))) = e \<and> ts_match_record key e)"
      using 1(1) [OF r [symmetric] refl refl] full by (auto simp: sized_def)
    then show ?thesis using rd(2) by (fastforce simp: fd_seek_def SIZEOF_ENTRY_def)
  next
    case hit
    then show ?thesis using rd by (auto simp: SIZEOF_ENTRY_def)
  next
    case miss
    then have "sized e \<and> (\<exists>off. fd' = fd1\<lparr>fd_off := off + 56\<rparr> \<and> fd_off fd1 \<le> off \<and> off + 56 \<le> length (fd_data fd1) \<and>
       decode_entry (take 56 (drop off (fd_data fd1))) = e \<and> ts_match_record key e)"
      using 1(2) [OF r [symmetric] refl] full by (auto simp: sized_def)
    then show ?thesis using rd(2) by fastforce
  qed
qed

lemma length_put_bytes: "off + length bs \<le> length data \<Longrightarrow> length (put_bytes off bs data) = length data"
  by (simp add: put_bytes_def)

text \<open>
  C26. \<open>timestamp_remove\<close> returns, whatever is in the file (also one that is not made of whole
  records), as long as its writes succeed.
\<close>

theorem timestamp_remove_returns:
  assumes "writes_ok io"
  shows "\<exists>x fd'. timestamp_remove io st df ctx fd = Some (x, fd')"
proof -
  have loop: "\<exists>r. remove_loop io k ret fd = Some r" for k ret fd
  proof (induction "length (fd_data fd) - fd_off fd" arbitrary: fd ret rule: less_induct)
    case less
    obtain o1 fd1 where f: "ts_find_record k fd = (o1, fd1)" by fastforce
    show ?case
    proof (cases o1)
      case None
      then show ?thesis using f by (subst remove_loop.simps) simp
    next
      case (Some e)
      with f obtain off where e: "sized e" "fd1 = fd\<lparr>fd_off := off + 56\<rparr>" "fd_off fd \<le> off" "off + 56 \<le> length (fd_data fd)"
        using find_Some [of k fd e fd1] by auto
      show ?thesis
      proof (cases "flag_set TS_DISABLED e")
        case True
        have "\<exists>r. remove_loop io k ret fd1 = Some r" by (rule less) (use e in simp)
        then show ?thesis using f Some True by (subst remove_loop.simps) simp
      next
        case False
        let ?e = "set_flag TS_DISABLED e"
        let ?fd = "fd\<lparr>fd_data := put_bytes off (encode_entry ?e) (fd_data fd), fd_off := off + 56, fd_calls := fd_calls fd + 1\<rparr>"
        have "ts_write io ?e None (fd_seek (fd_off fd1 - SIZEOF_ENTRY) fd1) = (True, ?fd)"
          using ts_write_full [OF assms, of ?e None] e(1) by (simp add: e(2) fd_seek_def SIZEOF_ENTRY_def)
        moreover have "\<exists>r. remove_loop io k ret ?fd = Some r"
          by (rule less) (use e in \<open>simp add: length_put_bytes\<close>)
        ultimately show ?thesis using f Some False by (subst remove_loop.simps) simp
      qed
    qed
  qed
  obtain b fd1 where l: "timestamp_lock_record io None fd = (b, fd1)" by fastforce
  obtain r where "remove_loop io (ts_init_key st ctx None 0 (def_timestamp_type df)) True fd1 = Some r" using loop by blast
  then show ?thesis by (cases b; cases r) (auto simp: timestamp_remove_def l)
qed

lemma find_again:
  assumes "ts_find_record key fd = (Some e, fd')"
  shows "ts_find_record key (fd'\<lparr>fd_off := fd_off fd' - SIZEOF_ENTRY, fd_calls := n\<rparr>) = (Some e, fd'\<lparr>fd_calls := n\<rparr>)"
proof -
  obtain off where e: "sized e" "fd' = fd\<lparr>fd_off := off + 56\<rparr>" "off + 56 \<le> length (fd_data fd)"
    "decode_entry (take 56 (drop off (fd_data fd))) = e" "ts_match_record key e" using find_Some [OF assms] by auto
  have r: "fd_read SIZEOF_ENTRY (fd'\<lparr>fd_off := fd_off fd' - SIZEOF_ENTRY, fd_calls := n\<rparr>) =
      (take 56 (drop off (fd_data fd)), fd'\<lparr>fd_calls := n\<rparr>)"
    using e(2,3) by (simp add: fd_read_def SIZEOF_ENTRY_def)
  have "length (take 56 (drop off (fd_data fd))) = SIZEOF_ENTRY" using e(3) by (simp add: SIZEOF_ENTRY_def)
  then show ?thesis using e(1,4,5) by (subst ts_find_record.simps) (simp add: r sized_def Let_def del: length_take)
qed

lemma remove_loop_stuck:
  assumes "remove_loop io k ret fd = Some r"
  shows "\<forall>e fd'. (\<forall>n. io_write io n = None) \<longrightarrow> ts_find_record k fd = (Some e, fd') \<longrightarrow> flag_set TS_DISABLED e"
  using assms
proof (rule remove_loop.raw_induct [rotated], goal_cases)
  case (1 loop io k ret fd r)
  show ?case
  proof (intro allI impI, rule ccontr)
    fix e fd'
    assume fail: "\<forall>n. io_write io n = None" and f: "ts_find_record k fd = (Some e, fd')" and on: "\<not> flag_set TS_DISABLED e"
    let ?fd = "fd'\<lparr>fd_off := fd_off fd' - SIZEOF_ENTRY, fd_calls := fd_calls fd' + 1\<rparr>"
    have "ts_write io (set_flag TS_DISABLED e) None (fd_seek (fd_off fd' - SIZEOF_ENTRY) fd') = (False, ?fd)"
      using fail by (simp add: ts_write_def fd_write_def fd_seek_def Let_def)
    then have "loop io k False ?fd = Some r" using 1(2) f on by simp
    from 1(1) [OF this] fail find_again [OF f] on show False by blast
  qed
qed

text \<open>
  C38. On a time stamp file that can be opened but not written (a full or failing file system), \<open>sudo -k\<close>
  does not return as long as that lasts, when a ticket is there to be disabled: the loop finds the
  same record again after each failed write.
\<close>

theorem timestamp_remove_hangs:
  assumes "\<forall>n. io_write io n = None" "\<forall>n. io_lock io n"
    and "before [] rs fd" "r \<in> set rs" "\<not> flag_set TS_DISABLED r"
    and "ts_match_record (ts_init_key st ctx None 0 (def_timestamp_type df)) r"
  shows "timestamp_remove io st df ctx fd = None"
proof -
  let ?k = "ts_init_key st ctx None 0 (def_timestamp_type df)"
  have loop: "remove_loop io ?k ret fd = None" if "before pre rs fd" "r \<in> set rs" for pre rs ret fd
    using that
  proof (induction rs arbitrary: pre fd)
    case (Cons x rs)
    note find = find_Cons [OF Cons.prems(1), of ?k]
    show ?case
    proof (cases "ts_match_record ?k x \<and> \<not> flag_set TS_DISABLED x")
      case True
      then have "ts_find_record ?k fd = (Some x, fd\<lparr>fd_off := length pre + 56\<rparr>)" using find by simp
      then show ?thesis using remove_loop_stuck [of io ?k ret fd] assms(1) True
        by (cases "remove_loop io ?k ret fd") auto
    next
      case False
      have "remove_loop io ?k ret fd = remove_loop io ?k ret (fd\<lparr>fd_off := length pre + 56\<rparr>)"
      proof (cases "ts_match_record ?k x")
        case True
        then show ?thesis using False by (subst (1) remove_loop.simps) (simp add: find)
      next
        case other: False
        then show ?thesis by (subst (1 2) remove_loop.simps) (simp add: find)
      qed
      moreover have "r \<in> set rs" using Cons.prems(2) False assms(5,6) by auto
      ultimately show ?thesis using Cons.IH [OF before_next [OF Cons.prems(1)]] by simp
    qed
  qed simp
  obtain fd1 where l: "timestamp_lock_record io None fd = (True, fd1)" "fd_data fd1 = fd_data fd" "fd_off fd1 = fd_off fd"
    using assms(2) by (auto simp: timestamp_lock_record_def Let_def)
  then have "before [] rs fd1" using assms(3) by (simp add: before_def)
  then show ?thesis using loop assms(4) by (simp add: timestamp_remove_def l(1))
qed

section \<open>A corrupt file\<close>

definition corrupt :: "bytes \<Rightarrow> bool" where
  \<comment> \<open>a whole first record that is neither the one to lock nor one of version 1\<close>
  "corrupt data \<longleftrightarrow> SIZEOF_ENTRY \<le> length data \<and>
     te_type (decode_entry (take SIZEOF_ENTRY data)) \<noteq> TS_LOCKEXCL \<and>
     unat (te_size (decode_entry (take SIZEOF_ENTRY data))) \<noteq> SIZEOF_ENTRY_V1"

lemma field_zeros: "i + n \<le> 56 \<Longrightarrow> field i n (replicate 56 0) = 0"
proof -
  have "le_val (replicate n 0) = 0" for n by (induction n) auto
  then show "i + n \<le> 56 \<Longrightarrow> field i n (replicate 56 0) = 0" by (simp add: field_def)
qed

lemma decode_zeros: "te_type (decode_entry (replicate 56 0)) = 0" "te_size (decode_entry (replicate 56 0)) = 0"
  by (simp_all add: decode_entry_def field_zeros)

lemma corrupt_zeros: "corrupt (replicate 56 0 @ t)"
  by (simp add: corrupt_def SIZEOF_ENTRY_def SIZEOF_ENTRY_V1_def decode_zeros ts_types)

lemma corrupt_entry: "sized e \<Longrightarrow> te_type e \<noteq> TS_LOCKEXCL \<Longrightarrow> corrupt (encode_entry e @ t)"
  by (simp add: corrupt_def sized_def SIZEOF_ENTRY_def SIZEOF_ENTRY_V1_def)

text \<open>The lock record that replaces a corrupt file is written after a hole.\<close>

lemma lock_first_corrupt:
  assumes "writes_ok io" "corrupt (fd_data fd)" "fd_off fd = 0"
  shows "lock_first_record io fd = (True, fd\<lparr>fd_data := replicate 56 0 @ encode_entry lock_record, fd_off := 112,
    fd_calls := fd_calls fd + 2\<rparr>)"
proof -
  have len: "56 \<le> length (fd_data fd)" using assms(2) by (simp add: corrupt_def SIZEOF_ENTRY_def)
  then have "fd_read SIZEOF_ENTRY fd = (take 56 (fd_data fd), fd\<lparr>fd_off := 56\<rparr>)"
    using assms(3) by (simp add: fd_read_def SIZEOF_ENTRY_def)
  moreover have "fd_ftruncate io 0 (fd\<lparr>fd_off := 56\<rparr>) = (True, fd\<lparr>fd_off := 56, fd_data := [], fd_calls := fd_calls fd + 1\<rparr>)"
    using assms(1) by (simp add: fd_ftruncate_def writes_ok_def Let_def)
  moreover have "timestamp_lock_write io f = ts_write io lock_record None f" for f
    by (simp add: timestamp_lock_write_def lock_record_def)
  ultimately show ?thesis
    using assms(2) len ts_write_full [OF assms(1) sized_lock_record, of None]
    by (simp add: lock_first_record_def Let_def corrupt_def SIZEOF_ENTRY_def SIZEOF_ENTRY_V1_def put_bytes_def)
qed

lemma find_zeros:
  "fd_data fd = replicate 56 0 @ t \<Longrightarrow> fd_off fd = 0 \<Longrightarrow> ts_find_record k fd = (None, fd)"
  by (subst ts_find_record.simps)
    (simp add: fd_read_def Let_def SIZEOF_ENTRY_def decode_zeros fd_seek_def)

lemma lock_corrupt:
  assumes io: "writes_ok io" and data: "corrupt (fd_data fd)"
    and lock: "timestamp_lock io st df ctx pw (c, fd) = (True, c', fd')"
  shows "\<exists>k pos a t. own_key ctx pw k \<and> flag_set TS_DISABLED k \<and> ck_key c' = k \<and> ck_pos c' = Some pos \<and>
    fd_data fd' = a @ encode_entry k @ t \<and> length a = pos \<and> (a = [] \<or> (\<exists>b. a = replicate 56 0 @ b))"
proof -
  define key where "key = ts_init_key_nonglobal st df ctx (Some pw) TS_DISABLED"
  have own: "own_key ctx pw key" by (simp add: key_def ts_init_key_nonglobal_def init_key_own)
  have dis: "flag_set TS_DISABLED key" by (simp add: key_def ts_init_key_nonglobal_def init_key_disabled)
  have sized: "sized key" using own by (simp add: own_key_def)
  obtain fd1 where l1: "timestamp_lock_record io (Some 0) fd = (True, fd1)"
    using lock by (cases "timestamp_lock_record io (Some 0) fd") (auto simp: timestamp_lock_def split: bool.splits)
  have "corrupt (fd_data fd1)" "fd_off fd1 = 0" using lock_record_data [OF l1] lock_record_off [OF l1] data by simp_all
  from lock_first_corrupt [OF io this] obtain fd2 where l2: "lock_first_record io fd1 = (True, fd2)"
    "fd_data fd2 = replicate 56 0 @ encode_entry lock_record" "fd_off fd2 = 112" by simp
  then have "before (replicate 56 0 @ encode_entry lock_record) [] fd2" by (simp add: before_def)
  from locate_records [OF this io sized] obtain fd3 where l3: "ts_locate io key fd2 = (112, True, fd3)"
    "fd_data fd3 = replicate 56 0 @ encode_entry lock_record @ encode_entry key"
    by (auto simp: slot_def with_slot_def)
  note steps = timestamp_lock_def l1 l2(1) key_def [symmetric] l3(1) Let_def
  show ?thesis
  proof (cases "def_timestamp_type df = Global")
    case False
    have "fd_data fd' = fd_data fd3" "ck_key c' = key" "ck_pos c' = Some 112"
      using lock False by (auto simp: steps dest!: lock_record_data split: prod.splits)
    then show ?thesis using own dis l3(2)
      by (intro exI [of _ key] exI [of _ 112] exI [of _ "replicate 56 0 @ encode_entry lock_record"] exI [of _ "[]"]) simp
  next
    case True
    let ?k = "key\<lparr>te_type := TS_GLOBAL\<rparr>"
    have own': "own_key ctx pw ?k" using own by (rule own_key_global)
    have dis': "flag_set TS_DISABLED ?k" using dis by (simp add: flag_set_def)
    have sized': "sized ?k" using sized by simp
    let ?t = "encode_entry lock_record @ encode_entry key"
    have "ts_find_record ?k (fd_seek 0 fd3) = (None, fd_seek 0 fd3)"
      by (rule find_zeros [of _ ?t]) (simp_all add: fd_seek_def l3(2))
    then have "ts_locate io ?k (fd_seek 0 fd3) = (0, True, fd3\<lparr>fd_off := 56, fd_data := encode_entry ?k @ ?t,
        fd_calls := fd_calls fd3 + 1\<rparr>)"
      using ts_write_full [OF io sized', of None "fd_seek 0 fd3"] put_bytes_at [of "[]" 0 "encode_entry ?k" "replicate 56 0" ?t]
      by (simp add: ts_locate_def fd_seek_def l3(2))
    then have "fd_data fd' = encode_entry ?k @ ?t" "ck_key c' = ?k" "ck_pos c' = Some 0"
      using lock True by (auto simp: steps dest!: lock_record_data split: prod.splits)
    then show ?thesis using own' dis'
      by (intro exI [of _ ?k] exI [of _ 0] exI [of _ "[]"] exI [of _ ?t]) simp
  qed
qed

text \<open>
  A time stamp file whose first record is not one to lock never recovers: \<open>timestamp_lock\<close>
  empties it, but writes the record to lock at the offset it has read to, after a hole of zeros,
  so that the file is corrupt again. The record of the user is always a new, disabled one: the
  status is never \<open>TS_CURRENT\<close>, and an update does not help.
\<close>

theorem corrupt_file_never_recovers:
  assumes "writes_ok io" "corrupt (fd_data fd)" "timestamp_lock io st df ctx pw (c, fd) = (True, c', fd')"
  shows "corrupt (fd_data fd') \<and> fst (timestamp_status io df ctx now (Some (c', fd'))) \<noteq> TS_CURRENT \<and>
    corrupt (fd_data (snd (the (snd (timestamp_update io df now (Some (c', fd'))))))) "
proof -
  obtain k pos a t where k: "own_key ctx pw k" "flag_set TS_DISABLED k" "ck_key c' = k" "ck_pos c' = Some pos"
    "fd_data fd' = a @ encode_entry k @ t" "length a = pos" "a = [] \<or> (\<exists>b. a = replicate 56 0 @ b)"
    using lock_corrupt [OF assms] by blast
  have stays: "corrupt (a @ encode_entry e @ t)" if "sized e" "te_type e = te_type k" for e
    using k(7) corrupt_zeros corrupt_entry [OF that(1)] that(2) k(1) by (auto simp: own_key_def ts_types)
  have read: "fd_pread SIZEOF_ENTRY pos f = encode_entry k" if "fd_data f = fd_data fd'" for f
    using that k(5,6) by (simp add: fd_pread_def SIZEOF_ENTRY_def)
  have dis: "fst (entry_status df ctx now k) \<noteq> TS_CURRENT" using entry_current(1) k(2) by blast
  have "fst (timestamp_status io df ctx now (Some (c', fd'))) \<noteq> TS_CURRENT"
  proof -
    obtain o1 f where r: "ts_read io c' pos fd' = (o1, f)" by fastforce
    obtain b f1 where l: "timestamp_lock_record io (Some pos) fd' = (b, f1)" by fastforce
    have "o1 = None \<or> o1 = Some (encode_entry k)"
      using r read [OF refl] read [OF lock_record_data [OF l]] by (auto simp: ts_read_def l split: if_splits bool.splits)
    then show ?thesis using dis
      by (auto simp: timestamp_status_def k(4) r case_prod_beta Let_def SIZEOF_ENTRY_def)
  qed
  moreover have "corrupt (fd_data (snd (the (snd (timestamp_update io df now (Some (c', fd')))))))"
  proof -
    let ?u = "\<lambda>x. (clear_flag TS_DISABLED k)\<lparr>te_ts := x\<rparr>"
    have sized: "sized (?u x)" for x using k(1) by (simp add: own_key_def)
    have "put_bytes pos (encode_entry (?u x)) (fd_data fd') = a @ encode_entry (?u x) @ t" for x
      unfolding k(5) by (rule put_bytes_at) (simp_all add: k(6))
    moreover have "corrupt (a @ encode_entry (?u x) @ t)" for x
      by (rule stays [OF sized]) (simp add: clear_flag_def)
    moreover have "corrupt (fd_data fd')" unfolding k(5) by (rule stays) (use k(1) in \<open>simp_all add: own_key_def\<close>)
    ultimately show ?thesis
      by (auto simp: timestamp_update_def k(3,4) Let_def ts_write_full [OF assms(1) sized] split: option.split)
  qed
  moreover have "corrupt (fd_data fd')" unfolding k(5) by (rule stays) (use k(1) in \<open>simp_all add: own_key_def\<close>)
  ultimately show ?thesis by blast
qed

end
