(* ===== verification/AuthTickets.thy ===== *)
theory AuthTickets
  imports CheckUser TimestampFaults
begin

text \<open>
  What \<open>check_user\<close> does to the time stamp file of the user: an invariant of the file and of the
  cookie on it, relative to a predicate that the current records satisfy, kept by every step of a
  run, a suspended talk included. Then what a run leaves in its trace.
\<close>

section \<open>Frames\<close>

lemma open_frame: "open_cookie env st = (b, st') \<Longrightarrow> st_trace st' = st_trace st \<and> st_methods st' = st_methods st \<and>
    st_standalone st' = st_standalone st \<and> st_blocked st' = st_blocked st"
  by (auto simp: open_cookie_def Let_def split: prod.splits)

lemma lock_frame: "lock_cookie env pw st = (b, st') \<Longrightarrow> st_trace st' = st_trace st \<and> st_methods st' = st_methods st \<and>
    st_standalone st' = st_standalone st \<and> st_blocked st' = st_blocked st"
  by (auto simp: lock_cookie_def Let_def split: prod.splits option.splits)

lemma close_frame [simp]: "st_trace (close_cookie st) = st_trace st" "st_methods (close_cookie st) = st_methods st"
  "st_standalone (close_cookie st) = st_standalone st" "st_blocked (close_cookie st) = st_blocked st"
  "st_cookie (close_cookie st) = None"
  by (auto simp: close_cookie_def split: option.splits prod.splits)

lemma resume_frame: "getpass_resume env pw st = (b, st') \<Longrightarrow> st_trace st' = st_trace st \<and> st_methods st' = st_methods st \<and>
    st_standalone st' = st_standalone st \<and> st_blocked st' = st_blocked st"
  by (auto simp: getpass_resume_def Let_def split: prod.splits if_splits dest!: open_frame lock_frame)

lemma talk_frame: "run_talk env pw t st = (a, st') \<Longrightarrow> st_trace st' = st_trace st \<and> st_methods st' = st_methods st \<and>
    st_standalone st' = st_standalone st \<and> st_blocked st' = st_blocked st"
proof (induction t arbitrary: st)
  case (Lecture t)
  then show ?case by (fastforce simp: display_lecture_def split: if_splits)
next
  case (Suspended k)
  obtain ok st1 where r: "getpass_resume env pw (getpass_suspend st) = (ok, st1)" by fastforce
  then show ?case using Suspended.IH [of "k ok" st1] Suspended.prems resume_frame [OF r] by (simp add: getpass_suspend_def)
qed auto

section \<open>The file\<close>

definition tickets :: "(timestamp_entry \<Rightarrow> bool) \<Rightarrow> timestamp_entry list \<Rightarrow> bool" where
  "tickets P rs \<longleftrightarrow> (rs = [] \<or> ts_ok rs) \<and> (\<forall>r \<in> set rs. te_type r = TS_LOCKEXCL \<or> flag_set TS_DISABLED r \<or> P r)"

definition cookie_ok :: "(timestamp_entry \<Rightarrow> bool) \<Rightarrow> 'w auth_env \<Rightarrow> passwd \<Rightarrow> ts_cookie \<times> ts_fd \<Rightarrow> bool" where
  "cookie_ok P env pw = (\<lambda>(c, fd). \<exists>rs. fd_data fd = records rs \<and> tickets P rs \<and>
     (ck_pos c = None \<or> locked_at (ae_ctx env) pw rs c \<and>
        (te_type (ck_key c) = TS_GLOBAL \<longrightarrow> def_timestamp_type (ae_ts_defs env) = Global)))"

definition file_ok :: "(timestamp_entry \<Rightarrow> bool) \<Rightarrow> bytes option \<Rightarrow> bool" where
  "file_ok P file \<longleftrightarrow> (\<forall>d. file = Some d \<longrightarrow> (\<exists>rs. d = records rs \<and> tickets P rs))"

definition ticket_inv :: "(timestamp_entry \<Rightarrow> bool) \<Rightarrow> 'w auth_env \<Rightarrow> passwd \<Rightarrow> bytes option \<Rightarrow> (ts_cookie \<times> ts_fd) option \<Rightarrow> bool" where
  "ticket_inv P env pw file v = (case v of None \<Rightarrow> file_ok P file | Some v \<Rightarrow> cookie_ok P env pw v)"

lemma ticket_inv_simps [simp]:
  "ticket_inv P env pw file None = file_ok P file" "ticket_inv P env pw file (Some v) = cookie_ok P env pw v"
  by (simp_all add: ticket_inv_def)

definition run_inv :: "(timestamp_entry \<Rightarrow> bool) \<Rightarrow> 'w auth_env \<Rightarrow> passwd \<Rightarrow> 'w auth_state \<Rightarrow> bool" where
  "run_inv P env pw st = ticket_inv P env pw (st_file st) (st_cookie st)"

definition writes_all :: "'w auth_env \<Rightarrow> bool" where
  "writes_all env \<longleftrightarrow> (\<forall>n. writes_ok (ae_io env n))"

lemma tickets_Nil [simp]: "tickets P []"
  by (simp add: tickets_def)

lemma tickets_ok: "tickets P rs \<Longrightarrow> rs \<noteq> [] \<Longrightarrow> ts_ok rs"
  by (auto simp: tickets_def)

lemma tickets_mono: "tickets P rs \<Longrightarrow> (\<And>r. P r \<Longrightarrow> Q r) \<Longrightarrow> tickets Q rs"
  by (auto simp: tickets_def)

lemma tickets_extends:
  assumes "tickets P rs" "extends (new_file rs) rs'"
  shows "tickets P rs'"
proof -
  have "ts_ok (new_file rs)" using assms(1) ts_ok_lock_record by (auto simp: tickets_def new_file_def)
  then have "ts_ok rs'" using assms(2) by (rule extends_ok)
  moreover have "r \<in> set rs \<or> r = lock_record \<or> flag_set TS_DISABLED r" if "r \<in> set rs'" for r
    using that assms(2) by (auto simp: extends_def new_file_def split: if_splits)
  moreover have "te_type lock_record = TS_LOCKEXCL" by (simp add: lock_record_def)
  ultimately show ?thesis using assms(1) unfolding tickets_def by metis
qed

lemma tickets_replace:
  assumes "tickets P rs" "i < length rs" "sized e" "te_type e = te_type (rs ! i)" "flag_set TS_DISABLED e \<or> P e"
  shows "tickets P (rs[i := e])"
proof -
  have ok: "ts_ok rs" using assms(1,2) by (intro tickets_ok) auto
  have "te_type (hd (rs[i := e])) = te_type (hd rs)" using assms(2,4) by (cases rs; cases i) simp_all
  moreover have "r \<in> set rs \<or> r = e" if "r \<in> set (rs[i := e])" for r
    using that set_update_subset_insert [of rs i e] by auto
  ultimately show ?thesis using ok assms by (auto simp: tickets_def ts_ok_def)
qed

lemma close_inv: "run_inv P env pw st \<Longrightarrow> run_inv P env pw (close_cookie st)"
  by (auto simp: run_inv_def close_cookie_def cookie_ok_def file_ok_def split: option.splits)

lemma run_inv_file: "run_inv P env pw st \<Longrightarrow> file_ok P (st_file (close_cookie st))"
  using close_inv [of P env pw st] by (simp add: run_inv_def)

lemma file_ok_Some: "file_ok P (Some d) \<longleftrightarrow> (\<exists>rs. d = records rs \<and> tickets P rs)"
  by (simp add: file_ok_def)

lemma file_ok_None [simp]: "file_ok P None"
  by (simp add: file_ok_def)

lemma file_ok_empty [simp]: "file_ok P (Some [])"
  by (auto simp: file_ok_def intro: exI [of _ "[]"])

lemma cookie_ok_open: "ck_pos c = None \<Longrightarrow> cookie_ok P env pw (c, fd) = file_ok P (Some (fd_data fd))"
  by (auto simp: cookie_ok_def file_ok_Some)

lemma open_inv:
  assumes "file_ok P (st_file st)" "open_cookie env st = (b, st')"
  shows "run_inv P env pw st' \<and> (if b then \<exists>c fd. st_cookie st' = Some (c, fd) \<and> ck_pos c = None else st_cookie st' = None)"
  using assms by (auto simp: open_cookie_def timestamp_open_def cookie_on_def created_def run_inv_def cookie_ok_open Let_def option.map_comp comp_def option.map_ident
      split: if_splits option.splits prod.splits)

lemma lock_inv:
  assumes "writes_all env" "run_inv P env pw st" "st_cookie st = Some (c, fd)" "ck_pos c = None"
    and "lock_cookie env pw st = (b, st')"
  shows "run_inv P env pw st' \<and> (b \<longrightarrow> (\<exists>c' fd'. st_cookie st' = Some (c', fd') \<and> ck_pos c' \<noteq> None))"
proof -
  obtain ok c' fd' where l: "timestamp_lock (ae_io env (st_opens st)) (ae_starttime env) (ae_ts_defs env) (ae_ctx env) pw (c, fd)
      = (ok, c', fd')" by (metis prod_cases3)
  have st': "b = ok" "st_cookie st' = Some (c', fd')" using assms(5) l by (auto simp: lock_cookie_def assms(3))
  obtain rs where rs: "fd_data fd = records rs" "tickets P rs" using assms(2,3) by (auto simp: run_inv_def cookie_ok_def)
  have "rs = [] \<or> ts_ok rs" using rs(2) by (auto simp: tickets_def)
  from lock_records [OF _ this rs(1) l] assms(1) obtain rs' where "fd_data fd' = records rs'"
    "extends (new_file rs) rs' \<and> locked_at (ae_ctx env) pw rs' c' \<and>
        (te_type (ck_key c') = TS_GLOBAL \<longrightarrow> def_timestamp_type (ae_ts_defs env) = Global) \<or> rs' = rs \<and> c' = c \<and> \<not> ok"
    by (auto simp: writes_all_def)
  then show ?thesis using rs(2) tickets_extends [OF rs(2)] assms(4)
    by (auto simp: run_inv_def cookie_ok_def st' locked_at_def)
qed

lemma resume_inv:
  assumes "writes_all env" "file_ok P (st_file st)" "getpass_resume env pw st = (b, st')"
  shows "run_inv P env pw st'"
proof -
  obtain ok st1 where o: "open_cookie env st = (ok, st1)" by fastforce
  then show ?thesis using assms(3) open_inv [OF assms(2) o, of pw] lock_inv [OF assms(1), of P pw st1]
    by (auto simp: getpass_resume_def split: if_splits)
qed

lemma talk_inv:
  "writes_all env \<Longrightarrow> run_inv P env pw st \<Longrightarrow> run_talk env pw t st = (a, st') \<Longrightarrow> run_inv P env pw st'"
proof (induction t arbitrary: st)
  case (Lecture t)
  moreover have "run_inv P env pw (display_lecture env st)"
    using Lecture.prems(2) by (auto simp: display_lecture_def run_inv_def)
  ultimately show ?case by auto
next
  case (Suspended k)
  obtain ok st1 where r: "getpass_resume env pw (getpass_suspend st) = (ok, st1)" by fastforce
  then have "run_inv P env pw st1"
    using resume_inv [OF Suspended.prems(1) _ r] run_inv_file [OF Suspended.prems(2)] by (simp add: getpass_suspend_def)
  then show ?case using Suspended.IH [of "k ok" st1] Suspended.prems r by simp
qed (auto simp: run_inv_def)

lemma run_inv_upd [simp]:
  "run_inv P env pw (st\<lparr>st_methods := x\<rparr>) = run_inv P env pw st"
  "run_inv P env pw (st\<lparr>st_world := w\<rparr>) = run_inv P env pw st"
  "run_inv P env pw (st\<lparr>st_blocked := b\<rparr>) = run_inv P env pw st"
  "run_inv P env pw (auth_log e st) = run_inv P env pw st"
  by (simp_all add: run_inv_def auth_log_def)

lemma verify_methods_inv:
  "verify_methods env pw p auths st = (ret, auths', st') \<Longrightarrow> writes_all env \<Longrightarrow> run_inv P env pw st \<Longrightarrow> run_inv P env pw st'"
  by (induction auths arbitrary: ret auths' st st')
    (auto simp: Let_def split: if_splits prod.splits dest: talk_inv)

lemma getpass_inv:
  "auth_getpass env pw prompt st = (r, st') \<Longrightarrow> writes_all env \<Longrightarrow> run_inv P env pw st \<Longrightarrow> run_inv P env pw st'"
  unfolding auth_getpass_def by (rule talk_inv)

lemma try_password_inv:
  assumes "try_password env pw prompt st = (r, st')" "writes_all env" "run_inv P env pw st"
  shows "run_inv P env pw st'"
proof -
  obtain pass st1 where p: "(if st_standalone st then (Some prompt, st) else auth_getpass env pw prompt st) = (pass, st1)"
    by fastforce
  then have "run_inv P env pw st1" using assms(3) getpass_inv [OF _ assms(2)] by (auto split: if_splits)
  then show ?thesis using assms(1) verify_methods_inv [OF _ assms(2)]
    by (fastforce simp: try_password_def p split: option.splits prod.splits)
qed

lemma verify_round_inv:
  assumes "verify_round env pw prompt st = (r, prompt', st')" "writes_all env" "run_inv P env pw st"
  shows "run_inv P env pw st'"
  using assms(1,3) try_password_inv [OF _ assms(2)]
  by (auto simp: verify_round_def Let_def split: if_splits prod.splits setup_result.splits)

lemma verify_try_inv:
  "verify_try env pw n prompt st = (r, prompt', st') \<Longrightarrow> writes_all env \<Longrightarrow> run_inv P env pw st \<Longrightarrow> run_inv P env pw st'"
  by (auto simp: verify_try_def split: if_splits dest: verify_round_inv)

lemma verify_done_inv [simp]: "run_inv P env pw (snd (verify_done validated n ret st)) = run_inv P env pw st"
  by (cases ret) (simp_all add: verify_done_def)

lemma verify_loop_inv:
  "writes_all env \<Longrightarrow> run_inv P env pw st \<Longrightarrow> run_inv P env pw (snd (verify_loop env pw validated k n prompt st))"
  by (induction k arbitrary: n prompt st) (auto split: try_result.split prod.split dest: verify_try_inv)

lemma verify_user_inv:
  "writes_all env \<Longrightarrow> run_inv P env pw st \<Longrightarrow> run_inv P env pw (snd (verify_user env pw prompt validated st))"
  by (simp add: verify_user_def verify_loop_inv)

section \<open>Tickets\<close>

definition owns :: "ts_context \<Rightarrow> passwd \<Rightarrow> timestamp_entry \<Rightarrow> bool" where
  \<comment> \<open>a record of the user, for this session and terminal (or parent) unless it is global\<close>
  "owns ctx pw e \<longleftrightarrow> te_auth_uid e = pw_uid pw \<and>
     (te_type e = TS_GLOBAL \<or>
      te_sid e = tc_sid ctx \<and> (te_type e = TS_TTY \<and> te_u e = tc_ttydev ctx \<or> te_type e = TS_PPID \<and> u_ppid e = tc_ppid ctx))"

lemma own_key_owns: "own_key ctx pw k \<Longrightarrow> owns ctx pw k"
  by (auto simp: own_key_def owns_def)

lemma match_owns:
  assumes "own_key ctx pw k" "ts_match_record k e" "te_type e = TS_GLOBAL \<or> te_sid e = tc_sid ctx"
  shows "owns ctx pw e" "owns c p e = owns c p k"
  using assms by (auto simp: own_key_def owns_def ts_match_record_def ts_types split: if_splits)

definition holds_ticket :: "(timestamp_entry \<Rightarrow> bool) \<Rightarrow> 'w auth_env \<Rightarrow> passwd \<Rightarrow> 'w auth_state \<Rightarrow> timestamp_entry \<Rightarrow> bool" where
  \<comment> \<open>the record that made the cookie current\<close>
  "holds_ticket P env pw st e \<longleftrightarrow> (\<exists>c fd. st_cookie st = Some (c, fd) \<and> ts_match_record (ck_key c) e \<and>
     own_key (ae_ctx env) pw (ck_key c) \<and> P e \<and> (te_type e = TS_GLOBAL \<or> te_sid e = tc_sid (ae_ctx env)) \<and>
     (te_type e = TS_GLOBAL \<longrightarrow> def_timestamp_type (ae_ts_defs env) = Global) \<and>
     fst (entry_status (ae_ts_defs env) (ae_ctx env) (ae_now env) e) = TS_CURRENT)"

lemma status_inv:
  assumes env: "writes_all env" and inv: "run_inv P env pw st" and cookie: "st_cookie st = Some (c, fd)" "ck_pos c \<noteq> None"
    and status: "timestamp_status (ae_io env n) (ae_ts_defs env) (ae_ctx env) (ae_now env) (Some (c, fd)) = (s, v)"
  shows "run_inv P env pw (st\<lparr>st_cookie := v\<rparr>) \<and> (s = TS_CURRENT \<longrightarrow> (\<exists>e. holds_ticket P env pw (st\<lparr>st_cookie := v\<rparr>) e))"
proof -
  obtain rs where rs: "fd_data fd = records rs" "tickets P rs" "locked_at (ae_ctx env) pw rs c"
    "te_type (ck_key c) = TS_GLOBAL \<longrightarrow> def_timestamp_type (ae_ts_defs env) = Global"
    using inv cookie by (auto simp: run_inv_def cookie_ok_def)
  obtain i where i: "i < length rs" "ck_pos c = Some (56 * i)" "ts_match_record (ck_key c) (rs ! i)"
    using rs(3) by (auto simp: locked_at_def)
  have own: "own_key (ae_ctx env) pw (ck_key c)" using rs(3) by (simp add: locked_at_def)
  have ok: "ts_ok rs" using rs(2) i(1) by (intro tickets_ok) auto
  have io: "writes_ok (ae_io env n)" using env by (simp add: writes_all_def)
  obtain fd' where fd': "v = Some (c, fd')" "fd_data fd' \<in> {records rs, records (rs[i := set_flag TS_DISABLED (rs ! i)])}"
    "s = TS_CURRENT \<longrightarrow> fst (entry_status (ae_ts_defs env) (ae_ctx env) (ae_now env) (rs ! i)) = TS_CURRENT"
    using status_records [OF io ok rs(1) i(1,2) status] by blast
  have "tickets P (rs[i := set_flag TS_DISABLED (rs ! i)])"
    by (rule tickets_replace [OF rs(2) i(1)]) (use ok i(1) in \<open>auto simp: ts_ok_def\<close>)
  moreover have "locked_at (ae_ctx env) pw (rs[i := set_flag TS_DISABLED (rs ! i)]) c"
    by (rule locked_map [OF rs(3)]) (use i(1) in \<open>auto simp: nth_list_update\<close>)
  ultimately have "cookie_ok P env pw (c, fd')" using fd'(2) rs by (auto simp: cookie_ok_def)
  moreover have "holds_ticket P env pw (st\<lparr>st_cookie := v\<rparr>) (rs ! i)" if "s = TS_CURRENT"
  proof -
    have cur: "fst (entry_status (ae_ts_defs env) (ae_ctx env) (ae_now env) (rs ! i)) = TS_CURRENT" using fd'(3) that by simp
    have type: "te_type (rs ! i) = te_type (ck_key c)" using match_type [OF i(3)] by simp
    then have "te_type (rs ! i) \<noteq> TS_LOCKEXCL" using own by (auto simp: own_key_def ts_types)
    then have "P (rs ! i)" using rs(2) i(1) entry_current(1) [OF cur] by (auto simp: tickets_def)
    then show ?thesis using cur entry_current(2) [OF cur] i(3) own rs(4) type by (auto simp: holds_ticket_def fd'(1))
  qed
  ultimately show ?thesis by (auto simp: run_inv_def fd'(1))
qed

lemma ticket_status_inv:
  assumes "writes_all env" "file_ok P (st_file st)" "st_cookie st = None" "ticket_status env mode pw st = (s, st')"
  shows "run_inv P env pw st' \<and> (s = TS_CURRENT \<longrightarrow> \<not> ISSET mode MODE_IGNORE_TICKET \<and> (\<exists>e. holds_ticket P env pw st' e))"
proof (cases "ISSET mode MODE_IGNORE_TICKET")
  case True
  then show ?thesis using assms by (auto simp: ticket_status_def run_inv_def)
next
  case False
  obtain b1 st1 where o: "open_cookie env st = (b1, st1)" by fastforce
  note open1 = open_inv [OF assms(2) o, of pw, THEN conjunct1] open_inv [OF assms(2) o, of undefined, THEN conjunct2]
  show ?thesis
  proof (cases b1)
    case False
    then show ?thesis using assms(4) open1 o \<open>\<not> ISSET mode MODE_IGNORE_TICKET\<close> by (auto simp: ticket_status_def)
  next
    case True
    then obtain c fd where c: "st_cookie st1 = Some (c, fd)" "ck_pos c = None" using open1(2) by auto
    obtain b2 st2 where l: "lock_cookie env pw st1 = (b2, st2)" by fastforce
    note lock2 = lock_inv [OF assms(1) open1(1) c l]
    show ?thesis
    proof (cases b2)
      case False
      then show ?thesis using assms(4) lock2 o l True \<open>\<not> ISSET mode MODE_IGNORE_TICKET\<close> by (auto simp: ticket_status_def)
    next
      case b2: True
      then obtain c' fd' where c': "st_cookie st2 = Some (c', fd')" "ck_pos c' \<noteq> None" using lock2 by blast
      obtain s' v where t: "timestamp_status (ae_io env (st_opens st2)) (ae_ts_defs env) (ae_ctx env) (ae_now env) (Some (c', fd'))
          = (s', v)" by fastforce
      have "s' = s" "st' = st2\<lparr>st_cookie := v\<rparr>"
        using assms(4) o l t True b2 c' \<open>\<not> ISSET mode MODE_IGNORE_TICKET\<close> by (auto simp: ticket_status_def)
      then show ?thesis using status_inv [OF assms(1) _ c' t] lock2 \<open>\<not> ISSET mode MODE_IGNORE_TICKET\<close> by simp
    qed
  qed
qed

lemma update_inv:
  assumes env: "writes_all env" and inv: "run_inv P env pw st" and more: "\<And>e. P e \<Longrightarrow> Q e"
    and Q: "\<And>c fd k. st_cookie st = Some (c, fd) \<Longrightarrow> own_key (ae_ctx env) pw (ck_key c) \<Longrightarrow> own_key (ae_ctx env) pw k \<Longrightarrow>
      (\<And>e. ts_match_record k e = ts_match_record (ck_key c) e) \<Longrightarrow> Q k"
  shows "run_inv Q env pw (st\<lparr>st_cookie := snd (timestamp_update (ae_io env n) (ae_ts_defs env) now (st_cookie st))\<rparr>)"
proof (cases "st_cookie st")
  case None
  then show ?thesis using inv more tickets_mono [of P _ Q]
    by (auto simp: timestamp_update_def run_inv_def file_ok_def split: if_splits) blast+
next
  case (Some v)
  obtain c fd where v: "v = (c, fd)" by fastforce
  obtain rs where rs: "fd_data fd = records rs" "tickets Q rs"
    "ck_pos c = None \<or> locked_at (ae_ctx env) pw rs c \<and>
        (te_type (ck_key c) = TS_GLOBAL \<longrightarrow> def_timestamp_type (ae_ts_defs env) = Global)"
    using inv Some more tickets_mono [of P _ Q] by (auto simp: run_inv_def cookie_ok_def v)
  obtain b r where u: "timestamp_update (ae_io env n) (ae_ts_defs env) now (Some (c, fd)) = (b, r)" by fastforce
  show ?thesis
  proof (cases "ck_pos c")
    case None
    then have "r = Some (c, fd)" using u by (auto simp: timestamp_update_def split: if_splits)
    then show ?thesis using rs None by (auto simp: Some v u run_inv_def cookie_ok_def)
  next
    case pos: (Some pos)
    then obtain i where i: "i < length rs" "ck_pos c = Some (56 * i)" "ts_match_record (ck_key c) (rs ! i)"
      "own_key (ae_ctx env) pw (ck_key c)" using rs(3) by (auto simp: locked_at_def)
    have io: "writes_ok (ae_io env n)" using env by (simp add: writes_all_def)
    have "sized (ck_key c)" using i(4) by (simp add: own_key_def)
    from update_records [OF io rs(1) i(1,2) this u] obtain c' fd' k where
      k: "r = Some (c', fd')" "b \<and> (\<exists>t. now = Some t \<and> k = (clear_flag TS_DISABLED (ck_key c))\<lparr>te_ts := t\<rparr>) \<and>
          fd_data fd' = records (rs[i := k]) \<or>
        \<not> b \<and> fd_data fd' = records rs \<and> k = clear_flag TS_DISABLED (ck_key c)"
      "c' = c\<lparr>ck_key := k\<rparr> \<or> c' = c \<and> \<not> b" by blast
    have own: "own_key (ae_ctx env) pw k" using k(2) own_key_clear [OF i(4)] own_key_ts by blast
    have same: "ts_match_record k e = ts_match_record (ck_key c) e" for e
    proof -
      have "(\<exists>t. k = (clear_flag TS_DISABLED (ck_key c))\<lparr>te_ts := t\<rparr>) \<or> k = clear_flag TS_DISABLED (ck_key c)"
        using k(2) by blast
      then show ?thesis using own_key_matches [OF i(4), of e] own_key_matches_ts by (elim disjE exE) simp_all
    qed
    then have hit: "ts_match_record k (rs ! i)" using i(3) by simp
    have type: "te_type k = te_type (rs ! i)" using match_type [OF hit] by simp
    have at: "locked_at (ae_ctx env) pw rs c'" using k(3) own hit i by (auto simp: locked_at_def)
    have at': "locked_at (ae_ctx env) pw (rs[i := k]) c'"
      by (rule locked_map [OF at])
        (use i(1) match_agrees [OF hit] own in \<open>auto simp: nth_list_update own_key_def\<close>)
    have "tickets Q (rs[i := k])"
      by (rule tickets_replace [OF rs(2) i(1) _ type]) (use own Q [OF _ i(4) own same] Some v in \<open>auto simp: own_key_def\<close>)
    moreover have "te_type (ck_key c') = te_type (ck_key c)"
      using k(3) type match_type [OF i(3)] by auto
    ultimately have "cookie_ok Q env pw (c', fd')" using k(2) rs at at' pos by (auto simp: cookie_ok_def)
    then show ?thesis by (simp add: Some v u k(1) run_inv_def)
  qed
qed

end
