(* ===== verification/AuthProps.thy ===== *)
theory AuthProps
  imports AuthTickets
begin

text \<open>
  Properties of authentication: what \<open>verify_user\<close> returns and leaves behind, and when
  \<open>check_user\<close> succeeds. Over all histories of runs, a success without a password goes back to a
  verification of the same user in the same session.
\<close>

section \<open>The trace of a verification\<close>

definition verified :: "auth_event list \<Rightarrow> bool" where
  "verified tr \<longleftrightarrow> (\<exists>name. Verify name AUTH_SUCCESS \<in> set tr)"

definition verifications :: "auth_event list \<Rightarrow> nat" where
  "verifications tr = length (filter (\<lambda>e. \<exists>name r. e = Verify name r) tr)"

lemma verified_simps [simp]:
  "\<not> verified []" "verified (e # tr) \<longleftrightarrow> (\<exists>name. e = Verify name AUTH_SUCCESS) \<or> verified tr"
  "verified (tr @ tr') \<longleftrightarrow> verified tr \<or> verified tr'"
  by (auto simp: verified_def)

lemma verifications_simps [simp]:
  "verifications [] = 0" "verifications (tr @ tr') = verifications tr + verifications tr'"
  "verifications (e # tr) = (if \<exists>name r. e = Verify name r then 1 else 0) + verifications tr"
  by (auto simp: verifications_def)

lemma log_simps [simp]: "st_trace (auth_log e st) = e # st_trace st" "st_methods (auth_log e st) = st_methods st"
  "st_blocked (auth_log e st) = st_blocked st" "st_cookie (auth_log e st) = st_cookie st"
  "st_file (auth_log e st) = st_file st" "st_world (auth_log e st) = st_world st"
  by (simp_all add: auth_log_def)

lemma setup_length: "setup_methods env pw auths prompt w = (r, m, auths', prompt', w') \<Longrightarrow> length auths' = length auths"
  by (induction auths arbitrary: prompt w r m auths' prompt' w')
    (auto simp: Let_def split: if_splits option.splits prod.splits auth_status.splits)

lemma setup_quit: "setup_methods env pw auths prompt w = (Setup_quit r, m, auths', prompt', w') \<Longrightarrow> r \<noteq> AUTH_SUCCESS"
  by (induction auths arbitrary: prompt w r m auths' prompt' w')
    (auto simp: Let_def split: if_splits option.splits prod.splits auth_status.splits)

lemma lecture_frame [simp]: "st_trace (display_lecture env st) = st_trace st" "st_methods (display_lecture env st) = st_methods st"
  "st_blocked (display_lecture env st) = st_blocked st"
  by (simp_all add: display_lecture_def)

lemma verify_methods_trace:
  "verify_methods env pw p auths st = (ret, auths', st') \<Longrightarrow>
   length auths' = length auths \<and> st_blocked st' = st_blocked st \<and>
   (\<exists>new. st_trace st' = new @ st_trace st \<and> verified new = (ret = AUTH_SUCCESS) \<and> verifications new \<le> length auths)"
proof (induction auths arbitrary: st ret auths' st')
  case (Cons a auths)
  show ?case
  proof (cases "IS_DISABLED a")
    case True
    then show ?thesis using Cons by (fastforce split: prod.splits)
  next
    case False
    obtain r st1 where t: "run_talk env pw (auth_verify a (auth_flags a) pw p (st_world st)) st = (r, st1)" by fastforce
    note frame = talk_frame [OF t]
    show ?thesis
    proof (cases "r = AUTH_FAILURE")
      case True
      obtain ret2 auths2 st2 where v: "verify_methods env pw p auths (auth_log (Verify (auth_name a) r) st1) = (ret2, auths2, st2)"
        by (metis prod_cases3)
      from Cons.IH [OF v] obtain new where new: "st_trace st2 = new @ Verify (auth_name a) r # st_trace st"
        "verified new = (ret2 = AUTH_SUCCESS)" "verifications new \<le> length auths" "length auths2 = length auths"
        "st_blocked st2 = st_blocked st" using frame by auto
      have "ret = ret2" "st' = st2" "auths' = a\<lparr>auth_status_field := r\<rparr> # auths2"
        using Cons.prems False t v True by (auto simp: Let_def)
      then show ?thesis using new True by (auto intro!: exI [of _ "new @ [Verify (auth_name a) r]"])
    next
      case other: False
      then show ?thesis using Cons.prems False t frame by (auto simp: Let_def intro!: exI [of _ "[Verify (auth_name a) r]"])
    qed
  qed
qed simp

lemma try_password_trace:
  assumes "try_password env pw prompt st = (r, st')"
  shows "length (st_methods st') = length (st_methods st) \<and> st_blocked st' = st_blocked st \<and> r \<noteq> Try_return \<and>
   (\<exists>new. st_trace st' = new @ st_trace st \<and> verified new = (r = Try_done AUTH_SUCCESS) \<and> verifications new \<le> length (st_methods st))"
proof -
  obtain pass st1 where p: "(if st_standalone st then (Some prompt, st) else auth_getpass env pw prompt st) = (pass, st1)"
    by fastforce
  then have st1: "st_trace st1 = st_trace st" "st_methods st1 = st_methods st" "st_blocked st1 = st_blocked st"
    by (auto simp: auth_getpass_def split: if_splits dest!: talk_frame)
  obtain ret auths st2 where v: "verify_methods env pw (the pass) (st_methods st1) st1 = (ret, auths, st2)" by (metis prod_cases3)
  show ?thesis using assms verify_methods_trace [OF v] st1 v
    by (cases pass) (auto simp: try_password_def p split: if_splits)
qed

lemma verify_round_trace:
  assumes "verify_round env pw prompt st = (r, prompt', st')"
  shows "length (st_methods st') = length (st_methods st) \<and> st_blocked st' = st_blocked st \<and>
   (\<exists>new. st_trace st' = new @ st_trace st \<and> verified new = (r = Try_done AUTH_SUCCESS) \<and>
     verifications new \<le> length (st_methods st) \<and> (r = Try_return \<longrightarrow> hd new = No_auth_methods \<and> new \<noteq> []))"
proof -
  obtain q m auths prompt1 w where s: "setup_methods env pw (st_methods st) prompt (st_world st) = (q, m, auths, prompt1, w)"
    by (metis prod_cases5)
  have quit: "q \<noteq> Setup_quit AUTH_SUCCESS"
  proof
    assume "q = Setup_quit AUTH_SUCCESS"
    from setup_quit [OF s [unfolded this]] show False by simp
  qed
  obtain t st3 where t: "try_password env pw prompt1 (st\<lparr>st_methods := auths, st_world := w\<rparr>) = (t, st3)" by (rule prod.exhaust)
  let ?st = "st\<lparr>st_methods := auths, st_world := w\<rparr>"
  have round: "(r, st') = (case q of Setup_quit ret \<Rightarrow> (Try_done ret, ?st) | Setup_done \<Rightarrow>
      if m = 0 then (Try_return, auth_log No_auth_methods ?st)
      else if \<not> st_standalone ?st \<and> IS_NONINTERACTIVE (hd (st_methods ?st)) then (Try_done AUTH_NONINTERACTIVE, ?st) else (t, st3))"
    using assms by (auto simp: verify_round_def s t Let_def split: if_splits setup_result.splits)
  show ?thesis
  proof (cases q)
    case (Setup_quit ret)
    then show ?thesis using round quit setup_length [OF s] by simp
  next
    case Setup_done
    consider "m = 0" | "m \<noteq> 0" "r = Try_done AUTH_NONINTERACTIVE" "st' = ?st" | "m \<noteq> 0" "r = t" "st' = st3"
      using round Setup_done by (auto split: if_splits)
    then show ?thesis
    proof cases
      case 1
      then show ?thesis using round Setup_done setup_length [OF s] by (intro conjI exI [of _ "[No_auth_methods]"]) simp_all
    next
      case 2
      then show ?thesis using setup_length [OF s] by simp
    next
      case 3
      then show ?thesis using try_password_trace [OF t] setup_length [OF s] by simp
    qed
  qed
qed

lemma verify_try_trace:
  assumes "verify_try env pw n prompt st = (r, prompt', st')"
  shows "length (st_methods st') = length (st_methods st) \<and> st_blocked st' = st_blocked st \<and>
   (\<exists>new. st_trace st' = new @ st_trace st \<and> verified new = (r = Try_done AUTH_SUCCESS) \<and>
     verifications new \<le> length (st_methods st) \<and> (r = Try_return \<longrightarrow> hd new = No_auth_methods \<and> new \<noteq> []))"
proof (cases "ae_interrupted env (st_world st)")
  case True
  then show ?thesis using assms by (auto simp: verify_try_def)
next
  case False
  let ?st = "if n \<noteq> 0 then auth_log Pass_warn st else st"
  obtain new where new: "st_trace st' = new @ st_trace ?st" "verified new = (r = Try_done AUTH_SUCCESS)"
    "verifications new \<le> length (st_methods ?st)" "r = Try_return \<longrightarrow> hd new = No_auth_methods \<and> new \<noteq> []"
    "length (st_methods st') = length (st_methods ?st)" "st_blocked st' = st_blocked ?st"
    using assms False verify_round_trace [of env pw prompt ?st r prompt' st'] by (auto simp: verify_try_def)
  show ?thesis
  proof (cases "n = 0")
    case True
    then show ?thesis using new by auto
  next
    case False
    then show ?thesis using new by (auto intro!: exI [of _ "new @ [Pass_warn]"])
  qed
qed

definition verify_result :: "auth_status \<Rightarrow> auth_event list \<Rightarrow> bool \<Rightarrow> bool" where
  \<comment> \<open>a status, the new events and whether signals are still blocked\<close>
  "verify_result ret new blocked \<longleftrightarrow> ret \<in> {AUTH_SUCCESS, AUTH_FAILURE, AUTH_ERROR} \<and> verified new = (ret = AUTH_SUCCESS) \<and>
     (ret = AUTH_SUCCESS \<or> new \<noteq> [] \<and> (hd new = No_auth_methods \<or> (\<exists>validated n. hd new = Log_auth_failure validated n))) \<and>
     (blocked \<longleftrightarrow> ret = AUTH_ERROR \<and> hd new = No_auth_methods)"

lemma verify_done_result:
  assumes "verify_done validated n ret st = (r, st')" "st_trace st = old @ tr" "verified old = (ret = AUTH_SUCCESS)"
  shows "\<exists>new. st_trace st' = new @ tr \<and> verify_result r new (st_blocked st') \<and> verifications new = verifications old"
  using assms by (cases ret) (auto simp: verify_done_def verify_result_def intro: exI [of _ "_ # old"])

lemma verify_loop_result:
  assumes "verify_loop env pw validated k n prompt st = (r, st')" "st_blocked st"
  shows "\<exists>new. st_trace st' = new @ st_trace st \<and> verify_result r new (st_blocked st') \<and>
    verifications new \<le> k * length (st_methods st)"
  using assms
proof (induction k arbitrary: n prompt st)
  case 0
  then show ?case using verify_done_result [of validated n AUTH_FAILURE st r st' "[]" "st_trace st"] by auto
next
  case (Suc k)
  obtain q prompt1 st1 where t: "verify_try env pw n prompt st = (q, prompt1, st1)" by (metis prod_cases3)
  from verify_try_trace [OF t] obtain new where new: "st_trace st1 = new @ st_trace st" "verified new = (q = Try_done AUTH_SUCCESS)"
    "verifications new \<le> length (st_methods st)" "q = Try_return \<longrightarrow> hd new = No_auth_methods \<and> new \<noteq> []"
    "length (st_methods st1) = length (st_methods st)" "st_blocked st1 = st_blocked st" by blast
  show ?case
  proof (cases q)
    case Try_again
    then have "verify_loop env pw validated k (Suc n) prompt1 st1 = (r, st')" using Suc.prems(1) t by simp
    from Suc.IH [OF this] new Suc.prems(2) obtain new' where n': "st_trace st' = new' @ st_trace st1"
      "verify_result r new' (st_blocked st')" "verifications new' \<le> k * length (st_methods st)" by auto
    have "verify_result r (new' @ new) (st_blocked st')"
      using n'(2) new(2) Try_again by (cases new') (auto simp: verify_result_def)
    then show ?thesis using n' new by (intro exI [of _ "new' @ new"]) simp
  next
    case (Try_done ret)
    then have "verify_done validated n ret st1 = (r, st')" using Suc.prems(1) t by simp
    from verify_done_result [OF this new(1)] Try_done new(2) obtain new' where n': "st_trace st' = new' @ st_trace st"
      "verify_result r new' (st_blocked st')" "verifications new' = verifications new" by auto
    then show ?thesis using new(3) by (intro exI [of _ new']) simp
  next
    case Try_return
    then have "r = AUTH_ERROR" "st' = st1" using Suc.prems(1) t by auto
    then have "verify_result r new (st_blocked st')" using new Suc.prems(2) Try_return by (auto simp: verify_result_def)
    then show ?thesis using new(1,3) \<open>st' = st1\<close> by (intro exI [of _ new]) simp
  qed
qed

text \<open>
  C25. \<open>verify_user\<close> succeeds exactly when a method verified the user, tries at most
  \<open>passwd_tries\<close> times, reports every failure, and restores the signals unless all methods
  turned out to be disabled.
\<close>

theorem verify_user_outcome:
  assumes "verify_user env pw prompt validated st = (ret, st')" "st_methods st \<noteq> []"
  shows "\<exists>new. st_trace st' = new @ st_trace st \<and> (ret = AUTH_SUCCESS \<longleftrightarrow> verified new) \<and>
    ret \<in> {AUTH_SUCCESS, AUTH_FAILURE, AUTH_ERROR} \<and>
    verifications new \<le> def_passwd_tries (ae_defs env) * length (st_methods st) \<and>
    (ret \<noteq> AUTH_SUCCESS \<longrightarrow> (\<exists>e rest. new = e # rest \<and> (e = No_auth_methods \<or> (\<exists>v n. e = Log_auth_failure v n)))) \<and>
    (st_blocked st' \<longleftrightarrow> ret = AUTH_ERROR \<and> hd new = No_auth_methods)"
proof -
  have "verify_loop env pw validated (def_passwd_tries (ae_defs env)) 0 prompt (st\<lparr>st_blocked := True\<rparr>) = (ret, st')"
    using assms by (simp add: verify_user_def)
  from verify_loop_result [OF this] obtain new where "st_trace st' = new @ st_trace st" "verify_result ret new (st_blocked st')"
    "verifications new \<le> def_passwd_tries (ae_defs env) * length (st_methods st)" by auto
  then show ?thesis by (intro exI [of _ new]) (cases new; auto simp: verify_result_def)
qed

lemma verify_user_verified:
  assumes "verify_user env pw prompt validated st = (ret, st')"
  shows "\<exists>new. st_trace st' = new @ st_trace st \<and> (ret = AUTH_SUCCESS \<longleftrightarrow> verified new)"
proof (cases "st_methods st = []")
  case True
  then show ?thesis using assms by (auto simp: verify_user_def)
next
  case False
  then have "verify_loop env pw validated (def_passwd_tries (ae_defs env)) 0 prompt (st\<lparr>st_blocked := True\<rparr>) = (ret, st')"
    using assms by (simp add: verify_user_def)
  from verify_loop_result [OF this] show ?thesis by (auto simp: verify_result_def)
qed

lemma isset_or [simp]: "ISSET (or w v) f \<longleftrightarrow> ISSET w f \<or> ISSET v f"
  by (auto simp: ISSET_def bit_eq_iff bit_simps)

lemma only_set_auth [simp]: "f \<in> {FLAG_DISABLED, FLAG_NONINTERACTIVE} \<Longrightarrow> IS_ONEANDONLY (set_auth f a) = IS_ONEANDONLY a"
  by (auto simp: IS_ONEANDONLY_def set_auth_def SET_def)
    (auto simp: ISSET_def FLAG_DISABLED_def FLAG_NONINTERACTIVE_def FLAG_ONEANDONLY_def)

lemma init_methods_only:
  "init_methods mode pw auths w = (ok, auths', w') \<Longrightarrow> \<forall>a \<in> set auths. \<not> IS_ONEANDONLY a \<Longrightarrow> \<forall>a \<in> set auths'. \<not> IS_ONEANDONLY a"
  by (induction auths arbitrary: w ok auths' w') (auto simp: Let_def split: if_splits option.splits prod.splits)

lemma first_standalone_only:
  "\<forall>a \<in> set auths. \<not> IS_ONEANDONLY a \<Longrightarrow> \<forall>a \<in> set (snd (first_standalone found auths)). \<not> IS_ONEANDONLY a"
  by (induction found auths rule: first_standalone.induct) (auto simp: snd_map_prod)

lemma mark_only_nothing: "mark_only auths = auths"
  by (induction auths) auto

text \<open>
  \<open>FLAG_ONEANDONLY\<close> is never set, although the code means to set it when there is one method
  (S/Key and OPIE read it): the search for other methods starts at the first enabled one, finds it
  and stops.
\<close>

theorem never_one_and_only:
  assumes "sudo_auth_init mode pw st = (r, st')" "\<forall>a \<in> set (st_methods st). \<not> IS_ONEANDONLY a"
  shows "\<forall>a \<in> set (st_methods st'). \<not> IS_ONEANDONLY a"
proof -
  obtain ok auths w where i: "init_methods mode pw (st_methods st) (st_world st) = (ok, auths, w)" by (metis prod_cases3)
  obtain ok' auths' where f: "first_standalone False auths = (ok', auths')" by (rule prod.exhaust)
  have "\<forall>a \<in> set auths. \<not> IS_ONEANDONLY a" "\<forall>a \<in> set auths'. \<not> IS_ONEANDONLY a"
    using init_methods_only [OF i assms(2)] first_standalone_only [of auths False] by (auto simp: f)
  then show ?thesis using assms i f
    by (auto simp: sudo_auth_init_def mark_only_nothing Let_def auth_log_def split: if_splits)
qed

end
