(* ===== verification/AuthHistory.thy ===== *)
theory AuthHistory
  imports AuthProps
begin

text \<open>
  When \<open>check_user\<close> succeeds, over every sequence of runs of sudo by any users and terminals on the
  time stamp file of a user, with \<open>sudo -k\<close> in between. Runs do not overlap here (theory
  \<open>TimestampSafety\<close> interleaves the operations on the file); within a run the talks may be
  suspended and resumed. The writes to the file succeed, locking may fail.
\<close>

datatype run_event = Authenticated ts_context passwd | Revoked timestamp_entry

definition earned :: "run_event list \<Rightarrow> timestamp_entry \<Rightarrow> bool" where
  \<comment> \<open>its user was verified in its session, and no \<open>sudo -k\<close> since then matches it\<close>
  "earned log e \<longleftrightarrow> (\<exists>ctx pw later earlier. log = later @ Authenticated ctx pw # earlier \<and> owns ctx pw e \<and>
     (\<forall>k. Revoked k \<in> set later \<longrightarrow> \<not> ts_match_record k e))"

lemma earned_new: "owns ctx pw e \<Longrightarrow> earned (Authenticated ctx pw # log) e"
  unfolding earned_def by (intro exI [of _ ctx] exI [of _ pw] exI [of _ "[]"] exI [of _ log]) auto

lemma earned_later:
  assumes "earned log e" "\<And>k. ev = Revoked k \<Longrightarrow> \<not> ts_match_record k e"
  shows "earned (ev # log) e"
proof -
  obtain ctx pw later earlier where "log = later @ Authenticated ctx pw # earlier" "owns ctx pw e"
    "\<forall>k. Revoked k \<in> set later \<longrightarrow> \<not> ts_match_record k e" using assms(1) by (auto simp: earned_def)
  then show ?thesis unfolding earned_def using assms(2)
    by (intro exI [of _ ctx] exI [of _ pw] exI [of _ "ev # later"] exI [of _ earlier]) auto
qed

lemma earned_refresh:
  assumes "earned log e" "own_key ctx pw k" "ts_match_record k e" "te_type e = TS_GLOBAL \<or> te_sid e = tc_sid ctx"
  shows "earned log k"
proof -
  have "ts_match_record j k = ts_match_record j e" for j
    using match_agrees [OF assms(3)] assms(2) by (simp add: own_key_def)
  moreover have "owns c p e = owns c p k" for c p by (rule match_owns [OF assms(2-4)])
  ultimately show ?thesis using assms(1) by (auto simp: earned_def)
qed

section \<open>One run\<close>

definition run_event_of :: "'w auth_env \<Rightarrow> passwd \<Rightarrow> auth_event list \<Rightarrow> run_event list \<Rightarrow> run_event list" where
  "run_event_of env pw tr log = (if verified tr then Authenticated (ae_ctx env) pw # log else log)"

lemma earned_run: "earned log e \<Longrightarrow> earned (run_event_of env pw tr log) e"
  by (auto simp: run_event_of_def intro: earned_later)

lemma ask_user_steps:
  assumes "ask_user env validated mode pw st = (ret, validated', st')" "writes_all env" "run_inv P env pw st"
  shows "run_inv P env pw st' \<and> (\<exists>new. st_trace st' = new @ st_trace st \<and> (ret = AUTH_SUCCESS \<longleftrightarrow> verified new))"
proof (cases "ISSET mode MODE_NONINTERACTIVE \<and> \<not> def_noninteractive_auth (ae_defs env)")
  case True
  then show ?thesis using assms by (auto simp: ask_user_def Let_def)
next
  case False
  show ?thesis
  proof (cases "user_prompt env pw")
    case None
    then show ?thesis using assms False by (auto simp: ask_user_def)
  next
    case (Some prompt)
    obtain r st1 where v: "verify_user env pw prompt validated st = (r, st1)" by (rule prod.exhaust)
    have inv: "run_inv P env pw st1" using verify_user_inv [OF assms(2,3), of prompt validated] by (simp add: v)
    obtain new where new: "st_trace st1 = new @ st_trace st" "r = AUTH_SUCCESS \<longleftrightarrow> verified new"
      using verify_user_verified [OF v] by blast
    have r: "ret = r" "st' = (if r = AUTH_SUCCESS \<and> st_lectured st1 then auth_log Set_lectured st1 else st1)"
      using assms(1) False Some v by (auto simp: ask_user_def)
    show ?thesis
    proof (cases "r = AUTH_SUCCESS \<and> st_lectured st1")
      case True
      then show ?thesis using inv new by (auto simp: r intro!: exI [of _ "Set_lectured # new"])
    next
      case False
      then show ?thesis using inv new unfolding r by auto
    qed
  qed
qed

lemma authenticate_steps:
  assumes "authenticate env validated mode status pw st = (ret, validated', st')" "writes_all env" "run_inv P env pw st"
  shows "run_inv P env pw st' \<and> (\<exists>new. st_trace st' = new @ st_trace st \<and>
    (ret = AUTH_SUCCESS \<longrightarrow> verified new \<or> status = TS_CURRENT \<and> \<not> ISSET validated FLAG_CHECK_USER \<and> st' = st \<and> new = []))"
  using assms(1,3) ask_user_steps [OF _ assms(2,3), of validated mode ret validated' st']
  by (cases status) (auto simp: authenticate_def split: if_splits)

lemma approval_steps:
  assumes "sudo_auth_approval pw validated exempt st = (ret, st')"
  shows "\<exists>new. st_trace st' = new @ st_trace st \<and> \<not> verified new" "st_cookie st' = st_cookie st" "st_file st' = st_file st"
    "st_opens st' = st_opens st"
  using assms by (auto simp: sudo_auth_approval_def auth_log_def Let_def split: prod.splits if_splits)

lemma success_steps:
  assumes "check_success env validated mode exempt status pw st = (ret, st')" "writes_all env" "run_inv (earned log) env pw st"
    and grounds: "status \<noteq> TS_ERROR \<Longrightarrow> verified new \<or> (\<exists>e. holds_ticket (earned log) env pw st e)"
  shows "run_inv (earned (run_event_of env pw new log)) env pw st' \<and> (\<exists>more. st_trace st' = more @ st_trace st \<and> \<not> verified more)"
proof -
  let ?Q = "earned (run_event_of env pw new log)"
  obtain r st1 where a: "sudo_auth_approval pw validated exempt st = (r, st1)" by (rule prod.exhaust)
  note st1 = approval_steps [OF a]
  have inv: "run_inv (earned log) env pw st1" using assms(3) st1 by (simp add: run_inv_def)
  define up where "up \<longleftrightarrow> r = AUTH_SUCCESS \<and> ISSET validated VALIDATE_SUCCESS \<and> ISSET mode MODE_UPDATE_TICKET \<and> status \<noteq> TS_ERROR"
  have st': "st' = (if up then st1\<lparr>st_cookie := snd (timestamp_update (ae_io env (st_opens st1)) (ae_ts_defs env) (ae_later env)
      (st_cookie st1))\<rparr> else st1)"
    using assms(1) a by (auto simp: check_success_def up_def)
  show ?thesis
  proof (cases up)
    case False
    have "tickets ?Q rs" if "tickets (earned log) rs" for rs using that by (rule tickets_mono) (rule earned_run)
    then have "run_inv ?Q env pw st1" using inv
      by (cases "st_cookie st1") (auto simp: run_inv_def file_ok_def cookie_ok_def, blast+)
    then show ?thesis using False st1(1) by (simp add: st')
  next
    case True
    have "?Q k" if c: "st_cookie st1 = Some (c, fd)" "own_key (ae_ctx env) pw (ck_key c)" "own_key (ae_ctx env) pw k"
      "\<And>e. ts_match_record k e = ts_match_record (ck_key c) e" for c fd k
    proof (cases "verified new")
      case True
      then show ?thesis using earned_new [OF own_key_owns [OF c(3)]] by (simp add: run_event_of_def)
    next
      case False
      then obtain e where "holds_ticket (earned log) env pw st e" using grounds True by (auto simp: up_def)
      then have "earned log e" "ts_match_record k e" "te_type e = TS_GLOBAL \<or> te_sid e = tc_sid (ae_ctx env)"
        using c st1(2) by (auto simp: holds_ticket_def)
      then have "earned log k" using earned_refresh c(3) by blast
      then show ?thesis by (rule earned_run)
    qed
    then have "run_inv ?Q env pw (st1\<lparr>st_cookie := snd (timestamp_update (ae_io env (st_opens st1)) (ae_ts_defs env) (ae_later env)
        (st_cookie st1))\<rparr>)"
      by (intro update_inv [OF assms(2) inv]) (simp add: earned_run, blast)
    then show ?thesis using True st1(1) by (simp add: st')
  qed
qed

lemma check_user_pw_steps:
  assumes run: "check_user_pw env validated mode pw st = (ret, validated', st')" and env: "writes_all env"
    and at: "file_ok (earned log) (st_file st)" "st_cookie st = None"
  shows "\<exists>new. st_trace st' = new @ st_trace st \<and> run_inv (earned (run_event_of env pw new log)) env pw st' \<and>
    (ret = AUTH_SUCCESS \<longrightarrow> no_password env mode \<noteq> None \<or> verified new \<or>
       \<not> ISSET validated FLAG_CHECK_USER \<and> \<not> ISSET mode MODE_IGNORE_TICKET \<and> (\<exists>st e. holds_ticket (earned log) env pw st e))"
proof (cases "no_password env mode")
  case (Some exempt)
  obtain r st1 where s: "check_success env validated mode exempt TS_ERROR pw st = (r, st1)" by (rule prod.exhaust)
  have "run_inv (earned log) env pw st" using at by (simp add: run_inv_def)
  from success_steps [OF s env this, of "[]"] obtain more where "run_inv (earned log) env pw st1"
    "st_trace st1 = more @ st_trace st" "\<not> verified more" by (auto simp: run_event_of_def)
  moreover have "st' = st1" using run Some s by (auto simp: check_user_pw_def)
  ultimately show ?thesis using Some by (auto simp: run_event_of_def)
next
  case None
  obtain status st1 where t: "ticket_status env mode pw st = (status, st1)" by (rule prod.exhaust)
  note inv1 = ticket_status_inv [OF env at t]
  have tr1: "st_trace st1 = st_trace st"
    using t open_frame [of env st] lock_frame [of env pw] by (auto simp: ticket_status_def split: if_splits prod.splits)
  obtain r v1 st2 where a: "authenticate env validated mode status pw st1 = (r, v1, st2)" by (metis prod_cases3)
  obtain new where inv2: "run_inv (earned log) env pw st2" "st_trace st2 = new @ st_trace st1"
    "r = AUTH_SUCCESS \<longrightarrow> verified new \<or> status = TS_CURRENT \<and> \<not> ISSET validated FLAG_CHECK_USER \<and> st2 = st1 \<and> new = []"
    using authenticate_steps [OF a env] inv1 by blast
  have ticket: "\<exists>e. holds_ticket (earned log) env pw st2 e" if "r = AUTH_SUCCESS" "\<not> verified new"
    using that inv1 inv2(3) by auto
  have grounds: "no_password env mode \<noteq> None \<or> verified new \<or> \<not> ISSET validated FLAG_CHECK_USER \<and>
      \<not> ISSET mode MODE_IGNORE_TICKET \<and> (\<exists>st e. holds_ticket (earned log) env pw st e)" if "r = AUTH_SUCCESS"
    using that inv1 inv2(3) by blast
  show ?thesis
  proof (cases "r = AUTH_SUCCESS")
    case False
    have "tickets (earned (run_event_of env pw new log)) rs" if "tickets (earned log) rs" for rs
      using that by (rule tickets_mono) (rule earned_run)
    then have "run_inv (earned (run_event_of env pw new log)) env pw st2" using inv2(1)
      by (cases "st_cookie st2") (auto simp: run_inv_def file_ok_def cookie_ok_def, blast+)
    then show ?thesis using run None t a False inv2(2) tr1 by (auto simp: check_user_pw_def)
  next
    case True
    obtain r' st3 where s: "check_success env v1 mode False status pw st2 = (r', st3)" by (rule prod.exhaust)
    obtain more where more: "run_inv (earned (run_event_of env pw new log)) env pw st3"
      "st_trace st3 = more @ st_trace st2" "\<not> verified more"
      using success_steps [OF s env inv2(1), of new] ticket True by blast
    have "st' = st3" "ret = r'" using run None t a s True by (auto simp: check_user_pw_def)
    then show ?thesis using more inv2(2) tr1 grounds [OF True]
      by (intro exI [of _ "more @ new"]) (simp add: run_event_of_def)
  qed
qed

lemma init_frame: "sudo_auth_init mode pw st = (AUTH_SUCCESS, st') \<Longrightarrow>
    st_trace st' = st_trace st \<and> st_file st' = st_file st \<and> st_cookie st' = st_cookie st"
  by (auto simp: sudo_auth_init_def Let_def split: if_splits prod.splits)

lemma cleanup_frame [simp]: "st_trace (snd (sudo_auth_cleanup pw f st)) = st_trace st" "st_file (snd (sudo_auth_cleanup pw f st)) = st_file st"
  "st_cookie (snd (sudo_auth_cleanup pw f st)) = st_cookie st"
  by (simp_all add: sudo_auth_cleanup_def map_prod_def split: prod.split)

lemma check_user_steps:
  assumes run: "check_user env validated mode st = (ret, st')" and env: "writes_all env" and pw: "fst (get_authpw env mode st) = Some pw"
    and at: "file_ok (earned log) (st_file st)" "st_cookie st = None" "st_trace st = []"
  shows "file_ok (earned (run_event_of env pw (st_trace st') log)) (st_file st') \<and>
    (ret = AUTH_SUCCESS \<longrightarrow> ISSET (ae_mode env) MODE_POLICY_INTERCEPTED \<and> \<not> def_intercept_authenticate (ae_defs env) \<or>
       no_password env mode \<noteq> None \<or> verified (st_trace st') \<or>
       \<not> ISSET validated FLAG_CHECK_USER \<and> \<not> ISSET mode MODE_IGNORE_TICKET \<and> (\<exists>st e. holds_ticket (earned log) env pw st e))"
proof (cases "ISSET (ae_mode env) MODE_POLICY_INTERCEPTED \<and> \<not> def_intercept_authenticate (ae_defs env)")
  case True
  then show ?thesis using run at by (auto simp: check_user_def run_event_of_def)
next
  case False
  have g: "get_authpw env mode st = (Some pw, st)"
    using pw by (auto simp: get_authpw_def Let_def split: if_splits)
  obtain i st1 where i: "sudo_auth_init mode pw st = (i, st1)" by (rule prod.exhaust)
  show ?thesis
  proof (cases "i = AUTH_SUCCESS")
    case False
    have "st_file st1 = st_file st \<and> \<not> verified (st_trace st1)"
      using i at(3) by (auto simp: sudo_auth_init_def Let_def auth_log_def split: if_splits prod.splits)
    moreover have "st' = st1 \<and> ret = AUTH_ERROR"
      using run \<open>\<not> (_ \<and> _)\<close> g i False by (cases i) (auto simp: check_user_def)
    ultimately show ?thesis using at(1) by (simp add: run_event_of_def)
  next
    case True
    note st1 = init_frame [OF i [unfolded True]]
    obtain r v2 st2 where p: "check_user_pw env validated mode pw st1 = (r, v2, st2)" by (metis prod_cases3)
    obtain new where new: "st_trace st2 = new" "run_inv (earned (run_event_of env pw new log)) env pw st2"
      "r = AUTH_SUCCESS \<longrightarrow> no_password env mode \<noteq> None \<or> verified new \<or>
       \<not> ISSET validated FLAG_CHECK_USER \<and> \<not> ISSET mode MODE_IGNORE_TICKET \<and> (\<exists>st e. holds_ticket (earned log) env pw st e)"
      using check_user_pw_steps [OF p env] at st1 by auto
    have "ret = r" "st' = snd (sudo_auth_cleanup pw (\<not> ISSET v2 VALIDATE_SUCCESS) (close_cookie st2))"
      using run False g i True p by (auto simp: check_user_def)
    then show ?thesis using new run_inv_file [OF new(2)] by simp
  qed
qed

section \<open>Histories of runs\<close>

text \<open>The parameter is the type of the world of the methods, one for all runs.\<close>

inductive sudo_history :: "'w itself \<Rightarrow> bytes option \<Rightarrow> run_event list \<Rightarrow> bool" where
  start: "sudo_history world None []"
| run: "sudo_history world file log \<Longrightarrow> writes_all (env :: 'w auth_env) \<Longrightarrow> st_file st = file \<Longrightarrow> st_cookie st = None \<Longrightarrow> st_trace st = [] \<Longrightarrow>
    fst (get_authpw env mode st) = Some pw \<Longrightarrow> check_user env validated mode st = (ret, st') \<Longrightarrow>
    sudo_history world (st_file st') (run_event_of env pw (st_trace st') log)"
| kill: "sudo_history world (Some data) log \<Longrightarrow> writes_ok io \<Longrightarrow> fd_data fd = data \<Longrightarrow> fd_off fd = 0 \<Longrightarrow>
    timestamp_remove io stt df ctx fd = Some (r, fd') \<Longrightarrow> r \<noteq> Remove_error \<Longrightarrow>
    sudo_history world (Some (fd_data fd')) (Revoked (ts_init_key stt ctx None 0 (def_timestamp_type df)) # log)"
| unlink: "sudo_history world file log \<Longrightarrow> sudo_history world None log"

lemma tickets_disable:
  assumes "tickets (earned log) rs"
  shows "tickets (earned (Revoked k # log)) (map (disable k) rs)"
proof -
  have "te_type r = TS_LOCKEXCL \<or> flag_set TS_DISABLED r \<or> earned (Revoked k # log) r" if "r \<in> disable k ` set rs" for r
  proof -
    obtain r0 where r: "r0 \<in> set rs" "r = disable k r0" using \<open>r \<in> _\<close> by auto
    then have "te_type r0 = TS_LOCKEXCL \<or> flag_set TS_DISABLED r0 \<or> earned log r0" using assms by (auto simp: tickets_def)
    then show ?thesis
      by (cases "ts_match_record k r0") (auto simp: r(2) disable_def set_flag_disabled intro: earned_later)
  qed
  then show ?thesis using assms by (auto simp: tickets_def ts_ok_def hd_map)
qed

lemma history_tickets: "sudo_history world file log \<Longrightarrow> file_ok (earned log) file"
proof (induction rule: sudo_history.induct)
  case (run world f log env st mode pw validated ret st')
  then show ?case using check_user_steps [OF run.hyps(7,2,6)] by simp
next
  case (kill world data log io fd stt df ctx r fd')
  then obtain rs where rs: "data = records rs" "tickets (earned log) rs" by (auto simp: file_ok_Some)
  have "\<forall>r \<in> set rs. sized r" using rs(2) by (auto simp: tickets_def ts_ok_def)
  from remove_file [OF kill(2) _ this kill(4-6)] show ?case
    using kill(3) rs tickets_disable [OF rs(2)] by (auto simp: file_ok_Some)
qed simp_all

text \<open>
  C2. Who gets through: in whatever sequence of runs, \<open>check_user\<close> succeeds only for an
  intercepted command when these are not authenticated, when \<open>authenticate\<close> is off, an exempt user, root, a user who runs the
  command as himself, a user a method has verified in this run, or, unless the policy wants the
  password anyway, with a ticket. Behind a ticket there is an earlier run in which the same user was
  verified, in the same session on the same terminal (or from the same parent) unless tickets are
  global, and no \<open>sudo -k\<close> since then that matches the ticket.
\<close>

theorem success_was_authenticated:
  assumes "sudo_history TYPE('w) file log" "writes_all (env :: 'w auth_env)" "st_file st = file" "st_cookie st = None" "st_trace st = []"
    and "fst (get_authpw env mode st) = Some pw" "check_user env validated mode st = (AUTH_SUCCESS, st')"
  shows "ISSET (ae_mode env) MODE_POLICY_INTERCEPTED \<and> \<not> def_intercept_authenticate (ae_defs env) \<or>
    no_password env mode \<noteq> None \<or>
    (\<exists>name. Verify name AUTH_SUCCESS \<in> set (st_trace st')) \<or>
    \<not> ISSET validated FLAG_CHECK_USER \<and> \<not> ISSET mode MODE_IGNORE_TICKET \<and>
      (\<exists>e ctx0 pw0 later earlier. log = later @ Authenticated ctx0 pw0 # earlier \<and> pw_uid pw0 = pw_uid pw \<and>
        (def_timestamp_type (ae_ts_defs env) = Global \<or>
         tc_sid ctx0 = tc_sid (ae_ctx env) \<and> (tc_ttydev ctx0 = tc_ttydev (ae_ctx env) \<or> tc_ppid ctx0 = tc_ppid (ae_ctx env))) \<and>
        (\<forall>k. Revoked k \<in> set later \<longrightarrow> \<not> ts_match_record k e) \<and>
        te_auth_uid e = pw_uid pw \<and> fst (entry_status (ae_ts_defs env) (ae_ctx env) (ae_now env) e) = TS_CURRENT)"
proof -
  have "file_ok (earned log) (st_file st)" using history_tickets [OF assms(1)] assms(3) by simp
  note grounds = check_user_steps [OF assms(7,2,6) this assms(4,5)]
  have ticket: "\<exists>e ctx0 pw0 later earlier. log = later @ Authenticated ctx0 pw0 # earlier \<and> pw_uid pw0 = pw_uid pw \<and>
        (def_timestamp_type (ae_ts_defs env) = Global \<or>
         tc_sid ctx0 = tc_sid (ae_ctx env) \<and> (tc_ttydev ctx0 = tc_ttydev (ae_ctx env) \<or> tc_ppid ctx0 = tc_ppid (ae_ctx env))) \<and>
        (\<forall>k. Revoked k \<in> set later \<longrightarrow> \<not> ts_match_record k e) \<and>
        te_auth_uid e = pw_uid pw \<and> fst (entry_status (ae_ts_defs env) (ae_ctx env) (ae_now env) e) = TS_CURRENT"
    if "holds_ticket (earned log) env pw s e" for s e
  proof -
    obtain k where k: "ts_match_record k e" "own_key (ae_ctx env) pw k" "earned log e"
      "te_type e = TS_GLOBAL \<or> te_sid e = tc_sid (ae_ctx env)"
      "te_type e = TS_GLOBAL \<longrightarrow> def_timestamp_type (ae_ts_defs env) = Global"
      "fst (entry_status (ae_ts_defs env) (ae_ctx env) (ae_now env) e) = TS_CURRENT"
      using \<open>holds_ticket _ _ _ _ _\<close> unfolding holds_ticket_def by blast
    have now: "owns (ae_ctx env) pw e" by (rule match_owns(1) [OF k(2,1,4)])
    obtain ctx0 pw0 later earlier where before: "log = later @ Authenticated ctx0 pw0 # earlier" "owns ctx0 pw0 e"
      "\<forall>k. Revoked k \<in> set later \<longrightarrow> \<not> ts_match_record k e" using k(3) by (auto simp: earned_def)
    have same: "pw_uid pw0 = pw_uid pw" "te_auth_uid e = pw_uid pw"
      "te_type e = TS_GLOBAL \<or> tc_sid ctx0 = tc_sid (ae_ctx env) \<and>
        (tc_ttydev ctx0 = tc_ttydev (ae_ctx env) \<or> tc_ppid ctx0 = tc_ppid (ae_ctx env))"
      using now before(2) by (auto simp: owns_def ts_types)
    show ?thesis using before same k(5,6) by blast
  qed
  show ?thesis using grounds ticket unfolding verified_def by blast
qed

end
