(* ===== verification/TimestampSamples.thy ===== *)
theory TimestampSamples
  imports TimestampFaults Samples
begin

text \<open>Concrete instances of the properties of the time stamp file: a user on a terminal who authenticates.\<close>

definition at_second :: "nat \<Rightarrow> timespec" where
  "at_second n = \<lparr>tv_sec = of_nat n, tv_nsec = 0\<rparr>"

definition sample_io :: ts_io where
  "sample_io = \<lparr>io_write = (\<lambda>_. Some 56), io_lock = (\<lambda>_. True), io_ftruncate = (\<lambda>_. True)\<rparr>"

definition sample_ts_ctx :: ts_context where
  "sample_ts_ctx = \<lparr>tc_sudo = sample_ctx, tc_sid = 5, tc_ttydev = 7, tc_ppid = 4\<rparr>"

definition sample_ts_defs :: "ticket_type \<Rightarrow> ts_defs" where
  "sample_ts_defs ty = \<lparr>def_timestamp_timeout = at_second 900, def_timestamp_type = ty\<rparr>"

definition sample_starttime :: "32 word \<Rightarrow> timespec option" where
  "sample_starttime pid = Some (at_second 3)"

definition sample_lock :: "ticket_type \<Rightarrow> bytes \<Rightarrow> bool \<times> ts_cookie \<times> ts_fd" where
  "sample_lock ty data = timestamp_lock sample_io sample_starttime (sample_ts_defs ty) sample_ts_ctx (sample_pw ''alice'' 1000)
     (cookie_on \<lparr>f_data = data, f_mtime = timespec0\<rparr>)"

definition sample_update :: "ticket_type \<Rightarrow> ts_cookie \<times> ts_fd \<Rightarrow> bool \<times> (ts_cookie \<times> ts_fd) option" where
  "sample_update ty v = timestamp_update sample_io (sample_ts_defs ty) (Some (at_second 1000)) (Some v)"

definition sample_status :: "ticket_type \<Rightarrow> nat \<Rightarrow> ts_cookie \<times> ts_fd \<Rightarrow> ts_status" where
  "sample_status ty now v = fst (timestamp_status sample_io (sample_ts_defs ty) sample_ts_ctx (Some (at_second now)) (Some v))"

text \<open>The file after alice has authenticated, and her cookie.\<close>

definition sample_cookie :: "ticket_type \<Rightarrow> ts_cookie \<times> ts_fd" where
  "sample_cookie ty = the (snd (sample_update ty (snd (sample_lock ty []))))"

lemma sample_io_ok: "writes_ok sample_io"
  by (simp add: writes_ok_def sample_io_def SIZEOF_ENTRY_def)

lemma sample_evaluates:
  "fst (sample_lock Tty [])" "fst (sample_update Tty (snd (sample_lock Tty [])))"
  "sample_status Tty 1200 (sample_cookie Tty) = TS_CURRENT" "sample_status Tty 2000 (sample_cookie Tty) = TS_OLD"
  "length (fd_data (snd (sample_cookie Tty))) = 112"
  by code_simp+

section \<open>Current tickets\<close>

abbreviation sample_user :: passwd where "sample_user \<equiv> sample_pw ''alice'' 1000"

definition sample_key :: timestamp_entry where
  "sample_key = ck_key (fst (sample_cookie Tty))"

lemma sample_lock_step:
  assumes "ts_history data cs log" "fst (sample_lock ty data)"
  shows "ts_history (fd_data (snd (snd (sample_lock ty data)))) ((sample_ts_ctx, sample_user, fst (snd (sample_lock ty data))) # cs) log"
proof -
  obtain b c fd where l: "sample_lock ty data = (b, c, fd)" by (metis prod_cases3)
  obtain c0 fd0 where o: "cookie_on \<lparr>f_data = data, f_mtime = timespec0\<rparr> = (c0, fd0)" by fastforce
  have "fd_data fd0 = data" using o by (auto simp: cookie_on_def)
  moreover have "timestamp_lock sample_io sample_starttime (sample_ts_defs ty) sample_ts_ctx sample_user (c0, fd0) = (b, c, fd)"
    using l by (simp add: sample_lock_def o)
  ultimately show ?thesis using ts_history.lock [OF assms(1) sample_io_ok] assms(2) l by fastforce
qed

lemma sample_history:
  "ts_history (fd_data (snd (sample_cookie Tty)))
     [(sample_ts_ctx, sample_user, fst (sample_cookie Tty)), (sample_ts_ctx, sample_user, fst (snd (sample_lock Tty [])))]
     [Updated sample_key]"
proof -
  obtain c fd where l: "snd (sample_lock Tty []) = (c, fd)" by fastforce
  have "snd (sample_update Tty (c, fd)) \<noteq> None"
    by (auto simp: sample_update_def timestamp_update_def Let_def split: option.split prod.split)
  then obtain c' fd' where u: "sample_update Tty (c, fd) = (True, Some (c', fd'))"
    using sample_evaluates(2) l by (cases "sample_update Tty (c, fd)") auto
  have "ts_history (fd_data fd) [(sample_ts_ctx, sample_user, c)] []"
    using sample_lock_step [OF ts_history.start sample_evaluates(1)] l by simp
  from ts_history.update [OF this sample_io_ok refl, of sample_ts_ctx sample_user c] u
  have "ts_history (fd_data fd') [(sample_ts_ctx, sample_user, c'), (sample_ts_ctx, sample_user, c)] [Updated (ck_key c')]"
    by (fastforce simp: sample_update_def)
  then show ?thesis by (simp add: sample_key_def sample_cookie_def l u)
qed



section \<open>\<open>sudo -k\<close>\<close>

definition sample_fd :: "bytes \<Rightarrow> ts_fd" where
  "sample_fd data = \<lparr>fd_data = data, fd_off = 0, fd_held = [], fd_calls = 0\<rparr>"

definition sample_remove :: "ticket_type \<Rightarrow> bytes \<Rightarrow> (remove_result \<times> ts_fd) option" where
  "sample_remove ty data = timestamp_remove sample_io sample_starttime (sample_ts_defs ty) sample_ts_ctx (sample_fd data)"

definition sample_data :: "ticket_type \<Rightarrow> bytes" where
  "sample_data ty = fd_data (snd (sample_cookie ty))"

lemma sample_records: "sample_data Tty = records [lock_record, sample_key]" "ts_ok [lock_record, sample_key]"
  by code_simp+

theorem timestamp_remove_returns_witness: "\<exists>x fd'. sample_remove Tty (sample_data Tty) = Some (x, fd')"
  unfolding sample_remove_def by (rule timestamp_remove_returns [OF sample_io_ok])

lemma sample_lock_eq:
  "timestamp_lock sample_io sample_starttime (sample_ts_defs ty) sample_ts_ctx sample_user
     (\<lparr>ck_pos = None, ck_locked = False, ck_key = entry0\<rparr>, sample_fd data) = sample_lock ty data"
  by (simp add: sample_lock_def cookie_on_def sample_fd_def)

text \<open>The file after \<open>sudo -k\<close>.\<close>

lemmas remove_loop_code [code] = remove_loop.simps

definition sample_removed :: "ticket_type \<Rightarrow> bytes" where
  "sample_removed ty = fd_data (snd (the (sample_remove ty (sample_data ty))))"

theorem removed_ticket_not_current_witness:
  "sample_status Tty 1200 (snd (sample_lock Tty (sample_data Tty))) = TS_CURRENT \<and>
   sample_status Tty 1200 (snd (sample_lock Tty (sample_removed Tty))) \<noteq> TS_CURRENT"
proof
  show "sample_status Tty 1200 (snd (sample_lock Tty (sample_data Tty))) = TS_CURRENT" by code_simp
  obtain x fd1 where r: "sample_remove Tty (sample_data Tty) = Some (x, fd1)" "x \<noteq> Remove_error"
  proof -
    have "case sample_remove Tty (sample_data Tty) of Some (x, fd1) \<Rightarrow> x \<noteq> Remove_error | None \<Rightarrow> False" by code_simp
    then show thesis using that by (auto split: option.splits)
  qed
  have "fst (sample_lock Tty (sample_removed Tty))" by code_simp
  then obtain c fd3 where l: "sample_lock Tty (sample_removed Tty) = (True, c, fd3)"
    by (cases "sample_lock Tty (sample_removed Tty)") auto
  have "fst (timestamp_status sample_io (sample_ts_defs Tty) sample_ts_ctx (Some (at_second 1200)) (Some (c, fd3))) \<noteq> TS_CURRENT"
  proof (rule removed_ticket_not_current [OF sample_io_ok sample_records(2)])
    show "fd_data (sample_fd (sample_data Tty)) = records [lock_record, sample_key]" "fd_off (sample_fd (sample_data Tty)) = 0"
      by (simp_all add: sample_fd_def sample_records(1))
    show "timestamp_remove sample_io sample_starttime (sample_ts_defs Tty) sample_ts_ctx (sample_fd (sample_data Tty)) = Some (x, fd1)"
      using r(1) by (simp add: sample_remove_def)
    show "def_timestamp_type (sample_ts_defs Tty) \<noteq> Kernel" by (simp add: sample_ts_defs_def)
    show "fd_data (sample_fd (sample_removed Tty)) = fd_data fd1" using r(1) by (simp add: sample_fd_def sample_removed_def)
    show "timestamp_lock sample_io sample_starttime (sample_ts_defs Tty) sample_ts_ctx sample_user
      (\<lparr>ck_pos = None, ck_locked = False, ck_key = entry0\<rparr>, sample_fd (sample_removed Tty)) = (True, c, fd3)"
      by (simp add: sample_lock_eq l)
  qed (fact r(2))
  then show "sample_status Tty 1200 (snd (sample_lock Tty (sample_removed Tty))) \<noteq> TS_CURRENT"
    by (simp add: sample_status_def l)
qed

text \<open>With the type \<open>kernel\<close> the ticket is current before and after.\<close>

lemma sample_kernel_lock: "fst (sample_lock Kernel (sample_data Kernel))"
  by code_simp

lemma sample_kernel_current: "sample_status Kernel 1200 (snd (sample_lock Kernel (sample_data Kernel))) = TS_CURRENT"
  by code_simp

lemma sample_kernel_remove:
  "case sample_remove Kernel (sample_data Kernel) of Some (x, fd1) \<Rightarrow> x = Removed | None \<Rightarrow> False"
  by code_simp

lemma sample_kernel_records: "sample_data Kernel = records [lock_record, ck_key (fst (sample_cookie Kernel))]"
  by code_simp

lemma sample_kernel_ok: "ts_ok [lock_record, ck_key (fst (sample_cookie Kernel))]"
  by code_simp

lemma sample_kernel_data: "fd_data (snd (snd (sample_lock Kernel (sample_data Kernel)))) = sample_data Kernel"
  by code_simp

theorem kernel_ticket_survives_removal_witness:
  "sample_status Kernel 1200 (case snd (sample_lock Kernel (sample_data Kernel)) of (c, fd) \<Rightarrow> (c, fd\<lparr>fd_data := sample_removed Kernel\<rparr>))
     = TS_CURRENT"
proof -
  obtain c fd where l: "sample_lock Kernel (sample_data Kernel) = (True, c, fd)"
    using sample_kernel_lock by (cases "sample_lock Kernel (sample_data Kernel)") auto
  obtain fdr' where r: "sample_remove Kernel (sample_data Kernel) = Some (Removed, fdr')"
    using sample_kernel_remove by (auto split: option.splits prod.splits)
  have "fst (timestamp_status sample_io (sample_ts_defs Kernel) sample_ts_ctx (Some (at_second 1200)) (Some (c, fd\<lparr>fd_data := fd_data fdr'\<rparr>)))
      = fst (timestamp_status sample_io (sample_ts_defs Kernel) sample_ts_ctx (Some (at_second 1200)) (Some (c, fd)))"
  proof (rule kernel_ticket_survives_removal [OF sample_io_ok disjI2 [OF sample_kernel_ok]])
    show "fd_data (sample_fd (sample_data Kernel)) = records [lock_record, ck_key (fst (sample_cookie Kernel))]"
      unfolding sample_kernel_records [symmetric] by (simp add: sample_fd_def)
    show "def_timestamp_type (sample_ts_defs Kernel) = Kernel" by (simp add: sample_ts_defs_def)
    show "tc_ttydev sample_ts_ctx \<noteq> NODEV" by (simp add: sample_ts_ctx_def NODEV_def)
    show "timestamp_lock sample_io sample_starttime (sample_ts_defs Kernel) sample_ts_ctx sample_user
      (\<lparr>ck_pos = None, ck_locked = False, ck_key = entry0\<rparr>, sample_fd (sample_data Kernel)) = (True, c, fd)"
      by (simp add: sample_lock_eq l)
    show "fd_data (sample_fd (sample_data Kernel)) = fd_data fd" "fd_off (sample_fd (sample_data Kernel)) = 0"
      using sample_kernel_data by (simp_all add: sample_fd_def l)
    show "timestamp_remove sample_io sample_starttime (sample_ts_defs Kernel) sample_ts_ctx (sample_fd (sample_data Kernel)) = Some (Removed, fdr')"
      using r by (simp add: sample_remove_def)
  qed simp
  then show ?thesis using sample_kernel_current by (simp add: sample_status_def sample_removed_def r l)
qed

theorem timestamp_remove_hangs_witness:
  "timestamp_remove (sample_io\<lparr>io_write := \<lambda>_. None\<rparr>) sample_starttime (sample_ts_defs Tty) sample_ts_ctx (sample_fd (sample_data Tty)) = None"
proof (rule timestamp_remove_hangs)
  show "before [] [lock_record, sample_key] (sample_fd (sample_data Tty))"
    using sample_records by (simp add: before_def sample_fd_def ts_ok_def)
  show "\<not> flag_set TS_DISABLED sample_key"
    "ts_match_record (ts_init_key sample_starttime sample_ts_ctx None 0 (def_timestamp_type (sample_ts_defs Tty))) sample_key"
    by code_simp+
qed (simp_all add: sample_io_def)

theorem corrupt_file_never_recovers_witness:
  "corrupt (fd_data (snd (snd (sample_lock Tty (replicate 56 0)))))"
proof -
  have bad: "corrupt (replicate 56 0)" "fst (sample_lock Tty (replicate 56 0))" by code_simp+
  then obtain c fd where l: "sample_lock Tty (replicate 56 0) = (True, c, fd)"
    by (cases "sample_lock Tty (replicate 56 0)") auto
  have "corrupt (fd_data fd)"
    using corrupt_file_never_recovers [of sample_io "sample_fd (replicate 56 0)"] bad(1) sample_io_ok
      sample_lock_eq [of Tty "replicate 56 0"] l by (auto simp: sample_fd_def)
  then show ?thesis by (simp add: l)
qed

end
