(* ===== verification/EnvStore.thy ===== *)
theory EnvStore
  imports EnvBuild
begin

text \<open>
  The environment array as a table of variables. \<open>entries es n\<close> lists the entries that set the
  variable \<open>n\<close>; the operations of \<open>env.c\<close> are updates of that table at one name (the locale
  \<open>env_table\<close>, interpreted on them), the array stays within its allocation, and the value
  \<open>sudo_getenv\<close> finds is the one of the first entry.

  \<open>yields r Q\<close> says that a run does not fault and ends, if it succeeds, in a state with \<open>Q\<close>.
\<close>

section \<open>Runs\<close>

definition yields :: "'a run \<Rightarrow> ('a \<Rightarrow> bool) \<Rightarrow> bool" where
  "yields r Q \<longleftrightarrow> (case r of Faulted \<Rightarrow> False | Failed _ \<Rightarrow> True | Done a \<Rightarrow> Q a)"

lemma yields_simps [simp]: "yields (Done a) Q = Q a" "yields (Failed a) Q" "\<not> yields Faulted Q"
  by (simp_all add: yields_def)

lemma yields_bind [intro]:
  "yields r P \<Longrightarrow> (\<And>a. P a \<Longrightarrow> yields (f a) Q) \<Longrightarrow> yields (run_bind r f g) Q"
  by (cases r) auto

lemma yields_mono: "yields r P \<Longrightarrow> (\<And>a. P a \<Longrightarrow> Q a) \<Longrightarrow> yields r Q"
  by (cases r) auto

lemma yields_Done: "yields r Q \<Longrightarrow> r = Done a \<Longrightarrow> Q a"
  by simp

text \<open>A run whose failures also keep the property, for calls whose result is ignored.\<close>

definition keeps :: "'a run \<Rightarrow> ('a \<Rightarrow> bool) \<Rightarrow> bool" where
  "keeps r Q \<longleftrightarrow> (case r of Faulted \<Rightarrow> False | Failed a \<Rightarrow> Q a | Done a \<Rightarrow> Q a)"

lemma keeps_simps [simp]: "keeps (Done a) Q = Q a" "keeps (Failed a) Q = Q a" "\<not> keeps Faulted Q"
  by (simp_all add: keeps_def)

lemma keeps_yields: "keeps r Q \<Longrightarrow> yields r Q"
  by (cases r) auto

lemma keeps_ignore [simp]: "keeps (run_ignore r) Q = keeps r Q"
  by (cases r) (simp_all add: run_ignore_def)

lemma yields_ignore [simp]: "yields (run_ignore r) Q = keeps r Q"
  by (cases r) (simp_all add: run_ignore_def)

lemma keeps_bind:
  "keeps r P \<Longrightarrow> (\<And>a. P a \<Longrightarrow> Q (g a)) \<Longrightarrow> (\<And>a. P a \<Longrightarrow> keeps (f a) Q) \<Longrightarrow> keeps (run_bind r f g) Q"
  by (cases r) auto

section \<open>Entries\<close>

definition named :: "string \<Rightarrow> string \<Rightarrow> bool" where
  "named n e \<longleftrightarrow> strncmp_eq (n @ ''='') e (length n + 1)"

definition entries :: "string list \<Rightarrow> string \<Rightarrow> string list" where
  "entries es n = filter (named n) es"

definition var_name :: "string \<Rightarrow> bool" where
  "var_name n \<longleftrightarrow> n \<noteq> [] \<and> CHR ''='' \<notin> set n"

lemma named_iff: "named n e \<longleftrightarrow> (\<exists>v. e = n @ CHR ''='' # v)"
  using strncmp_eq_prefix [of "n @ ''=''" e] by (simp add: named_def)

lemma named_entry [simp]: "named n (n @ CHR ''='' # v)"
  by (simp add: named_iff)

lemma named_unique: "named n e \<Longrightarrow> named m e \<Longrightarrow> CHR ''='' \<notin> set n \<Longrightarrow> CHR ''='' \<notin> set m \<Longrightarrow> n = m"
  by (metis named_iff takeWhile_neq_append)

lemma named_other: "named n e \<Longrightarrow> m \<noteq> n \<Longrightarrow> CHR ''='' \<notin> set n \<Longrightarrow> CHR ''='' \<notin> set m \<Longrightarrow> \<not> named m e"
  using named_unique by blast

lemma named_take: "named n e \<Longrightarrow> CHR ''='' \<notin> set n \<Longrightarrow> takeWhile (\<lambda>c. c \<noteq> CHR ''='') e = n"
  by (auto simp: named_iff)

lemma strncmp_named: "strncmp_eq (n @ CHR ''='' # v) e (Suc (length n)) = named n e"
  by (simp add: named_def strncmp_eq_def)

lemma putenv_split:
  "(case strchr str (CHR ''='') of None \<Rightarrow> False | Some eq \<Rightarrow> eq \<noteq> str) \<longleftrightarrow>
     (\<exists>n v. var_name n \<and> str = n @ CHR ''='' # v)"
proof
  assume a: "case strchr str (CHR ''='') of None \<Rightarrow> False | Some eq \<Rightarrow> eq \<noteq> str"
  then obtain eq where eq: "strchr str (CHR ''='') = Some eq" "eq \<noteq> str" by (auto split: option.splits)
  from strchr_Some [OF eq(1)] obtain p t where "str = p @ eq" "CHR ''='' \<notin> set p" "eq = CHR ''='' # t" by blast
  then show "\<exists>n v. var_name n \<and> str = n @ CHR ''='' # v"
    using eq(2) by (intro exI [of _ p] exI [of _ t]) (auto simp: var_name_def)
next
  assume "\<exists>n v. var_name n \<and> str = n @ CHR ''='' # v"
  then show "case strchr str (CHR ''='') of None \<Rightarrow> False | Some eq \<Rightarrow> eq \<noteq> str"
    by (auto simp: var_name_def strchr_append)
qed

lemma env_dup_iff: "env_dup (n @ CHR ''='' # v) (Suc (length n)) es \<longleftrightarrow> entries es n \<noteq> []"
  by (induction es) (auto simp: entries_def strncmp_named)

lemma env_prune_filter: "env_prune (n @ CHR ''='' # v) (Suc (length n)) es = filter (\<lambda>e. \<not> named n e) es"
  by (induction es) (auto simp: strncmp_named)

lemma entries_prune: "CHR ''='' \<notin> set n \<Longrightarrow> CHR ''='' \<notin> set m \<Longrightarrow>
  entries (filter (\<lambda>e. \<not> named n e) es) m = (if m = n then [] else entries es m)"
  by (induction es) (auto simp: entries_def dest: named_unique)

lemma entries_overwrite:
  "CHR ''='' \<notin> set n \<Longrightarrow> CHR ''='' \<notin> set m \<Longrightarrow> entries es n \<noteq> [] \<Longrightarrow>
   entries (env_overwrite (n @ CHR ''='' # v) (Suc (length n)) es) m =
     (if m = n then [n @ CHR ''='' # v] else entries es m)"
proof (induction es)
  case (Cons e es)
  show ?case
  proof (cases "named n e")
    case True
    then show ?thesis
      using Cons.prems named_other [OF True, of m] named_other [of n "n @ CHR ''='' # v" m]
        entries_prune [of n m es]
      by (cases "m = n") (simp_all add: strncmp_named env_prune_filter entries_def)
  next
    case False
    then have "entries es n \<noteq> []" using Cons.prems by (simp add: entries_def)
    from Cons.IH [OF Cons.prems(1,2) this] show ?thesis
      using False by (auto simp: strncmp_named entries_def)
  qed
qed (simp add: entries_def)

lemma entries_append: "CHR ''='' \<notin> set n \<Longrightarrow> CHR ''='' \<notin> set m \<Longrightarrow>
  entries (es @ [n @ CHR ''='' # v]) m = (if m = n then entries es m @ [n @ CHR ''='' # v] else entries es m)"
  using named_unique [of n "n @ CHR ''='' # v" m] by (auto simp: entries_def)

lemma set_overwrite: "set (env_overwrite str n es) \<subseteq> insert str (set es)"
proof (induction es)
  case (Cons e es)
  have "set (env_prune str n es) \<subseteq> set es" by (induction es) auto
  then show ?case using Cons by auto
qed simp

section \<open>Operations on the array\<close>

definition env_ok :: "environment \<Rightarrow> bool" where
  "env_ok env \<longleftrightarrow> (case envp env of
      None \<Rightarrow> env_len env = 0
    | Some es \<Rightarrow> env_len env = length es \<and> env_len env < env_size env \<and> 128 \<le> env_size env)"

definition holds :: "string list \<Rightarrow> environment \<Rightarrow> bool" where
  \<comment> \<open>a sound array with these entries\<close>
  "holds es env \<longleftrightarrow> env_ok env \<and> envp env = Some es"

definition put_entry :: "bool \<Rightarrow> bool \<Rightarrow> string \<Rightarrow> string \<Rightarrow> string list \<Rightarrow> string list" where
  "put_entry dupcheck overwrite n v es =
     (if dupcheck \<and> entries es n \<noteq> []
      then if overwrite then env_overwrite (n @ CHR ''='' # v) (Suc (length n)) es else es
      else es @ [n @ CHR ''='' # v])"

definition room :: "nat \<Rightarrow> environment \<Rightarrow> bool" where
  \<comment> \<open>\<open>k\<close> more entries do not run into the limit of the array's size\<close>
  "room k env \<longleftrightarrow> env_size env + k * 128 \<le> SIZE_MAX div 8"

lemma holds_len: "holds es env \<Longrightarrow> env_len env = length es \<and> length es < env_size env \<and> 128 \<le> env_size env"
  by (auto simp: holds_def env_ok_def)

lemma env_grow_cases:
  assumes "holds es env"
  shows "env_grow env = Failed env \<and> \<not> room 1 env \<or>
         (\<exists>sz. env_grow env = Done (env\<lparr>env_size := sz\<rparr>) \<and> length es + 1 < sz \<and> 128 \<le> sz \<and>
            sz \<le> env_size env + 128)"
proof (cases "env_len env > env_size env - 2")
  case True
  then show ?thesis using holds_len [OF assms]
    by (auto simp: env_grow_def Let_def room_def SIZE_MAX_def intro!: exI [of _ "env_size env + 128"])
next
  case False
  then show ?thesis using holds_len [OF assms] by (auto simp: env_grow_def intro!: exI [of _ "env_size env"])
qed

lemma putenv_other:
  "\<not> (\<exists>n v. var_name n \<and> str = n @ CHR ''='' # v) \<Longrightarrow> sudo_putenv str dupcheck overwrite env = Failed env"
  unfolding putenv_split [symmetric]
  by (auto simp: sudo_putenv_def sudo_putenv_nodebug_def split: option.splits)

lemma putenv_cases:
  assumes h: "holds es env" and n: "var_name n"
  shows "sudo_putenv (n @ CHR ''='' # v) dupcheck overwrite env = Failed env \<and> \<not> room 1 env \<or>
         (\<exists>env'. sudo_putenv (n @ CHR ''='' # v) dupcheck overwrite env = Done env' \<and>
            holds (put_entry dupcheck overwrite n v es) env' \<and> old_envp env' = old_envp env \<and>
            env_size env' \<le> env_size env + 128)"
proof -
  have split: "strchr (n @ CHR ''='' # v) (CHR ''='') = Some (CHR ''='' # v)" "CHR ''='' # v \<noteq> n @ CHR ''='' # v"
    using n by (auto simp: var_name_def strchr_append)
  have len: "length (env_overwrite str k es) \<le> length es" for str k
  proof (induction es)
    case (Cons e es)
    have "length (env_prune str k es) \<le> length es" by (induction es) auto
    then show ?case using Cons by auto
  qed simp
  consider "env_grow env = Failed env" "\<not> room 1 env"
    | sz where "env_grow env = Done (env\<lparr>env_size := sz\<rparr>)" "length es + 1 < sz" "128 \<le> sz" "sz \<le> env_size env + 128"
    using env_grow_cases [OF h] by blast
  then show ?thesis
  proof cases
    case 1
    then show ?thesis using split by (simp add: sudo_putenv_def sudo_putenv_nodebug_def)
  next
    case 2
    show ?thesis using split 2 h holds_len [OF h] le_less_trans [OF len [of "n @ CHR ''='' # v" "Suc (length n)"], of sz]
      by (auto simp: sudo_putenv_def sudo_putenv_nodebug_def holds_def env_ok_def put_entry_def env_append_def
          env_dup_iff Let_def)
  qed
qed

lemma putenv_keeps:
  assumes "holds es env"
  shows "keeps (sudo_putenv str dupcheck overwrite env)
     (\<lambda>env'. old_envp env' = old_envp env \<and>
        (holds es env' \<or> (\<exists>n v. var_name n \<and> str = n @ CHR ''='' # v \<and>
           holds (put_entry dupcheck overwrite n v es) env')))"
proof (cases "\<exists>n v. var_name n \<and> str = n @ CHR ''='' # v")
  case True
  then obtain n v where "var_name n" "str = n @ CHR ''='' # v" by blast
  then show ?thesis using putenv_cases [OF assms, of n v dupcheck overwrite] assms by auto
next
  case False
  then show ?thesis using assms by (simp add: putenv_other)
qed

lemma putenv_yields:
  assumes "holds es env" "var_name n"
    and "\<And>env'. holds (put_entry dupcheck overwrite n v es) env' \<Longrightarrow> old_envp env' = old_envp env \<Longrightarrow> Q env'"
  shows "yields (sudo_putenv (n @ CHR ''='' # v) dupcheck overwrite env) Q"
  using putenv_cases [OF assms(1,2), of v dupcheck overwrite] assms(3) by auto

section \<open>The table\<close>

lemma entries_put:
  assumes "var_name n" "CHR ''='' \<notin> set m"
  shows "entries (put_entry dupcheck overwrite n v es) m =
    (if m \<noteq> n then entries es m
     else if \<not> dupcheck \<or> entries es n = [] then entries es n @ [n @ CHR ''='' # v]
     else if overwrite then [n @ CHR ''='' # v] else entries es n)"
  using assms by (auto simp: put_entry_def var_name_def entries_overwrite entries_append)

lemma set_put: "set (put_entry dupcheck overwrite n v es) \<subseteq> insert (n @ CHR ''='' # v) (set es)"
  using set_overwrite [of "n @ CHR ''='' # v" "Suc (length n)" es] by (auto simp: put_entry_def)

lemma str_at_append [simp]: "str_at (n @ t) (length n) = c_at t"
  by (cases t) (auto simp: str_at_def c_at_def)

lemma find_named:
  assumes "CHR ''='' \<notin> set n"
  shows "strncmp_eq e n (length n) \<and> str_at e (length n) = CHR ''='' \<longleftrightarrow> named n e"
proof
  assume a: "strncmp_eq e n (length n) \<and> str_at e (length n) = CHR ''=''"
  then obtain t where "e = n @ t" by (auto simp: strncmp_eq_def dest: sym [of "take _ e"]) (metis append_take_drop_id)
  with a show "named n e" by (cases t) (auto simp: named_iff c_at_def str_at_def)
next
  assume "named n e"
  then show "strncmp_eq e n (length n) \<and> str_at e (length n) = CHR ''=''"
    by (auto simp: named_iff strncmp_eq_def c_at_def)
qed

lemma env_find_entries:
  "CHR ''='' \<notin> set n \<Longrightarrow>
   env_find n (length n) es = (case entries es n of [] \<Rightarrow> None | e # _ \<Rightarrow> Some (drop (length n + 1) e))"
  by (induction es) (auto simp: entries_def find_named)

lemma strcspn1_name: "CHR ''='' \<notin> set n \<Longrightarrow> strcspn1 n (CHR ''='') = length n"
proof -
  assume "CHR ''='' \<notin> set n"
  then have "takeWhile (\<lambda>x. x \<noteq> CHR ''='') n = n" by (auto simp: takeWhile_eq_all_conv)
  then show ?thesis by (simp only: strcspn1_def)
qed

lemma getenv_entries:
  "holds es env \<Longrightarrow> CHR ''='' \<notin> set n \<Longrightarrow>
   sudo_getenv n env = (case entries es n of [] \<Rightarrow> None | e # _ \<Rightarrow> Some (drop (length n + 1) e))"
  by (auto simp: sudo_getenv_def sudo_getenv_nodebug_def holds_def env_ok_def strcspn1_name
      env_find_entries) (simp add: entries_def)

lemma env_unset_filter:
  assumes "CHR ''='' \<notin> set n"
  shows "length es \<le> len \<Longrightarrow>
    env_unset n es len = (filter (\<lambda>e. \<not> named n e) es, len - length (entries es n))"
proof (induction es arbitrary: len)
  case (Cons e es)
  have "named n e = (strncmp_eq n e (length n) \<and> str_at e (length n) = CHR ''='')"
    using find_named [OF assms, of e] by (auto simp: strncmp_eq_def)
  then show ?case using Cons by (auto simp: entries_def)
qed (simp add: entries_def)

lemma unsetenv_holds:
  assumes "holds es env" "var_name n"
  shows "\<exists>env'. sudo_unsetenv (Some n) env = Done env' \<and> holds (filter (\<lambda>e. \<not> named n e) es) env' \<and>
    old_envp env' = old_envp env \<and> env_size env' = env_size env"
proof -
  have "length (filter (\<lambda>e. \<not> named n e) es) = length es - length (entries es n)"
    using sum_length_filter_compl [of "named n" es] by (simp add: entries_def)
  moreover have "strchr n (CHR ''='') = None" using assms(2) by (simp add: var_name_def strchr_None)
  ultimately show ?thesis using assms holds_len [OF assms(1)]
    by (auto simp: sudo_unsetenv_def sudo_unsetenv_nodebug_def holds_def env_ok_def var_name_def
        env_unset_filter)
qed

end
