(* ===== verification/EnvProps.thy ===== *)
theory EnvProps
  imports EnvStore
begin

text \<open>
  What the environment of the command contains. \<open>sat Q\<close> lifts a property of the entries,
  \<open>didvar\<close> and \<open>ps1\<close> to the state of \<open>rebuild_env\<close>; the rules of the first section push such a
  property backwards through its statements.
\<close>

section \<open>Rules for the statements of \<open>rebuild_env\<close>\<close>

definition sat :: "string list option \<Rightarrow> (string list \<Rightarrow> 32 word \<Rightarrow> string option \<Rightarrow> bool) \<Rightarrow> rebuild_state \<Rightarrow> bool" where
  \<comment> \<open>with the old environment, which never changes\<close>
  "sat old Q s \<longleftrightarrow> (case s of (env, did, ps1) \<Rightarrow> \<exists>es. holds es env \<and> old_envp env = old \<and> Q es did ps1)"

named_theorems wp "rules that push a property back through a statement"

lemma sat_mono: "sat old P s \<Longrightarrow> (\<And>es did ps1. P es did ps1 \<Longrightarrow> Q es did ps1) \<Longrightarrow> sat old Q s"
  by (auto simp: sat_def)

lemma wp_putenv [wp]:
  assumes "var_name n" "sat old (\<lambda>es. Q (put_entry d ov n v es)) s"
  shows "yields (check_putenv (n @ CHR ''='' # v) d ov s) (sat old Q)"
proof -
  obtain env did ps1 where s: "s = (env, did, ps1)" by (metis prod_cases3)
  from assms(2) obtain es where es: "holds es env" "old_envp env = old" "Q (put_entry d ov n v es) did ps1"
    by (auto simp: sat_def s)
  have "yields (sudo_putenv (n @ CHR ''='' # v) d ov env)
      (\<lambda>env'. holds (put_entry d ov n v es) env' \<and> old_envp env' = old)"
    using es(2) by (intro putenv_yields [OF es(1) assms(1)]) simp
  then show ?thesis unfolding check_putenv_def on_env_def s prod.case
    by (rule yields_bind) (use es(3) in \<open>auto simp: sat_def\<close>)
qed

lemma wp_setenv2 [wp]:
  "var_name n \<Longrightarrow> sat old (\<lambda>es. Q (put_entry d ov n v es)) s \<Longrightarrow>
   yields (check_setenv2 n v d ov s) (sat old Q)"
  using wp_putenv [of n old Q d ov v s] by (simp add: check_setenv2_def check_putenv_def sudo_setenv2_def on_env_def)

lemma wp_steps_Nil [wp]: "sat old Q s \<Longrightarrow> yields (run_steps [] s) (sat old Q)"
  by simp

lemma wp_steps_Cons [wp]:
  "yields (f s) (sat old P) \<Longrightarrow> (\<And>s. sat old P s \<Longrightarrow> yields (run_steps fs s) (sat old Q)) \<Longrightarrow>
   yields (run_steps (f # fs) s) (sat old Q)"
  by (auto intro: yields_bind)

lemma wp_if [wp]:
  "(b \<Longrightarrow> yields (f s) (sat old Q)) \<Longrightarrow> (\<not> b \<Longrightarrow> sat old Q s) \<Longrightarrow> yields (only_if b f s) (sat old Q)"
  by simp

lemma wp_set_did [wp]: "sat old (\<lambda>es did. Q es (SET did f)) s \<Longrightarrow> yields (set_did f s) (sat old Q)"
  by (auto simp: sat_def set_did_def)

lemma wp_kept_bits [wp]:
  "sat old (\<lambda>es did. Q es (or did (push_bit 16 did))) s \<Longrightarrow> yields (kept_bits s) (sat old Q)"
  by (auto simp: sat_def kept_bits_def)

section \<open>Variables of the system\<close>

function stream_vars :: "stream \<Rightarrow> string list" where
  \<comment> \<open>the variables of an environment file\<close>
  "stream_vars fp =
     (case env_file_next fp of
        (Some v, _, fp') \<Rightarrow> v # stream_vars fp'
      | (None, _, _) \<Rightarrow> [])"
  by pat_completeness auto

termination stream_vars
  by (relation "measure (\<lambda>fp. length (rest fp))") (auto dest: env_file_next_shorter [OF sym])

declare stream_vars.simps [simp del]

definition env_file_vars :: "env_system \<Rightarrow> string \<Rightarrow> string list" where
  "env_file_vars es p = (case env_fopen es p of Some (Env_file fp) \<Rightarrow> stream_vars fp | _ \<Rightarrow> [])"

definition class_vars :: "env_system \<Rightarrow> env_context \<Rightarrow> string list" where
  "class_vars es ctx =
     (case runas_class ctx of None \<Rightarrow> []
      | Some c \<Rightarrow> map (\<lambda>(n, v, _). takeWhile (\<lambda>c. c \<noteq> CHR ''='') n @ CHR ''='' # v)
                    (class_setenv es c (runas_pw (env_sudo ctx))))"

definition system_vars :: "env_system \<Rightarrow> env_context \<Rightarrow> string list" where
  "system_vars es ctx =
     class_vars es ctx @ (case path_environment es of None \<Rightarrow> [] | Some p \<Rightarrow> env_file_vars es p)"

text \<open>
  An invariant of the entries that survives every insertion of one of the strings \<open>xs\<close>, whether
  or not it overwrites, survives the loops that insert them.
\<close>

definition absorbs :: "string list \<Rightarrow> (string list \<Rightarrow> bool) \<Rightarrow> bool \<Rightarrow> bool" where
  "absorbs xs I overwrite \<longleftrightarrow>
     (\<forall>n v es. var_name n \<and> n @ CHR ''='' # v \<in> set xs \<and> I es \<longrightarrow> I (put_entry True overwrite n v es))"

definition holding :: "string list option \<Rightarrow> (string list \<Rightarrow> bool) \<Rightarrow> environment \<Rightarrow> bool" where
  "holding old I env \<longleftrightarrow> (\<exists>es. holds es env \<and> old_envp env = old \<and> I es)"

lemma putenv_holding:
  assumes "holding old I env" "absorbs xs I ov" "str \<in> set xs"
  shows "keeps (sudo_putenv str True ov env) (holding old I)"
proof -
  obtain es where es: "holds es env" "old_envp env = old" "I es" using assms(1) by (auto simp: holding_def)
  from putenv_keeps [OF es(1), of str True ov] show ?thesis
    using es assms(2,3) by (cases "sudo_putenv str True ov env") (auto simp: holding_def absorbs_def)
qed

lemma absorbs_mono: "absorbs xs I ov \<Longrightarrow> set ys \<subseteq> set xs \<Longrightarrow> absorbs ys I ov"
  by (auto simp: absorbs_def)

lemma insert_env_loop_holding:
  "holding old I env \<Longrightarrow> absorbs xs I True \<Longrightarrow> keeps (insert_env_loop xs env) (holding old I)"
proof (induction xs arbitrary: env)
  case (Cons x xs)
  have "absorbs xs I True" using Cons.prems(2) by (rule absorbs_mono) auto
  then show ?case using Cons
    by (auto intro!: keeps_bind [OF putenv_holding [OF Cons.prems(1,2)]])
qed simp

lemma read_env_loop_holding:
  "holding old I env \<Longrightarrow> absorbs (case cookie of ENOENT_file \<Rightarrow> [] | Env_file fp \<Rightarrow> stream_vars fp) I ov \<Longrightarrow>
   keeps (read_env_loop es df mode ov re cookie env) (holding old I)"
proof (induction es df mode ov re cookie env rule: read_env_loop.induct)
  case (1 es df mode ov re cookie env)
  obtain v err c where n: "env_file_next_local cookie = (v, err, c)" by (metis prod_cases3)
  show ?case
  proof (cases v)
    case None
    then show ?thesis using 1(3) n by (simp add: read_env_loop.simps [of _ _ _ _ _ cookie])
  next
    case (Some x)
    obtain fp fp' where c: "cookie = Env_file fp" "c = Env_file fp'" "env_file_next fp = (Some x, err, fp')"
      using n Some by (auto simp: env_file_next_local_def split: env_file.splits prod.splits)
    have vars: "stream_vars fp = x # stream_vars fp'" using c(3) by (subst stream_vars.simps) simp
    have rest: "absorbs (case c of ENOENT_file \<Rightarrow> [] | Env_file fp \<Rightarrow> stream_vars fp) I ov"
      using 1(4) by (rule absorbs_mono) (auto simp: c vars)
    have put: "keeps (sudo_putenv x True ov env) (holding old I)"
      using 1(3,4) by (rule putenv_holding) (simp add: c vars)
    show ?thesis
    proof (cases "re \<and> (if def_env_reset df then \<not> env_should_keep es df mode x else env_should_delete es df x)")
      case True
      from 1(1) [OF n [symmetric] Some refl True 1(3) rest] show ?thesis
        using True n Some by (simp add: read_env_loop.simps [of _ _ _ _ _ cookie])
    next
      case False
      have "keeps (run_bind (sudo_putenv x True ov env) (read_env_loop es df mode ov re c) id) (holding old I)"
        using put by (rule keeps_bind) (simp, rule 1(2) [OF n [symmetric] Some refl False _ rest])
      then show ?thesis
        unfolding read_env_loop.simps [of es df mode ov re cookie env] n Some prod.case option.case if_not_P [OF False] .
    qed
  qed
qed

lemma read_env_file_holding:
  "holding old I env \<Longrightarrow> absorbs (env_file_vars es p) I ov \<Longrightarrow>
   keeps (read_env_file es df mode p ov re env) (holding old I)"
  by (auto simp: read_env_file_def env_file_vars_def split: option.splits env_file.splits
      intro!: read_env_loop_holding)

lemma setenv_nodebug_holding:
  assumes "holding old I env" "absorbs xs I ov"
    "takeWhile (\<lambda>c. c \<noteq> CHR ''='') n @ CHR ''='' # v \<in> set xs"
  shows "keeps (sudo_setenv_nodebug (Some n) (Some v) ov env) (holding old I)"
  using putenv_holding [OF assms] assms(1)
  by (simp add: sudo_setenv_nodebug_def sudo_putenv_def)

lemma hook_setenv_holding:
  assumes "holding old I env" "absorbs xs I ov"
    "takeWhile (\<lambda>c. c \<noteq> CHR ''='') n @ CHR ''='' # v \<in> set xs"
  shows "keeps (sudoers_hook_setenv False (Some n) (Some v) ov env) (\<lambda>(r, env). holding old I env)"
  using setenv_nodebug_holding [OF assms] assms(1)
  by (auto simp: sudoers_hook_setenv_def hook_run_def intro!: keeps_bind)

lemma class_env_holding:
  "holding old I env \<Longrightarrow>
   (\<And>ov. absorbs (map (\<lambda>(n, v, _). takeWhile (\<lambda>c. c \<noteq> CHR ''='') n @ CHR ''='' # v) vs) I ov) \<Longrightarrow>
   keeps (class_env vs env) (holding old I)"
proof (induction vs arbitrary: env)
  case (Cons x vs)
  obtain n v ov where x: "x = (n, v, ov)" by (metis prod_cases3)
  have rest: "absorbs (map (\<lambda>(n, v, _). takeWhile (\<lambda>c. c \<noteq> CHR ''='') n @ CHR ''='' # v) vs) I ov" for ov
    using Cons.prems(2) by (rule absorbs_mono) (simp only: list.map list.set subset_insertI)
  have "keeps (sudoers_hook_setenv False (Some n) (Some v) ov env) (\<lambda>(r, env). holding old I env)"
    by (rule hook_setenv_holding [OF Cons.prems]) (simp add: x)
  then show ?case unfolding x class_env.simps
    by (rule keeps_bind) (auto intro!: Cons.IH rest)
qed simp

lemma login_class_env_holding:
  "holding old I env \<Longrightarrow> (\<And>ov. absorbs (class_vars es ctx) I ov) \<Longrightarrow>
   keeps (login_class_env es ctx env) (holding old I)"
  by (auto simp: login_class_env_def class_vars_def split: option.splits intro!: class_env_holding)

lemma system_env_file_holding:
  assumes "holding old I env" "\<And>ov. absorbs (system_vars es ctx) I ov"
  shows "keeps (system_env_file es df ctx env) (holding old I)"
proof (cases "path_environment es")
  case (Some p)
  have "absorbs (env_file_vars es p) I True"
    using assms(2) by (rule absorbs_mono) (auto simp: system_vars_def Some)
  then show ?thesis using read_env_file_holding [OF assms(1)] by (simp add: system_env_file_def Some)
qed (use assms(1) in \<open>simp add: system_env_file_def\<close>)

lemma rebuild_fresh_holding:
  assumes h: "holding old I env"
    and a: "\<And>ov. \<not> ISSET (env_mode ctx) MODE_LOGIN_SHELL \<Longrightarrow> absorbs (system_vars es ctx) I ov"
  shows "yields (rebuild_fresh es df ctx env) (sat old (\<lambda>e did ps1. I e \<and> ps1 = None \<and>
     did = (if ISSET (env_mode ctx) MODE_LOGIN_SHELL then 0 else fold env_update_didvar e 0)))"
proof (cases "ISSET (env_mode ctx) MODE_LOGIN_SHELL")
  case False
  have "absorbs (class_vars es ctx) I ov" for ov
    using a [OF False] by (rule absorbs_mono) (simp add: system_vars_def)
  from login_class_env_holding [OF h this]
  have k: "keeps (run_bind (login_class_env es ctx env) (system_env_file es df ctx) id) (holding old I)"
    by (rule keeps_bind) (auto intro!: system_env_file_holding a [OF False])
  show ?thesis unfolding rebuild_fresh_def if_not_P [OF False]
    by (rule yields_bind [OF keeps_yields [OF k]]) (use False in \<open>auto simp: sat_def holding_def holds_def\<close>)
qed (use h in \<open>auto simp: rebuild_fresh_def sat_def holding_def\<close>)

section \<open>The loops over the old environment\<close>

lemma sat_conj: "sat old P s \<Longrightarrow> sat old Q s \<Longrightarrow> sat old (\<lambda>es did ps1. P es did ps1 \<and> Q es did ps1) s"
  by (auto simp: sat_def holds_def)

lemma yields_sat_conj:
  "yields r (sat old P) \<Longrightarrow> yields r (sat old Q) \<Longrightarrow> yields r (sat old (\<lambda>es did ps1. P es did ps1 \<and> Q es did ps1))"
  by (cases r) (auto intro: sat_conj)

lemma satI: "holds e env \<Longrightarrow> old_envp env = old \<Longrightarrow> Q e did ps1 \<Longrightarrow> sat old Q (env, did, ps1)"
  by (auto simp: sat_def)

lemma loop_put:
  assumes e: "holds e env" "old_envp env = old"
    and put: "\<And>n v. var_name n \<Longrightarrow> x = n @ CHR ''='' # v \<Longrightarrow> Q (put_entry True False n v e) did ps1"
    and k: "\<And>t. sat old Q t \<Longrightarrow> yields (k t) (sat old Q)"
  shows "yields (run_bind (sudo_putenv x True False env) (\<lambda>env. k (env, did, ps1)) g) (sat old Q)"
proof (cases "\<exists>n v. var_name n \<and> x = n @ CHR ''='' # v")
  case True
  then obtain n v where n: "var_name n" "x = n @ CHR ''='' # v" by blast
  have "yields (sudo_putenv x True False env) (\<lambda>env'. holds (put_entry True False n v e) env' \<and> old_envp env' = old)"
    unfolding n(2) by (rule putenv_yields [OF e(1) n(1)]) (simp add: e(2))
  then show ?thesis by (rule yields_bind) (auto intro!: k satI put n)
qed (simp add: putenv_other)

lemma rebuild_keep_sat:
  assumes put: "\<And>e d p n v. Q e d p \<Longrightarrow> var_name n \<Longrightarrow> n @ CHR ''='' # v \<in> set eps \<Longrightarrow>
      env_should_keep es df mode (n @ CHR ''='' # v) \<Longrightarrow>
      Q (put_entry True False n v e) (env_update_didvar (n @ CHR ''='' # v) d) p"
    and ps: "\<And>e d p q. Q e d p \<Longrightarrow> q \<in> set eps \<Longrightarrow> strncmp_eq q ''SUDO_PS1='' 9 \<Longrightarrow> Q e d (Some (drop 5 q))"
  shows "sat old Q s \<Longrightarrow> yields (rebuild_keep es df mode eps s) (sat old Q)"
  using put ps
proof (induction eps arbitrary: s)
  case (Cons x eps)
  obtain env did ps1 where s: "s = (env, did, ps1)" by (metis prod_cases3)
  define ps2 where "ps2 = (if strncmp_eq x ''SUDO_PS1='' 9 then Some (drop 5 x) else ps1)"
  obtain e where e: "holds e env" "old_envp env = old" "Q e did ps2"
    using Cons.prems(1) Cons.prems(3) [of _ _ _ x] by (auto simp: sat_def s ps2_def)
  have IH: "sat old Q t \<Longrightarrow> yields (rebuild_keep es df mode eps t) (sat old Q)" for t
    by (rule Cons.IH) (auto intro: Cons.prems(2,3))
  show ?case
  proof (cases "env_should_keep es df mode x")
    case False
    have "sat old Q (env, did, ps2)" using e by (rule satI)
    with False show ?thesis by (auto simp: s ps2_def [symmetric] intro!: IH)
  next
    case True
    have "yields (run_bind (sudo_putenv x True False env)
        (\<lambda>env. rebuild_keep es df mode eps (env, env_update_didvar x did, ps2)) (\<lambda>env. (env, did, ps2))) (sat old Q)"
      by (rule loop_put [OF e(1,2) _ IH]) (use Cons.prems(2) [OF e(3)] True in auto)
    then show ?thesis using True by (simp add: s ps2_def [symmetric])
  qed
qed simp

definition copy_didvar :: "string \<Rightarrow> 32 word \<Rightarrow> 32 word" where
  "copy_didvar ep d =
     (if strncmp_eq ep ''SUDO_PS1='' 9 then d
      else if strncmp_eq ep ''SHELL='' 6 then SET d DID_SHELL
      else if strncmp_eq ep ''PATH='' 5 then SET d DID_PATH
      else if strncmp_eq ep ''TERM='' 5 then SET d DID_TERM
      else d)"

lemma rebuild_copy_sat:
  assumes put: "\<And>e d p n v. Q e d p \<Longrightarrow> var_name n \<Longrightarrow> n @ CHR ''='' # v \<in> set eps \<Longrightarrow>
      \<not> env_should_delete es df (n @ CHR ''='' # v) \<Longrightarrow>
      Q (put_entry True False n v e) (copy_didvar (n @ CHR ''='' # v) d) p"
    and ps: "\<And>e d p q. Q e d p \<Longrightarrow> q \<in> set eps \<Longrightarrow> strncmp_eq q ''SUDO_PS1='' 9 \<Longrightarrow> Q e d (Some (drop 5 q))"
  shows "sat old Q s \<Longrightarrow> yields (rebuild_copy es df eps s) (sat old Q)"
  using put ps
proof (induction eps arbitrary: s)
  case (Cons x eps)
  obtain env did ps1 where s: "s = (env, did, ps1)" by (metis prod_cases3)
  have IH: "sat old Q t \<Longrightarrow> yields (rebuild_copy es df eps t) (sat old Q)" for t
    by (rule Cons.IH) (auto intro: Cons.prems(2,3))
  define ps2 where "ps2 = (if strncmp_eq x ''SUDO_PS1='' 9 then Some (drop 5 x) else ps1)"
  obtain e where e: "holds e env" "old_envp env = old" "Q e did ps2"
    using Cons.prems(1) Cons.prems(3) [of _ _ _ x] by (auto simp: sat_def s ps2_def)
  show ?case
  proof (cases "env_should_delete es df x")
    case True
    then show ?thesis using IH [OF Cons.prems(1)] by (simp add: s)
  next
    case False
    have "yields (run_bind (sudo_putenv x True False env)
        (\<lambda>env. rebuild_copy es df eps (env, copy_didvar x did, ps2)) (\<lambda>env. (env, copy_didvar x did, ps2))) (sat old Q)"
      by (rule loop_put [OF e(1,2) _ IH]) (use Cons.prems(2) [OF e(3)] False in auto)
    then show ?thesis unfolding s rebuild_copy.simps if_not_P [OF False] Let_def
        copy_didvar_def [symmetric] ps2_def [symmetric] .
  qed
qed simp

section \<open>The whole of \<open>rebuild_env\<close>\<close>

definition fresh_env :: "environment \<Rightarrow> environment" where
  "fresh_env env = env\<lparr>env_len := 0, env_size := 128, old_envp := envp env, envp := Some []\<rparr>"

lemma fresh_holds: "holds [] (fresh_env env)" "old_envp (fresh_env env) = envp env"
  by (simp_all add: fresh_env_def holds_def env_ok_def)

definition rebuild_rest :: "system \<Rightarrow> env_system \<Rightarrow> sudo_defs \<Rightarrow> env_defs \<Rightarrow> env_context \<Rightarrow> bool \<Rightarrow>
    (rebuild_state \<Rightarrow> rebuild_state run) list" where
  "rebuild_rest sys es sd df ctx home =
     [set_path sys sd ctx, set_logname df ctx,
      only_if home (check_setenv2 ''HOME'' (pw_dir (runas_pw (env_sudo ctx))) True True),
      set_defaults es ctx, set_ps1, set_sudo_vars ctx]"

lemma rebuild_env_sat:
  assumes "envp env = old" and "yields (rebuild_old es df ctx (fresh_env env)) (sat old P)"
    and "\<And>s home. sat old P s \<Longrightarrow> yields (run_steps (rebuild_rest sys es sd df ctx home) s) (sat old Q)"
  shows "yields (rebuild_env sys es sd df ctx env)
     (\<lambda>env'. \<exists>e did ps1. holds e env' \<and> old_envp env' = old \<and> Q e did ps1)"
  unfolding rebuild_env_def Let_def fresh_env_def [symmetric] rebuild_rest_def [symmetric]
  by (rule yields_bind, rule yields_bind [OF assms(2)], rule assms(3), assumption)
    (auto simp: sat_def, blast)

lemma rebuild_old_sat:
  assumes init: "I []"
    and absorb: "\<And>ov. \<not> ISSET (env_mode ctx) MODE_LOGIN_SHELL \<Longrightarrow> absorbs (system_vars es ctx) I ov"
    and fresh: "\<And>e. I e \<Longrightarrow> Q e (if ISSET (env_mode ctx) MODE_LOGIN_SHELL then 0 else fold env_update_didvar e 0) None"
    and keep: "\<And>e d p n v. Q e d p \<Longrightarrow> var_name n \<Longrightarrow> n @ CHR ''='' # v \<in> set user \<Longrightarrow>
      env_should_keep es df (env_mode ctx) (n @ CHR ''='' # v) \<Longrightarrow>
      Q (put_entry True False n v e) (env_update_didvar (n @ CHR ''='' # v) d) p"
    and ps: "\<And>e d p q. Q e d p \<Longrightarrow> q \<in> set user \<Longrightarrow> strncmp_eq q ''SUDO_PS1='' 9 \<Longrightarrow> Q e d (Some (drop 5 q))"
    and bits: "\<And>e d p. Q e d p \<Longrightarrow> Q e (or d (push_bit 16 d)) p"
    and names: "\<And>s. sat (Some user) Q s \<Longrightarrow> yields (rebuild_names ctx df s) (sat (Some user) R)"
    and mail: "\<And>s. sat (Some user) R s \<Longrightarrow> yields (rebuild_mail es ctx s) (sat (Some user) S)"
    and reset: "def_env_reset df \<or> ISSET (env_mode ctx) MODE_LOGIN_SHELL"
    and env: "envp env = Some user"
  shows "yields (rebuild_old es df ctx (fresh_env env)) (sat (Some user) S)"
proof -
  have "holding (Some user) I (fresh_env env)"
    using fresh_holds [of env] init env by (auto simp: holding_def)
  from rebuild_fresh_holding [OF this absorb]
  have f: "yields (rebuild_fresh es df ctx (fresh_env env)) (sat (Some user) Q)"
    by (rule yields_mono) (auto elim!: sat_mono dest: fresh)
  have k: "yields (rebuild_keep es df (env_mode ctx) (old_entries (fst s)) s) (sat (Some user) Q)"
    if "sat (Some user) Q s" for s
  proof -
    have "old_entries (fst s) = user" using that by (auto simp: sat_def old_entries_def)
    then show ?thesis using that by (auto intro!: rebuild_keep_sat keep ps)
  qed
  have b: "yields (kept_bits s) (sat (Some user) Q)" if "sat (Some user) Q s" for s
    using that by (intro wp_kept_bits) (auto elim!: sat_mono dest: bits)
  show ?thesis unfolding rebuild_old_def if_P [OF reset]
    by (rule yields_bind [OF f], (rule wp_steps_Cons wp_steps_Nil k b names mail, assumption?)+)
qed

section \<open>Which entries\<close>

text \<open>What \<open>rebuild_env\<close> sets on its own account.\<close>

definition sudo_entries :: "env_system \<Rightarrow> sudo_defs \<Rightarrow> env_context \<Rightarrow> string list" where
  "sudo_entries es sd ctx =
     (let c = env_sudo ctx; pw = runas_pw c in
      [''SHELL='' @ pw_shell pw, ''LOGNAME='' @ pw_name pw, ''USER='' @ pw_name pw,
       ''LOGNAME='' @ user_name c, ''USER='' @ user_name c, mail_entry es (pw_name pw),
       ''HOME='' @ pw_dir pw, ''TERM=unknown'', ''PATH='' @ path_stdpath es,
       ''SUDO_USER='' @ user_name c, ''SUDO_UID='' @ decimal (unat (user_uid c)),
       ''SUDO_GID='' @ decimal (unat (user_gid c)), ''SUDO_HOME='' @ pw_dir (user_pw c)] @
      (case def_secure_path sd of Some p \<Rightarrow> [''PATH='' @ p] | None \<Rightarrow> []) @
      (case sudo_command_entry c of Some cmd \<Rightarrow> [cmd] | None \<Rightarrow> []) @
      (case user_ttypath ctx of Some tty \<Rightarrow> [''SUDO_TTY='' @ tty] | None \<Rightarrow> []))"

definition kept_entry :: "env_system \<Rightarrow> env_defs \<Rightarrow> env_context \<Rightarrow> string list \<Rightarrow> string \<Rightarrow> bool" where
  \<comment> \<open>an entry the lists let through\<close>
  "kept_entry es df ctx user e \<longleftrightarrow>
     e \<in> set user \<and>
     (if def_env_reset df \<or> ISSET (env_mode ctx) MODE_LOGIN_SHELL then env_should_keep es df (env_mode ctx) e
      else \<not> env_should_delete es df e)"

definition base_entry :: "env_system \<Rightarrow> sudo_defs \<Rightarrow> env_defs \<Rightarrow> env_context \<Rightarrow> string list \<Rightarrow> string \<Rightarrow> bool" where
  "base_entry es sd df ctx user e \<longleftrightarrow>
     kept_entry es df ctx user e \<or> e \<in> set (system_vars es ctx) \<or> e \<in> set (sudo_entries es sd ctx)"

definition allowed_entry :: "env_system \<Rightarrow> sudo_defs \<Rightarrow> env_defs \<Rightarrow> env_context \<Rightarrow> string list \<Rightarrow> string \<Rightarrow> bool" where
  \<comment> \<open>also LOGNAME from a USER that is there, USER from LOGNAME, and PS1 from SUDO_PS1\<close>
  "allowed_entry es sd df ctx user e \<longleftrightarrow>
     base_entry es sd df ctx user e \<or>
     (named ''USER'' e \<and> base_entry es sd df ctx user (''LOGNAME'' @ drop 4 e)) \<or>
     (named ''LOGNAME'' e \<and> base_entry es sd df ctx user (''USER'' @ drop 7 e)) \<or>
     (''SUDO_'' @ e \<in> set user \<and> named ''PS1'' e)"

definition all_are :: "(string \<Rightarrow> bool) \<Rightarrow> string list \<Rightarrow> bool" where
  "all_are A e \<longleftrightarrow> (\<forall>x \<in> set e. A x)"

lemma all_are_put: "all_are A e \<Longrightarrow> A (n @ CHR ''='' # v) \<Longrightarrow> all_are A (put_entry d ov n v e)"
  using set_put [of d ov n v e] by (auto simp: all_are_def)

lemma absorbs_all_are: "(\<And>x. x \<in> set xs \<Longrightarrow> A x) \<Longrightarrow> absorbs xs (all_are A) ov"
  by (auto simp: absorbs_def intro: all_are_put)

definition ps1_from :: "string list \<Rightarrow> string option \<Rightarrow> bool" where
  "ps1_from user ps1 \<longleftrightarrow> (\<forall>p. ps1 = Some p \<longrightarrow> ''SUDO_'' @ p \<in> set user \<and> named ''PS1'' p)"

lemma strncmp_prefix: "strncmp_eq e p (length p) \<longleftrightarrow> (\<exists>r. e = p @ r)"
  using strncmp_eq_prefix [of p e] by (auto simp: strncmp_eq_def)

lemma ps1_from_drop: "strncmp_eq q ''SUDO_PS1='' 9 \<Longrightarrow> q \<in> set user \<Longrightarrow> ps1_from user (Some (drop 5 q))"
proof -
  assume q: "strncmp_eq q ''SUDO_PS1='' 9" "q \<in> set user"
  then obtain r where "q = ''SUDO_PS1='' @ r" using strncmp_prefix [of q "''SUDO_PS1=''"] by (auto simp: eval_nat_numeral)
  then show ?thesis using q(2) by (simp add: ps1_from_def named_iff)
qed

lemma var_names [simp]:
  "var_name ''SHELL''" "var_name ''LOGNAME''" "var_name ''USER''" "var_name ''MAIL''" "var_name ''PATH''"
  "var_name ''HOME''" "var_name ''TERM''" "var_name ''PS1''" "var_name ''SUDO_COMMAND''" "var_name ''SUDO_USER''"
  "var_name ''SUDO_UID''" "var_name ''SUDO_GID''" "var_name ''SUDO_HOME''" "var_name ''SUDO_TTY''"
  by (simp_all add: var_name_def)

lemma sudo_entry_names:
  "sudo_command_entry c = Some cmd \<Longrightarrow> \<exists>v. cmd = ''SUDO_COMMAND'' @ CHR ''='' # v"
  "\<exists>v. mail_entry es name = ''MAIL'' @ CHR ''='' # v"
  by (auto simp: sudo_command_entry_def mail_entry_def)

text \<open>Statements that preserve an invariant.\<close>

definition preserves :: "string list option \<Rightarrow> (string list \<Rightarrow> 32 word \<Rightarrow> string option \<Rightarrow> bool) \<Rightarrow>
    (rebuild_state \<Rightarrow> rebuild_state run) \<Rightarrow> bool" where
  "preserves old Q f \<longleftrightarrow> (\<forall>s. sat old Q s \<longrightarrow> yields (f s) (sat old Q))"

lemma preservesD: "preserves old Q f \<Longrightarrow> sat old Q s \<Longrightarrow> yields (f s) (sat old Q)"
  unfolding preserves_def by blast

lemma preserves_steps: "(\<And>f. f \<in> set fs \<Longrightarrow> preserves old Q f) \<Longrightarrow> preserves old Q (run_steps fs)"
proof (induction fs)
  case (Cons f fs)
  then have "preserves old Q f" "preserves old Q (run_steps fs)" by auto
  then show ?case by (auto simp: preserves_def intro!: yields_bind)
qed (simp add: preserves_def)

lemma preserves_Done: "preserves old Q Done"
  by (simp add: preserves_def)

lemma preserves_if: "(b \<Longrightarrow> preserves old Q f) \<Longrightarrow> (\<not> b \<Longrightarrow> preserves old Q g) \<Longrightarrow> preserves old Q (if b then f else g)"
  by simp

lemma preserves_with_did: "(\<And>did. preserves old Q (f did)) \<Longrightarrow> preserves old Q (with_did f)"
  by (simp add: preserves_def with_did_def)

lemma preserves_set_did: "(\<And>e d p. Q e d p \<Longrightarrow> Q e (SET d f) p) \<Longrightarrow> preserves old Q (set_did f)"
  by (auto simp: preserves_def intro!: wp_set_did elim!: sat_mono)

lemma preserves_setenv2:
  "var_name n \<Longrightarrow> (\<And>e dd p. Q e dd p \<Longrightarrow> Q (put_entry d ov n v e) dd p) \<Longrightarrow>
   preserves old Q (check_setenv2 n v d ov)"
  by (auto simp: preserves_def intro!: wp_setenv2 elim!: sat_mono)

lemma preserves_putenv:
  "x = n @ CHR ''='' # v \<Longrightarrow> var_name n \<Longrightarrow> (\<And>e dd p. Q e dd p \<Longrightarrow> Q (put_entry d ov n v e) dd p) \<Longrightarrow>
   preserves old Q (check_putenv x d ov)"
  by (auto simp: preserves_def intro!: wp_putenv elim!: sat_mono)

lemmas preserves_rules = preserves_steps preserves_Done preserves_if preserves_with_did

lemma names_all_are:
  assumes A: "\<And>x. x \<in> set (sudo_entries es sd ctx) \<Longrightarrow> A x"
  shows "preserves old (\<lambda>e d p. all_are A e \<and> P p) (rebuild_names ctx df)"
    and "preserves old (\<lambda>e d p. all_are A e \<and> P p) (rebuild_mail es ctx)"
    and "preserves old (\<lambda>e d p. all_are A e \<and> P p) (set_path sys sd ctx)"
    and "preserves old (\<lambda>e d p. all_are A e \<and> P p)
      (only_if home (check_setenv2 ''HOME'' (pw_dir (runas_pw (env_sudo ctx))) True True))"
    and "preserves old (\<lambda>e d p. all_are A e \<and> P p) (set_defaults es ctx)"
proof -
  have put: "preserves old (\<lambda>e d p. all_are A e \<and> P p) (check_setenv2 n v d ov)"
    if "var_name n" "n @ CHR ''='' # v \<in> set (sudo_entries es sd ctx)" for n v d ov
    using that A by (intro preserves_setenv2) (auto intro: all_are_put)
  have str: "preserves old (\<lambda>e d p. all_are A e \<and> P p) (check_putenv x d ov)"
    if "x = n @ CHR ''='' # v" "var_name n" "x \<in> set (sudo_entries es sd ctx)" for x n v d ov
    using that A by (intro preserves_putenv [OF that(1,2)]) (auto intro: all_are_put)
  show "preserves old (\<lambda>e d p. all_are A e \<and> P p) (rebuild_names ctx df)"
    unfolding rebuild_names_def
    by (rule preserves_rules | rule put | auto simp: sudo_entries_def Let_def intro!: preserves_rules put)+
  obtain m where m: "mail_entry es (pw_name (runas_pw (env_sudo ctx))) = ''MAIL'' @ CHR ''='' # m"
    using sudo_entry_names(2) by blast
  show "preserves old (\<lambda>e d p. all_are A e \<and> P p) (rebuild_mail es ctx)"
    unfolding rebuild_mail_def by (rule preserves_rules | rule str [OF m] | simp add: sudo_entries_def Let_def)+
  show "preserves old (\<lambda>e d p. all_are A e \<and> P p) (set_path sys sd ctx)"
    unfolding set_path_def
    by (auto simp: sudo_entries_def Let_def split: option.splits
        intro!: preserves_rules preserves_set_did put)
  show "preserves old (\<lambda>e d p. all_are A e \<and> P p)
      (only_if home (check_setenv2 ''HOME'' (pw_dir (runas_pw (env_sudo ctx))) True True))"
    by (rule preserves_rules put | simp add: sudo_entries_def Let_def)+
  show "preserves old (\<lambda>e d p. all_are A e \<and> P p) (set_defaults es ctx)"
    unfolding set_defaults_def
    by (auto simp: sudo_entries_def Let_def intro!: preserves_rules put str [of _ "''TERM''" "''unknown''"])
qed

lemma yields_if: "(b \<Longrightarrow> yields f Q) \<Longrightarrow> (\<not> b \<Longrightarrow> yields g Q) \<Longrightarrow> yields (if b then f else g) Q"
  by simp

lemma set_logname_allowed:
  assumes "sat old (\<lambda>e d p. all_are (base_entry es sd df ctx user) e \<and> ps1_from user p) s"
  shows "yields (set_logname df ctx s) (sat old (\<lambda>e d p. all_are (allowed_entry es sd df ctx user) e \<and> ps1_from user p))"
proof -
  let ?A = "allowed_entry es sd df ctx user" and ?B = "base_entry es sd df ctx user"
  let ?Q = "\<lambda>e (d :: 32 word) p. all_are ?A e \<and> ps1_from user p"
  obtain env did ps1 where s: "s = (env, did, ps1)" by (metis prod_cases3)
  obtain e where e: "holds e env" "old_envp env = old" "all_are ?B e" "ps1_from user ps1"
    using assms by (auto simp: sat_def s)
  have Q: "sat old ?Q s"
    using assms by (rule sat_mono) (auto simp: all_are_def allowed_entry_def)
  have put: "preserves old ?Q (check_setenv2 n v True True)" if "var_name n" "?A (n @ CHR ''='' # v)" for n v
    using that by (intro preserves_setenv2) (auto intro: all_are_put)
  have own: "?A (''LOGNAME'' @ CHR ''='' # pw_name (runas_pw (env_sudo ctx)))"
      "?A (''USER'' @ CHR ''='' # pw_name (runas_pw (env_sudo ctx)))"
    by (simp_all add: allowed_entry_def base_entry_def sudo_entries_def Let_def)
  have get: "?B (n @ CHR ''='' # cp)" if "sudo_getenv n env = Some cp" "var_name n" for n cp
  proof -
    from that obtain x xs where x: "entries e n = x # xs" "cp = drop (length n + 1) x"
      using getenv_entries [OF e(1), of n] by (auto simp: var_name_def split: list.splits)
    then have "x \<in> set (entries e n)" by simp
    then have "x \<in> set e" "named n x" by (simp_all add: entries_def)
    then show ?thesis using x(2) e(3) by (auto simp: named_iff all_are_def)
  qed
  have "preserves old ?Q (run_steps [only_if b1 (check_setenv2 ''LOGNAME'' cp True True),
      only_if b2 (check_setenv2 ''USER'' cp True True)])"
    if "b1 \<longrightarrow> ?A (''LOGNAME'' @ CHR ''='' # cp)" "b2 \<longrightarrow> ?A (''USER'' @ CHR ''='' # cp)" for b1 b2 cp
    using that by (auto intro!: preserves_rules put)
  note two = preservesD [OF this Q]
  have other: "?B (''USER'' @ CHR ''='' # cp) \<Longrightarrow> ?A (''LOGNAME'' @ CHR ''='' # cp)"
    "?B (''LOGNAME'' @ CHR ''='' # cp) \<Longrightarrow> ?A (''USER'' @ CHR ''='' # cp)" for cp
    by (simp_all add: allowed_entry_def named_iff)
  define w where "w = (if ISSET did KEPT_LOGNAME then sudo_getenv ''LOGNAME'' env
    else if ISSET did KEPT_USER then sudo_getenv ''USER'' env else None)"
  have w: "\<not> ISSET did KEPT_LOGNAME \<longrightarrow> ?A (''LOGNAME'' @ CHR ''='' # cp)"
    "\<not> ISSET did KEPT_USER \<longrightarrow> ?A (''USER'' @ CHR ''='' # cp)" if "w = Some cp" for cp
    using that other [of cp] get [of "''LOGNAME''" cp] get [of "''USER''" cp] by (auto simp: w_def split: if_splits)
  have body: "yields (case w of Some cp \<Rightarrow> run_steps
      [only_if (\<not> ISSET did KEPT_LOGNAME) (check_setenv2 ''LOGNAME'' cp True True),
       only_if (\<not> ISSET did KEPT_USER) (check_setenv2 ''USER'' cp True True)] s
    | None \<Rightarrow> Done s) (sat old ?Q)"
    by (cases w) (simp_all only: option.case two [OF w] yields_simps Q)
  have "preserves old ?Q (run_steps
      [check_setenv2 ''LOGNAME'' (pw_name (runas_pw (env_sudo ctx))) True True,
       check_setenv2 ''USER'' (pw_name (runas_pw (env_sudo ctx))) True True])"
    using own by (auto intro!: preserves_rules put)
  note first = preservesD [OF this Q]
  have stay: "yields (Done s) (sat old ?Q)" using Q by simp
  show ?thesis unfolding set_logname_def s Let_def prod.case w_def [symmetric]
    by (intro yields_if first [unfolded s] body [unfolded s] stay [unfolded s])
qed

lemma tail_allowed:
  assumes cmnd: "user_cmnd (env_sudo ctx) \<noteq> None"
    and sat: "sat old (\<lambda>e d p. all_are (allowed_entry es sd df ctx user) e \<and> ps1_from user p) s"
  shows "yields (run_steps [only_if home (check_setenv2 ''HOME'' (pw_dir (runas_pw (env_sudo ctx))) True True),
      set_defaults es ctx, set_ps1, set_sudo_vars ctx] s)
    (sat old (\<lambda>e d p. all_are (allowed_entry es sd df ctx user) e \<and> ps1_from user p))"
proof (rule preservesD [OF _ sat], rule preserves_steps)
  let ?A = "allowed_entry es sd df ctx user"
  let ?Q = "\<lambda>e (d :: 32 word) p. all_are ?A e \<and> ps1_from user p"
  have own: "?A x" if "x \<in> set (sudo_entries es sd ctx)" for x
    using that by (simp add: allowed_entry_def base_entry_def)
  have put: "preserves old ?Q (check_setenv2 n v True True)"
    if "var_name n" "n @ CHR ''='' # v \<in> set (sudo_entries es sd ctx)" for n v
    using that own by (intro preserves_setenv2) (auto intro: all_are_put)
  have "preserves old ?Q set_ps1"
  proof (unfold preserves_def, intro allI impI)
    fix s assume a: "sat old ?Q s"
    obtain env did ps1 where s: "s = (env, did, ps1)" by (metis prod_cases3)
    show "yields (set_ps1 s) (sat old ?Q)"
    proof (cases ps1)
      case (Some p)
      then have p: "''SUDO_'' @ p \<in> set user" "named ''PS1'' p" using a by (auto simp: sat_def s ps1_from_def)
      then obtain v where v: "p = ''PS1'' @ CHR ''='' # v" by (auto simp: named_iff)
      have "?A p" using p by (simp add: allowed_entry_def)
      then have "preserves old ?Q (check_putenv p True True)"
        by (intro preserves_putenv [OF v]) (auto intro!: all_are_put simp: v)
      then show ?thesis using a by (simp add: set_ps1_def s Some preservesD)
    qed (use a in \<open>simp add: set_ps1_def s\<close>)
  qed
  moreover have "preserves old ?Q (set_sudo_vars ctx)"
  proof -
    obtain cmd where Some: "sudo_command_entry (env_sudo ctx) = Some cmd"
      using cmnd by (auto simp: sudo_command_entry_def)
    then obtain v where v: "cmd = ''SUDO_COMMAND'' @ CHR ''='' # v" using sudo_entry_names(1) by blast
    have "?A cmd" using Some by (intro own) (simp add: sudo_entries_def Let_def)
    then have "preserves old ?Q (check_putenv cmd True True)"
      by (intro preserves_putenv [OF v]) (auto intro!: all_are_put simp: v)
    then show ?thesis
      by (auto simp: set_sudo_vars_def Let_def Some sudo_entries_def intro!: preserves_rules put split: option.splits)
  qed
  ultimately show "preserves old ?Q f" if "f \<in> set [only_if home (check_setenv2 ''HOME''
      (pw_dir (runas_pw (env_sudo ctx))) True True), set_defaults es ctx, set_ps1, set_sudo_vars ctx]" for f
    using that names_all_are(4,5) [of es sd ctx ?A old "ps1_from user"] own by auto
qed

lemma sat_init: "envp env = Some user \<Longrightarrow> Q [] did ps1 \<Longrightarrow> sat (Some user) Q (fresh_env env, did, ps1)"
  using fresh_holds [of env] by (auto intro: satI)

lemma rebuild_old_copy:
  assumes "\<not> (def_env_reset df \<or> ISSET (env_mode ctx) MODE_LOGIN_SHELL)" "envp env = Some user"
    and "Q [] 0 None"
    and "\<And>e d p n v. Q e d p \<Longrightarrow> var_name n \<Longrightarrow> n @ CHR ''='' # v \<in> set user \<Longrightarrow>
      \<not> env_should_delete es df (n @ CHR ''='' # v) \<Longrightarrow>
      Q (put_entry True False n v e) (copy_didvar (n @ CHR ''='' # v) d) p"
    and "\<And>e d p q. Q e d p \<Longrightarrow> q \<in> set user \<Longrightarrow> strncmp_eq q ''SUDO_PS1='' 9 \<Longrightarrow> Q e d (Some (drop 5 q))"
  shows "yields (rebuild_old es df ctx (fresh_env env)) (sat (Some user) Q)"
proof -
  have "old_entries (fresh_env env) = user" using assms(2) fresh_holds [of env] by (simp add: old_entries_def)
  then have "rebuild_old es df ctx (fresh_env env) = rebuild_copy es df user (fresh_env env, 0, None)"
    unfolding rebuild_old_def if_not_P [OF assms(1)] by simp
  also have "yields \<dots> (sat (Some user) Q)"
    by (rule rebuild_copy_sat [OF assms(4,5) sat_init [where Q = Q, OF assms(2,3)]])
  finally show ?thesis .
qed

text \<open>
  C29. Every entry of the environment \<open>rebuild_env\<close> makes is one of the user that env_keep and
  env_check let through (env_delete and env_check, without env_reset), one of the system
  (login class, environment file), one of the values sudo itself gives its variables, a LOGNAME or
  USER made to agree with the other, or the PS1 of a SUDO_PS1; and the array is sound.
\<close>

theorem rebuild_env_allowed:
  assumes "envp env = Some user" "user_cmnd (env_sudo ctx) \<noteq> None"
  shows "yields (rebuild_env sys es sd df ctx env)
    (\<lambda>env'. \<exists>e. holds e env' \<and> old_envp env' = Some user \<and> (\<forall>x \<in> set e. allowed_entry es sd df ctx user x))"
proof -
  let ?B = "base_entry es sd df ctx user"
  let ?P = "\<lambda>e (d :: 32 word) p. all_are ?B e \<and> ps1_from user p"
  let ?Q = "\<lambda>e (d :: 32 word) p. all_are (allowed_entry es sd df ctx user) e \<and> ps1_from user p"
  have own: "?B x" if "x \<in> set (sudo_entries es sd ctx)" for x using that by (simp add: base_entry_def)
  have sys: "absorbs (system_vars es ctx) (all_are ?B) ov" for ov
    by (rule absorbs_all_are) (simp add: base_entry_def)
  have init: "all_are ?B []" "ps1_from user None" by (simp_all add: all_are_def ps1_from_def)
  have put: "?P (put_entry True False n v e) d' p" if "?P e d p" "kept_entry es df ctx user (n @ CHR ''='' # v)" for e d d' p n v
    using that by (auto intro: all_are_put simp: base_entry_def)
  have ps: "?P e d (Some (drop 5 q))" if "?P e d p" "q \<in> set user" "strncmp_eq q ''SUDO_PS1='' 9" for e d p q
    using that ps1_from_drop by blast
  have old: "yields (rebuild_old es df ctx (fresh_env env)) (sat (Some user) ?P)"
  proof (cases "def_env_reset df \<or> ISSET (env_mode ctx) MODE_LOGIN_SHELL")
    case True
    then have k: "n @ CHR ''='' # v \<in> set user \<Longrightarrow> env_should_keep es df (env_mode ctx) (n @ CHR ''='' # v) \<Longrightarrow>
        kept_entry es df ctx user (n @ CHR ''='' # v)" for n v
      by (simp add: kept_entry_def)
    show ?thesis
    proof (rule rebuild_old_sat [OF init(1) sys, where Q = ?P and R = ?P], goal_cases)
      case (2 e d p n v)
      then show ?case using put k by blast
    next
      case (3 e d p q)
      then show ?case using ps by blast
    next
      case (5 s)
      show ?case by (rule preservesD [OF names_all_are(1) 5]) (rule own)
    next
      case (6 s)
      show ?case by (rule preservesD [OF names_all_are(2) 6]) (rule own)
    qed (use True assms(1) init in simp_all)
  next
    case False
    show ?thesis
    proof (rule rebuild_old_copy [OF False assms(1), where Q = ?P], goal_cases)
      case (2 e d p n v)
      then have "kept_entry es df ctx user (n @ CHR ''='' # v)" using False by (simp add: kept_entry_def)
      with 2(1) show ?case by (rule put)
    next
      case (3 e d p q)
      then show ?case by (rule ps)
    qed (use init in simp)
  qed
  have "yields (run_steps (rebuild_rest sys es sd df ctx home) s) (sat (Some user) ?Q)"
    if "sat (Some user) ?P s" for s home
    unfolding rebuild_rest_def
  proof (rule wp_steps_Cons [where P = ?P])
    show "yields (set_path sys sd ctx s) (sat (Some user) ?P)"
      by (rule preservesD [OF names_all_are(3) that]) (rule own)
  next
    fix s assume "sat (Some user) ?P s"
    then show "yields (run_steps [set_logname df ctx,
        only_if home (check_setenv2 ''HOME'' (pw_dir (runas_pw (env_sudo ctx))) True True),
        set_defaults es ctx, set_ps1, set_sudo_vars ctx] s) (sat (Some user) ?Q)"
      by (rule wp_steps_Cons [where P = ?Q, OF set_logname_allowed]) (rule tail_allowed [OF assms(2)])
  qed
  from rebuild_env_sat [where P = ?P and Q = ?Q, OF assms(1) old this]
  show ?thesis by (rule yields_mono) (auto simp: all_are_def)
qed

end
