(* ===== verification/EnvVars.thy ===== *)
theory EnvVars
  imports EnvProps
begin

text \<open>
  The variables of the environment \<open>rebuild_env\<close> makes: which value PATH has under secure_path,
  that no variable is set twice but for SHELL in a login shell, and that the bash functions of
  the user do not pass env_keep.
\<close>

section \<open>The search path\<close>

lemma rebuild_old_ps1:
  assumes "envp env = Some user"
  shows "yields (rebuild_old es df ctx (fresh_env env)) (sat (Some user) (\<lambda>e d p. ps1_from user p))"
proof -
  have keep: "preserves (Some user) (\<lambda>e d p. ps1_from user p) (rebuild_names ctx df)"
      "preserves (Some user) (\<lambda>e d p. ps1_from user p) (rebuild_mail es ctx)"
    using names_all_are(1) [of es sd ctx "\<lambda>_. True" "Some user" "ps1_from user" df]
      names_all_are(2) [of es sd ctx "\<lambda>_. True" "Some user" "ps1_from user"] by (simp_all add: all_are_def)
  have none: "ps1_from user None" by (simp add: ps1_from_def)
  show ?thesis
  proof (cases "def_env_reset df \<or> ISSET (env_mode ctx) MODE_LOGIN_SHELL")
    case True
    show ?thesis
      by (rule rebuild_old_sat [where I = "\<lambda>_. True" and Q = "\<lambda>e d p. ps1_from user p" and
          R = "\<lambda>e d p. ps1_from user p"])
        (use True assms none ps1_from_drop in \<open>auto simp: absorbs_def intro: preservesD [OF keep(1)] preservesD [OF keep(2)]\<close>)
  next
    case False
    show ?thesis
      by (rule rebuild_old_copy [OF False assms]) (use none ps1_from_drop in auto)
  qed
qed

lemma wp_steps2:
  "yields (f s) (sat old P) \<Longrightarrow> (\<And>t. sat old P t \<Longrightarrow> yields (g t) (sat old Q)) \<Longrightarrow>
   yields (run_steps [f, g] s) (sat old Q)"
  by (rule wp_steps_Cons, assumption, rule wp_steps_Cons, blast, rule wp_steps_Nil)

lemma entries_other:
  "var_name n \<Longrightarrow> CHR ''='' \<notin> set m \<Longrightarrow> m \<noteq> n \<Longrightarrow> entries (put_entry d ov n v e) m = entries e m"
  by (simp add: entries_put)

lemma ISSET_SET_iff: "ISSET (SET w a) b \<longleftrightarrow> ISSET w b \<or> ISSET a b"
  by (simp add: ISSET_def SET_def bit.conj_disj_distrib2 or_eq_0_iff)

section \<open>The statements that overwrite\<close>

text \<open>
  The statements after \<open>set_path\<close>, except \<open>set_defaults\<close>, overwrite variables of these names; an
  invariant that each of them preserves is preserved by all.
\<close>

definition overwritten :: "string set" where
  "overwritten = {''LOGNAME'', ''USER'', ''HOME'', ''PS1'', ''SUDO_COMMAND'', ''SUDO_USER'', ''SUDO_UID'',
     ''SUDO_GID'', ''SUDO_HOME'', ''SUDO_TTY''}"

lemma preserves_cong: "(\<And>s. f s = g s) \<Longrightarrow> preserves old Q f = preserves old Q g"
  by (simp add: preserves_def)

lemma check_putenv_setenv2: "check_putenv (n @ CHR ''='' # v) d ov = check_setenv2 n v d ov"
proof -
  have "sudo_setenv2 n v d ov = sudo_putenv (n @ CHR ''='' # v) d ov" by (rule ext) (simp add: sudo_setenv2_def)
  then show ?thesis by (simp add: check_putenv_def check_setenv2_def)
qed

lemma set_logname_preserves:
  assumes "\<And>n v. n \<in> overwritten \<Longrightarrow> preserves old Q (check_setenv2 n v True True)"
  shows "preserves old Q (set_logname df ctx)"
proof (unfold preserves_def, intro allI impI)
  fix s assume Q: "sat old Q s"
  obtain env did ps1 where s: "s = (env, did, ps1)" by (metis prod_cases3)
  have put: "preserves old Q (check_setenv2 ''LOGNAME'' v True True)"
    "preserves old Q (check_setenv2 ''USER'' v True True)" for v
    by (rule assms, simp add: overwritten_def)+
  have "preserves old Q (run_steps [only_if b1 (check_setenv2 ''LOGNAME'' cp True True),
      only_if b2 (check_setenv2 ''USER'' cp True True)])" for b1 b2 cp
    by (auto intro!: preserves_rules put)
  note two = preservesD [OF this Q]
  have "preserves old Q (run_steps
      [check_setenv2 ''LOGNAME'' (pw_name (runas_pw (env_sudo ctx))) True True,
       check_setenv2 ''USER'' (pw_name (runas_pw (env_sudo ctx))) True True])"
    by (auto intro!: preserves_rules put)
  note first = preservesD [OF this Q]
  have stay: "yields (Done s) (sat old Q)" using Q by simp
  have opt: "yields (case w of Some cp \<Rightarrow> run_steps
      [only_if b1 (check_setenv2 ''LOGNAME'' cp True True), only_if b2 (check_setenv2 ''USER'' cp True True)] s
    | None \<Rightarrow> Done s) (sat old Q)" for w b1 b2
    by (cases w) (simp_all only: option.case two stay)
  show "yields (set_logname df ctx s) (sat old Q)"
    unfolding set_logname_def s Let_def prod.case
    by (intro yields_if first [unfolded s] opt [unfolded s] stay [unfolded s])
qed

lemma set_ps1_preserves:
  assumes "\<And>n v. n \<in> overwritten \<Longrightarrow> preserves old Q (check_setenv2 n v True True)"
    and "\<And>e d p. Q e d p \<Longrightarrow> ps1_from user p"
  shows "preserves old Q set_ps1"
proof (unfold preserves_def, intro allI impI)
  fix s assume Q: "sat old Q s"
  obtain env did ps1 where s: "s = (env, did, ps1)" by (metis prod_cases3)
  show "yields (set_ps1 s) (sat old Q)"
  proof (cases ps1)
    case (Some p)
    then obtain v where v: "p = ''PS1'' @ CHR ''='' # v"
      using Q assms(2) by (force simp: sat_def s ps1_from_def named_iff)
    have "preserves old Q (check_putenv p True True)"
      unfolding v check_putenv_setenv2 by (rule assms(1)) (simp add: overwritten_def)
    then show ?thesis using Q by (simp add: set_ps1_def s Some preservesD)
  qed (use Q in \<open>simp add: set_ps1_def s\<close>)
qed

lemma set_sudo_vars_preserves:
  assumes put: "\<And>n v. n \<in> overwritten - {''PS1''} \<Longrightarrow> preserves old Q (check_setenv2 n v True True)"
    and cmnd: "user_cmnd (env_sudo ctx) \<noteq> None"
  shows "preserves old Q (set_sudo_vars ctx)"
proof -
  obtain cmd where c: "sudo_command_entry (env_sudo ctx) = Some cmd"
    using cmnd by (auto simp: sudo_command_entry_def)
  then obtain v where v: "cmd = ''SUDO_COMMAND'' @ CHR ''='' # v" using sudo_entry_names(1) by blast
  have "preserves old Q (check_putenv cmd True True)"
    unfolding v check_putenv_setenv2 by (rule put) (simp add: overwritten_def)
  then show ?thesis
    by (auto simp: set_sudo_vars_def Let_def c overwritten_def intro!: preserves_rules put split: option.splits)
qed

lemma rest_preserves:
  assumes put: "\<And>n v. n \<in> overwritten \<Longrightarrow> preserves old Q (check_setenv2 n v True True)"
    and ps1: "\<And>e d p. Q e d p \<Longrightarrow> ps1_from user p"
    and def: "preserves old Q (set_defaults es ctx)"
    and cmnd: "user_cmnd (env_sudo ctx) \<noteq> None"
  shows "preserves old Q (run_steps
    [set_logname df ctx, only_if home (check_setenv2 ''HOME'' (pw_dir (runas_pw (env_sudo ctx))) True True),
     set_defaults es ctx, set_ps1, set_sudo_vars ctx])"
proof (rule preserves_steps)
  have "preserves old Q (check_setenv2 ''HOME'' (pw_dir (runas_pw (env_sudo ctx))) True True)"
    by (rule put) (simp add: overwritten_def)
  then show "preserves old Q f" if "f \<in> set
      [set_logname df ctx, only_if home (check_setenv2 ''HOME'' (pw_dir (runas_pw (env_sudo ctx))) True True),
       set_defaults es ctx, set_ps1, set_sudo_vars ctx]" for f
    using that set_logname_preserves [OF put] set_ps1_preserves [OF put ps1]
      set_sudo_vars_preserves [OF _ cmnd, of old Q] put def preserves_Done by auto
qed

lemma rest_yields:
  assumes path: "yields (set_path sys sd ctx s) (sat old Q)"
    and put: "\<And>n v. n \<in> overwritten \<Longrightarrow> preserves old Q (check_setenv2 n v True True)"
    and ps1: "\<And>e d p. Q e d p \<Longrightarrow> ps1_from user p"
    and def: "preserves old Q (set_defaults es ctx)"
    and cmnd: "user_cmnd (env_sudo ctx) \<noteq> None"
  shows "yields (run_steps (rebuild_rest sys es sd df ctx home) s) (sat old Q)"
  unfolding rebuild_rest_def
proof (rule wp_steps_Cons [where P = Q])
  show "yields (set_path sys sd ctx s) (sat old Q)" by (rule path)
next
  fix s assume "sat old Q s"
  then show "yields (run_steps
    [set_logname df ctx, only_if home (check_setenv2 ''HOME'' (pw_dir (runas_pw (env_sudo ctx))) True True),
     set_defaults es ctx, set_ps1, set_sudo_vars ctx] s) (sat old Q)"
    by (rule preservesD [where Q = Q, rotated]) (rule rest_preserves [where user = user], (rule put ps1 def cmnd, assumption?)+)
qed

text \<open>
  When secure_path is set and the user is not exempt from it, PATH is set once in the new
  environment, to the secure path, whatever PATH the user, the login class or the environment
  file had.
\<close>

theorem rebuild_env_secure_path:
  assumes "envp env = Some user" "user_cmnd (env_sudo ctx) \<noteq> None"
    and "def_secure_path sd = Some p" "\<not> user_is_exempt sys sd (env_sudo ctx)"
  shows "yields (rebuild_env sys es sd df ctx env)
    (\<lambda>env'. \<exists>e. holds e env' \<and> entries e ''PATH'' = [''PATH='' @ p] \<and> sudo_getenv ''PATH'' env' = Some p)"
proof -
  let ?P = "\<lambda>(e :: string list) (d :: 32 word) q. ps1_from user q"
  define Q where "Q = (\<lambda>e d q. entries e ''PATH'' = [''PATH='' @ p] \<and> ISSET d DID_PATH \<and> ps1_from user q)"
  have put: "preserves old Q (check_setenv2 n v d ov)" if "var_name n" "n \<noteq> ''PATH''" for old n v d ov
    using that by (intro preserves_setenv2) (auto simp: Q_def entries_other)
  have str: "preserves old Q (check_putenv (n @ CHR ''='' # v) d ov)"
    if "var_name n" "n \<noteq> ''PATH''" for old n v d ov
    using that by (intro preserves_putenv [OF refl]) (auto simp: Q_def entries_other)
  have path: "yields (set_path sys sd ctx s) (sat (Some user) Q)" if "sat (Some user) ?P s" for s
  proof -
    have "entries (put_entry True True ''PATH'' p e) ''PATH'' = [''PATH='' @ p]" for e
      by (auto simp: entries_put)
    moreover have "ISSET (SET d DID_PATH) DID_PATH" for d by (simp add: ISSET_SET_iff) (simp add: ISSET_def DID_PATH_def)
    ultimately have "yields (run_steps [check_setenv2 ''PATH'' p True True, set_did DID_PATH] s) (sat (Some user) Q)"
    proof (rule_tac wp_steps2 [where P = "\<lambda>e d q. entries e ''PATH'' = [''PATH='' @ p] \<and> ps1_from user q"])
      show "yields (check_setenv2 ''PATH'' p True True s)
          (sat (Some user) (\<lambda>e d q. entries e ''PATH'' = [''PATH='' @ p] \<and> ps1_from user q))"
        using that by (intro wp_setenv2) (auto elim!: sat_mono simp: entries_put)
    qed (intro wp_set_did, auto simp: Q_def elim!: sat_mono)
    then show ?thesis using assms(3,4) by (simp add: set_path_def del: run_steps.simps)
  qed
  have defaults: "preserves old Q (set_defaults es ctx)" for old
  proof (unfold preserves_def set_defaults_def with_did_def, intro allI impI)
    fix s assume Q: "sat old Q s"
    then have did: "ISSET (fst (snd s)) DID_PATH = True" by (auto simp: sat_def Q_def)
    have "preserves old Q (run_steps
       [only_if b1 (check_setenv2 ''SHELL'' (pw_shell (runas_pw (env_sudo ctx))) False False),
        only_if b2 (check_putenv ''TERM=unknown'' False False), only_if False f])" for b1 b2 f
      using str [of "''TERM''" old "''unknown''"] by (auto intro!: preserves_rules put)
    note pd = preservesD [OF this Q]
    show "yields (run_steps
       [only_if (\<not> ISSET (fst (snd s)) DID_SHELL)
          (check_setenv2 ''SHELL'' (pw_shell (runas_pw (env_sudo ctx))) False False),
        only_if (\<not> ISSET (fst (snd s)) DID_TERM) (check_putenv ''TERM=unknown'' False False),
        only_if (\<not> ISSET (fst (snd s)) DID_PATH) (check_setenv2 ''PATH'' (path_stdpath es) False True)] s)
      (sat old Q)"
      unfolding did not_True_eq_False by (rule pd)
  qed
  have "yields (run_steps (rebuild_rest sys es sd df ctx home) s) (sat (Some user) Q)"
    if "sat (Some user) ?P s" for s home
  proof (rule rest_yields [where user = user])
    show "preserves (Some user) Q (check_setenv2 n v True True)" if "n \<in> overwritten" for n v
      using that by (intro put) (auto simp: overwritten_def)
  qed (use path [OF that] defaults assms(2) in \<open>auto simp: Q_def\<close>)
  from rebuild_env_sat [where P = ?P and Q = Q, OF assms(1) rebuild_old_ps1 [OF assms(1)] this]
  show ?thesis by (rule yields_mono) (auto simp: Q_def getenv_entries)
qed

section \<open>No variable twice\<close>

lemma strncmp_var:
  "var_name n \<Longrightarrow> var_name m \<Longrightarrow> strncmp_eq (n @ CHR ''='' # v) (m @ ''='') (length m + 1) \<longleftrightarrow> n = m"
  using strncmp_prefix [of "n @ CHR ''='' # v" "m @ ''=''"] named_unique [of n "n @ CHR ''='' # v" m]
  by (auto simp: var_name_def named_iff)

lemma env_update_didvar_named:
  "var_name n \<Longrightarrow> env_update_didvar (n @ CHR ''='' # v) d =
     (if n = ''HOME'' then SET d DID_HOME else if n = ''LOGNAME'' then SET d DID_LOGNAME
      else if n = ''MAIL'' then SET d DID_MAIL else if n = ''PATH'' then SET d DID_PATH
      else if n = ''SHELL'' then SET d DID_SHELL else if n = ''TERM'' then SET d DID_TERM
      else if n = ''USER'' then SET d DID_USER else d)"
  using strncmp_var [of n "''HOME''" v] strncmp_var [of n "''LOGNAME''" v] strncmp_var [of n "''MAIL''" v]
    strncmp_var [of n "''PATH''" v] strncmp_var [of n "''SHELL''" v] strncmp_var [of n "''TERM''" v]
    strncmp_var [of n "''USER''" v]
  by (simp add: env_update_didvar_def eval_nat_numeral)

lemma copy_didvar_named:
  "var_name n \<Longrightarrow> copy_didvar (n @ CHR ''='' # v) d =
     (if n = ''SUDO_PS1'' then d else if n = ''SHELL'' then SET d DID_SHELL
      else if n = ''PATH'' then SET d DID_PATH else if n = ''TERM'' then SET d DID_TERM else d)"
  using strncmp_var [of n "''SUDO_PS1''" v] strncmp_var [of n "''PATH''" v] strncmp_var [of n "''SHELL''" v]
    strncmp_var [of n "''TERM''" v]
  by (simp add: copy_didvar_def eval_nat_numeral var_name_def)

text \<open>The bits of \<open>didvar\<close> that \<open>rebuild_env\<close> relies on to put a variable without looking for it.\<close>

definition did_bits :: "(string \<times> 32 word) list" where
  "did_bits = [(''PATH'', DID_PATH), (''TERM'', DID_TERM), (''SHELL'', DID_SHELL), (''LOGNAME'', DID_LOGNAME),
     (''USER'', DID_USER), (''MAIL'', DID_MAIL)]"

lemmas did_defs = DID_PATH_def DID_TERM_def DID_SHELL_def DID_LOGNAME_def DID_USER_def DID_MAIL_def DID_HOME_def

lemma update_did_mono: "ISSET d b \<Longrightarrow> ISSET (env_update_didvar x d) b"
  by (simp add: env_update_didvar_def ISSET_SET_iff)

lemma update_did_sets:
  "(n, b) \<in> set did_bits \<Longrightarrow> ISSET (env_update_didvar (n @ CHR ''='' # v) d) b"
proof -
  assume a: "(n, b) \<in> set did_bits"
  then have n: "var_name n" by (auto simp: did_bits_def)
  have self: "ISSET DID_PATH DID_PATH" "ISSET DID_TERM DID_TERM" "ISSET DID_SHELL DID_SHELL"
    "ISSET DID_LOGNAME DID_LOGNAME" "ISSET DID_USER DID_USER" "ISSET DID_MAIL DID_MAIL"
    by (simp_all add: did_defs ISSET_def)
  from a have "n = ''PATH'' \<and> b = DID_PATH \<or> n = ''TERM'' \<and> b = DID_TERM \<or> n = ''SHELL'' \<and> b = DID_SHELL \<or>
      n = ''LOGNAME'' \<and> b = DID_LOGNAME \<or> n = ''USER'' \<and> b = DID_USER \<or> n = ''MAIL'' \<and> b = DID_MAIL"
    by (simp add: did_bits_def)
  then show ?thesis unfolding env_update_didvar_named [OF n]
    by (elim disjE conjE) (simp_all add: ISSET_SET_iff self)
qed

lemma fold_update_did:
  "(ISSET d b \<longrightarrow> ISSET (fold env_update_didvar e d) b) \<and>
   ((n, b) \<in> set did_bits \<longrightarrow> entries e n \<noteq> [] \<longrightarrow> ISSET (fold env_update_didvar e d) b)"
proof (induction e arbitrary: d)
  case (Cons x e)
  show ?case
  proof (intro conjI impI)
    assume "ISSET d b"
    then show "ISSET (fold env_update_didvar (x # e) d) b" using Cons update_did_mono by auto
  next
    assume n: "(n, b) \<in> set did_bits" "entries (x # e) n \<noteq> []"
    show "ISSET (fold env_update_didvar (x # e) d) b"
    proof (cases "named n x")
      case True
      then show ?thesis using Cons n update_did_sets by (auto simp: named_iff)
    next
      case False
      then show ?thesis using Cons n by (simp add: entries_def)
    qed
  qed
qed (simp add: entries_def)

definition unique :: "bool \<Rightarrow> string list \<Rightarrow> bool" where
  \<comment> \<open>no variable twice; SHELL apart when told so\<close>
  "unique shell e \<longleftrightarrow> (\<forall>n. var_name n \<and> (shell \<longrightarrow> n \<noteq> ''SHELL'') \<longrightarrow> length (entries e n) \<le> 1)"

definition covers :: "string list \<Rightarrow> string list \<Rightarrow> 32 word \<Rightarrow> bool" where
  \<comment> \<open>the variables \<open>vs\<close> that are there have their bit\<close>
  "covers vs e d \<longleftrightarrow> (\<forall>(n, b) \<in> set did_bits. n \<in> set vs \<longrightarrow> entries e n \<noteq> [] \<longrightarrow> ISSET d b)"

lemma unique_put:
  "unique shell e \<Longrightarrow> var_name n \<Longrightarrow> dup \<or> entries e n = [] \<or> shell \<and> n = ''SHELL'' \<Longrightarrow>
   unique shell (put_entry dup ov n v e)"
  unfolding unique_def by (auto simp: entries_put var_name_def)

lemma covers_put:
  assumes "covers vs e d" "var_name n" "\<And>b. ISSET d b \<Longrightarrow> ISSET d' b"
    and "\<And>b. n \<in> set vs \<Longrightarrow> (n, b) \<in> set did_bits \<Longrightarrow> ISSET d' b"
  shows "covers vs (put_entry dup ov n v e) d'"
proof -
  have "ISSET d' b" if m: "(m, b) \<in> set did_bits" "m \<in> set vs" "entries (put_entry dup ov n v e) m \<noteq> []" for m b
  proof (cases "m = n")
    case False
    have "CHR ''='' \<notin> set m" using m(1) by (auto simp: did_bits_def)
    then have "entries e m \<noteq> []" using m(3) False entries_other [OF assms(2)] by simp
    then have "ISSET d b" using assms(1) m by (auto simp: covers_def)
    then show ?thesis by (rule assms(3))
  qed (use assms(4) m in auto)
  then show ?thesis unfolding covers_def by blast
qed

lemma covers_mono: "covers vs e d \<Longrightarrow> set ws \<subseteq> set vs \<Longrightarrow> covers ws e d"
  by (auto simp: covers_def)

lemma coversD: "covers vs e d \<Longrightarrow> (n, b) \<in> set did_bits \<Longrightarrow> n \<in> set vs \<Longrightarrow> \<not> ISSET d b \<Longrightarrow> entries e n = []"
  by (auto simp: covers_def)

text \<open>
  The invariant of the statements that put a variable without looking for it: \<open>vs\<close> are the
  variables whose bits are still exact, \<open>did\<close> the bits the statement was entered with.
\<close>

definition tracks :: "bool \<Rightarrow> string list \<Rightarrow> string list \<Rightarrow> 32 word option \<Rightarrow> string list \<Rightarrow> 32 word \<Rightarrow> string option \<Rightarrow> bool" where
  "tracks shell user vs did e d p \<longleftrightarrow>
     (\<forall>b. did = Some b \<longrightarrow> d = b) \<and> unique shell e \<and> covers vs e d \<and> ps1_from user p"

lemma tracks_did: "sat old (tracks L user vs did) s \<Longrightarrow> sat old (tracks L user vs (Some (fst (snd s)))) s"
  by (auto simp: sat_def tracks_def)

lemma tracks_mono:
  "sat old (tracks L user vs did) s \<Longrightarrow> set ws \<subseteq> set vs \<Longrightarrow> sat old (tracks L user ws did) s"
  by (erule sat_mono) (auto simp: tracks_def intro: covers_mono)

lemma tracks_forget: "sat old (tracks L user vs did) s \<Longrightarrow> sat old (tracks L user vs None) s"
  by (erule sat_mono) (auto simp: tracks_def)

lemma tracks_put:
  assumes "tracks L user vs did e d p" "var_name n"
    and "dup \<or> L \<and> n = ''SHELL'' \<or> (\<exists>b. (n, b) \<in> set did_bits \<and> n \<in> set vs \<and> did \<noteq> None \<and> \<not> ISSET (the did) b)"
  shows "tracks L user (removeAll n vs) did (put_entry dup ov n v e) d p"
proof -
  have u: "unique L e" "covers vs e d" using assms(1) by (simp_all add: tracks_def)
  have "dup \<or> entries e n = [] \<or> L \<and> n = ''SHELL''"
    using assms(1,3) coversD [OF u(2)] by (auto simp: tracks_def)
  then have "unique L (put_entry dup ov n v e)" by (rule unique_put [OF u(1) assms(2)])
  moreover have "covers (removeAll n vs) (put_entry dup ov n v e) d"
    by (rule covers_put [OF covers_mono [OF u(2)] assms(2)]) auto
  ultimately show ?thesis using assms(1) by (simp add: tracks_def)
qed

lemma wp_tracks:
  assumes "sat old (tracks L user vs did) s" "var_name n"
    and "b \<Longrightarrow> dup \<or> L \<and> n = ''SHELL'' \<or>
      (\<exists>b. (n, b) \<in> set did_bits \<and> n \<in> set vs \<and> did \<noteq> None \<and> \<not> ISSET (the did) b)"
  shows "yields (only_if b (check_setenv2 n v dup ov) s) (sat old (tracks L user (removeAll n vs) did))"
proof (cases b)
  case True
  have "yields (check_setenv2 n v dup ov s) (sat old (tracks L user (removeAll n vs) did))"
    by (rule wp_setenv2 [OF assms(2)], rule sat_mono [OF assms(1)], rule tracks_put [OF _ assms(2)])
      (use assms(3) True in auto)
  with True show ?thesis by simp
next
  case False
  then show ?thesis using tracks_mono [OF assms(1)] by simp
qed

lemmas wp_tracks_always = wp_tracks [where b = True, simplified]

definition all_did :: "string list" where
  "all_did = [''PATH'', ''TERM'', ''SHELL'', ''LOGNAME'', ''USER'', ''MAIL'']"

lemma did_bits_mem [simp]:
  "(''PATH'', b) \<in> set did_bits \<longleftrightarrow> b = DID_PATH" "(''TERM'', b) \<in> set did_bits \<longleftrightarrow> b = DID_TERM"
  "(''SHELL'', b) \<in> set did_bits \<longleftrightarrow> b = DID_SHELL" "(''LOGNAME'', b) \<in> set did_bits \<longleftrightarrow> b = DID_LOGNAME"
  "(''USER'', b) \<in> set did_bits \<longleftrightarrow> b = DID_USER" "(''MAIL'', b) \<in> set did_bits \<longleftrightarrow> b = DID_MAIL"
  by (auto simp: did_bits_def)

lemma wp_steps_tracks:
  assumes "yields (f s) (sat old (tracks L user vs did))"
    and "\<And>t. sat old (tracks L user vs did) t \<Longrightarrow> yields (run_steps fs t) (sat old Q)"
  shows "yields (run_steps (f # fs) s) (sat old Q)"
  using assms by (rule wp_steps_Cons)

lemma names_tracks:
  assumes "sat old (tracks False user all_did None) s"
    and L: "L = ISSET (env_mode ctx) MODE_LOGIN_SHELL"
  shows "yields (rebuild_names ctx df s)
    (sat old (tracks L user ([''PATH'', ''TERM'', ''MAIL''] @ (if L then [] else [''SHELL''])) None))"
proof -
  have s: "sat old (tracks L user all_did (Some (fst (snd s)))) s"
    using tracks_did [OF assms(1)] by (rule sat_mono) (auto simp: tracks_def unique_def)
  let ?d = "Some (fst (snd s))"
  show ?thesis
  proof (cases L)
    case True
    have "yields (run_steps
        [check_setenv2 ''SHELL'' (pw_shell (runas_pw (env_sudo ctx))) (ISSET (fst (snd s)) DID_SHELL) True,
         check_setenv2 ''LOGNAME'' (pw_name (runas_pw (env_sudo ctx))) (ISSET (fst (snd s)) DID_LOGNAME) True,
         check_setenv2 ''USER'' (pw_name (runas_pw (env_sudo ctx))) (ISSET (fst (snd s)) DID_USER) True] s)
       (sat old (tracks L user [''PATH'', ''TERM'', ''MAIL''] None))"
      by (rule wp_steps_tracks, rule wp_tracks_always [OF s], simp, simp add: True,
          rule wp_steps_tracks, rule wp_tracks_always, assumption, simp, simp add: all_did_def,
          rule wp_steps_tracks, rule wp_tracks_always, assumption, simp, simp add: all_did_def,
          rule wp_steps_Nil, rule tracks_mono [OF tracks_forget], assumption, simp add: all_did_def)
    then show ?thesis using True L unfolding rebuild_names_def with_did_def by simp
  next
    case False
    have "yields (run_steps
        [only_if (\<not> ISSET (fst (snd s)) DID_LOGNAME) (check_setenv2 ''LOGNAME'' (user_name (env_sudo ctx)) False True),
         only_if (\<not> ISSET (fst (snd s)) DID_USER) (check_setenv2 ''USER'' (user_name (env_sudo ctx)) False True)] s)
       (sat old (tracks L user [''PATH'', ''TERM'', ''MAIL'', ''SHELL''] None))"
      by (rule wp_steps_tracks, rule wp_tracks [OF s], simp, simp add: all_did_def,
          rule wp_steps_tracks, rule wp_tracks, assumption, simp, simp add: all_did_def,
          rule wp_steps_Nil, rule tracks_mono [OF tracks_forget], assumption, simp add: all_did_def)
    moreover have "sat old (tracks L user [''PATH'', ''TERM'', ''MAIL'', ''SHELL''] None) s"
      using tracks_mono [OF tracks_forget [OF s]] by (simp add: all_did_def)
    ultimately show ?thesis using False L unfolding rebuild_names_def with_did_def by simp
  qed
qed

lemma mail_tracks:
  assumes "sat old (tracks L user vs None) s" "''MAIL'' \<in> set vs"
  shows "yields (rebuild_mail es ctx s) (sat old (tracks L user (removeAll ''MAIL'' vs) None))"
proof -
  obtain m where m: "mail_entry es (pw_name (runas_pw (env_sudo ctx))) = ''MAIL'' @ CHR ''='' # m"
    using sudo_entry_names(2) by blast
  show ?thesis unfolding rebuild_mail_def with_did_def m check_putenv_setenv2
    by (rule yields_mono [OF wp_tracks [OF tracks_did [OF assms(1)]]])
      (use assms(2) in \<open>auto dest: tracks_forget\<close>)
qed

lemma defaults_tracks:
  assumes s: "sat old (tracks L user vs None) s" and vs: "{''PATH'', ''TERM''} \<subseteq> set vs" "\<not> L \<Longrightarrow> ''SHELL'' \<in> set vs"
  shows "yields (set_defaults es ctx s) (sat old (tracks L user [] None))"
proof -
  have t: "check_putenv ''TERM=unknown'' False False = check_setenv2 ''TERM'' ''unknown'' False False"
    using check_putenv_setenv2 [of "''TERM''" "''unknown''" False False] by simp
  show ?thesis unfolding set_defaults_def with_did_def t
    by (rule wp_steps_tracks, rule wp_tracks [OF tracks_did [OF s]], simp, use vs in force,
        rule wp_steps_tracks, rule wp_tracks, assumption, simp, use vs in force,
        rule wp_steps_tracks, rule wp_tracks, assumption, simp, use vs in force,
        rule wp_steps_Nil, rule tracks_mono [OF tracks_forget], assumption, simp)
qed

lemma overwritten_tracks:
  assumes "n \<in> overwritten" "set vs \<subseteq> {''PATH'', ''TERM'', ''SHELL''}"
  shows "preserves old (tracks L user vs None) (check_setenv2 n v True True)"
proof -
  have "removeAll n vs = vs" "var_name n"
    using assms by (auto simp: overwritten_def intro!: removeAll_id)
  then show ?thesis
    by (intro preserves_setenv2) (auto dest: tracks_put [where n = n and dup = True])
qed

lemma covers_set_path:
  assumes "covers (removeAll ''PATH'' vs) e d"
  shows "covers vs e (SET d DID_PATH)"
proof -
  have "ISSET (SET d DID_PATH) b" if n: "(n, b) \<in> set did_bits" "n \<in> set vs" "entries e n \<noteq> []" for n b
  proof (cases "n = ''PATH''")
    case True
    then show ?thesis using n(1) by (simp add: ISSET_SET_iff) (simp add: ISSET_def DID_PATH_def)
  next
    case False
    then have "ISSET d b" using assms n by (auto simp: covers_def)
    then show ?thesis by (simp add: ISSET_SET_iff)
  qed
  then show ?thesis unfolding covers_def by blast
qed

lemma path_tracks:
  assumes "sat old (tracks L user vs None) s" "set vs \<subseteq> {''PATH'', ''TERM'', ''SHELL''}"
  shows "yields (set_path sys sd ctx s) (sat old (tracks L user vs None))"
proof -
  have "yields (run_steps [check_setenv2 ''PATH'' p True True, set_did DID_PATH] s) (sat old (tracks L user vs None))" for p
  proof (rule wp_steps2 [where P = "tracks L user (removeAll ''PATH'' vs) None"])
    show "yields (check_setenv2 ''PATH'' p True True s) (sat old (tracks L user (removeAll ''PATH'' vs) None))"
      by (rule wp_tracks_always [OF assms(1)]) simp_all
  next
    fix t assume "sat old (tracks L user (removeAll ''PATH'' vs) None) t"
    then show "yields (set_did DID_PATH t) (sat old (tracks L user vs None))"
      by (rule_tac wp_set_did, erule_tac sat_mono) (simp add: tracks_def covers_set_path)
  qed
  then show ?thesis using assms(1) by (simp add: set_path_def split: option.split del: run_steps.simps)
qed

lemma rebuild_old_tracks:
  assumes "envp env = Some user" and L: "L = ISSET (env_mode ctx) MODE_LOGIN_SHELL"
  shows "yields (rebuild_old es df ctx (fresh_env env))
    (sat (Some user) (tracks L user ([''PATH'', ''TERM''] @ (if L then [] else [''SHELL''])) None))"
proof (cases "def_env_reset df \<or> ISSET (env_mode ctx) MODE_LOGIN_SHELL")
  case True
  show ?thesis
  proof (rule rebuild_old_sat [where I = "\<lambda>e. unique False e \<and> (L \<longrightarrow> e = [])" and Q = "tracks False user all_did None" and
        R = "tracks L user ([''PATH'', ''TERM'', ''MAIL''] @ (if L then [] else [''SHELL''])) None"], goal_cases)
    case (2 ov)
    then show ?case using L by (auto simp: absorbs_def intro: unique_put)
  next
    case (3 e)
    have "covers all_did e (fold env_update_didvar e 0)"
      using fold_update_did [where e = e and d = 0] by (auto simp: covers_def)
    then show ?case using 3 L by (auto simp: tracks_def ps1_from_def covers_def entries_def)
  next
    case (4 e d p n v)
    then show ?case using update_did_mono update_did_sets
      by (auto simp: tracks_def intro!: unique_put covers_put)
  next
    case (5 e d p q)
    then show ?case using ps1_from_drop by (simp add: tracks_def)
  next
    case (6 e d p)
    then show ?case by (auto simp: tracks_def covers_def ISSET_def bit.conj_disj_distrib2 or_eq_0_iff)
  next
    case (7 s)
    then show ?case by (rule names_tracks [OF _ L])
  next
    case (8 s)
    have r: "removeAll ''MAIL'' ([''PATH'', ''TERM'', ''MAIL''] @ (if L then [] else [''SHELL''])) =
        [''PATH'', ''TERM''] @ (if L then [] else [''SHELL''])" by simp
    show ?case using mail_tracks [OF 8] unfolding r by simp
  qed (use True assms(1) in \<open>simp_all add: unique_def entries_def\<close>)
next
  case False
  let ?Q = "tracks False user [''PATH'', ''TERM'', ''SHELL''] None"
  have "L = False" using False L by simp
  moreover have "yields (rebuild_old es df ctx (fresh_env env)) (sat (Some user) ?Q)"
  proof (rule rebuild_old_copy [OF False assms(1)], goal_cases)
    case (2 e d p n v)
    have "ISSET (copy_didvar (n @ CHR ''='' # v) d) b" if "ISSET d b" for b
      using that by (simp add: copy_didvar_def ISSET_SET_iff)
    moreover have "ISSET (copy_didvar (n @ CHR ''='' # v) d) b"
      if "n \<in> {''PATH'', ''TERM'', ''SHELL''}" "(n, b) \<in> set did_bits" for b
      using that 2(2) unfolding copy_didvar_named [OF 2(2)]
      by (elim insertE) (simp_all add: ISSET_SET_iff, simp_all add: ISSET_def did_defs)
    ultimately show ?case using 2 by (auto simp: tracks_def intro!: unique_put covers_put)
  next
    case (3 e d p q)
    then show ?case using ps1_from_drop by (simp add: tracks_def)
  qed (simp add: tracks_def unique_def covers_def entries_def ps1_from_def)
  ultimately show ?thesis by simp
qed

text \<open>
  C32. No variable is set twice in the environment \<open>rebuild_env\<close> makes, except SHELL in a login
  shell: the places that put a variable without looking for an old one only do so when it is not
  there.
\<close>

theorem rebuild_env_unique:
  assumes "envp env = Some user" "user_cmnd (env_sudo ctx) \<noteq> None"
  shows "yields (rebuild_env sys es sd df ctx env)
    (\<lambda>env'. \<exists>e. holds e env' \<and>
       (\<forall>n. var_name n \<and> \<not> (ISSET (env_mode ctx) MODE_LOGIN_SHELL \<and> n = ''SHELL'') \<longrightarrow>
            length (entries e n) \<le> 1))"
proof -
  define L where "L = ISSET (env_mode ctx) MODE_LOGIN_SHELL"
  define vs where "vs = [''PATH'', ''TERM''] @ (if L then [] else [''SHELL''])"
  have vs: "set vs \<subseteq> {''PATH'', ''TERM'', ''SHELL''}" "{''PATH'', ''TERM''} \<subseteq> set vs" "\<not> L \<Longrightarrow> ''SHELL'' \<in> set vs"
    by (auto simp: vs_def)
  let ?Q = "tracks L user vs None" and ?R = "tracks L user [] None"
  have "yields (run_steps (rebuild_rest sys es sd df ctx home) s) (sat (Some user) ?R)"
    if s: "sat (Some user) ?Q s" for s home
  proof -
    note putQ = overwritten_tracks [OF _ vs(1)] and putR = overwritten_tracks [where vs = "[]", simplified]
    have home: "preserves (Some user) ?Q
        (only_if home (check_setenv2 ''HOME'' (pw_dir (runas_pw (env_sudo ctx))) True True))"
      using putQ [of "''HOME''"] by (auto intro!: preserves_rules simp: overwritten_def)
    have ps1: "?R e d p \<Longrightarrow> ps1_from user p" for e d p by (simp add: tracks_def)
    have logname: "preserves (Some user) ?Q (set_logname df ctx)"
      by (rule set_logname_preserves) (rule putQ)
    have prompt: "preserves (Some user) ?R set_ps1"
      by (rule set_ps1_preserves [where user = user]) (rule putR ps1, assumption)+
    have sudo: "preserves (Some user) ?R (set_sudo_vars ctx)"
      by (rule set_sudo_vars_preserves [OF _ assms(2)]) (rule putR, simp)
    show ?thesis unfolding rebuild_rest_def
      by (rule wp_steps_tracks, rule path_tracks [OF s vs(1)],
          rule wp_steps_tracks, erule preservesD [OF logname],
          rule wp_steps_tracks, erule preservesD [OF home],
          rule wp_steps_tracks, erule defaults_tracks [OF _ vs(2)], erule vs(3),
          rule wp_steps_tracks, erule preservesD [OF prompt],
          rule wp_steps_tracks, erule preservesD [OF sudo],
          rule wp_steps_Nil, assumption)
  qed
  from rebuild_env_sat [where P = ?Q and Q = ?R, OF assms(1) rebuild_old_tracks [OF assms(1) L_def, folded vs_def] this]
  show ?thesis by (rule yields_mono) (auto simp: tracks_def unique_def L_def)
qed

section \<open>SHELL in a login shell\<close>

definition shell_is :: "string list \<Rightarrow> string list \<Rightarrow> string list \<Rightarrow> 32 word \<Rightarrow> string option \<Rightarrow> bool" where
  "shell_is user xs e d p \<longleftrightarrow> entries e ''SHELL'' = xs \<and> \<not> ISSET d DID_SHELL \<and> ps1_from user p"

lemma shell_other:
  assumes "var_name n" "n \<noteq> ''SHELL''"
  shows "preserves old (shell_is user xs) (check_setenv2 n v d ov)"
  using assms by (intro preserves_setenv2) (auto simp: shell_is_def entries_other)

lemma push_16_low: "\<not> ISSET (push_bit 16 d) DID_SHELL"
proof -
  have "and (push_bit 16 d) 8 = (0 :: 32 word)"
  proof -
    have "(8 :: 32 word) = push_bit 3 1" by simp
    then show ?thesis
      by (intro bit_word_eqI) (simp only: bit_and_iff bit_push_bit_iff bit_1_iff bit_0_eq bot_apply, auto)
  qed
  then show ?thesis by (simp add: ISSET_def DID_SHELL_def)
qed

lemma ISSET_or: "ISSET (or a b) c \<longleftrightarrow> ISSET a c \<or> ISSET b c"
  using ISSET_SET_iff [of a b c] by (simp add: SET_def)

lemma DID_SHELL_other:
  "\<not> ISSET DID_HOME DID_SHELL" "\<not> ISSET DID_LOGNAME DID_SHELL" "\<not> ISSET DID_MAIL DID_SHELL"
  "\<not> ISSET DID_PATH DID_SHELL" "\<not> ISSET DID_TERM DID_SHELL" "\<not> ISSET DID_USER DID_SHELL"
  by (simp_all add: ISSET_def did_defs)

lemma wp_shell:
  assumes "sat old (shell_is user xs) s"
  shows "yields (check_setenv2 ''SHELL'' v False ov s) (sat old (shell_is user (xs @ [''SHELL='' @ v])))"
  by (rule wp_setenv2, simp, rule sat_mono [OF assms]) (simp add: shell_is_def entries_put)

lemma fst_snd_shell: "sat old (shell_is user xs) s \<Longrightarrow> \<not> ISSET (fst (snd s)) DID_SHELL"
  by (auto simp: sat_def shell_is_def)

lemma login_old_shell:
  assumes env: "envp env = Some user" and login: "ISSET (env_mode ctx) MODE_LOGIN_SHELL"
    and kept: "\<And>x. x \<in> set user \<Longrightarrow> named ''SHELL'' x \<Longrightarrow> \<not> env_should_keep es df (env_mode ctx) x"
  shows "yields (rebuild_old es df ctx (fresh_env env))
    (sat (Some user) (shell_is user [''SHELL='' @ pw_shell (runas_pw (env_sudo ctx))]))"
proof (rule rebuild_old_sat [where I = "\<lambda>e. e = []" and Q = "shell_is user []" and
      R = "shell_is user [''SHELL='' @ pw_shell (runas_pw (env_sudo ctx))]"], goal_cases)
  case (4 e d p n v)
  have n: "n \<noteq> ''SHELL''"
  proof
    assume "n = ''SHELL''"
    with 4(4) kept [OF 4(3)] show False by (simp add: named_iff)
  qed
  then show ?case using 4 unfolding env_update_didvar_named [OF 4(2)] shell_is_def
    by (simp add: entries_other ISSET_SET_iff DID_SHELL_other)
next
  case (5 e d p q)
  then show ?case using ps1_from_drop by (simp add: shell_is_def)
next
  case (6 e d p)
  then show ?case using push_16_low by (simp add: shell_is_def ISSET_or)
next
  case (7 s)
  have "yields (run_steps
      [check_setenv2 ''SHELL'' (pw_shell (runas_pw (env_sudo ctx))) False True,
       check_setenv2 ''LOGNAME'' (pw_name (runas_pw (env_sudo ctx))) b1 True,
       check_setenv2 ''USER'' (pw_name (runas_pw (env_sudo ctx))) b2 True] s)
    (sat (Some user) (shell_is user [''SHELL='' @ pw_shell (runas_pw (env_sudo ctx))]))" for b1 b2
    by (rule wp_steps_Cons, rule wp_shell [OF 7], rule preservesD [OF preserves_steps])
      (auto intro!: shell_other)
  then show ?case using login fst_snd_shell [OF 7] unfolding rebuild_names_def with_did_def by simp
next
  case (8 s)
  obtain m where m: "mail_entry es (pw_name (runas_pw (env_sudo ctx))) = ''MAIL'' @ CHR ''='' # m"
    using sudo_entry_names(2) by blast
  show ?case unfolding rebuild_mail_def m check_putenv_setenv2
    by (rule preservesD [OF _ 8]) (auto intro!: preserves_rules shell_other)
qed (use env login in \<open>simp_all add: shell_is_def ps1_from_def ISSET_def entries_def\<close>)

text \<open>
  In a login shell whose user has no SHELL that is kept, SHELL is set twice in the environment
  of the command: \<open>rebuild_env\<close> sets it to the shell of the target user without recording that in
  \<open>didvar\<close>, and sets it again among the defaults without looking for it.
\<close>

theorem login_shell_sets_shell_twice:
  assumes "envp env = Some user" "user_cmnd (env_sudo ctx) \<noteq> None"
    and "ISSET (env_mode ctx) MODE_LOGIN_SHELL"
    and "\<And>x. x \<in> set user \<Longrightarrow> named ''SHELL'' x \<Longrightarrow> \<not> env_should_keep es df (env_mode ctx) x"
  shows "yields (rebuild_env sys es sd df ctx env)
    (\<lambda>env'. \<exists>e. holds e env' \<and> entries e ''SHELL'' =
       [''SHELL='' @ pw_shell (runas_pw (env_sudo ctx)), ''SHELL='' @ pw_shell (runas_pw (env_sudo ctx))])"
proof -
  define sh where "sh = ''SHELL='' @ pw_shell (runas_pw (env_sudo ctx))"
  let ?Q = "shell_is user [sh]" and ?R = "shell_is user [sh, sh]"
  have other: "preserves old (shell_is user xs) (check_setenv2 n v True True)" if "n \<in> overwritten" for old xs n v
    using that by (intro shell_other) (auto simp: overwritten_def)
  have ps1: "shell_is user xs e d p \<Longrightarrow> ps1_from user p" for xs e d p by (simp add: shell_is_def)
  have path: "preserves (Some user) ?Q (set_path sys sd ctx)"
    unfolding set_path_def
    by (auto split: option.split intro!: preserves_rules shell_other preserves_set_did
        simp: shell_is_def ISSET_SET_iff DID_SHELL_other)
  have logname: "preserves (Some user) ?Q (set_logname df ctx)"
    by (rule set_logname_preserves) (rule other)
  have home: "preserves (Some user) ?Q
      (only_if home (check_setenv2 ''HOME'' (pw_dir (runas_pw (env_sudo ctx))) True True))" for home
    by (auto intro!: preserves_rules shell_other)
  have t: "check_putenv ''TERM=unknown'' False False = check_setenv2 ''TERM'' ''unknown'' False False"
    using check_putenv_setenv2 [of "''TERM''" "''unknown''" False False] by simp
  have defaults: "yields (set_defaults es ctx s) (sat (Some user) ?R)" if s: "sat (Some user) ?Q s" for s
  proof -
    have "yields (run_steps
       [check_setenv2 ''SHELL'' (pw_shell (runas_pw (env_sudo ctx))) False False,
        only_if b1 (check_setenv2 ''TERM'' ''unknown'' False False),
        only_if b2 (check_setenv2 ''PATH'' (path_stdpath es) False True)] s) (sat (Some user) ?R)" for b1 b2
      by (rule wp_steps_Cons, rule wp_shell [OF s], rule preservesD [OF preserves_steps])
        (auto intro!: preserves_rules shell_other simp: sh_def)
    then show ?thesis using fst_snd_shell [OF s] unfolding set_defaults_def with_did_def t by simp
  qed
  have prompt: "preserves (Some user) ?R set_ps1"
    by (rule set_ps1_preserves [where user = user]) (rule other ps1, assumption)+
  have sudo: "preserves (Some user) ?R (set_sudo_vars ctx)"
    by (rule set_sudo_vars_preserves [OF _ assms(2)]) (rule other, simp)
  have "yields (run_steps (rebuild_rest sys es sd df ctx home) s) (sat (Some user) ?R)"
    if "sat (Some user) ?Q s" for s home
    unfolding rebuild_rest_def
    by (rule wp_steps_Cons, rule preservesD [OF path that], rule wp_steps_Cons, erule preservesD [OF logname],
        rule wp_steps_Cons, erule preservesD [OF home], rule wp_steps_Cons, erule defaults,
        rule wp_steps_Cons, erule preservesD [OF prompt], rule wp_steps_Cons, erule preservesD [OF sudo],
        rule wp_steps_Nil)
  from rebuild_env_sat [where P = ?Q and Q = ?R,
      OF assms(1) login_old_shell [OF assms(1,3,4), folded sh_def] this]
  show ?thesis by (rule yields_mono) (auto simp: shell_is_def sh_def)
qed

end
