(* ===== verification/EnvLists.thy ===== *)
theory EnvLists
  imports EnvVars
begin

text \<open>
  What env_check, env_keep and env_delete let through: the meaning of a pattern, of a safe TZ,
  of the names given on the command line, and the fate of bash functions.
\<close>

section \<open>Patterns\<close>

text \<open>A pattern as it is meant: \<open>*\<close> stands for any characters.\<close>

fun glob :: "string \<Rightarrow> string \<Rightarrow> bool" where
  "glob [] s \<longleftrightarrow> s = []"
| "glob (p # ps) s \<longleftrightarrow>
     (if p = CHR ''*'' then glob ps s \<or> (case s of [] \<Rightarrow> False | _ # t \<Rightarrow> glob (p # ps) t)
      else case s of [] \<Rightarrow> False | c # t \<Rightarrow> c = p \<and> glob ps t)"

lemma glob_star: "glob (CHR ''*'' # ps) (s @ t) \<longleftrightarrow> True" if "glob ps t"
  using that by (induction s) (cases t, simp_all)

lemma glob_stars: "glob (dropWhile (\<lambda>c. c = CHR ''*'') ps) t \<Longrightarrow> glob (CHR ''*'' # ps) (s @ t)"
proof (induction ps arbitrary: s)
  case (Cons p ps)
  show ?case
  proof (cases "p = CHR ''*''")
    case True
    then have "glob (p # ps) t" using Cons.IH [of "[]"] Cons.prems by simp
    then show ?thesis by (simp only: glob_star)
  next
    case False
    then show ?thesis using Cons.prems by (simp only: glob_star dropWhile.simps if_False)
  qed
qed (simp only: glob_star dropWhile.simps)

lemma glob_literal: "CHR ''*'' \<notin> set lit \<Longrightarrow> glob (lit @ ps) (lit @ s) = glob ps s"
  by (induction lit) auto

text \<open>
  The rest of a pattern matched from an index on: the loop has matched it against the variable
  up to the index it stops at, or it ends in \<open>*\<close>.
\<close>

lemma str_at_drop: "str_at s i = c \<Longrightarrow> c \<noteq> NUL \<Longrightarrow> i < length s \<and> drop i s = c # drop (Suc i) s"
  by (auto simp: str_at_def Cons_nth_drop_Suc split: if_splits)

lemma drop_take_Cons:
  assumes "drop l var = q # drop (Suc l) var" "l < e" "e \<le> length var"
  shows "drop l (take e var) = q # drop (Suc l) (take e var)"
proof -
  have "drop l (take e var) = take e var ! l # drop (Suc l) (take e var)"
    using Cons_nth_drop_Suc [of l "take e var"] assms(2,3) by simp
  moreover have "take e var ! l = q" using assms nth_via_drop [of l var] by simp
  ultimately show ?thesis by simp
qed

lemma env_wild_glob:
  assumes "env_wild var sp saw cp len = (m, r, len')" "m \<or> r = []" "NUL \<notin> set cp" "len \<le> length var"
  shows "len \<le> len' \<and> len' \<le> length var \<and>
    (\<forall>e. len' \<le> e \<longrightarrow> e \<le> length var \<longrightarrow> m \<or> e = len' \<longrightarrow> glob cp (drop len (take e var)))"
  using assms
proof (induction var sp saw cp len arbitrary: m r len' rule: env_wild.induct)
  case (1 var sp saw len)
  then show ?case by simp
next
  case (2 var sp saw p ps len)
  show ?case
  proof (cases "p = CHR ''*''")
    case star: True
    show ?thesis
    proof (cases "dropWhile (\<lambda>c. c = CHR ''*'') ps")
      case Nil
      have "(True, [], len) = (m, r, len')" using 2(3) unfolding env_wild.simps star Nil by (simp only: refl if_True list.case)
      then have r: "m" "len' = len" by simp_all
      have "glob (p # ps) (s @ [])" for s
        unfolding star by (rule glob_stars) (simp add: Nil)
      then show ?thesis using r 2(6) by simp
    next
      case (Cons q qs)
      define saw' where "saw' = (saw \<or> q = CHR ''='')"
      define l where "l = env_seek var sp saw' q len"
      have q: "q \<noteq> NUL" "NUL \<notin> set qs"
        using 2(5) Cons set_dropWhileD [of _ "\<lambda>c. c = CHR ''*''" ps] by (metis list.set_intros set_ConsD)+
      have "str_at var l = q" and w: "env_wild var sp saw' qs (l + 1) = (m, r, len')"
        using 2(3,4) star Cons by (auto simp: saw'_def l_def Let_def split: if_splits)
      have d: "l < length var" "drop l var = q # drop (Suc l) var"
        using str_at_drop [OF \<open>str_at var l = q\<close> q(1)] by auto
      have l: "len \<le> l" by (simp add: l_def env_seek_ge)
      have IH: "l + 1 \<le> len' \<and> len' \<le> length var \<and>
          (\<forall>e. len' \<le> e \<longrightarrow> e \<le> length var \<longrightarrow> m \<or> e = len' \<longrightarrow> glob qs (drop (l + 1) (take e var)))"
        using 2(1) [OF star Cons saw'_def l_def] \<open>str_at var l = q\<close> w 2(4) q(2) d(1) by auto
      moreover have "glob (p # ps) (drop len (take e var))" if e: "len' \<le> e" "e \<le> length var" "m \<or> e = len'" for e
      proof -
        have g: "glob qs (drop (l + 1) (take e var))" using IH e by blast
        have "drop l (take e var) = q # drop (l + 1) (take e var)"
          using drop_take_Cons [OF d(2)] IH e by simp
        moreover have "q \<noteq> CHR ''*''" using Cons by (simp add: dropWhile_eq_Cons_conv)
        ultimately have "glob (q # qs) (drop l (take e var))" using g by simp
        then have "glob (CHR ''*'' # ps) (take (l - len) (drop len (take e var)) @ drop l (take e var))"
          by (intro glob_stars) (simp add: Cons)
        moreover have "take (l - len) (drop len (take e var)) @ drop l (take e var) = drop len (take e var)"
          using append_take_drop_id [of "l - len" "drop len (take e var)"] l by simp
        ultimately show ?thesis by (simp only: star)
      qed
      ultimately show ?thesis using l by auto
    qed
  next
    case False
    have at: "str_at var len = p" and w: "env_wild var sp saw ps (len + 1) = (m, r, len')"
      using 2(3,4) False by (auto split: if_splits)
    have d: "len < length var" "drop len var = p # drop (Suc len) var"
      using str_at_drop [OF at] 2(5) by auto
    have IH: "len + 1 \<le> len' \<and> len' \<le> length var \<and>
        (\<forall>e. len' \<le> e \<longrightarrow> e \<le> length var \<longrightarrow> m \<or> e = len' \<longrightarrow> glob ps (drop (len + 1) (take e var)))"
      using 2(2) [OF False] at w 2(4,5) d(1) by auto
    moreover have "drop len (take e var) = p # drop (len + 1) (take e var)" if "len' \<le> e" "e \<le> length var" for e
      using drop_take_Cons [OF d(2)] IH that by simp
    ultimately show ?thesis using False by auto
  qed
qed

lemma env_wild_before_sep:
  assumes "env_wild var sp saw cp len = (m, r, len')" "m \<or> r = []" "NUL \<notin> set cp" "CHR ''='' \<notin> set cp"
    "len \<le> sp" "\<not> saw" "sp < length var \<longrightarrow> var ! sp = CHR ''=''" "sp \<le> length var"
  shows "len' \<le> sp"
  using assms
proof (induction var sp saw cp len arbitrary: m r len' rule: env_wild.induct)
  case (1 var sp saw len)
  then show ?case by simp
next
  case (2 var sp saw p ps len)
  have stop: "i + 1 \<le> sp" if "str_at var i = c" "c \<noteq> NUL" "c \<noteq> CHR ''=''" "i \<le> sp" for i c
    using that 2(9,10) by (cases "i = sp") (auto simp: str_at_def split: if_splits)
  show ?case
  proof (cases "p = CHR ''*''")
    case star: True
    show ?thesis
    proof (cases "dropWhile (\<lambda>c. c = CHR ''*'') ps")
      case Nil
      have "(True, [], len) = (m, r, len')" using 2(3) unfolding star env_wild.simps Nil by (simp only: refl if_True list.case)
      then show ?thesis using 2(7) by simp
    next
      case (Cons q qs)
      define saw' where "saw' = (saw \<or> q = CHR ''='')"
      define l where "l = env_seek var sp saw' q len"
      have q: "q \<noteq> NUL" "NUL \<notin> set qs" "q \<noteq> CHR ''=''" "CHR ''='' \<notin> set qs"
        using 2(5,6) Cons set_dropWhileD [of _ "\<lambda>c. c = CHR ''*''" ps] by (metis list.set_intros set_ConsD)+
      have "str_at var l = q" and w: "env_wild var sp saw' qs (l + 1) = (m, r, len')"
        using 2(3,4) star Cons by (auto simp: saw'_def l_def Let_def split: if_splits)
      have "\<not> saw'" using q 2(8) by (simp add: saw'_def)
      moreover have "l + 1 \<le> sp"
        using stop [OF \<open>str_at var l = q\<close> q(1,3)] env_seek_stop [OF \<open>\<not> saw'\<close> 2(7)] by (simp add: l_def)
      ultimately show ?thesis
        using 2(1) [OF star Cons saw'_def l_def] \<open>str_at var l = q\<close> w 2(4,9,10) q by auto
    qed
  next
    case False
    have at: "str_at var len = p" and w: "env_wild var sp saw ps (len + 1) = (m, r, len')"
      using 2(3,4) False by (auto split: if_splits)
    show ?thesis using 2(2) [OF False] at w 2(4-10) stop [OF at _ _ 2(7)] by auto
  qed
qed

lemma strcspn1_sep: "strcspn1 var c \<le> length var" "strcspn1 var c < length var \<longrightarrow> var ! strcspn1 var c = c"
  by (simp add: strcspn1_def length_takeWhile_le)
    (auto simp: strcspn1_def dest: nth_length_takeWhile)

lemma prefix_before_sep: "var = lit @ t \<Longrightarrow> CHR ''='' \<notin> set lit \<Longrightarrow> length lit \<le> strcspn1 var (CHR ''='')"
  by (induction lit arbitrary: var) (auto simp: strcspn1_def)

text \<open>
  What a pattern match means: the variable's name, or the whole \<open>name=value\<close>, has the shape of
  the pattern with \<open>*\<close> standing for any characters; and \<open>full_match\<close> is only reported when the
  whole of \<open>name=value\<close> has, by a pattern that contains an equal sign.
\<close>

theorem env_pattern_means:
  assumes "NUL \<notin> set pattern" "NUL \<notin> set var"
    and "matches_env_pattern pattern var False = (matched, full)"
  shows "(matched \<longrightarrow> glob pattern (takeWhile (\<lambda>c. c \<noteq> CHR ''='') var) \<or> glob pattern var) \<and>
    (full \<longrightarrow> glob pattern var \<and> CHR ''='' \<in> set pattern)"
proof (cases matched)
  case False
  then show ?thesis using assms(3) by (auto simp: matches_env_pattern_def Let_def split: prod.splits if_splits)
next
  case True
  define sp where "sp = strcspn1 var (CHR ''='')"
  define lit where "lit = takeWhile (\<lambda>c. c \<noteq> CHR ''*'') pattern"
  define cp where "cp = drop (length lit) pattern"
  have pat: "pattern = lit @ cp"
    unfolding cp_def lit_def dropWhile_eq_drop [symmetric] by (rule takeWhile_dropWhile_id [symmetric])
  have lit: "CHR ''*'' \<notin> set lit" unfolding lit_def by (auto dest: set_takeWhileD)
  have name: "takeWhile (\<lambda>c. c \<noteq> CHR ''='') var = take sp var"
    unfolding sp_def strcspn1_def by (rule takeWhile_eq_take)
  note sep = strcspn1_sep [of var "CHR ''=''", folded sp_def]
  have nul: "i = length var" if "str_at var i = NUL" "i \<le> length var" for i
  proof (rule ccontr)
    assume "i \<noteq> length var"
    then have "i < length var" using that(2) by simp
    moreover from this have "var ! i = NUL" using that(1) by (simp add: str_at_def)
    ultimately show False using assms(2) nth_mem [of i var] by simp
  qed
  have cmp: "strncmp_eq pattern var (length lit) = strncmp_eq lit var (length lit)"
    by (simp add: strncmp_eq_def pat)
  note M = matches_env_pattern_def [of pattern var False, unfolded Let_def lit_def [symmetric],
      folded cp_def sp_def, unfolded cmp]
  have "strncmp_eq lit var (length lit)" using assms(3) True unfolding M by (auto split: if_splits)
  then obtain t where var: "var = lit @ t" by (auto simp: strncmp_eq_prefix)
  have G: "glob pattern (take e var)" if "glob cp (drop (length lit) (take e var))" "length lit \<le> e" for e
    using that glob_literal [OF lit, of cp "drop (length lit) (take e var)"] by (simp add: pat var)
  have before: "length lit \<le> sp" if "CHR ''='' \<notin> set pattern"
    using prefix_before_sep [OF var] that by (simp add: pat sp_def)
  show ?thesis
  proof (cases "cp = []")
    case cp: True
    have fin: "length lit = sp \<or> str_at var (length lit) = NUL" and full: "full = (length lit > sp + 1)"
      using assms(3) True cp unfolding M by (auto split: if_splits)
    have "length lit = sp \<or> length lit = length var" using fin nul [of "length lit"] by (auto simp: var)
    then have "glob pattern (take sp var) \<or> glob pattern var" "full \<longrightarrow> glob pattern var"
      using G [of "length lit"] G [of "length var"] sep full by (auto simp: cp var)
    then show ?thesis using before full True unfolding name by (cases "CHR ''='' \<in> set pattern") auto
  next
    case cp: False
    obtain m r len where w: "env_wild var sp False cp (length lit) = (m, r, len)" by (metis prod_cases3)
    have fin: "m \<or> r = [] \<and> (len = sp \<or> str_at var len = NUL)" and full: "full = (len > sp + 1)"
      using assms(3) True cp w \<open>strncmp_eq lit var (length lit)\<close> unfolding M by (auto split: if_splits)
    have "NUL \<notin> set cp" using assms(1) by (simp add: pat)
    note W = env_wild_glob [OF w _ this] and S = env_wild_before_sep [OF w _ this _ _ _ sep(2,1)]
    have len: "length lit \<le> len" "len \<le> length var" using W fin by (auto simp: var)
    have "m \<or> len = sp \<or> len = length var" using fin nul [OF _ len(2)] by auto
    then have "glob pattern (take sp var) \<and> len = sp \<or> glob pattern var"
    proof -
      have gl: "glob pattern (take e var)" if "len \<le> e" "e \<le> length var" "m \<or> e = len" for e
        using W fin len that by (intro G) auto
      consider "m" | "len = sp" | "len = length var" using \<open>m \<or> len = sp \<or> len = length var\<close> by blast
      then show ?thesis using gl [of "length var"] gl [of sp] len sep(1) by cases auto
    qed
    moreover have "len \<le> sp" if "CHR ''='' \<notin> set pattern"
      using S [OF _ _ before [OF that]] fin that by (auto simp: pat)
    ultimately show ?thesis using full True unfolding name by (cases "CHR ''='' \<in> set pattern") auto
  qed
qed

lemma env_seek_first:
  "c \<notin> set a \<Longrightarrow> CHR ''='' \<notin> set a \<Longrightarrow> NUL \<notin> set a \<Longrightarrow> c \<noteq> NUL \<Longrightarrow> length a \<le> sp \<Longrightarrow> i \<le> length a \<Longrightarrow>
   env_seek (a @ c # t) sp saw c i = length a"
proof (induction "length a - i" arbitrary: i)
  case 0
  then have "i = length a" by simp
  moreover have "str_at (a @ c # t) (length a) = c" by (simp add: str_at_def nth_append)
  ultimately show ?case by (subst env_seek.simps) simp
next
  case (Suc n)
  have i: "i < length a" using Suc by simp
  then have "str_at (a @ c # t) i = a ! i" "a ! i \<in> set a" by (simp_all add: str_at_def nth_append)
  then have "str_at (a @ c # t) i \<noteq> NUL \<and> str_at (a @ c # t) i \<noteq> c" using Suc.prems by auto
  moreover have "env_seek (a @ c # t) sp saw c (i + 1) = length a" using Suc i by simp
  ultimately show ?case using i Suc.prems(5) by (subst env_seek.simps) simp
qed

text \<open>
  A \<open>*\<close> is matched by looking for the next character of the pattern only, without going back:
  a variable whose name has that character earlier, followed by something else, does not match
  the pattern although it has its shape. An env_delete pattern such as \<open>*_PATH\<close> lets
  \<open>LD_LIBRARY_PATH\<close> through.
\<close>

theorem star_takes_first:
  assumes "c \<notin> set a" "CHR ''='' \<notin> set a" "NUL \<notin> set a"
    and "c \<notin> {NUL, CHR ''*'', CHR ''=''}" "d \<notin> {NUL, CHR ''*''}" "x \<noteq> d"
  shows "fst (matches_env_pattern (CHR ''*'' # c # d # ps) (a @ c # x # t) full) = False"
proof -
  let ?v = "a @ c # x # t"
  have sp: "length a \<le> strcspn1 ?v (CHR ''='')"
    by (rule prefix_before_sep) (use assms(2) in auto)
  have seek: "env_seek ?v (strcspn1 ?v (CHR ''='')) False c 0 = length a"
    by (rule env_seek_first) (use assms sp in auto)
  have at: "str_at ?v (length a) = c" "str_at ?v (Suc (length a)) = x"
    by (simp_all add: str_at_def nth_append)
  have "env_wild ?v (strcspn1 ?v (CHR ''='')) False (CHR ''*'' # c # d # ps) 0 = (False, d # ps, length a + 1)"
    using assms(4,5,6) seek at by (simp add: Let_def)
  then show ?thesis by (simp add: matches_env_pattern_def Let_def strncmp_eq_def)
qed

theorem star_takes_first_witness:
  "fst (matches_env_pattern ''*_PATH'' ''LD_LIBRARY_PATH=/tmp'' False) = False \<and>
   glob ''*_PATH'' ''LD_LIBRARY_PATH''"
  using star_takes_first [of "CHR ''_''" "''LD''" "CHR ''P''" "CHR ''L''" "''ATH''" "''IBRARY_PATH=/tmp''" False]
  by simp

section \<open>Bash functions\<close>

lemma full_match_needs_equal:
  assumes "NUL \<notin> set pattern" "CHR ''='' \<notin> set pattern" "NUL \<notin> set var"
  shows "snd (matches_env_pattern pattern var False) = False"
  using env_pattern_means [OF assms(1,3)] assms(2) by (metis prod.collapse)

lemma env_list_var_full:
  "\<forall>p \<in> set ps. NUL \<notin> set p \<and> CHR ''='' \<notin> set p \<Longrightarrow> NUL \<notin> set var \<Longrightarrow> snd (env_list_var var ps False) = False"
proof (induction ps)
  case (Cons p ps)
  have "snd (matches_env_pattern p var False) = False"
    using Cons.prems by (intro full_match_needs_equal) auto
  then show ?case using Cons by (cases "matches_env_pattern p var False") auto
qed simp

lemma env_list_logname_full:
  "\<forall>p \<in> set ps. NUL \<notin> set p \<and> CHR ''='' \<notin> set p \<Longrightarrow> snd (env_list_logname ps False) = False"
proof (induction ps)
  case (Cons p ps)
  have "snd (matches_env_pattern p ''LOGNAME'' False) = False" "snd (matches_env_pattern p ''USER'' False) = False"
    using Cons.prems full_match_needs_equal [of p "''LOGNAME''"] full_match_needs_equal [of p "''USER''"] by simp_all
  then show ?case using Cons
    by (cases "matches_env_pattern p ''LOGNAME'' False"; cases "matches_env_pattern p ''USER'' False") auto
qed simp

lemma matches_env_list_full:
  "\<forall>p \<in> set ps. NUL \<notin> set p \<and> CHR ''='' \<notin> set p \<Longrightarrow> NUL \<notin> set var \<Longrightarrow>
   snd (matches_env_list var ps False) = False"
  by (simp add: matches_env_list_def env_list_var_full env_list_logname_full)

text \<open>
  C34. A bash function of the user (a value that begins with \<open>() \<close>) is never kept under env_reset
  when no pattern of env_check or env_keep contains an equal sign, as in the built-in tables.
\<close>

theorem bash_functions_not_kept:
  assumes "\<forall>p \<in> set (def_env_check df @ def_env_keep df). NUL \<notin> set p \<and> CHR ''='' \<notin> set p"
    and "CHR ''='' \<notin> set name" "NUL \<notin> set name" "NUL \<notin> set body"
  shows "\<not> env_should_keep es df mode (name @ ''=() '' @ body)"
proof -
  let ?v = "name @ ''=() '' @ body"
  have nul: "NUL \<notin> set ?v" using assms(3,4) by simp
  have check: "snd (matches_env_list ?v (def_env_check df) False) = False"
    and keep: "snd (matches_env_list ?v (def_env_keep df) False) = False"
    by (rule matches_env_list_full [OF _ nul]; use assms(1) in simp)+
  have "snd (matches_env_check es df ?v False) = False"
    using check by (auto simp: matches_env_check_def split: prod.splits)
  then obtain k where k: "matches_env_check es df ?v False = (k, False)" by (metis prod.collapse)
  have "snd (matches_env_keep df mode ?v False) = False"
    using keep by (auto simp: matches_env_keep_def)
  then obtain k' where k': "matches_env_keep df mode ?v False = (k', False)" by (metis prod.collapse)
  have "strchr ?v (CHR ''='') = Some (''=() '' @ body)" using assms(2) by (simp add: strchr_append)
  moreover have "strncmp_eq (''=() '' @ body) ''=() '' 4" by (simp add: strncmp_eq_def)
  ultimately show ?thesis unfolding env_should_keep_def k Let_def prod.case
    by (cases k) (simp_all only: option.case k' prod.case, simp_all)
qed

section \<open>Time zones\<close>

fun path_components :: "string \<Rightarrow> string list" where
  "path_components [] = [[]]"
| "path_components (c # cs) =
     (if c = CHR ''/'' then [] # path_components cs
      else (c # hd (path_components cs)) # tl (path_components cs))"

lemma path_components_nonempty [simp]: "path_components s \<noteq> []"
  by (cases s) auto

lemma components_dotdot:
  "NUL \<notin> set cs \<Longrightarrow> hd (path_components (CHR ''.'' # cs)) = ''..'' \<longleftrightarrow>
     c_at cs = CHR ''.'' \<and> (str_at cs 1 = CHR ''/'' \<or> str_at cs 1 = NUL)"
proof (cases cs)
  case (Cons c t)
  assume "NUL \<notin> set cs"
  then show ?thesis using Cons by (cases t) (auto simp: c_at_def str_at_def)
qed (simp add: c_at_def)

lemma tz_chars_components:
  "NUL \<notin> set cs \<Longrightarrow> tz_chars lc cs \<longleftrightarrow>
     (\<forall>c \<in> set cs. c_isprint c \<and> \<not> c_isspace c) \<and>
     ''..'' \<notin> set (if lc = CHR ''/'' then path_components cs else tl (path_components cs))"
proof (induction cs arbitrary: lc)
  case (Cons c cs)
  have nul: "NUL \<notin> set cs" using Cons.prems by simp
  obtain h t where ht: "path_components cs = h # t" by (cases "path_components cs") auto
  show ?case
  proof (cases "c = CHR ''.''")
    case True
    then show ?thesis
      using Cons.IH [OF nul, of c] components_dotdot [OF nul] ht by auto
  next
    case False
    then show ?thesis using Cons.IH [OF nul, of c] ht by auto
  qed
qed simp

text \<open>
  What \<open>tz_is_safe\<close> lets through: after one leading colon, an absolute path only below the
  time zone directory, no component \<open>..\<close>, printable characters without white space, and fewer of
  them than \<open>PATH_MAX\<close>.
\<close>

theorem tz_is_safe_iff:
  assumes "NUL \<notin> set tz"
  defines "v \<equiv> (if c_at tz = CHR '':'' then tl tz else tz)"
  shows "tz_is_safe es tz \<longleftrightarrow>
    (c_at v = CHR ''/'' \<longrightarrow> (\<exists>z r. path_zoneinfo es = Some z \<and> v = z @ ''/'' @ r)) \<and>
    ''..'' \<notin> set (path_components v) \<and>
    (\<forall>c \<in> set v. c_isprint c \<and> \<not> c_isspace c) \<and> length v < PATH_MAX"
proof -
  have nul: "NUL \<notin> set v" using assms(1) by (cases tz) (auto simp: v_def)
  have under: "strncmp_eq v z (length z) \<and> str_at v (length z) = CHR ''/'' \<longleftrightarrow> (\<exists>r. v = z @ ''/'' @ r)" for z
  proof
    assume a: "strncmp_eq v z (length z) \<and> str_at v (length z) = CHR ''/''"
    then obtain t where "v = z @ t" using strncmp_prefix [of v z] by auto
    with a show "\<exists>r. v = z @ ''/'' @ r" by (cases t) (auto simp: str_at_def)
  next
    assume "\<exists>r. v = z @ ''/'' @ r"
    then show "strncmp_eq v z (length z) \<and> str_at v (length z) = CHR ''/''"
      using strncmp_prefix [of v z] by (auto simp: str_at_def)
  qed
  show ?thesis
    using tz_chars_components [OF nul, of "CHR ''/''"] under
    by (auto simp: tz_is_safe_def v_def [symmetric] Let_def split: option.splits)
qed

section \<open>Variables on the command line\<close>

lemma errbuf_add_zero: "snd (errbuf_add e (b, p)) = 0 \<longleftrightarrow> p = 0 \<and> strcspn1 e (CHR ''='') = 0"
proof -
  have "min (length e) (strcspn1 e (CHR ''='')) = strcspn1 e (CHR ''='')"
    using strcspn1_sep(1) [of e "CHR ''=''"] by simp
  then show ?thesis by (auto simp: errbuf_add_def Let_def ERRBUF_def)
qed

lemma validate_loop_zero:
  "snd (validate_env_loop ok es b) = 0 \<longleftrightarrow>
     snd b = 0 \<and> (\<forall>e \<in> set es. ok e \<or> strcspn1 e (CHR ''='') = 0)"
proof (induction es arbitrary: b)
  case (Cons e es)
  then show ?case using errbuf_add_zero [of e "fst b" "snd b"] by auto
qed simp

lemma errbuf_add_bounds:
  assumes "length (fst b) < ERRBUF" "snd b = length (fst b) \<or> snd b = ERRBUF"
  shows "length (fst (errbuf_add e b)) < ERRBUF \<and>
    (snd (errbuf_add e b) = length (fst (errbuf_add e b)) \<or> snd (errbuf_add e b) = ERRBUF)"
  using assms by (cases b) (auto simp: errbuf_add_def Let_def ERRBUF_def)

lemma validate_verdict:
  "fst (validate_env_vars sys es sd df ctx (Some vars)) \<longleftrightarrow>
     (\<forall>e \<in> set vars. env_var_ok sys es sd df ctx e \<or> e = [] \<or> hd e = CHR ''='')"
proof -
  let ?b = "validate_env_loop (env_var_ok sys es sd df ctx) vars ([], 0)"
  have "strcspn1 e (CHR ''='') = 0 \<longleftrightarrow> e = [] \<or> hd e = CHR ''=''" for e
    by (cases e) (auto simp: strcspn1_def)
  then have "snd ?b = 0 \<longleftrightarrow> (\<forall>e \<in> set vars. env_var_ok sys es sd df ctx e \<or> e = [] \<or> hd e = CHR ''='')"
    by (simp add: validate_loop_zero)
  then show ?thesis by (cases ?b) (auto simp: validate_env_vars_def)
qed

text \<open>
  The names given on the command line are all accepted exactly when each is allowed by the
  policy or has an empty name: a string that starts with an equal sign, or is empty, is not
  allowed, but leaves nothing in the report that the verdict is taken from. The report stays
  within its 4096 bytes, with its terminating NUL.
\<close>

theorem validate_env_vars_verdict:
  "(fst (validate_env_vars sys es sd df ctx (Some vars)) \<longleftrightarrow>
     (\<forall>e \<in> set vars. env_var_ok sys es sd df ctx e \<or> e = [] \<or> hd e = CHR ''='')) \<and>
   (\<forall>r. snd (validate_env_vars sys es sd df ctx (Some vars)) = Some r \<longrightarrow> length r < 4096)"
proof -
  let ?b = "validate_env_loop (env_var_ok sys es sd df ctx) vars ([], 0)"
  have bounds: "length (fst b) < ERRBUF \<Longrightarrow> snd b = length (fst b) \<or> snd b = ERRBUF \<Longrightarrow>
      length (fst (validate_env_loop ok es b)) < ERRBUF" for ok es b
    by (induction es arbitrary: b) (use errbuf_add_bounds in auto)
  have "length (fst ?b) < 4096" using bounds [of "([], 0)"] by (simp add: ERRBUF_def)
  then show ?thesis
    unfolding validate_verdict by (cases ?b) (auto simp: validate_env_vars_def)
qed

end
