(* ===== verification/EnvTotal.thy ===== *)
theory EnvTotal
  imports EnvVars
begin

text \<open>
  When \<open>rebuild_env\<close> succeeds. Each statement is charged the entries it may add; \<open>room\<close> says that
  so many entries fit below the limit the code checks, and then only an entry that is kept but is
  not of the form \<open>name=value\<close> can make a statement fail.
\<close>

definition succeeds :: "'a run \<Rightarrow> ('a \<Rightarrow> bool) \<Rightarrow> bool" where
  "succeeds r Q \<longleftrightarrow> (\<exists>a. r = Done a \<and> Q a)"

lemma succeeds_Done [simp]: "succeeds (Done a) Q = Q a"
  by (simp add: succeeds_def)

lemma succeeds_bind: "succeeds r P \<Longrightarrow> (\<And>a. P a \<Longrightarrow> succeeds (f a) Q) \<Longrightarrow> succeeds (run_bind r f g) Q"
  by (auto simp: succeeds_def)

lemma succeeds_mono: "succeeds r P \<Longrightarrow> (\<And>a. P a \<Longrightarrow> Q a) \<Longrightarrow> succeeds r Q"
  by (auto simp: succeeds_def)

definition roomy :: "string list option \<Rightarrow> nat \<Rightarrow> environment \<Rightarrow> bool" where
  "roomy old k env \<longleftrightarrow> (\<exists>es. holds es env) \<and> old_envp env = old \<and> room k env"

lemma roomy_mono: "roomy old k env \<Longrightarrow> j \<le> k \<Longrightarrow> roomy old j env"
  by (auto simp: roomy_def room_def)

lemma putenv_roomy:
  assumes "roomy old (Suc k) env" "var_name n"
  shows "succeeds (sudo_putenv (n @ CHR ''='' # v) d ov env) (roomy old k)"
proof -
  obtain es where es: "holds es env" using assms(1) by (auto simp: roomy_def)
  have "room 1 env" using assms(1) by (auto simp: roomy_def room_def)
  then show ?thesis using putenv_cases [OF es assms(2), of v d ov] assms(1)
    by (auto simp: succeeds_def roomy_def room_def)
qed

lemma putenv_roomy_keeps:
  assumes "roomy old (Suc k) env"
  shows "keeps (sudo_putenv str d ov env) (roomy old k)"
proof (cases "\<exists>n v. var_name n \<and> str = n @ CHR ''='' # v")
  case True
  then obtain n v where n: "var_name n" "str = n @ CHR ''='' # v" by blast
  from putenv_roomy [OF assms n(1), of v d ov] obtain a where
    "sudo_putenv str d ov env = Done a" "roomy old k a" by (auto simp: succeeds_def n(2))
  then show ?thesis by simp
next
  case False
  then show ?thesis using roomy_mono [OF assms] by (simp add: putenv_other)
qed

section \<open>What the system adds\<close>

definition never_fails :: "'a run \<Rightarrow> bool" where
  "never_fails r \<longleftrightarrow> (\<forall>a. r \<noteq> Failed a)"

lemma keeps_succeeds: "keeps r Q \<Longrightarrow> never_fails r \<Longrightarrow> succeeds r Q"
  by (cases r) (auto simp: never_fails_def succeeds_def)

lemma never_fails_bind: "never_fails r \<Longrightarrow> (\<And>a. never_fails (f a)) \<Longrightarrow> never_fails (run_bind r f g)"
  by (cases r) (auto simp: never_fails_def)

lemma never_fails_ignore: "never_fails (run_ignore r)"
  by (cases r) (auto simp: never_fails_def run_ignore_def)

lemma never_fails_Done: "never_fails (Done a)"
  by (simp add: never_fails_def)

lemma class_env_never_fails: "never_fails (class_env vs env)"
proof (induction vs env rule: class_env.induct)
  case (2 name val overwrite vs env)
  have "never_fails (sudoers_hook_setenv False (Some name) (Some val) overwrite env)"
    by (auto simp: sudoers_hook_setenv_def hook_run_def intro!: never_fails_bind never_fails_ignore never_fails_Done)
  then show ?case using 2 by (auto intro!: never_fails_bind)
qed (simp add: never_fails_Done)

lemma system_env_never_fails:
  "never_fails (run_bind (login_class_env es ctx env) (system_env_file es df ctx) g)"
  by (auto simp: login_class_env_def system_env_file_def split: option.split
      intro!: never_fails_bind never_fails_ignore never_fails_Done class_env_never_fails)

lemma class_env_roomy: "roomy old (length vs + k) env \<Longrightarrow> keeps (class_env vs env) (roomy old k)"
proof (induction vs env rule: class_env.induct)
  case (2 name val overwrite vs env)
  have r: "roomy old (Suc (length vs + k)) env" using 2(2) by simp
  have "keeps (sudo_setenv_nodebug (Some name) (Some val) overwrite env) (roomy old (length vs + k))"
    using putenv_roomy_keeps [OF r] roomy_mono [OF r]
    by (auto simp: sudo_setenv_nodebug_def sudo_putenv_def)
  then have "keeps (sudoers_hook_setenv False (Some name) (Some val) overwrite env)
      (\<lambda>(r, env). roomy old (length vs + k) env)"
    using roomy_mono [OF r] by (auto simp: sudoers_hook_setenv_def hook_run_def intro!: keeps_bind)
  then show ?case unfolding class_env.simps
    by (rule keeps_bind) (auto intro: roomy_mono 2(1))
qed simp

lemma read_env_loop_roomy:
  "roomy old (length (case cookie of ENOENT_file \<Rightarrow> [] | Env_file fp \<Rightarrow> stream_vars fp) + k) env \<Longrightarrow>
   keeps (read_env_loop es df mode ov re cookie env) (roomy old k)"
proof (induction es df mode ov re cookie env rule: read_env_loop.induct)
  case (1 es df mode ov re cookie env)
  obtain v err c where n: "env_file_next_local cookie = (v, err, c)" by (metis prod_cases3)
  show ?case
  proof (cases v)
    case None
    then show ?thesis using roomy_mono [OF 1(3)] n by (simp add: read_env_loop.simps [of _ _ _ _ _ cookie])
  next
    case (Some x)
    obtain fp fp' where c: "cookie = Env_file fp" "c = Env_file fp'" "env_file_next fp = (Some x, err, fp')"
      using n Some by (auto simp: env_file_next_local_def split: env_file.splits prod.splits)
    have "stream_vars fp = x # stream_vars fp'" using c(3) by (subst stream_vars.simps) simp
    then have r: "roomy old (Suc (length (case c of ENOENT_file \<Rightarrow> [] | Env_file fp \<Rightarrow> stream_vars fp) + k)) env"
      using 1(3) by (simp add: c)
    show ?thesis
    proof (cases "re \<and> (if def_env_reset df then \<not> env_should_keep es df mode x else env_should_delete es df x)")
      case True
      from 1(1) [OF n [symmetric] Some refl True roomy_mono [OF r]] show ?thesis
        unfolding read_env_loop.simps [of es df mode ov re cookie env] n Some prod.case option.case if_P [OF True] by simp
    next
      case False
      show ?thesis
        unfolding read_env_loop.simps [of es df mode ov re cookie env] n Some prod.case option.case if_not_P [OF False]
        by (rule keeps_bind [OF putenv_roomy_keeps [OF r]])
          (simp_all add: roomy_mono 1(2) [OF n [symmetric] Some refl False])
    qed
  qed
qed

section \<open>Statements\<close>

definition fits :: "string list \<Rightarrow> nat \<Rightarrow> rebuild_state \<Rightarrow> bool" where
  "fits user k s \<longleftrightarrow> (case s of (env, did, p) \<Rightarrow> roomy (Some user) k env \<and> ps1_from user p)"

definition adds :: "string list \<Rightarrow> nat \<Rightarrow> (rebuild_state \<Rightarrow> rebuild_state run) \<Rightarrow> bool" where
  \<comment> \<open>the statement succeeds and adds at most \<open>n\<close> entries\<close>
  "adds user n f \<longleftrightarrow> (\<forall>k s. fits user (n + k) s \<longrightarrow> succeeds (f s) (fits user k))"

lemma fits_mono: "fits user k s \<Longrightarrow> j \<le> k \<Longrightarrow> fits user j s"
  by (auto simp: fits_def intro: roomy_mono)

lemma addsD: "adds user n f \<Longrightarrow> fits user (n + k) s \<Longrightarrow> succeeds (f s) (fits user k)"
  unfolding adds_def by blast

lemma adds_setenv2: "var_name n \<Longrightarrow> adds user 1 (check_setenv2 n v d ov)"
  unfolding adds_def check_setenv2_def on_env_def sudo_setenv2_def
  using putenv_roomy [of "Some user" _ _ n v d ov]
  by (auto simp: fits_def intro!: succeeds_bind)

lemma adds_Done: "adds user n Done"
  by (auto simp: adds_def intro: fits_mono)

lemma adds_if: "adds user n f \<Longrightarrow> adds user n (only_if b f)"
  using adds_Done by simp

lemma adds_mono: "adds user n f \<Longrightarrow> n \<le> m \<Longrightarrow> adds user m f"
  unfolding adds_def by (metis fits_mono add_le_mono1)

lemma adds_steps_Nil: "adds user 0 (run_steps [])"
  by (simp add: adds_def)

lemma adds_steps_Cons: "adds user n f \<Longrightarrow> adds user m (run_steps fs) \<Longrightarrow> adds user (n + m) (run_steps (f # fs))"
  unfolding adds_def by (auto simp: add.assoc intro!: succeeds_bind)

lemma adds_with_did: "(\<And>did. adds user n (f did)) \<Longrightarrow> adds user n (with_did f)"
  by (simp add: adds_def with_did_def)

lemma adds_set_did: "adds user 0 (set_did f)"
  by (auto simp: adds_def set_did_def fits_def)

lemma adds_kept_bits: "adds user 0 kept_bits"
  by (auto simp: adds_def kept_bits_def fits_def)

lemmas adds_two = adds_steps_Cons [OF _ adds_steps_Cons [OF _ adds_steps_Nil]]

lemma adds_names: "adds user 3 (rebuild_names ctx df)"
proof -
  have "adds user 3 (run_steps [check_setenv2 ''SHELL'' a b1 True, check_setenv2 ''LOGNAME'' b b2 True,
      check_setenv2 ''USER'' c b3 True])" for a b c b1 b2 b3
    using adds_steps_Cons [OF adds_setenv2 adds_two [OF adds_setenv2 adds_setenv2]] by (simp add: numeral_3_eq_3)
  moreover have "adds user 3 (run_steps [only_if b1 (check_setenv2 ''LOGNAME'' a False True),
      only_if b2 (check_setenv2 ''USER'' b False True)])" for a b b1 b2
    by (rule adds_mono [OF adds_two [OF adds_if adds_if]], rule adds_setenv2, simp, rule adds_setenv2, simp_all)
  ultimately show ?thesis unfolding rebuild_names_def
    by (intro adds_with_did) (simp add: adds_Done del: run_steps.simps)
qed

lemma adds_mail: "adds user 1 (rebuild_mail es ctx)"
proof -
  obtain m where m: "mail_entry es (pw_name (runas_pw (env_sudo ctx))) = ''MAIL'' @ CHR ''='' # m"
    using sudo_entry_names(2) by blast
  show ?thesis unfolding rebuild_mail_def m check_putenv_setenv2
    by (intro adds_with_did adds_if adds_setenv2) simp
qed

lemma adds_path: "adds user 1 (set_path sys sd ctx)"
  unfolding set_path_def
  using adds_two [OF adds_setenv2 [of "''PATH''"] adds_set_did] adds_Done
  by (auto simp del: run_steps.simps split: option.split)

lemma adds_logname: "adds user 2 (set_logname df ctx)"
proof (unfold adds_def, intro allI impI)
  fix k s assume f: "fits user (2 + k) s"
  obtain env did p where s: "s = (env, did, p)" by (metis prod_cases3)
  have "adds user 2 (run_steps [only_if b1 (check_setenv2 ''LOGNAME'' a True True),
      only_if b2 (check_setenv2 ''USER'' b True True)])" for a b b1 b2
    by (rule adds_mono [OF adds_two [OF adds_if adds_if]], rule adds_setenv2, simp, rule adds_setenv2, simp_all)
  note two = addsD [OF this f]
  have stay: "succeeds (Done s) (fits user k)" using fits_mono [OF f, of k] by simp
  have first: "succeeds (run_steps [check_setenv2 ''LOGNAME'' a True True, check_setenv2 ''USER'' b True True] s)
      (fits user k)" for a b
    using two [of True a True b] by simp
  have opt: "succeeds (case w of Some cp \<Rightarrow> run_steps
      [only_if b1 (check_setenv2 ''LOGNAME'' cp True True), only_if b2 (check_setenv2 ''USER'' cp True True)] s
    | None \<Rightarrow> Done s) (fits user k)" for w b1 b2
    by (cases w) (simp_all only: option.case two stay)
  have if_rule: "succeeds a Q \<Longrightarrow> succeeds b Q \<Longrightarrow> succeeds (if c then a else b) Q" for a b c and Q :: "rebuild_state \<Rightarrow> bool"
    by simp
  show "succeeds (set_logname df ctx s) (fits user k)"
    unfolding set_logname_def s Let_def prod.case
    by (intro if_rule first [unfolded s] opt [unfolded s] stay [unfolded s])
qed

lemma adds_defaults: "adds user 3 (set_defaults es ctx)"
proof -
  have t: "check_putenv ''TERM=unknown'' False False = check_setenv2 ''TERM'' ''unknown'' False False"
    using check_putenv_setenv2 [of "''TERM''" "''unknown''" False False] by simp
  show ?thesis unfolding set_defaults_def t
    by (rule adds_mono [OF adds_with_did [OF adds_steps_Cons [OF adds_if adds_two [OF adds_if adds_if]]]],
        (rule adds_setenv2, simp)+) simp
qed

lemma adds_ps1: "adds user 1 set_ps1"
proof (unfold adds_def, intro allI impI)
  fix k s assume f: "fits user (1 + k) s"
  obtain env did ps1 where s: "s = (env, did, ps1)" by (metis prod_cases3)
  show "succeeds (set_ps1 s) (fits user k)"
  proof (cases ps1)
    case None
    then show ?thesis using fits_mono [OF f, of k] by (simp add: set_ps1_def s)
  next
    case (Some p)
    then obtain v where v: "p = ''PS1'' @ CHR ''='' # v"
      using f by (force simp: fits_def s ps1_from_def named_iff)
    have "adds user 1 (check_putenv p True True)"
      unfolding v check_putenv_setenv2 by (rule adds_setenv2) simp
    from addsD [OF this f] show ?thesis by (simp add: set_ps1_def s Some)
  qed
qed

lemma adds_sudo_vars:
  assumes "user_cmnd (env_sudo ctx) \<noteq> None"
  shows "adds user 6 (set_sudo_vars ctx)"
proof -
  obtain cmd where c: "sudo_command_entry (env_sudo ctx) = Some cmd"
    using assms by (auto simp: sudo_command_entry_def)
  then obtain v where v: "cmd = ''SUDO_COMMAND'' @ CHR ''='' # v" using sudo_entry_names(1) by blast
  have tty: "adds user 1 (case user_ttypath ctx of Some tty \<Rightarrow> check_setenv2 ''SUDO_TTY'' tty True True | None \<Rightarrow> Done)"
    by (auto split: option.split intro: adds_Done adds_setenv2 [unfolded One_nat_def])
  show ?thesis unfolding set_sudo_vars_def Let_def c option.case v check_putenv_setenv2
    by (rule adds_mono [OF adds_steps_Cons [OF _ adds_steps_Cons [OF _ adds_steps_Cons [OF _ adds_steps_Cons [OF _
          adds_two [OF _ tty]]]]]], (rule adds_setenv2, simp)+) simp
qed

section \<open>The loops, and the whole\<close>

definition is_setting :: "string \<Rightarrow> bool" where
  \<comment> \<open>of the form \<open>name=value\<close>, the name not empty\<close>
  "is_setting e \<longleftrightarrow> (case strchr e (CHR ''='') of None \<Rightarrow> False | Some eq \<Rightarrow> eq \<noteq> e)"

lemma is_setting_iff: "is_setting e \<longleftrightarrow> (\<exists>n v. var_name n \<and> e = n @ CHR ''='' # v)"
  unfolding is_setting_def by (rule putenv_split)

lemma setting_roomy:
  "roomy old (Suc k) env \<Longrightarrow> is_setting x \<Longrightarrow> succeeds (sudo_putenv x d ov env) (roomy old k)"
  by (auto simp: is_setting_iff intro: putenv_roomy)

lemma loop_succeeds:
  assumes "roomy (Some user) (Suc (j + k)) env" "is_setting x" "ps1_from user p"
    and "\<And>t. fits user (j + k) t \<Longrightarrow> succeeds (f t) (fits user k)"
  shows "succeeds (run_bind (sudo_putenv x True False env) (\<lambda>env. f (env, did, p)) g) (fits user k)"
  by (rule succeeds_bind [OF setting_roomy [OF assms(1,2)]]) (use assms(3,4) in \<open>simp add: fits_def\<close>)

lemma keep_succeeds:
  "fits user (length eps + k) s \<Longrightarrow> set eps \<subseteq> set user \<Longrightarrow>
   (\<And>x. x \<in> set eps \<Longrightarrow> env_should_keep es df mode x \<Longrightarrow> is_setting x) \<Longrightarrow>
   succeeds (rebuild_keep es df mode eps s) (fits user k)"
proof (induction eps arbitrary: s)
  case (Cons x eps)
  obtain env did ps1 where s: "s = (env, did, ps1)" by (metis prod_cases3)
  define ps2 where "ps2 = (if strncmp_eq x ''SUDO_PS1='' 9 then Some (drop 5 x) else ps1)"
  have p: "ps1_from user ps2" "roomy (Some user) (Suc (length eps + k)) env"
    using Cons.prems(1,2) ps1_from_drop [of x user] by (auto simp: fits_def s ps2_def)
  have IH: "fits user (length eps + k) t \<Longrightarrow> succeeds (rebuild_keep es df mode eps t) (fits user k)" for t
    using Cons.prems(2,3) by (intro Cons.IH) auto
  show ?case
  proof (cases "env_should_keep es df mode x")
    case True
    have "is_setting x" using True Cons.prems(3) by simp
    from loop_succeeds [OF p(2) this p(1) IH, where did = "env_update_didvar x did" and g = "\<lambda>env. (env, did, ps2)"] True
    show ?thesis by (simp add: s ps2_def [symmetric])
  next
    case False
    have "fits user (length eps + k) (env, did, ps2)"
      using p roomy_mono [OF p(2)] by (simp add: fits_def)
    with False show ?thesis by (simp add: s ps2_def [symmetric] IH)
  qed
qed simp

lemma copy_succeeds:
  "fits user (length eps + k) s \<Longrightarrow> set eps \<subseteq> set user \<Longrightarrow>
   (\<And>x. x \<in> set eps \<Longrightarrow> \<not> env_should_delete es df x \<Longrightarrow> is_setting x) \<Longrightarrow>
   succeeds (rebuild_copy es df eps s) (fits user k)"
proof (induction eps arbitrary: s)
  case (Cons x eps)
  obtain env did ps1 where s: "s = (env, did, ps1)" by (metis prod_cases3)
  define ps2 where "ps2 = (if strncmp_eq x ''SUDO_PS1='' 9 then Some (drop 5 x) else ps1)"
  have p: "ps1_from user ps1" "ps1_from user ps2" "roomy (Some user) (Suc (length eps + k)) env"
    using Cons.prems(1,2) ps1_from_drop [of x user] by (auto simp: fits_def s ps2_def)
  have IH: "fits user (length eps + k) t \<Longrightarrow> succeeds (rebuild_copy es df eps t) (fits user k)" for t
    using Cons.prems(2,3) by (intro Cons.IH) auto
  show ?case
  proof (cases "env_should_delete es df x")
    case False
    have "is_setting x" using False Cons.prems(3) by simp
    note step = loop_succeeds [OF p(3) this p(2) IH, where did = "copy_didvar x did" and g = "\<lambda>env. (env, copy_didvar x did, ps2)"]
    show ?thesis unfolding s rebuild_copy.simps if_not_P [OF False] Let_def
        copy_didvar_def [symmetric] ps2_def [symmetric] by (rule step)
  next
    case True
    have "fits user (length eps + k) s" using p(1) roomy_mono [OF p(3)] by (simp add: fits_def s)
    with True show ?thesis by (simp add: s IH)
  qed
qed simp

lemma fresh_succeeds:
  assumes "roomy (Some user) (length (system_vars es ctx) + k) env"
  shows "succeeds (rebuild_fresh es df ctx env) (fits user k)"
proof (cases "ISSET (env_mode ctx) MODE_LOGIN_SHELL")
  case True
  then show ?thesis using roomy_mono [OF assms, of k] by (simp add: rebuild_fresh_def fits_def ps1_from_def)
next
  case False
  let ?n = "length (case path_environment es of None \<Rightarrow> [] | Some p \<Rightarrow> env_file_vars es p)"
  have lclass: "keeps (login_class_env es ctx env) (roomy (Some user) (?n + k))"
    using assms roomy_mono [OF assms, of "?n + k"]
    by (auto simp: login_class_env_def system_vars_def class_vars_def add.assoc split: option.splits
        intro!: class_env_roomy)
  have sysfile: "keeps (system_env_file es df ctx e) (roomy (Some user) k)" if "roomy (Some user) (?n + k) e" for e
    using that roomy_mono [OF that, of k]
    by (auto simp: system_env_file_def read_env_file_def env_file_vars_def split: option.splits
        intro!: read_env_loop_roomy split: env_file.splits)
  have "keeps (run_bind (login_class_env es ctx env) (system_env_file es df ctx) id) (roomy (Some user) k)"
    by (rule keeps_bind [OF lclass]) (auto intro: roomy_mono sysfile)
  from keeps_succeeds [OF this system_env_never_fails] show ?thesis
    unfolding rebuild_fresh_def if_not_P [OF False]
    by (rule succeeds_bind) (simp add: fits_def ps1_from_def)
qed

text \<open>
  C30. Rebuilding the environment succeeds whenever the entries of the user it takes over are of
  the form \<open>name=value\<close> and the environment is far from the largest array (2 to the 61st
  entries): in particular no fault is possible, and the login class and the environment file
  cannot make it fail.
\<close>

theorem rebuild_env_succeeds:
  assumes env: "envp env = Some user" and cmnd: "user_cmnd (env_sudo ctx) \<noteq> None"
    and settings: "\<And>x. x \<in> set user \<Longrightarrow>
      (if def_env_reset df \<or> ISSET (env_mode ctx) MODE_LOGIN_SHELL then env_should_keep es df (env_mode ctx) x
       else \<not> env_should_delete es df x) \<Longrightarrow> is_setting x"
    and size: "length user + length (system_vars es ctx) \<le> 2 ^ 50"
  shows "\<exists>env'. rebuild_env sys es sd df ctx env = Done env'"
proof -
  have room: "roomy (Some user) (length (system_vars es ctx) + (length user + (4 + 14))) (fresh_env env)"
    using fresh_holds [of env] env size by (auto simp: roomy_def room_def fresh_env_def SIZE_MAX_def)
  have ou: "old_entries (fst s) = user" if "fits user k s" for s k
    using that by (auto simp: fits_def roomy_def old_entries_def)
  have old: "succeeds (rebuild_old es df ctx (fresh_env env)) (fits user 14)"
  proof (cases "def_env_reset df \<or> ISSET (env_mode ctx) MODE_LOGIN_SHELL")
    case True
    have keep: "succeeds (rebuild_keep es df (env_mode ctx) (old_entries (fst s)) s) (fits user (4 + 14))"
      if f: "fits user (length user + (4 + 14)) s" for s
      unfolding ou [OF f] by (rule keep_succeeds [OF f]) (use settings True in auto)
    have "adds user 4 (run_steps [kept_bits, rebuild_names ctx df, rebuild_mail es ctx])"
      by (rule adds_mono [OF adds_steps_Cons [OF adds_kept_bits adds_two [OF adds_names adds_mail]]]) simp
    note rest = addsD [OF this]
    show ?thesis unfolding rebuild_old_def if_P [OF True]
      by (rule succeeds_bind [OF fresh_succeeds [OF room]], unfold run_steps.simps(2) [of _ "kept_bits # _"],
          rule succeeds_bind [OF keep rest])
  next
    case False
    have f: "fits user (length user + (4 + 14)) (fresh_env env, 0, None)"
      using roomy_mono [OF room] by (simp add: fits_def ps1_from_def)
    have "succeeds (rebuild_copy es df user (fresh_env env, 0, None)) (fits user (4 + 14))"
      by (rule copy_succeeds [OF f]) (use settings False in auto)
    then show ?thesis using ou [OF f] unfolding rebuild_old_def if_not_P [OF False]
      by (auto elim!: succeeds_mono intro: fits_mono)
  qed
  have "adds user 14 (run_steps (rebuild_rest sys es sd df ctx home))" for home
    unfolding rebuild_rest_def
    by (rule adds_mono [OF adds_steps_Cons [OF adds_path adds_steps_Cons [OF adds_logname adds_steps_Cons
          [OF adds_if [OF adds_setenv2 [of "''HOME''"]] adds_steps_Cons [OF adds_defaults adds_two [OF adds_ps1
          adds_sudo_vars [OF cmnd]]]]]]]) simp_all
  note rest = addsD [OF this, where k = 0]
  have "succeeds (rebuild_env sys es sd df ctx env) (\<lambda>_. True)"
    unfolding rebuild_env_def Let_def fresh_env_def [symmetric] rebuild_rest_def [symmetric]
    by (rule succeeds_bind, rule succeeds_bind [OF old], rule rest) (auto simp: succeeds_def)
  then show ?thesis by (auto simp: succeeds_def)
qed

end
