(* ===== verification/EnvFile.thy ===== *)
theory EnvFile
  imports EnvLists EnvTotal
begin

text \<open>
  The environment as a table of variables (the locale \<open>var_table\<close>, interpreted on the operations
  of the array), files of variables, the states the operations reach, and the copy of the old
  environment.
\<close>

section \<open>A table of variables\<close>

locale var_table =
  fixes valid :: "'k \<Rightarrow> bool"
    and get :: "'s \<Rightarrow> 'k \<Rightarrow> 'v option"
    and put :: "'k \<Rightarrow> 'v \<Rightarrow> 's \<Rightarrow> 's"
  assumes get_put: "valid k \<Longrightarrow> valid j \<Longrightarrow> get (put k v s) j = (if j = k then Some v else get s j)"
begin

lemma get_puts:
  "\<forall>kv \<in> set kvs. valid (fst kv) \<Longrightarrow> valid j \<Longrightarrow>
   get (fold (\<lambda>(k, v). put k v) kvs s) j = (case map_of (rev kvs) j of Some v \<Rightarrow> Some v | None \<Rightarrow> get s j)"
proof (induction kvs arbitrary: s)
  case (Cons kv kvs)
  then show ?case by (cases kv) (auto simp: get_put map_add_def split: option.splits)
qed simp

end

locale var_table_del = var_table +
  fixes del :: "'k \<Rightarrow> 's \<Rightarrow> 's"
  assumes get_del: "valid k \<Longrightarrow> valid j \<Longrightarrow> get (del k s) j = (if j = k then None else get s j)"
begin

lemma get_del_put: "valid k \<Longrightarrow> valid j \<Longrightarrow> get (del k (put k v s)) j = get (del k s) j"
  by (simp add: get_del get_put)

end

definition env_value :: "string list \<Rightarrow> string \<Rightarrow> string option" where
  "env_value es n = (case entries es n of [] \<Rightarrow> None | e # _ \<Rightarrow> Some (drop (length n + 1) e))"

definition env_without :: "string \<Rightarrow> string list \<Rightarrow> string list" where
  "env_without n es = filter (\<lambda>e. \<not> named n e) es"

interpretation env_vars: var_table_del var_name env_value "put_entry True True" env_without
proof unfold_locales
  fix k j v :: string and s :: "string list"
  assume n: "var_name k" "var_name j"
  then have "CHR ''='' \<notin> set j" "CHR ''='' \<notin> set k" by (simp_all add: var_name_def)
  then show "env_value (put_entry True True k v s) j = (if j = k then Some v else env_value s j)"
    using n by (auto simp: env_value_def entries_put)
  show "env_value (env_without k s) j = (if j = k then None else env_value s j)"
    using \<open>CHR ''='' \<notin> set j\<close> \<open>CHR ''='' \<notin> set k\<close> by (simp add: env_value_def env_without_def entries_prune)
qed

lemma getenv_value: "holds es env \<Longrightarrow> var_name n \<Longrightarrow> sudo_getenv n env = env_value es n"
  by (simp add: getenv_entries env_value_def var_name_def)

abbreviation setting :: "string \<times> string \<Rightarrow> string" where
  "setting nv \<equiv> fst nv @ CHR ''='' # snd nv"

lemma insert_env_loop_table:
  "holds es env \<Longrightarrow> \<forall>nv \<in> set vars. var_name (fst nv) \<Longrightarrow> room (length vars) env \<Longrightarrow>
   \<exists>env'. insert_env_loop (map setting vars) env = Done env' \<and>
     holds (fold (\<lambda>(n, v). put_entry True True n v) vars es) env' \<and> old_envp env' = old_envp env"
proof (induction vars arbitrary: es env)
  case (Cons nv vars)
  have "room 1 env" using Cons.prems(3) by (simp add: room_def)
  then obtain e1 where e1: "sudo_putenv (setting nv) True True env = Done e1"
    "holds (put_entry True True (fst nv) (snd nv) es) e1" "old_envp e1 = old_envp env"
    "env_size e1 \<le> env_size env + 128"
    using putenv_cases [OF Cons.prems(1), of "fst nv" "snd nv" True True] Cons.prems(2) by auto
  have "room (length vars) e1" using Cons.prems(3) e1(4) by (simp add: room_def)
  from Cons.IH [OF e1(2) _ this] Cons.prems(2) e1 show ?case by (auto simp: case_prod_beta)
qed simp

text \<open>
  Inserting the variables of the command line into the environment is an update of a table:
  afterwards each of them has the value it was given last, and every other variable the value it
  had; the insertion succeeds.
\<close>

theorem insert_env_vars_update:
  assumes "holds es env" "\<forall>nv \<in> set vars. var_name (fst nv)" "room (length vars) env"
  shows "\<exists>env'. insert_env_vars (Some (map setting vars)) env = Done env' \<and> env_ok env' \<and>
    (\<forall>n. var_name n \<longrightarrow> sudo_getenv n env' =
       (case map_of (rev vars) n of Some v \<Rightarrow> Some v | None \<Rightarrow> sudo_getenv n env))"
proof -
  obtain env' where e: "insert_env_loop (map setting vars) env = Done env'"
    "holds (fold (\<lambda>(n, v). put_entry True True n v) vars es) env'"
    using insert_env_loop_table [OF assms] by blast
  have "env_ok env'" using e(2) by (simp add: holds_def)
  moreover have "sudo_getenv n env' = (case map_of (rev vars) n of Some v \<Rightarrow> Some v | None \<Rightarrow> sudo_getenv n env)"
    if "var_name n" for n
    unfolding getenv_value [OF e(2) that] getenv_value [OF assms(1) that]
    by (rule env_vars.get_puts [OF assms(2) that])
  ultimately show ?thesis using e(1) by (simp add: insert_env_vars_def)
qed

section \<open>Files of variables\<close>

definition file_entry :: "string \<times> string \<Rightarrow> string" where
  \<comment> \<open>a line \<open>name="value"\<close>\<close>
  "file_entry nv = fst nv @ [CHR ''='', CHR 0x22] @ snd nv @ [CHR 0x22, newline]"

definition file_ok :: "string \<times> string \<Rightarrow> bool" where
  "file_ok nv \<longleftrightarrow> var_name (fst nv) \<and> (\<forall>c \<in> set (fst nv). \<not> c_isspace c \<and> c \<noteq> CHR ''#'') \<and>
     newline \<notin> set (snd nv) \<and> CHR ''#'' \<notin> set (snd nv)"

lemma getdelim_line: "newline \<notin> set l \<Longrightarrow> getdelim (l @ newline # t) = Some (l @ [newline], t)"
  by (simp add: getdelim_def Let_def)

lemma parse_one_plain:
  assumes "l \<noteq> []" "\<not> c_isblank (hd l)" "\<not> c_isblank (last l)" "\<not> is_eol (last l)" "CHR ''#'' \<notin> set l"
  shows "parse_one PARSELN_CONT_IGN (l @ [newline]) = (l, False)"
proof -
  have "rstrip is_eol (l @ [newline]) = l"
    using assms(1,4) by (cases l rule: rev_cases) (simp_all add: rstrip_def is_eol_def)
  moreover have "rstrip c_isblank l = l"
    using assms(1,3) by (cases l rule: rev_cases) (simp_all add: rstrip_def)
  moreover have "dropWhile c_isblank l = l" using assms(1,2) by (cases l) simp_all
  moreover have "strchr l (CHR ''#'') = None" using assms(5) by (simp add: strchr_None)
  moreover have "ISSET PARSELN_CONT_IGN PARSELN_CONT_IGN" by (simp add: ISSET_def PARSELN_CONT_IGN_def)
  ultimately show ?thesis by (simp add: parse_one_def)
qed

lemma env_line_quoted:
  assumes "var_name n" "\<forall>c \<in> set n. \<not> c_isspace c"
  shows "env_line (n @ [CHR ''='', CHR 0x22] @ v @ [CHR 0x22]) = Some (n @ CHR ''='' # v)"
proof -
  let ?l = "n @ [CHR ''='', CHR 0x22] @ v @ [CHR 0x22]"
  have n: "n \<noteq> []" "CHR ''='' \<notin> set n" using assms(1) by (simp_all add: var_name_def)
  have ne: "(strncmp_eq ?l ''export'' 6 \<and> c_isspace (str_at ?l 6)) = False"
  proof (rule iffI [OF _ FalseE])
    assume a: "strncmp_eq ?l ''export'' 6 \<and> c_isspace (str_at ?l 6)"
    then obtain t where t: "?l = ''export'' @ t" using strncmp_prefix [of ?l "''export''"]
      by (auto simp: eval_nat_numeral)
    show False
    proof (cases "length n \<le> 6")
      case True
      have "length n = 6 \<or> length n < 6" using True by auto
      moreover have "\<not> length n < 6"
      proof
        assume "length n < 6"
        then have "?l ! length n \<in> set ''export''" unfolding t by (simp only: nth_append) (auto simp: nth_Cons' split: if_splits)
        then show False by (simp add: nth_append)
      qed
      ultimately have "str_at ?l 6 = CHR ''=''" by (simp add: str_at_def nth_append)
      then show False using a by (simp add: c_isspace_def)
    next
      case False
      then have "str_at ?l 6 \<in> set n" by (simp add: str_at_def nth_append)
      then show False using a assms(2) by blast
    qed
  qed
  have tw: "takeWhile (\<lambda>c. c \<noteq> CHR ''='') ?l = n" using takeWhile_neq_append [OF n(2)] by simp
  show ?thesis unfolding env_line_def ne if_False Let_def tw
    using n(1) by (simp add: c_at_def butlast_append)
qed

lemma env_file_next_entry:
  assumes "file_ok nv"
  shows "env_file_next \<lparr>rest = file_entry nv @ t, read_fails = f\<rparr> =
    (Some (setting nv), False, \<lparr>rest = t, read_fails = f\<rparr>)"
proof -
  obtain n v where nv: "nv = (n, v)" by force
  define l where "l = n @ [CHR ''='', CHR 0x22] @ v @ [CHR 0x22]"
  have ok: "var_name n" "n \<noteq> []" "\<forall>c \<in> set n. \<not> c_isspace c" "\<forall>c \<in> set n. c \<noteq> CHR ''#''"
    "newline \<notin> set v" "CHR ''#'' \<notin> set v"
    using assms by (auto simp: nv file_ok_def var_name_def)
  have blank: "c_isblank c \<Longrightarrow> c_isspace c" for c by (auto simp: c_isblank_def c_isspace_def)
  have nl: "c_isspace newline" by (simp add: c_isspace_def newline_def)
  have "newline \<notin> set n" using ok(3) nl by blast
  moreover have "newline \<noteq> CHR ''=''" "newline \<noteq> CHR 0x22" by (simp_all add: newline_def)
  ultimately have "newline \<notin> set l" using ok(5) by (simp add: l_def)
  then have g: "getdelim (l @ newline # t) = Some (l @ [newline], t)" by (rule getdelim_line)
  have l: "l \<noteq> []" "last l = CHR 0x22" "hd l = hd n" "hd n \<in> set n"
    using ok(2) by (simp_all add: l_def)
  have q: "\<not> c_isblank (CHR 0x22)" "\<not> is_eol (CHR 0x22)"
    by (simp_all add: c_isblank_def is_eol_def newline_def)
  have "CHR ''#'' \<notin> set n" using ok(4) by blast
  then have "CHR ''#'' \<notin> set l" using ok(6) by (simp add: l_def)
  moreover have "\<not> c_isblank (hd l)" using l(3,4) ok(3) blank by metis
  ultimately have "parse_one PARSELN_CONT_IGN (l @ [newline]) = (l, False)"
    using q by (intro parse_one_plain) (simp_all add: l)
  then have "sudo_parseln PARSELN_CONT_IGN 0 \<lparr>rest = l @ newline # t, read_fails = f\<rparr> =
      (Some l, 1, \<lparr>rest = t, read_fails = f\<rparr>)"
    using g by (simp add: sudo_parseln_def parseln_loop.simps [of _ _ _ "l @ newline # t"])
  moreover have "env_line l = Some (n @ CHR ''='' # v)" unfolding l_def by (rule env_line_quoted [OF ok(1,3)])
  moreover have "file_entry nv @ t = l @ newline # t" by (simp add: file_entry_def nv l_def)
  ultimately show ?thesis by (simp add: env_file_next.simps [of "\<lparr>rest = l @ newline # t, read_fails = f\<rparr>"] nv)
qed

text \<open>
  C35. Writing variables as lines \<open>name="value"\<close> and reading the file back inserts exactly these
  variables, in order, as if they had been given one by one: quotes are stripped, nothing else of
  the value changes. Names contain no white space or number sign, values no newline or number
  sign.
\<close>

theorem env_file_roundtrip:
  assumes "\<forall>nv \<in> set vars. file_ok nv"
    and "env_fopen es path = Some (Env_file \<lparr>rest = concat (map file_entry vars), read_fails = False\<rparr>)"
  shows "read_env_file es df mode path True False env = insert_env_vars (Some (map setting vars)) env"
proof -
  have "read_env_loop es df mode True False (Env_file \<lparr>rest = concat (map file_entry vars), read_fails = False\<rparr>) env =
      insert_env_loop (map setting vars) env"
    using assms(1)
  proof (induction vars arbitrary: env)
    case Nil
    have "env_file_next \<lparr>rest = [], read_fails = False\<rparr> = (None, False, \<lparr>rest = [], read_fails = False\<rparr>)"
      by (simp add: env_file_next.simps [of "\<lparr>rest = [], read_fails = False\<rparr>"] sudo_parseln_def
          parseln_loop.simps [of _ _ _ "[]"] getdelim_def)
    then show ?case by (simp add: read_env_loop.simps env_file_next_local_def)
  next
    case (Cons nv vars)
    have "env_file_next_local (Env_file \<lparr>rest = concat (map file_entry (nv # vars)), read_fails = False\<rparr>) =
        (Some (setting nv), False, Env_file \<lparr>rest = concat (map file_entry vars), read_fails = False\<rparr>)"
      using Cons.prems by (simp add: env_file_next_local_def env_file_next_entry)
    moreover have "read_env_loop es df mode True False
        (Env_file \<lparr>rest = concat (map file_entry vars), read_fails = False\<rparr>) = insert_env_loop (map setting vars)"
      using Cons by (intro ext) simp
    ultimately show ?case by (subst read_env_loop.simps) simp
  qed
  then show ?thesis by (simp add: read_env_file_def insert_env_vars_def assms(2))
qed

end
