(* ===== verification/EnvPolicy.thy ===== *)
theory EnvPolicy
  imports EnvFile
begin

text \<open>
  The states the operations on the environment reach, the copy of the old environment, the
  prompt, and the environment of the command as the calls of \<open>sudoers.c\<close> make it.
\<close>

section \<open>Reachable states\<close>

inductive env_reachable :: "environment \<Rightarrow> bool" where
  start: "env_reachable env_free"
| init: "env_reachable env \<Longrightarrow> env_reachable (env_init ep env)"
| putenv: "env_reachable env \<Longrightarrow> envp env \<noteq> None \<Longrightarrow>
    sudo_putenv_nodebug sp dup ov env \<in> {Done env', Failed env'} \<Longrightarrow> env_reachable env'"
| setenv: "env_reachable env \<Longrightarrow> sudoers_hook_setenv False n v ov env = Done (r, env') \<Longrightarrow> env_reachable env'"
| unsetenv: "env_reachable env \<Longrightarrow> sudoers_hook_unsetenv False n env = Done (r, env') \<Longrightarrow> env_reachable env'"
| rebuild: "env_reachable env \<Longrightarrow> envp env \<noteq> None \<Longrightarrow> user_cmnd (env_sudo ctx) \<noteq> None \<Longrightarrow>
    rebuild_env sys es sd df ctx env = Done env' \<Longrightarrow> env_reachable env'"
| from_file: "env_reachable env \<Longrightarrow> envp env \<noteq> None \<Longrightarrow>
    read_env_file es df mode path ov re env \<in> {Done env', Failed env'} \<Longrightarrow> env_reachable env'"
| insert: "env_reachable env \<Longrightarrow> envp env \<noteq> None \<Longrightarrow>
    insert_env_vars vars env \<in> {Done env', Failed env'} \<Longrightarrow> env_reachable env'"
| merge: "env_reachable env \<Longrightarrow> envp env \<noteq> None \<Longrightarrow>
    env_merge es df mode vars env \<in> {Done env', Failed env'} \<Longrightarrow> env_reachable env'"

lemma env_ok_holding: "env_ok env \<Longrightarrow> envp env \<noteq> None \<Longrightarrow> holding (old_envp env) (\<lambda>_. True) env"
  by (auto simp: holding_def holds_def)

lemma holding_env_ok: "holding old I env \<Longrightarrow> env_ok env"
  by (auto simp: holding_def holds_def)

lemma absorbs_True [simp]: "absorbs xs (\<lambda>_. True) ov"
  by (simp add: absorbs_def)

lemma keeps_mono: "keeps r P \<Longrightarrow> (\<And>a. P a \<Longrightarrow> Q a) \<Longrightarrow> keeps r Q"
  by (cases r) auto

lemma putenv_ok:
  assumes "env_ok env" "envp env \<noteq> None"
  shows "keeps (sudo_putenv_nodebug sp dup ov env) (\<lambda>env'. env_ok env' \<and> envp env' \<noteq> None)"
proof (cases sp)
  case (Some str)
  obtain es where "holds es env" using assms by (auto simp: holds_def)
  from putenv_keeps [OF this, of str dup ov] show ?thesis
    by (auto simp: Some sudo_putenv_def holds_def elim!: keeps_mono)
qed (use assms in \<open>simp add: sudo_putenv_nodebug_def\<close>)

lemma env_merge_ok:
  "env_ok env \<Longrightarrow> envp env \<noteq> None \<Longrightarrow> keeps (env_merge es df mode vars env) (\<lambda>env'. env_ok env' \<and> envp env' \<noteq> None)"
proof (induction vars arbitrary: env)
  case (Cons v vars)
  show ?case unfolding env_merge.simps Let_def sudo_putenv_def
  proof (rule keeps_bind [OF putenv_ok [OF Cons.prems]])
    fix a assume a: "env_ok a \<and> envp a \<noteq> None"
    show "env_ok (id a) \<and> envp (id a) \<noteq> None" using a by simp
    show "keeps (env_merge es df mode vars a) (\<lambda>env'. env_ok env' \<and> envp env' \<noteq> None)"
      using a by (intro Cons.IH) simp_all
  qed
qed simp

lemma setenv_nodebug_ok:
  "env_ok env \<Longrightarrow> envp env \<noteq> None \<Longrightarrow>
   keeps (sudo_setenv_nodebug n v ov env) (\<lambda>env'. env_ok env' \<and> envp env' \<noteq> None)"
  using putenv_ok by (auto simp: sudo_setenv_nodebug_def Let_def split: option.split)

lemma unsetenv_nodebug_ok:
  assumes "env_ok env" "envp env \<noteq> None"
  shows "keeps (sudo_unsetenv_nodebug n env) (\<lambda>env'. env_ok env' \<and> envp env' \<noteq> None)"
proof -
  obtain es where es: "holds es env" using assms by (auto simp: holds_def)
  have fail: "sudo_unsetenv_nodebug n env = Failed env" if "\<not> (\<exists>v. n = Some v \<and> var_name v)"
    using that es by (auto simp: sudo_unsetenv_nodebug_def holds_def var_name_def strchr_None split: option.splits)
  show ?thesis
  proof (cases "\<exists>v. n = Some v \<and> var_name v")
    case True
    then obtain v where v: "n = Some v" "var_name v" by blast
    from unsetenv_holds [OF es v(2)] show ?thesis by (auto simp: v(1) sudo_unsetenv_def holds_def)
  qed (use fail assms in simp)
qed

lemma hook_run_ok:
  assumes "env_ok env" "envp env \<noteq> None \<Longrightarrow> keeps (f env) env_ok" "hook_run False f env = Done (r, env')"
  shows "env_ok env'"
proof (cases "envp env = None")
  case False
  with assms show ?thesis by (cases "f env") (auto simp: hook_run_def run_ignore_def)
qed (use assms in \<open>simp add: hook_run_def\<close>)

lemma env_reachable_ok: "env_reachable env \<Longrightarrow> env_ok env"
proof (induction rule: env_reachable.induct)
  case start
  show ?case by (simp add: env_free_def env_ok_def)
next
  case (init env ep)
  show ?case by (auto simp: env_init_def env_ok_def split: option.split)
next
  case (putenv env sp dup ov env')
  from putenv_ok [OF putenv(4,2), of sp dup ov] putenv(3) show ?case by auto
next
  case (setenv env n v ov r env')
  have "envp env \<noteq> None \<Longrightarrow> keeps (sudo_setenv_nodebug n v ov env) env_ok"
    using setenv_nodebug_ok [OF setenv(3)] by (rule keeps_mono) auto
  with setenv show ?case unfolding sudoers_hook_setenv_def by (auto elim!: hook_run_ok)
next
  case (unsetenv env n r env')
  have "envp env \<noteq> None \<Longrightarrow> keeps (sudo_unsetenv_nodebug n env) env_ok"
    using unsetenv_nodebug_ok [OF unsetenv(3)] by (rule keeps_mono) auto
  with unsetenv show ?case unfolding sudoers_hook_unsetenv_def by (auto elim!: hook_run_ok)
next
  case (rebuild env ctx sys es sd df env')
  then obtain user where "envp env = Some user" by blast
  from rebuild_env_allowed [OF this rebuild(3), of sys es sd df] rebuild(4) show ?case by (auto simp: holds_def)
next
  case (from_file env es df mode path ov re env')
  from read_env_file_holding [OF env_ok_holding [OF from_file(4,2)], of es path ov df mode re] from_file(3)
  show ?case by (auto dest: holding_env_ok)
next
  case (insert env vars env')
  have "keeps (insert_env_vars vars env) (holding (old_envp env) (\<lambda>_. True))"
    using env_ok_holding [OF insert(4,2)]
    by (auto simp: insert_env_vars_def split: option.split intro!: insert_env_loop_holding)
  then show ?case using insert(3) by (auto dest: holding_env_ok)
next
  case (merge env es df mode vars env')
  from env_merge_ok [OF merge(4,2), of es df mode vars] merge(3) show ?case by auto
qed

text \<open>
  C33. In every state that the operations on the environment reach, short of exchanging it with
  the old one, the recorded length is that of the array and leaves room for the terminating NULL,
  so that inserting a variable writes within the array.
\<close>

theorem env_reachable_in_bounds:
  assumes "env_reachable env" "envp env \<noteq> None"
  shows "env_len env = length (the (envp env)) \<and> env_len env < env_size env \<and>
    sudo_putenv str dupcheck overwrite env \<noteq> Faulted"
proof -
  have ok: "env_ok env" using assms(1) by (rule env_reachable_ok)
  from putenv_ok [OF ok assms(2), of "Some str" dupcheck overwrite]
  have "sudo_putenv str dupcheck overwrite env \<noteq> Faulted" by (auto simp: sudo_putenv_def)
  then show ?thesis using ok assms(2) by (auto simp: env_ok_def)
qed

section \<open>Exchanging the environments\<close>

text \<open>
  \<open>env_swap_old\<close> exchanges the arrays but not their lengths. When the old environment is the
  longer one, the next new variable is written in its middle and cuts off the rest.
\<close>

theorem env_swap_then_putenv:
  assumes "holds es env" "old_envp env = Some old" "length es < length old"
    and "var_name n" "entries old n = []" "length es + 2 < env_size env"
  shows "\<exists>env'. sudo_setenv n v True (snd (env_swap_old env)) = Done env' \<and>
    envp env' = Some (take (length es) old @ [n @ ''='' @ v])"
proof -
  have split: "strchr (n @ CHR ''='' # v) (CHR ''='') = Some (CHR ''='' # v)" "CHR ''='' # v \<noteq> n @ CHR ''='' # v"
    using assms(4) by (auto simp: var_name_def strchr_append)
  have "env_grow (env\<lparr>old_envp := Some es, envp := Some old\<rparr>) = Done (env\<lparr>old_envp := Some es, envp := Some old\<rparr>)"
    using holds_len [OF assms(1)] assms(6) by (simp add: env_grow_def)
  then show ?thesis
    using split assms holds_len [OF assms(1)] env_dup_iff [of n v old]
    by (auto simp: env_swap_old_def holds_def sudo_setenv_def sudo_setenv2_def sudo_putenv_def
        sudo_putenv_nodebug_def env_append_def Let_def)
qed

section \<open>The prompt\<close>

definition prompt_of :: "string \<Rightarrow> string option \<Rightarrow> string option" where
  "prompt_of x p = (if strncmp_eq x ''SUDO_PS1='' 9 then Some (drop 5 x) else p)"

lemma keep_prompt:
  "sat old (\<lambda>e d q. q = p) s \<Longrightarrow>
   yields (rebuild_keep es df mode eps s) (sat old (\<lambda>e d q. q = fold prompt_of eps p))"
proof (induction eps arbitrary: s p)
  case (Cons x eps)
  obtain env did ps1 where s: "s = (env, did, ps1)" by (metis prod_cases3)
  obtain e where e: "holds e env" "old_envp env = old" "ps1 = p" using Cons.prems by (auto simp: sat_def s)
  have IH: "sat old (\<lambda>e d q. q = prompt_of x p) t \<Longrightarrow>
      yields (rebuild_keep es df mode eps t) (sat old (\<lambda>e d q. q = fold prompt_of (x # eps) p))" for t
    using Cons.IH [of "prompt_of x p" t] by simp
  show ?case
  proof (cases "env_should_keep es df mode x")
    case True
    have "yields (sudo_putenv x True False env) (\<lambda>env'. old_envp env' = old \<and> (\<exists>es. holds es env'))"
      using keeps_yields [OF putenv_keeps [OF e(1)]] by (rule yields_mono) (use e in auto)
    then have "yields (run_bind (sudo_putenv x True False env)
        (\<lambda>env. rebuild_keep es df mode eps (env, env_update_didvar x did, prompt_of x p)) g)
        (sat old (\<lambda>e d q. q = fold prompt_of (x # eps) p))" for g
      by (rule yields_bind) (intro IH, auto simp: sat_def)
    then show ?thesis
      unfolding s e(3) rebuild_keep.simps prompt_of_def [symmetric] Let_def if_P [OF True] .
  next
    case False
    have "sat old (\<lambda>e d q. q = prompt_of x p) (env, did, prompt_of x p)" using e by (auto simp: sat_def)
    from IH [OF this] show ?thesis
      unfolding s e(3) rebuild_keep.simps prompt_of_def [symmetric] Let_def if_not_P [OF False] .
  qed
qed simp

lemma fold_prompt_none: "\<forall>x \<in> set eps. \<not> strncmp_eq x ''SUDO_PS1='' 9 \<Longrightarrow> fold prompt_of eps p = p"
  by (induction eps) (simp_all add: prompt_of_def)

text \<open>
  Under env_reset, PS1 in the new environment is the value of the last SUDO_PS1 of the user,
  whatever that value is and whatever env_keep and env_check say: also a bash function, which no
  variable that is kept can be.
\<close>

theorem sudo_ps1_sets_prompt:
  assumes "envp env = Some user" "user_cmnd (env_sudo ctx) \<noteq> None" "def_env_reset df"
    and "user = us @ (''SUDO_PS1='' @ v) # vs" "\<forall>x \<in> set vs. \<not> strncmp_eq x ''SUDO_PS1='' 9"
  shows "yields (rebuild_env sys es sd df ctx env)
    (\<lambda>env'. \<exists>e. holds e env' \<and> entries e ''PS1'' = [''PS1='' @ v])"
proof -
  define P where "P = (\<lambda>(e :: string list) (d :: 32 word) q. q = Some (''PS1'' @ CHR ''='' # v))"
  define R where "R = (\<lambda>(e :: string list) (d :: 32 word) (q :: string option). entries e ''PS1'' = [''PS1='' @ v])"
  have fold: "fold prompt_of user None = Some (''PS1'' @ CHR ''='' # v)"
    using assms(5) by (simp add: assms(4) fold_prompt_none prompt_of_def strncmp_eq_def)
  have any: "preserves old P (check_setenv2 n w d ov)" if "var_name n" for old n w d ov
    using that by (intro preserves_setenv2) (auto simp: P_def)
  have own: "var_name n" if "n \<in> overwritten" for n using that by (auto simp: overwritten_def)
  have ps1: "P e d p \<Longrightarrow> ps1_from user p" for e d p
    using named_entry [of "''PS1''" v] by (simp add: P_def ps1_from_def assms(4))
  have Pd: "P e d p \<Longrightarrow> P e (SET d f) p" for e d f p by (simp add: P_def)
  have logname: "preserves old P (set_logname df ctx)" for old
    by (rule set_logname_preserves) (rule any, rule own)
  obtain m where m: "mail_entry es (pw_name (runas_pw (env_sudo ctx))) = ''MAIL'' @ CHR ''='' # m"
    using sudo_entry_names(2) by blast
  have t: "check_putenv ''TERM=unknown'' False False = check_setenv2 ''TERM'' ''unknown'' False False"
    using check_putenv_setenv2 [of "''TERM''" "''unknown''" False False] by simp
  have stm: "preserves old P kept_bits" "preserves old P (rebuild_names ctx df)" "preserves old P (rebuild_mail es ctx)"
      "preserves old P (set_path sys sd ctx)" "preserves old P (set_defaults es ctx)"
      "preserves old P (set_logname df ctx)"
      "preserves old P (only_if home (check_setenv2 ''HOME'' (pw_dir (runas_pw (env_sudo ctx))) True True))" for old home
    unfolding rebuild_names_def rebuild_mail_def m check_putenv_setenv2 set_path_def set_defaults_def t
    by (auto simp: preserves_def kept_bits_def P_def sat_def)[1]
      (auto split: option.split intro!: preserves_rules any preserves_set_did logname Pd)
  have old: "yields (rebuild_old es df ctx (fresh_env env)) (sat (Some user) P)"
  proof -
    have reset: "def_env_reset df \<or> ISSET (env_mode ctx) MODE_LOGIN_SHELL" using assms(3) by simp
    have "holding (Some user) (\<lambda>_. True) (fresh_env env)"
      using fresh_holds [of env] assms(1) by (auto simp: holding_def)
    from rebuild_fresh_holding [OF this absorbs_True]
    have fresh: "yields (rebuild_fresh es df ctx (fresh_env env)) (sat (Some user) (\<lambda>e d q. q = None))"
      by (rule yields_mono) (auto elim!: sat_mono)
    have keep: "yields (rebuild_keep es df (env_mode ctx) (old_entries (fst s)) s) (sat (Some user) P)"
      if s: "sat (Some user) (\<lambda>e d q. q = None) s" for s
    proof -
      have "old_entries (fst s) = user" using s by (auto simp: sat_def old_entries_def)
      then show ?thesis using keep_prompt [OF s, of es df "env_mode ctx" user] unfolding fold P_def by simp
    qed
    have "preserves (Some user) P (run_steps [kept_bits, rebuild_names ctx df, rebuild_mail es ctx])"
      by (rule preserves_steps) (use stm(1-3) in auto)
    note rest = preservesD [OF this]
    show ?thesis unfolding rebuild_old_def if_P [OF reset] run_steps.simps(2) [of _ "kept_bits # _"]
      by (rule yields_bind [OF fresh], rule yields_bind [OF keep], assumption, rule rest)
  qed
  have prompt: "yields (set_ps1 s) (sat (Some user) R)" if s: "sat (Some user) P s" for s
  proof -
    have "entries (put_entry True True ''PS1'' v e) ''PS1'' = [''PS1'' @ CHR ''='' # v]" for e
      by (simp add: entries_put)
    then have "yields (check_putenv (''PS1'' @ CHR ''='' # v) True True s) (sat (Some user) R)"
      using s by (intro wp_putenv) (auto simp: R_def elim!: sat_mono)
    then show ?thesis using s by (auto simp: set_ps1_def sat_def P_def)
  qed
  have "preserves old R (check_setenv2 n w True True)" if "n \<in> overwritten - {''PS1''}" for old n w
    using that by (intro preserves_setenv2) (auto simp: R_def entries_other overwritten_def)
  then have sudo: "preserves (Some user) R (set_sudo_vars ctx)"
    by (rule set_sudo_vars_preserves [OF _ assms(2)])
  have "yields (run_steps (rebuild_rest sys es sd df ctx home) s) (sat (Some user) R)"
    if "sat (Some user) P s" for s home
    unfolding rebuild_rest_def
    by (rule wp_steps_Cons, rule preservesD [OF stm(4) that], rule wp_steps_Cons, erule preservesD [OF stm(6)],
        rule wp_steps_Cons, erule preservesD [OF stm(7)], rule wp_steps_Cons, erule preservesD [OF stm(5)],
        rule wp_steps_Cons, erule prompt, rule wp_steps_Cons, erule preservesD [OF sudo], rule wp_steps_Nil)
  from rebuild_env_sat [where P = P and Q = R, OF assms(1) old this]
  show ?thesis by (rule yields_mono) (auto simp: R_def)
qed

section \<open>The environment of the command\<close>

lemma absorbs_keep_path:
  "absorbs xs (\<lambda>e. entries e ''PATH'' = [''PATH='' @ p]) False"
  by (auto simp: absorbs_def entries_put var_name_def)

lemma absorbs_other_path:
  "\<forall>x \<in> set xs. \<not> named ''PATH'' x \<Longrightarrow> absorbs xs (\<lambda>e. entries e ''PATH'' = [''PATH='' @ p]) True"
  unfolding absorbs_def
proof (intro allI impI, elim conjE)
  fix n v es
  assume "\<forall>x \<in> set xs. \<not> named ''PATH'' x" "var_name n" "n @ CHR ''='' # v \<in> set xs"
    "entries es ''PATH'' = [''PATH='' @ p]"
  moreover from this have "n \<noteq> ''PATH''" by (auto simp: named_iff)
  ultimately show "entries (put_entry True True n v es) ''PATH'' = [''PATH='' @ p]"
    by (simp add: entries_other)
qed

lemma policy_file_keeps:
  assumes "holding old I env" "\<And>xs. absorbs xs I False"
  shows "yields (policy_env_file es df ctx path re env) (holding old I)"
  using assms by (auto simp: policy_env_file_def split: option.split intro!: read_env_file_holding)

text \<open>
  C31. When secure_path applies and the user may not set variables, running a command other than
  as a login shell gives it the secure path as its PATH, whatever the user's environment, the
  variables on the command line, the environment files of the policy and the login class say.
\<close>

theorem command_env_secure_path:
  assumes "envp env = Some user" "user_cmnd (env_sudo ctx) \<noteq> None"
    and "def_secure_path sd = Some p" "\<not> user_is_exempt sys sd (env_sudo ctx)" "\<not> def_setenv sd"
    and "ISSET (env_mode ctx) MODE_RUN" "\<not> ISSET (env_mode ctx) MODE_EDIT"
      "\<not> ISSET (env_mode ctx) MODE_LOGIN_SHELL"
    and "command_env sys es sd df ctx env = Some r"
  shows "yields r (\<lambda>env'. sudo_getenv ''PATH'' env' = Some p)"
proof -
  let ?I = "\<lambda>e. entries e ''PATH'' = [''PATH='' @ p]"
  define df' where "df' = check_env_reset sd (env_mode ctx) df"
  note R = rebuild_env_secure_path [OF assms(1-4), of es df']
  show ?thesis
  proof (cases "rebuild_env sys es sd df' ctx env")
    case Faulted
    then show ?thesis using R by simp
  next
    case (Failed e)
    then have "r = Failed e" using assms(9) by (simp add: command_env_def df'_def [symmetric] Let_def)
    then show ?thesis by simp
  next
    case (Done e)
    then have h: "holding (old_envp e) ?I e" using R by (auto simp: holding_def)
    have add: "check_env_add sys es sd df' ctx"
      using assms(9) Done by (auto simp: command_env_def df'_def [symmetric] Let_def split: if_splits)
    have vars: "\<not> named ''PATH'' x" if "user_env_add ctx = Some vars" "x \<in> set vars" for vars x
    proof
      assume n: "named ''PATH'' x"
      then have "strncmp_eq x ''PATH='' 5" "\<not> (x = [] \<or> hd x = CHR ''='')"
        by (auto simp: named_iff strncmp_eq_def)
      then have bad: "\<not> env_var_ok sys es sd df' ctx x" "\<not> (x = [] \<or> hd x = CHR ''='')"
        using assms(3,4) by (simp_all add: env_var_ok_def split: option.split)
      have "fst (validate_env_vars sys es sd df' ctx (Some vars))"
        using add assms(5,6) that(1) by (auto simp: check_env_add_def split: if_splits)
      then show False using validate_verdict [of sys es sd df' ctx vars] bad that(2)
        unfolding validate_env_vars_def by auto
    qed
    have insert: "yields (insert_env_vars (user_env_add ctx) e') (holding old ?I)" if "holding old ?I e'" for e' old
    proof (cases "user_env_add ctx")
      case (Some vs)
      have "\<forall>x \<in> set vs. \<not> named ''PATH'' x" using vars Some by blast
      from insert_env_loop_holding [OF that absorbs_other_path [OF this]] show ?thesis
        unfolding insert_env_vars_def Some option.case by (rule keeps_yields)
    qed (use that in \<open>simp add: insert_env_vars_def\<close>)
    have r: "r = run_bind (Done e)
         (\<lambda>env. run_bind (policy_env_file es df' ctx (def_restricted_env_file df') True env)
         (\<lambda>env. run_bind (policy_env_file es df' ctx (def_env_file df') False env)
         (\<lambda>env. run_bind (insert_env_vars (user_env_add ctx) env) Done id) id) id) id"
      using assms(7-9) Done add by (simp add: command_env_def df'_def [symmetric] Let_def login_env_def)
    have "yields r (holding (old_envp e) ?I)" unfolding r run_bind.simps(1)
      by (rule yields_bind [OF policy_file_keeps [OF h absorbs_keep_path]],
          rule yields_bind, erule policy_file_keeps [OF _ absorbs_keep_path],
          rule yields_bind, erule insert, simp)
    then show ?thesis by (rule yields_mono) (auto simp: holding_def getenv_entries)
  qed
qed

end
