(* ===== verification/EnvSamples.thy ===== *)
theory EnvSamples
  imports EnvPolicy Samples
begin

text \<open>
  Concrete instances of the properties of the environment: a user with a TZ, a SUDO_PS1 and a
  library path who runs \<open>/bin/ls\<close>, under the built-in tables, with env_reset.
\<close>

definition sample_env_ctx :: "32 word \<Rightarrow> env_context" where
  "sample_env_ctx mode = \<lparr>env_sudo = sample_ctx\<lparr>user_cmnd := Some ''/bin/ls''\<rparr>, env_mode = mode,
     user_ttypath = None, user_env_add = Some [''TZ=UTC''], runas_class = None\<rparr>"

definition sample_env_sys :: env_system where
  "sample_env_sys = \<lparr>path_zoneinfo = Some ''/usr/share/zoneinfo'', path_maildir = ''/var/mail'',
     path_stdpath = ''/bin:/usr/bin'', path_environment = None, class_setenv = (\<lambda>_ _. []), env_fopen = (\<lambda>_. None)\<rparr>"

definition sample_env_defs :: env_defs where
  "sample_env_defs = init_envtables \<lparr>def_env_reset = True, def_env_check = [], def_env_delete = [], def_env_keep = [],
     def_always_set_home = False, def_set_home = False, def_set_logname = True, def_env_file = None,
     def_restricted_env_file = None\<rparr>"

definition sample_user_env :: "string list" where
  "sample_user_env = [''TZ=UTC'', ''SUDO_PS1=# '', ''LD_PRELOAD=x'']"

definition sample_environment :: environment where
  "sample_environment = env_init (Some sample_user_env) env_free"

definition sample_sudo_defs :: sudo_defs where
  "sample_sudo_defs = sample_defs\<lparr>def_secure_path := Some ''/sbin''\<rparr>"

lemma sample_environment_envp [simp]: "envp sample_environment = Some sample_user_env"
  by (simp add: sample_environment_def env_init_def)

lemma sample_env_cmnd [simp]: "user_cmnd (env_sudo (sample_env_ctx mode)) \<noteq> None"
  by (simp add: sample_env_ctx_def)

lemma sample_not_exempt [simp]: "\<not> user_is_exempt empty_system sample_sudo_defs (env_sudo (sample_env_ctx mode))"
  by (simp add: user_is_exempt_def sample_sudo_defs_def sample_defs_def sample_env_ctx_def)

lemma sample_secure_path [simp]: "def_secure_path sample_sudo_defs = Some ''/sbin''"
  by (simp add: sample_sudo_defs_def)

definition sample_result :: environment where
  "sample_result = \<lparr>envp = Some [''TZ=UTC'', ''MAIL=/var/mail/root'', ''PATH=/sbin'', ''LOGNAME=root'', ''USER=root'', ''HOME=/'',
       ''SHELL=/bin/sh'', ''TERM=unknown'', ''PS1=# '', ''SUDO_COMMAND=/bin/ls'', ''SUDO_USER=alice'',
       ''SUDO_UID=1000'', ''SUDO_GID=1000'', ''SUDO_HOME=/''], old_envp = Some sample_user_env,
       env_size = 128, env_len = 14\<rparr>"

lemma sample_run:
  "rebuild_env empty_system sample_env_sys sample_sudo_defs sample_env_defs (sample_env_ctx MODE_RUN) sample_environment =
     Done sample_result"
  by code_simp

lemma sample_entries: "holds es sample_result \<longleftrightarrow> envp sample_result = Some es"
  by (auto simp: holds_def env_ok_def sample_result_def)

lemma sample_keeps:
  "x \<in> set sample_user_env \<Longrightarrow> is_setting x" "x \<in> set sample_user_env \<Longrightarrow> \<not> named ''SHELL'' x"
proof -
  have "list_all is_setting sample_user_env" "\<not> list_ex (named ''SHELL'') sample_user_env" by code_simp+
  then show "x \<in> set sample_user_env \<Longrightarrow> is_setting x" "x \<in> set sample_user_env \<Longrightarrow> \<not> named ''SHELL'' x"
    by (auto simp: list_all_iff list_ex_iff)
qed

theorem rebuild_env_allowed_witness:
  "list_all (allowed_entry sample_env_sys sample_sudo_defs sample_env_defs (sample_env_ctx MODE_RUN) sample_user_env)
     (the (envp sample_result))"
  using rebuild_env_allowed [OF sample_environment_envp sample_env_cmnd [of MODE_RUN],
      of empty_system sample_env_sys sample_sudo_defs sample_env_defs]
  by (auto simp: sample_run sample_entries list_all_iff)

theorem rebuild_env_secure_path_witness: "sudo_getenv ''PATH'' sample_result = Some ''/sbin''"
  using rebuild_env_secure_path [OF sample_environment_envp sample_env_cmnd [of MODE_RUN] sample_secure_path
      sample_not_exempt, of sample_env_sys sample_env_defs]
  by (auto simp: sample_run)

theorem rebuild_env_unique_witness: "length (entries (the (envp sample_result)) ''PATH'') \<le> 1"
  using rebuild_env_unique [OF sample_environment_envp sample_env_cmnd [of MODE_RUN],
      of empty_system sample_env_sys sample_sudo_defs sample_env_defs]
  by (auto simp: sample_run sample_entries var_name_def)

theorem rebuild_env_succeeds_witness:
  "\<exists>env'. rebuild_env empty_system sample_env_sys sample_sudo_defs sample_env_defs (sample_env_ctx MODE_RUN)
     sample_environment = Done env'"
  by (rule rebuild_env_succeeds [OF sample_environment_envp sample_env_cmnd sample_keeps(1)])
    (simp_all add: sample_user_env_def system_vars_def class_vars_def sample_env_sys_def sample_env_ctx_def)

theorem login_shell_sets_shell_twice_witness:
  "yields (rebuild_env empty_system sample_env_sys sample_sudo_defs sample_env_defs
       (sample_env_ctx (or MODE_RUN MODE_LOGIN_SHELL)) sample_environment)
     (\<lambda>env'. \<exists>e. holds e env' \<and> entries e ''SHELL'' = [''SHELL=/bin/sh'', ''SHELL=/bin/sh''])"
  using login_shell_sets_shell_twice [OF sample_environment_envp sample_env_cmnd [of "or MODE_RUN MODE_LOGIN_SHELL"],
      of sample_env_sys sample_env_defs empty_system sample_sudo_defs] sample_keeps(2)
  by (simp add: sample_env_ctx_def sample_ctx_def sample_pw_def ISSET_def MODE_RUN_def MODE_LOGIN_SHELL_def)

theorem sudo_ps1_sets_prompt_witness: "entries (the (envp sample_result)) ''PS1'' = [''PS1=# '']"
proof -
  have df: "def_env_reset sample_env_defs" by (simp add: sample_env_defs_def init_envtables_def)
  have user: "sample_user_env = [''TZ=UTC''] @ (''SUDO_PS1='' @ ''# '') # [''LD_PRELOAD=x'']"
    by (simp add: sample_user_env_def)
  have other: "\<forall>x \<in> set [''LD_PRELOAD=x'']. \<not> strncmp_eq x ''SUDO_PS1='' 9" by (simp add: strncmp_eq_def)
  have "yields (rebuild_env empty_system sample_env_sys sample_sudo_defs sample_env_defs (sample_env_ctx MODE_RUN)
       sample_environment) (\<lambda>env'. \<exists>e. holds e env' \<and> entries e ''PS1'' = [''PS1='' @ ''# ''])"
    by (rule sudo_ps1_sets_prompt [OF sample_environment_envp sample_env_cmnd df user other])
  then show ?thesis unfolding sample_run by (auto simp: holds_def)
qed

theorem command_env_secure_path_witness:
  "\<exists>env'. command_env empty_system sample_env_sys sample_sudo_defs sample_env_defs (sample_env_ctx MODE_RUN)
      sample_environment = Some (Done env') \<and> sudo_getenv ''PATH'' env' = Some ''/sbin''"
proof -
  let ?r = "command_env empty_system sample_env_sys sample_sudo_defs sample_env_defs (sample_env_ctx MODE_RUN)
      sample_environment"
  have r: "?r = Some (Done sample_result)" by code_simp
  have "yields (Done sample_result) (\<lambda>env'. sudo_getenv ''PATH'' env' = Some ''/sbin'')"
    by (rule command_env_secure_path [OF sample_environment_envp sample_env_cmnd sample_secure_path sample_not_exempt
          _ _ _ _ r])
      (simp_all add: sample_sudo_defs_def sample_defs_def sample_env_ctx_def ISSET_def MODE_RUN_def MODE_EDIT_def
        MODE_LOGIN_SHELL_def)
  then show ?thesis using r by simp
qed

text \<open>The lists, the files and the array.\<close>

lemma sample_match: "matches_env_pattern ''LC_*'' ''LC_ALL=C'' False = (True, False)"
  by code_simp

theorem env_pattern_means_witness: "glob ''LC_*'' ''LC_ALL'' \<or> glob ''LC_*'' ''LC_ALL=C''"
  using env_pattern_means [OF _ _ sample_match] by simp

theorem bash_functions_not_kept_witness:
  "\<not> env_should_keep sample_env_sys sample_env_defs MODE_RUN (''f'' @ ''=() '' @ ''{ id; }'')"
  by (rule bash_functions_not_kept)
    (simp_all add: sample_env_defs_def init_envtables_def initial_checkenv_table_def initial_keepenv_table_def)

theorem tz_is_safe_iff_witness: "\<not> tz_is_safe sample_env_sys ''../x''"
proof -
  have "NUL \<notin> set ''../x''" by simp
  from tz_is_safe_iff [OF this, of sample_env_sys] show ?thesis by (simp add: c_at_def)
qed

theorem validate_env_vars_verdict_witness:
  "fst (validate_env_vars empty_system sample_env_sys sample_sudo_defs sample_env_defs (sample_env_ctx MODE_RUN) (Some [''=x'']))"
  using validate_env_vars_verdict [of empty_system sample_env_sys sample_sudo_defs sample_env_defs "sample_env_ctx MODE_RUN" "[''=x'']"]
  by simp

theorem insert_env_vars_update_witness:
  "\<exists>env'. insert_env_vars (Some [''A=1'', ''A=2'']) sample_environment = Done env' \<and> sudo_getenv ''A'' env' = Some ''2''"
  using insert_env_vars_update [of sample_user_env sample_environment "[(''A'', ''1''), (''A'', ''2'')]"]
  by (auto simp: holds_def env_ok_def sample_environment_def env_init_def sample_user_env_def room_def SIZE_MAX_def
      var_name_def)

theorem env_file_roundtrip_witness:
  "read_env_file (sample_env_sys\<lparr>env_fopen := \<lambda>_. Some (Env_file \<lparr>rest = file_entry (''A'', ''1''), read_fails = False\<rparr>)\<rparr>)
     sample_env_defs MODE_RUN ''f'' True False sample_environment =
   insert_env_vars (Some [setting (''A'', ''1'')]) sample_environment"
  using env_file_roundtrip [of "[(''A'', ''1'')]"
      "sample_env_sys\<lparr>env_fopen := \<lambda>_. Some (Env_file \<lparr>rest = file_entry (''A'', ''1''), read_fails = False\<rparr>)\<rparr>"
      "''f''" sample_env_defs MODE_RUN sample_environment]
  by (simp add: file_ok_def var_name_def newline_def ctype_simps)

theorem env_reachable_in_bounds_witness:
  "env_len sample_environment = 3 \<and> sudo_putenv ''A=1'' True True sample_environment \<noteq> Faulted"
proof -
  have "env_reachable sample_environment"
    unfolding sample_environment_def by (intro env_reachable.init env_reachable.start)
  from env_reachable_in_bounds [OF this, of "''A=1''" True True] show ?thesis
    by (simp add: sample_user_env_def)
qed

theorem env_swap_then_putenv_witness:
  "\<exists>env'. sudo_setenv ''C'' ''3'' True
      (snd (env_swap_old \<lparr>envp = Some [], old_envp = Some [''A=1'', ''B=2''], env_size = 128, env_len = 0\<rparr>)) = Done env' \<and>
    envp env' = Some [''C=3'']"
  using env_swap_then_putenv [of "[]"
      "\<lparr>envp = Some [], old_envp = Some [''A=1'', ''B=2''], env_size = 128, env_len = 0\<rparr>" "[''A=1'', ''B=2'']" "''C''" "''3''"]
  by (simp add: holds_def env_ok_def var_name_def entries_def named_def strncmp_eq_def)

end
