(* ===== verification/AuthSamples.thy ===== *)
theory AuthSamples
  imports AuthHistory TimestampSamples EnvSamples
begin

text \<open>
  Concrete instances of the properties of authentication: alice gives her password once and runs a
  second command with the ticket. The world of the methods is the password she types.
\<close>

definition sample_method :: "string sudo_auth" where
  "sample_method = \<lparr>auth_flags = 0, auth_status_field = AUTH_FAILURE, auth_name = ''passwd'', auth_init = None, auth_setup = None,
     auth_verify = (\<lambda>_ _ p w. Reply (if p = ''secret'' then AUTH_SUCCESS else AUTH_FAILURE) w),
     auth_approval = None, auth_cleanup = None, auth_begin_session = None, auth_end_session = None\<rparr>"

definition sample_auth_defs :: auth_defs where
  "sample_auth_defs = \<lparr>def_passwd_tries = 3, def_authenticate = True, def_intercept_authenticate = False,
     def_noninteractive_auth = False, def_rootpw = False, def_runaspw = False, def_targetpw = False,
     def_runas_default = ''root'', def_passprompt = ''Password: '', def_lecture = once\<rparr>"

definition sample_directory :: ts_directory where
  "sample_directory = \<lparr>dir_secure = True, dir_openat = (\<lambda>_. openat_result.Opened), dir_real_time = None,
     dir_boottime = None, dir_new_mtime = timespec0\<rparr>"

definition sample_auth_ctx :: ts_context where
  "sample_auth_ctx = sample_ts_ctx\<lparr>tc_sudo := sample_ctx\<lparr>user_uid := 1000, runas_pw := sample_pw ''root'' 0\<rparr>\<rparr>"

definition sample_auth_env :: "nat \<Rightarrow> string auth_env" where
  \<comment> \<open>at a second, with one suspension at the prompt\<close>
  "sample_auth_env now = \<lparr>ae_sys = empty_system, ae_ctx = sample_auth_ctx, ae_mode = 0, ae_sudo_defs = sample_sudo_defs,
     ae_defs = sample_auth_defs, ae_ts_defs = sample_ts_defs Tty, ae_shost = ''box'', ae_host = ''box.org'', ae_prompt = None,
     ae_lectured = True, ae_dir = (\<lambda>_. sample_directory), ae_mtime = (\<lambda>_. timespec0), ae_io = (\<lambda>_. sample_io),
     ae_starttime = sample_starttime, ae_now = Some (at_second now), ae_later = Some (at_second now),
     ae_interrupted = (\<lambda>_. False), ae_getpass = (\<lambda>_ w. Suspended (\<lambda>ok. Reply (if ok then Some w else None) w))\<rparr>"

definition sample_auth_state :: "bytes option \<Rightarrow> string \<Rightarrow> string auth_state" where
  "sample_auth_state file w = \<lparr>st_methods = [sample_method], st_standalone = False, st_world = w, st_blocked = False,
     st_lectured = False, st_file = file, st_cookie = None, st_opens = 0, st_trace = []\<rparr>"

definition sample_mode :: "32 word" where "sample_mode = or MODE_RUN MODE_UPDATE_TICKET"

definition sample_run :: "nat \<Rightarrow> bytes option \<Rightarrow> string \<Rightarrow> auth_status \<times> string auth_state" where
  "sample_run now file w = check_user (sample_auth_env now) VALIDATE_SUCCESS sample_mode (sample_auth_state file w)"

text \<open>The file after the first run: the lock record and the ticket.\<close>

definition sample_file :: bytes where
  "sample_file = [2, 0, 56, 0, 4, 0] @ replicate 50 0 @ [2, 0, 56, 0, 2, 0, 0, 0, 232, 3, 0, 0, 5, 0, 0, 0, 3] @ replicate 15 0 @
     [232, 3] @ replicate 14 0 @ [7] @ replicate 7 0"

lemma sample_run_first:
  "case sample_run 1000 None ''secret'' of (ret, st) \<Rightarrow>
     ret = AUTH_SUCCESS \<and> st_file st = Some sample_file \<and> st_trace st = [Verify ''passwd'' AUTH_SUCCESS]"
  by code_simp

lemma sample_run_second:
  "case sample_run 1200 (Some sample_file) ''guess'' of (ret, st) \<Rightarrow> ret = AUTH_SUCCESS \<and> st_trace st = []"
  by code_simp

lemma sample_run_late:
  "fst (sample_run 2000 (Some sample_file) ''guess'') = AUTH_FAILURE"
  by code_simp

section \<open>Witnesses\<close>

abbreviation sample_alice :: passwd where "sample_alice \<equiv> user_pw sample_ctx"

lemma sample_alice_uid: "pw_uid sample_alice = 1000"
  by code_simp

lemma sample_auth_ok: "writes_all (sample_auth_env now)"
  by (simp add: writes_all_def sample_auth_env_def sample_io_ok)

lemma sample_authpw: "fst (get_authpw (sample_auth_env now) sample_mode st) = Some sample_alice"
proof -
  have "\<not> ISSET sample_mode (or MODE_CHECK MODE_LIST)" by code_simp
  then show ?thesis
    by (simp add: get_authpw_def sample_auth_env_def sample_auth_defs_def sample_auth_ctx_def sample_ts_ctx_def Let_def)
qed

lemma sample_must_authenticate: "no_password (sample_auth_env 1200) sample_mode = None"
  by code_simp

lemma sample_sudo_history: "sudo_history TYPE(string) (Some sample_file) [Authenticated sample_auth_ctx sample_alice]"
proof -
  obtain ret st where r: "sample_run 1000 None ''secret'' = (ret, st)" by (rule prod.exhaust)
  then have st: "st_file st = Some sample_file" "st_trace st = [Verify ''passwd'' AUTH_SUCCESS]" using sample_run_first by auto
  have "sudo_history TYPE(string) (st_file st) (run_event_of (sample_auth_env 1000) sample_alice (st_trace st) [])"
    using r sample_auth_ok sample_authpw sudo_history.start
    by (intro sudo_history.run [where st = "sample_auth_state None ''secret''"])
      (auto simp: sample_auth_state_def sample_run_def)
  then show ?thesis by (simp add: st run_event_of_def sample_auth_env_def)
qed

theorem success_was_authenticated_witness:
  "\<exists>e. te_auth_uid e = 1000 \<and> fst (entry_status (sample_ts_defs Tty) sample_auth_ctx (Some (at_second 1200)) e) = TS_CURRENT"
proof -
  let ?env = "sample_auth_env 1200" and ?st = "sample_auth_state (Some sample_file) ''guess''"
  obtain ret st where r: "sample_run 1200 (Some sample_file) ''guess'' = (ret, st)" by (rule prod.exhaust)
  then have st: "ret = AUTH_SUCCESS" "st_trace st = []" using sample_run_second by auto
  have init: "st_file ?st = Some sample_file" "st_cookie ?st = None" "st_trace ?st = []" by (simp_all add: sample_auth_state_def)
  have run: "check_user ?env VALIDATE_SUCCESS sample_mode ?st = (AUTH_SUCCESS, st)" using r st(1) by (simp add: sample_run_def)
  have "\<not> ISSET (ae_mode ?env) MODE_POLICY_INTERCEPTED" by (simp add: sample_auth_env_def ISSET_def)
  then have "\<exists>e. te_auth_uid e = pw_uid sample_alice \<and> fst (entry_status (ae_ts_defs ?env) (ae_ctx ?env) (ae_now ?env) e) = TS_CURRENT"
    using success_was_authenticated [OF sample_sudo_history sample_auth_ok init sample_authpw run] sample_must_authenticate st(2)
    by auto
  then show ?thesis by (simp add: sample_alice_uid sample_auth_env_def)
qed

theorem verify_user_outcome_witness:
  "\<exists>new. st_trace (snd (verify_user (sample_auth_env 1000) sample_alice ''Password: '' 0 (sample_auth_state None ''guess''))) = new \<and>
     verifications new \<le> 3"
proof -
  obtain ret st where v: "verify_user (sample_auth_env 1000) sample_alice ''Password: '' 0 (sample_auth_state None ''guess'') = (ret, st)"
    by (rule prod.exhaust)
  have "st_methods (sample_auth_state None ''guess'') \<noteq> []" by (simp add: sample_auth_state_def)
  moreover have "st_trace (sample_auth_state None ''guess'') = []"
    "def_passwd_tries (ae_defs (sample_auth_env 1000)) * length (st_methods (sample_auth_state None ''guess'')) = 3"
    by (simp_all add: sample_auth_state_def sample_auth_env_def sample_auth_defs_def)
  ultimately show ?thesis using verify_user_outcome [OF v] unfolding v by auto
qed

theorem never_one_and_only_witness:
  "\<forall>a \<in> set (st_methods (snd (sudo_auth_init sample_mode sample_alice (sample_auth_state None ''secret'')))). \<not> IS_ONEANDONLY a"
proof -
  obtain r st where i: "sudo_auth_init sample_mode sample_alice (sample_auth_state None ''secret'') = (r, st)" by (rule prod.exhaust)
  have "\<forall>a \<in> set (st_methods (sample_auth_state None ''secret'')). \<not> IS_ONEANDONLY a"
    by (simp add: sample_auth_state_def sample_method_def IS_ONEANDONLY_def ISSET_def)
  from never_one_and_only [OF i this] show ?thesis by (simp add: i)
qed

end
