(* ===== verification/Timeout.thy ===== *)
theory Timeout
  imports Strto "HOL-Library.Word"
begin

text \<open>
  \<open>parse_timeout\<close> of \<open>timeout.c\<close>: command timeouts such as 1d2h3m4s. A \<open>long\<close> is a 64-bit and an
  \<open>int\<close> a 32-bit word, both read with \<open>sint\<close>; the result is a number of seconds or the error number.
\<close>

datatype timeout_error = EINVAL | ERANGE


definition timeout_suffixes :: string where "timeout_suffixes = ''dhms''"

definition find_suffix :: "char \<Rightarrow> nat \<Rightarrow> nat option" where
  \<comment> \<open>from the index of the last suffix on\<close>
  "find_suffix ch idx =
     (let i = idx + length (takeWhile (\<lambda>c. c \<noteq> ch) (drop idx timeout_suffixes))
      in if i < length timeout_suffixes then Some i else None)"

definition apply_suffix :: "char \<Rightarrow> 64 word \<Rightarrow> 64 word option" where
  "apply_suffix ch l =
     (if ch = CHR ''d'' then if sint l > INT_MAX div (24 * 60 * 60) then None else Some (l * (24 * 60 * 60))
      else if ch = CHR ''h'' then if sint l > INT_MAX div (60 * 60) then None else Some (l * (60 * 60))
      else if ch = CHR ''m'' then if sint l > INT_MAX div 60 then None else Some (l * 60)
      else Some l)"

definition timeout_number :: "string \<Rightarrow> timeout_error + 64 word \<times> string" where
  \<comment> \<open>\<open>strtol\<close>; a number outside its range, for which \<open>errno\<close> is \<open>ERANGE\<close>, is cut to one that is refused\<close>
  "timeout_number cp =
     (let (v, ep) = c_strtol 10 cp; l = of_int v in
      if ep = cp then Inl EINVAL
      else if sint l < 0 \<or> sint l > INT_MAX then Inl ERANGE
      else Inr (l, ep))"

definition timeout_part :: "string \<Rightarrow> nat \<Rightarrow> timeout_error + 64 word \<times> nat \<times> string" where
  "timeout_part cp idx =
     (case timeout_number cp of
        Inl e \<Rightarrow> Inl e
      | Inr (l, []) \<Rightarrow> Inr (l, idx, [])
      | Inr (l, c # ep) \<Rightarrow>
          (case find_suffix (c_tolower c) idx of
             None \<Rightarrow> Inl EINVAL
           | Some idx \<Rightarrow>
               (case apply_suffix (c_tolower c) l of None \<Rightarrow> Inl ERANGE | Some l \<Rightarrow> Inr (l, idx, ep))))"

lemma strtol_consumes: "c_strtol b cp = (v, ep) \<Longrightarrow> ep \<noteq> cp \<Longrightarrow> length ep < length cp"
proof -
  assume s: "c_strtol b cp = (v, ep)" "ep \<noteq> cp"
  define ds where "ds = (let t = dropWhile c_isspace cp in if c_at t = CHR ''-'' \<or> c_at t = CHR ''+'' then tl t else t)"
  have "takeWhile (base_digit b) ds \<noteq> []" "ep = dropWhile (base_digit b) ds"
    using s by (auto simp: c_strtol_def ds_def Let_def split: if_splits)
  moreover have "length ds \<le> length cp" using length_dropWhile_le [of c_isspace cp] by (auto simp: ds_def Let_def)
  moreover have "length ds = length (takeWhile (base_digit b) ds) + length (dropWhile (base_digit b) ds)"
    by (metis length_append takeWhile_dropWhile_id)
  ultimately show ?thesis by (cases "takeWhile (base_digit b) ds") auto
qed

lemma timeout_number_consumes: "timeout_number cp = Inr (l, ep) \<Longrightarrow> length ep < length cp"
  using strtol_consumes [of 10 cp] by (auto simp: timeout_number_def Let_def split: prod.splits if_splits)

lemma timeout_part_consumes: "timeout_part cp idx = Inr (l, i, ep) \<Longrightarrow> length ep < length cp"
  using timeout_number_consumes [of cp]
  by (fastforce simp: timeout_part_def split: sum.splits list.splits option.splits prod.splits)

function timeout_loop :: "string \<Rightarrow> 32 word \<Rightarrow> nat \<Rightarrow> timeout_error + 32 word" where
  "timeout_loop cp timeout idx =
     (case timeout_part cp idx of
        Inl e \<Rightarrow> Inl e
      | Inr (l, idx, cp) \<Rightarrow>
          if sint l > INT_MAX - sint timeout then Inl ERANGE
          else let timeout = timeout + of_int (sint l)
               in if cp = [] then Inr timeout else timeout_loop cp timeout idx)"
  by pat_completeness auto

termination timeout_loop
  by (relation "measure (\<lambda>(cp, timeout, idx). length cp)") (auto dest: timeout_part_consumes)

declare timeout_loop.simps [simp del]

definition parse_timeout :: "string \<Rightarrow> timeout_error + 32 word" where
  "parse_timeout timestr = timeout_loop timestr 0 0"

section \<open>What is parsed\<close>

definition seconds_of :: "char \<Rightarrow> int" where
  "seconds_of c = (if c = CHR ''d'' then 86400 else if c = CHR ''h'' then 3600 else if c = CHR ''m'' then 60 else 1)"

definition suffix_index :: "char \<Rightarrow> nat" where
  "suffix_index c = length (takeWhile (\<lambda>d. d \<noteq> c) timeout_suffixes)"

definition is_part :: "string \<times> char \<Rightarrow> bool" where
  "is_part = (\<lambda>(ds, c). ds \<noteq> [] \<and> list_all c_isdigit ds \<and> c_tolower c \<in> set timeout_suffixes)"

definition part_value :: "string \<times> char \<Rightarrow> int" where
  "part_value = (\<lambda>(ds, c). dval 0 ds * seconds_of (c_tolower c))"

definition parts_text :: "(string \<times> char) list \<Rightarrow> string" where
  "parts_text parts = concat (map (\<lambda>(ds, c). ds @ [c]) parts)"

lemma sint_of_int [simp]:
  "- (2 ^ 63) \<le> v \<Longrightarrow> v < 2 ^ 63 \<Longrightarrow> sint (of_int v :: 64 word) = v"
  "- (2 ^ 31) \<le> v \<Longrightarrow> v < 2 ^ 31 \<Longrightarrow> sint (of_int v :: 32 word) = v"
  by (simp_all add: sint_sbintrunc' signed_take_bit_int_eq_self)

lemma digits_val_dval: "digits_val 10 ds = dval 0 ds"
  by (simp add: digits_val_def dval_def)

lemma base_digit_10: "base_digit 10 = c_isdigit"
proof
  fix c
  show "base_digit 10 c = c_isdigit c"
  proof (cases "c_isdigit c")
    case True
    then have "digit_val c < 10" using digit_val_range [OF True] by linarith
    then show ?thesis using True by (simp add: base_digit_def)
  qed (simp add: base_digit_def)
qed

lemma suffix_no_digit: "c_tolower c \<in> set timeout_suffixes \<Longrightarrow> \<not> c_isdigit c"
  by (auto simp: timeout_suffixes_def c_tolower_def c_isupper_def c_isdigit_def split: if_splits)

lemma digit_at: "c_isdigit c \<Longrightarrow> \<not> c_isspace c \<and> c \<noteq> CHR ''-'' \<and> c \<noteq> CHR ''+''"
  by (auto simp: c_isdigit_def c_isspace_def)

lemma strtol_digits:
  assumes "ds \<noteq> []" "list_all c_isdigit ds" "\<not> c_isdigit c"
  shows "c_strtol 10 (ds @ c # rest) = (min (2 ^ 63 - 1) (dval 0 ds), c # rest)"
proof -
  obtain d ds' where ds: "ds = d # ds'" using assms(1) by (cases ds) auto
  have "takeWhile c_isdigit (ds @ c # rest) = ds" "dropWhile c_isdigit (ds @ c # rest) = c # rest"
    using assms(2,3) by (simp_all add: takeWhile_append2 dropWhile_append2 list_all_iff)
  moreover have "dropWhile c_isspace (ds @ c # rest) = ds @ c # rest" "c_at (ds @ c # rest) = d"
    using assms(2) digit_at by (simp_all add: ds c_at_def)
  ultimately show ?thesis using assms(1,2) digit_at [of d] by (simp add: c_strtol_def ds base_digit_10 digits_val_dval Let_def)
qed

lemma find_suffix_later:
  assumes "ch \<in> set timeout_suffixes" "idx \<le> suffix_index ch"
  shows "find_suffix ch idx = Some (suffix_index ch)"
proof -
  have "\<forall>ch \<in> set timeout_suffixes. \<forall>i \<in> {0, 1, 2, 3}. i \<le> suffix_index ch \<longrightarrow> find_suffix ch i = Some (suffix_index ch)"
    by code_simp
  moreover have "suffix_index ch \<le> 3" using assms(1) by (auto simp: suffix_index_def timeout_suffixes_def)
  then have "idx = 0 \<or> idx = 1 \<or> idx = 2 \<or> idx = 3" using assms(2) by linarith
  ultimately show ?thesis using assms by blast
qed

lemma apply_suffix_value:
  assumes "0 \<le> v" "v \<le> INT_MAX"
  shows "apply_suffix ch (of_int v) = (if v * seconds_of ch \<le> INT_MAX then Some (of_int (v * seconds_of ch)) else None)"
  using assms by (auto simp: apply_suffix_def seconds_of_def INT_MAX_def)

lemma part_value_le: "dval 0 ds \<le> part_value (ds, c)" if "list_all c_isdigit ds"
  using dval_ge [OF _ that, of 0] by (auto simp: part_value_def seconds_of_def)

lemma timeout_part_value:
  assumes "is_part (ds, c)" "idx \<le> suffix_index (c_tolower c)"
  shows "timeout_part (ds @ c # rest) idx =
    (if part_value (ds, c) \<le> INT_MAX then Inr (of_int (part_value (ds, c)), suffix_index (c_tolower c), rest) else Inl ERANGE)"
proof -
  have ds: "ds \<noteq> []" "list_all c_isdigit ds" "c_tolower c \<in> set timeout_suffixes" using assms(1) by (auto simp: is_part_def)
  note strtol = strtol_digits [OF ds(1,2) suffix_no_digit [OF ds(3)], of rest]
  have pos: "0 \<le> dval 0 ds" using dval_ge [OF _ ds(2), of 0] by simp
  show ?thesis
  proof (cases "dval 0 ds \<le> INT_MAX")
    case True
    then have "timeout_number (ds @ c # rest) = Inr (of_int (dval 0 ds), c # rest)"
      using ds(1) pos by (auto simp: timeout_number_def strtol INT_MAX_def)
    then show ?thesis using apply_suffix_value [OF pos True, of "c_tolower c"] find_suffix_later [OF ds(3) assms(2)]
      by (simp add: timeout_part_def part_value_def)
  next
    case False
    then have "timeout_number (ds @ c # rest) = Inl ERANGE"
      using ds(1) by (auto simp: timeout_number_def strtol INT_MAX_def min_def)
    then show ?thesis using False part_value_le [OF ds(2), of c] by (simp add: timeout_part_def)
  qed
qed

lemma part_value_ge: "is_part p \<Longrightarrow> 0 \<le> part_value p"
  using dval_ge [of 0 "fst p"] by (cases p) (auto simp: is_part_def part_value_def seconds_of_def)

lemma parts_value_ge: "\<forall>p \<in> set parts. is_part p \<Longrightarrow> 0 \<le> sum_list (map part_value parts)"
  by (intro sum_list_nonneg) (auto simp: part_value_ge)

lemma timeout_loop_value:
  assumes "parts \<noteq> []" "\<forall>p \<in> set parts. is_part p \<and> idx \<le> suffix_index (c_tolower (snd p))"
    and "sorted (map (\<lambda>p. suffix_index (c_tolower (snd p))) parts)" "0 \<le> t" "t \<le> INT_MAX"
  shows "timeout_loop (parts_text parts) (of_int t) idx =
    (if t + sum_list (map part_value parts) \<le> INT_MAX then Inr (of_int (t + sum_list (map part_value parts))) else Inl ERANGE)"
  using assms
proof (induction parts arbitrary: idx t)
  case (Cons p parts)
  obtain ds c where p: "p = (ds, c)" by fastforce
  have part: "is_part (ds, c)" "idx \<le> suffix_index (c_tolower c)" using Cons.prems(2) by (auto simp: p)
  let ?v = "part_value (ds, c)"
  have v: "0 \<le> ?v" by (rule part_value_ge [OF part(1)])
  have more: "0 \<le> sum_list (map part_value parts)" using Cons.prems(2) by (intro parts_value_ge) auto
  have shape: "parts_text (p # parts) = ds @ c # parts_text parts" by (simp add: parts_text_def p)
  note step = timeout_part_value [OF part, of "parts_text parts"] timeout_loop.simps [of "ds @ c # parts_text parts"]
  show ?case
  proof (cases "t + ?v \<le> INT_MAX")
    case False
    then have "\<not> t + (?v + sum_list (map part_value parts)) \<le> INT_MAX" using more by linarith
    moreover have "timeout_loop (parts_text (p # parts)) (of_int t) idx = Inl ERANGE"
      using False v Cons.prems(4,5) by (cases "?v \<le> INT_MAX") (simp_all add: shape step INT_MAX_def)
    ultimately show ?thesis by (simp add: p)
  next
    case True
    then have le: "?v \<le> INT_MAX" "?v \<le> INT_MAX - t" using Cons.prems(4) by linarith+
    have now: "timeout_loop (parts_text (p # parts)) (of_int t) idx =
        (if parts_text parts = [] then Inr (of_int (t + ?v)) else timeout_loop (parts_text parts) (of_int (t + ?v)) (suffix_index (c_tolower c)))"
      using le v Cons.prems(4,5) by (simp add: shape step INT_MAX_def)
    show ?thesis
    proof (cases parts)
      case Nil
      then show ?thesis using now True by (simp add: p parts_text_def)
    next
      case (Cons q qs)
      have "parts_text parts \<noteq> []" using Cons by (cases q) (simp add: parts_text_def)
      moreover have "timeout_loop (parts_text parts) (of_int (t + ?v)) (suffix_index (c_tolower c)) =
          (if (t + ?v) + sum_list (map part_value parts) \<le> INT_MAX
           then Inr (of_int ((t + ?v) + sum_list (map part_value parts))) else Inl ERANGE)"
        by (rule Cons.IH) (use Cons Cons.prems True v in \<open>auto simp: p\<close>)
      ultimately show ?thesis using now by (simp add: p add.assoc)
    qed
  qed
qed simp

text \<open>
  C40. A sequence of numbers with suffixes, from days to seconds (a suffix may be repeated, and may be a
  capital letter), gives the sum of what they stand for when it is at most \<open>INT_MAX\<close> and \<open>ERANGE\<close>
  otherwise, with numbers of any length; no intermediate result overflows.
\<close>

theorem parse_timeout_value:
  assumes "parts \<noteq> []" "\<forall>p \<in> set parts. is_part p" "sorted (map (\<lambda>p. suffix_index (c_tolower (snd p))) parts)"
  shows "parse_timeout (parts_text parts) =
    (let total = sum_list (map part_value parts) in if total \<le> INT_MAX then Inr (of_int total) else Inl ERANGE)"
  using timeout_loop_value [OF assms(1) _ assms(3), of 0 0] assms(2) by (simp add: parse_timeout_def INT_MAX_def)

theorem parse_timeout_value_witness:
  "parse_timeout ''1D2h30m'' = Inr 95400 \<and> parse_timeout ''24855d4h'' = Inl ERANGE"
proof -
  have v: "part_value (''1'', CHR ''D'') = 86400" "part_value (''2'', CHR ''h'') = 7200" "part_value (''30'', CHR ''m'') = 1800"
    "part_value (''24855'', CHR ''d'') = 2147472000" "part_value (''4'', CHR ''h'') = 14400"
    by code_simp+
  have "is_part (''1'', CHR ''D'')" "is_part (''2'', CHR ''h'')" "is_part (''30'', CHR ''m'')"
    "is_part (''24855'', CHR ''d'')" "is_part (''4'', CHR ''h'')" by code_simp+
  moreover have "sorted (map (\<lambda>p. suffix_index (c_tolower (snd p))) [(''1'', CHR ''D''), (''2'', CHR ''h''), (''30'', CHR ''m'')])"
    "sorted (map (\<lambda>p. suffix_index (c_tolower (snd p))) [(''24855'', CHR ''d''), (''4'', CHR ''h'')])" by code_simp+
  ultimately show ?thesis
    using parse_timeout_value [of "[(''1'', CHR ''D''), (''2'', CHR ''h''), (''30'', CHR ''m'')]"]
      parse_timeout_value [of "[(''24855'', CHR ''d''), (''4'', CHR ''h'')]"]
    by (simp_all add: v parts_text_def INT_MAX_def)
qed

end
