(* ===== verification/Defaults.thy ===== *)
theory Defaults
  imports Lookup Files Timeout Timestamp
begin

text \<open>
  \<open>defaults.c\<close>: the table of settings and the entries that change it. The table \<open>sudo_defs_table\<close>
  is that of \<open>def_data.c\<close> or any other; an entry has a name, a type word, the values of a tuple
  and the current value, whose constructor is the member of the union in use (the 32-bit members
  share one). The names of \<open>lib/util/logfac.c\<close> and \<open>logpri.c\<close> have the numbers of \<open>syslog.h\<close>. The
  largest length of a path, the functions that the callbacks of the table run and the command matcher
  are parameters; a callback may change other settings. Memory is allocated; the positions in files of the warnings are left out.
\<close>

section \<open>The table\<close>

datatype defs_val = Flag bool | Ival "32 word" | Str "string option" | Tspec timespec | Members "string list"

record sudo_defs_types =
  dt_name :: string
  dt_type :: "32 word"
  dt_values :: "(string \<times> 32 word) list"
  dt_val :: defs_val

definition T_INT :: "32 word" where "T_INT = 0x001"
definition T_UINT :: "32 word" where "T_UINT = 0x002"
definition T_STR :: "32 word" where "T_STR = 0x003"
definition T_FLAG :: "32 word" where "T_FLAG = 0x004"
definition T_MODE :: "32 word" where "T_MODE = 0x005"
definition T_LIST :: "32 word" where "T_LIST = 0x006"
definition T_LOGFAC :: "32 word" where "T_LOGFAC = 0x007"
definition T_LOGPRI :: "32 word" where "T_LOGPRI = 0x008"
definition T_TUPLE :: "32 word" where "T_TUPLE = 0x009"
definition T_TIMESPEC :: "32 word" where "T_TIMESPEC = 0x010"
definition T_TIMEOUT :: "32 word" where "T_TIMEOUT = 0x011"
definition T_RLIMIT :: "32 word" where "T_RLIMIT = 0x012"
definition T_PLUGIN :: "32 word" where "T_PLUGIN = 0x013"
definition T_MASK :: "32 word" where "T_MASK = 0x0FF"
definition T_BOOL :: "32 word" where "T_BOOL = 0x100"
definition T_PATH :: "32 word" where "T_PATH = 0x200"
definition T_CHPATH :: "32 word" where "T_CHPATH = 0x400"
definition T_SPACE :: "32 word" where "T_SPACE = 0x800"

lemmas T_defs = T_INT_def T_UINT_def T_STR_def T_FLAG_def T_MODE_def T_LIST_def T_LOGFAC_def T_LOGPRI_def T_TUPLE_def
  T_TIMESPEC_def T_TIMEOUT_def T_RLIMIT_def T_PLUGIN_def

text \<open>The operators: true, false, + and -.\<close>

abbreviation (input) op_true :: int where "op_true \<equiv> 1"
abbreviation (input) op_false :: int where "op_false \<equiv> 0"
abbreviation (input) op_add :: int where "op_add \<equiv> 43"
abbreviation (input) op_delete :: int where "op_delete \<equiv> 45"

datatype stored = Stored defs_val | Not_stored | Refused \<comment> \<open>true, false, -1\<close>

datatype defs_warning =
    Unknown_default string
  | No_value string
  | Invalid_operator string
  | Path_too_long string
  | Path_not_absolute string
  | Takes_no_value string
  | Invalid_type string
  | Invalid_value string

section \<open>Storing values\<close>

definition store_int :: "string option \<Rightarrow> stored" where
  "store_int str =
     (case str of None \<Rightarrow> Stored (Ival 0)
      | Some s \<Rightarrow> (case sudo_strtonum s INT_MIN INT_MAX of Some (i, None) \<Rightarrow> Stored (Ival (of_int i)) | _ \<Rightarrow> Not_stored))"

definition store_uint :: "string option \<Rightarrow> stored" where
  "store_uint str =
     (case str of None \<Rightarrow> Stored (Ival 0)
      | Some s \<Rightarrow> (case sudo_strtonum s 0 UINT_MAX of Some (u, None) \<Rightarrow> Stored (Ival (of_int u)) | _ \<Rightarrow> Not_stored))"

definition store_str :: "string option \<Rightarrow> stored" where
  "store_str str = Stored (Str str)"

definition ULLONG_MAX :: int where "ULLONG_MAX = 2 ^ 64 - 1"

definition check_rlimit :: "string \<Rightarrow> bool \<Rightarrow> bool" where
  "check_rlimit str soft =
     (let at_end = (\<lambda>ep. ep = [] \<or> soft \<and> c_at ep = CHR '','') in
      if c_isdigit (c_at str)
      then digits_val 10 (takeWhile c_isdigit str) \<le> ULLONG_MAX \<and> at_end (dropWhile c_isdigit str)
      else strncmp_eq str ''infinity'' 8 \<and> at_end (drop 8 str))"

definition store_rlimit :: "string option \<Rightarrow> stored" where
  "store_rlimit str =
     (case str of None \<Rightarrow> store_str None
      | Some s \<Rightarrow>
          if s = ''user'' \<or> s = ''default'' then store_str str
          else let hard = (case strchr s (CHR '','') of Some h \<Rightarrow> tl h | None \<Rightarrow> s)
               in if \<not> check_rlimit s True then Not_stored
                  else if \<not> check_rlimit hard False then Not_stored
                  else store_str str)"

text \<open>Minutes with a fraction become seconds and nanoseconds; \<open>nsec\<close> is a \<open>long long\<close> and stays small.\<close>

definition TIME_T_MAX :: int where "TIME_T_MAX = 2 ^ 63 - 1"

fun ts_minutes :: "string \<Rightarrow> 64 word \<Rightarrow> (64 word \<times> string) option" where
  "ts_minutes [] sec = Some (sec, [])"
| "ts_minutes (c # str) sec =
     (if c = CHR ''.'' then Some (sec, c # str)
      else if \<not> c_isdigit c then None
      else let i = digit_val c * 60
           in if sint sec > (TIME_T_MAX - i) div 10 then None else ts_minutes str (sec * 10 + of_int i))"

fun ts_fraction :: "int \<Rightarrow> string \<Rightarrow> int \<Rightarrow> int option" where
  "ts_fraction i [] nsec = Some nsec"
| "ts_fraction i (c # str) nsec =
     (if i \<le> 0 then Some nsec
      else if \<not> c_isdigit c then None
      else ts_fraction (i div 10) str (nsec + i * digit_val c * 60))"

function ts_carry :: "64 word \<Rightarrow> int \<Rightarrow> (64 word \<times> int) option" where
  "ts_carry sec nsec =
     (if nsec \<ge> 1000000000
      then if sint sec = TIME_T_MAX then None else ts_carry (sec + 1) (nsec - 1000000000)
      else Some (sec, nsec))"
  by pat_completeness auto

termination ts_carry
  by (relation "measure (\<lambda>(sec, nsec). nat nsec)") auto

declare ts_carry.simps [simp del]

definition store_timespec :: "string option \<Rightarrow> stored" where
  "store_timespec str =
     (case str of None \<Rightarrow> Stored (Tspec timespec0)
      | Some s \<Rightarrow>
          let sign = (if c_at s = CHR ''+'' \<or> c_at s = CHR ''-'' then c_at s else CHR ''+'');
              s = (if c_at s = CHR ''+'' \<or> c_at s = CHR ''-'' then tl s else s)
          in case ts_minutes s 0 of None \<Rightarrow> Not_stored
             | Some (sec, rest) \<Rightarrow>
                 (case (if rest = [] then Some (sec, 0) else Option.bind (ts_fraction 100000000 (tl rest) 0) (ts_carry sec)) of
                    None \<Rightarrow> Not_stored
                  | Some (sec, nsec) \<Rightarrow>
                      let nsec = of_int nsec in
                      Stored (Tspec (if sign = CHR ''-'' then \<lparr>tv_sec = - sec, tv_nsec = - nsec\<rparr>
                                     else \<lparr>tv_sec = sec, tv_nsec = nsec\<rparr>))))"

definition store_tuple :: "string option \<Rightarrow> (string \<times> 32 word) list \<Rightarrow> int \<Rightarrow> stored" where
  "store_tuple str values op =
     (case str of
        None \<Rightarrow>
          if op = op_true then Stored (Ival (snd (values ! 1)))
          else if op = op_false then Stored (Ival (snd (values ! 0)))
          else Not_stored
      | Some s \<Rightarrow> (case map_of values s of Some v \<Rightarrow> Stored (Ival v) | None \<Rightarrow> Not_stored))"

datatype list_ops = List_add | List_delete | List_freeall

definition list_op :: "string \<Rightarrow> list_ops \<Rightarrow> string list \<Rightarrow> string list" where
  "list_op str op members =
     (case op of
        List_freeall \<Rightarrow> []
      | List_add \<Rightarrow> if str \<in> set members then members else str # members
      | List_delete \<Rightarrow> remove1 str members)"

function list_words :: "string \<Rightarrow> list_ops \<Rightarrow> string list \<Rightarrow> string list" where
  "list_words str op members =
     (case sudo_strsplit str [CHR '' '', CHR 0x09] of
        None \<Rightarrow> members
      | Some (w, rest) \<Rightarrow> list_words rest op (list_op w op members))"
  by pat_completeness auto

termination list_words
  by (relation "measure (\<lambda>(str, op, members). length str)") (auto dest: sudo_strsplit_shorter)

declare list_words.simps [simp del]

definition members_of :: "defs_val \<Rightarrow> string list" where
  "members_of v = (case v of Members l \<Rightarrow> l | _ \<Rightarrow> [])"

definition cleared :: "int \<Rightarrow> defs_val \<Rightarrow> string list" where
  "cleared op v = (if op = op_false \<or> op = op_true then list_op [] List_freeall (members_of v) else members_of v)"

definition store_list :: "string option \<Rightarrow> 32 word \<Rightarrow> defs_val \<Rightarrow> int \<Rightarrow> stored" where
  "store_list str type v op =
     (let lop = (if op = op_delete then List_delete else List_add) in
      Stored (Members
        (case str of None \<Rightarrow> cleared op v
         | Some s \<Rightarrow> if ISSET type T_SPACE then list_op s lop (cleared op v) else list_words s lop (cleared op v))))"

definition store_plugin :: "string option \<Rightarrow> defs_val \<Rightarrow> int \<Rightarrow> stored" where
  "store_plugin str v op =
     Stored (Members
       (case str of None \<Rightarrow> cleared op v
        | Some s \<Rightarrow> list_op s (if op = op_delete then List_delete else List_add) (cleared op v)))"

definition store_mode :: "string option \<Rightarrow> stored" where
  "store_mode str =
     (case str of None \<Rightarrow> Stored (Ival (of_int ACCESSPERMS))
      | Some s \<Rightarrow> (case sudo_strtomode s of (mode, None) \<Rightarrow> Stored (Ival mode) | _ \<Rightarrow> Not_stored))"

definition store_timeout :: "string option \<Rightarrow> stored" where
  "store_timeout str =
     (case str of None \<Rightarrow> Stored (Ival 0)
      | Some s \<Rightarrow> (case parse_timeout s of Inr seconds \<Rightarrow> Stored (Ival seconds) | Inl _ \<Rightarrow> Not_stored))"

definition facilities :: "(string \<times> 32 word) list" where
  "facilities = [(''authpriv'', 80), (''auth'', 32), (''daemon'', 24), (''user'', 8), (''local0'', 128), (''local1'', 136),
     (''local2'', 144), (''local3'', 152), (''local4'', 160), (''local5'', 168), (''local6'', 176), (''local7'', 184)]"

definition priorities :: "(string \<times> 32 word) list" where
  "priorities = [(''alert'', 1), (''crit'', 2), (''debug'', 7), (''emerg'', 0), (''err'', 3), (''info'', 6), (''notice'', 5),
     (''warning'', 4), (''none'', -1)]"

definition sudo_str2logfac :: "string \<Rightarrow> 32 word option" where "sudo_str2logfac str = map_of facilities str"

definition sudo_str2logpri :: "string \<Rightarrow> 32 word option" where "sudo_str2logpri str = map_of priorities str"

definition store_syslog :: "32 word \<Rightarrow> (string \<Rightarrow> 32 word option) \<Rightarrow> string option \<Rightarrow> stored" where
  \<comment> \<open>\<open>store_syslogfac\<close> and \<open>store_syslogpri\<close>, with the value for none\<close>
  "store_syslog none look str =
     (case str of None \<Rightarrow> Stored (Ival none)
      | Some s \<Rightarrow> (case look s of Some n \<Rightarrow> Stored (Ival n) | None \<Rightarrow> Not_stored))"

end
