(* ===== verification/DefaultsUpdate.thy ===== *)
theory DefaultsUpdate
  imports Defaults
begin

text \<open>
  \<open>parse_default_entry\<close>, \<open>set_default\<close>, the early defaults and \<open>update_defaults\<close> of \<open>defaults.c\<close>,
  with the bindings of an entry decided by the matchers of \<open>match.c\<close> under the settings of that moment.
\<close>

record 'w defs_state =
  ds_table :: "sudo_defs_types list"
  ds_pending :: "nat list" \<comment> \<open>the early defaults with \<open>run_callback\<close> set\<close>
  ds_ctx :: sudo_context
  ds_match :: match_state
  ds_world :: 'w
  ds_warnings :: "defs_warning list"

record 'w defs_env =
  de_sys :: system
  de_LOGFAC :: string
  de_PATH_MAX :: nat
  de_settings :: "sudo_defs_types list \<Rightarrow> sudo_defs" \<comment> \<open>the macros of \<open>def_data.h\<close>\<close>
  de_matcher :: "sudo_defs \<Rightarrow> command_matcher"
  de_callback :: "nat \<Rightarrow> (defs_val \<Rightarrow> int \<Rightarrow> 'w defs_state \<Rightarrow> bool \<times> 'w defs_state) option"

definition I_FQDN :: nat where "I_FQDN = 22"
definition I_RUNAS_DEFAULT :: nat where "I_RUNAS_DEFAULT = 51"
definition I_SUDOERS_LOCALE :: nat where "I_SUDOERS_LOCALE = 69"
definition I_GROUP_PLUGIN :: nat where "I_GROUP_PLUGIN = 83"
definition I_MATCH_GROUP_BY_GID :: nat where "I_MATCH_GROUP_BY_GID = 107"
definition I_IGNORE_UNKNOWN_DEFAULTS :: nat where "I_IGNORE_UNKNOWN_DEFAULTS = 113"

definition early_defaults :: "nat list" where
  "early_defaults = [I_IGNORE_UNKNOWN_DEFAULTS, I_FQDN, I_MATCH_GROUP_BY_GID, I_GROUP_PLUGIN, I_RUNAS_DEFAULT, I_SUDOERS_LOCALE]"

section \<open>One entry\<close>

definition valid_path :: "'w defs_env \<Rightarrow> sudo_defs_types \<Rightarrow> string \<Rightarrow> bool \<times> defs_warning list" where
  "valid_path env def val =
     (let long = length val \<ge> de_PATH_MAX env;
          bad = (if ISSET (dt_type def) T_CHPATH
                 then c_at val \<noteq> CHR ''/'' \<and> c_at val \<noteq> CHR ''~'' \<and> val \<noteq> ''*''
                 else c_at val \<noteq> CHR ''/'')
      in (\<not> long \<and> \<not> bad,
          (if bad then [Path_not_absolute (dt_name def)] else []) @ (if long then [Path_too_long (dt_name def)] else [])))"

definition store_value :: "'w defs_env \<Rightarrow> sudo_defs_types \<Rightarrow> string option \<Rightarrow> int \<Rightarrow> stored \<times> defs_warning list" where
  "store_value env def val op =
     (let type = and (dt_type def) T_MASK in
      if type = T_LOGFAC then (store_syslog 0 sudo_str2logfac val, [])
      else if type = T_LOGPRI then (store_syslog (- 1) sudo_str2logpri val, [])
      else if type = T_STR
      then (case val of
              None \<Rightarrow> (store_str val, [])
            | Some v \<Rightarrow>
                if ISSET (dt_type def) (or T_PATH T_CHPATH) \<and> \<not> fst (valid_path env def v)
                then (Refused, snd (valid_path env def v)) else (store_str val, []))
      else if type = T_INT then (store_int val, [])
      else if type = T_UINT then (store_uint val, [])
      else if type = T_MODE then (store_mode val, [])
      else if type = T_FLAG
      then (if val \<noteq> None then (Refused, [Takes_no_value (dt_name def)]) else (Stored (Flag (op \<noteq> 0)), []))
      else if type = T_LIST then (store_list val (dt_type def) (dt_val def) op, [])
      else if type = T_TIMEOUT then (store_timeout val, [])
      else if type = T_TUPLE then (store_tuple val (dt_values def) op, [])
      else if type = T_TIMESPEC then (store_timespec val, [])
      else if type = T_PLUGIN then (store_plugin val (dt_val def) op, [])
      else if type = T_RLIMIT then (store_rlimit val, [])
      else (Refused, [Invalid_type (dt_name def)]))"

definition lacks_value :: "sudo_defs_types \<Rightarrow> int \<Rightarrow> bool" where
  \<comment> \<open>an entry without value is an error\<close>
  "lacks_value def op =
     (let type = and (dt_type def) T_MASK in
      type \<noteq> T_LOGFAC \<and> type \<noteq> T_FLAG \<and> \<not> (type = T_TUPLE \<and> ISSET (dt_type def) T_BOOL) \<and>
      (\<not> ISSET (dt_type def) T_BOOL \<or> op \<noteq> op_false))"

definition parse_default_entry :: "'w defs_env \<Rightarrow> sudo_defs_types \<Rightarrow> string option \<Rightarrow> int \<Rightarrow> bool \<times> defs_val \<times> defs_warning list" where
  \<comment> \<open>with the value of the entry afterwards\<close>
  "parse_default_entry env def val op =
     (let type = and (dt_type def) T_MASK;
          val' = (if val = None \<and> type = T_LOGFAC \<and> op = op_true then Some (de_LOGFAC env) else val)
      in if val = None \<and> lacks_value def op then (False, dt_val def, [No_value (dt_name def)])
         else if (op = op_add \<or> op = op_delete) \<and> type \<noteq> T_LIST then (False, dt_val def, [Invalid_operator (dt_name def)])
         else case store_value env def val' op of
                (Stored v, ws) \<Rightarrow> (True, v, ws)
              | (Not_stored, ws) \<Rightarrow> (False, dt_val def, Invalid_value (dt_name def) # ws)
              | (Refused, ws) \<Rightarrow> (False, dt_val def, ws))"

fun find_index :: "string \<Rightarrow> sudo_defs_types list \<Rightarrow> nat option" where
  "find_index name [] = None"
| "find_index name (d # ds) = (if name = dt_name d then Some 0 else map_option Suc (find_index name ds))"

definition def_ignore_unknown_defaults :: "sudo_defs_types list \<Rightarrow> bool" where
  "def_ignore_unknown_defaults table = (dt_val (table ! I_IGNORE_UNKNOWN_DEFAULTS) = Flag True)"

definition warn :: "defs_warning list \<Rightarrow> 'w defs_state \<Rightarrow> 'w defs_state" where
  "warn ws st = st\<lparr>ds_warnings := ws @ ds_warnings st\<rparr>"

definition find_default :: "string \<Rightarrow> 'w defs_state \<Rightarrow> nat option \<times> 'w defs_state" where
  "find_default name st =
     (case find_index name (ds_table st) of
        Some i \<Rightarrow> (Some i, st)
      | None \<Rightarrow> (None, if def_ignore_unknown_defaults (ds_table st) then st else warn [Unknown_default name] st))"

definition is_early_default :: "sudo_defs_types list \<Rightarrow> string \<Rightarrow> nat option" where
  "is_early_default table name = find (\<lambda>i. name = dt_name (table ! i)) early_defaults"

definition store_entry :: "'w defs_env \<Rightarrow> nat \<Rightarrow> string option \<Rightarrow> int \<Rightarrow> 'w defs_state \<Rightarrow> bool \<times> 'w defs_state" where
  \<comment> \<open>\<open>parse_default_entry\<close> on the table\<close>
  "store_entry env idx val op st =
     (let def = ds_table st ! idx; (ok, v, ws) = parse_default_entry env def val op
      in (ok, warn ws (st\<lparr>ds_table := (ds_table st)[idx := def\<lparr>dt_val := v\<rparr>]\<rparr>)))"

definition run_callback :: "'w defs_env \<Rightarrow> nat \<Rightarrow> int \<Rightarrow> 'w defs_state \<Rightarrow> bool \<times> 'w defs_state" where
  "run_callback env idx op st =
     (case de_callback env idx of None \<Rightarrow> (True, st) | Some f \<Rightarrow> f (dt_val (ds_table st ! idx)) op st)"

definition set_default :: "'w defs_env \<Rightarrow> string \<Rightarrow> string option \<Rightarrow> int \<Rightarrow> 'w defs_state \<Rightarrow> bool \<times> 'w defs_state" where
  "set_default env var val op st =
     (case find_default var st of
        (None, st) \<Rightarrow> (False, st)
      | (Some idx, st) \<Rightarrow>
          let (ok, st) = store_entry env idx val op st in if ok then run_callback env idx op st else (False, st))"

definition set_early_default :: "'w defs_env \<Rightarrow> string \<Rightarrow> string option \<Rightarrow> int \<Rightarrow> nat \<Rightarrow> 'w defs_state \<Rightarrow> bool \<times> 'w defs_state" where
  "set_early_default env var val op early st =
     (case find_default var st of
        (None, st) \<Rightarrow> (False, st)
      | (Some idx, st) \<Rightarrow>
          let (ok, st) = store_entry env idx val op st
          in if ok then (True, st\<lparr>ds_pending := early # ds_pending st\<rparr>) else (False, st))"

fun run_early_defaults :: "'w defs_env \<Rightarrow> nat list \<Rightarrow> 'w defs_state \<Rightarrow> bool \<times> 'w defs_state" where
  "run_early_defaults env [] st = (True, st)"
| "run_early_defaults env (idx # early) st =
     (if idx \<in> set (ds_pending st)
      then let (ok, st) = run_callback env idx op_true st;
               st = st\<lparr>ds_pending := removeAll idx (ds_pending st)\<rparr>;
               (ret, st) = run_early_defaults env early st
           in (ok \<and> ret, st)
      else run_early_defaults env early st)"

section \<open>Updating the settings\<close>

definition SETDEF_GENERIC :: "32 word" where "SETDEF_GENERIC = 0x01"
definition SETDEF_HOST :: "32 word" where "SETDEF_HOST = 0x02"
definition SETDEF_USER :: "32 word" where "SETDEF_USER = 0x04"
definition SETDEF_RUNAS :: "32 word" where "SETDEF_RUNAS = 0x08"
definition SETDEF_CMND :: "32 word" where "SETDEF_CMND = 0x10"

definition default_type_matches :: "defaults \<Rightarrow> 32 word \<Rightarrow> bool" where
  "default_type_matches d what =
     (case d_type d of
        DEFAULTS \<Rightarrow> ISSET what SETDEF_GENERIC
      | DEFAULTS_USER \<Rightarrow> ISSET what SETDEF_USER
      | DEFAULTS_RUNAS \<Rightarrow> ISSET what SETDEF_RUNAS
      | DEFAULTS_HOST \<Rightarrow> ISSET what SETDEF_HOST
      | DEFAULTS_CMND \<Rightarrow> ISSET what SETDEF_CMND)"

definition default_binding_matches :: "'w defs_env \<Rightarrow> parse_tree \<Rightarrow> defaults \<Rightarrow> 'w defs_state \<Rightarrow> bool \<times> 'w defs_state" where
  "default_binding_matches env pt d st =
     (let sys = de_sys env; df = de_settings env (ds_table st); ctx = ds_ctx st in
      case d_type d of
        DEFAULTS \<Rightarrow> (True, st)
      | DEFAULTS_USER \<Rightarrow> (userlist_matches sys df ctx pt (user_pw ctx) (d_binding d) = ALLOW, st)
      | DEFAULTS_RUNAS \<Rightarrow> (fst (runaslist_matches sys df ctx pt (Some (d_binding d)) None None) = ALLOW, st)
      | DEFAULTS_HOST \<Rightarrow> (hostlist_matches sys df ctx pt (user_pw ctx) (d_binding d) = ALLOW, st)
      | DEFAULTS_CMND \<Rightarrow>
          let (m, s) = cmndlist_matches (de_matcher env df) pt (d_binding d) None (ds_match st)
          in (m = ALLOW, st\<lparr>ds_match := s\<rparr>))"

definition entry_matches :: "'w defs_env \<Rightarrow> parse_tree \<Rightarrow> 32 word \<Rightarrow> defaults \<Rightarrow> 'w defs_state \<Rightarrow> bool \<times> 'w defs_state" where
  "entry_matches env pt what d st =
     (if \<not> default_type_matches d what then (False, st) else default_binding_matches env pt d st)"

text \<open>The two passes over the entries: the early ones, and the others (or all of them, for a list of its own).\<close>

definition apply_early :: "'w defs_env \<Rightarrow> parse_tree \<Rightarrow> 32 word \<Rightarrow> defaults \<Rightarrow> 'w defs_state \<Rightarrow> bool \<times> 'w defs_state" where
  "apply_early env pt what d st =
     (case is_early_default (ds_table st) (d_var d) of
        None \<Rightarrow> (True, st)
      | Some early \<Rightarrow>
          let (m, st) = entry_matches env pt what d st
          in if m then set_early_default env (d_var d) (d_val d) (d_op d) early st else (True, st))"

definition apply_late :: "'w defs_env \<Rightarrow> parse_tree \<Rightarrow> 32 word \<Rightarrow> bool \<Rightarrow> defaults \<Rightarrow> 'w defs_state \<Rightarrow> bool \<times> 'w defs_state" where
  "apply_late env pt what global_defaults d st =
     (if global_defaults \<and> is_early_default (ds_table st) (d_var d) \<noteq> None then (True, st)
      else let (m, st) = entry_matches env pt what d st
           in if m then set_default env (d_var d) (d_val d) (d_op d) st else (True, st))"

primrec each_default :: "(defaults \<Rightarrow> 'w defs_state \<Rightarrow> bool \<times> 'w defs_state) \<Rightarrow> defaults list \<Rightarrow> 'w defs_state \<Rightarrow> bool \<times> 'w defs_state" where
  \<comment> \<open>\<open>TAILQ_FOREACH\<close>; an entry that fails does not end the loop\<close>
  "each_default f [] st = (True, st)"
| "each_default f (d # ds) st = (let (ok, st) = f d st; (ret, st) = each_default f ds st in (ok \<and> ret, st))"

definition update_defaults :: "'w defs_env \<Rightarrow> parse_tree \<Rightarrow> defaults list option \<Rightarrow> 32 word \<Rightarrow> 'w defs_state \<Rightarrow> bool \<times> 'w defs_state" where
  "update_defaults env pt defs what st =
     (case defs of
        Some ds \<Rightarrow> each_default (apply_late env pt what False) ds st
      | None \<Rightarrow>
          let (ok1, st) = each_default (apply_early env pt what) (pt_defaults pt) st;
              (ok2, st) = run_early_defaults env early_defaults st;
              (ok3, st) = each_default (apply_late env pt what True) (pt_defaults pt) st
          in (ok1 \<and> ok2 \<and> ok3, st))"

section \<open>Checking without setting\<close>

definition zero_val :: "32 word \<Rightarrow> defs_val" where
  \<comment> \<open>\<open>memset\<close> of the union\<close>
  "zero_val t =
     (let type = and t T_MASK in
      if type = T_FLAG then Flag False
      else if type = T_STR \<or> type = T_RLIMIT then Str None
      else if type = T_TIMESPEC then Tspec timespec0
      else if type = T_LIST \<or> type = T_PLUGIN then Members []
      else Ival 0)"

definition check_default :: "'w defs_env \<Rightarrow> defaults \<Rightarrow> 'w defs_state \<Rightarrow> bool \<times> 'w defs_state" where
  "check_default env d st =
     (case find_default (d_var d) st of
        (None, st) \<Rightarrow> (False, st)
      | (Some idx, st) \<Rightarrow>
          let def = ds_table st ! idx; def = def\<lparr>dt_val := zero_val (dt_type def)\<rparr>;
              (ok, _, ws) = parse_default_entry env def (d_val d) (d_op d)
          in (ok, warn ws st))"

definition check_defaults :: "'w defs_env \<Rightarrow> parse_tree \<Rightarrow> 'w defs_state \<Rightarrow> bool \<times> 'w defs_state" where
  "check_defaults env pt st = each_default (check_default env) (pt_defaults pt) st"

definition append_default :: "string \<Rightarrow> string option \<Rightarrow> int \<Rightarrow> defaults list \<Rightarrow> defaults list" where
  "append_default var val op defs = defs @ [\<lparr>d_var = var, d_val = val, d_binding = [], d_type = DEFAULTS, d_op = op\<rparr>]"

definition cb_passprompt_regex :: "(string \<Rightarrow> bool) \<Rightarrow> defs_val \<Rightarrow> int \<Rightarrow> bool" where
  \<comment> \<open>given whether \<open>sudo_regex_compile\<close> accepts a string\<close>
  "cb_passprompt_regex compiles v op =
     (if op = op_add \<or> op = op_true then list_all compiles (members_of v) else True)"

end
