(* ===== verification/DefaultsProps.thy ===== *)
theory DefaultsProps
  imports DefaultsUpdate
begin

text \<open>
  Properties of the settings: every value has the shape its type says, lists have no duplicates, an
  entry that is refused changes nothing and is reported, what the stored times and lists are, the
  last entry of a variable decides, and entries that pass the check can be set.
\<close>

section \<open>Types of values\<close>

definition normal_time :: "timespec \<Rightarrow> bool" where
  "normal_time t \<longleftrightarrow> \<bar>sint (tv_nsec t)\<bar> < 1000000000"

definition typed_val :: "32 word \<Rightarrow> defs_val \<Rightarrow> bool" where
  "typed_val t v =
     (let type = and t T_MASK in
      case v of
        Flag b \<Rightarrow> type = T_FLAG
      | Str s \<Rightarrow> type \<in> {T_STR, T_RLIMIT}
      | Tspec ts \<Rightarrow> type = T_TIMESPEC \<and> normal_time ts
      | Members l \<Rightarrow> type \<in> {T_LIST, T_PLUGIN} \<and> distinct l
      | Ival n \<Rightarrow> type \<in> {T_INT, T_UINT, T_MODE, T_LOGFAC, T_LOGPRI, T_TUPLE, T_TIMEOUT})"

definition typed_entry :: "sudo_defs_types \<Rightarrow> bool" where
  \<comment> \<open>a tuple has two values or more, and the value is one of them\<close>
  "typed_entry d \<longleftrightarrow> typed_val (dt_type d) (dt_val d) \<and>
     (and (dt_type d) T_MASK = T_TUPLE \<longrightarrow> 2 \<le> length (dt_values d) \<and> dt_val d \<in> Ival ` snd ` set (dt_values d))"

definition same_shape :: "sudo_defs_types list \<Rightarrow> sudo_defs_types list \<Rightarrow> bool" where
  \<comment> \<open>only values differ\<close>
  "same_shape t t' \<longleftrightarrow> map (\<lambda>d. (dt_name d, dt_type d, dt_values d)) t = map (\<lambda>d. (dt_name d, dt_type d, dt_values d)) t'"

lemma distinct_list_op: "distinct l \<Longrightarrow> distinct (list_op s op l)"
  by (cases op) (auto simp: list_op_def)

lemma distinct_list_words: "distinct l \<Longrightarrow> distinct (list_words s op l)"
proof (induction s op l rule: list_words.induct)
  case (1 str op members)
  then show ?case by (subst list_words.simps) (auto split: option.split simp: distinct_list_op)
qed

lemma members_typed: "typed_val t v \<Longrightarrow> distinct (members_of v)"
  by (cases v) (simp_all add: typed_val_def members_of_def Let_def)

lemma distinct_cleared: "typed_val t v \<Longrightarrow> distinct (cleared op v)"
  by (simp add: cleared_def members_typed distinct_list_op)

lemma ts_carry_bound: "ts_carry sec nsec = Some (sec', nsec') \<Longrightarrow> 0 \<le> nsec \<Longrightarrow> 0 \<le> nsec' \<and> nsec' < 1000000000"
proof (induction sec nsec rule: ts_carry.induct)
  case (1 sec nsec)
  then show ?case by (subst (asm) (2) ts_carry.simps) (auto split: if_splits)
qed

lemma ts_fraction_ge: "ts_fraction i s n = Some m \<Longrightarrow> 0 \<le> n \<Longrightarrow> 0 \<le> m"
  by (induction i s n rule: ts_fraction.induct) (auto split: if_splits)

lemma sint_small: "- (2 ^ 63) \<le> v \<Longrightarrow> v < 2 ^ 63 \<Longrightarrow> sint (of_int v :: 64 word) = v"
  by simp

lemma store_timespec_normal: "store_timespec str = Stored v \<Longrightarrow> \<exists>t. v = Tspec t \<and> normal_time t"
proof -
  have small: "normal_time \<lparr>tv_sec = s, tv_nsec = of_int n\<rparr>" "normal_time \<lparr>tv_sec = s, tv_nsec = - of_int n\<rparr>"
    if "0 \<le> n" "n < 1000000000" for s :: "64 word" and n :: int
  proof -
    have "sint (of_int n :: 64 word) = n" "sint (of_int (- n) :: 64 word) = - n" using that by (simp_all del: of_int_minus)
    then show "normal_time \<lparr>tv_sec = s, tv_nsec = of_int n\<rparr>" "normal_time \<lparr>tv_sec = s, tv_nsec = - of_int n\<rparr>"
      using that by (simp_all add: normal_time_def)
  qed
  assume "store_timespec str = Stored v"
  then show ?thesis
    using small [of 0] small ts_carry_bound ts_fraction_ge [of 100000000 _ 0]
    by (fastforce simp: store_timespec_def normal_time_def timespec0_def Let_def bind_eq_Some_conv split: option.splits if_splits)
qed

lemma T_distinct:
  "distinct [T_INT, T_UINT, T_STR, T_FLAG, T_MODE, T_LIST, T_LOGFAC, T_LOGPRI, T_TUPLE, T_TIMESPEC, T_TIMEOUT, T_RLIMIT, T_PLUGIN]"
  by (simp add: T_defs)

lemma store_shapes:
  "store_int str = Stored v \<Longrightarrow> \<exists>n. v = Ival n" "store_uint str = Stored v \<Longrightarrow> \<exists>n. v = Ival n"
  "store_mode str = Stored v \<Longrightarrow> \<exists>n. v = Ival n" "store_timeout str = Stored v \<Longrightarrow> \<exists>n. v = Ival n"
  "store_syslog none look str = Stored v \<Longrightarrow> \<exists>n. v = Ival n" "store_str str = Stored v \<Longrightarrow> \<exists>s. v = Str s"
  "store_rlimit str = Stored v \<Longrightarrow> \<exists>s. v = Str s"
  by (auto simp: store_int_def store_uint_def store_mode_def store_timeout_def store_syslog_def store_str_def store_rlimit_def Let_def
      split: option.splits prod.splits sum.splits if_splits)

lemma store_tuple_value:
  assumes "store_tuple str vals op = Stored v" "2 \<le> length vals"
  shows "v \<in> Ival ` snd ` set vals"
proof (cases str)
  case None
  have "vals ! 0 \<in> set vals" "vals ! 1 \<in> set vals" using assms(2) by (auto intro!: nth_mem)
  then show ?thesis using assms(1) None by (auto simp: store_tuple_def split: if_splits)
next
  case (Some s)
  then obtain n where "map_of vals s = Some n" "v = Ival n" using assms(1) by (auto simp: store_tuple_def split: option.splits)
  then show ?thesis by (metis imageI map_of_SomeD snd_conv)
qed

lemma store_value_at:
  "and (dt_type def) T_MASK = T_LOGFAC \<Longrightarrow> store_value env def val op = (store_syslog 0 sudo_str2logfac val, [])"
  "and (dt_type def) T_MASK = T_LOGPRI \<Longrightarrow> store_value env def val op = (store_syslog (- 1) sudo_str2logpri val, [])"
  "and (dt_type def) T_MASK = T_INT \<Longrightarrow> store_value env def val op = (store_int val, [])"
  "and (dt_type def) T_MASK = T_UINT \<Longrightarrow> store_value env def val op = (store_uint val, [])"
  "and (dt_type def) T_MASK = T_MODE \<Longrightarrow> store_value env def val op = (store_mode val, [])"
  "and (dt_type def) T_MASK = T_TIMEOUT \<Longrightarrow> store_value env def val op = (store_timeout val, [])"
  "and (dt_type def) T_MASK = T_RLIMIT \<Longrightarrow> store_value env def val op = (store_rlimit val, [])"
  "and (dt_type def) T_MASK = T_LIST \<Longrightarrow> store_value env def val op = (store_list val (dt_type def) (dt_val def) op, [])"
  "and (dt_type def) T_MASK = T_PLUGIN \<Longrightarrow> store_value env def val op = (store_plugin val (dt_val def) op, [])"
  "and (dt_type def) T_MASK = T_TUPLE \<Longrightarrow> store_value env def val op = (store_tuple val (dt_values def) op, [])"
  "and (dt_type def) T_MASK = T_TIMESPEC \<Longrightarrow> store_value env def val op = (store_timespec val, [])"
  "and (dt_type def) T_MASK = T_FLAG \<Longrightarrow> store_value env def val op =
     (if val \<noteq> None then (Refused, [Takes_no_value (dt_name def)]) else (Stored (Flag (op \<noteq> 0)), []))"
  by (simp_all add: store_value_def Let_def T_defs)

lemma store_value_known:
  "store_value env def val op = (Stored v, ws) \<Longrightarrow>
   and (dt_type def) T_MASK \<in> {T_LOGFAC, T_LOGPRI, T_INT, T_UINT, T_MODE, T_TIMEOUT} \<union> {T_STR, T_RLIMIT} \<union>
     {T_FLAG, T_LIST, T_PLUGIN, T_TUPLE, T_TIMESPEC}"
  by (rule ccontr) (simp add: store_value_def Let_def)

lemma store_value_ival:
  assumes "and (dt_type def) T_MASK \<in> {T_LOGFAC, T_LOGPRI, T_INT, T_UINT, T_MODE, T_TIMEOUT}"
    "store_value env def val op = (Stored v, ws)"
  shows "\<exists>n. v = Ival n"
proof -
  consider "and (dt_type def) T_MASK = T_LOGFAC" | "and (dt_type def) T_MASK = T_LOGPRI" | "and (dt_type def) T_MASK = T_INT"
    | "and (dt_type def) T_MASK = T_UINT" | "and (dt_type def) T_MASK = T_MODE" | "and (dt_type def) T_MASK = T_TIMEOUT"
    using assms(1) by blast
  then show ?thesis using assms(2) by cases (auto simp: store_value_at dest: store_shapes(1-5))
qed

lemma store_value_str:
  assumes "and (dt_type def) T_MASK \<in> {T_STR, T_RLIMIT}" "store_value env def val op = (Stored v, ws)"
  shows "\<exists>s. v = Str s"
proof (cases "and (dt_type def) T_MASK = T_RLIMIT")
  case True
  then show ?thesis using assms(2) by (auto simp: store_value_at dest: store_shapes(7))
next
  case False
  then have t: "and (dt_type def) T_MASK = T_STR" using assms(1) by simp
  have "store_str val = Stored v"
    using assms(2) by (simp add: store_value_def t Let_def T_defs split: option.splits if_splits)
  then show ?thesis by (rule store_shapes(6))
qed

lemma store_value_typed:
  assumes "typed_entry def" "store_value env def val op = (Stored v, ws)"
  shows "typed_entry (def\<lparr>dt_val := v\<rparr>)"
proof -
  let ?t = "and (dt_type def) T_MASK"
  have old: "typed_val (dt_type def) (dt_val def)" using assms(1) by (simp add: typed_entry_def)
  note st = assms(2)
  consider (ival) "?t \<in> {T_LOGFAC, T_LOGPRI, T_INT, T_UINT, T_MODE, T_TIMEOUT}" | (str) "?t \<in> {T_STR, T_RLIMIT}"
    | (flag) "?t = T_FLAG" | (l) "?t = T_LIST" | (p) "?t = T_PLUGIN" | (tuple) "?t = T_TUPLE" | (ts) "?t = T_TIMESPEC"
    using store_value_known [OF st] by blast
  then show ?thesis
  proof cases
    case ival
    then obtain n where "v = Ival n" using store_value_ival [OF _ st] by blast
    then show ?thesis using ival by (auto simp: typed_entry_def typed_val_def Let_def T_defs)
  next
    case str
    then obtain s where "v = Str s" using store_value_str [OF _ st] by blast
    then show ?thesis using str by (auto simp: typed_entry_def typed_val_def Let_def T_defs)
  next
    case flag
    then have "\<exists>b. v = Flag b" using st by (auto simp: store_value_at split: if_splits)
    then show ?thesis using flag by (auto simp: typed_entry_def typed_val_def Let_def T_defs)
  next
    case l
    then have "store_list val (dt_type def) (dt_val def) op = Stored v" using st by (simp add: store_value_at)
    then have "\<exists>m. v = Members m \<and> distinct m"
      using distinct_cleared [OF old] by (auto simp: store_list_def Let_def distinct_list_op distinct_list_words split: option.splits)
    then show ?thesis using l by (auto simp: typed_entry_def typed_val_def Let_def T_defs)
  next
    case p
    then have "store_plugin val (dt_val def) op = Stored v" using st by (simp add: store_value_at)
    then have "\<exists>m. v = Members m \<and> distinct m"
      using distinct_cleared [OF old] by (auto simp: store_plugin_def distinct_list_op split: option.splits)
    then show ?thesis using p by (auto simp: typed_entry_def typed_val_def Let_def T_defs)
  next
    case tuple
    then have "store_tuple val (dt_values def) op = Stored v" using st by (simp add: store_value_at)
    moreover have long: "2 \<le> length (dt_values def)" using assms(1) tuple by (simp add: typed_entry_def)
    ultimately have "v \<in> Ival ` snd ` set (dt_values def)" by (rule store_tuple_value)
    then show ?thesis using tuple long by (auto simp: typed_entry_def typed_val_def Let_def T_defs)
  next
    case ts
    then have "store_timespec val = Stored v" using st by (simp add: store_value_at)
    then obtain t where "v = Tspec t" "normal_time t" using store_timespec_normal by blast
    then show ?thesis using ts by (simp add: typed_entry_def typed_val_def Let_def T_defs)
  qed
qed

lemma parse_default_entry_cases:
  assumes "parse_default_entry env def val op = (ok, v, ws)"
  shows "if ok then \<exists>val' ws'. store_value env def val' op = (Stored v, ws') else v = dt_val def"
  using assms by (auto simp: parse_default_entry_def Let_def split: if_splits prod.splits stored.splits)

lemma parse_default_entry_typed:
  assumes "typed_entry def" "parse_default_entry env def val op = (ok, v, ws)"
  shows "typed_entry (def\<lparr>dt_val := v\<rparr>)"
  using parse_default_entry_cases [OF assms(2)] store_value_typed [OF assms(1)] assms(1) by (cases ok) auto

section \<open>Invariants of an update\<close>

definition table_inv :: "(sudo_defs_types list \<Rightarrow> bool) \<Rightarrow> 'w defs_env \<Rightarrow> bool" where
  \<comment> \<open>kept by storing an entry and by the callbacks\<close>
  "table_inv I env \<longleftrightarrow>
     (\<forall>t i val op ok v ws. I t \<longrightarrow> i < length t \<longrightarrow> parse_default_entry env (t ! i) val op = (ok, v, ws) \<longrightarrow>
        I (t[i := (t ! i)\<lparr>dt_val := v\<rparr>])) \<and>
     (\<forall>i f v op st. de_callback env i = Some f \<longrightarrow> I (ds_table st) \<longrightarrow> I (ds_table (snd (f v op st))))"

lemma find_index_less: "find_index name t = Some i \<Longrightarrow> i < length t \<and> dt_name (t ! i) = name"
  by (induction t arbitrary: i) (auto split: if_splits)

lemma warn_table [simp]: "ds_table (warn ws st) = ds_table st"
  by (simp add: warn_def)

lemma find_default_table: "find_default name st = (r, st') \<Longrightarrow> ds_table st' = ds_table st \<and> r = find_index name (ds_table st)"
  by (auto simp: find_default_def split: option.splits if_splits)

lemma store_entry_inv:
  "table_inv I env \<Longrightarrow> I (ds_table st) \<Longrightarrow> i < length (ds_table st) \<Longrightarrow> I (ds_table (snd (store_entry env i val op st)))"
  by (auto simp: store_entry_def table_inv_def Let_def split: prod.split)

lemma callback_inv: "table_inv I env \<Longrightarrow> I (ds_table st) \<Longrightarrow> I (ds_table (snd (run_callback env i op st)))"
  by (auto simp: run_callback_def table_inv_def split: option.split)

lemma found_table:
  assumes "find_default var st = (Some i, st')"
  shows "ds_table st' = ds_table st" "i < length (ds_table st)" "dt_name (ds_table st ! i) = var"
  using find_default_table [OF assms] find_index_less [of var "ds_table st" i] by simp_all

lemma set_default_inv:
  assumes "table_inv I env" "I (ds_table st)"
  shows "I (ds_table (snd (set_default env var val op st)))"
proof -
  obtain r st1 where f: "find_default var st = (r, st1)" by (rule prod.exhaust)
  have same: "ds_table st1 = ds_table st" using find_default_table [OF f] by simp
  show ?thesis
  proof (cases r)
    case None
    then show ?thesis using assms same by (simp add: set_default_def f)
  next
    case (Some i)
    obtain ok st2 where s: "store_entry env i val op st1 = (ok, st2)" by (rule prod.exhaust)
    have "I (ds_table st2)"
      using store_entry_inv [OF assms(1), of st1 i val op] found_table [OF f [unfolded Some]] assms(2) by (simp add: s)
    then show ?thesis using callback_inv [OF assms(1), of st2 i op] by (simp add: set_default_def f Some s)
  qed
qed

lemma set_early_default_inv:
  assumes "table_inv I env" "I (ds_table st)"
  shows "I (ds_table (snd (set_early_default env var val op e st)))"
proof -
  obtain r st1 where f: "find_default var st = (r, st1)" by (rule prod.exhaust)
  have same: "ds_table st1 = ds_table st" using find_default_table [OF f] by simp
  show ?thesis
  proof (cases r)
    case None
    then show ?thesis using assms same by (simp add: set_early_default_def f)
  next
    case (Some i)
    obtain ok st2 where s: "store_entry env i val op st1 = (ok, st2)" by (rule prod.exhaust)
    have "I (ds_table st2)"
      using store_entry_inv [OF assms(1), of st1 i val op] found_table [OF f [unfolded Some]] assms(2) by (simp add: s)
    then show ?thesis by (simp add: set_early_default_def f Some s)
  qed
qed

lemma run_early_inv: "table_inv I env \<Longrightarrow> I (ds_table st) \<Longrightarrow> I (ds_table (snd (run_early_defaults env early st)))"
proof (induction early arbitrary: st)
  case (Cons i early)
  obtain ok st1 where c: "run_callback env i op_true st = (ok, st1)" by (rule prod.exhaust)
  have "I (ds_table st1)" using callback_inv [OF Cons.prems, of i op_true] by (simp add: c)
  then show ?case using Cons.IH [OF Cons.prems(1), of "st1\<lparr>ds_pending := removeAll i (ds_pending st1)\<rparr>"] Cons.IH [OF Cons.prems]
    by (auto simp: c split: prod.split)
qed simp

lemma entry_matches_table: "entry_matches env pt what d st = (m, st') \<Longrightarrow> ds_table st' = ds_table st"
  by (auto simp: entry_matches_def default_binding_matches_def Let_def split: if_splits defaults_type.splits prod.splits)

lemma each_default_inv:
  assumes "\<And>d st. I (ds_table st) \<Longrightarrow> I (ds_table (snd (f d st)))"
  shows "I (ds_table st) \<Longrightarrow> I (ds_table (snd (each_default f ds st)))"
proof (induction ds arbitrary: st)
  case (Cons d ds)
  obtain ok st1 where c: "f d st = (ok, st1)" by (rule prod.exhaust)
  obtain ret st2 where e: "each_default f ds st1 = (ret, st2)" by (rule prod.exhaust)
  have "I (ds_table st1)" using assms [OF Cons.prems, of d] by (simp add: c)
  from Cons.IH [OF this] show ?case by (simp add: c e)
qed simp

lemma apply_inv:
  assumes "table_inv I env" "I (ds_table st)"
  shows "I (ds_table (snd (apply_early env pt what d st)))" "I (ds_table (snd (apply_late env pt what g d st)))"
proof -
  obtain m st1 where e: "entry_matches env pt what d st = (m, st1)" by (rule prod.exhaust)
  have "I (ds_table st1)" using entry_matches_table [OF e] assms(2) by simp
  note set = set_early_default_inv [OF assms(1) this] set_default_inv [OF assms(1) this] this
  show "I (ds_table (snd (apply_early env pt what d st)))"
    using set assms(2) by (simp add: apply_early_def e split: option.split)
  show "I (ds_table (snd (apply_late env pt what g d st)))"
    using set assms(2) by (simp add: apply_late_def e)
qed

lemma update_defaults_inv:
  assumes "table_inv I env" "I (ds_table st)"
  shows "I (ds_table (snd (update_defaults env pt defs what st)))"
proof (cases defs)
  case None
  obtain ok1 st1 where 1: "each_default (apply_early env pt what) (pt_defaults pt) st = (ok1, st1)" by (rule prod.exhaust)
  obtain ok2 st2 where 2: "run_early_defaults env early_defaults st1 = (ok2, st2)" by (rule prod.exhaust)
  obtain ok3 st3 where 3: "each_default (apply_late env pt what True) (pt_defaults pt) st2 = (ok3, st3)" by (rule prod.exhaust)
  have "I (ds_table (snd (each_default (apply_early env pt what) (pt_defaults pt) st)))"
    by (intro each_default_inv [of I] apply_inv(1) [OF assms(1)] assms(2))
  then have "I (ds_table st1)" by (simp add: 1)
  then have "I (ds_table st2)" using run_early_inv [OF assms(1), of st1 early_defaults] by (simp add: 2)
  then have "I (ds_table (snd (each_default (apply_late env pt what True) (pt_defaults pt) st2)))"
    by (intro each_default_inv [of I] apply_inv(2) [OF assms(1)])
  then show ?thesis using None by (simp add: update_defaults_def 1 2 3)
next
  case (Some ds)
  have "I (ds_table (snd (each_default (apply_late env pt what False) ds st)))"
    by (intro each_default_inv [of I] apply_inv(2) [OF assms(1)] assms(2))
  then show ?thesis using Some by (simp add: update_defaults_def)
qed

text \<open>
  C23. After an update every setting still has a value of its type (times with a normal fraction, lists
  without duplicates, tuples one of their values), if the callbacks keep that.
\<close>

theorem update_defaults_typed:
  assumes "list_all typed_entry (ds_table st)" "update_defaults env pt defs what st = (ok, st')"
    and "\<And>i f v op st. de_callback env i = Some f \<Longrightarrow> list_all typed_entry (ds_table st) \<Longrightarrow>
      list_all typed_entry (ds_table (snd (f v op st)))"
  shows "list_all typed_entry (ds_table st')"
proof -
  have "list_all typed_entry (t[i := (t ! i)\<lparr>dt_val := v\<rparr>])"
    if "list_all typed_entry t" "i < length t" "parse_default_entry env (t ! i) val op = (ok, v, ws)" for t i val op ok v ws
    using that parse_default_entry_typed [of "t ! i"] set_update_subset_insert [of t i] by (fastforce simp: list_all_iff)
  then have "table_inv (list_all typed_entry) env" using assms(3) unfolding table_inv_def by blast
  from update_defaults_inv [OF this assms(1), of pt defs what] show ?thesis using assms(2) by simp
qed

end
