(* ===== verification/DefaultsSet.thy ===== *)
theory DefaultsSet
  imports DefaultsProps
begin

text \<open>
  What an update makes of the table: each entry of a list changes the setting of its name only, an
  entry that is refused leaves the value as it was, and entries that \<open>check_defaults\<close> accepts are
  all set without a warning.
\<close>

section \<open>The shape of the table\<close>

lemma same_shape_refl [simp]: "same_shape t t"
  by (simp add: same_shape_def)

lemma same_shape_trans: "same_shape t u \<Longrightarrow> same_shape u v \<Longrightarrow> same_shape t v"
  by (simp add: same_shape_def)

lemma same_shape_update: "i < length t \<Longrightarrow> same_shape t (t[i := (t ! i)\<lparr>dt_val := v\<rparr>])"
  by (simp add: same_shape_def map_update list_update_id [symmetric, of _ i] nth_map)
    (metis (no_types, lifting) length_map list_update_id nth_map)

lemma same_shape_length: "same_shape t u \<Longrightarrow> length t = length u"
  unfolding same_shape_def by (rule map_eq_imp_length_eq)

lemma same_shape_nth:
  assumes "same_shape t u" "i < length t"
  shows "u ! i = (t ! i)\<lparr>dt_val := dt_val (u ! i)\<rparr>"
proof -
  have "map (\<lambda>d. (dt_name d, dt_type d, dt_values d)) t ! i = map (\<lambda>d. (dt_name d, dt_type d, dt_values d)) u ! i"
    using assms(1) by (simp add: same_shape_def)
  then show ?thesis using assms(2) same_shape_length [OF assms(1)] by simp
qed

lemma find_index_names: "map dt_name t = map dt_name u \<Longrightarrow> find_index name t = find_index name u"
proof (induction t arbitrary: u)
  case (Cons d t)
  then show ?case by (cases u) auto
qed simp

lemma same_shape_find: "same_shape t u \<Longrightarrow> find_index name u = find_index name t"
proof -
  assume "same_shape t u"
  then have "map fst (map (\<lambda>d. (dt_name d, dt_type d, dt_values d)) u) = map fst (map (\<lambda>d. (dt_name d, dt_type d, dt_values d)) t)"
    by (simp add: same_shape_def)
  then show ?thesis by (intro find_index_names) (simp add: comp_def)
qed

section \<open>Acceptance does not depend on the old value\<close>

definition stored_kind :: "stored \<Rightarrow> nat" where
  "stored_kind s = (case s of Stored _ \<Rightarrow> 0 | Not_stored \<Rightarrow> 1 | Refused \<Rightarrow> 2)"

lemma store_value_indep:
  "stored_kind (fst (store_value env (d\<lparr>dt_val := x\<rparr>) val op)) = stored_kind (fst (store_value env d val op)) \<and>
   snd (store_value env (d\<lparr>dt_val := x\<rparr>) val op) = snd (store_value env d val op)"
proof -
  have "valid_path env (d\<lparr>dt_val := x\<rparr>) p = valid_path env d p" for p by (simp add: valid_path_def Let_def)
  then show ?thesis
    by (cases val) (simp_all add: store_value_def Let_def store_list_def store_plugin_def stored_kind_def)
qed

lemma lacks_value_indep: "lacks_value (d\<lparr>dt_val := x\<rparr>) op = lacks_value d op"
  by (simp add: lacks_value_def Let_def)

lemma parse_ok_iff:
  "fst (parse_default_entry env d val op) \<longleftrightarrow>
     \<not> (val = None \<and> lacks_value d op) \<and> \<not> ((op = op_add \<or> op = op_delete) \<and> and (dt_type d) T_MASK \<noteq> T_LIST) \<and>
     stored_kind (fst (store_value env d (if val = None \<and> and (dt_type d) T_MASK = T_LOGFAC \<and> op = op_true
        then Some (de_LOGFAC env) else val) op)) = 0"
  by (simp add: parse_default_entry_def Let_def stored_kind_def split: prod.split stored.split)

lemma parse_ok_indep: "fst (parse_default_entry env (d\<lparr>dt_val := x\<rparr>) val op) = fst (parse_default_entry env d val op)"
  by (simp add: parse_ok_iff lacks_value_indep store_value_indep)

lemma store_value_quiet: "store_value env d val op = (Stored v, ws) \<Longrightarrow> ws = []"
  by (simp add: store_value_def Let_def split: if_splits option.splits)

lemma parse_ok_quiet: "parse_default_entry env d val op = (True, v, ws) \<Longrightarrow> ws = []"
  by (auto simp: parse_default_entry_def Let_def dest: store_value_quiet split: if_splits prod.splits stored.splits)

section \<open>One entry decides one setting\<close>

definition entry_result :: "'w defs_env \<Rightarrow> sudo_defs_types \<Rightarrow> defaults \<Rightarrow> defs_val" where
  \<comment> \<open>the value after an entry\<close>
  "entry_result env def d = fst (snd (parse_default_entry env def (d_val d) (d_op d)))"

definition settled :: "'w defs_env \<Rightarrow> sudo_defs_types \<Rightarrow> defaults list \<Rightarrow> defs_val" where
  \<comment> \<open>the value of a setting after the entries of its name, in their order\<close>
  "settled env def ds = dt_val (foldl (\<lambda>def d. def\<lparr>dt_val := entry_result env def d\<rparr>) def ds)"

definition leaves_setting :: "'w defs_env \<Rightarrow> nat \<Rightarrow> bool" where
  \<comment> \<open>the callbacks may change other settings, but not this one\<close>
  "leaves_setting env i \<longleftrightarrow> (\<forall>j f v op st. de_callback env j = Some f \<longrightarrow>
     same_shape (ds_table st) (ds_table (snd (f v op st))) \<and> ds_table (snd (f v op st)) ! i = ds_table st ! i)"

lemma callback_setting: "leaves_setting env i \<Longrightarrow>
    same_shape (ds_table st) (ds_table (snd (run_callback env j op st))) \<and>
    ds_table (snd (run_callback env j op st)) ! i = ds_table st ! i"
  by (simp add: run_callback_def leaves_setting_def split: option.split)

lemma store_entry_table:
  "ds_table (snd (store_entry env i val op st)) =
   (ds_table st)[i := (ds_table st ! i)\<lparr>dt_val := fst (snd (parse_default_entry env (ds_table st ! i) val op))\<rparr>]"
  by (simp add: store_entry_def Let_def split: prod.split)

definition entry_sets :: "'w defs_env \<Rightarrow> nat \<Rightarrow> bool \<Rightarrow> defaults \<Rightarrow> sudo_defs_types list \<Rightarrow> sudo_defs_types list \<Rightarrow> bool" where
  \<comment> \<open>what an entry that applies or not does to a setting\<close>
  "entry_sets env i applies d t t' \<longleftrightarrow> same_shape t t' \<and>
     t' ! i = (if applies \<and> find_index (d_var d) t = Some i then (t ! i)\<lparr>dt_val := entry_result env (t ! i) d\<rparr> else t ! i)"

lemma entry_sets_not [simp]: "entry_sets env i False d t t"
  by (simp add: entry_sets_def)

lemma set_default_sets:
  assumes "leaves_setting env i"
  shows "entry_sets env i True d (ds_table st) (ds_table (snd (set_default env (d_var d) (d_val d) (d_op d) st)))"
proof -
  obtain r st1 where f: "find_default (d_var d) st = (r, st1)" by (rule prod.exhaust)
  have same: "ds_table st1 = ds_table st" "r = find_index (d_var d) (ds_table st)" using find_default_table [OF f] by simp_all
  show ?thesis
  proof (cases r)
    case None
    then show ?thesis using same by (simp add: set_default_def f entry_sets_def)
  next
    case (Some j)
    obtain ok st2 where s: "store_entry env j (d_val d) (d_op d) st1 = (ok, st2)" by (rule prod.exhaust)
    have j: "j < length (ds_table st)" using find_index_less [of "d_var d" "ds_table st" j] Some same by simp
    have t2: "ds_table st2 = (ds_table st)[j := (ds_table st ! j)\<lparr>dt_val := entry_result env (ds_table st ! j) d\<rparr>]"
      using store_entry_table [of env j "d_val d" "d_op d" st1] by (simp add: s same entry_result_def)
    then have "entry_sets env i True d (ds_table st) (ds_table st2)"
      using j Some same by (auto simp: entry_sets_def same_shape_update nth_list_update)
    then show ?thesis using callback_setting [OF assms, of st2 j "d_op d"] Some same same_shape_trans
      by (auto simp: set_default_def f s entry_sets_def)
  qed
qed

lemma apply_late_own:
  assumes "leaves_setting env i"
  shows "entry_sets env i (d_type d = DEFAULTS) d (ds_table st) (ds_table (snd (apply_late env pt SETDEF_GENERIC False d st)))"
proof (cases "d_type d = DEFAULTS")
  case True
  then have "entry_matches env pt SETDEF_GENERIC d st = (True, st)"
    by (simp add: entry_matches_def default_type_matches_def default_binding_matches_def SETDEF_GENERIC_def ISSET_def Let_def)
  then show ?thesis using True set_default_sets [OF assms, of d st] by (simp add: apply_late_def)
next
  case False
  then have "\<not> default_type_matches d SETDEF_GENERIC"
    by (cases "d_type d") (simp_all add: default_type_matches_def SETDEF_GENERIC_def SETDEF_USER_def SETDEF_HOST_def
        SETDEF_RUNAS_def SETDEF_CMND_def ISSET_def)
  then show ?thesis using False by (simp add: apply_late_def entry_matches_def)
qed

lemma each_default_settled:
  assumes "leaves_setting env i" "find_index name (ds_table st) = Some i"
  shows "ds_table (snd (each_default (apply_late env pt SETDEF_GENERIC False) ds st)) ! i =
    foldl (\<lambda>def d. def\<lparr>dt_val := entry_result env def d\<rparr>) (ds_table st ! i)
      (filter (\<lambda>d. d_type d = DEFAULTS \<and> d_var d = name) ds)"
  using assms(2)
proof (induction ds arbitrary: st)
  case (Cons d ds)
  obtain ok st1 where a: "apply_late env pt SETDEF_GENERIC False d st = (ok, st1)" by (rule prod.exhaust)
  obtain ret st2 where e: "each_default (apply_late env pt SETDEF_GENERIC False) ds st1 = (ret, st2)" by (rule prod.exhaust)
  have i: "dt_name (ds_table st ! i) = name" using find_index_less [OF Cons.prems] by simp
  have t: "same_shape (ds_table st) (ds_table st1)"
    "ds_table st1 ! i = (if d_type d = DEFAULTS \<and> find_index (d_var d) (ds_table st) = Some i
      then (ds_table st ! i)\<lparr>dt_val := entry_result env (ds_table st ! i) d\<rparr> else ds_table st ! i)"
    using apply_late_own [OF assms(1), of d st pt] by (simp_all add: a entry_sets_def)
  have "find_index name (ds_table st1) = Some i" using same_shape_find [OF t(1)] Cons.prems by simp
  note IH = Cons.IH [OF this, unfolded e snd_conv]
  have "find_index (d_var d) (ds_table st) = Some i \<longleftrightarrow> d_var d = name"
    using i Cons.prems find_index_less [of "d_var d" "ds_table st" i] by auto
  then show ?case using IH by (simp add: a e t(2))
qed simp

text \<open>
  C21. A list of Defaults of its own, of which the generic entries apply (bound to no user, host, target or command), gives a setting that no callback of the table changes the value that the
  entries with its name leave one after the other, whatever entries stand between them and whatever the callbacks do to
  other settings; an entry that is refused leaves the value as it was.
\<close>

theorem update_defaults_settled:
  assumes "update_defaults env pt (Some ds) SETDEF_GENERIC st = (ok, st')"
    and "find_index name (ds_table st) = Some i"
    and "\<And>j f v op st. de_callback env j = Some f \<Longrightarrow>
      same_shape (ds_table st) (ds_table (snd (f v op st))) \<and> ds_table (snd (f v op st)) ! i = ds_table st ! i"
  shows "dt_val (ds_table st' ! i) =
      settled env (ds_table st ! i) (filter (\<lambda>d. d_type d = DEFAULTS \<and> d_var d = name) ds) \<and>
    (\<forall>d def. \<not> fst (parse_default_entry env def (d_val d) (d_op d)) \<longrightarrow> entry_result env def d = dt_val def)"
proof -
  have "leaves_setting env i" using assms(3) unfolding leaves_setting_def by blast
  note each_default_settled [OF this assms(2), of pt ds]
  moreover have "entry_result env def d = dt_val def"
    if "\<not> fst (parse_default_entry env def (d_val d) (d_op d))" for d def
    using that parse_default_entry_cases [of env def "d_val d" "d_op d"]
    by (cases "parse_default_entry env def (d_val d) (d_op d)") (simp add: entry_result_def)
  ultimately show ?thesis using assms(1) by (simp add: update_defaults_def settled_def)
qed

section \<open>Checked entries can be set\<close>

definition accepted :: "'w defs_env \<Rightarrow> sudo_defs_types list \<Rightarrow> defaults \<Rightarrow> bool" where
  "accepted env t d \<longleftrightarrow>
     (case find_index (d_var d) t of None \<Rightarrow> False | Some i \<Rightarrow> fst (parse_default_entry env (t ! i) (d_val d) (d_op d)))"

definition unchanged :: "sudo_defs_types list \<Rightarrow> defs_warning list \<Rightarrow> 'w defs_state \<Rightarrow> bool" where
  "unchanged t ws st \<longleftrightarrow> same_shape t (ds_table st) \<and> ds_warnings st = ws"

definition good_callbacks :: "'w defs_env \<Rightarrow> bool" where
  "good_callbacks env \<longleftrightarrow> (\<forall>i f v op st. de_callback env i = Some f \<longrightarrow>
     fst (f v op st) \<and> same_shape (ds_table st) (ds_table (snd (f v op st))) \<and> ds_warnings (snd (f v op st)) = ds_warnings st)"

lemma accepted_shape: "same_shape t u \<Longrightarrow> accepted env u d = accepted env t d"
  using same_shape_find [of t u] same_shape_nth [of t u] find_index_less [of "d_var d" t] parse_ok_indep [of env]
  by (auto simp: accepted_def split: option.split) metis+

lemma check_default_accepts:
  assumes "check_default env d st = (ok, st')"
  shows "ds_table st' = ds_table st" "ok = accepted env (ds_table st) d"
proof -
  obtain r st1 where f: "find_default (d_var d) st = (r, st1)" by (rule prod.exhaust)
  have same: "ds_table st1 = ds_table st" "r = find_index (d_var d) (ds_table st)" using find_default_table [OF f] by simp_all
  have "ds_table st' = ds_table st \<and> ok = accepted env (ds_table st) d"
  proof (cases r)
    case None
    then show ?thesis using same assms by (auto simp: check_default_def f accepted_def)
  next
    case (Some i)
    let ?def = "(ds_table st ! i)\<lparr>dt_val := zero_val (dt_type (ds_table st ! i))\<rparr>"
    obtain ok' v ws where p: "parse_default_entry env ?def (d_val d) (d_op d) = (ok', v, ws)" by (rule prod_cases3)
    have "ok' = fst (parse_default_entry env (ds_table st ! i) (d_val d) (d_op d))"
      using parse_ok_indep [of env "zero_val (dt_type (ds_table st ! i))" "ds_table st ! i" "d_val d" "d_op d"] by (simp add: p)
    then show ?thesis using Some same assms by (auto simp: check_default_def f accepted_def p Let_def)
  qed
  then show "ds_table st' = ds_table st" "ok = accepted env (ds_table st) d" by simp_all
qed

lemma check_defaults_accepts:
  "each_default (check_default env) ds st = (ok, st') \<Longrightarrow> ok = (\<forall>d \<in> set ds. accepted env (ds_table st) d) \<and> ds_table st' = ds_table st"
proof (induction ds arbitrary: st ok st')
  case (Cons d ds)
  obtain ok1 st1 where c: "check_default env d st = (ok1, st1)" by (rule prod.exhaust)
  obtain ok2 st2 where e: "each_default (check_default env) ds st1 = (ok2, st2)" by (rule prod.exhaust)
  show ?case using Cons.prems Cons.IH [OF e] check_default_accepts [OF c] by (auto simp: c e)
qed simp

lemma callback_good:
  assumes "good_callbacks env" "unchanged t ws st"
  shows "fst (run_callback env i op st) \<and> unchanged t ws (snd (run_callback env i op st))"
  using assms same_shape_trans [of t "ds_table st"]
  by (auto simp: run_callback_def good_callbacks_def unchanged_def split: option.split)

lemma store_entry_good:
  assumes "accepted env t d" "unchanged t ws st" "find_default (d_var d) st = (r, st1)"
  obtains i st2 where "r = Some i" "store_entry env i (d_val d) (d_op d) st1 = (True, st2)" "unchanged t ws st2"
proof -
  have acc: "accepted env (ds_table st) d" using assms(1,2) accepted_shape [of t "ds_table st" env d] by (simp add: unchanged_def)
  have r: "r = find_index (d_var d) (ds_table st)" using find_default_table [OF assms(3)] by simp
  then obtain i where i: "r = Some i" using acc by (auto simp: accepted_def split: option.splits)
  have st1: "st1 = st" using i r assms(3) by (simp add: find_default_def split: option.splits)
  have i_less: "i < length (ds_table st)" using find_index_less [of "d_var d" "ds_table st" i] r i by simp
  have "fst (parse_default_entry env (ds_table st ! i) (d_val d) (d_op d))" using acc r [symmetric] i by (simp add: accepted_def)
  then obtain v ws' where p: "parse_default_entry env (ds_table st ! i) (d_val d) (d_op d) = (True, v, ws')"
    by (metis (full_types) prod.collapse)
  have "ws' = []" by (rule parse_ok_quiet [OF p])
  then have "store_entry env i (d_val d) (d_op d) st1 = (True, warn [] (st\<lparr>ds_table := (ds_table st)[i := (ds_table st ! i)\<lparr>dt_val := v\<rparr>]\<rparr>))"
    by (simp add: store_entry_def p st1 Let_def)
  moreover have "unchanged t ws (warn [] (st\<lparr>ds_table := (ds_table st)[i := (ds_table st ! i)\<lparr>dt_val := v\<rparr>]\<rparr>))"
    using assms(2) same_shape_trans [OF _ same_shape_update [OF i_less], of t v] by (simp add: unchanged_def warn_def)
  ultimately show ?thesis using that i by blast
qed

lemma entry_matches_good:
  assumes "unchanged t ws st" "entry_matches env pt what d st = (m, st')"
  shows "unchanged t ws st'"
proof -
  have "ds_warnings st' = ds_warnings st"
    using assms(2) by (auto simp: entry_matches_def default_binding_matches_def Let_def split: if_splits defaults_type.splits prod.splits)
  then show ?thesis using assms(1) entry_matches_table [OF assms(2)] by (simp add: unchanged_def)
qed

lemma apply_good:
  assumes "good_callbacks env" "accepted env t d" "unchanged t ws st"
  shows "fst (apply_early env pt what d st) \<and> unchanged t ws (snd (apply_early env pt what d st))"
    "fst (apply_late env pt what g d st) \<and> unchanged t ws (snd (apply_late env pt what g d st))"
proof -
  obtain m st1 where m: "entry_matches env pt what d st = (m, st1)" by (rule prod.exhaust)
  have u1: "unchanged t ws st1" by (rule entry_matches_good [OF assms(3) m])
  obtain r st2 where f: "find_default (d_var d) st1 = (r, st2)" by (rule prod.exhaust)
  obtain i st3 where s: "r = Some i" "store_entry env i (d_val d) (d_op d) st2 = (True, st3)" "unchanged t ws st3"
    by (rule store_entry_good [OF assms(2) u1 f])
  have "unchanged t ws (st3\<lparr>ds_pending := p\<rparr>)" for p using s(3) by (simp add: unchanged_def)
  then show "fst (apply_early env pt what d st) \<and> unchanged t ws (snd (apply_early env pt what d st))"
    using u1 assms(3) by (simp add: apply_early_def m set_early_default_def f s split: option.split)
  show "fst (apply_late env pt what g d st) \<and> unchanged t ws (snd (apply_late env pt what g d st))"
    using u1 assms(3) callback_good [OF assms(1) s(3), of i "d_op d"] by (simp add: apply_late_def m set_default_def f s)
qed

lemma run_early_good:
  "good_callbacks env \<Longrightarrow> unchanged t ws st \<Longrightarrow>
   fst (run_early_defaults env early st) \<and> unchanged t ws (snd (run_early_defaults env early st))"
proof (induction early arbitrary: st)
  case (Cons i early)
  obtain ok st1 where c: "run_callback env i op_true st = (ok, st1)" by (rule prod.exhaust)
  let ?st = "st1\<lparr>ds_pending := removeAll i (ds_pending st1)\<rparr>"
  obtain ret st2 where e: "run_early_defaults env early ?st = (ret, st2)" by (rule prod.exhaust)
  have "ok \<and> unchanged t ws ?st" using callback_good [OF Cons.prems, of i op_true] by (simp add: c unchanged_def)
  then show ?case using Cons.IH [OF Cons.prems(1), of ?st] Cons.IH [OF Cons.prems] by (simp add: c e)
qed simp

lemma each_default_good:
  assumes "\<And>d st. d \<in> set ds \<Longrightarrow> Q st \<Longrightarrow> fst (f d st) \<and> Q (snd (f d st))"
  shows "Q st \<Longrightarrow> fst (each_default f ds st) \<and> Q (snd (each_default f ds st))"
  using assms
proof (induction ds arbitrary: st)
  case (Cons d ds)
  obtain ok st1 where c: "f d st = (ok, st1)" by (rule prod.exhaust)
  obtain ret st2 where e: "each_default f ds st1 = (ret, st2)" by (rule prod.exhaust)
  have 1: "ok \<and> Q st1" using Cons.prems(2) [of d st] Cons.prems(1) by (simp add: c)
  have "fst (each_default f ds st1) \<and> Q (snd (each_default f ds st1))"
    by (rule Cons.IH) (use 1 Cons.prems(2) in auto)
  then show ?case using 1 by (simp add: c e)
qed simp

text \<open>
  C22. When the callbacks succeed, warn of nothing and keep the names and types of the settings, the entries that
  \<open>check_defaults\<close> accepts are set without a failure or a warning, whichever kinds of entries are asked for and whatever the bindings match.
\<close>

theorem checked_defaults_are_set:
  assumes "check_defaults env pt st = (True, st1)" "update_defaults env pt None what st = (ok, st2)"
    and "\<And>i f v op st. de_callback env i = Some f \<Longrightarrow>
      fst (f v op st) \<and> same_shape (ds_table st) (ds_table (snd (f v op st))) \<and> ds_warnings (snd (f v op st)) = ds_warnings st"
  shows "ok \<and> ds_warnings st2 = ds_warnings st \<and> same_shape (ds_table st) (ds_table st2)"
proof -
  have g: "good_callbacks env" using assms(3) by (simp add: good_callbacks_def)
  let ?Q = "unchanged (ds_table st) (ds_warnings st)"
  have acc: "accepted env (ds_table st) d" if "d \<in> set (pt_defaults pt)" for d
    using check_defaults_accepts [OF assms(1) [unfolded check_defaults_def]] that by simp
  obtain ok1 u1 where 1: "each_default (apply_early env pt what) (pt_defaults pt) st = (ok1, u1)" by (rule prod.exhaust)
  obtain ok2 u2 where 2: "run_early_defaults env early_defaults u1 = (ok2, u2)" by (rule prod.exhaust)
  obtain ok3 u3 where 3: "each_default (apply_late env pt what True) (pt_defaults pt) u2 = (ok3, u3)" by (rule prod.exhaust)
  have "?Q st" by (simp add: unchanged_def)
  then have u1: "ok1 \<and> ?Q u1"
    using each_default_good [of "pt_defaults pt" ?Q "apply_early env pt what" st, OF apply_good(1) [OF g acc]] by (simp add: 1)
  then have u2: "ok2 \<and> ?Q u2" using run_early_good [OF g, of "ds_table st" "ds_warnings st" u1 early_defaults] by (simp add: 2)
  then have "ok3 \<and> ?Q u3"
    using each_default_good [of "pt_defaults pt" ?Q "apply_late env pt what True" u2, OF apply_good(2) [OF g acc]] by (simp add: 3)
  then show ?thesis using assms(2) u1 u2 by (auto simp: update_defaults_def 1 2 3 unchanged_def)
qed

end
