(* ===== verification/DefaultsValues.thy ===== *)
theory DefaultsValues
  imports DefaultsProps
begin

text \<open>What is stored for a time in minutes, and for the words of a list.\<close>

section \<open>Times\<close>

lemma digits_val_Cons: "digits_val 10 (c # cs) = digit_val c * 10 ^ length cs + digits_val 10 cs"
proof -
  have "foldl (\<lambda>a c. a * 10 + digit_val c) n cs = n * 10 ^ length cs + foldl (\<lambda>a c. a * 10 + digit_val c) 0 cs" for n :: int
  proof (induction cs arbitrary: n)
    case (Cons d cs)
    show ?case using Cons.IH [of "n * 10 + digit_val d"] Cons.IH [of "digit_val d"] by (simp add: algebra_simps)
  qed simp
  from this [of "digit_val c"] show ?thesis by (simp add: digits_val_def)
qed

lemma digits_val_range: "list_all c_isdigit ds \<Longrightarrow> 0 \<le> digits_val 10 ds \<and> digits_val 10 ds < 10 ^ length ds"
proof (induction ds)
  case (Cons c ds)
  then have "0 \<le> digit_val c \<and> digit_val c \<le> 9" using digit_val_range [of c] by simp
  then have "0 \<le> digit_val c * 10 ^ length ds" "digit_val c * 10 ^ length ds \<le> 9 * 10 ^ length ds" by simp_all
  moreover have "0 \<le> digits_val 10 ds" "digits_val 10 ds < 10 ^ length ds" using Cons by simp_all
  ultimately show ?case unfolding digits_val_Cons length_Cons power_Suc by linarith
qed (simp add: digits_val_def)

lemma scale_ge: "0 \<le> (a :: int) \<Longrightarrow> a \<le> a * 10 ^ l"
  by (simp add: mult_le_cancel_left1)

lemma ts_minutes_value:
  assumes "list_all c_isdigit ms" "rest = [] \<or> c_at rest = CHR ''.''" "0 \<le> n"
    "n * 10 ^ length ms + 60 * digits_val 10 ms \<le> TIME_T_MAX"
  shows "ts_minutes (ms @ rest) (of_int n) = Some (of_int (n * 10 ^ length ms + 60 * digits_val 10 ms), rest)"
  using assms
proof (induction ms arbitrary: n)
  case Nil
  then show ?case by (cases rest) (auto simp: digits_val_def c_at_def)
next
  case (Cons c ms)
  let ?i = "digit_val c * 60"
  have c: "c_isdigit c" "0 \<le> digit_val c" "digit_val c \<le> 9" using Cons.prems(1) digit_val_range [of c] by simp_all
  then have dot: "c \<noteq> CHR ''.''" by (auto simp: c_isdigit_def)
  have split: "n * 10 ^ length (c # ms) + 60 * digits_val 10 (c # ms) = (n * 10 + ?i) * 10 ^ length ms + 60 * digits_val 10 ms"
    by (simp add: digits_val_Cons algebra_simps)
  have ge0: "0 \<le> n * 10 + ?i" using Cons.prems(3) c by simp
  have "0 \<le> digits_val 10 ms" using digits_val_range [of ms] Cons.prems(1) by simp
  with scale_ge [OF ge0, of "length ms"] have le: "n * 10 + ?i \<le> TIME_T_MAX" using Cons.prems(4) unfolding split by linarith
  then have "n < 2 ^ 63" using Cons.prems(3) c(2) unfolding TIME_T_MAX_def by linarith
  then have n: "sint (of_int n :: 64 word) = n" using Cons.prems(3) by (intro sint_small) simp_all
  have "n \<le> (TIME_T_MAX - ?i) div 10" using le by linarith
  then have "ts_minutes ((c # ms) @ rest) (of_int n) = ts_minutes (ms @ rest) (of_int (n * 10 + ?i))"
    using dot c(1) n by (simp add: Let_def)
  also have "\<dots> = Some (of_int ((n * 10 + ?i) * 10 ^ length ms + 60 * digits_val 10 ms), rest)"
    by (rule Cons.IH) (use Cons.prems ge0 split in auto)
  finally show ?case unfolding split .
qed

lemma ts_fraction_value:
  assumes "list_all c_isdigit fs" "length fs \<le> k + 1"
  shows "ts_fraction (10 ^ k) fs n = Some (n + 60 * digits_val 10 fs * 10 ^ (k + 1 - length fs))"
  using assms
proof (induction fs arbitrary: k n)
  case Nil
  then show ?case by (simp add: digits_val_def)
next
  case (Cons c fs)
  show ?case
  proof (cases k)
    case 0
    then have "fs = []" using Cons.prems(2) by simp
    then show ?thesis using Cons.prems(1) 0 by (simp add: digits_val_def)
  next
    case (Suc j)
    have e: "10 ^ length fs * 10 ^ (j + 1 - length fs) = (10 :: int) ^ (j + 1)"
      using Cons.prems(2) Suc by (simp flip: power_add)
    have "\<not> (10 :: int) ^ j \<le> 0" by (simp add: not_le)
    then have "ts_fraction (10 ^ k) (c # fs) n = ts_fraction (10 ^ j) fs (n + 10 ^ k * digit_val c * 60)"
      using Cons.prems(1) Suc by simp
    also have "\<dots> = Some (n + 10 ^ k * digit_val c * 60 + 60 * digits_val 10 fs * 10 ^ (j + 1 - length fs))"
      by (rule Cons.IH) (use Cons.prems Suc in auto)
    also have "n + 10 ^ k * digit_val c * 60 + 60 * digits_val 10 fs * 10 ^ (j + 1 - length fs) =
        n + 60 * digits_val 10 (c # fs) * 10 ^ (k + 1 - length (c # fs))"
      using e Suc by (simp add: digits_val_Cons algebra_simps)
    finally show ?thesis .
  qed
qed

lemma ts_carry_value:
  "0 \<le> n \<Longrightarrow> 0 \<le> nsec \<Longrightarrow> n + nsec div 1000000000 \<le> TIME_T_MAX \<Longrightarrow>
   ts_carry (of_int n) nsec = Some (of_int (n + nsec div 1000000000), nsec mod 1000000000)"
proof (induction "nat nsec" arbitrary: n nsec rule: less_induct)
  case less
  show ?case
  proof (cases "nsec \<ge> 1000000000")
    case True
    have d: "nsec div 1000000000 = (nsec - 1000000000) div 1000000000 + 1" "nsec mod 1000000000 = (nsec - 1000000000) mod 1000000000"
      using div_pos_geq [of 1000000000 nsec] mod_pos_geq [of 1000000000 nsec] True by simp_all
    have "0 \<le> (nsec - 1000000000) div 1000000000" using True by (simp add: pos_imp_zdiv_nonneg_iff)
    then have "n < TIME_T_MAX" using less.prems(3) d(1) by linarith
    then have n: "sint (of_int n :: 64 word) \<noteq> TIME_T_MAX" using less.prems(1) by (simp add: TIME_T_MAX_def)
    have "ts_carry (of_int n) nsec = ts_carry (of_int (n + 1)) (nsec - 1000000000)"
      using True n by (subst ts_carry.simps) simp
    also have "\<dots> = Some (of_int (n + 1 + (nsec - 1000000000) div 1000000000), (nsec - 1000000000) mod 1000000000)"
      by (rule less.hyps) (use True less.prems d(1) in linarith)+
    also have "n + 1 + (nsec - 1000000000) div 1000000000 = n + nsec div 1000000000" using d(1) by linarith
    also have "(nsec - 1000000000) mod 1000000000 = nsec mod 1000000000" by (rule d(2) [symmetric])
    finally show ?thesis .
  next
    case False
    then show ?thesis using less.prems by (subst ts_carry.simps) simp
  qed
qed

definition minutes_ns :: "string \<Rightarrow> string \<Rightarrow> int" where
  \<comment> \<open>the minutes \<open>ms.fs\<close> in nanoseconds\<close>
  "minutes_ns ms fs = 60 * (digits_val 10 ms * 10 ^ 9 + digits_val 10 fs * 10 ^ (9 - length fs))"

definition ts_ns :: "timespec \<Rightarrow> int" where
  "ts_ns t = sint (tv_sec t) * 10 ^ 9 + sint (tv_nsec t)"

lemma ts_parse:
  assumes "list_all c_isdigit ms" "list_all c_isdigit fs" "length fs \<le> 9" "60 * digits_val 10 ms + 59 \<le> TIME_T_MAX"
    "tail = ''.'' @ fs \<or> tail = [] \<and> fs = []"
  obtains sec nsec where "ts_minutes (ms @ tail) 0 = Some (of_int (60 * digits_val 10 ms), tail)"
    "tail \<noteq> [] \<longrightarrow> Option.bind (ts_fraction 100000000 (tl tail) 0) (ts_carry (of_int (60 * digits_val 10 ms))) = Some (of_int sec, nsec)"
    "tail = [] \<longrightarrow> sec = 60 * digits_val 10 ms \<and> nsec = 0"
    "sec * 10 ^ 9 + nsec = minutes_ns ms fs" "0 \<le> sec" "sec \<le> TIME_T_MAX" "0 \<le> nsec" "nsec < 1000000000"
proof -
  let ?n = "60 * digits_val 10 ms" let ?b = "1000000000 :: int"
  define f where "f = 60 * digits_val 10 fs * 10 ^ (9 - length fs)"
  have n: "0 \<le> ?n" using digits_val_range [OF assms(1)] by simp
  have m: "ts_minutes (ms @ tail) 0 = Some (of_int ?n, tail)"
    using ts_minutes_value [OF assms(1), of tail 0] assms(4,5) by (auto simp: c_at_def)
  have d: "0 \<le> digits_val 10 fs" "digits_val 10 fs < 10 ^ length fs" using digits_val_range [OF assms(2)] by simp_all
  have "digits_val 10 fs * 10 ^ (9 - length fs) < 10 ^ length fs * 10 ^ (9 - length fs)"
    using d(2) by (intro mult_strict_right_mono) simp_all
  also have "\<dots> = (10 :: int) ^ 9" using assms(3) by (simp flip: power_add)
  finally have f: "0 \<le> f" "f < 60 * ?b" using d(1) by (simp_all add: f_def)
  have q: "0 \<le> f div ?b" "f div ?b \<le> 59" "0 \<le> f mod ?b" "f mod ?b < ?b" "f div ?b * ?b + f mod ?b = f"
    using f by (simp_all add: pos_imp_zdiv_nonneg_iff)
  have "Option.bind (ts_fraction 100000000 fs 0) (ts_carry (of_int ?n)) = Some (of_int (?n + f div ?b), f mod ?b)"
    using ts_fraction_value [OF assms(2), of 8 0] ts_carry_value [OF n f(1)] assms(3,4) q(2) by (simp add: f_def)
  then have c: "tail \<noteq> [] \<longrightarrow> Option.bind (ts_fraction 100000000 (tl tail) 0) (ts_carry (of_int ?n)) = Some (of_int (?n + f div ?b), f mod ?b)"
    using assms(5) by auto
  have z: "tail = [] \<longrightarrow> ?n + f div ?b = ?n \<and> f mod ?b = 0" using assms(5) by (auto simp: f_def digits_val_def)
  have "(?n + f div ?b) * 10 ^ 9 + f mod ?b = ?n * 10 ^ 9 + (f div ?b * ?b + f mod ?b)" by (simp add: algebra_simps)
  also have "\<dots> = minutes_ns ms fs" unfolding q(5) by (simp add: minutes_ns_def f_def algebra_simps)
  finally have v: "(?n + f div ?b) * 10 ^ 9 + f mod ?b = minutes_ns ms fs" .
  show ?thesis by (rule that [OF m c z v]) (use q n assms(4) in linarith)+
qed

text \<open>
  C36. Minutes with at most nine digits after the point are stored exactly, to the nanosecond, with a
  normal fraction and the sign of the string, whenever the seconds fit.
\<close>

theorem store_timespec_value:
  assumes "list_all c_isdigit ms" "list_all c_isdigit fs" "length fs \<le> 9" "60 * digits_val 10 ms + 59 \<le> TIME_T_MAX"
    and "tail = ''.'' @ fs \<or> tail = [] \<and> fs = []" "sg = [] \<or> sg = ''+'' \<or> sg = ''-''"
  shows "\<exists>t. store_timespec (Some (sg @ ms @ tail)) = Stored (Tspec t) \<and>
    ts_ns t = (if sg = ''-'' then - minutes_ns ms fs else minutes_ns ms fs) \<and> \<bar>sint (tv_nsec t)\<bar> < 1000000000"
proof -
  obtain sec nsec where p: "ts_minutes (ms @ tail) 0 = Some (of_int (60 * digits_val 10 ms), tail)"
    "tail \<noteq> [] \<longrightarrow> Option.bind (ts_fraction 100000000 (tl tail) 0) (ts_carry (of_int (60 * digits_val 10 ms))) = Some (of_int sec, nsec)"
    "tail = [] \<longrightarrow> sec = 60 * digits_val 10 ms \<and> nsec = 0"
    "sec * 10 ^ 9 + nsec = minutes_ns ms fs" "0 \<le> sec" "sec \<le> TIME_T_MAX" "0 \<le> nsec" "nsec < 1000000000"
    by (rule ts_parse [OF assms(1-5)])
  let ?t = "if sg = ''-'' then \<lparr>tv_sec = - of_int sec, tv_nsec = - of_int nsec\<rparr> else \<lparr>tv_sec = of_int sec, tv_nsec = of_int nsec\<rparr>"
  have first: "c_at (ms @ tail) \<noteq> CHR ''+''" "c_at (ms @ tail) \<noteq> CHR ''-''"
    using assms(1,5) by (cases ms; auto simp: c_at_def c_isdigit_def)+
  have "store_timespec (Some (sg @ ms @ tail)) = Stored (Tspec ?t)"
    using assms(6) first p(1-3) by (cases "tail = []") (auto simp: store_timespec_def Let_def c_at_def)
  moreover have s: "sint (of_int sec :: 64 word) = sec" "sint (of_int (- sec) :: 64 word) = - sec"
    "sint (of_int nsec :: 64 word) = nsec" "sint (of_int (- nsec) :: 64 word) = - nsec"
    using p(5-8) by (simp_all add: TIME_T_MAX_def del: of_int_minus)
  then have "ts_ns ?t = (if sg = ''-'' then - minutes_ns ms fs else minutes_ns ms fs)" "\<bar>sint (tv_nsec ?t)\<bar> < 1000000000"
    using p(4,7,8) by (simp_all add: ts_ns_def)
  ultimately show ?thesis by blast
qed

end
