(* ===== verification/DefaultsSamples.thy ===== *)
theory DefaultsSamples
  imports DefaultsSet DefaultsValues Samples
begin

text \<open>
  Concrete instances of the properties of settings: a table of the size of \<open>sudo_defs_table\<close> whose
  first entries are a number, a list and a time; the callback of the number counts its calls.
\<close>

definition sample_setting :: "string \<Rightarrow> 32 word \<Rightarrow> defs_val \<Rightarrow> sudo_defs_types" where
  "sample_setting name t v = \<lparr>dt_name = name, dt_type = t, dt_values = [], dt_val = v\<rparr>"

definition sample_table :: "sudo_defs_types list" where
  "sample_table =
     [sample_setting ''passwd_tries'' T_UINT (Ival 3), sample_setting ''env_keep'' (or T_LIST T_BOOL) (Members [''PATH'']),
      sample_setting ''timestamp_timeout'' (or T_TIMESPEC T_BOOL) (Tspec \<lparr>tv_sec = 300, tv_nsec = 0\<rparr>)] @
     replicate 117 (sample_setting ''fqdn'' T_FLAG (Flag False))"

definition sample_denv :: "nat defs_env" where
  "sample_denv = \<lparr>de_sys = empty_system, de_LOGFAC = ''authpriv'', de_PATH_MAX = 1024, de_settings = (\<lambda>_. sample_defs),
     de_matcher = (\<lambda>_. sample_cm ''/bin/ls''),
     de_callback = (\<lambda>i. if i = 0 then Some (\<lambda>v op st. (True, st\<lparr>ds_world := Suc (ds_world st)\<rparr>)) else None)\<rparr>"

definition sample_dst :: "nat defs_state" where
  "sample_dst = \<lparr>ds_table = sample_table, ds_pending = [], ds_ctx = sample_ctx, ds_match = sample_ms, ds_world = 0, ds_warnings = []\<rparr>"

definition sample_default :: "string \<Rightarrow> string \<Rightarrow> int \<Rightarrow> defaults" where
  "sample_default var val op = \<lparr>d_var = var, d_val = Some val, d_binding = [], d_type = DEFAULTS, d_op = op\<rparr>"

definition sample_entries :: "defaults list" where
  "sample_entries = [sample_default ''passwd_tries'' ''5'' op_true, sample_default ''env_keep'' ''PATH LANG'' op_add,
     sample_default ''passwd_tries'' ''2'' op_true, sample_default ''timestamp_timeout'' ''1.5'' op_true]"

definition sample_dpt :: parse_tree where
  "sample_dpt = (sample_tree [])\<lparr>pt_defaults := sample_entries\<rparr>"

lemma sample_default_fields [simp]:
  "d_type (sample_default var val op) = DEFAULTS" "d_var (sample_default var val op) = var"
  by (simp_all add: sample_default_def)

lemma sample_table_typed: "list_all typed_entry sample_table"
  by (simp add: list_all_iff sample_table_def sample_setting_def typed_entry_def typed_val_def normal_time_def T_defs T_BOOL_def T_MASK_def)

lemma sample_callback:
  "de_callback sample_denv i = Some f \<Longrightarrow>
   fst (f v op st) \<and> ds_table (snd (f v op st)) = ds_table st \<and> ds_warnings (snd (f v op st)) = ds_warnings st"
  by (auto simp: sample_denv_def split: if_splits)

lemma update_defaults_typed_witness:
  "list_all typed_entry (ds_table (snd (update_defaults sample_denv sample_dpt None SETDEF_GENERIC sample_dst)))"
  by (rule update_defaults_typed [OF _ prod.collapse [symmetric]]) (simp_all add: sample_dst_def sample_table_typed sample_callback)

lemma sample_settled: "settled sample_denv (sample_setting ''passwd_tries'' T_UINT (Ival 3))
   [sample_default ''passwd_tries'' ''5'' 1, sample_default ''passwd_tries'' ''x'' 1] = Ival 5"
  by code_simp

lemma update_defaults_settled_witness:
  "dt_val (ds_table (snd (update_defaults sample_denv sample_dpt
     (Some [sample_default ''passwd_tries'' ''5'' 1, sample_default ''env_keep'' ''A'' 1, sample_default ''passwd_tries'' ''x'' 1])
     SETDEF_GENERIC sample_dst)) ! 0) = Ival 5"
proof -
  let ?ds = "[sample_default ''passwd_tries'' ''5'' 1, sample_default ''env_keep'' ''A'' 1, sample_default ''passwd_tries'' ''x'' 1]"
  have t: "ds_table sample_dst ! 0 = sample_setting ''passwd_tries'' T_UINT (Ival 3)" "find_index ''passwd_tries'' (ds_table sample_dst) = Some 0"
    by (simp_all add: sample_dst_def sample_table_def sample_setting_def)
  show ?thesis
    using update_defaults_settled [of sample_denv sample_dpt ?ds sample_dst, OF prod.collapse [symmetric] t(2)] sample_callback
    by (simp add: t(1) sample_settled)
qed

lemma checked_defaults_are_set_witness:
  "fst (update_defaults sample_denv sample_dpt None SETDEF_GENERIC sample_dst) \<and>
   ds_warnings (snd (update_defaults sample_denv sample_dpt None SETDEF_GENERIC sample_dst)) = []"
proof -
  have "fst (check_defaults sample_denv sample_dpt sample_dst)" by code_simp
  then have "check_defaults sample_denv sample_dpt sample_dst = (True, snd (check_defaults sample_denv sample_dpt sample_dst))"
    by (simp add: prod_eq_iff)
  from checked_defaults_are_set [OF this prod.collapse [symmetric], of SETDEF_GENERIC] sample_callback
  show ?thesis by (simp add: sample_dst_def)
qed

lemma store_timespec_value_witness:
  "\<exists>t. store_timespec (Some ''-1.5'') = Stored (Tspec t) \<and> ts_ns t = - 90000000000 \<and> \<bar>sint (tv_nsec t)\<bar> < 1000000000"
  using store_timespec_value [of "''1''" "''5''" "''.5''" "''-''"]
  by (simp add: minutes_ns_def digits_val_def digit_val_def c_isdigit_def TIME_T_MAX_def)

text \<open>What follows nine digits of a fraction is not looked at.\<close>

lemma timespec_tail_ignored: "store_timespec (Some ''1.500000000 minutes'') = store_timespec (Some ''1.5'')"
  by code_simp

end
