(* ===== verification/JsonWrite.thy ===== *)
theory JsonWrite
  imports Strto
begin

text \<open>
  The writer of \<open>lib/util/json.c\<close>. A container keeps what its buffer holds (\<open>buflen\<close> is the length,
  a NUL follows) and the size of the buffer, which doubles until \<open>reallocarray\<close> refuses: \<open>jc_limit\<close>
  is the largest size it grants, below 4 GiB as the size is a 32-bit number. \<open>memfatal\<close>, which ends the process then, is not modelled.
\<close>

datatype json_value = JSON_STRING string | JSON_ID "32 word" | JSON_NUMBER "64 word" | JSON_OBJECT | JSON_ARRAY | JSON_BOOL bool | JSON_NULL

record json_container =
  jc_buf :: string
  jc_bufsize :: nat
  jc_indent_level :: "32 word"
  jc_indent_increment :: "32 word"
  jc_minimal :: bool
  jc_need_comma :: bool
  jc_quiet :: bool
  jc_limit :: nat

definition jthen :: "bool \<times> json_container \<Rightarrow> (json_container \<Rightarrow> bool \<times> json_container) \<Rightarrow> bool \<times> json_container" where
  \<comment> \<open>go on unless a call has failed\<close>
  "jthen r f = (if fst r then f (snd r) else r)"

section \<open>The buffer\<close>

definition json_expand_buf :: "json_container \<Rightarrow> json_container option" where
  "json_expand_buf c =
     (if jc_bufsize c = 0 \<or> jc_limit c < 2 * jc_bufsize c then None else Some (c\<lparr>jc_bufsize := 2 * jc_bufsize c\<rparr>))"

function json_ensure :: "nat \<Rightarrow> json_container \<Rightarrow> bool \<times> json_container" where
  \<comment> \<open>the loop in front of every write\<close>
  "json_ensure need c =
     (if need < jc_bufsize c then (True, c)
      else case json_expand_buf c of None \<Rightarrow> (False, c) | Some c \<Rightarrow> json_ensure need c)"
  by pat_completeness auto

termination json_ensure
  by (relation "measure (\<lambda>(need, c). jc_limit c - jc_bufsize c)") (auto simp: json_expand_buf_def split: if_splits)

declare json_ensure.simps [simp del]

definition json_new_line :: "json_container \<Rightarrow> bool \<times> json_container" where
  "json_new_line c =
     (if jc_minimal c then (True, c)
      else let indent = unat (jc_indent_level c) in
        jthen (json_ensure ((length (jc_buf c) + 1 + indent) mod 2 ^ 32) c)
          (\<lambda>c. (True, c\<lparr>jc_buf := jc_buf c @ CHR 0x0A # replicate indent (CHR '' '')\<rparr>)))"

definition json_append_buf :: "string \<Rightarrow> json_container \<Rightarrow> bool \<times> json_container" where
  "json_append_buf str c =
     jthen (json_ensure (length (jc_buf c) + length str) c) (\<lambda>c. (True, c\<lparr>jc_buf := jc_buf c @ str\<rparr>))"

definition c_iscntrl :: "char \<Rightarrow> bool" where
  [ctype_simps]: "c_iscntrl c \<longleftrightarrow> code c < 32 \<or> code c = 127"

definition json_hex :: "nat \<Rightarrow> char" where
  "json_hex n = ''0123456789abcdef'' ! n"

definition json_escape :: "char \<Rightarrow> string" where
  "json_escape ch =
     (if ch = CHR 0x22 \<or> ch = CHR 0x5C then [CHR 0x5C, ch]
      else if ch = CHR 0x08 then [CHR 0x5C, CHR ''b'']
      else if ch = CHR 0x0C then [CHR 0x5C, CHR ''f'']
      else if ch = CHR 0x0A then [CHR 0x5C, CHR ''n'']
      else if ch = CHR 0x0D then [CHR 0x5C, CHR ''r'']
      else if ch = CHR 0x09 then [CHR 0x5C, CHR ''t'']
      else if c_iscntrl ch then CHR 0x5C # ''u00'' @ [json_hex (code ch div 16), json_hex (code ch mod 16)]
      else [ch])"

primrec json_append_chars :: "string \<Rightarrow> json_container \<Rightarrow> bool \<times> json_container" where
  "json_append_chars [] c = (True, c)"
| "json_append_chars (ch # str) c = jthen (json_append_buf (json_escape ch) c) (json_append_chars str)"

definition json_append_string :: "string \<Rightarrow> json_container \<Rightarrow> bool \<times> json_container" where
  "json_append_string str c =
     jthen (json_append_buf [CHR 0x22] c) (\<lambda>c. jthen (json_append_chars str c) (json_append_buf [CHR 0x22]))"

section \<open>The operations\<close>

definition sudo_json_init :: "nat \<Rightarrow> 32 word \<Rightarrow> bool \<Rightarrow> bool \<Rightarrow> json_container option" where
  "sudo_json_init limit indent minimal quiet =
     (if limit < 64 * 1024 then None
      else Some \<lparr>jc_buf = [], jc_bufsize = 64 * 1024, jc_indent_level = indent, jc_indent_increment = indent,
        jc_minimal = minimal, jc_need_comma = False, jc_quiet = quiet, jc_limit = limit\<rparr>)"

definition json_comma :: "json_container \<Rightarrow> bool \<times> json_container" where
  \<comment> \<open>a comma if we are continuing, and a new line\<close>
  "json_comma c = jthen (if jc_need_comma c then json_append_buf '','' c else (True, c)) json_new_line"

definition json_open :: "char \<Rightarrow> string option \<Rightarrow> json_container \<Rightarrow> bool \<times> json_container" where
  \<comment> \<open>\<open>sudo_json_open_object\<close> and \<open>sudo_json_open_array\<close>; whether the name was written is not looked at\<close>
  "json_open bracket name c =
     jthen (json_comma c) (\<lambda>c.
     jthen (case name of
              Some n \<Rightarrow> json_append_buf ((if jc_minimal c then '':'' else '': '') @ [bracket]) (snd (json_append_string n c))
            | None \<Rightarrow> json_append_buf [bracket] c)
       (\<lambda>c. (True, c\<lparr>jc_indent_level := jc_indent_level c + jc_indent_increment c, jc_need_comma := False\<rparr>)))"

definition json_close :: "char \<Rightarrow> json_container \<Rightarrow> bool \<times> json_container" where
  "json_close bracket c =
     jthen (if \<not> jc_minimal c then json_new_line (c\<lparr>jc_indent_level := jc_indent_level c - jc_indent_increment c\<rparr>) else (True, c))
       (\<lambda>c. jthen (json_append_buf [bracket] c) (\<lambda>c. (True, c\<lparr>jc_need_comma := True\<rparr>)))"

definition sudo_json_open_object :: "string option \<Rightarrow> json_container \<Rightarrow> bool \<times> json_container" where
  "sudo_json_open_object = json_open (CHR ''{'')"

definition sudo_json_close_object :: "json_container \<Rightarrow> bool \<times> json_container" where
  "sudo_json_close_object = json_close (CHR ''}'')"

definition sudo_json_open_array :: "string option \<Rightarrow> json_container \<Rightarrow> bool \<times> json_container" where
  "sudo_json_open_array = json_open (CHR ''['')"

definition sudo_json_close_array :: "json_container \<Rightarrow> bool \<times> json_container" where
  "sudo_json_close_array = json_close (CHR '']'')"

definition c_lld :: "64 word \<Rightarrow> string" where
  \<comment> \<open>\<open>%lld\<close>\<close>
  "c_lld n = (if sint n < 0 then CHR ''-'' # decimal (nat (- sint n)) else decimal (nat (sint n)))"

definition json_value_text :: "json_value \<Rightarrow> json_container \<Rightarrow> bool \<times> json_container" where
  "json_value_text value c =
     (case value of
        JSON_STRING s \<Rightarrow> json_append_string s c
      | JSON_ID i \<Rightarrow> json_append_buf (decimal (unat i)) c
      | JSON_NUMBER n \<Rightarrow> json_append_buf (c_lld n) c
      | JSON_NULL \<Rightarrow> json_append_buf ''null'' c
      | JSON_BOOL b \<Rightarrow> json_append_buf (if b then ''true'' else ''false'') c
      | JSON_ARRAY \<Rightarrow> (False, c)
      | JSON_OBJECT \<Rightarrow> (False, c))"

definition sudo_json_add_value_int :: "string option \<Rightarrow> json_value \<Rightarrow> bool \<Rightarrow> json_container \<Rightarrow> bool \<times> json_container" where
  \<comment> \<open>on failure everything but the buffer's size is as before\<close>
  "sudo_json_add_value_int name value as_object c0 =
     (let (ok, c) =
        jthen (json_comma c0) (\<lambda>c.
        let c = c\<lparr>jc_need_comma := True\<rparr> in
        jthen (if as_object then json_append_buf (if jc_minimal c then ''{'' else ''{ '') c else (True, c)) (\<lambda>c.
        jthen (case name of None \<Rightarrow> (True, c)
               | Some n \<Rightarrow> jthen (json_append_string n c) (\<lambda>c. json_append_buf (if jc_minimal c then '':'' else '': '') c)) (\<lambda>c.
        jthen (json_value_text value c) (\<lambda>c.
        if as_object then json_append_buf (if jc_minimal c then ''}'' else '' }'') c else (True, c)))))
      in if ok then (True, c) else (False, c0\<lparr>jc_bufsize := jc_bufsize c\<rparr>))"

definition sudo_json_add_value :: "string option \<Rightarrow> json_value \<Rightarrow> json_container \<Rightarrow> bool \<times> json_container" where
  "sudo_json_add_value name value = sudo_json_add_value_int name value False"

definition sudo_json_add_value_as_object :: "string option \<Rightarrow> json_value \<Rightarrow> json_container \<Rightarrow> bool \<times> json_container" where
  "sudo_json_add_value_as_object name value = sudo_json_add_value_int name value True"

end
