(* ===== verification/JsonRead.thy ===== *)
theory JsonRead
  imports Strto
begin

text \<open>
  The reader of event logs, \<open>eventlog_json_read\<close> of \<open>lib/eventlog/parse_json.c\<close>. The tree under
  construction is the list of items of the current frame and the stack of the frames around it; a
  frame is what its parent pointer says it is. Line numbers, which serve the messages, are left out.
\<close>

datatype json_item = Json_item (it_name: "string option") (it_node: json_node)
  and json_node = N_string string | N_number "64 word" | N_object "json_item list" | N_array "json_item list" | N_bool bool | N_null

datatype frame_parent = No_parent | Object_parent | Array_parent

record json_frame =
  jf_parent :: frame_parent
  jf_name :: "string option" \<comment> \<open>the name of the parent item\<close>
  jf_items :: "json_item list"

record json_reader =
  jr_frame :: json_frame
  jr_stack :: "json_frame list"
  jr_name :: "string option"
  jr_comma :: bool

datatype json_error =
    Objects_need_names | Missing_separator | Stack_exhausted | Unmatched_brace | Unmatched_bracket | Unexpected_array
  | Unexpected_string | Missing_quote | Missing_colon | Unexpected_boolean | Unexpected_null | Unexpected_number
  | Bad_number string | Parse_error

section \<open>Strings\<close>

fun json_scan :: "string \<Rightarrow> nat option" where
  \<comment> \<open>the distance of the closing quote\<close>
  "json_scan [] = None"
| "json_scan (c # s) =
     (if c = CHR 0x22 then Some 0
      else if c = CHR 0x5C \<and> c_at s = CHR 0x22 then map_option (\<lambda>n. n + 2) (json_scan (tl s))
      else map_option Suc (json_scan s))"

fun json_copy :: "nat \<Rightarrow> string \<Rightarrow> string" where
  \<comment> \<open>the next \<open>n\<close> characters of a string with the escapes replaced; the code looks beyond them\<close>
  "json_copy 0 src = []"
| "json_copy (Suc n) src =
     (let ch = c_at src; src = tl src; e = c_at src in
      if ch \<noteq> CHR 0x5C then ch # json_copy n src
      else if e = CHR ''b'' then CHR 0x08 # json_copy (n - 1) (tl src)
      else if e = CHR ''f'' then CHR 0x0C # json_copy (n - 1) (tl src)
      else if e = CHR ''n'' then CHR 0x0A # json_copy (n - 1) (tl src)
      else if e = CHR ''r'' then CHR 0x0D # json_copy (n - 1) (tl src)
      else if e = CHR ''t'' then CHR 0x09 # json_copy (n - 1) (tl src)
      else if e = CHR ''u'' \<and> c_at (tl src) = CHR ''0'' \<and> c_at (drop 2 src) = CHR ''0'' \<and>
              sudo_hexchar (c_at (drop 3 src)) (c_at (drop 4 src)) \<noteq> -1
      then char_of (nat (sudo_hexchar (c_at (drop 3 src)) (c_at (drop 4 src)))) # json_copy (n - 5) (drop 5 src)
      else e # json_copy (n - 1) (tl src))"

definition json_parse_string :: "string \<Rightarrow> (string \<times> string) option" where
  "json_parse_string str =
     (let src = tl str in
      case json_scan src of None \<Rightarrow> None
      | Some n \<Rightarrow> Some (cstr (json_copy n src), dropWhile c_isspace (drop (Suc n) src)))"

section \<open>Tokens\<close>

definition expect_value :: "json_reader \<Rightarrow> bool" where
  "expect_value st \<longleftrightarrow> jr_name st \<noteq> None \<or> jf_parent (jr_frame st) = Array_parent"

definition lacks_separator :: "json_reader \<Rightarrow> bool" where
  "lacks_separator st \<longleftrightarrow> \<not> jr_comma st \<and> jf_items (jr_frame st) \<noteq> []"

definition json_insert :: "json_node \<Rightarrow> json_reader \<Rightarrow> json_reader" where
  "json_insert node st =
     st\<lparr>jr_frame := (jr_frame st)\<lparr>jf_items := jf_items (jr_frame st) @ [Json_item (jr_name st) node]\<rparr>,
        jr_name := None, jr_comma := False\<rparr>"

definition json_maxdepth :: nat where "json_maxdepth = 64"

definition json_stack_push :: "frame_parent \<Rightarrow> json_reader \<Rightarrow> json_error + json_reader" where
  "json_stack_push type st =
     (if length (jr_stack st) \<ge> json_maxdepth then Inl Stack_exhausted
      else Inr (st\<lparr>jr_frame := \<lparr>jf_parent = type, jf_name = jr_name st, jf_items = []\<rparr>,
        jr_stack := jr_frame st # jr_stack st, jr_name := None, jr_comma := False\<rparr>))"

definition json_stack_pop :: "json_reader \<Rightarrow> json_reader" where
  \<comment> \<open>the item of a finished frame, which the code has put into its list when it opened the frame\<close>
  "json_stack_pop st =
     (case jr_stack st of [] \<Rightarrow> st
      | f # fs \<Rightarrow>
          let g = jr_frame st; node = (if jf_parent g = Array_parent then N_array (jf_items g) else N_object (jf_items g)) in
          st\<lparr>jr_frame := f\<lparr>jf_items := jf_items f @ [Json_item (jf_name g) node]\<rparr>, jr_stack := fs, jr_comma := False\<rparr>)"

definition json_literal :: "string \<Rightarrow> json_error \<Rightarrow> json_node \<Rightarrow> json_reader \<Rightarrow> string \<Rightarrow> json_error + json_reader \<times> string" where
  "json_literal word unexpected node st cp =
     (if \<not> strncmp_eq cp word (length word) then Inl Parse_error
      else if \<not> expect_value st then Inl unexpected
      else let cp = drop (length word) cp in
        if c_at cp \<noteq> CHR '','' \<and> \<not> c_isspace (c_at cp) \<and> c_at cp \<noteq> NUL then Inl Parse_error
        else if lacks_separator st then Inl Missing_separator
        else Inr (json_insert node st, cp))"

definition LLONG_MIN :: int where "LLONG_MIN = - (2 ^ 63)"
definition LLONG_MAX :: int where "LLONG_MAX = 2 ^ 63 - 1"

definition json_number_end :: "char \<Rightarrow> bool" where
  "json_number_end c \<longleftrightarrow> c \<in> set ('' ,'' @ [CHR 0x0C, CHR 0x0A, CHR 0x0D, CHR 0x09, CHR 0x0B])"

definition json_number :: "json_reader \<Rightarrow> string \<Rightarrow> json_error + json_reader \<times> string" where
  "json_number st cp =
     (if \<not> expect_value st then Inl Unexpected_number
      else let num = takeWhile (\<lambda>c. \<not> json_number_end c) cp in
        if lacks_separator st then Inl Missing_separator
        else case sudo_strtonum num LLONG_MIN LLONG_MAX of
               Some (n, None) \<Rightarrow> Inr (json_insert (N_number (of_int n)) st, drop (length num) cp)
             | Some (n, Some e) \<Rightarrow> Inl (Bad_number e)
             | None \<Rightarrow> Inl (Bad_number []))"

definition json_open_frame :: "frame_parent \<Rightarrow> json_reader \<Rightarrow> string \<Rightarrow> json_error + json_reader \<times> string" where
  "json_open_frame type st cp =
     (if type = Object_parent \<and> jr_name st = None \<and> jf_parent (jr_frame st) \<noteq> No_parent then Inl Objects_need_names
      else if type = Array_parent \<and> jf_parent (jr_frame st) = No_parent then Inl Unexpected_array
      else if lacks_separator st then Inl Missing_separator
      else case json_stack_push type st of Inl e \<Rightarrow> Inl e | Inr st \<Rightarrow> Inr (st, tl cp))"

definition json_close_frame :: "frame_parent \<Rightarrow> json_reader \<Rightarrow> string \<Rightarrow> json_error + json_reader \<times> string" where
  "json_close_frame type st cp =
     (if jr_stack st = [] \<or> jf_parent (jr_frame st) \<noteq> type
      then Inl (if type = Object_parent then Unmatched_brace else Unmatched_bracket)
      else Inr (json_stack_pop st, tl cp))"

definition json_quoted :: "json_reader \<Rightarrow> string \<Rightarrow> json_error + json_reader \<times> string" where
  "json_quoted st cp =
     (if jf_parent (jr_frame st) = No_parent then Inl Unexpected_string
      else if \<not> expect_value st
      then (case json_parse_string cp of
              None \<Rightarrow> Inl Missing_quote
            | Some (name, cp) \<Rightarrow> if c_at cp \<noteq> CHR '':'' then Inl Missing_colon else Inr (st\<lparr>jr_name := Some name\<rparr>, tl cp))
      else if lacks_separator st then Inl Missing_separator
      else (case json_parse_string cp of
              None \<Rightarrow> Inl Missing_quote
            | Some (s, cp) \<Rightarrow> Inr (json_insert (N_string s) st, cp)))"

definition json_token :: "json_reader \<Rightarrow> string \<Rightarrow> json_error + json_reader \<times> string" where
  "json_token st cp =
     (let c = c_at cp in
      if c = CHR ''{'' then json_open_frame Object_parent st cp
      else if c = CHR ''}'' then json_close_frame Object_parent st cp
      else if c = CHR ''['' then json_open_frame Array_parent st cp
      else if c = CHR '']'' then json_close_frame Array_parent st cp
      else if c = CHR 0x22 then json_quoted st cp
      else if c = CHR ''t'' then json_literal ''true'' Unexpected_boolean (N_bool True) st cp
      else if c = CHR ''f'' then json_literal ''false'' Unexpected_boolean (N_bool False) st cp
      else if c = CHR ''n'' then json_literal ''null'' Unexpected_null N_null st cp
      else if c = CHR ''+'' \<or> c = CHR ''-'' \<or> c_isdigit c then json_number st cp
      else Inl Parse_error)"

section \<open>Lines\<close>

definition skip_comma :: "json_reader \<Rightarrow> string \<Rightarrow> json_reader \<times> string" where
  \<comment> \<open>leading blanks and a comma\<close>
  "skip_comma st cp =
     (let cp = dropWhile c_isspace cp in
      if c_at cp = CHR '','' then (st\<lparr>jr_comma := True\<rparr>, dropWhile c_isspace (tl cp)) else (st, cp))"

lemma json_scan_less: "json_scan s = Some n \<Longrightarrow> n < length s"
proof (induction s arbitrary: n rule: json_scan.induct)
  case (2 c s)
  then show ?case by (cases s) (auto simp: c_at_def split: if_splits)
qed simp

lemma parse_string_shorter: "json_parse_string cp = Some (s, rest) \<Longrightarrow> length rest < length cp"
proof -
  assume "json_parse_string cp = Some (s, rest)"
  then obtain n where n: "json_scan (tl cp) = Some n" "rest = dropWhile c_isspace (drop (Suc n) (tl cp))"
    by (auto simp: json_parse_string_def Let_def split: option.splits)
  have "length rest \<le> length (drop (Suc n) (tl cp))" unfolding n(2) by (rule length_dropWhile_le)
  then show ?thesis using json_scan_less [OF n(1)] by simp
qed

lemma literal_shorter:
  assumes "json_literal word e node st cp = Inr (st', rest)" "word \<noteq> []"
  shows "length rest < length cp"
proof -
  have "strncmp_eq cp word (length word)" "rest = drop (length word) cp"
    using assms(1) by (simp_all add: json_literal_def Let_def split: if_splits)
  then have "length rest + length word = length cp"
    by (metis add.commute append_take_drop_id length_append strncmp_eq_def take_all_iff order_refl)
  then show ?thesis using assms(2) by (cases word) simp_all
qed

lemma number_shorter:
  assumes "json_number st cp = Inr (st', rest)" "cp \<noteq> []" "\<not> json_number_end (c_at cp)"
  shows "length rest < length cp"
proof -
  have "rest = drop (length (takeWhile (\<lambda>c. \<not> json_number_end c) cp)) cp"
    using assms(1) by (simp add: json_number_def Let_def split: if_splits option.splits prod.splits)
  then show ?thesis using assms(2,3) by (cases cp) (simp_all add: c_at_def less_Suc_eq_le)
qed

lemma frame_shorter:
  "json_open_frame type st cp = Inr (st', rest) \<Longrightarrow> rest = tl cp"
  "json_close_frame type st cp = Inr (st', rest) \<Longrightarrow> rest = tl cp"
  by (simp_all add: json_open_frame_def json_close_frame_def split: if_splits sum.splits)

lemma quoted_shorter: "json_quoted st cp = Inr (st', rest) \<Longrightarrow> length rest < length cp"
  using parse_string_shorter [of cp]
  by (cases "json_parse_string cp") (fastforce simp: json_quoted_def split: if_splits)+

lemma json_token_shorter:
  assumes "json_token st cp = Inr (st', rest)" "cp \<noteq> []"
  shows "length rest < length cp"
proof -
  have tl: "length (tl cp) < length cp" using assms(2) by (cases cp) simp_all
  have num: "\<not> json_number_end c" if "c = CHR ''+'' \<or> c = CHR ''-'' \<or> c_isdigit c" for c
    using that by (auto simp: json_number_end_def ctype_simps)
  consider t where "json_open_frame t st cp = Inr (st', rest)" | t where "json_close_frame t st cp = Inr (st', rest)"
    | "json_quoted st cp = Inr (st', rest)"
    | e n where "json_literal ''true'' e n st cp = Inr (st', rest)" | e n where "json_literal ''false'' e n st cp = Inr (st', rest)"
    | e n where "json_literal ''null'' e n st cp = Inr (st', rest)"
    | "c_at cp = CHR ''+'' \<or> c_at cp = CHR ''-'' \<or> c_isdigit (c_at cp)" "json_number st cp = Inr (st', rest)"
    using assms(1) [unfolded json_token_def Let_def] by (simp only: split: if_split_asm) (blast | simp)+
  then show ?thesis
  proof cases
    case 7
    show ?thesis by (rule number_shorter [OF 7(2) assms(2) num [OF 7(1)]])
  qed (use tl frame_shorter quoted_shorter in \<open>auto dest: literal_shorter\<close>)
qed

lemma skip_comma_le: "length (snd (skip_comma st cp)) \<le> length cp"
  using length_dropWhile_le [of c_isspace cp] length_dropWhile_le [of c_isspace "tl (dropWhile c_isspace cp)"]
  by (auto simp: skip_comma_def Let_def)

function json_line :: "json_reader \<Rightarrow> string \<Rightarrow> json_error + json_reader" where
  "json_line st cp =
     (let st' = fst (skip_comma st cp); cp' = snd (skip_comma st cp) in
      if c_at cp' = NUL then Inr st'
      else case json_token st' cp' of Inl e \<Rightarrow> Inl e | Inr (st, cp) \<Rightarrow> json_line st cp)"
  by pat_completeness auto

termination json_line
proof (relation "measure (\<lambda>(st, cp). length cp)")
  fix st cp st' cp' r st1 cp1
  assume a: "st' = fst (skip_comma st cp)" "cp' = snd (skip_comma st cp)" "c_at cp' \<noteq> NUL" "json_token st' cp' = Inr r"
    "(st1, cp1) = r"
  have "cp' \<noteq> []" using a(3) by (auto simp: c_at_def)
  then show "((st1, cp1), (st, cp)) \<in> measure (\<lambda>(st, cp). length cp)"
    using json_token_shorter [of st' cp' st1 cp1] skip_comma_le [of st cp] a(2,4) a(5) [symmetric] by simp
qed simp

declare json_line.simps [simp del]

definition trim_line :: "string \<Rightarrow> string" where
  \<comment> \<open>without trailing blanks, but with its first character, up to a NUL\<close>
  "trim_line line =
     (let t = rev (dropWhile c_isspace (rev line)) in cstr (if t = [] then take 1 line else t))"

function json_lines :: "json_reader \<Rightarrow> string \<Rightarrow> json_error + json_reader" where
  "json_lines st text =
     (if text = [] then Inr st
      else let n = length (takeWhile (\<lambda>c. c \<noteq> CHR 0x0A) text) in
        case json_line st (trim_line (take (Suc n) text)) of Inl e \<Rightarrow> Inl e | Inr st \<Rightarrow> json_lines st (drop (Suc n) text))"
  by pat_completeness auto

termination json_lines
  by (relation "measure (\<lambda>(st, text). length text)") auto

declare json_lines.simps [simp del]

definition json_start :: json_reader where
  "json_start = \<lparr>jr_frame = \<lparr>jf_parent = No_parent, jf_name = None, jf_items = []\<rparr>, jr_stack = [], jr_name = None, jr_comma = False\<rparr>"

definition eventlog_json_read :: "string \<Rightarrow> json_error + json_item list" where
  \<comment> \<open>the items of the root\<close>
  "eventlog_json_read text =
     (case json_lines json_start text of Inl e \<Rightarrow> Inl e
      | Inr st \<Rightarrow>
          (case jr_stack st of [] \<Rightarrow> Inr (jf_items (jr_frame st))
           | f # _ \<Rightarrow> Inl (if jf_parent f = Array_parent then Unmatched_bracket else Unmatched_brace)))"

end
