(* ===== verification/EventLog.thy ===== *)
theory EventLog
  imports JsonWrite JsonRead Timestamp
begin

text \<open>
  The events that \<open>lib/eventlog\<close> and \<open>lib/iolog\<close> keep as JSON: \<open>eventlog_store_json\<close> of
  \<open>eventlog.c\<close> writes one, \<open>eventlog_json_parse\<close> of \<open>parse_json.c\<close> takes one from a tree with a
  table of keys and setters, \<open>iolog_loginfo.c\<close> and \<open>iolog_json.c\<close> keep one in the file
  \<open>log.json\<close> of an I/O log.
\<close>

record eventlog =
  ev_iolog_path :: "string option"
  ev_iolog_file :: "string option"
  ev_command :: "string option"
  ev_cwd :: "string option"
  ev_runchroot :: "string option"
  ev_runcwd :: "string option"
  ev_rungroup :: "string option"
  ev_runuser :: "string option"
  ev_peeraddr :: "string option"
  ev_signal_name :: "string option"
  ev_source :: "string option"
  ev_submithost :: "string option"
  ev_submituser :: "string option"
  ev_submitgroup :: "string option"
  ev_submitenv :: "string list option"
  ev_ttyname :: "string option"
  ev_runargv :: "string list option"
  ev_runenv :: "string list option"
  ev_env_add :: "string list option"
  ev_event_time :: timespec
  ev_iolog_offset :: timespec
  ev_run_time :: timespec
  ev_exit_value :: "32 word"
  ev_lines :: "32 word"
  ev_columns :: "32 word"
  ev_runuid :: "32 word"
  ev_rungid :: "32 word"
  ev_dumped_core :: bool
  ev_uuid_str :: string

section \<open>From a tree\<close>

text \<open>The setters work on the event and the static variable \<open>iolog_file\<close>; the loop checks the types first.\<close>

type_synonym log_state = "eventlog \<times> string option"

definition store_string :: "(string \<Rightarrow> eventlog \<Rightarrow> eventlog) \<Rightarrow> json_node \<Rightarrow> log_state \<Rightarrow> bool \<times> log_state" where
  "store_string put item st =
     (case item of N_string s \<Rightarrow> (True, (put s (fst st), snd st)) | _ \<Rightarrow> (False, st))"

definition json_store_command where "json_store_command = store_string (\<lambda>s. ev_command_update (\<lambda>_. Some s))"
definition json_store_iolog_path where "json_store_iolog_path = store_string (\<lambda>s. ev_iolog_path_update (\<lambda>_. Some s))"
definition json_store_peeraddr where "json_store_peeraddr = store_string (\<lambda>s. ev_peeraddr_update (\<lambda>_. Some s))"
definition json_store_rungroup where "json_store_rungroup = store_string (\<lambda>s. ev_rungroup_update (\<lambda>_. Some s))"
definition json_store_runuser where "json_store_runuser = store_string (\<lambda>s. ev_runuser_update (\<lambda>_. Some s))"
definition json_store_runchroot where "json_store_runchroot = store_string (\<lambda>s. ev_runchroot_update (\<lambda>_. Some s))"
definition json_store_runcwd where "json_store_runcwd = store_string (\<lambda>s. ev_runcwd_update (\<lambda>_. Some s))"
definition json_store_signal where "json_store_signal = store_string (\<lambda>s. ev_signal_name_update (\<lambda>_. Some s))"
definition json_store_source where "json_store_source = store_string (\<lambda>s. ev_source_update (\<lambda>_. Some s))"
definition json_store_submitcwd where "json_store_submitcwd = store_string (\<lambda>s. ev_cwd_update (\<lambda>_. Some s))"
definition json_store_submithost where "json_store_submithost = store_string (\<lambda>s. ev_submithost_update (\<lambda>_. Some s))"
definition json_store_submituser where "json_store_submituser = store_string (\<lambda>s. ev_submituser_update (\<lambda>_. Some s))"
definition json_store_submitgroup where "json_store_submitgroup = store_string (\<lambda>s. ev_submitgroup_update (\<lambda>_. Some s))"
definition json_store_ttyname where "json_store_ttyname = store_string (\<lambda>s. ev_ttyname_update (\<lambda>_. Some s))"

definition json_store_iolog_file :: "json_node \<Rightarrow> log_state \<Rightarrow> bool \<times> log_state" where
  "json_store_iolog_file item st = (case item of N_string s \<Rightarrow> (True, (fst st, Some s)) | _ \<Rightarrow> (False, st))"

definition json_store_uuid :: "json_node \<Rightarrow> log_state \<Rightarrow> bool \<times> log_state" where
  \<comment> \<open>a buffer of 37 characters\<close>
  "json_store_uuid item st =
     (case item of
        N_string s \<Rightarrow> if length s = 36 then (True, ((fst st)\<lparr>ev_uuid_str := s\<rparr>, snd st)) else (False, st)
      | _ \<Rightarrow> (False, st))"

definition json_store_dumped_core :: "json_node \<Rightarrow> log_state \<Rightarrow> bool \<times> log_state" where
  "json_store_dumped_core item st =
     (case item of N_bool b \<Rightarrow> (True, ((fst st)\<lparr>ev_dumped_core := b\<rparr>, snd st)) | _ \<Rightarrow> (False, st))"

definition store_int_in :: "int \<Rightarrow> 32 word \<Rightarrow> (32 word \<Rightarrow> eventlog \<Rightarrow> eventlog) \<Rightarrow> json_node \<Rightarrow> log_state \<Rightarrow> bool \<times> log_state" where
  \<comment> \<open>a number from a bound to \<open>INT_MAX\<close>, else a failure and the value for it\<close>
  "store_int_in low bad put item st =
     (case item of
        N_number n \<Rightarrow>
          if sint n < low \<or> sint n > INT_MAX then (False, (put bad (fst st), snd st)) else (True, (put (ucast n) (fst st), snd st))
      | _ \<Rightarrow> (False, st))"

definition json_store_columns where "json_store_columns = store_int_in 1 0 (\<lambda>n. ev_columns_update (\<lambda>_. n))"
definition json_store_lines where "json_store_lines = store_int_in 1 0 (\<lambda>n. ev_lines_update (\<lambda>_. n))"
definition json_store_exit_value where "json_store_exit_value = store_int_in 0 (- 1) (\<lambda>n. ev_exit_value_update (\<lambda>_. n))"

definition store_id :: "(32 word \<Rightarrow> eventlog \<Rightarrow> eventlog) \<Rightarrow> json_node \<Rightarrow> log_state \<Rightarrow> bool \<times> log_state" where
  "store_id put item st = (case item of N_number n \<Rightarrow> (True, (put (ucast n) (fst st), snd st)) | _ \<Rightarrow> (False, st))"

definition json_store_rungid where "json_store_rungid = store_id (\<lambda>n. ev_rungid_update (\<lambda>_. n))"
definition json_store_runuid where "json_store_runuid = store_id (\<lambda>n. ev_runuid_update (\<lambda>_. n))"

definition json_array_to_strvec :: "json_item list \<Rightarrow> string list option" where
  "json_array_to_strvec items =
     (if list_all (\<lambda>x. case it_node x of N_string _ \<Rightarrow> True | _ \<Rightarrow> False) items \<and> int (length items) < INT_MAX
      then Some (map (\<lambda>x. case it_node x of N_string s \<Rightarrow> s | _ \<Rightarrow> []) items) else None)"

definition store_strvec :: "(string list option \<Rightarrow> eventlog \<Rightarrow> eventlog) \<Rightarrow> json_node \<Rightarrow> log_state \<Rightarrow> bool \<times> log_state" where
  "store_strvec put item st =
     (case item of
        N_array items \<Rightarrow> let v = json_array_to_strvec items in (v \<noteq> None, (put v (fst st), snd st))
      | _ \<Rightarrow> (False, st))"

definition json_store_submitenv where "json_store_submitenv = store_strvec (\<lambda>v. ev_submitenv_update (\<lambda>_. v))"
definition json_store_runargv where "json_store_runargv = store_strvec (\<lambda>v. ev_runargv_update (\<lambda>_. v))"
definition json_store_runenv where "json_store_runenv = store_strvec (\<lambda>v. ev_runenv_update (\<lambda>_. v))"
definition json_store_runenv_override where "json_store_runenv_override = store_strvec (\<lambda>v. ev_env_add_update (\<lambda>_. v))"

fun json_store_timespec :: "json_item list \<Rightarrow> timespec \<Rightarrow> timespec" where
  "json_store_timespec [] ts = ts"
| "json_store_timespec (Json_item n (N_number k) # items) ts =
     json_store_timespec items
       (if n = Some ''seconds'' then ts\<lparr>tv_sec := k\<rparr> else if n = Some ''nanoseconds'' then ts\<lparr>tv_nsec := k\<rparr> else ts)"
| "json_store_timespec (_ # items) ts = json_store_timespec items ts"

definition store_time :: "((timespec \<Rightarrow> timespec) \<Rightarrow> eventlog \<Rightarrow> eventlog) \<Rightarrow> json_node \<Rightarrow> log_state \<Rightarrow> bool \<times> log_state" where
  "store_time update item st =
     (case item of N_object items \<Rightarrow> (True, (update (json_store_timespec items) (fst st), snd st)) | _ \<Rightarrow> (False, st))"

definition json_store_iolog_offset where "json_store_iolog_offset = store_time ev_iolog_offset_update"
definition json_store_run_time where "json_store_run_time = store_time ev_run_time_update"
definition json_store_timestamp where "json_store_timestamp = store_time ev_event_time_update"

datatype json_value_type = Type_string | Type_id | Type_number | Type_object | Type_array | Type_bool | Type_null

fun json_type_of :: "json_node \<Rightarrow> json_value_type" where
  "json_type_of (N_string _) = Type_string"
| "json_type_of (N_number _) = Type_number"
| "json_type_of (N_object _) = Type_object"
| "json_type_of (N_array _) = Type_array"
| "json_type_of (N_bool _) = Type_bool"
| "json_type_of N_null = Type_null"

definition evlog_json_keys :: "(string \<times> json_value_type \<times> (json_node \<Rightarrow> log_state \<Rightarrow> bool \<times> log_state)) list" where
  "evlog_json_keys =
     [(''columns'', Type_number, json_store_columns), (''command'', Type_string, json_store_command),
      (''dumped_core'', Type_bool, json_store_dumped_core), (''exit_value'', Type_number, json_store_exit_value),
      (''iolog_file'', Type_string, json_store_iolog_file), (''iolog_path'', Type_string, json_store_iolog_path),
      (''iolog_offset'', Type_object, json_store_iolog_offset), (''lines'', Type_number, json_store_lines),
      (''peeraddr'', Type_string, json_store_peeraddr), (''run_time'', Type_object, json_store_run_time),
      (''runargv'', Type_array, json_store_runargv), (''runenv'', Type_array, json_store_runenv),
      (''runenv_override'', Type_array, json_store_runenv_override), (''rungid'', Type_id, json_store_rungid),
      (''rungroup'', Type_string, json_store_rungroup), (''runuid'', Type_id, json_store_runuid),
      (''runuser'', Type_string, json_store_runuser), (''runchroot'', Type_string, json_store_runchroot),
      (''runcwd'', Type_string, json_store_runcwd), (''source'', Type_string, json_store_source),
      (''signal'', Type_string, json_store_signal), (''submitcwd'', Type_string, json_store_submitcwd),
      (''submitenv'', Type_array, json_store_submitenv), (''submithost'', Type_string, json_store_submithost),
      (''submitgroup'', Type_string, json_store_submitgroup), (''submituser'', Type_string, json_store_submituser),
      (''timestamp'', Type_object, json_store_timestamp), (''ttyname'', Type_string, json_store_ttyname),
      (''uuid'', Type_string, json_store_uuid)]"

fun evlog_item :: "json_item \<Rightarrow> log_state \<Rightarrow> bool \<times> log_state" where
  "evlog_item (Json_item None node) st = (False, st)"
| "evlog_item (Json_item (Some name) node) st =
     (case map_of evlog_json_keys name of
        None \<Rightarrow> (True, st)
      | Some (type, setter) \<Rightarrow>
          if type \<noteq> json_type_of node \<and> (type \<noteq> Type_id \<or> json_type_of node \<noteq> Type_number) then (False, st)
          else setter node st)"

primrec evlog_items :: "json_item list \<Rightarrow> log_state \<Rightarrow> bool \<times> log_state" where
  "evlog_items [] st = (True, st)"
| "evlog_items (x # xs) st = (let (ok, st) = evlog_item x st in if ok then evlog_items xs st else (False, st))"

definition set_iolog_file :: "log_state \<Rightarrow> eventlog" where
  \<comment> \<open>\<open>iolog_file\<close> must be the end of \<open>iolog_path\<close>\<close>
  "set_iolog_file st =
     (case (snd st, ev_iolog_path (fst st)) of
        (Some file, Some path) \<Rightarrow>
          if length file \<le> length path \<and> drop (length path - length file) path = file
          then (fst st)\<lparr>ev_iolog_file := Some file\<rparr> else fst st
      | _ \<Rightarrow> fst st)"

definition eventlog_json_parse :: "json_item list \<Rightarrow> eventlog \<Rightarrow> bool \<times> eventlog" where
  "eventlog_json_parse root evlog =
     (case root of
        Json_item _ (N_object items) # _ \<Rightarrow>
          let (ok, st) = evlog_items items (evlog, None) in if ok then (True, set_iolog_file st) else (False, fst st)
      | _ \<Rightarrow> (False, evlog))"

definition iolog_parse_loginfo_json :: "string \<Rightarrow> eventlog \<Rightarrow> bool \<times> eventlog" where
  "iolog_parse_loginfo_json text evlog =
     (case eventlog_json_read text of Inl _ \<Rightarrow> (False, evlog) | Inr root \<Rightarrow> eventlog_json_parse root evlog)"

definition eventlog0 :: eventlog where
  \<comment> \<open>the event that \<open>iolog_parse_loginfo\<close> starts with\<close>
  "eventlog0 = \<lparr>ev_iolog_path = None, ev_iolog_file = None, ev_command = None, ev_cwd = None, ev_runchroot = None, ev_runcwd = None,
     ev_rungroup = None, ev_runuser = None, ev_peeraddr = None, ev_signal_name = None, ev_source = None, ev_submithost = None,
     ev_submituser = None, ev_submitgroup = None, ev_submitenv = None, ev_ttyname = None, ev_runargv = None, ev_runenv = None,
     ev_env_add = None, ev_event_time = timespec0, ev_iolog_offset = timespec0, ev_run_time = timespec0, ev_exit_value = - 1,
     ev_lines = 0, ev_columns = 0, ev_runuid = - 1, ev_rungid = - 1, ev_dumped_core = False, ev_uuid_str = []\<rparr>"

section \<open>To a text\<close>

definition opt_string :: "string \<Rightarrow> string option \<Rightarrow> json_container \<Rightarrow> bool \<times> json_container" where
  "opt_string name v c = (case v of None \<Rightarrow> (True, c) | Some s \<Rightarrow> sudo_json_add_value (Some name) (JSON_STRING s) c)"

primrec store_members :: "string list \<Rightarrow> json_container \<Rightarrow> bool \<times> json_container" where
  "store_members [] c = (True, c)"
| "store_members (s # ss) c = jthen (sudo_json_add_value None (JSON_STRING s) c) (store_members ss)"

definition opt_strings :: "string \<Rightarrow> string list option \<Rightarrow> json_container \<Rightarrow> bool \<times> json_container" where
  "opt_strings name v c =
     (case v of None \<Rightarrow> (True, c)
      | Some l \<Rightarrow> jthen (sudo_json_open_array (Some name) c) (\<lambda>c. jthen (store_members l c) sudo_json_close_array))"

definition opt_id :: "string \<Rightarrow> bool \<Rightarrow> 32 word \<Rightarrow> json_container \<Rightarrow> bool \<times> json_container" where
  "opt_id name known i c = (if known \<and> i \<noteq> - 1 then sudo_json_add_value (Some name) (JSON_ID i) c else (True, c))"

definition eventlog_store_json :: "eventlog \<Rightarrow> json_container \<Rightarrow> bool \<times> json_container" where
  "eventlog_store_json evlog c =
     (case ev_submituser evlog of
        None \<Rightarrow> (False, c)
      | Some submituser \<Rightarrow>
          jthen (sudo_json_add_value (Some ''submituser'') (JSON_STRING submituser) c) (\<lambda>c.
          jthen (opt_string ''command'' (ev_command evlog) c) (\<lambda>c.
          jthen (opt_string ''runuser'' (ev_runuser evlog) c) (\<lambda>c.
          jthen (opt_string ''rungroup'' (ev_rungroup evlog) c) (\<lambda>c.
          jthen (opt_string ''runchroot'' (ev_runchroot evlog) c) (\<lambda>c.
          jthen (opt_string ''runcwd'' (ev_runcwd evlog) c) (\<lambda>c.
          jthen (opt_string ''source'' (ev_source evlog) c) (\<lambda>c.
          jthen (opt_string ''ttyname'' (ev_ttyname evlog) c) (\<lambda>c.
          jthen (opt_string ''submithost'' (ev_submithost evlog) c) (\<lambda>c.
          jthen (opt_string ''submitcwd'' (ev_cwd evlog) c) (\<lambda>c.
          jthen (opt_id ''rungid'' (ev_rungroup evlog \<noteq> None) (ev_rungid evlog) c) (\<lambda>c.
          jthen (opt_id ''runuid'' True (ev_runuid evlog) c) (\<lambda>c.
          jthen (sudo_json_add_value (Some ''columns'') (JSON_NUMBER (scast (ev_columns evlog))) c) (\<lambda>c.
          jthen (sudo_json_add_value (Some ''lines'') (JSON_NUMBER (scast (ev_lines evlog))) c) (\<lambda>c.
          jthen (opt_strings ''runargv'' (ev_runargv evlog) c) (\<lambda>c.
          jthen (opt_strings ''runenv'' (ev_runenv evlog) c) (opt_strings ''submitenv'' (ev_submitenv evlog))))))))))))))))))"

definition json_add_time :: "string \<Rightarrow> timespec \<Rightarrow> json_container \<Rightarrow> bool \<times> json_container" where
  "json_add_time name ts c =
     jthen (sudo_json_open_object (Some name) c) (\<lambda>c.
     jthen (sudo_json_add_value (Some ''seconds'') (JSON_NUMBER (tv_sec ts)) c) (\<lambda>c.
     jthen (sudo_json_add_value (Some ''nanoseconds'') (JSON_NUMBER (tv_nsec ts)) c) sudo_json_close_object))"

definition iolog_info_json :: "nat \<Rightarrow> eventlog \<Rightarrow> string option" where
  \<comment> \<open>the text of the file, given the largest size of a buffer\<close>
  "iolog_info_json limit evlog =
     (case sudo_json_init limit 4 False False of
        None \<Rightarrow> None
      | Some c \<Rightarrow>
          (case jthen (json_add_time ''timestamp'' (ev_event_time evlog) c) (eventlog_store_json evlog) of
             (True, c) \<Rightarrow> Some (''{'' @ jc_buf c @ [CHR 0x0A] @ ''}'' @ [CHR 0x0A])
           | (False, _) \<Rightarrow> None))"

end
