(* ===== verification/JsonText.thy ===== *)
theory JsonText
  imports JsonWrite JsonRead
begin

text \<open>
  What the writer puts into its buffer for a tree of items, line by line, and how the reader takes
  strings and numbers back. The reader finds the end of every string but one that ends in a backslash.
\<close>

section \<open>The calls for a tree\<close>

primrec write_all :: "(json_container \<Rightarrow> bool \<times> json_container) list \<Rightarrow> json_container \<Rightarrow> bool \<times> json_container" where
  "write_all [] c = (True, c)"
| "write_all (f # fs) c = jthen (f c) (write_all fs)"

fun write_item :: "json_item \<Rightarrow> json_container \<Rightarrow> bool \<times> json_container" where
  "write_item (Json_item n (N_string s)) c = sudo_json_add_value n (JSON_STRING s) c"
| "write_item (Json_item n (N_number k)) c = sudo_json_add_value n (JSON_NUMBER k) c"
| "write_item (Json_item n (N_bool b)) c = sudo_json_add_value n (JSON_BOOL b) c"
| "write_item (Json_item n N_null) c = sudo_json_add_value n JSON_NULL c"
| "write_item (Json_item n (N_object its)) c =
     jthen (sudo_json_open_object n c) (\<lambda>c. jthen (write_all (map write_item its) c) sudo_json_close_object)"
| "write_item (Json_item n (N_array its)) c =
     jthen (sudo_json_open_array n c) (\<lambda>c. jthen (write_all (map write_item its) c) sudo_json_close_array)"

section \<open>The lines of a tree\<close>

definition json_quote :: "string \<Rightarrow> string" where
  "json_quote s = CHR 0x22 # concat (map json_escape s) @ [CHR 0x22]"

definition comma_last :: "string list \<Rightarrow> string list" where
  "comma_last ls = butlast ls @ [last ls @ '','']"

fun join_lines :: "string list list \<Rightarrow> string list" where
  "join_lines [] = []"
| "join_lines [ls] = ls"
| "join_lines (ls # ms # mss) = comma_last ls @ join_lines (ms # mss)"

definition line_start :: "32 word \<Rightarrow> string option \<Rightarrow> string" where
  "line_start lv n = replicate (unat lv) (CHR '' '') @ (case n of None \<Rightarrow> [] | Some s \<Rightarrow> json_quote s @ '': '')"

fun item_lines :: "32 word \<Rightarrow> 32 word \<Rightarrow> json_item \<Rightarrow> string list" where
  "item_lines inc lv (Json_item n (N_string s)) = [line_start lv n @ json_quote s]"
| "item_lines inc lv (Json_item n (N_number k)) = [line_start lv n @ c_lld k]"
| "item_lines inc lv (Json_item n (N_bool b)) = [line_start lv n @ (if b then ''true'' else ''false'')]"
| "item_lines inc lv (Json_item n N_null) = [line_start lv n @ ''null'']"
| "item_lines inc lv (Json_item n (N_object its)) =
     [line_start lv n @ ''{''] @ join_lines (map (item_lines inc (lv + inc)) its) @ [line_start lv None @ ''}'']"
| "item_lines inc lv (Json_item n (N_array its)) =
     [line_start lv n @ ''[''] @ join_lines (map (item_lines inc (lv + inc)) its) @ [line_start lv None @ '']'']"

definition new_lines :: "string list \<Rightarrow> string" where
  "new_lines ls = concat (map (\<lambda>l. CHR 0x0A # l) ls)"

lemma item_lines_not_Nil [simp]: "item_lines inc lv x \<noteq> []"
  by (cases "(inc, lv, x)" rule: item_lines.cases) simp_all

lemma new_lines_append [simp]: "new_lines (as @ bs) = new_lines as @ new_lines bs"
  by (simp add: new_lines_def)

lemma new_lines_Cons [simp]: "new_lines (l # ls) = CHR 0x0A # l @ new_lines ls" "new_lines [] = []"
  by (simp_all add: new_lines_def)

lemma new_lines_comma: "ls \<noteq> [] \<Longrightarrow> new_lines (comma_last ls) = new_lines ls @ '',''"
  by (cases ls rule: rev_cases) (simp_all add: comma_last_def)

section \<open>What the writer appends\<close>

definition appended :: "string \<Rightarrow> json_container \<Rightarrow> json_container \<Rightarrow> bool" where
  "appended t c c' \<longleftrightarrow> (\<exists>n. c' = c\<lparr>jc_buf := jc_buf c @ t, jc_bufsize := n\<rparr>)"

lemma appended_refl: "appended [] c c"
proof -
  have "c = c\<lparr>jc_buf := jc_buf c @ [], jc_bufsize := jc_bufsize c\<rparr>" by simp
  then show ?thesis unfolding appended_def by blast
qed

lemma appended_resized: "appended t (c\<lparr>jc_bufsize := n\<rparr>) c' \<Longrightarrow> appended t c c'"
  by (auto simp: appended_def)

lemma appended_put: "appended t c (c\<lparr>jc_buf := jc_buf c @ t\<rparr>)"
proof -
  have "c\<lparr>jc_buf := jc_buf c @ t\<rparr> = c\<lparr>jc_buf := jc_buf c @ t, jc_bufsize := jc_bufsize c\<rparr>" by simp
  then show ?thesis unfolding appended_def by blast
qed

lemma appended_trans: "appended s c d \<Longrightarrow> appended t d e \<Longrightarrow> appended (s @ t) c e"
  by (auto simp: appended_def)

lemma appended_fields:
  assumes "appended t c c'"
  shows "jc_buf c' = jc_buf c @ t" "jc_indent_level c' = jc_indent_level c" "jc_indent_increment c' = jc_indent_increment c"
    "jc_minimal c' = jc_minimal c" "jc_need_comma c' = jc_need_comma c" "jc_limit c' = jc_limit c" "jc_quiet c' = jc_quiet c"
  using assms by (auto simp: appended_def)

lemma jthen_True: "jthen r f = (True, c') \<Longrightarrow> \<exists>c. r = (True, c) \<and> f c = (True, c')"
  by (cases r) (auto simp: jthen_def split: if_splits)

lemma ensure_size: "json_ensure need c = (ok, c') \<Longrightarrow> \<exists>n. c' = c\<lparr>jc_bufsize := n\<rparr>"
proof (induction need c arbitrary: c' rule: json_ensure.induct)
  case (1 need c)
  show ?case
  proof (cases "need < jc_bufsize c")
    case True
    then have "c' = c" using 1(2) by (simp add: json_ensure.simps)
    then have "c' = c\<lparr>jc_bufsize := jc_bufsize c\<rparr>" by simp
    then show ?thesis ..
  next
    case False
    show ?thesis
    proof (cases "json_expand_buf c")
      case None
      then have "c' = c" using 1(2) False by (simp add: json_ensure.simps)
      then have "c' = c\<lparr>jc_bufsize := jc_bufsize c\<rparr>" by simp
      then show ?thesis ..
    next
      case (Some d)
      then have "json_ensure need d = (ok, c')" using 1(2) False by (subst (asm) json_ensure.simps) simp
      from 1(1) [OF False Some this] obtain n where "c' = d\<lparr>jc_bufsize := n\<rparr>" ..
      moreover obtain m where "d = c\<lparr>jc_bufsize := m\<rparr>" using Some by (auto simp: json_expand_buf_def split: if_splits)
      ultimately have "c' = c\<lparr>jc_bufsize := n\<rparr>" by simp
      then show ?thesis ..
    qed
  qed
qed

lemma append_buf_appended: "json_append_buf t c = (True, c') \<Longrightarrow> appended t c c'"
proof -
  assume "json_append_buf t c = (True, c')"
  then obtain d where d: "json_ensure (length (jc_buf c) + length t) c = (True, d)" "c' = d\<lparr>jc_buf := jc_buf d @ t\<rparr>"
    unfolding json_append_buf_def by (auto dest: jthen_True)
  obtain n where "d = c\<lparr>jc_bufsize := n\<rparr>" using ensure_size [OF d(1)] ..
  then show ?thesis using appended_resized [OF appended_put] d(2) by blast
qed

lemma new_line_appended:
  assumes "json_new_line c = (True, c')" "\<not> jc_minimal c"
  shows "appended (CHR 0x0A # line_start (jc_indent_level c) None) c c'"
proof -
  obtain d where d: "json_ensure ((length (jc_buf c) + 1 + unat (jc_indent_level c)) mod 2 ^ 32) c = (True, d)"
    "c' = d\<lparr>jc_buf := jc_buf d @ CHR 0x0A # replicate (unat (jc_indent_level c)) (CHR '' '')\<rparr>"
    using assms unfolding json_new_line_def Let_def by (auto dest: jthen_True)
  obtain n where "d = c\<lparr>jc_bufsize := n\<rparr>" using ensure_size [OF d(1)] ..
  then show ?thesis using appended_resized [OF appended_put] d(2) by (simp add: line_start_def)
qed

lemma append_chars_appended: "json_append_chars s c = (True, c') \<Longrightarrow> appended (concat (map json_escape s)) c c'"
proof (induction s arbitrary: c)
  case Nil
  then show ?case using appended_refl by simp
next
  case (Cons ch s)
  then obtain d where "json_append_buf (json_escape ch) c = (True, d)" "json_append_chars s d = (True, c')"
    by (auto dest: jthen_True)
  then show ?case using appended_trans [OF append_buf_appended Cons.IH] by simp
qed

lemma append_string_appended: "json_append_string s c = (True, c') \<Longrightarrow> appended (json_quote s) c c'"
proof -
  assume "json_append_string s c = (True, c')"
  then obtain d e where "json_append_buf [CHR 0x22] c = (True, d)" "json_append_chars s d = (True, e)"
    "json_append_buf [CHR 0x22] e = (True, c')"
    unfolding json_append_string_def by (blast dest: jthen_True)
  note parts = append_buf_appended [OF this(1)] append_chars_appended [OF this(2)] append_buf_appended [OF this(3)]
  show ?thesis
    using appended_trans [OF appended_trans [OF parts(1,2)] parts(3)] by (simp add: json_quote_def)
qed

definition item_comma :: "json_container \<Rightarrow> string" where
  "item_comma c = (if jc_need_comma c then '','' else [])"

lemma comma_appended:
  assumes "json_comma c = (True, c')" "\<not> jc_minimal c"
  shows "appended (item_comma c @ CHR 0x0A # line_start (jc_indent_level c) None) c c'"
proof -
  obtain d where d: "(if jc_need_comma c then json_append_buf '','' c else (True, c)) = (True, d)" "json_new_line d = (True, c')"
    using assms(1) unfolding json_comma_def by (blast dest: jthen_True)
  have 1: "appended (item_comma c) c d"
  proof (cases "jc_need_comma c")
    case True
    then show ?thesis using d(1) append_buf_appended by (simp add: item_comma_def)
  next
    case False
    then show ?thesis using d(1) appended_refl by (simp add: item_comma_def)
  qed
  have 2: "appended (CHR 0x0A # line_start (jc_indent_level c) None) d c'"
    using new_line_appended [OF d(2)] appended_fields [OF 1] assms(2) by simp
  show ?thesis by (rule appended_trans [OF 1 2])
qed

definition wrote :: "string \<Rightarrow> json_container \<Rightarrow> json_container \<Rightarrow> bool" where
  \<comment> \<open>an item and the comma in front of it\<close>
  "wrote t c c' \<longleftrightarrow> (\<exists>n. c' = c\<lparr>jc_buf := jc_buf c @ item_comma c @ t, jc_bufsize := n, jc_need_comma := True\<rparr>)"

lemma value_appended:
  assumes "json_value_text v c = (True, c')"
  obtains "v = JSON_NULL" "appended ''null'' c c'" | s where "v = JSON_STRING s" "appended (json_quote s) c c'"
  | i where "v = JSON_ID i" "appended (decimal (unat i)) c c'" | k where "v = JSON_NUMBER k" "appended (c_lld k) c c'"
  | b where "v = JSON_BOOL b" "appended (if b then ''true'' else ''false'') c c'"
  using assms append_buf_appended append_string_appended by (cases v) (auto simp: json_value_text_def)

definition value_text :: "json_value \<Rightarrow> string" where
  "value_text v = (case v of JSON_STRING s \<Rightarrow> json_quote s | JSON_ID i \<Rightarrow> decimal (unat i) | JSON_NUMBER k \<Rightarrow> c_lld k
     | JSON_BOOL b \<Rightarrow> if b then ''true'' else ''false'' | _ \<Rightarrow> ''null'')"

lemma value_text_appended: "json_value_text v c = (True, c') \<Longrightarrow> appended (value_text v) c c'"
  by (erule value_appended) (simp_all add: value_text_def)

lemma name_appended:
  assumes "(case n of None \<Rightarrow> (True, c)
     | Some n \<Rightarrow> jthen (json_append_string n c) (\<lambda>c. json_append_buf (if jc_minimal c then '':'' else '': '') c)) = (True, c')"
    "\<not> jc_minimal c"
  shows "appended (case n of None \<Rightarrow> [] | Some s \<Rightarrow> json_quote s @ '': '') c c'"
proof (cases n)
  case None
  then show ?thesis using assms(1) appended_refl by simp
next
  case (Some s)
  then obtain d where d: "json_append_string s c = (True, d)" "json_append_buf (if jc_minimal d then '':'' else '': '') d = (True, c')"
    using assms(1) by (auto dest: jthen_True)
  note q = append_string_appended [OF d(1)]
  have "appended '': '' d c'" using append_buf_appended [OF d(2)] appended_fields [OF q] assms(2) by simp
  then show ?thesis using Some appended_trans [OF q] by simp
qed

lemma add_value_wrote:
  assumes "sudo_json_add_value n v c = (True, c')" "\<not> jc_minimal c"
  shows "wrote (CHR 0x0A # line_start (jc_indent_level c) n @ value_text v) c c'"
proof -
  let ?name = "case n of None \<Rightarrow> [] | Some s \<Rightarrow> json_quote s @ '': ''"
  have "jthen (json_comma c) (\<lambda>c. let c = c\<lparr>jc_need_comma := True\<rparr> in
      jthen (True, c) (\<lambda>c.
      jthen (case n of None \<Rightarrow> (True, c)
             | Some n \<Rightarrow> jthen (json_append_string n c) (\<lambda>c. json_append_buf (if jc_minimal c then '':'' else '': '') c)) (\<lambda>c.
      jthen (json_value_text v c) (\<lambda>c. (True, c))))) = (True, c')"
    using assms(1) unfolding sudo_json_add_value_def sudo_json_add_value_int_def
    by (simp add: Let_def split: prod.splits if_splits)
  then obtain d e f where d: "json_comma c = (True, d)"
    and e: "(case n of None \<Rightarrow> (True, d\<lparr>jc_need_comma := True\<rparr>)
       | Some n \<Rightarrow> jthen (json_append_string n (d\<lparr>jc_need_comma := True\<rparr>)) (\<lambda>c. json_append_buf (if jc_minimal c then '':'' else '': '') c)) = (True, e)"
    and f: "json_value_text v e = (True, f)" "f = c'"
    unfolding Let_def by (auto dest!: jthen_True)
  note A = comma_appended [OF d assms(2)]
  have m: "\<not> jc_minimal (d\<lparr>jc_need_comma := True\<rparr>)" using appended_fields [OF A] assms(2) by simp
  note B = appended_trans [OF name_appended [OF e m] value_text_appended [OF f(1)]]
  obtain k where D: "d = c\<lparr>jc_buf := jc_buf c @ item_comma c @ CHR 0x0A # line_start (jc_indent_level c) None, jc_bufsize := k\<rparr>"
    using A unfolding appended_def by blast
  obtain j where F: "f = (d\<lparr>jc_need_comma := True\<rparr>)\<lparr>jc_buf := jc_buf (d\<lparr>jc_need_comma := True\<rparr>) @ ?name @ value_text v, jc_bufsize := j\<rparr>"
    using B unfolding appended_def by blast
  have "c' = c\<lparr>jc_buf := jc_buf c @ item_comma c @ CHR 0x0A # line_start (jc_indent_level c) n @ value_text v, jc_bufsize := j, jc_need_comma := True\<rparr>"
    using F f(2) by (simp add: D line_start_def)
  then show ?thesis unfolding wrote_def by blast
qed

text \<open>
  When the name of a frame cannot be written the code goes on with the bracket; for a name without
  control characters there is no room for that either.
\<close>

definition full :: "nat \<Rightarrow> json_container \<Rightarrow> bool" where
  "full m c \<longleftrightarrow> json_expand_buf c = None \<and> jc_bufsize c \<le> length (jc_buf c) + m"

definition plain_name :: "string \<Rightarrow> bool" where
  "plain_name s \<longleftrightarrow> list_all (\<lambda>c. \<not> c_iscntrl c) s"

lemma full_mono: "full m c \<Longrightarrow> m \<le> n \<Longrightarrow> full n c"
  by (simp add: full_def)

lemma ensure_False: "json_ensure need c = (False, c') \<Longrightarrow> json_expand_buf c' = None \<and> jc_bufsize c' \<le> need"
proof (induction need c arbitrary: c' rule: json_ensure.induct)
  case (1 need c)
  then show ?case by (subst (asm) (2) json_ensure.simps) (auto split: if_splits option.splits)
qed

lemma append_buf_False: "json_append_buf t c = (False, c') \<Longrightarrow> full (length t) c'"
proof -
  assume "json_append_buf t c = (False, c')"
  then have e: "json_ensure (length (jc_buf c) + length t) c = (False, c')"
    by (auto simp: json_append_buf_def jthen_def prod_eq_iff split: if_splits)
  obtain n where "c' = c\<lparr>jc_bufsize := n\<rparr>" using ensure_size [OF e] ..
  then have "jc_buf c' = jc_buf c" by simp
  then show ?thesis using ensure_False [OF e] by (simp add: full_def)
qed

lemma full_append: "full m c \<Longrightarrow> m \<le> length t \<Longrightarrow> \<not> fst (json_append_buf t c)"
  by (simp add: full_def json_append_buf_def jthen_def json_ensure.simps)

lemma escape_plain: "\<not> c_iscntrl c \<Longrightarrow> length (json_escape c) \<le> 2"
  by (simp add: json_escape_def)

lemma append_chars_False: "plain_name s \<Longrightarrow> json_append_chars s c = (False, c') \<Longrightarrow> full 2 c'"
proof (induction s arbitrary: c)
  case (Cons ch s)
  obtain ok d where d: "json_append_buf (json_escape ch) c = (ok, d)" by (rule prod.exhaust)
  show ?case
  proof (cases ok)
    case True
    then show ?thesis using Cons d by (simp add: jthen_def plain_name_def)
  next
    case False
    then have "full (length (json_escape ch)) c'" using append_buf_False Cons.prems(2) d by (simp add: jthen_def)
    then show ?thesis using escape_plain [of ch] Cons.prems(1) by (auto simp: plain_name_def intro: full_mono)
  qed
qed simp

lemma append_string_False:
  assumes "plain_name s" "json_append_string s c = (False, c')"
  shows "full 2 c'"
proof -
  obtain ok d where d: "json_append_buf [CHR 0x22] c = (ok, d)" by (rule prod.exhaust)
  obtain ok2 e where e: "json_append_chars s d = (ok2, e)" by (rule prod.exhaust)
  show ?thesis
  proof (cases "ok \<and> ok2")
    case True
    then have "json_append_buf [CHR 0x22] e = (False, c')" using assms(2) d e by (simp add: json_append_string_def jthen_def)
    from append_buf_False [OF this] show ?thesis by (simp add: full_mono)
  next
    case False
    then show ?thesis
    proof (cases ok)
      case True
      then have "json_append_chars s d = (False, c')" using False assms(2) d e by (simp add: json_append_string_def jthen_def)
      then show ?thesis by (rule append_chars_False [OF assms(1)])
    next
      case f: False
      then have "json_append_buf [CHR 0x22] c = (False, c')" using assms(2) d by (simp add: json_append_string_def jthen_def)
      from append_buf_False [OF this] show ?thesis by (simp add: full_mono)
    qed
  qed
qed

text \<open>Frames, and then whole trees.\<close>

lemma open_appended:
  assumes "json_open b n c = (True, c')" "\<not> jc_minimal c" "\<forall>s. n = Some s \<longrightarrow> plain_name s"
  obtains k where "c' = c\<lparr>jc_buf := jc_buf c @ item_comma c @ CHR 0x0A # line_start (jc_indent_level c) n @ [b], jc_bufsize := k,
    jc_indent_level := jc_indent_level c + jc_indent_increment c, jc_need_comma := False\<rparr>"
proof -
  obtain d e where d: "json_comma c = (True, d)"
    and e: "(case n of Some n \<Rightarrow> json_append_buf ((if jc_minimal d then '':'' else '': '') @ [b]) (snd (json_append_string n d))
       | None \<Rightarrow> json_append_buf [b] d) = (True, e)"
    and c': "c' = e\<lparr>jc_indent_level := jc_indent_level e + jc_indent_increment e, jc_need_comma := False\<rparr>"
    using assms(1) unfolding json_open_def by (auto dest!: jthen_True)
  note A = comma_appended [OF d assms(2)]
  have m: "\<not> jc_minimal d" using appended_fields [OF A] assms(2) by simp
  have B: "appended ((case n of None \<Rightarrow> [] | Some s \<Rightarrow> json_quote s @ '': '') @ [b]) d e"
  proof (cases n)
    case None
    then show ?thesis using e append_buf_appended by simp
  next
    case (Some s)
    obtain ok f where f: "json_append_string s d = (ok, f)" by (rule prod.exhaust)
    have g: "json_append_buf ('': '' @ [b]) f = (True, e)" using e m Some f by simp
    have "ok"
    proof (rule ccontr)
      assume "\<not> ok"
      then have "json_append_string s d = (False, f)" using f by simp
      moreover have "plain_name s" using assms(3) Some by simp
      ultimately have "full 2 f" by (intro append_string_False)
      then show False using full_append [of 2 f "'': '' @ [b]"] g by simp
    qed
    then show ?thesis
      using appended_trans [OF append_string_appended append_buf_appended [OF g]] f Some by simp
  qed
  obtain k where "e = c\<lparr>jc_buf := jc_buf c @ (item_comma c @ CHR 0x0A # line_start (jc_indent_level c) None) @
      (case n of None \<Rightarrow> [] | Some s \<Rightarrow> json_quote s @ '': '') @ [b], jc_bufsize := k\<rparr>"
    using appended_trans [OF A B] unfolding appended_def by auto
  then show ?thesis using that c' by (simp add: line_start_def)
qed

lemma close_appended:
  assumes "json_close b c = (True, c')" "\<not> jc_minimal c"
  obtains k where "c' = c\<lparr>jc_buf := jc_buf c @ CHR 0x0A # line_start (jc_indent_level c - jc_indent_increment c) None @ [b],
    jc_bufsize := k, jc_indent_level := jc_indent_level c - jc_indent_increment c, jc_need_comma := True\<rparr>"
proof -
  let ?c = "c\<lparr>jc_indent_level := jc_indent_level c - jc_indent_increment c\<rparr>"
  obtain d e where d: "json_new_line ?c = (True, d)" and e: "json_append_buf [b] d = (True, e)" and c': "c' = e\<lparr>jc_need_comma := True\<rparr>"
    using assms unfolding json_close_def by (auto dest!: jthen_True)
  have "appended (CHR 0x0A # line_start (jc_indent_level ?c) None) ?c d" using new_line_appended [OF d] assms(2) by simp
  from appended_trans [OF this append_buf_appended [OF e]]
  obtain k where "e = ?c\<lparr>jc_buf := jc_buf ?c @ (CHR 0x0A # line_start (jc_indent_level ?c) None) @ [b], jc_bufsize := k\<rparr>"
    unfolding appended_def by blast
  then have "c' = c\<lparr>jc_buf := jc_buf c @ CHR 0x0A # line_start (jc_indent_level c - jc_indent_increment c) None @ [b],
    jc_bufsize := k, jc_indent_level := jc_indent_level c - jc_indent_increment c, jc_need_comma := True\<rparr>"
    using c' by (intro json_container.equality) simp_all
  then show ?thesis by (rule that)
qed

fun plain_names :: "json_item \<Rightarrow> bool" where
  "plain_names (Json_item n node) \<longleftrightarrow> (\<forall>s. n = Some s \<longrightarrow> plain_name s) \<and>
     (case node of N_object its \<Rightarrow> list_all plain_names its | N_array its \<Rightarrow> list_all plain_names its | _ \<Rightarrow> True)"

definition writes :: "(json_container \<Rightarrow> bool \<times> json_container) \<Rightarrow> (32 word \<Rightarrow> 32 word \<Rightarrow> string list) \<Rightarrow> bool" where
  \<comment> \<open>what succeeds appends these lines\<close>
  "writes f ls \<longleftrightarrow> (\<forall>c c'. f c = (True, c') \<longrightarrow> \<not> jc_minimal c \<longrightarrow>
     wrote (new_lines (ls (jc_indent_increment c) (jc_indent_level c))) c c')"

lemma join_lines_Cons: "join_lines (ls # mss) = (if mss = [] then ls else comma_last ls @ join_lines mss)"
  by (cases mss) simp_all

lemma write_all_wrote:
  assumes "list_all2 (\<lambda>f ls. writes f ls \<and> (\<forall>i v. ls i v \<noteq> [])) fs lss" "write_all fs c = (True, c')" "\<not> jc_minimal c" "fs \<noteq> []"
  shows "wrote (new_lines (join_lines (map (\<lambda>ls. ls (jc_indent_increment c) (jc_indent_level c)) lss))) c c'"
  using assms
proof (induction fs lss arbitrary: c rule: list_all2_induct)
  case (Cons f fs ls lss)
  let ?i = "jc_indent_increment c" and ?v = "jc_indent_level c"
  obtain d where d: "f c = (True, d)" "write_all fs d = (True, c')" using Cons.prems(1) by (auto dest: jthen_True)
  have w: "wrote (new_lines (ls ?i ?v)) c d" using Cons.hyps(1) d(1) Cons.prems(2) by (simp add: writes_def)
  show ?case
  proof (cases "fs = []")
    case True
    then have "lss = []" using Cons.hyps(2) by simp
    then show ?thesis using w d(2) True by simp
  next
    case False
    then have ne: "lss \<noteq> []" using Cons.hyps(2) by (cases lss) auto
    obtain k where k: "d = c\<lparr>jc_buf := jc_buf c @ item_comma c @ new_lines (ls ?i ?v), jc_bufsize := k, jc_need_comma := True\<rparr>"
      using w unfolding wrote_def by blast
    have "wrote (new_lines (join_lines (map (\<lambda>ls. ls ?i ?v) lss))) d c'"
      using Cons.IH [OF d(2) _ False] Cons.prems(2) by (simp add: k)
    then obtain j where "c' = c\<lparr>jc_buf := jc_buf c @ item_comma c @ new_lines (ls ?i ?v) @ '','' @
        new_lines (join_lines (map (\<lambda>ls. ls ?i ?v) lss)), jc_bufsize := j, jc_need_comma := True\<rparr>"
      unfolding wrote_def by (auto simp: k item_comma_def)
    moreover have "new_lines (comma_last (ls ?i ?v)) = new_lines (ls ?i ?v) @ '',''"
      using Cons.hyps(1) by (intro new_lines_comma) blast
    ultimately show ?thesis unfolding wrote_def using ne by (auto simp: join_lines_Cons)
  qed
qed simp

lemma frame_wrote:
  assumes "jthen (json_open b n c) (\<lambda>c. jthen (write_all fs c) (json_close e)) = (True, c')" "\<not> jc_minimal c"
    and "\<forall>s. n = Some s \<longrightarrow> plain_name s" "list_all2 (\<lambda>f ls. writes f ls \<and> (\<forall>i v. ls i v \<noteq> [])) fs lss"
  shows "wrote (new_lines ([line_start (jc_indent_level c) n @ [b]] @
    join_lines (map (\<lambda>ls. ls (jc_indent_increment c) (jc_indent_level c + jc_indent_increment c)) lss) @
    [line_start (jc_indent_level c) None @ [e]])) c c'"
proof -
  let ?i = "jc_indent_increment c" and ?v = "jc_indent_level c"
  let ?ls = "join_lines (map (\<lambda>ls. ls ?i (?v + ?i)) lss)"
  obtain d f where d: "json_open b n c = (True, d)" and f: "write_all fs d = (True, f)" and g: "json_close e f = (True, c')"
    using assms(1) by (auto dest!: jthen_True)
  obtain k where D: "d = c\<lparr>jc_buf := jc_buf c @ item_comma c @ CHR 0x0A # line_start ?v n @ [b], jc_bufsize := k,
      jc_indent_level := ?v + ?i, jc_need_comma := False\<rparr>"
    by (rule open_appended [OF d assms(2,3)])
  have F: "\<exists>j nc. f = d\<lparr>jc_buf := jc_buf d @ new_lines ?ls, jc_bufsize := j, jc_need_comma := nc\<rparr>"
  proof (cases "fs = []")
    case True
    then have "lss = []" "f = d" using assms(4) f by simp_all
    then have "f = d\<lparr>jc_buf := jc_buf d @ new_lines ?ls, jc_bufsize := jc_bufsize d, jc_need_comma := jc_need_comma d\<rparr>" by simp
    then show ?thesis by blast
  next
    case False
    have "wrote (new_lines ?ls) d f" using write_all_wrote [OF assms(4) f _ False] assms(2) by (simp add: D)
    then obtain j where "f = d\<lparr>jc_buf := jc_buf d @ item_comma d @ new_lines ?ls, jc_bufsize := j, jc_need_comma := True\<rparr>"
      unfolding wrote_def by blast
    then have "f = d\<lparr>jc_buf := jc_buf d @ new_lines ?ls, jc_bufsize := j, jc_need_comma := True\<rparr>"
      by (simp add: item_comma_def D)
    then show ?thesis by blast
  qed
  then obtain j nc where F: "f = d\<lparr>jc_buf := jc_buf d @ new_lines ?ls, jc_bufsize := j, jc_need_comma := nc\<rparr>" by blast
  have "\<not> jc_minimal f" using assms(2) by (simp add: F D)
  from close_appended [OF g this] obtain m where "c' = f\<lparr>jc_buf := jc_buf f @ CHR 0x0A # line_start (jc_indent_level f - jc_indent_increment f) None @ [e],
    jc_bufsize := m, jc_indent_level := jc_indent_level f - jc_indent_increment f, jc_need_comma := True\<rparr>" by blast
  then have "c' = c\<lparr>jc_buf := jc_buf c @ item_comma c @ new_lines ([line_start ?v n @ [b]] @ ?ls @ [line_start ?v None @ [e]]),
      jc_bufsize := m, jc_need_comma := True\<rparr>"
    by (intro json_container.equality) (simp_all add: F D)
  then show ?thesis unfolding wrote_def by blast
qed

lemma write_item_writes: "plain_names x \<Longrightarrow> writes (write_item x) (\<lambda>inc lv. item_lines inc lv x)"
proof (induction x rule: plain_names.induct)
  case (1 n node)
  have kids: "list_all2 (\<lambda>f ls. writes f ls \<and> (\<forall>i v. ls i v \<noteq> [])) (map write_item its) (map (\<lambda>x inc lv. item_lines inc lv x) its)"
    if "node = N_object its \<or> node = N_array its" for its
    using that 1 by (fastforce simp: list_all2_conv_all_nth list_all_length)
  have plain: "\<forall>s. n = Some s \<longrightarrow> plain_name s" using 1 by simp
  note frame = frame_wrote [OF _ _ plain kids]
  show ?case
  proof (cases node)
    case (N_object its)
    show ?thesis
      using frame [of "CHR ''{''" _ its "CHR ''}''"] by (simp add: writes_def N_object sudo_json_open_object_def sudo_json_close_object_def comp_def)
  next
    case (N_array its)
    show ?thesis
      using frame [of "CHR ''[''" _ its "CHR '']''"] by (simp add: writes_def N_array sudo_json_open_array_def sudo_json_close_array_def comp_def)
  qed (use add_value_wrote in \<open>fastforce simp: writes_def value_text_def\<close>)+
qed

end
