(* ===== verification/JsonTree.thy ===== *)
theory JsonTree
  imports JsonText
begin

text \<open>
  What the reader makes of the lines of a written tree: the tree again, or an error at the first
  string that ends in a backslash.
\<close>

section \<open>Strings\<close>

definition ends_in_backslash :: "string \<Rightarrow> bool" where
  "ends_in_backslash s \<longleftrightarrow> s \<noteq> [] \<and> last s = CHR 0x5C"

abbreviation escaped :: "string \<Rightarrow> string" where
  "escaped s \<equiv> concat (map json_escape s)"

lemma hex_digit_hex: "n < 16 \<Longrightarrow> hex_digit (json_hex n) = Some (of_nat n)"
proof -
  have "list_all (\<lambda>n. hex_digit (json_hex n) = Some (of_nat n)) [0..<16]"
    by (simp add: upt_rec json_hex_def hex_digit_def)
  then show "n < 16 \<Longrightarrow> ?thesis" by (simp add: list_all_iff)
qed

lemma code_halves: "code c div 16 < 16" "code c mod 16 < 16"
proof -
  have "code c < 256" by simp
  then show "code c div 16 < 16" "code c mod 16 < 16" by linarith+
qed

lemma hex_of_code: "sudo_hexchar (json_hex (code c div 16)) (json_hex (code c mod 16)) = int (code c)"
proof -
  have "uint (of_nat n :: 8 word) = int n" if "n < 16" for n using that by (simp add: unsigned_of_nat take_bit_nat_eq_self)
  moreover have "code c = 16 * (code c div 16) + code c mod 16" by simp
  then have "16 * int (code c div 16) + int (code c mod 16) = int (code c)" by linarith
  ultimately show ?thesis
    using sudo_hexchar_value [OF hex_digit_hex hex_digit_hex, OF code_halves] code_halves [of c] by simp
qed

lemma hex_char: "n < 16 \<Longrightarrow> json_hex n \<noteq> CHR 0x22 \<and> json_hex n \<noteq> CHR 0x5C \<and> \<not> c_isspace (json_hex n) \<and> json_hex n \<noteq> NUL"
proof -
  have "list_all (\<lambda>n. json_hex n \<noteq> CHR 0x22 \<and> json_hex n \<noteq> CHR 0x5C \<and> \<not> c_isspace (json_hex n) \<and> json_hex n \<noteq> NUL) [0..<16]"
    by (simp add: upt_rec json_hex_def c_isspace_def)
  then show "n < 16 \<Longrightarrow> ?thesis" by (simp add: list_all_iff)
qed

lemma escape_cases:
  obtains (quote) "c = CHR 0x22 \<or> c = CHR 0x5C" "json_escape c = [CHR 0x5C, c]"
  | (short) d where "(c, d) \<in> {(CHR 0x08, CHR ''b''), (CHR 0x0C, CHR ''f''), (CHR 0x0A, CHR ''n''), (CHR 0x0D, CHR ''r''), (CHR 0x09, CHR ''t'')}"
      "json_escape c = [CHR 0x5C, d]"
  | (hex) "c_iscntrl c" "json_escape c = CHR 0x5C # ''u00'' @ [json_hex (code c div 16), json_hex (code c mod 16)]"
  | (plain) "c \<noteq> CHR 0x22" "c \<noteq> CHR 0x5C" "\<not> c_iscntrl c" "json_escape c = [c]"
proof (cases "c = CHR 0x22 \<or> c = CHR 0x5C")
  case True
  then show ?thesis by (intro quote) (simp_all add: json_escape_def)
next
  case q: False
  show ?thesis
  proof (cases "c = CHR 0x08 \<or> c = CHR 0x0C \<or> c = CHR 0x0A \<or> c = CHR 0x0D \<or> c = CHR 0x09")
    case True
    then show ?thesis by (elim disjE) (rule short, simp, simp add: json_escape_def)+
  next
    case False
    then show ?thesis using q hex plain by (cases "c_iscntrl c") (simp_all add: json_escape_def)
  qed
qed

lemma escape_first: "c_at (json_escape c @ t) \<noteq> CHR 0x22"
  by (cases c rule: escape_cases) (auto simp: c_at_def)

lemma scan_plain: "c \<noteq> CHR 0x22 \<Longrightarrow> c \<noteq> CHR 0x5C \<Longrightarrow> json_scan (c # s) = map_option Suc (json_scan s)"
  by simp

lemma scan_escape:
  assumes "c = CHR 0x5C \<longrightarrow> c_at t \<noteq> CHR 0x22"
  shows "json_scan (json_escape c @ t) = map_option (\<lambda>n. n + length (json_escape c)) (json_scan t)"
proof (cases c rule: escape_cases)
  case hex
  show ?thesis using hex hex_char [OF code_halves(1) [of c]] hex_char [OF code_halves(2) [of c]] by (simp add: scan_plain option.map_comp comp_def c_at_def)
qed (use assms in \<open>auto simp: option.map_comp comp_def c_at_def\<close>)

lemma scan_escaped:
  assumes "\<not> ends_in_backslash s"
  shows "json_scan (escaped s @ CHR 0x22 # t) = Some (length (escaped s))"
  using assms
proof (induction s)
  case (Cons c s)
  have "\<not> ends_in_backslash s" using Cons.prems by (auto simp: ends_in_backslash_def split: if_splits)
  moreover have "c = CHR 0x5C \<longrightarrow> c_at (escaped s @ CHR 0x22 # t) \<noteq> CHR 0x22"
    using Cons.prems escape_first by (cases s) (auto simp: ends_in_backslash_def)
  ultimately show ?case using Cons.IH scan_escape [of c "escaped s @ CHR 0x22 # t"] by simp
qed simp

lemma scan_backslash:
  assumes "ends_in_backslash s" "json_scan t = None"
  shows "json_scan (escaped s @ CHR 0x22 # t) = None"
  using assms
proof (induction s)
  case (Cons c s)
  show ?case
  proof (cases "s = []")
    case True
    then have "c = CHR 0x5C" using Cons.prems(1) by (simp add: ends_in_backslash_def)
    then show ?thesis using True Cons.prems(2) by (simp add: json_escape_def c_at_def)
  next
    case False
    then have s: "ends_in_backslash s" using Cons.prems(1) by (simp add: ends_in_backslash_def)
    have "c_at (escaped s @ CHR 0x22 # t) \<noteq> CHR 0x22" using False escape_first by (cases s) auto
    then show ?thesis using Cons.IH [OF s Cons.prems(2)] scan_escape [of c "escaped s @ CHR 0x22 # t"] by simp
  qed
qed (simp add: ends_in_backslash_def)

lemma char_of_code [simp]: "char_of (code c) = c"
  by simp

lemma copy_hex:
  "sudo_hexchar h l = int k \<Longrightarrow> json_copy (Suc (Suc (Suc (Suc (Suc (Suc n)))))) (CHR 0x5C # CHR ''u'' # CHR ''0'' # CHR ''0'' # h # l # t) = char_of k # json_copy n t"
  by (simp add: c_at_def Let_def)

lemma copy_short:
  "json_copy (Suc (Suc n)) (CHR 0x5C # CHR ''b'' # t) = CHR 0x08 # json_copy n t"
  "json_copy (Suc (Suc n)) (CHR 0x5C # CHR ''f'' # t) = CHR 0x0C # json_copy n t"
  "json_copy (Suc (Suc n)) (CHR 0x5C # CHR ''n'' # t) = CHR 0x0A # json_copy n t"
  "json_copy (Suc (Suc n)) (CHR 0x5C # CHR ''r'' # t) = CHR 0x0D # json_copy n t"
  "json_copy (Suc (Suc n)) (CHR 0x5C # CHR ''t'' # t) = CHR 0x09 # json_copy n t"
  "json_copy (Suc (Suc n)) (CHR 0x5C # CHR 0x22 # t) = CHR 0x22 # json_copy n t"
  "json_copy (Suc (Suc n)) (CHR 0x5C # CHR 0x5C # t) = CHR 0x5C # json_copy n t"
  by (simp_all add: c_at_def Let_def)

lemma copy_escape: "json_copy (length (json_escape c) + n) (json_escape c @ t) = c # json_copy n t"
proof (cases c rule: escape_cases)
  case hex
  show ?thesis using copy_hex [OF hex_of_code [of c], of n t] by (simp add: hex del: json_copy.simps)
next
  case short
  then show ?thesis by (auto simp: copy_short simp del: json_copy.simps)
next
  case quote
  then show ?thesis by (auto simp: copy_short simp del: json_copy.simps)
qed (simp add: c_at_def Let_def)

lemma copy_escaped: "json_copy (length (escaped s)) (escaped s @ t) = s"
  by (induction s) (simp_all add: copy_escape)

lemma parse_quoted:
  assumes "\<not> ends_in_backslash s" "nul_free s"
  shows "json_parse_string (json_quote s @ t) = Some (s, dropWhile c_isspace t)"
  using scan_escaped [OF assms(1), of t] copy_escaped [of s "CHR 0x22 # t"] assms(2)
  by (simp add: json_parse_string_def json_quote_def)

lemma parse_quoted_fails:
  assumes "ends_in_backslash s" "CHR 0x22 \<notin> set t"
  shows "json_parse_string (json_quote s @ t) = None"
proof -
  have "json_scan t = None" using assms(2)
  proof (induction t rule: json_scan.induct)
    case (2 c t)
    then show ?case by (cases t) (auto simp: c_at_def)
  qed simp
  from scan_backslash [OF assms(1) this] show ?thesis by (simp add: json_parse_string_def json_quote_def)
qed

section \<open>Numbers\<close>

lemma decimal_digits: "list_all c_isdigit (decimal n) \<and> decimal n \<noteq> [] \<and> dval 0 (decimal n) = int n"
proof (induction n rule: decimal.induct)
  case (1 n)
  have d: "c_isdigit (char_of (48 + m)) \<and> digit_val (char_of (48 + m)) = int m" if "m < 10" for m :: nat
    using that by (simp add: ctype_simps)
  show ?case
  proof (cases "n < 10")
    case True
    then show ?thesis using d [of n] by (simp add: decimal.simps dval_def)
  next
    case False
    have "dval 0 (decimal (n div 10) @ [char_of (48 + n mod 10)]) = 10 * int (n div 10) + int (n mod 10)"
      using 1 [OF False] d [of "n mod 10"] by (simp add: dval_def)
    moreover have "n = 10 * (n div 10) + n mod 10" by simp
    then have "10 * int (n div 10) + int (n mod 10) = int n" by linarith
    ultimately show ?thesis using 1 [OF False] d [of "n mod 10"] False by (subst (1 2 3) decimal.simps) simp
  qed
qed

lemma lld_number:
  "number_digits (c_lld k) \<noteq> [] \<and> number_rest (c_lld k) = [] \<and> number_value (c_lld k) = sint k"
proof -
  have d: "takeWhile c_isdigit (decimal n) = decimal n" "dropWhile c_isdigit (decimal n) = []" "decimal n \<noteq> []"
    "dval 0 (decimal n) = int n" for n
    using decimal_digits [of n] by (simp_all add: takeWhile_eq_all_conv dropWhile_eq_Nil_conv list_all_iff)
  have first: "\<not> c_isspace (c_at (decimal n)) \<and> c_at (decimal n) \<noteq> CHR ''-'' \<and> c_at (decimal n) \<noteq> CHR ''+''" for n
    using decimal_digits [of n] by (cases "decimal n") (auto simp: c_at_def ctype_simps)
  have skip: "dropWhile c_isspace (decimal n) = decimal n" for n
    using first [of n] d(3) [of n] by (cases "decimal n") (auto simp: c_at_def)
  show ?thesis
  proof (cases "sint k < 0")
    case True
    then have "c_lld k = CHR ''-'' # decimal (nat (- sint k))" by (simp add: c_lld_def)
    then show ?thesis using True by (simp add: number_defs Let_def c_at_def c_isspace_def d)
  next
    case False
    then have "c_lld k = decimal (nat (sint k))" by (simp add: c_lld_def)
    then show ?thesis using False first by (simp add: number_defs Let_def d skip)
  qed
qed

lemma strtonum_lld: "sudo_strtonum (c_lld k) LLONG_MIN LLONG_MAX = Some (sint k, None)"
proof -
  have r: "- (2 ^ 63) \<le> sint k" "sint k < 2 ^ 63" using sint_range_size [of k] by (simp_all add: word_size)
  have "sudo_strtonumx (c_lld k) LLONG_MIN LLONG_MAX = Some (sint k, [], None)"
    using strtonumx_number(1) [of LLONG_MIN LLONG_MAX "c_lld k"] lld_number [of k] r
    by (simp add: ll_range_def LLONG_MIN_def LLONG_MAX_def)
  moreover have "c_lld k \<noteq> []" using lld_number [of k] by (auto simp: number_defs c_at_def Let_def)
  ultimately show ?thesis by (auto simp: sudo_strtonum_def c_at_def)
qed

section \<open>Lines\<close>

primrec run_lines :: "json_reader \<Rightarrow> string list \<Rightarrow> json_error + json_reader" where
  "run_lines st [] = Inr st"
| "run_lines st (l # ls) = (case json_line st l of Inl e \<Rightarrow> Inl e | Inr st \<Rightarrow> run_lines st ls)"

definition line_ok :: "string \<Rightarrow> bool" where
  "line_ok l \<longleftrightarrow> l \<noteq> [] \<and> \<not> c_isspace (last l) \<and> nul_free l \<and> CHR 0x0A \<notin> set l"

lemma run_lines_append:
  "run_lines st (as @ bs) = (case run_lines st as of Inl e \<Rightarrow> Inl e | Inr st \<Rightarrow> run_lines st bs)"
  by (induction as arbitrary: st) (simp_all split: sum.split)

lemma trim_line_ok: "line_ok l \<Longrightarrow> trim_line (l @ [CHR 0x0A]) = l"
proof -
  assume l: "line_ok l"
  then obtain b c where "l = b @ [c]" "\<not> c_isspace c" by (cases l rule: rev_cases) (auto simp: line_ok_def)
  moreover have "c_isspace (CHR 0x0A)" by (simp add: c_isspace_def)
  ultimately have "rev (dropWhile c_isspace (rev (l @ [CHR 0x0A]))) = l" by simp
  then show ?thesis using l by (simp add: trim_line_def Let_def line_ok_def del: rev_append)
qed

lemma lines_run: "list_all line_ok ls \<Longrightarrow> json_lines st (concat (map (\<lambda>l. l @ [CHR 0x0A]) ls)) = run_lines st ls"
proof (induction ls arbitrary: st)
  case Nil
  then show ?case by (simp add: json_lines.simps)
next
  case (Cons l ls)
  have l: "CHR 0x0A \<notin> set l" "trim_line (l @ [CHR 0x0A]) = l" using Cons.prems trim_line_ok by (auto simp: line_ok_def)
  show ?case
    by (subst json_lines.simps) (use l Cons in \<open>simp add: Let_def split: sum.split\<close>)
qed

lemma line_skip: "skip_comma st p = skip_comma st q \<Longrightarrow> json_line st p = json_line st q"
  by (subst (1 2) json_line.simps) simp

lemma line_blanks [simp]: "json_line st (replicate n (CHR '' '') @ p) = json_line st p"
  by (rule line_skip) (induction n, simp_all add: skip_comma_def c_isspace_def)

lemma line_blank [simp]: "json_line st (CHR '' '' # p) = json_line st p"
  by (rule line_skip) (simp add: skip_comma_def c_isspace_def)

lemma line_token:
  assumes "\<not> c_isspace (c_at p)" "c_at p \<noteq> CHR '',''" "c_at p \<noteq> NUL"
  shows "json_line st p = (case json_token st p of Inl e \<Rightarrow> Inl e | Inr (st, p) \<Rightarrow> json_line st p)"
proof -
  have "skip_comma st p = (st, p)" using assms by (cases p) (simp_all add: skip_comma_def c_at_def)
  then show ?thesis using assms(3) by (subst json_line.simps) simp
qed

definition tail_ok :: "string \<Rightarrow> bool" where
  "tail_ok t \<longleftrightarrow> t = [] \<or> t = '',''"

definition after_tail :: "string \<Rightarrow> json_reader \<Rightarrow> json_reader" where
  "after_tail t st = (if t = [] then st else st\<lparr>jr_comma := True\<rparr>)"

lemma line_tail: "tail_ok t \<Longrightarrow> json_line st t = Inr (after_tail t st)"
  by (subst json_line.simps) (auto simp: tail_ok_def skip_comma_def after_tail_def c_at_def c_isspace_def)

section \<open>Tokens\<close>

lemma quote_first: "c_at (json_quote s @ t) = CHR 0x22"
  by (simp add: json_quote_def c_at_def)

lemma first_not_blank [simp]: "\<not> c_isspace (CHR 0x22)" "\<not> c_isspace (CHR ''{'')" "\<not> c_isspace (CHR ''}'')" "\<not> c_isspace (CHR ''['')"
  "\<not> c_isspace (CHR '']'')" "\<not> c_isspace (CHR ''t'')" "\<not> c_isspace (CHR ''f'')" "\<not> c_isspace (CHR ''n'')"
  by (simp_all add: c_isspace_def)

lemma line_string:
  assumes "expect_value st" "\<not> lacks_separator st" "jf_parent (jr_frame st) \<noteq> No_parent" "nul_free s" "tail_ok t"
  shows "json_line st (json_quote s @ t) =
    (if ends_in_backslash s then Inl Missing_quote else Inr (after_tail t (json_insert (N_string s) st)))"
proof -
  have t: "CHR 0x22 \<notin> set t" "dropWhile c_isspace t = t" using assms(5) by (auto simp: tail_ok_def c_isspace_def)
  have "json_token st (json_quote s @ t) = json_quoted st (json_quote s @ t)"
    by (simp add: json_token_def quote_first)
  then show ?thesis
    using assms t parse_quoted [OF _ assms(4), of t] parse_quoted_fails [of s t] line_tail [OF assms(5)]
    by (subst line_token) (simp_all add: quote_first json_quoted_def)
qed

lemma line_name:
  assumes "jr_name st = None" "jf_parent (jr_frame st) = Object_parent" "nul_free s" "\<not> ends_in_backslash s"
  shows "json_line st (json_quote s @ '': '' @ p) = json_line (st\<lparr>jr_name := Some s\<rparr>) p"
proof -
  have "json_token st (json_quote s @ '': '' @ p) = json_quoted st (json_quote s @ '': '' @ p)"
    by (simp add: json_token_def quote_first)
  also have "\<dots> = Inr (st\<lparr>jr_name := Some s\<rparr>, CHR '' '' # p)"
    using assms parse_quoted [OF assms(4,3), of "'': '' @ p"]
    by (simp add: json_quoted_def expect_value_def c_isspace_def c_at_def)
  finally show ?thesis by (subst line_token) (simp_all add: quote_first)
qed

lemma lld_chars: "list_all (\<lambda>c. c = CHR ''-'' \<or> c_isdigit c) (c_lld k) \<and> c_lld k \<noteq> [] \<and> c_isdigit (last (c_lld k))"
proof -
  have "list_all c_isdigit (decimal n) \<and> decimal n \<noteq> []" for n using decimal_digits [of n] by simp
  moreover have "c_isdigit (last (decimal n))" for n using calculation [of n] by (simp add: list_all_iff)
  moreover have "list_all (\<lambda>c. c = CHR ''-'' \<or> c_isdigit c) (decimal n)" for n using calculation(1) [of n] by (simp add: list_all_iff)
  ultimately show ?thesis by (simp add: c_lld_def)
qed

lemma line_number:
  assumes "expect_value st" "\<not> lacks_separator st" "tail_ok t"
  shows "json_line st (c_lld k @ t) = Inr (after_tail t (json_insert (N_number k) st))"
proof -
  have not_end: "\<not> json_number_end c" if "c = CHR ''-'' \<or> c_isdigit c" for c using that by (auto simp: json_number_end_def ctype_simps)
  have all: "list_all (\<lambda>c. \<not> json_number_end c) (c_lld k)" using lld_chars [of k] not_end by (auto simp: list_all_iff)
  moreover have "takeWhile (\<lambda>c. \<not> json_number_end c) t = []" using assms(3) by (auto simp: tail_ok_def json_number_end_def)
  ultimately have w: "takeWhile (\<lambda>c. \<not> json_number_end c) (c_lld k @ t) = c_lld k"
    by (simp add: takeWhile_append list_all_iff)
  obtain d ds where d: "c_lld k = d # ds" "d = CHR ''-'' \<or> c_isdigit d" using lld_chars [of k] by (cases "c_lld k") auto
  then have at: "c_at (c_lld k @ t) = d" by (simp add: c_at_def)
  have ne: "\<not> c_isspace d" "d \<noteq> CHR '',''" "d \<noteq> NUL" "d \<noteq> CHR ''{''" "d \<noteq> CHR ''}''" "d \<noteq> CHR ''[''" "d \<noteq> CHR '']''" "d \<noteq> CHR 0x22"
    "d \<noteq> CHR ''t''" "d \<noteq> CHR ''f''" "d \<noteq> CHR ''n''"
    using d(2) by (auto simp: ctype_simps)
  have "json_token st (c_lld k @ t) = json_number st (c_lld k @ t)"
    unfolding json_token_def Let_def at using ne d(2) by auto
  also have "\<dots> = Inr (json_insert (N_number k) st, t)"
    using assms(1,2) by (simp add: json_number_def w strtonum_lld)
  finally show ?thesis using ne line_tail [OF assms(3)] by (subst line_token) (simp_all add: at)
qed

lemma line_literal:
  assumes "expect_value st" "\<not> lacks_separator st" "tail_ok t"
  shows "json_line st (''true'' @ t) = Inr (after_tail t (json_insert (N_bool True) st))"
    "json_line st (''false'' @ t) = Inr (after_tail t (json_insert (N_bool False) st))"
    "json_line st (''null'' @ t) = Inr (after_tail t (json_insert N_null st))"
proof -
  have "c_at t = CHR '','' \<or> c_at t = NUL" using assms(3) by (auto simp: tail_ok_def c_at_def)
  then have "json_literal w e node st (w @ t) = Inr (json_insert node st, t)" for w e node
    using assms(1,2) by (auto simp: json_literal_def Let_def strncmp_eq_def)
  note lit = this [of "''true''"] this [of "''false''"] this [of "''null''"]
  have tok: "json_token st (''true'' @ t) = Inr (json_insert (N_bool True) st, t)"
    "json_token st (''false'' @ t) = Inr (json_insert (N_bool False) st, t)"
    "json_token st (''null'' @ t) = Inr (json_insert N_null st, t)"
    unfolding json_token_def Let_def using lit by (simp_all add: c_at_def)
  show "json_line st (''true'' @ t) = Inr (after_tail t (json_insert (N_bool True) st))"
    by (subst line_token) (use tok(1) line_tail [OF assms(3)] in \<open>simp_all add: c_at_def\<close>)
  show "json_line st (''false'' @ t) = Inr (after_tail t (json_insert (N_bool False) st))"
    by (subst line_token) (use tok(2) line_tail [OF assms(3)] in \<open>simp_all add: c_at_def\<close>)
  show "json_line st (''null'' @ t) = Inr (after_tail t (json_insert N_null st))"
    by (subst line_token) (use tok(3) line_tail [OF assms(3)] in \<open>simp_all add: c_at_def\<close>)
qed

definition pushed :: "frame_parent \<Rightarrow> json_reader \<Rightarrow> json_reader" where
  "pushed type st = st\<lparr>jr_frame := \<lparr>jf_parent = type, jf_name = jr_name st, jf_items = []\<rparr>,
     jr_stack := jr_frame st # jr_stack st, jr_name := None, jr_comma := False\<rparr>"

lemma line_open:
  assumes "\<not> lacks_separator st" "length (jr_stack st) < json_maxdepth"
  shows "jr_name st \<noteq> None \<or> jf_parent (jr_frame st) = No_parent \<Longrightarrow> json_line st ''{'' = Inr (pushed Object_parent st)"
    "jf_parent (jr_frame st) \<noteq> No_parent \<Longrightarrow> json_line st ''['' = Inr (pushed Array_parent st)"
proof -
  have push: "json_stack_push type st = Inr (pushed type st)" for type using assms(2) by (simp add: json_stack_push_def pushed_def)
  have e: "json_line st' [] = Inr st'" for st' using line_tail [of "[]"] by (simp add: tail_ok_def after_tail_def)
  show "jr_name st \<noteq> None \<or> jf_parent (jr_frame st) = No_parent \<Longrightarrow> json_line st ''{'' = Inr (pushed Object_parent st)"
    using assms(1) by (subst line_token) (auto simp: c_at_def json_token_def json_open_frame_def push e)
  show "jf_parent (jr_frame st) \<noteq> No_parent \<Longrightarrow> json_line st ''['' = Inr (pushed Array_parent st)"
    using assms(1) by (subst line_token) (auto simp: c_at_def json_token_def json_open_frame_def push e)
qed

lemma line_close:
  assumes "jr_stack st \<noteq> []" "tail_ok t"
  shows "jf_parent (jr_frame st) = Object_parent \<Longrightarrow> json_line st (CHR ''}'' # t) = Inr (after_tail t (json_stack_pop st))"
    "jf_parent (jr_frame st) = Array_parent \<Longrightarrow> json_line st (CHR '']'' # t) = Inr (after_tail t (json_stack_pop st))"
  using assms(1) line_tail [OF assms(2)]
  by (subst line_token; simp add: c_at_def json_token_def json_close_frame_def)+

end
