(* ===== verification/JsonProps.thy ===== *)
theory JsonProps
  imports JsonTree
begin

text \<open>Reading a written tree gives the tree, and the writer stays within its buffer.\<close>

section \<open>Trees\<close>

definition good_name :: "string \<Rightarrow> bool" where
  "good_name s \<longleftrightarrow> plain_name s \<and> nul_free s \<and> \<not> ends_in_backslash s"

fun valid_item :: "bool \<Rightarrow> json_item \<Rightarrow> bool" where
  \<comment> \<open>the members of objects have names, those of arrays have none and are no objects\<close>
  "valid_item in_array (Json_item n node) \<longleftrightarrow>
     (case n of None \<Rightarrow> in_array | Some s \<Rightarrow> \<not> in_array \<and> good_name s) \<and>
     (case node of
        N_string s \<Rightarrow> nul_free s
      | N_object its \<Rightarrow> \<not> in_array \<and> list_all (valid_item False) its
      | N_array its \<Rightarrow> list_all (valid_item True) its
      | _ \<Rightarrow> True)"

fun item_depth :: "json_item \<Rightarrow> nat" where
  "item_depth (Json_item n node) =
     (case node of N_object its \<Rightarrow> Suc (foldr max (map item_depth its) 0) | N_array its \<Rightarrow> Suc (foldr max (map item_depth its) 0) | _ \<Rightarrow> 0)"

fun bad_item :: "json_item \<Rightarrow> bool" where
  \<comment> \<open>some string in it ends in a backslash\<close>
  "bad_item (Json_item n node) \<longleftrightarrow>
     (case node of N_string s \<Rightarrow> ends_in_backslash s | N_object its \<Rightarrow> list_ex bad_item its | N_array its \<Rightarrow> list_ex bad_item its | _ \<Rightarrow> False)"

definition on_last :: "string \<Rightarrow> string list \<Rightarrow> string list" where
  "on_last t ls = butlast ls @ [last ls @ t]"

lemma on_last_simps [simp]: "ls \<noteq> [] \<Longrightarrow> on_last [] ls = ls" "on_last t (ls @ [l]) = ls @ [l @ t]" "on_last t [l] = [l @ t]"
  by (simp_all add: on_last_def)

lemma comma_last_on_last: "comma_last ls = on_last '','' ls"
  by (simp add: comma_last_def on_last_def)

lemma depth_member: "x \<in> set its \<Longrightarrow> item_depth x \<le> foldr max (map item_depth its) 0"
  by (induction its) auto

definition add_items :: "json_item list \<Rightarrow> json_reader \<Rightarrow> json_reader" where
  "add_items its st = st\<lparr>jr_frame := (jr_frame st)\<lparr>jf_items := jf_items (jr_frame st) @ its\<rparr>, jr_name := None, jr_comma := False\<rparr>"

definition kind :: "bool \<Rightarrow> frame_parent" where
  "kind in_array = (if in_array then Array_parent else Object_parent)"

definition ready :: "bool \<Rightarrow> nat \<Rightarrow> json_reader \<Rightarrow> bool" where
  \<comment> \<open>before an item, with room on the stack\<close>
  "ready in_array d st \<longleftrightarrow> jf_parent (jr_frame st) = kind in_array \<and> jr_name st = None \<and> \<not> lacks_separator st \<and>
     length (jr_stack st) + d \<le> json_maxdepth"

definition reads :: "bool \<Rightarrow> nat \<Rightarrow> string list \<Rightarrow> json_item \<Rightarrow> bool" where
  "reads in_array d ls x \<longleftrightarrow> (\<forall>st t. ready in_array d st \<longrightarrow> tail_ok t \<longrightarrow>
     run_lines st (on_last t ls) = (if bad_item x then Inl Missing_quote else Inr (after_tail t (add_items [x] st))))"

lemma run_join:
  assumes "list_all2 (\<lambda>ls x. reads a d ls x \<and> ls \<noteq> []) lss its" "its \<noteq> []" "ready a d st"
  shows "run_lines st (join_lines lss) = (if list_ex bad_item its then Inl Missing_quote else Inr (add_items its st))"
  using assms
proof (induction lss its arbitrary: st rule: list_all2_induct)
  case (Cons ls lss x its)
  show ?case
  proof (cases "lss = []")
    case True
    then have "its = []" using Cons.hyps(2) by simp
    moreover have "run_lines st (on_last [] ls) = (if bad_item x then Inl Missing_quote else Inr (after_tail [] (add_items [x] st)))"
      using Cons.hyps(1) Cons.prems(2) unfolding reads_def by (auto simp: tail_ok_def)
    ultimately show ?thesis using True Cons.hyps(1) by (simp add: after_tail_def)
  next
    case False
    then have its: "its \<noteq> []" using Cons.hyps(2) by auto
    let ?st = "(add_items [x] st)\<lparr>jr_comma := True\<rparr>"
    have 1: "run_lines st (on_last '','' ls) = (if bad_item x then Inl Missing_quote else Inr ?st)"
      using Cons.hyps(1) Cons.prems(2) unfolding reads_def by (simp add: tail_ok_def after_tail_def)
    have "ready a d ?st" using Cons.prems(2) by (simp add: ready_def add_items_def lacks_separator_def)
    from Cons.IH [OF its this] 1 show ?thesis
      using False by (simp add: join_lines_Cons comma_last_on_last run_lines_append add_items_def)
  qed
qed simp

lemma line_start_read:
  assumes "ready a d st" "case n of None \<Rightarrow> a | Some s \<Rightarrow> \<not> a \<and> good_name s"
  shows "json_line st (line_start lv n @ p) = json_line (st\<lparr>jr_name := n\<rparr>) p"
proof (cases n)
  case None
  then have "st\<lparr>jr_name := n\<rparr> = st" using assms(1) by (simp add: ready_def)
  then show ?thesis using None by (simp add: line_start_def)
next
  case (Some s)
  then show ?thesis using assms line_name [of st s p] by (simp add: line_start_def ready_def kind_def good_name_def)
qed

lemma named:
  assumes "ready a d st" "case n of None \<Rightarrow> a | Some s \<Rightarrow> \<not> a \<and> good_name s"
  shows "expect_value (st\<lparr>jr_name := n\<rparr>)" "\<not> lacks_separator (st\<lparr>jr_name := n\<rparr>)" "jf_parent (jr_frame (st\<lparr>jr_name := n\<rparr>)) \<noteq> No_parent"
    "json_insert node (st\<lparr>jr_name := n\<rparr>) = add_items [Json_item n node] st"
  using assms by (auto simp: ready_def expect_value_def lacks_separator_def kind_def json_insert_def add_items_def split: option.splits)

lemma frame_read:
  assumes "ready a (Suc d) st" "case n of None \<Rightarrow> a | Some s \<Rightarrow> \<not> a \<and> good_name s" "tail_ok t" "arr \<or> n \<noteq> None"
    and "list_all2 (\<lambda>ls x. reads arr d ls x \<and> ls \<noteq> []) lss its"
  shows "run_lines st ([line_start lv n @ [if arr then CHR ''['' else CHR ''{'']] @ join_lines lss @
      [line_start lv None @ [if arr then CHR '']'' else CHR ''}''] @ t]) =
    (if list_ex bad_item its then Inl Missing_quote
     else Inr (after_tail t (add_items [Json_item n (if arr then N_array its else N_object its)] st)))"
proof -
  let ?st = "pushed (kind arr) (st\<lparr>jr_name := n\<rparr>)"
  have opn: "json_line st (line_start lv n @ [if arr then CHR ''['' else CHR ''{'']) = Inr ?st"
    using line_open [of "st\<lparr>jr_name := n\<rparr>"] named [OF assms(1,2)] assms(1,4) line_start_read [OF assms(1,2)]
    by (auto simp: kind_def ready_def)
  have ready: "ready arr d ?st" using assms(1) by (simp add: ready_def pushed_def lacks_separator_def)
  have kids: "run_lines ?st (join_lines lss) = (if list_ex bad_item its then Inl Missing_quote else Inr (add_items its ?st))"
  proof (cases "its = []")
    case True
    then have "add_items its ?st = ?st" "lss = []" using assms(5) by (simp_all add: add_items_def pushed_def)
    then show ?thesis using True by simp
  next
    case False
    show ?thesis by (rule run_join [OF assms(5) False ready])
  qed
  have pop: "json_stack_pop (add_items its ?st) = add_items [Json_item n (if arr then N_array its else N_object its)] st"
    by (simp add: json_stack_pop_def add_items_def pushed_def kind_def)
  have cls: "json_line (add_items its ?st) (line_start lv None @ [if arr then CHR '']'' else CHR ''}''] @ t) =
      Inr (after_tail t (add_items [Json_item n (if arr then N_array its else N_object its)] st))"
    using line_close [of "add_items its ?st" t] assms(3) by (simp add: line_start_def pop) (simp add: add_items_def pushed_def kind_def)
  show ?thesis using opn kids cls by (simp add: run_lines_append)
qed

lemma item_read:
  "valid_item a x \<Longrightarrow> item_depth x \<le> d \<Longrightarrow> reads a d (item_lines inc lv x) x"
proof (induction a x arbitrary: d lv rule: valid_item.induct)
  case (1 a n node)
  have n: "case n of None \<Rightarrow> a | Some s \<Rightarrow> \<not> a \<and> good_name s" using 1(3) by simp
  have kids: "list_all2 (\<lambda>ls x. reads arr e ls x \<and> ls \<noteq> []) (map (item_lines inc v) its) its"
    if "node = (if arr then N_array its else N_object its)" "d = Suc e" for arr its e v
  proof -
    have "reads arr e (item_lines inc v x) x" if x: "x \<in> set its" for x
    proof -
      have "item_depth x \<le> e" using depth_member [OF x] 1(4) that \<open>node = _\<close> \<open>d = _\<close> by (auto split: if_splits)
      moreover have "valid_item arr x" using 1(3) x \<open>node = _\<close> by (auto simp: list_all_iff split: if_splits)
      ultimately show ?thesis using 1(1,2) x \<open>node = _\<close> by (cases arr) auto
    qed
    then show ?thesis by (simp add: list_all2_conv_all_nth)
  qed
  show ?case
    unfolding reads_def
  proof (intro allI impI)
    fix st t assume r: "ready a d st" and t: "tail_ok t"
    note N = named [OF r n] and L = line_start_read [OF r n]
    show "run_lines st (on_last t (item_lines inc lv (Json_item n node))) =
        (if bad_item (Json_item n node) then Inl Missing_quote else Inr (after_tail t (add_items [Json_item n node] st)))"
    proof (cases node)
      case (N_string s)
      then show ?thesis using line_string [OF N(1-3) _ t, of s] 1(3) by (simp add: L N(4))
    next
      case (N_number k)
      then show ?thesis using line_number [OF N(1,2) t, of k] by (simp add: L N(4))
    next
      case (N_bool b)
      then show ?thesis using line_literal(1,2) [OF N(1,2) t] by (simp add: L N(4))
    next
      case N_null
      then show ?thesis using line_literal(3) [OF N(1,2) t] by (simp add: L N(4))
    next
      case (N_object its)
      then obtain e where e: "d = Suc e" using 1(4) by (cases d) auto
      have "\<not> a" using 1(3) N_object by simp
      then have "n \<noteq> None" using n by (auto split: option.splits)
      then show ?thesis
        using frame_read [OF r [unfolded e] n t, of False "map (item_lines inc (lv + inc)) its" its lv] kids [of False its e "lv + inc"] e N_object
        by (simp add: on_last_def)
    next
      case (N_array its)
      then obtain e where e: "d = Suc e" using 1(4) by (cases d) auto
      show ?thesis
        using frame_read [OF r [unfolded e] n t, of True "map (item_lines inc (lv + inc)) its" its lv] kids [of True its e "lv + inc"] e N_array
        by (simp add: on_last_def)
    qed
  qed
qed

section \<open>The text\<close>

lemma escape_chars: "c \<noteq> NUL \<Longrightarrow> d \<in> set (json_escape c) \<Longrightarrow> d \<noteq> NUL \<and> d \<noteq> CHR 0x0A"
proof (cases c rule: escape_cases)
  case hex
  assume "d \<in> set (json_escape c)"
  moreover have "json_hex m \<noteq> NUL \<and> json_hex m \<noteq> CHR 0x0A" if "m < 16" for m
    using hex_char [OF that] by (auto simp: c_isspace_def)
  ultimately show ?thesis using hex code_halves [of c] by auto
qed (auto simp: c_iscntrl_def)

lemma quote_line: "nul_free s \<Longrightarrow> nul_free (json_quote s) \<and> CHR 0x0A \<notin> set (json_quote s)"
proof -
  assume "nul_free s"
  then have "\<forall>d \<in> set (concat (map json_escape s)). d \<noteq> NUL \<and> d \<noteq> CHR 0x0A"
  proof (induction s)
    case (Cons c s)
    have "\<forall>d \<in> set (json_escape c). d \<noteq> NUL \<and> d \<noteq> CHR 0x0A" using escape_chars [of c] Cons.prems by simp
    then show ?case using Cons by auto
  qed simp
  then show ?thesis by (auto simp: json_quote_def nul_free_def)
qed

lemma line_start_line: "\<forall>s. n = Some s \<longrightarrow> nul_free s \<Longrightarrow> nul_free (line_start lv n) \<and> CHR 0x0A \<notin> set (line_start lv n)"
  using quote_line by (cases n) (auto simp: line_start_def nul_free_def)

lemma line_okI: "\<forall>s. n = Some s \<longrightarrow> nul_free s \<Longrightarrow> line_ok l \<Longrightarrow> line_ok (line_start lv n @ l)"
  using line_start_line [of n lv] by (auto simp: line_ok_def)

lemma line_ok_comma: "line_ok l \<Longrightarrow> line_ok (l @ '','')"
  by (simp add: line_ok_def c_isspace_def)

lemma line_ok_values:
  "nul_free s \<Longrightarrow> line_ok (json_quote s)" "line_ok (c_lld k)" "line_ok ''true''" "line_ok ''false''" "line_ok ''null''"
  "line_ok ''{''" "line_ok ''}''" "line_ok ''[''" "line_ok '']''"
proof -
  show "line_ok (json_quote s)" if "nul_free s" using quote_line [OF that] by (simp add: line_ok_def json_quote_def)
  have "c_isdigit c \<Longrightarrow> \<not> c_isspace c \<and> c \<noteq> NUL \<and> c \<noteq> CHR 0x0A" for c by (auto simp: ctype_simps)
  then show "line_ok (c_lld k)" using lld_chars [of k] by (fastforce simp: line_ok_def nul_free_def list_all_iff)
qed (simp_all add: line_ok_def c_isspace_def)

lemma join_lines_ok: "list_all (\<lambda>ls. ls \<noteq> [] \<and> list_all line_ok ls) lss \<Longrightarrow> list_all line_ok (join_lines lss)"
proof (induction lss)
  case (Cons ls lss)
  have "list_all line_ok (comma_last ls)"
    using Cons.prems by (cases ls rule: rev_cases) (auto simp: comma_last_def line_ok_comma)
  then show ?case using Cons by (simp add: join_lines_Cons)
qed simp

lemma item_lines_ok: "valid_item a x \<Longrightarrow> list_all line_ok (item_lines inc lv x)"
proof (induction a x arbitrary: lv rule: valid_item.induct)
  case (1 a n node)
  have n: "\<forall>s. n = Some s \<longrightarrow> nul_free s" using 1(3) by (auto simp: good_name_def)
  have kids: "list_all line_ok (join_lines (map (item_lines inc v) its))"
    if "node = N_object its \<and> list_all (valid_item False) its \<or> node = N_array its \<and> list_all (valid_item True) its" for its v
    using that 1(1,2) by (intro join_lines_ok) (fastforce simp: list_all_iff)
  show ?case
    using 1(3) kids line_okI [OF n] line_okI [of None] line_ok_values by (cases node) auto
qed

lemma new_lines_text: "''{'' @ new_lines ls @ [CHR 0x0A] @ ''}'' @ [CHR 0x0A] = concat (map (\<lambda>l. l @ [CHR 0x0A]) (''{'' # ls @ [''}'']))"
proof -
  have "l @ new_lines ls @ [CHR 0x0A] = concat (map (\<lambda>l. l @ [CHR 0x0A]) (l # ls))" for l ls
    by (induction ls arbitrary: l) (simp_all add: new_lines_def)
  from this [of "''{''" ls] show ?thesis by simp
qed

lemma plain_valid: "valid_item a x \<Longrightarrow> plain_names x"
proof (induction a x rule: valid_item.induct)
  case (1 a n node)
  then show ?case by (cases node) (auto simp: good_name_def list_all_iff split: option.splits)
qed

lemma read_lines_tree:
  assumes "list_all (valid_item False) its" "list_all (\<lambda>x. item_depth x < json_maxdepth) its"
  shows "eventlog_json_read (''{'' @ new_lines (join_lines (map (item_lines inc lv) its)) @ [CHR 0x0A] @ ''}'' @ [CHR 0x0A]) =
    (if list_ex bad_item its then Inl Missing_quote else Inr [Json_item None (N_object its)])"
proof -
  let ?ls = "join_lines (map (item_lines inc lv) its)" and ?st = "pushed Object_parent json_start"
  have kids: "list_all2 (\<lambda>ls x. reads False 63 ls x \<and> ls \<noteq> []) (map (item_lines inc lv) its) its"
  proof -
    have "reads False 63 (item_lines inc lv x) x" if "x \<in> set its" for x
      using that assms by (intro item_read) (auto simp: list_all_iff json_maxdepth_def)
    then show ?thesis by (simp add: list_all2_conv_all_nth)
  qed
  have "list_all line_ok (item_lines inc lv x)" if "x \<in> set its" for x
    using that assms(1) by (intro item_lines_ok [of False]) (simp add: list_all_iff)
  then have "list_all (\<lambda>ls. ls \<noteq> [] \<and> list_all line_ok ls) (map (item_lines inc lv) its)"
    by (simp add: list_all_iff)
  from join_lines_ok [OF this] have ok: "list_all line_ok (''{'' # ?ls @ [''}''])"
    by (simp add: line_ok_values)
  have opn: "json_line json_start ''{'' = Inr ?st"
    by (rule line_open(1)) (simp_all add: json_start_def lacks_separator_def json_maxdepth_def)
  have "ready False 63 ?st" by (simp add: ready_def pushed_def json_start_def kind_def lacks_separator_def json_maxdepth_def)
  then have kids: "run_lines ?st ?ls = (if list_ex bad_item its then Inl Missing_quote else Inr (add_items its ?st))"
    using run_join [OF kids] by (cases "its = []") (simp_all add: add_items_def pushed_def)
  have cls: "json_line (add_items its ?st) ''}'' = Inr (json_stack_pop (add_items its ?st))"
    using line_close(1) [of "add_items its ?st" "[]"] by (simp add: tail_ok_def after_tail_def) (simp add: add_items_def pushed_def)
  have "json_lines json_start (''{'' @ new_lines ?ls @ [CHR 0x0A] @ ''}'' @ [CHR 0x0A]) = run_lines json_start (''{'' # ?ls @ [''}''])"
    unfolding new_lines_text by (rule lines_run [OF ok])
  also have "\<dots> = (if list_ex bad_item its then Inl Missing_quote else Inr (json_stack_pop (add_items its ?st)))"
    using opn kids cls by (simp add: run_lines_append)
  finally show ?thesis by (simp add: eventlog_json_read_def json_stack_pop_def add_items_def pushed_def json_start_def)
qed

lemma read_tree:
  assumes "sudo_json_init limit indent False quiet = Some c" "limit < 2 ^ 32" "write_all (map write_item its) c = (True, c')"
    and "list_all (valid_item False) its" "list_all (\<lambda>x. item_depth x < json_maxdepth) its"
  shows "eventlog_json_read (''{'' @ jc_buf c' @ [CHR 0x0A] @ ''}'' @ [CHR 0x0A]) =
    (if list_ex bad_item its then Inl Missing_quote else Inr [Json_item None (N_object its)])"
proof -
  have c: "jc_buf c = []" "\<not> jc_minimal c" "\<not> jc_need_comma c" using assms(1) by (auto simp: sudo_json_init_def split: if_splits)
  have "list_all2 (\<lambda>f ls. writes f ls \<and> (\<forall>i v. ls i v \<noteq> [])) (map write_item its) (map (\<lambda>x i v. item_lines i v x) its)"
    using assms(4) write_item_writes plain_valid by (fastforce simp: list_all2_conv_all_nth list_all_length)
  from write_all_wrote [OF this assms(3) c(2)]
  have "jc_buf c' = new_lines (join_lines (map (item_lines (jc_indent_increment c) (jc_indent_level c)) its))"
    using c assms(3) by (cases "its = []") (auto simp: wrote_def item_comma_def comp_def)
  then show ?thesis using read_lines_tree [OF assms(4,5)] by simp
qed

text \<open>
  C27. A tree that has been written, indented, into a new container is read back as it was, whatever its size, with one
  exception: when one of its strings ends in a backslash the whole text is refused. The tree is nested less
  than 64 deep, its objects have members with names without control characters, NUL or a final backslash, its arrays hold no
  objects, and its strings no NUL.
\<close>

theorem json_read_written:
  assumes "sudo_json_init limit indent False quiet = Some c" "limit < 2 ^ 32" "write_all (map write_item its) c = (True, c')"
    and "list_all (valid_item False) its" "list_all (\<lambda>x. item_depth x < json_maxdepth) its"
  shows "eventlog_json_read (''{'' @ jc_buf c' @ [CHR 0x0A] @ ''}'' @ [CHR 0x0A]) =
    (if list_ex bad_item its then Inl Missing_quote else Inr [Json_item None (N_object its)])"
  by (rule read_tree [OF assms])

section \<open>The buffer\<close>

definition fits :: "json_container \<Rightarrow> bool" where
  \<comment> \<open>there is room for what the buffer holds and the NUL\<close>
  "fits c \<longleftrightarrow> length (jc_buf c) < jc_bufsize c \<and> jc_bufsize c \<le> jc_limit c \<and> jc_limit c \<le> 2 ^ 31"

lemma ensure_fits:
  assumes "json_ensure need c = (ok, c')" "fits c"
  shows "fits c' \<and> (ok \<longrightarrow> need < jc_bufsize c') \<and> jc_buf c' = jc_buf c \<and> jc_indent_level c' = jc_indent_level c"
  using assms
proof (induction need c arbitrary: c' rule: json_ensure.induct)
  case (1 need c)
  show ?case
  proof (cases "json_expand_buf c")
    case None
    then show ?thesis using 1(2,3) by (subst (asm) json_ensure.simps) (auto split: if_splits)
  next
    case (Some d)
    then have d: "fits d" "jc_buf d = jc_buf c" "jc_indent_level d = jc_indent_level c"
      using 1(3) by (auto simp: json_expand_buf_def fits_def split: if_splits)
    show ?thesis
    proof (cases "need < jc_bufsize c")
      case True
      then show ?thesis using 1(2,3) by (simp add: json_ensure.simps)
    next
      case False
      then have "json_ensure need d = (ok, c')" using 1(2) Some by (subst (asm) json_ensure.simps) simp
      from 1(1) [OF False Some this d(1)] d(2,3) show ?thesis by simp
    qed
  qed
qed

definition grown :: "json_container \<Rightarrow> json_container \<Rightarrow> bool" where
  "grown c d \<longleftrightarrow> jc_indent_level d = jc_indent_level c \<and> length (jc_buf c) \<le> length (jc_buf d) \<and>
     (fits c \<longrightarrow> unat (jc_indent_level c) < 2 ^ 31 \<longrightarrow> fits d) \<and> jc_limit d = jc_limit c"

definition keeps :: "(json_container \<Rightarrow> bool \<times> json_container) \<Rightarrow> bool" where
  "keeps f \<longleftrightarrow> (\<forall>c. grown c (snd (f c)))"

lemma grown_refl [simp]: "grown c c"
  by (simp add: grown_def)

lemma grown_trans: "grown c d \<Longrightarrow> grown d e \<Longrightarrow> grown c e"
  by (auto simp: grown_def)

lemma grown_comma_flag [simp]: "grown c (d\<lparr>jc_need_comma := b\<rparr>) = grown c d" "grown (c\<lparr>jc_need_comma := b\<rparr>) d = grown c d"
  by (simp_all add: grown_def fits_def)

lemma grown_jthen: "grown c (snd r) \<Longrightarrow> (\<And>d. grown d (snd (f d))) \<Longrightarrow> grown c (snd (jthen r f))"
  by (auto simp: jthen_def intro: grown_trans)

lemma keeps_jthen: "keeps f \<Longrightarrow> keeps g \<Longrightarrow> keeps (\<lambda>c. jthen (f c) g)"
  by (simp add: keeps_def grown_jthen)

lemma keepsD: "keeps f \<Longrightarrow> grown c (snd (f c))"
  by (simp add: keeps_def)

lemma ensure_grown: "json_ensure need c = (ok, d) \<Longrightarrow> grown c d"
  using ensure_size [of need c ok d] ensure_fits [of need c ok d] by (auto simp: grown_def)

lemma keeps_append_buf: "keeps (json_append_buf t)"
  unfolding keeps_def
proof
  fix c
  obtain ok d where d: "json_ensure (length (jc_buf c) + length t) c = (ok, d)" by (rule prod.exhaust)
  have put: "grown c (d\<lparr>jc_buf := jc_buf d @ t\<rparr>)" if ok
    using ensure_grown [OF d] ensure_fits [OF d] ensure_size [OF d] that by (auto simp: grown_def fits_def)
  then show "grown c (snd (json_append_buf t c))"
    using ensure_grown [OF d] by (cases ok) (simp_all add: json_append_buf_def jthen_def d)
qed

lemma keeps_new_line: "keeps json_new_line"
  unfolding keeps_def
proof
  fix c :: json_container
  define need where "need = length (jc_buf c) + 1 + unat (jc_indent_level c)"
  obtain ok d where d: "json_ensure (need mod 2 ^ 32) c = (ok, d)" by (rule prod.exhaust)
  have nl: "json_new_line c = (if jc_minimal c then (True, c) else if ok
      then (True, d\<lparr>jc_buf := jc_buf d @ CHR 0x0A # replicate (unat (jc_indent_level c)) (CHR '' '')\<rparr>) else (False, d))"
    unfolding json_new_line_def Let_def need_def [symmetric] d by (simp add: jthen_def)
  have m: "need mod 2 ^ 32 = need" if "fits c" "unat (jc_indent_level c) < 2 ^ 31"
    using that by (simp add: fits_def need_def)
  have "grown c (d\<lparr>jc_buf := jc_buf d @ CHR 0x0A # replicate (unat (jc_indent_level c)) (CHR '' '')\<rparr>)" if ok
    using ensure_grown [OF d] ensure_fits [OF d] ensure_size [OF d] that m by (auto simp: grown_def fits_def need_def)
  then show "grown c (snd (json_new_line c))" using ensure_grown [OF d] by (simp add: nl)
qed

lemma keeps_append_chars: "keeps (json_append_chars s)"
proof (induction s)
  case (Cons ch s)
  then have "keeps (\<lambda>c. jthen (json_append_buf (json_escape ch) c) (json_append_chars s))" by (intro keeps_jthen keeps_append_buf)
  then show ?case by simp
qed (simp add: keeps_def)

lemma keeps_append_string: "keeps (json_append_string s)"
  unfolding json_append_string_def by (intro keeps_jthen keeps_append_buf keeps_append_chars)

lemma keeps_comma: "keeps json_comma"
proof -
  have "grown c (snd (if jc_need_comma c then json_append_buf '','' c else (True, c)))" for c
    using keepsD [OF keeps_append_buf] by simp
  then show ?thesis unfolding keeps_def json_comma_def using keepsD [OF keeps_new_line] by (blast intro: grown_jthen)
qed

lemma keeps_value_text: "keeps (json_value_text v)"
  using keepsD [OF keeps_append_buf] keepsD [OF keeps_append_string]
  by (cases v) (simp_all add: keeps_def json_value_text_def)

datatype json_call =
    Open_object "string option" | Close_object | Open_array "string option" | Close_array
  | Add_value "string option" json_value bool

fun json_step :: "json_call \<Rightarrow> json_container \<Rightarrow> bool \<times> json_container" where
  "json_step (Open_object n) = sudo_json_open_object n"
| "json_step Close_object = sudo_json_close_object"
| "json_step (Open_array n) = sudo_json_open_array n"
| "json_step Close_array = sudo_json_close_array"
| "json_step (Add_value n v as_object) = sudo_json_add_value_int n v as_object"

definition json_calls :: "json_call list \<Rightarrow> json_container \<Rightarrow> json_container" where
  \<comment> \<open>whether or not they succeed\<close>
  "json_calls = fold (\<lambda>call c. snd (json_step call c))"

definition stays_in :: "json_container \<Rightarrow> json_container \<Rightarrow> bool" where
  "stays_in c d \<longleftrightarrow> jc_limit d = jc_limit c \<and>
     (fits c \<longrightarrow> unat (jc_indent_level c) < 2 ^ 31 \<longrightarrow> unat (jc_indent_level d) < 2 ^ 31 \<longrightarrow> fits d)"

lemma open_stays_in: "stays_in c (snd (json_open b n c))"
proof -
  define body where "body = jthen (json_comma c) (\<lambda>c. case n of
      Some n \<Rightarrow> json_append_buf ((if jc_minimal c then '':'' else '': '') @ [b]) (snd (json_append_string n c))
    | None \<Rightarrow> json_append_buf [b] c)"
  have "grown d (snd (json_append_buf t (snd (json_append_string m d))))" for d t m
    by (rule grown_trans [OF keepsD [OF keeps_append_string] keepsD [OF keeps_append_buf]])
  then have "grown c (snd body)" unfolding body_def
    by (intro grown_jthen keepsD [OF keeps_comma]) (use keepsD [OF keeps_append_buf] in \<open>auto split: option.split\<close>)
  moreover have "json_open b n c = jthen body (\<lambda>c. (True, c\<lparr>jc_indent_level := jc_indent_level c + jc_indent_increment c, jc_need_comma := False\<rparr>))"
    by (simp add: json_open_def body_def jthen_def)
  ultimately show ?thesis by (auto simp: jthen_def grown_def fits_def stays_in_def)
qed

lemma close_stays_in: "stays_in c (snd (json_close b c))"
proof -
  define c1 where "c1 = (if jc_minimal c then c else c\<lparr>jc_indent_level := jc_indent_level c - jc_indent_increment c\<rparr>)"
  have "grown c1 (snd (json_close b c))"
    unfolding json_close_def c1_def
    by (rule grown_jthen) (use keepsD [OF keeps_new_line] keepsD [OF keeps_append_buf] in \<open>auto intro: grown_jthen\<close>)
  moreover have "jc_limit c1 = jc_limit c" "fits c1 = fits c" by (simp_all add: c1_def fits_def)
  ultimately show ?thesis by (auto simp: grown_def stays_in_def)
qed

lemma add_value_stays_in: "stays_in c (snd (sudo_json_add_value_int n v as_object c))"
proof -
  define r where "r = jthen (json_comma c) (\<lambda>c.
        let c = c\<lparr>jc_need_comma := True\<rparr> in
        jthen (if as_object then json_append_buf (if jc_minimal c then ''{'' else ''{ '') c else (True, c)) (\<lambda>c.
        jthen (case n of None \<Rightarrow> (True, c)
               | Some n \<Rightarrow> jthen (json_append_string n c) (\<lambda>c. json_append_buf (if jc_minimal c then '':'' else '': '') c)) (\<lambda>c.
        jthen (json_value_text v c) (\<lambda>c.
        if as_object then json_append_buf (if jc_minimal c then ''}'' else '' }'') c else (True, c)))))"
  have "grown d (snd (json_append_buf t (d\<lparr>jc_need_comma := True\<rparr>)))" for d t
    using keepsD [OF keeps_append_buf, of "d\<lparr>jc_need_comma := True\<rparr>" t] by simp
  then have g: "grown c (snd r)" unfolding r_def Let_def
    by (intro grown_jthen keepsD [OF keeps_comma])
      (use keepsD [OF keeps_append_buf] keepsD [OF keeps_append_string] keepsD [OF keeps_value_text] in
        \<open>auto intro!: grown_jthen split: option.split\<close>)
  have eq: "sudo_json_add_value_int n v as_object c = (if fst r then (True, snd r) else (False, c\<lparr>jc_bufsize := jc_bufsize (snd r)\<rparr>))"
    by (simp add: sudo_json_add_value_int_def r_def [symmetric] split: prod.split)
  show ?thesis using g by (auto simp: eq grown_def fits_def stays_in_def)
qed

lemma step_stays_in: "stays_in c (snd (json_step call c))"
  using open_stays_in close_stays_in add_value_stays_in
  by (cases call) (simp_all add: sudo_json_open_object_def sudo_json_open_array_def sudo_json_close_object_def sudo_json_close_array_def)

text \<open>
  C37. Whatever calls are made, in whatever order, and whether they succeed or run out of memory: as long
  as the level of indentation, which is unsigned and wraps when more is closed than has been opened, stays below \<open>2 ^ 31\<close>, and the
  allocator grants at most \<open>2 ^ 31\<close> bytes, what the buffer holds and its NUL fit into it.
\<close>

theorem json_calls_fit:
  assumes "sudo_json_init limit indent minimal quiet = Some c" "limit \<le> 2 ^ 31"
    and "\<forall>k \<le> length calls. unat (jc_indent_level (json_calls (take k calls) c)) < 2 ^ 31"
  shows "length (jc_buf (json_calls calls c)) < jc_bufsize (json_calls calls c) \<and> jc_bufsize (json_calls calls c) \<le> limit"
proof -
  have "fits c" "jc_limit c = limit" using assms(1,2) by (auto simp: sudo_json_init_def fits_def split: if_splits)
  then have "fits (json_calls calls c) \<and> jc_limit (json_calls calls c) = limit" using assms(3)
  proof (induction calls arbitrary: c)
    case Nil
    then show ?case by (simp add: json_calls_def)
  next
    case (Cons call calls)
    let ?d = "snd (json_step call c)"
    have run: "json_calls (call # cs) c = json_calls cs ?d" for cs by (simp add: json_calls_def)
    have "unat (jc_indent_level c) < 2 ^ 31" using spec [OF Cons.prems(3), of 0] by (simp add: json_calls_def)
    moreover have lv: "\<forall>k \<le> length calls. unat (jc_indent_level (json_calls (take k calls) ?d)) < 2 ^ 31"
    proof (intro allI impI)
      fix k assume "k \<le> length calls"
      then show "unat (jc_indent_level (json_calls (take k calls) ?d)) < 2 ^ 31"
        using spec [OF Cons.prems(3), of "Suc k"] by (simp add: run)
    qed
    moreover have "unat (jc_indent_level ?d) < 2 ^ 31" using spec [OF lv, of 0] by (simp add: json_calls_def)
    ultimately show ?case
      using step_stays_in [of c call] Cons.prems(1,2) Cons.IH [of ?d] by (simp add: run stays_in_def)
  qed
  then show ?thesis by (simp add: fits_def)
qed

end
