(* ===== verification/EventLogProps.thy ===== *)
theory EventLogProps
  imports EventLog JsonProps
begin

text \<open>The event in the file \<open>log.json\<close> is the event that was written.\<close>

section \<open>The tree of an event\<close>

definition opt_item :: "string \<Rightarrow> string option \<Rightarrow> json_item list" where
  "opt_item name v = (case v of None \<Rightarrow> [] | Some s \<Rightarrow> [Json_item (Some name) (N_string s)])"

definition array_item :: "string \<Rightarrow> string list option \<Rightarrow> json_item list" where
  "array_item name v =
     (case v of None \<Rightarrow> [] | Some l \<Rightarrow> [Json_item (Some name) (N_array (map (\<lambda>s. Json_item None (N_string s)) l))])"

definition id_item :: "string \<Rightarrow> bool \<Rightarrow> 32 word \<Rightarrow> json_item list" where
  "id_item name known i = (if known \<and> i \<noteq> - 1 then [Json_item (Some name) (N_number (ucast i))] else [])"

definition time_item :: "string \<Rightarrow> timespec \<Rightarrow> json_item list" where
  "time_item name ts = [Json_item (Some name) (N_object
     [Json_item (Some ''seconds'') (N_number (tv_sec ts)), Json_item (Some ''nanoseconds'') (N_number (tv_nsec ts))])]"

definition number_item :: "string \<Rightarrow> 32 word \<Rightarrow> json_item list" where
  "number_item name i = [Json_item (Some name) (N_number (scast i))]"

definition event_items :: "eventlog \<Rightarrow> json_item list" where
  "event_items ev =
     time_item ''timestamp'' (ev_event_time ev) @ opt_item ''submituser'' (ev_submituser ev) @ opt_item ''command'' (ev_command ev) @
     opt_item ''runuser'' (ev_runuser ev) @ opt_item ''rungroup'' (ev_rungroup ev) @ opt_item ''runchroot'' (ev_runchroot ev) @
     opt_item ''runcwd'' (ev_runcwd ev) @ opt_item ''source'' (ev_source ev) @ opt_item ''ttyname'' (ev_ttyname ev) @
     opt_item ''submithost'' (ev_submithost ev) @ opt_item ''submitcwd'' (ev_cwd ev) @
     id_item ''rungid'' (ev_rungroup ev \<noteq> None) (ev_rungid ev) @ id_item ''runuid'' True (ev_runuid ev) @
     number_item ''columns'' (ev_columns ev) @ number_item ''lines'' (ev_lines ev) @
     array_item ''runargv'' (ev_runargv ev) @ array_item ''runenv'' (ev_runenv ev) @ array_item ''submitenv'' (ev_submitenv ev)"

definition wr :: "json_item list \<Rightarrow> json_container \<Rightarrow> bool \<times> json_container" where
  "wr its = write_all (map write_item its)"

lemma wr_Nil [simp]: "wr [] c = (True, c)"
  by (simp add: wr_def)

lemma jthen_assoc: "jthen (jthen r f) g = jthen r (\<lambda>c. jthen (f c) g)"
  by (cases r) (simp add: jthen_def)

lemma jthen_pair [simp]: "jthen (True, c) f = f c" "jthen r (Pair True) = r"
  by (simp_all add: jthen_def prod_eq_iff)

lemma wr_Nil' [simp]: "wr [] = Pair True"
  by (rule ext) simp

lemma wr_Cons: "wr (x # xs) = (\<lambda>c. jthen (write_item x c) (wr xs))"
  by (rule ext) (simp add: wr_def)

lemma wr_append: "wr (xs @ ys) = (\<lambda>c. jthen (wr xs c) (wr ys))"
  by (induction xs) (simp_all add: wr_Cons jthen_assoc)

lemma wr_single: "wr [x] = write_item x"
  by (simp add: wr_Cons)

lemma wr_opt: "opt_string name v = wr (opt_item name v)"
  by (rule ext) (simp add: opt_string_def opt_item_def wr_single split: option.split)

lemma wr_members: "store_members l = wr (map (\<lambda>s. Json_item None (N_string s)) l)"
proof (induction l)
  case (Cons s l)
  have "store_members (s # l) = (\<lambda>c. jthen (sudo_json_add_value None (JSON_STRING s) c) (store_members l))" by (rule ext) simp
  then show ?case using Cons by (simp add: wr_Cons)
qed (rule ext, simp)

lemma wr_strings: "opt_strings name v = wr (array_item name v)"
  by (rule ext) (simp add: opt_strings_def array_item_def wr_single wr_members split: option.split, simp add: wr_def)

lemma lld_id: "c_lld (ucast (i :: 32 word)) = decimal (unat i)"
proof -
  have "uint i < 2 ^ 32" using uint_lt2p [of i] by simp
  moreover have "- (2 ^ 63) \<le> uint i" using uint_ge_0 [of i] by (simp add: order_trans [OF _ uint_ge_0])
  ultimately have "sint (ucast i :: 64 word) = uint i" 
    by (simp add: sint_uint unsigned_ucast_eq take_bit_int_eq_self signed_take_bit_int_eq_self_iff)
  then show ?thesis by (simp add: c_lld_def nat_uint_eq)
qed

lemma wr_id: "opt_id name known i = wr (id_item name known i)"
  by (rule ext) (simp add: opt_id_def id_item_def wr_single sudo_json_add_value_def sudo_json_add_value_int_def json_value_text_def lld_id)

lemma wr_time: "json_add_time name ts = wr (time_item name ts)"
  by (rule ext) (simp add: json_add_time_def time_item_def wr_single jthen_assoc)

lemma wr_number: "sudo_json_add_value (Some name) (JSON_NUMBER (scast i)) = wr (number_item name i)"
  by (rule ext) (simp add: number_item_def wr_single)

lemma written_event:
  assumes "iolog_info_json limit ev = Some text"
  obtains c c' where "sudo_json_init limit 4 False False = Some c" "write_all (map write_item (event_items ev)) c = (True, c')"
    "text = ''{'' @ jc_buf c' @ [CHR 0x0A] @ ''}'' @ [CHR 0x0A]" "ev_submituser ev \<noteq> None"
proof -
  obtain c where c: "sudo_json_init limit 4 False False = Some c" using assms by (auto simp: iolog_info_json_def split: option.splits)
  obtain c' where c': "jthen (json_add_time ''timestamp'' (ev_event_time ev) c) (eventlog_store_json ev) = (True, c')"
    "text = ''{'' @ jc_buf c' @ [CHR 0x0A] @ ''}'' @ [CHR 0x0A]"
    using assms c by (auto simp: iolog_info_json_def split: prod.splits bool.splits)
  obtain u where u: "ev_submituser ev = Some u"
    using c'(1) by (cases "ev_submituser ev") (auto simp: eventlog_store_json_def jthen_def split: if_splits)
  have s: "sudo_json_add_value (Some ''submituser'') (JSON_STRING u) = wr (opt_item ''submituser'' (ev_submituser ev))"
    by (rule ext) (simp add: u opt_item_def wr_single)
  have "eventlog_store_json ev c1 = wr (tl (event_items ev)) c1" for c1
    unfolding eventlog_store_json_def u option.case s event_items_def time_item_def append_Cons append_Nil list.sel
    by (simp add: wr_append wr_opt wr_strings wr_id wr_number)
  then have "eventlog_store_json ev = wr (tl (event_items ev))" by (rule ext)
  then have "jthen (json_add_time ''timestamp'' (ev_event_time ev) c) (eventlog_store_json ev) =
      wr (time_item ''timestamp'' (ev_event_time ev) @ tl (event_items ev)) c"
    by (simp add: wr_append wr_time)
  also have "time_item ''timestamp'' (ev_event_time ev) @ tl (event_items ev) = event_items ev" by (simp add: event_items_def time_item_def)
  finally show ?thesis using that [OF c _ c'(2)] c'(1) u by (simp add: wr_def)
qed

section \<open>Validity\<close>

definition good_text :: "string \<Rightarrow> bool" where
  "good_text s \<longleftrightarrow> nul_free s \<and> \<not> ends_in_backslash s"

definition texts :: "string option \<Rightarrow> string list" where
  "texts v = (case v of None \<Rightarrow> [] | Some s \<Rightarrow> [s])"

definition vector :: "string list option \<Rightarrow> string list" where
  "vector v = (case v of None \<Rightarrow> [] | Some l \<Rightarrow> l)"

definition event_strings :: "eventlog \<Rightarrow> string list" where
  \<comment> \<open>the strings that are stored\<close>
  "event_strings ev =
     texts (ev_submituser ev) @ texts (ev_command ev) @ texts (ev_runuser ev) @ texts (ev_rungroup ev) @ texts (ev_runchroot ev) @
     texts (ev_runcwd ev) @ texts (ev_source ev) @ texts (ev_ttyname ev) @ texts (ev_submithost ev) @ texts (ev_cwd ev) @
     vector (ev_runargv ev) @ vector (ev_runenv ev) @ vector (ev_submitenv ev)"

definition item_ok :: "json_item \<Rightarrow> bool" where
  "item_ok x \<longleftrightarrow> valid_item False x \<and> item_depth x < json_maxdepth"

lemma names_good [simp]: "plain_name s \<Longrightarrow> CHR 0x5C \<notin> set s \<Longrightarrow> NUL \<notin> set s \<Longrightarrow> good_name s"
  using last_in_set [of s] by (cases "s = []") (auto simp: good_name_def nul_free_def ends_in_backslash_def simp del: last_in_set)

definition key_name :: "string \<Rightarrow> bool" where
  "key_name s \<longleftrightarrow> list_all c_islower s"

lemma key_name_good: "key_name s \<Longrightarrow> good_name s"
proof -
  assume "key_name s"
  then have "c_islower c" if "c \<in> set s" for c using that by (simp add: key_name_def list_all_iff)
  then show ?thesis
    by (intro names_good) (fastforce simp: plain_name_def list_all_iff ctype_simps)+
qed

lemma flat: "foldr max (map (item_depth \<circ> (\<lambda>s. Json_item None (N_string s))) l) 0 = 0"
  by (induction l) simp_all

lemma items_ok:
  assumes "key_name name"
  shows "list_all item_ok (time_item name ts)" "list_all item_ok (number_item name i)" "list_all item_ok (id_item name known i)"
    "list_all nul_free (texts v) \<Longrightarrow> list_all item_ok (opt_item name v)"
    "list_all nul_free (vector w) \<Longrightarrow> list_all item_ok (array_item name w)"
proof -
  note good = key_name_good [OF assms]
  have sec: "good_name ''seconds''" "good_name ''nanoseconds''" by (rule key_name_good, simp add: key_name_def c_islower_def)+
  show "list_all item_ok (time_item name ts)" using good sec by (simp add: time_item_def item_ok_def json_maxdepth_def)
  show "list_all item_ok (number_item name i)" using good by (simp add: number_item_def item_ok_def json_maxdepth_def)
  show "list_all item_ok (id_item name known i)" using good by (simp add: id_item_def item_ok_def json_maxdepth_def)
  show "list_all item_ok (opt_item name v)" if "list_all nul_free (texts v)"
    using that good by (simp add: texts_def opt_item_def item_ok_def json_maxdepth_def split: option.splits)
  show "list_all item_ok (array_item name w)" if "list_all nul_free (vector w)"
    using that good flat by (auto simp: vector_def array_item_def item_ok_def json_maxdepth_def list_all_iff split: option.splits)
qed

lemma event_items_valid: "list_all nul_free (event_strings ev) \<Longrightarrow> list_all item_ok (event_items ev)"
  unfolding event_items_def event_strings_def list_all_append
  by (elim conjE, intro conjI items_ok) (simp_all add: key_name_def c_islower_def)

lemma bad_opt: "list_ex bad_item (opt_item name v) = list_ex ends_in_backslash (texts v)"
  by (simp add: texts_def opt_item_def split: option.split)

lemma bad_array: "list_ex bad_item (array_item name v) = list_ex ends_in_backslash (vector v)"
  by (auto simp: vector_def array_item_def list_ex_iff split: option.split)

lemma bad_others: "list_ex bad_item (time_item name ts) = False" "list_ex bad_item (number_item name i) = False"
  "list_ex bad_item (id_item name k i) = False"
  by (simp_all add: time_item_def number_item_def id_item_def)

lemma event_items_bad: "list_ex bad_item (event_items ev) = list_ex ends_in_backslash (event_strings ev)"
  by (simp only: event_items_def event_strings_def list_ex_append bad_opt bad_array bad_others simp_thms)

section \<open>What the setters make of it\<close>

lemma evlog_items_append:
  "evlog_items (xs @ ys) st = (let (ok, st) = evlog_items xs st in if ok then evlog_items ys st else (False, st))"
  by (induction xs arbitrary: st) (auto split: prod.split)

definition sets :: "json_item list \<Rightarrow> (eventlog \<Rightarrow> eventlog) \<Rightarrow> bool" where
  "sets its f \<longleftrightarrow> (\<forall>ev file. evlog_items its (ev, file) = (True, (f ev, file)))"

lemma sets_append: "sets xs f \<Longrightarrow> sets ys g \<Longrightarrow> sets (xs @ ys) (\<lambda>ev. g (f ev))"
  by (simp add: sets_def evlog_items_append)

definition or_else :: "'a option \<Rightarrow> 'a option \<Rightarrow> 'a option" where
  "or_else v old = (case v of None \<Rightarrow> old | Some _ \<Rightarrow> v)"

lemma or_else_simps: "or_else None = (\<lambda>x. x)" "or_else (Some s) = (\<lambda>_. Some s)"
  by (simp_all add: or_else_def fun_eq_iff)

lemma or_else_None [simp]: "or_else v None = v"
  by (simp add: or_else_def split: option.split)

lemma sets_string:
  assumes "map_of evlog_json_keys name = Some (Type_string, store_string (\<lambda>s. upd (\<lambda>_. Some s)))" "\<And>ev. upd (\<lambda>x. x) ev = ev"
  shows "sets (opt_item name v) (upd (or_else v))"
  using assms by (cases v) (simp_all add: sets_def opt_item_def store_string_def or_else_simps)

lemma sets_array:
  assumes "map_of evlog_json_keys name = Some (Type_array, store_strvec (\<lambda>v. upd (\<lambda>_. v)))" "\<And>ev. upd (\<lambda>x. x) ev = ev"
    and "int (length (vector v)) < INT_MAX"
  shows "sets (array_item name v) (upd (or_else v))"
  using assms
  by (cases v) (simp_all add: sets_def array_item_def store_strvec_def or_else_simps json_array_to_strvec_def vector_def list_all_iff comp_def Let_def)

lemma sets_id:
  assumes "map_of evlog_json_keys name = Some (Type_id, store_id (\<lambda>n. upd (\<lambda>_. n)))" "\<And>ev. upd (\<lambda>x. x) ev = ev"
  shows "sets (id_item name known i) (upd (\<lambda>old. if known \<and> i \<noteq> - 1 then i else old))"
proof -
  have "ucast (ucast i :: 64 word) = i" by (rule bit_word_eqI) (auto simp: bit_simps)
  then show ?thesis using assms by (cases known; cases "i = - 1") (simp_all add: sets_def id_item_def store_id_def)
qed

lemma sets_number:
  assumes "map_of evlog_json_keys name = Some (Type_number, store_int_in 1 0 (\<lambda>n. upd (\<lambda>_. n)))" "1 \<le> sint i"
  shows "sets (number_item name i) (upd (\<lambda>_. i))"
proof -
  have u: "ucast (scast i :: 64 word) = i" by (rule bit_word_eqI) (auto simp: bit_simps)
  have "sint i < 2 ^ 31" using sint_lt [of i] by simp
  moreover have "sint (scast i :: 64 word) = sint i" by (rule sint_up_scast) (simp add: is_up)
  ultimately show ?thesis using assms u by (simp add: sets_def number_item_def store_int_in_def INT_MAX_def)
qed

lemma sets_time: "sets (time_item ''timestamp'' ts) (ev_event_time_update (\<lambda>_. ts))"
proof -
  have "json_store_timespec [Json_item (Some ''seconds'') (N_number (tv_sec ts)), Json_item (Some ''nanoseconds'') (N_number (tv_nsec ts))] =
      (\<lambda>_. ts)" by (rule ext) simp
  moreover have "map_of evlog_json_keys ''timestamp'' = Some (Type_object, store_time ev_event_time_update)"
    by (simp add: evlog_json_keys_def json_store_timestamp_def)
  ultimately show ?thesis by (simp add: sets_def time_item_def store_time_def)
qed

definition logged :: "eventlog \<Rightarrow> eventlog" where
  \<comment> \<open>what of an event is kept in the file\<close>
  "logged ev = eventlog0\<lparr>ev_event_time := ev_event_time ev, ev_submituser := ev_submituser ev, ev_command := ev_command ev,
     ev_runuser := ev_runuser ev, ev_rungroup := ev_rungroup ev, ev_runchroot := ev_runchroot ev, ev_runcwd := ev_runcwd ev,
     ev_source := ev_source ev, ev_ttyname := ev_ttyname ev, ev_submithost := ev_submithost ev, ev_cwd := ev_cwd ev,
     ev_rungid := if ev_rungroup ev = None then - 1 else ev_rungid ev, ev_runuid := ev_runuid ev, ev_columns := ev_columns ev,
     ev_lines := ev_lines ev, ev_runargv := ev_runargv ev, ev_runenv := ev_runenv ev, ev_submitenv := ev_submitenv ev\<rparr>"

lemma key_strings:
  "map_of evlog_json_keys ''submituser'' = Some (Type_string, store_string (\<lambda>s. ev_submituser_update (\<lambda>_. Some s)))"
  "map_of evlog_json_keys ''command'' = Some (Type_string, store_string (\<lambda>s. ev_command_update (\<lambda>_. Some s)))"
  "map_of evlog_json_keys ''runuser'' = Some (Type_string, store_string (\<lambda>s. ev_runuser_update (\<lambda>_. Some s)))"
  "map_of evlog_json_keys ''rungroup'' = Some (Type_string, store_string (\<lambda>s. ev_rungroup_update (\<lambda>_. Some s)))"
  "map_of evlog_json_keys ''runchroot'' = Some (Type_string, store_string (\<lambda>s. ev_runchroot_update (\<lambda>_. Some s)))"
  "map_of evlog_json_keys ''runcwd'' = Some (Type_string, store_string (\<lambda>s. ev_runcwd_update (\<lambda>_. Some s)))"
  "map_of evlog_json_keys ''source'' = Some (Type_string, store_string (\<lambda>s. ev_source_update (\<lambda>_. Some s)))"
  "map_of evlog_json_keys ''ttyname'' = Some (Type_string, store_string (\<lambda>s. ev_ttyname_update (\<lambda>_. Some s)))"
  "map_of evlog_json_keys ''submithost'' = Some (Type_string, store_string (\<lambda>s. ev_submithost_update (\<lambda>_. Some s)))"
  "map_of evlog_json_keys ''submitcwd'' = Some (Type_string, store_string (\<lambda>s. ev_cwd_update (\<lambda>_. Some s)))"
  by (simp_all add: evlog_json_keys_def json_store_submituser_def json_store_command_def json_store_runuser_def
    json_store_rungroup_def json_store_runchroot_def json_store_runcwd_def json_store_source_def json_store_ttyname_def
    json_store_submithost_def json_store_submitcwd_def)

lemma key_others:
  "map_of evlog_json_keys ''rungid'' = Some (Type_id, store_id (\<lambda>n. ev_rungid_update (\<lambda>_. n)))"
  "map_of evlog_json_keys ''runuid'' = Some (Type_id, store_id (\<lambda>n. ev_runuid_update (\<lambda>_. n)))"
  "map_of evlog_json_keys ''columns'' = Some (Type_number, store_int_in 1 0 (\<lambda>n. ev_columns_update (\<lambda>_. n)))"
  "map_of evlog_json_keys ''lines'' = Some (Type_number, store_int_in 1 0 (\<lambda>n. ev_lines_update (\<lambda>_. n)))"
  "map_of evlog_json_keys ''runargv'' = Some (Type_array, store_strvec (\<lambda>v. ev_runargv_update (\<lambda>_. v)))"
  "map_of evlog_json_keys ''runenv'' = Some (Type_array, store_strvec (\<lambda>v. ev_runenv_update (\<lambda>_. v)))"
  "map_of evlog_json_keys ''submitenv'' = Some (Type_array, store_strvec (\<lambda>v. ev_submitenv_update (\<lambda>_. v)))"
  by (simp_all add: evlog_json_keys_def json_store_rungid_def json_store_runuid_def json_store_columns_def json_store_lines_def
    json_store_runargv_def json_store_runenv_def json_store_submitenv_def)

lemma set_strings:
  "sets (opt_item ''submituser'' v) (ev_submituser_update (or_else v))" "sets (opt_item ''command'' v) (ev_command_update (or_else v))"
  "sets (opt_item ''runuser'' v) (ev_runuser_update (or_else v))" "sets (opt_item ''rungroup'' v) (ev_rungroup_update (or_else v))"
  "sets (opt_item ''runchroot'' v) (ev_runchroot_update (or_else v))" "sets (opt_item ''runcwd'' v) (ev_runcwd_update (or_else v))"
  "sets (opt_item ''source'' v) (ev_source_update (or_else v))" "sets (opt_item ''ttyname'' v) (ev_ttyname_update (or_else v))"
  "sets (opt_item ''submithost'' v) (ev_submithost_update (or_else v))" "sets (opt_item ''submitcwd'' v) (ev_cwd_update (or_else v))"
  by (rule sets_string, rule key_strings, simp)+

lemma set_ids:
  "sets (id_item ''rungid'' known i) (ev_rungid_update (\<lambda>old. if known \<and> i \<noteq> - 1 then i else old))"
  "sets (id_item ''runuid'' known i) (ev_runuid_update (\<lambda>old. if known \<and> i \<noteq> - 1 then i else old))"
  by (rule sets_id, rule key_others, simp)+

lemma set_arrays:
  assumes "int (length (vector v)) < INT_MAX"
  shows "sets (array_item ''runargv'' v) (ev_runargv_update (or_else v))" "sets (array_item ''runenv'' v) (ev_runenv_update (or_else v))"
    "sets (array_item ''submitenv'' v) (ev_submitenv_update (or_else v))"
  by (rule sets_array, rule key_others, simp, rule assms)+

lemma event_items_set:
  assumes "1 \<le> sint (ev_columns ev)" "1 \<le> sint (ev_lines ev)"
    and "int (length (vector (ev_runargv ev))) < INT_MAX" "int (length (vector (ev_runenv ev))) < INT_MAX"
      "int (length (vector (ev_submitenv ev))) < INT_MAX"
  obtains f where "sets (event_items ev) f" "f eventlog0 = logged ev"
proof -
  note arrays = sets_append [OF set_arrays(1) [OF assms(3)] sets_append [OF set_arrays(2) [OF assms(4)] set_arrays(3) [OF assms(5)]]]
  note numbers = sets_append [OF set_ids(1) sets_append [OF set_ids(2) sets_append [OF sets_number [OF key_others(3) assms(1)]
    sets_append [OF sets_number [OF key_others(4) assms(2)] arrays]]]]
  note strings = sets_append [OF set_strings(6) sets_append [OF set_strings(7) sets_append [OF set_strings(8)
    sets_append [OF set_strings(9) sets_append [OF set_strings(10) numbers]]]]]
  note all = sets_append [OF sets_time sets_append [OF set_strings(1) sets_append [OF set_strings(2) sets_append [OF set_strings(3)
    sets_append [OF set_strings(4) sets_append [OF set_strings(5) strings]]]]]]
  show ?thesis
    by (rule that, unfold event_items_def, rule all) (simp add: logged_def eventlog0_def)
qed

text \<open>
  C28. What is written to the file \<open>log.json\<close> of an I/O log is read back as the event it was made of, as far as the file
  keeps it, when lines and columns are at least 1, the strings have no NUL and the vectors
  fewer than \<open>INT_MAX\<close> members; one string that ends in a backslash is enough to lose it all.
\<close>

theorem log_json_read_back:
  assumes "iolog_info_json limit ev = Some text" "limit < 2 ^ 32" "list_all nul_free (event_strings ev)"
    and "1 \<le> sint (ev_columns ev)" "1 \<le> sint (ev_lines ev)"
    and "int (length (vector (ev_runargv ev))) < INT_MAX" "int (length (vector (ev_runenv ev))) < INT_MAX"
      "int (length (vector (ev_submitenv ev))) < INT_MAX"
  shows "iolog_parse_loginfo_json text eventlog0 =
    (if list_ex ends_in_backslash (event_strings ev) then (False, eventlog0) else (True, logged ev))"
proof -
  obtain c c' where w: "sudo_json_init limit 4 False False = Some c" "write_all (map write_item (event_items ev)) c = (True, c')"
    "text = ''{'' @ jc_buf c' @ [CHR 0x0A] @ ''}'' @ [CHR 0x0A]"
    using written_event [OF assms(1)] by metis
  have ok: "list_all (valid_item False) (event_items ev)" "list_all (\<lambda>x. item_depth x < json_maxdepth) (event_items ev)"
    using event_items_valid [OF assms(3)] by (auto simp: item_ok_def list_all_iff)
  obtain f where f: "sets (event_items ev) f" "f eventlog0 = logged ev" using event_items_set [OF assms(4-8)] .
  have "evlog_items (event_items ev) (eventlog0, None) = (True, (logged ev, None))" using f by (simp add: sets_def)
  then have "eventlog_json_parse [Json_item None (N_object (event_items ev))] eventlog0 = (True, logged ev)"
    by (simp add: eventlog_json_parse_def set_iolog_file_def)
  then show ?thesis
    using read_tree [OF w(1) assms(2) w(2) ok] by (simp add: iolog_parse_loginfo_json_def w(3) event_items_bad)
qed

end
