(* ===== verification/JsonSamples.thy ===== *)
theory JsonSamples
  imports JsonProps
begin

text \<open>Concrete instances of the properties of the JSON writer and reader.\<close>

definition sample_items :: "json_item list" where
  "sample_items =
     [Json_item (Some ''user'') (N_string ''al''), Json_item (Some ''argv'') (N_array [Json_item None (N_number 7)]),
      Json_item (Some ''time'') (N_object [Json_item (Some ''ok'') (N_bool True)])]"

definition sample_container :: json_container where
  "sample_container = \<lparr>jc_buf = [], jc_bufsize = 65536, jc_indent_level = 4, jc_indent_increment = 4, jc_minimal = False,
     jc_need_comma = False, jc_quiet = False, jc_limit = 1048576\<rparr>"

lemma sample_container_init: "sudo_json_init 1048576 4 False False = Some sample_container"
  by (simp add: sudo_json_init_def sample_container_def)

lemma jthen_simps: "jthen (True, c) f = f c" "jthen (False, c) f = (False, c)"
  by (simp_all add: jthen_def)

lemma append_buf_room:
  "length (jc_buf c) + length t < jc_bufsize c \<Longrightarrow> json_append_buf t c = (True, c\<lparr>jc_buf := jc_buf c @ t\<rparr>)"
  by (simp add: json_append_buf_def json_ensure.simps jthen_simps)

lemma new_line_room:
  "\<not> jc_minimal c \<Longrightarrow> length (jc_buf c) + 1 + unat (jc_indent_level c) < jc_bufsize c \<Longrightarrow> jc_bufsize c < 2 ^ 32 \<Longrightarrow>
   json_new_line c = (True, c\<lparr>jc_buf := jc_buf c @ CHR 0x0A # replicate (unat (jc_indent_level c)) (CHR '' '')\<rparr>)"
  by (simp add: json_new_line_def json_ensure.simps jthen_simps)

lemmas write_simps = sudo_json_add_value_def sudo_json_add_value_int_def sudo_json_open_object_def sudo_json_open_array_def
  sudo_json_close_object_def sudo_json_close_array_def json_open_def json_close_def json_comma_def
  json_append_string_def json_value_text_def jthen_simps append_buf_room new_line_room json_escape_def ctype_simps
  c_lld_def decimal.simps

lemma sample_written: "fst (write_all (map write_item sample_items) sample_container)"
  by (simp add: sample_items_def sample_container_def write_simps Let_def)

lemma json_read_written_witness:
  "eventlog_json_read (''{'' @ jc_buf (snd (write_all (map write_item sample_items) sample_container)) @ [CHR 0x0A] @ ''}'' @ [CHR 0x0A]) =
   Inr [Json_item None (N_object sample_items)]"
proof -
  have "write_all (map write_item sample_items) sample_container =
      (True, snd (write_all (map write_item sample_items) sample_container))"
    using sample_written by (simp add: prod_eq_iff)
  moreover have "list_all (valid_item False) sample_items" "list_all (\<lambda>x. item_depth x < json_maxdepth) sample_items"
    "\<not> list_ex bad_item sample_items"
    by (simp_all add: sample_items_def good_name_def plain_name_def ends_in_backslash_def json_maxdepth_def ctype_simps)
  ultimately show ?thesis using json_read_written [OF sample_container_init] by simp
qed

definition sample_calls :: "json_call list" where
  "sample_calls = [Open_object (Some ''a''), Add_value (Some ''b'') JSON_ARRAY False, Close_object]"

lemma json_calls_fit_witness:
  "length (jc_buf (json_calls sample_calls sample_container)) < jc_bufsize (json_calls sample_calls sample_container) \<and>
   jc_bufsize (json_calls sample_calls sample_container) \<le> 1048576"
proof -
  have "unat (jc_indent_level (json_calls (take k sample_calls) sample_container)) < 2 ^ 31" if "k \<le> length sample_calls" for k
  proof -
    have "k = 0 \<or> k = 1 \<or> k = 2 \<or> k = 3" using that by (auto simp: sample_calls_def)
    then show ?thesis
      by (elim disjE) (simp_all add: json_calls_def sample_calls_def sample_container_def write_simps Let_def)
  qed
  then show ?thesis using json_calls_fit [OF sample_container_init, of sample_calls] by simp
qed

end
