(* ===== verification/EventLogSamples.thy ===== *)
theory EventLogSamples
  imports EventLogProps JsonSamples
begin

text \<open>A concrete event written and read.\<close>

definition sample_event :: eventlog where
  "sample_event = eventlog0\<lparr>ev_submituser := Some ''al'', ev_runuser := Some ''root'', ev_rungroup := Some ''wheel'', ev_rungid := 0,
     ev_runuid := 0, ev_columns := 80, ev_lines := 24, ev_runargv := Some [''ls'', ''-l''],
     ev_event_time := \<lparr>tv_sec = 1700000000, tv_nsec = 5\<rparr>\<rparr>"

lemma sample_event_written: "iolog_info_json 1048576 sample_event \<noteq> None"
  unfolding iolog_info_json_def sample_container_init
  by (simp add: sample_event_def sample_container_def eventlog0_def eventlog_store_json_def json_add_time_def opt_string_def
    opt_strings_def opt_id_def write_simps Let_def)

lemma log_json_read_back_witness:
  "iolog_parse_loginfo_json (the (iolog_info_json 1048576 sample_event)) eventlog0 = (True, sample_event)"
proof -
  have "iolog_info_json 1048576 sample_event = Some (the (iolog_info_json 1048576 sample_event))"
    using sample_event_written by simp
  moreover have "list_all nul_free (event_strings sample_event)" "\<not> list_ex ends_in_backslash (event_strings sample_event)"
    by (simp_all add: sample_event_def eventlog0_def event_strings_def texts_def vector_def nul_free_def ends_in_backslash_def)
  moreover have "1 \<le> sint (ev_columns sample_event)" "1 \<le> sint (ev_lines sample_event)"
    "int (length (vector (ev_runargv sample_event))) < INT_MAX" "int (length (vector (ev_runenv sample_event))) < INT_MAX"
    "int (length (vector (ev_submitenv sample_event))) < INT_MAX"
    by (simp_all add: sample_event_def eventlog0_def vector_def INT_MAX_def)
  moreover have "logged sample_event = sample_event" by (simp add: logged_def sample_event_def eventlog0_def)
  ultimately show ?thesis using log_json_read_back [of 1048576 sample_event] by simp
qed

end
