(* ===== verification/Spec2Isabelle.thy ===== *)
theory Spec2Isabelle
  imports AliasProps CommandProps CanonPath FilesProps MatchAddr PkgVersionProps AuthSamples Timeout DefaultsSamples EventLogSamples
begin

text \<open>
  Verification of the contrib programs of NextBSD.

  The repository bundles several programs; the development covers the security policy of sudo
  (src/src/sudo/dist: the sudoers plugin and the parts of lib/util it rests on) and the version
  comparison of the package manager (src/src/pkg/dist/libpkg/pkg_version.c). Paths below are
  relative to these two directories.

  \<^bold>\<open>How the parts interact.\<close> The sudoers plugin parses policy files into lists of privileges
  and a table of aliases, a red-black tree (redblack.c, alias.c). For a request, sudoers.c
  canonicalises and finds the command (find_path.c, goodpath.c, resolve_cmnd.c, canon_path.c) and
  calls sudoers_lookup (lookup.c), which walks the sources, the privileges and their command
  specifications backwards, the last match winning. The matchers of match.c decide members of the
  user, host, run-as and command lists, with negation and aliases; match_addr.c compares network
  addresses; match_command.c decides one command of a rule, opening the file to check its inode
  and its digest (match_digest.c, filedigest.c, over base64.c, hexchar.c, digest.c and sha2.c).

  \<^bold>\<open>Theories and sources.\<close>
  \<^item> Prelude: lists, options, words and the named collections the others share.
  \<^item> Redblack, RedblackInv, RedblackMap (redblack.c): the tree as a coloured datatype with a
    zipper in the place of parent pointers; search order, colours and black height are preserved
    by insertion and deletion, and the tree is a map (the locale interpreted there).
  \<^item> Alias, AliasProps (alias.c): the table with its used flags and sequence number, the step
    relation of its operations and the invariant of what they reach.
  \<^item> Sudoers, Samples: the parsed policy and the contexts (parse.h, sudoers.h, def_data.h), and
    the concrete policies the witnesses use.
  \<^item> Strto (strtonum.c, strtoid.c, strtomode.c, strtobool.c, hexchar.c), MatchAddr
    (match_addr.c), Match and MatchEval (match.c): functions written as the code has them, loops
    as recursion with an early exit, and the reference reading of a list of members.
  \<^item> Lookup, LookupProps (lookup.c, the list walking of sudo_nss.c and sudoers.c): the passes of
    the lookup with their flags, and the verdict as the last matching rule.
  \<^item> Base64 (base64.c), Sha2 (sha2.c), Sha2Fips (the text of the standard, independent of
    the code), Sha2Props: contexts as the C structures, updates block by block.
  \<^item> Files, FilesProps (goodpath.c, find_path.c, resolve_cmnd.c, sudoers.c, basename.c, strsplit.c) and
    CanonPath (canon_path.c): the search of a command, and the reference-counted cache of
    canonical names.
  \<^item> Digest (match_digest.c, filedigest.c), Regex (regex.c), CommandMatch
    (match_command.c): the code with its table of open descriptors passed through every call.
    CommandSpec is the descriptor-free specification, CommandProps what follows from it.
  \<^item> Parseln (parseln.c), EnvPattern (env_pattern.c), Env, EnvBuild, EnvFile (env.c,
    sudoers_hooks.c, and the order of sudoers_check_cmnd in sudoers.c): the array of the environment with its recorded
    length and size, and the steps of rebuild_env in their order; a step may fault when it would
    write outside the array. EnvStore, EnvProps, EnvVars, EnvLists, EnvTotal, EnvPolicy hold the
    invariants and what the new environment contains, EnvSamples the concrete instances.
  \<^item> Timestamp, TimestampOps (timestamp.c, timestamp.h, the time macros of sudo_util.h): records of
    56 bytes in a file with an offset and locks, and the operations on it, each read, write, lock and
    truncation with its failure. TimestampRecords reads a file as a list of records,
    TimestampSafety has the histories of operations of any processes, TimestampFaults what happens
    when things go wrong, TimestampSamples the concrete instances.
  \<^item> Prompt (prompt.c) and Timeout (timeout.c).
  \<^item> Auth (sudo_auth.c), CheckUser (check.c): the table of authentication methods as records of
    functions, the tries of a user, and check_user around the time stamp file. A
    question to the user is a tree of replies and suspensions, because suspending sudo drops the lock on the
    file. AuthTickets carries an invariant of the file through a run, AuthProps the trace of a
    verification, AuthHistory the sequences of runs, AuthSamples the concrete instances.
  \<^item> Defaults, DefaultsUpdate (defaults.c, logfac.c, logpri.c): the table of settings, how an entry
    is parsed and stored, and the passes of update_defaults and check_defaults with the callbacks of
    the table. DefaultsProps has the types of the values, DefaultsSet what an update and a check
    say of the table, DefaultsValues the times, DefaultsSamples the concrete instances.
  \<^item> JsonWrite (lib/util/json.c) and JsonRead (the reader in lib/eventlog/parse_json.c): the container with
    its buffer, every call with what happens when memory runs out, and the reader line by line and
    token by token with its stack. JsonText says what a line of text does to the reader, JsonTree writes trees and says what
    lines they are, JsonProps joins the two, JsonSamples has the concrete instances.
  \<^item> EventLog (the setters of parse_json.c, eventlog_store_json of lib/eventlog/eventlog.c, lib/iolog/iolog_loginfo.c and
    iolog_json.c): the event of an I/O log, written to log.json and read with the table of keys. EventLogProps has the
    round trip, EventLogSamples a concrete event.
  \<^item> PkgVersion, PkgVersionProps (pkg_version.c): the comparison character by character, and the
    lexicographic order of epoch, blocks and revision it computes.

  \<^bold>\<open>What the lemmas show.\<close> Invariants: the trees stay balanced search trees, the alias table and
  the cache of canonical names keep their representation, descriptors are neither leaked nor
  closed twice, the environment stays within its array and JSON text within its buffer, a time stamp file is a sequence of records
  whose enabled ones an update has earned, every setting keeps a value of its type. Refinement: command matching implements its pure specification, the digests
  are those of the standard, version comparison is the order of its blocks. Round trips: base64, environment files, and trees written and read as JSON.
  Function: the last matching rule decides, in each list and in the whole lookup; the first usable
  directory of the search path wins; canonical names are what the system said when first asked; when
  a ticket is current; the entries of a name decide its setting one after the other, and entries that pass the
  check are set. Safety: a digest rule lets only the file through that has the digest; every
  entry of a command's environment is allowed and PATH is the secure one; check_user lets
  no one through without a password unless exempt or with a ticket that goes back to a verification in the
  same session. Errors and bounds: what the parsers of numbers, times and prompts accept and report, the room an encoder
  needs, the tries of a password, and the inputs on which the code does something its documentation does not say.

  \<^bold>\<open>Bounds and fuel.\<close> Nothing runs on fuel. Loops are structural recursion or functions with a
  measure: the expansion of aliases ends because the code marks an alias as used while it is
  expanded, so the unused aliases of the table decrease; the search of a time stamp record
  advances in the file. The loop of sudo -k may run for ever and is a partial function whose value is None
  then; both are shown, that it returns when writes succeed and that it does not when they keep failing.
  The tries of a password are bounded by passwd_tries. The SHA-2 contexts count
  bits in 64-bit words as the code does; the equivalence with the standard has the standard's
  own bound on the length of a message as its hypothesis. The reference counts of canonical names are 32-bit words,
  with a bound on the references held; sizes of prompts are 64-bit, timeouts
  32-bit, times 64-bit words. The size of a JSON buffer is a number below 2^32 (a bound of the
  allocator, the hypothesis of its properties); lines and tokens get shorter.

  \<^bold>\<open>Outside the model.\<close> The operating system and the C library beyond strings and numbers
  are functions of records (lookup of users and groups, stat, open, realpath, fnmatch, glob,
  regexec, inet_pton, the clock); allocation succeeds unless a function says otherwise.
  The authentication methods (PAM, passwd and the others), the terminal and the process table are functions
  of the environment of a run.

  \<^bold>\<open>Not modelled.\<close> The generated scanner and grammar of sudoers files and the printing of them (the model
  starts from the parsed policy); the initial values and the printing of the settings (the other models take
  the settings they read as arguments); the cache of users and groups, which only counts references; the creation of the time stamp directory and of the lecture files,
  and generalized times, which are calls of the system; the front ends and their process control, logging and
  I/O logs (the formatting of events for log files and syslog included), LDAP and SSSD sources, which are system calls and network protocols; the database, network
  and solver code of pkg and its bundled libraries; zsh and pico, upstream programs
  kept here unmodified, and the scripts that build and trim the repository.
\<close>

end
